(* ===== verification/Prelude.thy ===== *)
theory Prelude
  imports Complex_Main "HOL-Library.AList" "HOL-Library.Multiset" "HOL-Library.Char_ord"
    "HOL-Library.List_Lexorder"
begin

text \<open>
  Shared vocabulary of the development.

  \<^item> Python dictionaries keep insertion order, so a \<open>dict\<close> is an association list
    with distinct keys: \<open>map_of\<close> reads it, \<open>AList.update\<close> stores (in place for a
    known key, at the end for a new one) and \<open>AList.delete\<close> removes.  \<open>dsum\<close> and
    \<open>dall\<close> sum and test the values; their update and delete laws carry the
    conservation proofs of the ledgers.
  \<^item> A method that mutates its object and may raise is a function into
    \<open>'s \<times> ('e + 'a)\<close>: the state the object is left in, and the exception
    (\<open>Inl\<close>) or the returned value (\<open>Inr\<close>).  The state is kept on the error
    branch too, because a Python exception does not undo earlier assignments.
  \<^item> A validator that returns nothing is an \<open>'e option\<close>: the first exception it
    raises, if any.  \<open>first_err\<close> runs a list of such checks in order and
    \<open>guard\<close> is one check.
  \<^item> \<open>rbind\<close> and \<open>collect\<close> sequence fallible computations; \<open>constructed\<close> is an object
    construction guarded by its checks.
  \<^item> Three locales state what such machines promise: \<open>invariant_machine\<close> (every
    operation keeps an invariant), \<open>guarded_machine\<close> (accepted operations keep it) and
    \<open>atomic_machine\<close> (rejected operations in addition change nothing), which is an
    \<open>invariant_machine\<close>.
\<close>

named_theorems machine_simps \<open>unfolding rules of the components' operations\<close>
named_theorems inv_intros \<open>introduction rules for the components' invariants\<close>

subsection \<open>Text\<close>

text \<open>
  Strings are sequences of code points below 256.  \<open>py_isspace\<close> lists the ones that
  \<open>str.strip\<close> removes, so \<open>nonblank s\<close> is Python's \<open>bool(s.strip())\<close>.
\<close>

definition py_isspace :: "char \<Rightarrow> bool" where
  "py_isspace c = ((of_char c :: nat) \<in> {9, 10, 11, 12, 13, 28, 29, 30, 31, 32, 133, 160})"

definition nonblank :: "string \<Rightarrow> bool" where
  "nonblank s = list_ex (\<lambda>c. \<not> py_isspace c) s"

lemma nonblank_not_Nil: "nonblank s \<Longrightarrow> s \<noteq> []"
  by (auto simp: nonblank_def)

text \<open>A separator that occurs in neither left part splits a text in one way.\<close>

lemma append_sep_inj:
  assumes "z \<notin> set xs" "z \<notin> set us" shows "xs @ z # ys = us @ z # vs \<longleftrightarrow> xs = us \<and> ys = vs"
  using assms
proof (induction xs arbitrary: us)
  case Nil
  then show ?case by (cases us) auto
next
  case (Cons x xs)
  then show ?case by (cases us) auto
qed

subsection \<open>Checks\<close>

definition guard :: "bool \<Rightarrow> 'e \<Rightarrow> 'e option" where
  "guard c e = (if c then None else Some e)"

fun first_err :: "'e option list \<Rightarrow> 'e option" where
  "first_err [] = None"
| "first_err (None # cs) = first_err cs"
| "first_err (Some e # cs) = Some e"

lemma guard_None [simp]: "guard c e = None \<longleftrightarrow> c"
  by (simp add: guard_def)

lemma guard_Some [simp]: "guard c e = Some e' \<longleftrightarrow> \<not> c \<and> e' = e"
  by (auto simp: guard_def)

lemma first_err_Cons_None [simp]: "first_err (c # cs) = None \<longleftrightarrow> c = None \<and> first_err cs = None"
  by (cases c) auto

lemma first_err_None_iff: "first_err cs = None \<longleftrightarrow> (\<forall>c \<in> set cs. c = None)"
  by (induction cs) auto

lemma first_err_append:
  "first_err (xs @ ys) = (case first_err xs of None \<Rightarrow> first_err ys | Some e \<Rightarrow> Some e)"
proof (induction xs)
  case (Cons c cs)
  then show ?case by (cases c) auto
qed simp

lemma first_err_SomeD: "first_err cs = Some e \<Longrightarrow> Some e \<in> set cs"
proof (induction cs)
  case (Cons c cs)
  then show ?case by (cases c) auto
qed simp

text \<open>Fallible computations in sequence, and a fallible function over a list.\<close>

definition rbind :: "'e + 'a \<Rightarrow> ('a \<Rightarrow> 'e + 'b) \<Rightarrow> 'e + 'b" where
  "rbind r f = (case r of Inl e \<Rightarrow> Inl e | Inr a \<Rightarrow> f a)"

lemma rbind_simps [simp]: "rbind (Inl e) f = Inl e" "rbind (Inr a) f = f a"
  by (simp_all add: rbind_def)

lemma rbind_Inr_iff: "rbind r f = Inr b \<longleftrightarrow> (\<exists>a. r = Inr a \<and> f a = Inr b)"
  by (cases r) auto

fun collect :: "('a \<Rightarrow> 'e + 'b) \<Rightarrow> 'a list \<Rightarrow> 'e + 'b list" where
  "collect f [] = Inr []"
| "collect f (x # xs) = rbind (f x) (\<lambda>y. rbind (collect f xs) (\<lambda>ys. Inr (y # ys)))"

lemma collect_map: "(\<And>x. x \<in> set xs \<Longrightarrow> f (g x) = Inr (h x)) \<Longrightarrow> collect f (map g xs) = Inr (map h xs)"
  by (induction xs) auto

definition constructed :: "'e option \<Rightarrow> 'a \<Rightarrow> 'e + 'a" where
  "constructed check x = (case check of None \<Rightarrow> Inr x | Some e \<Rightarrow> Inl e)"

lemma constructed_None [simp]: "check = None \<Longrightarrow> constructed check x = Inr x"
  by (simp add: constructed_def)

lemma constructed_Inr_iff: "constructed check x = Inr y \<longleftrightarrow> check = None \<and> y = x"
  by (auto simp: constructed_def split: option.splits)

subsection \<open>Dictionaries\<close>

type_synonym ('k, 'v) dict = "('k \<times> 'v) list"

abbreviation dict_ok :: "('k, 'v) dict \<Rightarrow> bool" where
  "dict_ok d \<equiv> distinct (map fst d)"

abbreviation dict_get :: "('k, 'v) dict \<Rightarrow> 'k \<Rightarrow> 'v \<Rightarrow> 'v" where
  "dict_get d k dflt \<equiv> (case map_of d k of None \<Rightarrow> dflt | Some v \<Rightarrow> v)"

definition dsum :: "('v \<Rightarrow> int) \<Rightarrow> ('k, 'v) dict \<Rightarrow> int" where
  "dsum f d = sum_list (map (\<lambda>p. f (snd p)) d)"

definition dall :: "('v \<Rightarrow> bool) \<Rightarrow> ('k, 'v) dict \<Rightarrow> bool" where
  "dall P d = list_all (\<lambda>p. P (snd p)) d"

abbreviation b2i :: "bool \<Rightarrow> int" where
  "b2i b \<equiv> (if b then 1 else 0)"

lemma dsum_simps [simp]:
  "dsum f [] = 0"
  "dsum f (p # d) = f (snd p) + dsum f d"
  by (simp_all add: dsum_def)

lemma dsum_nonneg: "dall (\<lambda>v. 0 \<le> f v) d \<Longrightarrow> 0 \<le> dsum f d"
  by (induction d) (auto simp: dall_def)

lemma dsum_add: "dsum (\<lambda>v. f v + g v) d = dsum f d + dsum g d"
  by (induction d) auto

lemma dsum_cong: "(\<And>k v. (k, v) \<in> set d \<Longrightarrow> f v = g v) \<Longrightarrow> dsum f d = dsum g d"
  by (induction d) force+

lemma dsum_mono: "dall (\<lambda>v. f v \<le> g v) d \<Longrightarrow> dsum f d \<le> dsum g d"
  by (induction d) (auto simp: dall_def)

lemma dsum_count: "dsum (\<lambda>_. 1) d = int (length d)"
  by (induction d) auto

lemma dict_ok_update [simp]: "dict_ok d \<Longrightarrow> dict_ok (AList.update k v d)"
  by (rule AList.distinct_update)

lemma dict_ok_delete [simp]: "dict_ok d \<Longrightarrow> dict_ok (AList.delete k d)"
  by (simp add: AList.distinct_delete)

lemma map_of_update [simp]: "map_of (AList.update k v d) = (map_of d)(k \<mapsto> v)"
  by (rule AList.update_conv')

lemma map_of_delete [simp]: "map_of (AList.delete k d) = (map_of d)(k := None)"
  by (rule AList.delete_conv')

lemma update_append_fresh: "k \<notin> fst ` set d \<Longrightarrow> AList.update k v d = d @ [(k, v)]"
  by (induction d) auto

lemma fold_update_fresh:
  "distinct (map fst d @ map k xs) \<Longrightarrow>
   fold (\<lambda>x d. AList.update (k x) (v x) d) xs d = d @ map (\<lambda>x. (k x, v x)) xs"
  by (induction xs arbitrary: d) (auto simp: update_append_fresh)

lemma dsum_update:
  "dict_ok d \<Longrightarrow>
   dsum f (AList.update k v d) = dsum f d + f v - (case map_of d k of None \<Rightarrow> 0 | Some w \<Rightarrow> f w)"
  by (induction d) (auto simp: map_of_eq_None_iff)

lemma delete_absent: "k \<notin> fst ` set d \<Longrightarrow> AList.delete k d = d"
  by (induction d) auto

lemma dsum_delete:
  "dict_ok d \<Longrightarrow>
   dsum f (AList.delete k d) = dsum f d - (case map_of d k of None \<Rightarrow> 0 | Some w \<Rightarrow> f w)"
  by (induction d) (auto simp: delete_absent)

lemma dall_update [intro]: "dall P d \<Longrightarrow> P v \<Longrightarrow> dall P (AList.update k v d)"
  by (induction d) (auto simp: dall_def)

lemma dall_delete [intro]: "dall P d \<Longrightarrow> dall P (AList.delete k d)"
  by (induction d) (auto simp: dall_def)

lemma dall_get: "dall P d \<Longrightarrow> map_of d k = Some v \<Longrightarrow> P v"
  by (induction d) (auto simp: dall_def split: if_splits)

lemma dall_alt: "dict_ok d \<Longrightarrow> dall P d \<longleftrightarrow> (\<forall>k v. map_of d k = Some v \<longrightarrow> P v)"
  by (auto simp: dall_def list_all_iff dest: map_of_SomeD)

lemma dall_mono: "dall P d \<Longrightarrow> (\<And>v. P v \<Longrightarrow> Q v) \<Longrightarrow> dall Q d"
  by (auto simp: dall_def list_all_iff)

lemma dall_conj: "dall P d \<Longrightarrow> dall Q d \<Longrightarrow> dall (\<lambda>v. P v \<and> Q v) d"
  by (auto simp: dall_def list_all_iff)

lemma dsum_ge_member: "dall (\<lambda>v. 0 \<le> f v) d \<Longrightarrow> map_of d k = Some v \<Longrightarrow> f v \<le> dsum f d"
proof (induction d)
  case (Cons p d)
  have "0 \<le> dsum f d" using Cons.prems(1) by (intro dsum_nonneg) (simp add: dall_def)
  with Cons show ?case by (auto simp: dall_def split: if_splits)
qed simp

lemma dsum_zero: "dall (\<lambda>v. 0 \<le> f v) d \<Longrightarrow> dsum f d = 0 \<Longrightarrow> map_of d k = Some v \<Longrightarrow> f v = 0"
  using dsum_ge_member [of f d k v] dall_get [of "\<lambda>v. 0 \<le> f v" d k v] by simp

lemma map_fst_delete: "map fst (AList.delete k d) = removeAll k (map fst d)"
  by (rule AList.delete_keys)

subsection \<open>Sorted lists\<close>

lemma sum_list_sort_key: "sum_list (map f (sort_key k xs)) = (sum_list (map f xs) :: int)"
  unfolding sum_mset_sum_list [symmetric] mset_map mset_sort ..

lemma sorted_map_snoc:
  "sorted (map f xs) \<Longrightarrow> xs = [] \<or> f (last xs) \<le> f x \<Longrightarrow> sorted (map f (xs @ [x]))"
  by (induction xs rule: rev_induct) (force simp: sorted_append)+

subsection \<open>Machines: operations that mutate and may raise\<close>

text \<open>
  \<open>run_all step s ops\<close> performs the operations in order and stops at the first
  exception, as a loop or a generator expression over method calls does.
\<close>

fun run_all :: "('s \<Rightarrow> 'o \<Rightarrow> 's \<times> ('e + 'a)) \<Rightarrow> 's \<Rightarrow> 'o list \<Rightarrow> 's \<times> ('e + 'a list)" where
  "run_all step s [] = (s, Inr [])"
| "run_all step s (x # xs) =
     (case step s x of
        (s', Inl e) \<Rightarrow> (s', Inl e)
      | (s', Inr a) \<Rightarrow>
          (case run_all step s' xs of
             (s'', Inl e) \<Rightarrow> (s'', Inl e)
           | (s'', Inr as) \<Rightarrow> (s'', Inr (a # as))))"

lemma run_all_append:
  "run_all step s (xs @ ys) =
     (case run_all step s xs of
        (s', Inl e) \<Rightarrow> (s', Inl e)
      | (s', Inr as) \<Rightarrow>
          (case run_all step s' ys of
             (s'', Inl e) \<Rightarrow> (s'', Inl e)
           | (s'', Inr bs) \<Rightarrow> (s'', Inr (as @ bs))))"
  by (induction xs arbitrary: s) (auto split: prod.splits sum.splits)

lemma run_all_Cons_Inr:
  "run_all step s (x # xs) = (t, Inr ys) \<longleftrightarrow>
     (\<exists>s' a as. step s x = (s', Inr a) \<and> run_all step s' xs = (t, Inr as) \<and> ys = a # as)"
  by (auto split: prod.splits sum.splits)

lemma run_all_length: "run_all step s xs = (t, Inr ys) \<Longrightarrow> length ys = length xs"
proof (induction xs arbitrary: s ys)
  case (Cons x xs)
  from Cons.prems obtain s' a as
    where "run_all step s' xs = (t, Inr as)" "ys = a # as"
    unfolding run_all_Cons_Inr by blast
  then show ?case using Cons.IH by simp
qed simp

abbreviation accepted :: "'s \<times> ('e + 'a) \<Rightarrow> bool" where
  "accepted r \<equiv> \<not> isl (snd r)"

lemma accepted_eta: "accepted r \<Longrightarrow> r = (fst r, Inr (projr (snd r)))"
  by (cases r; cases "snd r") auto

text \<open>The states a machine can be left in, exceptions caught by its caller included.\<close>

inductive reaches :: "('s \<Rightarrow> 'o \<Rightarrow> 's \<times> 'r) \<Rightarrow> 's \<Rightarrow> 's \<Rightarrow> bool" for step where
  reaches_refl: "reaches step s s"
| reaches_step: "reaches step s t \<Longrightarrow> step t x = (t', r) \<Longrightarrow> reaches step s t'"

lemma run_all_reaches: "run_all step s xs = (t, Inr ys) \<Longrightarrow> reaches step r s \<Longrightarrow> reaches step r t"
proof (induction xs arbitrary: s ys)
  case (Cons x xs)
  from Cons.prems(1) obtain s' a as where "step s x = (s', Inr a)" "run_all step s' xs = (t, Inr as)"
    unfolding run_all_Cons_Inr by blast
  then show ?case using Cons.IH [of s' as] Cons.prems(2) reaches_step [of step r s x s' "Inr a"] by blast
qed simp

locale invariant_machine =
  fixes step :: "'s \<Rightarrow> 'o \<Rightarrow> 's \<times> 'r"
    and inv :: "'s \<Rightarrow> bool"
  assumes step_inv: "inv s \<Longrightarrow> step s x = (t, r) \<Longrightarrow> inv t"
begin

lemma reaches_inv: "reaches step s t \<Longrightarrow> inv s \<Longrightarrow> inv t"
  by (induction rule: reaches.induct) (auto intro: step_inv)

end

locale guarded_machine =
  fixes step :: "'s \<Rightarrow> 'o \<Rightarrow> 's \<times> ('e + 'a)"
    and inv :: "'s \<Rightarrow> bool"
  assumes accept_inv: "inv s \<Longrightarrow> step s x = (t, Inr a) \<Longrightarrow> inv t"
begin

lemma run_all_inv: "inv s \<Longrightarrow> run_all step s xs = (t, Inr as) \<Longrightarrow> inv t"
proof (induction xs arbitrary: s as)
  case (Cons x xs)
  from Cons.prems(2) obtain s' a bs
    where "step s x = (s', Inr a)" and rest: "run_all step s' xs = (t, Inr bs)"
    unfolding run_all_Cons_Inr by blast
  with Cons.prems(1) have "inv s'" by (blast intro: accept_inv)
  then show ?case using rest by (rule Cons.IH)
qed simp

end

locale atomic_machine = guarded_machine +
  assumes reject_unchanged: "step s x = (t, Inl e) \<Longrightarrow> t = s"
begin

lemma any_step_inv: "inv s \<Longrightarrow> step s x = (t, r) \<Longrightarrow> inv t"
  using accept_inv reject_unchanged by (cases r) blast+

lemma run_all_reject:
  "run_all step s xs = (t, Inl e) \<Longrightarrow>
   \<exists>ys x zs as. xs = ys @ x # zs \<and> run_all step s ys = (t, Inr as) \<and> step t x = (t, Inl e)"
proof (induction xs arbitrary: s)
  case (Cons x xs)
  show ?case
  proof (cases "step s x")
    case (Pair s' r)
    show ?thesis
    proof (cases r)
      case (Inl d)
      with Pair have s': "s' = s" by (blast intro: reject_unchanged)
      with Cons.prems Pair Inl have "t = s" "d = e" by auto
      with Pair Inl s' show ?thesis
        by (intro exI [of _ "[]"] exI [of _ x] exI [of _ xs]) auto
    next
      case (Inr a)
      with Cons.prems Pair have "run_all step s' xs = (t, Inl e)"
        by (auto split: prod.splits sum.splits)
      then obtain ys y zs as where "xs = ys @ y # zs" "run_all step s' ys = (t, Inr as)"
        "step t y = (t, Inl e)"
        using Cons.IH by blast
      with Pair Inr show ?thesis
        by (intro exI [of _ "x # ys"] exI [of _ y] exI [of _ zs]) auto
    qed
  qed
qed simp

end

sublocale atomic_machine \<subseteq> invariant_machine step inv
  by unfold_locales (fact any_step_inv)

end
