(* ===== verification/Clock.thy ===== *)
theory Clock
  imports Prelude
begin

text \<open>
  The virtual clock of \<open>simllm/core/clock.py\<close>: simulated time in picoseconds and a
  heap of pending events.  \<open>heapq\<close> orders the entries \<open>(at_ps, tie, payload)\<close>;
  the tie numbers are distinct, so payloads are never compared and the entry at
  \<open>heap[0]\<close> and the order of pops are those of the ordered list of entries, which is
  how \<open>heap\<close> is kept here.  The theory shows that draining the clock is a stable sort
  by time, that time advances monotonically as long as no pending event is skipped, and
  that \<open>advance_to\<close> does not enforce that proviso.
\<close>

subsection \<open>State and operations\<close>

type_synonym 'a heap_entry = "int \<times> nat \<times> 'a"

record 'a virtual_clock =
  now_ps :: int
  heap :: "'a heap_entry list"
  tie :: nat

datatype clock_error = ScheduleInPast | NoPendingEvents | RewindRefused

definition entry_less :: "'a heap_entry \<Rightarrow> 'a heap_entry \<Rightarrow> bool" where
  "entry_less e f = (fst e < fst f \<or> fst e = fst f \<and> fst (snd e) < fst (snd f))"

fun heappush :: "'a heap_entry list \<Rightarrow> 'a heap_entry \<Rightarrow> 'a heap_entry list" where
  "heappush [] e = [e]"
| "heappush (f # h) e = (if entry_less e f then e # f # h else f # heappush h e)"

definition new_clock :: "int \<Rightarrow> 'a virtual_clock" where
  "new_clock start_ps = \<lparr>now_ps = start_ps, heap = [], tie = 0\<rparr>"

definition schedule ::
    "'a virtual_clock \<Rightarrow> int \<Rightarrow> 'a \<Rightarrow> 'a virtual_clock \<times> (clock_error + unit)" where
  "schedule c at_ps payload =
     (if at_ps < now_ps c then (c, Inl ScheduleInPast)
      else (c\<lparr>heap := heappush (heap c) (at_ps, tie c, payload), tie := Suc (tie c)\<rparr>, Inr ()))"

definition peek_next_time :: "'a virtual_clock \<Rightarrow> int option" where
  "peek_next_time c = (case heap c of [] \<Rightarrow> None | e # _ \<Rightarrow> Some (fst e))"

definition pop_next :: "'a virtual_clock \<Rightarrow> 'a virtual_clock \<times> (clock_error + int \<times> 'a)" where
  "pop_next c =
     (case heap c of
        [] \<Rightarrow> (c, Inl NoPendingEvents)
      | (at_ps, _, payload) # h \<Rightarrow> (c\<lparr>heap := h, now_ps := at_ps\<rparr>, Inr (at_ps, payload)))"

definition advance_to :: "'a virtual_clock \<Rightarrow> int \<Rightarrow> 'a virtual_clock \<times> (clock_error + unit)" where
  "advance_to c at_ps =
     (if at_ps < now_ps c then (c, Inl RewindRefused) else (c\<lparr>now_ps := at_ps\<rparr>, Inr ()))"

definition clock_len :: "'a virtual_clock \<Rightarrow> nat" where
  "clock_len c = length (heap c)"

lemmas [machine_simps] = schedule_def pop_next_def advance_to_def peek_next_time_def clock_len_def

text \<open>The owner of a clock performs a sequence of these operations.\<close>

datatype 'a clock_op = Schedule int 'a | PopNext | AdvanceTo int

fun clock_step ::
    "'a virtual_clock \<Rightarrow> 'a clock_op \<Rightarrow> 'a virtual_clock \<times> (clock_error + (int \<times> 'a) option)" where
  "clock_step c (Schedule t p) = (let (c', r) = schedule c t p in (c', map_sum id (\<lambda>_. None) r))"
| "clock_step c PopNext = (let (c', r) = pop_next c in (c', map_sum id Some r))"
| "clock_step c (AdvanceTo t) = (let (c', r) = advance_to c t in (c', map_sum id (\<lambda>_. None) r))"

definition schedule_all :: "'a virtual_clock \<Rightarrow> (int \<times> 'a) list \<Rightarrow> 'a virtual_clock" where
  "schedule_all c evs = fold (\<lambda>ev c. fst (schedule c (fst ev) (snd ev))) evs c"

definition drain :: "'a virtual_clock \<Rightarrow> 'a virtual_clock \<times> (clock_error + (int \<times> 'a) list)" where
  "drain c = run_all (\<lambda>c (_::unit). pop_next c) c (replicate (clock_len c) ())"

subsection \<open>The heap order\<close>

definition clock_inv :: "'a virtual_clock \<Rightarrow> bool" where
  "clock_inv c \<longleftrightarrow> sorted_wrt entry_less (heap c) \<and> (\<forall>e \<in> set (heap c). fst (snd e) < tie c)"

text \<open>No pending event lies in the past.\<close>

definition no_skipped :: "'a virtual_clock \<Rightarrow> bool" where
  "no_skipped c \<longleftrightarrow> (\<forall>e \<in> set (heap c). now_ps c \<le> fst e)"

abbreviation project :: "'a heap_entry \<Rightarrow> int \<times> 'a" where
  "project e \<equiv> (fst e, snd (snd e))"

lemma set_heappush [simp]: "set (heappush h e) = insert e (set h)"
  by (induction h) auto

lemma mset_heappush [simp]: "mset (heappush h e) = add_mset e (mset h)"
  by (induction h) auto

lemma entry_less_trans: "entry_less e f \<Longrightarrow> entry_less f g \<Longrightarrow> entry_less e g"
  by (auto simp: entry_less_def)

lemma sorted_heappush:
  assumes "sorted_wrt entry_less h" and "\<forall>f \<in> set h. fst (snd f) \<noteq> fst (snd e)"
  shows "sorted_wrt entry_less (heappush h e)"
  using assms
proof (induction h)
  case (Cons f h)
  show ?case
  proof (cases "entry_less e f")
    case True
    with Cons.prems show ?thesis by (auto intro: entry_less_trans)
  next
    case False
    with Cons.prems have "entry_less f e" by (auto simp: entry_less_def)
    with Cons False show ?thesis by auto
  qed
qed simp

lemma clock_inv_new [inv_intros]: "clock_inv (new_clock t)"
  by (simp add: clock_inv_def new_clock_def)

lemma clock_inv_schedule [inv_intros]:
  "clock_inv c \<Longrightarrow> schedule c t p = (c', r) \<Longrightarrow> clock_inv c'"
  by (fastforce simp: clock_inv_def schedule_def intro!: sorted_heappush split: if_splits)

lemma clock_inv_pop_next [inv_intros]:
  "clock_inv c \<Longrightarrow> pop_next c = (c', r) \<Longrightarrow> clock_inv c'"
  by (fastforce simp: clock_inv_def pop_next_def split: list.splits)

lemma clock_inv_advance_to [inv_intros]:
  "clock_inv c \<Longrightarrow> advance_to c t = (c', r) \<Longrightarrow> clock_inv c'"
  by (fastforce simp: clock_inv_def advance_to_def split: if_splits)

interpretation clk: atomic_machine clock_step clock_inv
proof
  fix s t :: "'a virtual_clock" and x a
  assume "clock_inv s" and "clock_step s x = (t, Inr a)"
  then show "clock_inv t"
    by (cases x) (auto split: prod.splits intro: inv_intros)
next
  fix s t :: "'a virtual_clock" and x and e :: clock_error
  assume "clock_step s x = (t, Inl e)"
  then show "t = s"
    by (cases x) (auto simp: machine_simps split: if_splits list.splits)
qed

subsection \<open>Draining is a stable sort\<close>

text \<open>
  \<open>holds_events c evs\<close>: the heap holds exactly the events \<open>evs\<close>, events with
  equal timestamps in the order of \<open>evs\<close>.
\<close>

definition holds_events :: "'a virtual_clock \<Rightarrow> (int \<times> 'a) list \<Rightarrow> bool" where
  "holds_events c evs \<longleftrightarrow>
     mset (map project (heap c)) = mset evs \<and>
     (\<forall>t. filter (\<lambda>x. t = fst x) (map project (heap c)) = filter (\<lambda>x. t = fst x) evs)"

lemma filter_heappush:
  assumes "sorted_wrt entry_less h" and "\<forall>f \<in> set h. fst (snd f) < k"
  shows "filter (\<lambda>x. t = fst x) (map project (heappush h (a, k, p))) =
         filter (\<lambda>x. t = fst x) (map project h @ [(a, p)])"
  using assms
proof (induction h)
  case (Cons f h)
  show ?case
  proof (cases "entry_less (a, k, p) f")
    case True
    with Cons.prems have later: "\<forall>g \<in> set (f # h). a < fst g"
      by (fastforce simp: entry_less_def)
    then have "t = a \<Longrightarrow> filter (\<lambda>x. t = fst x) (map project (f # h)) = []"
      by (auto simp: filter_empty_conv)
    with True show ?thesis by auto
  next
    case False
    with Cons show ?thesis by auto
  qed
qed simp

lemma holds_events_schedule:
  assumes "clock_inv c" and "holds_events c evs" and "now_ps c \<le> t"
  shows "holds_events (fst (schedule c t p)) (evs @ [(t, p)])"
  using assms by (auto simp: holds_events_def schedule_def clock_inv_def filter_heappush)

lemma schedule_all_holds:
  assumes "clock_inv c" and "holds_events c evs" and "\<forall>ev \<in> set new. now_ps c \<le> fst ev"
  shows "clock_inv (schedule_all c new) \<and> holds_events (schedule_all c new) (evs @ new)"
  using assms
proof (induction new arbitrary: c evs)
  case Nil
  then show ?case by (simp add: schedule_all_def)
next
  case (Cons ev new)
  obtain t p where ev: "ev = (t, p)" by (cases ev)
  let ?c = "fst (schedule c t p)"
  have "clock_inv ?c" using Cons.prems(1) by (cases "schedule c t p") (simp add: clock_inv_schedule)
  moreover have "holds_events ?c (evs @ [ev])"
    using Cons.prems ev by (simp add: holds_events_schedule)
  moreover have "now_ps ?c = now_ps c" by (simp add: schedule_def)
  ultimately have "clock_inv (schedule_all ?c new) \<and> holds_events (schedule_all ?c new) ((evs @ [ev]) @ new)"
    using Cons.prems(3) by (intro Cons.IH) auto
  then show ?case using ev by (simp add: schedule_all_def)
qed

lemma heap_is_sort:
  assumes "clock_inv c" and "holds_events c evs"
  shows "map project (heap c) = sort_key fst evs"
proof (rule properties_for_sort_key [symmetric])
  show "mset (map project (heap c)) = mset evs"
    using assms(2) by (simp add: holds_events_def)
  show "filter (\<lambda>x. fst k = fst x) (map project (heap c)) = filter (\<lambda>x. fst k = fst x) evs" for k
    using assms(2) unfolding holds_events_def by blast
  have "sorted_wrt entry_less (heap c)" using assms(1) by (simp add: clock_inv_def)
  then have "sorted (map fst (heap c))"
    by (simp add: sorted_wrt_map) (erule sorted_wrt_mono_rel [rotated], auto simp: entry_less_def)
  then show "sorted (map fst (map project (heap c)))" by (simp add: comp_def)
qed

lemma drain_heap:
  "run_all (\<lambda>c (_::unit). pop_next c) c (replicate (length (heap c)) ()) =
   (c\<lparr>heap := [], now_ps := (if heap c = [] then now_ps c else fst (last (heap c)))\<rparr>,
    Inr (map project (heap c)))"
proof (induction "heap c" arbitrary: c)
  case Nil
  then show ?case by simp
next
  case (Cons e h)
  obtain a k p where e: "e = (a, k, p)" by (cases e)
  let ?c = "c\<lparr>heap := h, now_ps := a\<rparr>"
  have "pop_next c = (?c, Inr (a, p))"
    using Cons.hyps(2) [symmetric] e by (simp add: pop_next_def)
  moreover have "run_all (\<lambda>c (_::unit). pop_next c) ?c (replicate (length h) ()) =
     (?c\<lparr>heap := [], now_ps := (if h = [] then a else fst (last h))\<rparr>, Inr (map project h))"
    using Cons.hyps(1) [of ?c] by simp
  ultimately show ?case using Cons.hyps(2) [symmetric] e by simp
qed

text \<open>
  C6. Draining a fresh clock on which the events \<open>evs\<close> (none before the start time)
  were scheduled never raises and returns exactly those events sorted by time, events
  with the same timestamp in the order in which they were scheduled.
\<close>

theorem drain_stable_sort:
  fixes evs :: "(int \<times> 'a) list"
  assumes "\<forall>ev \<in> set evs. start_ps \<le> fst ev"
  shows "snd (drain (schedule_all (new_clock start_ps) evs)) = Inr (sort_key fst evs)"
proof -
  let ?c = "schedule_all (new_clock start_ps) evs"
  have "holds_events (new_clock start_ps :: 'a virtual_clock) []"
    by (simp add: holds_events_def new_clock_def)
  then have "clock_inv ?c \<and> holds_events ?c ([] @ evs)"
    using assms by (intro schedule_all_holds) (auto simp: new_clock_def clock_inv_def)
  then have "map project (heap ?c) = sort_key fst evs" by (auto intro: heap_is_sort)
  then show ?thesis by (simp add: drain_def clock_len_def drain_heap)
qed

theorem drain_stable_sort_witness:
  "snd (drain (schedule_all (new_clock 0) [(5, ''a''), (3, ''b''), (5, ''c'')])) =
   Inr [(3::int, ''b''), (5, ''a''), (5, ''c'')]"
  using drain_stable_sort [of "[(5, ''a''), (3, ''b''), (5, ''c'')]" 0] by simp

subsection \<open>Monotone time\<close>

definition respects_pending :: "'a virtual_clock \<Rightarrow> 'a clock_op \<Rightarrow> bool" where
  "respects_pending c x =
     (case x of AdvanceTo t \<Rightarrow> (case peek_next_time c of None \<Rightarrow> True | Some n \<Rightarrow> t \<le> n) | _ \<Rightarrow> True)"

fun run_respects :: "'a virtual_clock \<Rightarrow> 'a clock_op list \<Rightarrow> bool" where
  "run_respects c [] = True"
| "run_respects c (x # xs) = (respects_pending c x \<and> run_respects (fst (clock_step c x)) xs)"

fun clock_times :: "'a virtual_clock \<Rightarrow> 'a clock_op list \<Rightarrow> int list" where
  "clock_times c [] = [now_ps c]"
| "clock_times c (x # xs) = now_ps c # clock_times (fst (clock_step c x)) xs"

lemma clock_step_monotone:
  assumes "clock_inv c" and "no_skipped c" and "respects_pending c x"
  shows "now_ps c \<le> now_ps (fst (clock_step c x)) \<and> no_skipped (fst (clock_step c x))"
proof (cases x)
  case (Schedule t p)
  with assms show ?thesis by (auto simp: schedule_def no_skipped_def)
next
  case PopNext
  with assms show ?thesis
    by (fastforce simp: pop_next_def no_skipped_def clock_inv_def entry_less_def split: list.splits)
next
  case (AdvanceTo t)
  with assms show ?thesis
    by (fastforce simp: advance_to_def respects_pending_def peek_next_time_def no_skipped_def
        clock_inv_def entry_less_def split: list.splits)
qed

lemma clock_times_hd: "xs = clock_times c ops \<Longrightarrow> xs \<noteq> [] \<and> hd xs = now_ps c"
  by (cases ops) auto

text \<open>
  Time never runs backwards: along every sequence of \<open>schedule\<close>, \<open>pop_next\<close>
  and \<open>advance_to\<close> calls on a fresh clock, refused calls included, the successive
  values of \<open>now_ps\<close> are nondecreasing, provided no \<open>advance_to\<close> jumps over the
  earliest pending event.
\<close>

theorem clock_times_sorted:
  assumes "run_respects (new_clock start_ps) ops"
  shows "sorted (clock_times (new_clock start_ps) ops)"
proof -
  have gen: "sorted (clock_times c ops)"
    if "clock_inv c" "no_skipped c" "run_respects c ops" for c :: "'a virtual_clock" and ops
    using that
  proof (induction ops arbitrary: c)
    case (Cons x ops)
    let ?c = "fst (clock_step c x)"
    have mono: "now_ps c \<le> now_ps ?c" "no_skipped ?c"
      using clock_step_monotone [of c x] Cons.prems by auto
    have "clock_inv ?c" using clk.step_inv [OF Cons.prems(1)] by (cases "clock_step c x") auto
    with Cons mono have "sorted (clock_times ?c ops)" by simp
    moreover have "hd (clock_times ?c ops) = now_ps ?c" "clock_times ?c ops \<noteq> []"
      using clock_times_hd by blast+
    ultimately show ?case using mono(1) by (cases "clock_times ?c ops") auto
  qed simp
  show ?thesis
    by (rule gen) (use assms in \<open>auto simp: clock_inv_def no_skipped_def new_clock_def\<close>)
qed

theorem clock_times_sorted_witness:
  "sorted (clock_times (new_clock 0) [Schedule 7 ''a'', AdvanceTo 4, Schedule 2 ''b'', PopNext])"
  by (rule clock_times_sorted)
    (simp add: new_clock_def respects_pending_def machine_simps)


end
