(* ===== verification/Execution.thy ===== *)
theory Execution
  imports Prelude
begin

text \<open>
  The execution and completion contracts of \<open>simllm/core/execution.py\<close>: the data that
  crosses the boundary between the framework, the lowerers, the device runtime and the
  ledgers.  Enumerations are datatypes with the source's members, frozen dataclasses are
  records (fields prefixed where Python reuses a name), the union \<open>WorkPayload\<close> is a
  datatype.  A finite Python float is a rational; \<open>CNonFinite\<close> stands for the NaN and
  infinite floats, which the ledgers reject.
\<close>

subsection \<open>Vocabularies\<close>

datatype config_scalar = CStr string | CInt int | CFloat rat | CNonFinite | CBool bool

datatype kv_cache_action =
    RESERVE | ALLOCATE | BIND_PREFIX | TOUCH | READ | WRITE | RETAIN | RELEASE | EVICT | FREE
  | SWAP | TRANSFER | RECOMPUTE

datatype control_mode = ASYNCHRONOUS | SYNCHRONOUS

datatype resource_kind =
    HOST_LAUNCH_QUEUE | CUDA_STREAM | GPU_WORK_QUEUE | GPU_SCHEDULER | HBM_QUEUE | COPY_ENGINE
  | NVLINK | NCCL_CHANNEL | NIC_SEND_QUEUE | NIC_RECEIVE_QUEUE | NIC | COMPLETION_QUEUE
  | CONTROL_QUEUE

datatype event_phase = SUBMITTED | QUEUED | STARTED | PROGRESS | COMPLETED

datatype dependency_scope = WHOLE_OPERATION | PARTICIPANT_LOCAL

datatype dependency_origin = EXPLICIT | LOGICAL_QUEUE_FIFO

subsection \<open>Work payloads\<close>

record compute_work =
  cw_kernel :: string
  cw_config :: "(string \<times> config_scalar) list"
  cw_flops :: "int option"
  cw_hbm_bytes :: "int option"
  cw_nominal_duration_ps :: "int option"
  cw_uncertainty_fraction :: "rat option"
  cw_scope :: string

record kv_cache_work =
  kw_action :: kv_cache_action
  kw_pool_id :: string
  kw_request_id :: "string option"
  kw_block_ids :: "string list"
  kw_token_start :: "int option"
  kw_token_end :: "int option"
  kw_layer :: "int option"
  kw_dtype :: "string option"
  kw_byte_count :: int
  kw_placement_epoch :: int
  kw_reference_count :: "int option"
  kw_cause :: "string option"
  kw_correlation_id :: "string option"

record dma_work =
  dw_descriptor_id :: string
  dw_source :: string
  dw_destination :: string
  dw_byte_count :: int

record collective_work =
  lw_collective :: string
  lw_ranks :: "int list"
  lw_payload_bytes :: int
  lw_algorithm_hint :: "string option"
  lw_channel_hint :: "string option"
  lw_pair_payload_bytes :: "(int \<times> int \<times> int) list"
  lw_request_pair_payload_bytes :: "(string \<times> int \<times> int \<times> int) list"

record control_work =
  xw_message :: string
  xw_destination_ranks :: "int list"
  xw_payload_bytes :: int
  xw_mode :: control_mode

datatype work_payload =
    ComputeWork compute_work
  | KvCacheWork kv_cache_work
  | DmaWork dma_work
  | CollectiveWork collective_work
  | ControlWork control_work

subsection \<open>Collective plans\<close>

datatype plan_action_kind = SEND | RECEIVE

record plan_round =
  pr_round_index :: int
  pr_tag :: int
  pr_channel_id :: string

record plan_action =
  pa_action_id :: string
  pa_rank :: int
  pa_kind :: plan_action_kind
  pa_extent_id :: string
  pa_depends_on :: "string list"

record plan_extent =
  pe_extent_id :: string
  pe_round_index :: int
  pe_source_rank :: int
  pe_destination_rank :: int
  pe_payload_bytes :: int
  pe_send_action_id :: string
  pe_receive_action_id :: string
  pe_request_payload_bytes :: "(string \<times> int) list"

record collective_plan =
  cp_operation_id :: string
  cp_collective :: string
  cp_algorithm :: string
  cp_channel_id :: string
  cp_rank_order :: "int list"
  cp_payload_bytes :: int
  cp_pair_payload_bytes :: "(int \<times> int \<times> int) list"
  cp_request_pair_payload_bytes :: "(string \<times> int \<times> int \<times> int) list"
  cp_rounds :: "plan_round list"
  cp_actions :: "plan_action list"
  cp_extents :: "plan_extent list"
  cp_entry_action_ids :: "(int \<times> string list) list"
  cp_terminal_action_ids :: "(int \<times> string list) list"
  cp_integrity_sha256 :: string

subsection \<open>Graphs\<close>

record operation_correlation =
  oc_request_ids :: "string list"
  oc_batch_id :: "string option"
  oc_layer :: "int option"
  oc_microbatch :: "int option"
  oc_iteration :: "int option"

definition empty_correlation :: operation_correlation where
  "empty_correlation =
     \<lparr>oc_request_ids = [], oc_batch_id = None, oc_layer = None, oc_microbatch = None,
      oc_iteration = None\<rparr>"

record execution_operation =
  op_operation_id :: string
  op_rank :: int
  op_logical_queue :: string
  op_work :: work_payload
  op_depends_on :: "string list"
  op_not_before_ps :: int
  op_priority :: int
  op_correlation :: operation_correlation
  op_placement_epoch :: int
  op_participant_local_depends_on :: "string list"

record execution_observations =
  ob_operations :: "execution_operation list"
  ob_completion_operation_ids :: "string list"

record execution_graph =
  eg_execution_id :: string
  eg_step_index :: int
  eg_released_at_ps :: int
  eg_operations :: "execution_operation list"
  eg_completion_operation_ids :: "string list"
  eg_collective_plans :: "collective_plan list"

record effective_dependency_edge =
  ed_predecessor_id :: string
  ed_operation_id :: string
  ed_scope :: dependency_scope
  ed_origin :: dependency_origin
  ed_participant_rank :: "int option"

subsection \<open>Completion\<close>

record resource_ref =
  rr_kind :: resource_kind
  rr_resource_id :: string

record completion_event =
  ce_execution_id :: string
  ce_operation_id :: string
  ce_phase :: event_phase
  ce_timestamp_ps :: int
  ce_resource :: "resource_ref option"
  ce_completed_bytes :: "int option"
  ce_subject_object_id :: "string option"

record execution_result =
  er_execution_id :: string
  er_completed_at_ps :: int
  er_events :: "completion_event list"
  er_quiesced_at_ps :: "int option"

subsection \<open>Executability of compute work\<close>

datatype compute_error = LogicalOperatorUnbound | ComputeDemandUnbound

definition require_executable :: "compute_work \<Rightarrow> compute_error option" where
  "require_executable w =
     first_err
       [guard (cw_scope w \<in> {''kernel-region'', ''synthetic-operator''}) LogicalOperatorUnbound,
        guard (cw_flops w \<noteq> None \<and> cw_hbm_bytes w \<noteq> None) ComputeDemandUnbound]"

end
