(* ===== verification/Kv.thy ===== *)
theory Kv
  imports Execution
begin

text \<open>
  The KV-cache lifecycle ledger of \<open>simllm/core/kv.py\<close>, and its transactional use by
  the device runtime (\<open>_account_kv\<close> of \<open>simllm/core/runtime.py\<close>).  A ledger replays
  the framework's observed cache decisions against block pools of fixed capacity.  Every
  handler is translated with the assignments it has made when it raises: the loops over
  \<open>block_ids\<close> update the pool block by block, so an exception in the middle leaves the
  earlier blocks changed, which is why the runtime consumes a batch on a clone.

  A pool dictionary holds only blocks that are not free; \<open>Kv_Invariants\<close> proves it.
\<close>

subsection \<open>Data\<close>

datatype kv_error =
    EmptyText | NegativeInt | NonPositiveInt | UnevenBlockBytes
  | DuplicatePool string | NoPools | PoolNotConfigured string
  | HalfTokenInterval | EmptyTokenInterval
  | RequestRequired | BlocksRequired | BlockNamedTwice
  | MetadataCarriesBytes | WrongByteCount | BytesAboveBlocks
  | ReferenceCountWithoutBlocks | ReferenceCountAmbiguous | ReferenceCountMismatch
  | AboveCapacity
  | ReserveNamesBlocks | ReserveWithoutTokens | ReserveAbovePool
  | AllocateBusyBlock string | AllocateAboveReservation
  | BindWithoutContent string | TouchNotReclaimable string | RetainNotLive string
  | NotHeld string | PartialToken | ReadAboveResident | WriteWithoutSlot
  | EvictWithoutCause | EvictNotReclaimable string | FreeHeldBlock string
  | SwapWithoutCause | SwapMissingBlock string | SwapSameTier string
  | RecomputeWithoutTokens | RecomputeNamesBlocks
  | NoHbmRate string

definition byte_carrying_actions :: "kv_cache_action list" where
  "byte_carrying_actions = [READ, WRITE, SWAP, TRANSFER]"

datatype kv_block_state = FREE_BLOCK | LIVE_BLOCK | RECLAIMABLE_BLOCK

definition kv_require_text :: "string \<Rightarrow> kv_error option" where
  "kv_require_text s = guard (s \<noteq> []) EmptyText"

definition kv_require_int :: "bool \<Rightarrow> int \<Rightarrow> kv_error option" where
  "kv_require_int positive n =
     (if positive \<and> n \<le> 0 then Some NonPositiveInt
      else if \<not> positive \<and> n < 0 then Some NegativeInt else None)"

record kv_pool_spec =
  ps_pool_id :: string
  ps_block_bytes :: int
  ps_block_tokens :: int
  ps_capacity_blocks :: int
  ps_tier :: string

text \<open>\<open>KvPoolSpec.__post_init__\<close>; a spec is constructed only when this returns None.\<close>

definition check_pool_spec :: "kv_pool_spec \<Rightarrow> kv_error option" where
  "check_pool_spec s =
     first_err
       [kv_require_text (ps_pool_id s), kv_require_text (ps_tier s),
        kv_require_int True (ps_block_bytes s), kv_require_int True (ps_block_tokens s),
        kv_require_int True (ps_capacity_blocks s),
        guard (ps_block_bytes s mod ps_block_tokens s = 0) UnevenBlockBytes]"

definition bytes_per_token :: "kv_pool_spec \<Rightarrow> int" where
  "bytes_per_token s = ps_block_bytes s div ps_block_tokens s"

definition capacity_bytes :: "kv_pool_spec \<Rightarrow> int" where
  "capacity_bytes s = ps_capacity_blocks s * ps_block_bytes s"

record kv_service_demand =
  kd_operation_id :: string
  kd_pool_id :: string
  kd_action :: kv_cache_action
  kd_byte_count :: int
  kd_tier :: string
  kd_request_id :: "string option"
  kd_block_count :: int

record kv_pool_accounting =
  ka_pool_id :: string
  ka_capacity_blocks :: int
  ka_block_bytes :: int
  ka_block_tokens :: int
  ka_live_blocks :: int
  ka_reclaimable_blocks :: int
  ka_free_blocks :: int
  ka_reserved_blocks :: int
  ka_peak_live_blocks :: int
  ka_allocated_blocks :: int
  ka_released_references :: int
  ka_evicted_blocks :: int
  ka_freed_blocks :: int
  ka_prefix_hit_blocks :: int
  ka_prefix_hit_tokens :: int
  ka_touched_blocks :: int
  ka_retained_blocks :: int
  ka_read_bytes :: int
  ka_write_bytes :: int
  ka_swap_bytes :: int
  ka_transfer_bytes :: int
  ka_recomputed_tokens :: int
  ka_eviction_causes :: "(string \<times> int) list"

record kv_block =
  b_block_id :: string
  b_filled_tokens :: int
  b_content :: bool
  b_tier :: string
  b_owners :: "(string, int) dict"

definition ref_count :: "kv_block \<Rightarrow> int" where
  "ref_count b = dsum (\<lambda>n. n) (b_owners b)"

definition block_state_of :: "kv_block \<Rightarrow> kv_block_state" where
  "block_state_of b =
     (if ref_count b > 0 then LIVE_BLOCK
      else if b_content b then RECLAIMABLE_BLOCK else FREE_BLOCK)"

definition clone_block :: "kv_block \<Rightarrow> kv_block" where
  "clone_block b =
     \<lparr>b_block_id = b_block_id b, b_filled_tokens = b_filled_tokens b, b_content = b_content b,
      b_tier = b_tier b, b_owners = b_owners b\<rparr>"

record kv_pool =
  p_spec :: kv_pool_spec
  p_blocks :: "(string, kv_block) dict"
  p_reservations :: "(string, int) dict"
  p_peak_live_blocks :: int
  p_allocated_blocks :: int
  p_released_references :: int
  p_evicted_blocks :: int
  p_freed_blocks :: int
  p_prefix_hit_blocks :: int
  p_prefix_hit_tokens :: int
  p_touched_blocks :: int
  p_retained_blocks :: int
  p_read_bytes :: int
  p_write_bytes :: int
  p_swap_bytes :: int
  p_transfer_bytes :: int
  p_recomputed_tokens :: int
  p_eviction_causes :: "(string, int) dict"

definition new_pool :: "kv_pool_spec \<Rightarrow> kv_pool" where
  "new_pool s =
     \<lparr>p_spec = s, p_blocks = [], p_reservations = [], p_peak_live_blocks = 0,
      p_allocated_blocks = 0, p_released_references = 0, p_evicted_blocks = 0,
      p_freed_blocks = 0, p_prefix_hit_blocks = 0, p_prefix_hit_tokens = 0,
      p_touched_blocks = 0, p_retained_blocks = 0, p_read_bytes = 0, p_write_bytes = 0,
      p_swap_bytes = 0, p_transfer_bytes = 0, p_recomputed_tokens = 0, p_eviction_causes = []\<rparr>"

definition clone_pool :: "kv_pool \<Rightarrow> kv_pool" where
  "clone_pool p =
     (new_pool (p_spec p))
       \<lparr>p_blocks := map (\<lambda>(k, b). (k, clone_block b)) (p_blocks p),
        p_reservations := p_reservations p, p_eviction_causes := p_eviction_causes p,
        p_peak_live_blocks := p_peak_live_blocks p, p_allocated_blocks := p_allocated_blocks p,
        p_released_references := p_released_references p,
        p_evicted_blocks := p_evicted_blocks p, p_freed_blocks := p_freed_blocks p,
        p_prefix_hit_blocks := p_prefix_hit_blocks p,
        p_prefix_hit_tokens := p_prefix_hit_tokens p, p_touched_blocks := p_touched_blocks p,
        p_retained_blocks := p_retained_blocks p, p_read_bytes := p_read_bytes p,
        p_write_bytes := p_write_bytes p, p_swap_bytes := p_swap_bytes p,
        p_transfer_bytes := p_transfer_bytes p, p_recomputed_tokens := p_recomputed_tokens p\<rparr>"

definition live_blocks :: "kv_pool \<Rightarrow> int" where
  "live_blocks p = dsum (\<lambda>b. b2i (ref_count b > 0)) (p_blocks p)"

definition reclaimable_blocks :: "kv_pool \<Rightarrow> int" where
  "reclaimable_blocks p = dsum (\<lambda>b. b2i (ref_count b = 0 \<and> b_content b)) (p_blocks p)"

definition accounting :: "kv_pool \<Rightarrow> kv_pool_accounting" where
  "accounting p =
     (let live = live_blocks p; reclaimable = reclaimable_blocks p
      in \<lparr>ka_pool_id = ps_pool_id (p_spec p),
          ka_capacity_blocks = ps_capacity_blocks (p_spec p),
          ka_block_bytes = ps_block_bytes (p_spec p),
          ka_block_tokens = ps_block_tokens (p_spec p),
          ka_live_blocks = live,
          ka_reclaimable_blocks = reclaimable,
          ka_free_blocks = ps_capacity_blocks (p_spec p) - live - reclaimable,
          ka_reserved_blocks = dsum (\<lambda>n. n) (p_reservations p),
          ka_peak_live_blocks = p_peak_live_blocks p,
          ka_allocated_blocks = p_allocated_blocks p,
          ka_released_references = p_released_references p,
          ka_evicted_blocks = p_evicted_blocks p,
          ka_freed_blocks = p_freed_blocks p,
          ka_prefix_hit_blocks = p_prefix_hit_blocks p,
          ka_prefix_hit_tokens = p_prefix_hit_tokens p,
          ka_touched_blocks = p_touched_blocks p,
          ka_retained_blocks = p_retained_blocks p,
          ka_read_bytes = p_read_bytes p,
          ka_write_bytes = p_write_bytes p,
          ka_swap_bytes = p_swap_bytes p,
          ka_transfer_bytes = p_transfer_bytes p,
          ka_recomputed_tokens = p_recomputed_tokens p,
          ka_eviction_causes = sort_key fst (p_eviction_causes p)\<rparr>)"

subsection \<open>The ledger and its validation helpers\<close>

type_synonym kv_ledger = "(string, kv_pool) dict"

fun add_pools :: "kv_ledger \<Rightarrow> kv_pool_spec list \<Rightarrow> kv_error + kv_ledger" where
  "add_pools l [] = Inr l"
| "add_pools l (s # ss) =
     (if map_of l (ps_pool_id s) \<noteq> None then Inl (DuplicatePool (ps_pool_id s))
      else add_pools (AList.update (ps_pool_id s) (new_pool s) l) ss)"

definition new_ledger :: "kv_pool_spec list \<Rightarrow> kv_error + kv_ledger" where
  "new_ledger specs =
     (case add_pools [] specs of
        Inl e \<Rightarrow> Inl e
      | Inr l \<Rightarrow> if l = [] then Inl NoPools else Inr l)"

definition clone_ledger :: "kv_ledger \<Rightarrow> kv_ledger" where
  "clone_ledger l = map (\<lambda>(k, p). (k, clone_pool p)) l"

definition pool_block_state :: "kv_pool \<Rightarrow> string \<Rightarrow> kv_block_state" where
  "pool_block_state p block_id =
     (case map_of (p_blocks p) block_id of None \<Rightarrow> FREE_BLOCK | Some b \<Rightarrow> block_state_of b)"

definition block_state :: "kv_ledger \<Rightarrow> string \<Rightarrow> string \<Rightarrow> kv_error + kv_block_state" where
  "block_state l pool_id block_id =
     (case map_of l pool_id of
        None \<Rightarrow> Inl (PoolNotConfigured pool_id)
      | Some p \<Rightarrow> Inr (pool_block_state p block_id))"

definition token_span :: "kv_cache_work \<Rightarrow> kv_error + int option" where
  "token_span w =
     (case (kw_token_start w, kw_token_end w) of
        (None, None) \<Rightarrow> Inr None
      | (Some s, Some e) \<Rightarrow>
          (if s < 0 \<or> e < 0 then Inl NegativeInt
           else if e \<le> s then Inl EmptyTokenInterval else Inr (Some (e - s)))
      | _ \<Rightarrow> Inl HalfTokenInterval)"

definition require_blocks :: "kv_cache_work \<Rightarrow> kv_error option" where
  "require_blocks w =
     first_err
       ([guard (kw_block_ids w \<noteq> []) BlocksRequired,
         guard (distinct (kw_block_ids w)) BlockNamedTwice]
        @ map kv_require_text (kw_block_ids w))"

definition check_bytes :: "kv_pool \<Rightarrow> kv_cache_work \<Rightarrow> int option \<Rightarrow> kv_error option" where
  "check_bytes p w tokens =
     (if kw_byte_count w < 0 then Some NegativeInt
      else if kw_action w \<notin> set byte_carrying_actions
        then guard (kw_byte_count w = 0) MetadataCarriesBytes
      else if kw_byte_count w = 0 then None
      else first_err
        [case tokens of None \<Rightarrow> None
         | Some t \<Rightarrow> guard (kw_byte_count w = t * bytes_per_token (p_spec p)) WrongByteCount,
         if kw_block_ids w = [] then None
         else guard (kw_byte_count w \<le> int (length (kw_block_ids w)) * ps_block_bytes (p_spec p))
                BytesAboveBlocks])"

definition block_ref_count :: "kv_pool \<Rightarrow> string \<Rightarrow> int" where
  "block_ref_count p block_id =
     (case map_of (p_blocks p) block_id of None \<Rightarrow> 0 | Some b \<Rightarrow> ref_count b)"

definition check_reference_count :: "kv_pool \<Rightarrow> kv_cache_work \<Rightarrow> kv_error option" where
  "check_reference_count p w =
     (case kw_reference_count w of
        None \<Rightarrow> None
      | Some n \<Rightarrow>
          (let observed = remdups (map (block_ref_count p) (kw_block_ids w))
           in first_err
                [guard (0 \<le> n) NegativeInt,
                 guard (kw_block_ids w \<noteq> []) ReferenceCountWithoutBlocks,
                 guard (length observed = 1) ReferenceCountAmbiguous,
                 guard (observed = [n]) ReferenceCountMismatch]))"

definition check_conservation :: "kv_pool \<Rightarrow> kv_error option" where
  "check_conservation p =
     guard (0 \<le> ps_capacity_blocks (p_spec p) - live_blocks p - reclaimable_blocks p) AboveCapacity"

fun demand_tier_of :: "kv_pool \<Rightarrow> string list \<Rightarrow> string" where
  "demand_tier_of p [] = ps_tier (p_spec p)"
| "demand_tier_of p (k # ks) =
     (case map_of (p_blocks p) k of Some b \<Rightarrow> b_tier b | None \<Rightarrow> demand_tier_of p ks)"

definition demand_tier :: "kv_pool \<Rightarrow> kv_cache_work \<Rightarrow> string" where
  "demand_tier p w = demand_tier_of p (kw_block_ids w)"

abbreviation set_block :: "kv_pool \<Rightarrow> string \<Rightarrow> kv_block \<Rightarrow> kv_pool" where
  "set_block p k b \<equiv> p\<lparr>p_blocks := AList.update k b (p_blocks p)\<rparr>"

abbreviation del_block :: "kv_pool \<Rightarrow> string \<Rightarrow> kv_pool" where
  "del_block p k \<equiv> p\<lparr>p_blocks := AList.delete k (p_blocks p)\<rparr>"

definition add_owner :: "string \<Rightarrow> kv_block \<Rightarrow> kv_block" where
  "add_owner r b = b\<lparr>b_owners := AList.update r (dict_get (b_owners b) r 0 + 1) (b_owners b)\<rparr>"

definition drop_owner :: "string \<Rightarrow> int \<Rightarrow> kv_block \<Rightarrow> kv_block" where
  "drop_owner r held b =
     b\<lparr>b_owners := (if held = 1 then AList.delete r (b_owners b)
                    else AList.update r (held - 1) (b_owners b))\<rparr>"

subsection \<open>Action handlers\<close>

type_synonym kv_handler = "kv_pool \<Rightarrow> kv_cache_work \<Rightarrow> int option \<Rightarrow> kv_pool \<times> kv_error option"

definition observe_reserve :: kv_handler where
  "observe_reserve p w tokens =
     (case kw_request_id w of
        None \<Rightarrow> (p, Some RequestRequired)
      | Some r \<Rightarrow>
          if kw_block_ids w \<noteq> [] then (p, Some ReserveNamesBlocks)
          else (case tokens of
              None \<Rightarrow> (p, Some ReserveWithoutTokens)
            | Some t \<Rightarrow>
                (let demand = - ((- t) div ps_block_tokens (p_spec p));
                     available = ps_capacity_blocks (p_spec p) - live_blocks p;
                     outstanding = dsum (\<lambda>n. n) (p_reservations p)
                 in if demand + outstanding > available then (p, Some ReserveAbovePool)
                    else (p\<lparr>p_reservations :=
                             AList.update r (dict_get (p_reservations p) r 0 + demand)
                               (p_reservations p)\<rparr>, None))))"

definition new_block :: "kv_pool \<Rightarrow> string \<Rightarrow> string \<Rightarrow> kv_block" where
  "new_block p k r =
     \<lparr>b_block_id = k, b_filled_tokens = 0, b_content = False, b_tier = ps_tier (p_spec p),
      b_owners = [(r, 1)]\<rparr>"

fun allocate_blocks :: "kv_pool \<Rightarrow> string \<Rightarrow> string list \<Rightarrow> kv_pool" where
  "allocate_blocks p r [] = p"
| "allocate_blocks p r (k # ks) = allocate_blocks (set_block p k (new_block p k r)) r ks"

definition allocate_checks :: "kv_pool \<Rightarrow> string list \<Rightarrow> kv_error option" where
  "allocate_checks p ks =
     first_err (map (\<lambda>k. case map_of (p_blocks p) k of None \<Rightarrow> None
                       | Some b \<Rightarrow> guard (block_state_of b = FREE_BLOCK) (AllocateBusyBlock k)) ks)"

definition observe_allocate :: kv_handler where
  "observe_allocate p w tokens =
     (case kw_request_id w of
        None \<Rightarrow> (p, Some RequestRequired)
      | Some r \<Rightarrow>
          (case require_blocks w of Some e \<Rightarrow> (p, Some e) | None \<Rightarrow>
          (case allocate_checks p (kw_block_ids w) of Some e \<Rightarrow> (p, Some e) | None \<Rightarrow>
            (let n = int (length (kw_block_ids w)) in
             case map_of (p_reservations p) r of
               None \<Rightarrow>
                 ((allocate_blocks p r (kw_block_ids w))
                    \<lparr>p_allocated_blocks := p_allocated_blocks p + n\<rparr>, None)
             | Some outstanding \<Rightarrow>
                 if n > outstanding then (p, Some AllocateAboveReservation)
                 else
                   (let remaining = outstanding - n;
                        p' = p\<lparr>p_reservations :=
                                (if remaining \<noteq> 0 then AList.update r remaining (p_reservations p)
                                 else AList.delete r (p_reservations p))\<rparr>
                    in ((allocate_blocks p' r (kw_block_ids w))
                          \<lparr>p_allocated_blocks := p_allocated_blocks p + n\<rparr>, None))))))"

definition observe_bind_prefix :: kv_handler where
  "observe_bind_prefix p w tokens =
     (case kw_request_id w of
        None \<Rightarrow> (p, Some RequestRequired)
      | Some r \<Rightarrow>
          (case require_blocks w of Some e \<Rightarrow> (p, Some e) | None \<Rightarrow>
          (case first_err (map (\<lambda>k. case map_of (p_blocks p) k of
                             None \<Rightarrow> Some (BindWithoutContent k)
                           | Some b \<Rightarrow> guard (b_content b) (BindWithoutContent k)) (kw_block_ids w))
           of Some e \<Rightarrow> (p, Some e) | None \<Rightarrow>
             (p\<lparr>p_prefix_hit_blocks := p_prefix_hit_blocks p + int (length (kw_block_ids w)),
                p_prefix_hit_tokens :=
                  p_prefix_hit_tokens p + (case tokens of None \<Rightarrow> 0 | Some t \<Rightarrow> t)\<rparr>, None))))"

fun touch_blocks :: "kv_pool \<Rightarrow> string \<Rightarrow> string list \<Rightarrow> kv_pool \<times> kv_error option" where
  "touch_blocks p r [] = (p, None)"
| "touch_blocks p r (k # ks) =
     (case map_of (p_blocks p) k of
        None \<Rightarrow> (p, Some (TouchNotReclaimable k))
      | Some b \<Rightarrow>
          if block_state_of b \<noteq> RECLAIMABLE_BLOCK then (p, Some (TouchNotReclaimable k))
          else touch_blocks (set_block p k (add_owner r b)) r ks)"

definition observe_touch :: kv_handler where
  "observe_touch p w tokens =
     (case kw_request_id w of
        None \<Rightarrow> (p, Some RequestRequired)
      | Some r \<Rightarrow>
          (case require_blocks w of Some e \<Rightarrow> (p, Some e) | None \<Rightarrow>
          (case touch_blocks p r (kw_block_ids w) of
             (q, Some e) \<Rightarrow> (q, Some e)
           | (q, None) \<Rightarrow>
               (q\<lparr>p_touched_blocks := p_touched_blocks q + int (length (kw_block_ids w))\<rparr>, None))))"

fun retain_blocks :: "kv_pool \<Rightarrow> string \<Rightarrow> string list \<Rightarrow> kv_pool \<times> kv_error option" where
  "retain_blocks p r [] = (p, None)"
| "retain_blocks p r (k # ks) =
     (case map_of (p_blocks p) k of
        None \<Rightarrow> (p, Some (RetainNotLive k))
      | Some b \<Rightarrow>
          if block_state_of b \<noteq> LIVE_BLOCK then (p, Some (RetainNotLive k))
          else retain_blocks (set_block p k (add_owner r b)) r ks)"

definition observe_retain :: kv_handler where
  "observe_retain p w tokens =
     (case kw_request_id w of
        None \<Rightarrow> (p, Some RequestRequired)
      | Some r \<Rightarrow>
          (case require_blocks w of Some e \<Rightarrow> (p, Some e) | None \<Rightarrow>
          (case retain_blocks p r (kw_block_ids w) of
             (q, Some e) \<Rightarrow> (q, Some e)
           | (q, None) \<Rightarrow>
               (q\<lparr>p_retained_blocks := p_retained_blocks q + int (length (kw_block_ids w))\<rparr>, None))))"

definition require_owned :: "kv_pool \<Rightarrow> string \<Rightarrow> string \<Rightarrow> kv_error + kv_block" where
  "require_owned p k r =
     (case map_of (p_blocks p) k of
        None \<Rightarrow> Inl (NotHeld k)
      | Some b \<Rightarrow> if map_of (b_owners b) r = None then Inl (NotHeld k) else Inr b)"

definition moved_tokens :: "kv_pool \<Rightarrow> kv_cache_work \<Rightarrow> int option \<Rightarrow> kv_error + int" where
  "moved_tokens p w tokens =
     (case tokens of
        Some t \<Rightarrow> Inr t
      | None \<Rightarrow>
          if kw_byte_count w mod bytes_per_token (p_spec p) \<noteq> 0 then Inl PartialToken
          else Inr (kw_byte_count w div bytes_per_token (p_spec p)))"

text \<open>
  \<open>_fill\<close> walks the block objects that \<open>_require_owned\<close> returned; they are the
  pool's own blocks, so the update goes to the pool.  The result carries the tokens left
  over.
\<close>

fun fill :: "kv_pool \<Rightarrow> string list \<Rightarrow> int \<Rightarrow> kv_pool \<times> int" where
  "fill p [] remaining = (p, remaining)"
| "fill p (k # ks) remaining =
     (if remaining = 0 then (p, remaining)
      else case map_of (p_blocks p) k of
        None \<Rightarrow> fill p ks remaining
      | Some b \<Rightarrow>
          (let room = ps_block_tokens (p_spec p) - b_filled_tokens b;
               taken = min room remaining;
               filled = b_filled_tokens b + taken;
               b' = b\<lparr>b_filled_tokens := filled,
                      b_content := (b_content b \<or> filled = ps_block_tokens (p_spec p))\<rparr>
           in fill (set_block p k b') ks (remaining - taken)))"

definition resident_tokens :: "kv_pool \<Rightarrow> string list \<Rightarrow> int" where
  "resident_tokens p ks =
     sum_list (map (\<lambda>k. case map_of (p_blocks p) k of None \<Rightarrow> 0 | Some b \<Rightarrow> b_filled_tokens b) ks)"

definition owned_checks :: "kv_pool \<Rightarrow> string \<Rightarrow> string list \<Rightarrow> kv_error option" where
  "owned_checks p r ks =
     first_err (map (\<lambda>k. case require_owned p k r of Inl e \<Rightarrow> Some e | Inr _ \<Rightarrow> None) ks)"

definition observe_traffic :: kv_handler where
  "observe_traffic p w tokens =
     (case kw_request_id w of
        None \<Rightarrow> (p, Some RequestRequired)
      | Some r \<Rightarrow>
          (case require_blocks w of Some e \<Rightarrow> (p, Some e) | None \<Rightarrow>
          (case owned_checks p r (kw_block_ids w) of Some e \<Rightarrow> (p, Some e) | None \<Rightarrow>
          (case moved_tokens p w tokens of
             Inl e \<Rightarrow> (p, Some e)
           | Inr moved \<Rightarrow>
               if kw_action w = WRITE then
                 (case fill p (kw_block_ids w) moved of
                    (q, left) \<Rightarrow>
                      if left \<noteq> 0 then (q, Some WriteWithoutSlot)
                      else (q\<lparr>p_write_bytes := p_write_bytes q + kw_byte_count w\<rparr>, None))
               else if kw_action w = READ then
                 (if moved > resident_tokens p (kw_block_ids w) then (p, Some ReadAboveResident)
                  else (p\<lparr>p_read_bytes := p_read_bytes p + kw_byte_count w\<rparr>, None))
               else (p\<lparr>p_transfer_bytes := p_transfer_bytes p + kw_byte_count w\<rparr>, None)))))"

fun release_blocks :: "kv_pool \<Rightarrow> string \<Rightarrow> string list \<Rightarrow> kv_pool \<times> kv_error option" where
  "release_blocks p r [] = (p, None)"
| "release_blocks p r (k # ks) =
     (case require_owned p k r of
        Inl e \<Rightarrow> (p, Some e)
      | Inr b \<Rightarrow>
          (let held = dict_get (b_owners b) r 0;
               b' = drop_owner r held b
           in if ref_count b' = 0 \<and> \<not> b_content b'
              then release_blocks ((del_block p k)\<lparr>p_freed_blocks := p_freed_blocks p + 1\<rparr>) r ks
              else release_blocks (set_block p k b') r ks))"

definition observe_release :: kv_handler where
  "observe_release p w tokens =
     (case kw_request_id w of
        None \<Rightarrow> (p, Some RequestRequired)
      | Some r \<Rightarrow>
          (case require_blocks w of Some e \<Rightarrow> (p, Some e) | None \<Rightarrow>
          (case release_blocks p r (kw_block_ids w) of
             (q, Some e) \<Rightarrow> (q, Some e)
           | (q, None) \<Rightarrow>
               (q\<lparr>p_released_references :=
                   p_released_references q + int (length (kw_block_ids w))\<rparr>, None))))"

fun evict_blocks :: "kv_pool \<Rightarrow> string list \<Rightarrow> kv_pool \<times> kv_error option" where
  "evict_blocks p [] = (p, None)"
| "evict_blocks p (k # ks) =
     (case map_of (p_blocks p) k of
        None \<Rightarrow> (p, Some (EvictNotReclaimable k))
      | Some b \<Rightarrow>
          if block_state_of b \<noteq> RECLAIMABLE_BLOCK then (p, Some (EvictNotReclaimable k))
          else evict_blocks (del_block p k) ks)"

definition observe_evict :: kv_handler where
  "observe_evict p w tokens =
     (case require_blocks w of Some e \<Rightarrow> (p, Some e) | None \<Rightarrow>
     (case kw_cause w of
        None \<Rightarrow> (p, Some EvictWithoutCause)
      | Some cause \<Rightarrow>
          (case evict_blocks p (kw_block_ids w) of
             (q, Some e) \<Rightarrow> (q, Some e)
           | (q, None) \<Rightarrow>
               (let n = int (length (kw_block_ids w)) in
                (q\<lparr>p_evicted_blocks := p_evicted_blocks q + n,
                   p_eviction_causes :=
                     AList.update cause (dict_get (p_eviction_causes q) cause 0 + n)
                       (p_eviction_causes q)\<rparr>, None)))))"

fun free_blocks :: "kv_pool \<Rightarrow> string list \<Rightarrow> int \<Rightarrow> kv_pool \<times> int \<times> kv_error option" where
  "free_blocks p [] removed = (p, removed, None)"
| "free_blocks p (k # ks) removed =
     (case map_of (p_blocks p) k of
        None \<Rightarrow> free_blocks p ks removed
      | Some b \<Rightarrow>
          if ref_count b \<noteq> 0 then (p, removed, Some (FreeHeldBlock k))
          else free_blocks (del_block p k) ks (removed + 1))"

definition observe_free :: kv_handler where
  "observe_free p w tokens =
     (case require_blocks w of Some e \<Rightarrow> (p, Some e) | None \<Rightarrow>
     (case free_blocks p (kw_block_ids w) 0 of
        (q, removed, Some e) \<Rightarrow> (q, Some e)
      | (q, removed, None) \<Rightarrow> (q\<lparr>p_freed_blocks := p_freed_blocks q + removed\<rparr>, None)))"

fun swap_blocks :: "kv_pool \<Rightarrow> string \<Rightarrow> string list \<Rightarrow> kv_pool \<times> kv_error option" where
  "swap_blocks p tier [] = (p, None)"
| "swap_blocks p tier (k # ks) =
     (case map_of (p_blocks p) k of
        None \<Rightarrow> (p, Some (SwapMissingBlock k))
      | Some b \<Rightarrow>
          if b_tier b = tier then (p, Some (SwapSameTier k))
          else swap_blocks (set_block p k (b\<lparr>b_tier := tier\<rparr>)) tier ks)"

definition observe_swap :: kv_handler where
  "observe_swap p w tokens =
     (case require_blocks w of Some e \<Rightarrow> (p, Some e) | None \<Rightarrow>
     (case kw_cause w of
        None \<Rightarrow> (p, Some SwapWithoutCause)
      | Some cause \<Rightarrow>
          (case swap_blocks p cause (kw_block_ids w) of
             (q, Some e) \<Rightarrow> (q, Some e)
           | (q, None) \<Rightarrow> (q\<lparr>p_swap_bytes := p_swap_bytes q + kw_byte_count w\<rparr>, None))))"

definition observe_recompute :: kv_handler where
  "observe_recompute p w tokens =
     (case kw_request_id w of
        None \<Rightarrow> (p, Some RequestRequired)
      | Some r \<Rightarrow>
          (case tokens of
             None \<Rightarrow> (p, Some RecomputeWithoutTokens)
           | Some t \<Rightarrow>
               if kw_block_ids w \<noteq> [] then (p, Some RecomputeNamesBlocks)
               else (p\<lparr>p_recomputed_tokens := p_recomputed_tokens p + t\<rparr>, None)))"

text \<open>The dispatch table \<open>_HANDLER_NAMES\<close>; totality of the function is its completeness check.\<close>

fun handler_for :: "kv_cache_action \<Rightarrow> kv_handler" where
  "handler_for RESERVE = observe_reserve"
| "handler_for ALLOCATE = observe_allocate"
| "handler_for BIND_PREFIX = observe_bind_prefix"
| "handler_for TOUCH = observe_touch"
| "handler_for RETAIN = observe_retain"
| "handler_for READ = observe_traffic"
| "handler_for WRITE = observe_traffic"
| "handler_for TRANSFER = observe_traffic"
| "handler_for RELEASE = observe_release"
| "handler_for EVICT = observe_evict"
| "handler_for FREE = observe_free"
| "handler_for SWAP = observe_swap"
| "handler_for RECOMPUTE = observe_recompute"

subsection \<open>Observing, consuming and committing\<close>

text \<open>
  \<open>observe_pool\<close> is the part of \<open>observe\<close> after the pool has been looked up.
\<close>

definition observe_pool ::
    "kv_pool \<Rightarrow> string \<Rightarrow> kv_cache_work \<Rightarrow> kv_pool \<times> (kv_error + kv_service_demand)" where
  "observe_pool p operation_id w =
     (case token_span w of
        Inl e \<Rightarrow> (p, Inl e)
      | Inr tokens \<Rightarrow>
          (case check_bytes p w tokens of Some e \<Rightarrow> (p, Inl e) | None \<Rightarrow>
          (case handler_for (kw_action w) p w tokens of
             (q, Some e) \<Rightarrow> (q, Inl e)
           | (q, None) \<Rightarrow>
               (case check_reference_count q w of Some e \<Rightarrow> (q, Inl e) | None \<Rightarrow>
               (case check_conservation q of Some e \<Rightarrow> (q, Inl e) | None \<Rightarrow>
                  (q\<lparr>p_peak_live_blocks := max (p_peak_live_blocks q) (live_blocks q)\<rparr>,
                   Inr \<lparr>kd_operation_id = operation_id, kd_pool_id = kw_pool_id w,
                        kd_action = kw_action w, kd_byte_count = kw_byte_count w,
                        kd_tier = demand_tier q w, kd_request_id = kw_request_id w,
                        kd_block_count = int (length (kw_block_ids w))\<rparr>))))))"

definition kv_observe ::
    "kv_ledger \<Rightarrow> string \<times> kv_cache_work \<Rightarrow> kv_ledger \<times> (kv_error + kv_service_demand)" where
  "kv_observe l opw =
     (case opw of (operation_id, w) \<Rightarrow>
        (if operation_id = [] then (l, Inl EmptyText)
         else case map_of l (kw_pool_id w) of
           None \<Rightarrow> (l, Inl (PoolNotConfigured (kw_pool_id w)))
         | Some p \<Rightarrow>
             (case observe_pool p operation_id w of
                (q, r) \<Rightarrow> (AList.update (kw_pool_id w) q l, r))))"

definition kv_consume ::
    "kv_ledger \<Rightarrow> (string \<times> kv_cache_work) list \<Rightarrow>
     kv_ledger \<times> (kv_error + kv_service_demand list)" where
  "kv_consume l operations = run_all kv_observe l operations"

definition kv_report :: "kv_ledger \<Rightarrow> kv_pool_accounting list" where
  "kv_report l = map (\<lambda>(_, p). accounting p) l"

record kv_pending =
  kp_ledger :: kv_ledger
  kp_demands :: "kv_service_demand list"
  kp_bytes_by_operation :: "(string, int) dict"

definition kv_operations :: "execution_graph \<Rightarrow> (string \<times> kv_cache_work) list" where
  "kv_operations g =
     List.map_filter
       (\<lambda>op. case op_work op of KvCacheWork w \<Rightarrow> Some (op_operation_id op, w) | _ \<Rightarrow> None)
       (eg_operations g)"

definition bytes_by_operation :: "kv_service_demand list \<Rightarrow> (string, int) dict" where
  "bytes_by_operation ds =
     fold (\<lambda>d m. if kd_byte_count d \<noteq> 0 then AList.update (kd_operation_id d) (kd_byte_count d) m
                 else m) ds []"

text \<open>
  \<open>CoarseDeviceRuntime._account_kv\<close>: the batch is consumed on a clone; the runtime's own
  ledger is an argument only and is replaced by the pending one when the whole graph has
  been scheduled.
\<close>

definition account_kv :: "kv_ledger \<Rightarrow> int \<Rightarrow> execution_graph \<Rightarrow> kv_error + kv_pending" where
  "account_kv ledger hbm_rate_bps g =
     (case kv_consume (clone_ledger ledger) (kv_operations g) of
        (pending, Inl e) \<Rightarrow> Inl e
      | (pending, Inr demands) \<Rightarrow>
          (case (if hbm_rate_bps = 0 then find (\<lambda>d. kd_byte_count d \<noteq> 0) demands else None) of
             Some d \<Rightarrow> Inl (NoHbmRate (kd_operation_id d))
           | None \<Rightarrow>
               Inr \<lparr>kp_ledger = pending, kp_demands = demands,
                    kp_bytes_by_operation = bytes_by_operation demands\<rparr>))"

end
