(* ===== verification/Kv_Invariants.thy ===== *)
theory Kv_Invariants
  imports Kv
begin

text \<open>
  What the KV ledger keeps true.  \<open>block_ok\<close> and \<open>blocks_wf\<close> describe the stored
  blocks (positive owner counts, fill level within the block, reusable exactly when full,
  never free); \<open>pool_inv\<close> adds the capacity bound and the two balance equations between
  the cumulative counters and the current contents.  The loops of the handlers share one
  shape, stated as the locale \<open>block_loop\<close> and interpreted for each of them; the facts
  about a handler then come from what its loop body does to one block.
\<close>

subsection \<open>Cloning\<close>

lemma clone_block_id [simp]: "clone_block b = b"
  by (simp add: clone_block_def)

lemma clone_pool_id [simp]: "clone_pool p = p"
  by (simp add: clone_pool_def new_pool_def)

lemma clone_ledger_id [simp]: "clone_ledger l = l"
  by (simp add: clone_ledger_def)

subsection \<open>Stored blocks\<close>

definition block_ok :: "kv_pool_spec \<Rightarrow> kv_block \<Rightarrow> bool" where
  "block_ok s b \<longleftrightarrow>
     dict_ok (b_owners b) \<and> dall (\<lambda>n. 0 < n) (b_owners b) \<and>
     0 \<le> b_filled_tokens b \<and> b_filled_tokens b \<le> ps_block_tokens s \<and>
     (b_content b \<longleftrightarrow> b_filled_tokens b = ps_block_tokens s)"

definition stored_ok :: "kv_pool_spec \<Rightarrow> kv_block \<Rightarrow> bool" where
  "stored_ok s b \<longleftrightarrow> block_ok s b \<and> (0 < ref_count b \<or> b_content b)"

definition spec_ok :: "kv_pool_spec \<Rightarrow> bool" where
  "spec_ok s \<longleftrightarrow> check_pool_spec s = None"

lemma spec_okD:
  assumes "spec_ok s"
  shows "0 < ps_block_bytes s" "0 < ps_block_tokens s" "0 < ps_capacity_blocks s"
    "ps_block_tokens s dvd ps_block_bytes s" "0 < bytes_per_token s"
    "bytes_per_token s * ps_block_tokens s = ps_block_bytes s"
proof -
  from assms show 1: "0 < ps_block_bytes s" "0 < ps_block_tokens s" "0 < ps_capacity_blocks s"
    "ps_block_tokens s dvd ps_block_bytes s"
    by (auto simp: spec_ok_def check_pool_spec_def kv_require_int_def split: if_splits)
  then show "bytes_per_token s * ps_block_tokens s = ps_block_bytes s"
    by (simp add: bytes_per_token_def)
  with 1 show "0 < bytes_per_token s"
    by (metis zero_less_mult_pos2)
qed

lemma ref_count_nonneg: "block_ok s b \<Longrightarrow> 0 \<le> ref_count b"
  unfolding ref_count_def block_ok_def by (intro dsum_nonneg) (auto elim: dall_mono)

lemma ref_count_pos_iff:
  assumes "block_ok s b"
  shows "0 < ref_count b \<longleftrightarrow> b_owners b \<noteq> []"
proof
  assume "b_owners b \<noteq> []"
  then obtain r n d where d: "b_owners b = (r, n) # d" by (cases "b_owners b") auto
  with assms have "0 < n" "dall (\<lambda>n. 0 \<le> n) d" by (auto simp: block_ok_def dall_def list_all_iff)
  then have "0 < n" "0 \<le> dsum (\<lambda>n. n) d" by (auto intro: dsum_nonneg)
  with d show "0 < ref_count b" by (simp add: ref_count_def)
qed (auto simp: ref_count_def)

lemma add_owner_ok:
  assumes "block_ok s b"
  shows "block_ok s (add_owner r b)" and "ref_count (add_owner r b) = ref_count b + 1"
    and "b_content (add_owner r b) = b_content b"
    and "b_filled_tokens (add_owner r b) = b_filled_tokens b" and "b_tier (add_owner r b) = b_tier b"
proof -
  have "0 < dict_get (b_owners b) r 0 + 1"
    using assms dall_get [of "\<lambda>n. 0 < n" "b_owners b" r]
    by (fastforce simp: block_ok_def split: option.splits)
  then show "block_ok s (add_owner r b)"
    using assms by (auto simp: block_ok_def add_owner_def)
  show "ref_count (add_owner r b) = ref_count b + 1"
    using assms by (auto simp: block_ok_def ref_count_def add_owner_def dsum_update split: option.splits)
qed (simp_all add: add_owner_def)

lemma drop_owner_ok:
  assumes "block_ok s b" and "map_of (b_owners b) r = Some held"
  shows "block_ok s (drop_owner r held b)" and "ref_count (drop_owner r held b) = ref_count b - 1"
    and "b_content (drop_owner r held b) = b_content b"
    and "b_filled_tokens (drop_owner r held b) = b_filled_tokens b"
    and "b_tier (drop_owner r held b) = b_tier b"
proof -
  have "0 < held" using assms dall_get [of "\<lambda>n. 0 < n" "b_owners b" r] by (auto simp: block_ok_def)
  then show "block_ok s (drop_owner r held b)"
    using assms by (auto simp: block_ok_def drop_owner_def)
  show "ref_count (drop_owner r held b) = ref_count b - 1"
    using assms by (auto simp: block_ok_def ref_count_def drop_owner_def dsum_update dsum_delete)
qed (simp_all add: drop_owner_def)

subsection \<open>One loop over block identifiers\<close>

text \<open>
  A loop that looks a block up, checks it and replaces or removes it.  \<open>body\<close> is the
  check and the replacement (\<open>None\<close> removes), \<open>put\<close> stores it.
\<close>

locale block_loop =
  fixes loop :: "'s \<Rightarrow> string list \<Rightarrow> 's \<times> kv_error option"
    and look :: "'s \<Rightarrow> string \<Rightarrow> kv_block option"
    and body :: "string \<Rightarrow> kv_block option \<Rightarrow> kv_error + kv_block option"
    and put :: "'s \<Rightarrow> string \<Rightarrow> kv_block option \<Rightarrow> 's"
    and inv :: "'s \<Rightarrow> bool"
  assumes loop_Nil: "loop s [] = (s, None)"
    and loop_Cons: "loop s (k # ks) =
      (case body k (look s k) of Inl e \<Rightarrow> (s, Some e) | Inr ob \<Rightarrow> loop (put s k ob) ks)"
    and look_put: "body k (look s k) = Inr ob \<Longrightarrow> look (put s k ob) = (look s)(k := ob)"
    and inv_put: "inv s \<Longrightarrow> body k (look s k) = Inr ob \<Longrightarrow> inv (put s k ob)"
begin

lemma loop_inv: "inv s \<Longrightarrow> loop s ks = (t, e) \<Longrightarrow> inv t"
  by (induction ks arbitrary: s) (auto simp: loop_Nil loop_Cons split: sum.splits intro: inv_put)

lemma loop_look:
  assumes "loop s ks = (t, None)" and "distinct ks"
  shows "(\<forall>k \<in> set ks. body k (look s k) = Inr (look t k)) \<and> (\<forall>k. k \<notin> set ks \<longrightarrow> look t k = look s k)"
  using assms
proof (induction ks arbitrary: s)
  case Nil
  then show ?case by (simp add: loop_Nil)
next
  case (Cons k ks)
  then obtain ob where ob: "body k (look s k) = Inr ob" "loop (put s k ob) ks = (t, None)"
    by (auto simp: loop_Cons split: sum.splits)
  with Cons have IH: "\<forall>j \<in> set ks. body j (look (put s k ob) j) = Inr (look t j)"
    "\<forall>j. j \<notin> set ks \<longrightarrow> look t j = look (put s k ob) j" by auto
  have l: "look (put s k ob) = (look s)(k := ob)" using ob(1) by (rule look_put)
  with IH(2) Cons.prems(2) have "look t k = ob" by simp
  moreover have "body j (look s j) = Inr (look t j)" if "j \<in> set ks" for j
    using IH(1) that l Cons.prems(2) by (metis distinct.simps(2) fun_upd_other)
  moreover have "look t j = look s j" if "j \<notin> set (k # ks)" for j
    using IH(2) that l by simp
  ultimately show ?case using ob(1) by simp
qed

lemma loop_measure:
  assumes "inv s" and "loop s ks = (t, None)"
    and "\<And>s k ob. inv s \<Longrightarrow> body k (look s k) = Inr ob \<Longrightarrow> (m (put s k ob) :: int) = m s + c"
  shows "m t = m s + c * int (length ks)"
  using assms(1,2)
proof (induction ks arbitrary: s)
  case (Cons k ks)
  then obtain ob where ob: "body k (look s k) = Inr ob" "loop (put s k ob) ks = (t, None)"
    by (auto simp: loop_Cons split: sum.splits)
  then have "m t = m (put s k ob) + c * int (length ks)"
    using Cons.prems(1) by (intro Cons.IH) (auto intro: inv_put)
  with assms(3) [OF Cons.prems(1) ob(1)] show ?case by (simp add: algebra_simps)
qed (simp add: loop_Nil)

lemma loop_frame:
  assumes "loop s ks = (t, e)" and "\<And>s k ob. f (put s k ob) = f s"
  shows "f t = f s"
  using assms(1)
  by (induction ks arbitrary: s) (auto simp: loop_Nil loop_Cons assms(2) split: sum.splits)

end

subsection \<open>The loops of the handlers\<close>

definition blocks_wf :: "kv_pool \<Rightarrow> bool" where
  "blocks_wf p \<longleftrightarrow> spec_ok (p_spec p) \<and> dict_ok (p_blocks p) \<and> dall (stored_ok (p_spec p)) (p_blocks p)"

definition refs :: "kv_pool \<Rightarrow> int" where
  "refs p = dsum ref_count (p_blocks p)"

definition n_blocks :: "kv_pool \<Rightarrow> int" where
  "n_blocks p = dsum (\<lambda>_. 1) (p_blocks p)"

definition put_block :: "kv_pool \<Rightarrow> string \<Rightarrow> kv_block option \<Rightarrow> kv_pool" where
  "put_block p k ob = (case ob of Some b \<Rightarrow> set_block p k b | None \<Rightarrow> del_block p k)"

abbreviation look_block :: "kv_pool \<Rightarrow> string \<Rightarrow> kv_block option" where
  "look_block p \<equiv> map_of (p_blocks p)"

lemma look_put_block [simp]: "look_block (put_block p k ob) = (look_block p)(k := ob)"
  by (cases ob) (simp_all add: put_block_def)

lemma p_spec_put_block [simp]: "p_spec (put_block p k ob) = p_spec p"
  by (cases ob) (simp_all add: put_block_def)

lemma blocks_wf_get: "blocks_wf p \<Longrightarrow> look_block p k = Some b \<Longrightarrow> stored_ok (p_spec p) b"
  by (auto simp: blocks_wf_def dest: dall_get)

lemma blocks_wf_put:
  "blocks_wf p \<Longrightarrow> (\<And>b. ob = Some b \<Longrightarrow> stored_ok (p_spec p) b) \<Longrightarrow> blocks_wf (put_block p k ob)"
  by (cases ob) (auto simp: blocks_wf_def put_block_def)

lemma refs_put:
  "blocks_wf p \<Longrightarrow> refs (put_block p k ob) =
     refs p + (case ob of None \<Rightarrow> 0 | Some b \<Rightarrow> ref_count b)
            - (case look_block p k of None \<Rightarrow> 0 | Some b \<Rightarrow> ref_count b)"
  by (cases ob) (simp_all add: refs_def blocks_wf_def put_block_def dsum_update dsum_delete)

lemma n_blocks_put:
  "blocks_wf p \<Longrightarrow> n_blocks (put_block p k ob) =
     n_blocks p + (case ob of None \<Rightarrow> 0 | Some b \<Rightarrow> 1) - (case look_block p k of None \<Rightarrow> 0 | Some b \<Rightarrow> 1)"
  by (cases ob) (simp_all add: n_blocks_def blocks_wf_def put_block_def dsum_update dsum_delete)

definition touch_body :: "string \<Rightarrow> string \<Rightarrow> kv_block option \<Rightarrow> kv_error + kv_block option" where
  "touch_body r k ob =
     (case ob of None \<Rightarrow> Inl (TouchNotReclaimable k)
      | Some b \<Rightarrow> if block_state_of b \<noteq> RECLAIMABLE_BLOCK then Inl (TouchNotReclaimable k)
                 else Inr (Some (add_owner r b)))"

definition retain_body :: "string \<Rightarrow> string \<Rightarrow> kv_block option \<Rightarrow> kv_error + kv_block option" where
  "retain_body r k ob =
     (case ob of None \<Rightarrow> Inl (RetainNotLive k)
      | Some b \<Rightarrow> if block_state_of b \<noteq> LIVE_BLOCK then Inl (RetainNotLive k)
                 else Inr (Some (add_owner r b)))"

definition evict_body :: "string \<Rightarrow> kv_block option \<Rightarrow> kv_error + kv_block option" where
  "evict_body k ob =
     (case ob of None \<Rightarrow> Inl (EvictNotReclaimable k)
      | Some b \<Rightarrow> if block_state_of b \<noteq> RECLAIMABLE_BLOCK then Inl (EvictNotReclaimable k)
                 else Inr None)"

definition swap_body :: "string \<Rightarrow> string \<Rightarrow> kv_block option \<Rightarrow> kv_error + kv_block option" where
  "swap_body tier k ob =
     (case ob of None \<Rightarrow> Inl (SwapMissingBlock k)
      | Some b \<Rightarrow> if b_tier b = tier then Inl (SwapSameTier k) else Inr (Some (b\<lparr>b_tier := tier\<rparr>)))"

definition release_body :: "string \<Rightarrow> string \<Rightarrow> kv_block option \<Rightarrow> kv_error + kv_block option" where
  "release_body r k ob =
     (case ob of None \<Rightarrow> Inl (NotHeld k)
      | Some b \<Rightarrow> (case map_of (b_owners b) r of None \<Rightarrow> Inl (NotHeld k)
         | Some held \<Rightarrow> let b' = drop_owner r held b in
             if ref_count b' = 0 \<and> \<not> b_content b' then Inr None else Inr (Some b')))"

definition release_put :: "kv_pool \<Rightarrow> string \<Rightarrow> kv_block option \<Rightarrow> kv_pool" where
  "release_put p k ob =
     (case ob of Some b \<Rightarrow> set_block p k b
      | None \<Rightarrow> (del_block p k)\<lparr>p_freed_blocks := p_freed_blocks p + 1\<rparr>)"

definition free_body :: "string \<Rightarrow> kv_block option \<Rightarrow> kv_error + kv_block option" where
  "free_body k ob =
     (case ob of None \<Rightarrow> Inr None
      | Some b \<Rightarrow> if ref_count b \<noteq> 0 then Inl (FreeHeldBlock k) else Inr None)"

definition free_put :: "kv_pool \<times> int \<Rightarrow> string \<Rightarrow> kv_block option \<Rightarrow> kv_pool \<times> int" where
  "free_put s k ob =
     (case s of (p, removed) \<Rightarrow>
        (case look_block p k of None \<Rightarrow> (p, removed) | Some _ \<Rightarrow> (put_block p k ob, removed + 1)))"

definition free_loop :: "kv_pool \<times> int \<Rightarrow> string list \<Rightarrow> (kv_pool \<times> int) \<times> kv_error option" where
  "free_loop s ks = (case s of (p, removed) \<Rightarrow>
     (case free_blocks p ks removed of (q, n, e) \<Rightarrow> ((q, n), e)))"

lemma stored_block: "stored_ok s b \<Longrightarrow> block_ok s b"
  by (simp add: stored_ok_def)

lemma touch_body_ok:
  assumes "touch_body r k (look_block p k) = Inr ob" and "blocks_wf p"
  shows "\<exists>b. look_block p k = Some b \<and> ob = Some (add_owner r b) \<and>
    stored_ok (p_spec p) (add_owner r b) \<and> ref_count (add_owner r b) = ref_count b + 1 \<and>
    ref_count b = 0 \<and> b_content b"
  using assms blocks_wf_get [OF assms(2), of k]
  by (auto simp: touch_body_def stored_ok_def add_owner_ok block_state_of_def
      dest: ref_count_nonneg split: option.splits if_splits)

lemma retain_body_ok:
  assumes "retain_body r k (look_block p k) = Inr ob" and "blocks_wf p"
  shows "\<exists>b. look_block p k = Some b \<and> ob = Some (add_owner r b) \<and>
    stored_ok (p_spec p) (add_owner r b) \<and> ref_count (add_owner r b) = ref_count b + 1 \<and>
    0 < ref_count b"
  using assms blocks_wf_get [OF assms(2), of k]
  by (auto simp: retain_body_def stored_ok_def add_owner_ok block_state_of_def
      dest: ref_count_nonneg split: option.splits if_splits)

lemma evict_body_ok:
  assumes "evict_body k (look_block p k) = Inr ob" and "blocks_wf p"
  shows "\<exists>b. look_block p k = Some b \<and> ob = None \<and> ref_count b = 0 \<and> b_content b"
  using assms blocks_wf_get [OF assms(2), of k]
  by (auto simp: evict_body_def stored_ok_def block_state_of_def
      dest: ref_count_nonneg split: option.splits if_splits)

lemma swap_body_ok:
  assumes "swap_body t k (look_block p k) = Inr ob" and "blocks_wf p"
  shows "\<exists>b. look_block p k = Some b \<and> ob = Some (b\<lparr>b_tier := t\<rparr>) \<and>
    stored_ok (p_spec p) (b\<lparr>b_tier := t\<rparr>) \<and> ref_count (b\<lparr>b_tier := t\<rparr>) = ref_count b"
  using assms blocks_wf_get [OF assms(2), of k]
  by (auto simp: swap_body_def stored_ok_def block_ok_def ref_count_def
      split: option.splits if_splits)

lemma release_body_ok:
  assumes "release_body r k (look_block p k) = Inr ob" and "blocks_wf p"
  shows "\<exists>b. look_block p k = Some b \<and> 0 < ref_count b \<and>
    (case ob of None \<Rightarrow> ref_count b = 1 \<and> \<not> b_content b
     | Some b' \<Rightarrow> stored_ok (p_spec p) b' \<and> ref_count b' = ref_count b - 1 \<and> b_content b' = b_content b)"
proof -
  from assms(1) obtain b held where b: "look_block p k = Some b" "map_of (b_owners b) r = Some held"
    by (auto simp: release_body_def split: option.splits)
  have ok: "block_ok (p_spec p) b" using blocks_wf_get [OF assms(2) b(1)] by (rule stored_block)
  note d = drop_owner_ok [OF ok b(2)]
  have "0 \<le> ref_count (drop_owner r held b)" using d(1) by (rule ref_count_nonneg)
  with d assms(1) b show ?thesis
    by (auto simp: release_body_def Let_def stored_ok_def split: if_splits)
qed

lemma free_body_ok:
  assumes "free_body k (look_block p k) = Inr ob" and "blocks_wf p"
  shows "ob = None \<and> (\<forall>b. look_block p k = Some b \<longrightarrow> ref_count b = 0 \<and> b_content b)"
  using assms blocks_wf_get [OF assms(2), of k]
  by (auto simp: free_body_def stored_ok_def split: option.splits if_splits)

lemma touch_put_wf: "blocks_wf p \<Longrightarrow> touch_body r k (look_block p k) = Inr ob \<Longrightarrow> blocks_wf (put_block p k ob)"
  by (auto dest: touch_body_ok intro: blocks_wf_put)

lemma retain_put_wf: "blocks_wf p \<Longrightarrow> retain_body r k (look_block p k) = Inr ob \<Longrightarrow> blocks_wf (put_block p k ob)"
  by (auto dest: retain_body_ok intro: blocks_wf_put)

lemma evict_put_wf: "blocks_wf p \<Longrightarrow> evict_body k (look_block p k) = Inr ob \<Longrightarrow> blocks_wf (put_block p k ob)"
  by (auto dest: evict_body_ok intro: blocks_wf_put)

lemma swap_put_wf: "blocks_wf p \<Longrightarrow> swap_body t k (look_block p k) = Inr ob \<Longrightarrow> blocks_wf (put_block p k ob)"
  by (auto dest: swap_body_ok intro: blocks_wf_put)

interpretation touch: block_loop "\<lambda>p. touch_blocks p r" look_block "touch_body r" put_block blocks_wf
  for r
proof (unfold_locales, goal_cases)
  case 4
  then show ?case by (rule touch_put_wf)
qed (auto simp: touch_body_def put_block_def split: option.splits)

interpretation retain: block_loop "\<lambda>p. retain_blocks p r" look_block "retain_body r" put_block blocks_wf
  for r
proof (unfold_locales, goal_cases)
  case 4
  then show ?case by (rule retain_put_wf)
qed (auto simp: retain_body_def put_block_def split: option.splits)

interpretation evict: block_loop evict_blocks look_block evict_body put_block blocks_wf
proof (unfold_locales, goal_cases)
  case 4
  then show ?case by (rule evict_put_wf)
qed (auto simp: evict_body_def put_block_def split: option.splits)

interpretation swap: block_loop "\<lambda>p. swap_blocks p t" look_block "swap_body t" put_block blocks_wf
  for t
proof (unfold_locales, goal_cases)
  case 4
  then show ?case by (rule swap_put_wf)
qed (auto simp: swap_body_def put_block_def split: option.splits)

lemma look_release_put [simp]: "look_block (release_put p k ob) = (look_block p)(k := ob)"
  by (cases ob) (simp_all add: release_put_def)

lemma release_put_measures:
  "blocks_wf (release_put p k ob) = blocks_wf (put_block p k ob)"
  "refs (release_put p k ob) = refs (put_block p k ob)"
  "n_blocks (release_put p k ob) = n_blocks (put_block p k ob)"
  "p_freed_blocks (release_put p k ob) = p_freed_blocks p + (case ob of None \<Rightarrow> 1 | Some _ \<Rightarrow> 0)"
  by (cases ob; simp add: release_put_def put_block_def blocks_wf_def refs_def n_blocks_def)+

interpretation release: block_loop "\<lambda>p. release_blocks p r" look_block "release_body r" release_put
  blocks_wf for r
proof unfold_locales
  fix p k ob
  assume "blocks_wf p" and "release_body r k (look_block p k) = Inr ob"
  then show "blocks_wf (release_put p k ob)"
    by (auto simp: release_put_measures dest!: release_body_ok intro: blocks_wf_put)
qed (auto simp: release_body_def release_put_def require_owned_def Let_def split: option.splits)

interpretation free: block_loop free_loop "\<lambda>s. look_block (fst s)" free_body free_put
  "\<lambda>s. blocks_wf (fst s)"
proof unfold_locales
  fix s :: "kv_pool \<times> int" and k ob
  assume "blocks_wf (fst s)" and "free_body k (look_block (fst s) k) = Inr ob"
  then show "blocks_wf (fst (free_put s k ob))"
    by (auto simp: free_body_def free_put_def intro: blocks_wf_put split: option.splits prod.splits if_splits)
qed (auto simp: free_loop_def free_body_def free_put_def put_block_def fun_upd_idem
      split: option.splits prod.splits if_splits)

subsection \<open>What each loop does to the balances\<close>

text \<open>Everything but the blocks, and everything but the blocks and the freed counter.\<close>

definition rest :: "kv_pool \<Rightarrow> kv_pool" where
  "rest p = p\<lparr>p_blocks := []\<rparr>"

definition rest_freed :: "kv_pool \<Rightarrow> kv_pool" where
  "rest_freed p = p\<lparr>p_blocks := [], p_freed_blocks := 0\<rparr>"

lemma rest_put [simp]: "rest (put_block p k ob) = rest p"
  by (cases ob) (simp_all add: rest_def put_block_def)

lemma rest_release_put [simp]: "rest_freed (release_put p k ob) = rest_freed p"
  by (cases ob) (simp_all add: rest_freed_def release_put_def)

lemma rest_eqD:
  assumes "rest q = rest p"
  shows "q = p\<lparr>p_blocks := p_blocks q\<rparr>"
proof -
  have "q = (rest q)\<lparr>p_blocks := p_blocks q\<rparr>" by (simp add: rest_def)
  also have "\<dots> = (rest p)\<lparr>p_blocks := p_blocks q\<rparr>" by (simp add: assms)
  also have "\<dots> = p\<lparr>p_blocks := p_blocks q\<rparr>" by (simp add: rest_def)
  finally show ?thesis .
qed

lemma rest_freed_eqD:
  assumes "rest_freed q = rest_freed p"
  shows "q = p\<lparr>p_blocks := p_blocks q, p_freed_blocks := p_freed_blocks q\<rparr>"
proof -
  have "q = (rest_freed q)\<lparr>p_blocks := p_blocks q, p_freed_blocks := p_freed_blocks q\<rparr>"
    by (simp add: rest_freed_def)
  also have "\<dots> = (rest_freed p)\<lparr>p_blocks := p_blocks q, p_freed_blocks := p_freed_blocks q\<rparr>"
    by (simp add: assms)
  also have "\<dots> = p\<lparr>p_blocks := p_blocks q, p_freed_blocks := p_freed_blocks q\<rparr>"
    by (simp add: rest_freed_def)
  finally show ?thesis .
qed

lemma touch_blocks_effect:
  assumes wf: "blocks_wf p" and l: "touch_blocks p r ks = (q, None)"
  shows "blocks_wf q" "rest q = rest p" "refs q = refs p + int (length ks)" "n_blocks q = n_blocks p"
proof -
  show "blocks_wf q" using wf l by (rule touch.loop_inv)
  show "rest q = rest p" using l by (rule touch.loop_frame) simp
  have "refs q = refs p + 1 * int (length ks)"
    by (rule touch.loop_measure [OF wf l]) (auto simp: refs_put dest: touch_body_ok)
  then show "refs q = refs p + int (length ks)" by simp
  have "n_blocks q = n_blocks p + 0 * int (length ks)"
    by (rule touch.loop_measure [OF wf l]) (auto simp: n_blocks_put dest: touch_body_ok)
  then show "n_blocks q = n_blocks p" by simp
qed

lemma retain_blocks_effect:
  assumes wf: "blocks_wf p" and l: "retain_blocks p r ks = (q, None)"
  shows "blocks_wf q" "rest q = rest p" "refs q = refs p + int (length ks)" "n_blocks q = n_blocks p"
proof -
  show "blocks_wf q" using wf l by (rule retain.loop_inv)
  show "rest q = rest p" using l by (rule retain.loop_frame) simp
  have "refs q = refs p + 1 * int (length ks)"
    by (rule retain.loop_measure [OF wf l]) (auto simp: refs_put dest: retain_body_ok)
  then show "refs q = refs p + int (length ks)" by simp
  have "n_blocks q = n_blocks p + 0 * int (length ks)"
    by (rule retain.loop_measure [OF wf l]) (auto simp: n_blocks_put dest: retain_body_ok)
  then show "n_blocks q = n_blocks p" by simp
qed

lemma evict_blocks_effect:
  assumes wf: "blocks_wf p" and l: "evict_blocks p ks = (q, None)"
  shows "blocks_wf q" "rest q = rest p" "refs q = refs p" "n_blocks q = n_blocks p - int (length ks)"
proof -
  show "blocks_wf q" using wf l by (rule evict.loop_inv)
  show "rest q = rest p" using l by (rule evict.loop_frame) simp
  have "refs q = refs p + 0 * int (length ks)"
    by (rule evict.loop_measure [OF wf l]) (auto simp: refs_put dest: evict_body_ok)
  then show "refs q = refs p" by simp
  have "n_blocks q = n_blocks p + (- 1) * int (length ks)"
    by (rule evict.loop_measure [OF wf l]) (auto simp: n_blocks_put dest: evict_body_ok)
  then show "n_blocks q = n_blocks p - int (length ks)" by simp
qed

lemma swap_blocks_effect:
  assumes wf: "blocks_wf p" and l: "swap_blocks p t ks = (q, None)"
  shows "blocks_wf q" "rest q = rest p" "refs q = refs p" "n_blocks q = n_blocks p"
proof -
  show "blocks_wf q" using wf l by (rule swap.loop_inv)
  show "rest q = rest p" using l by (rule swap.loop_frame) simp
  have "refs q = refs p + 0 * int (length ks)"
    by (rule swap.loop_measure [OF wf l]) (auto simp: refs_put dest: swap_body_ok)
  then show "refs q = refs p" by simp
  have "n_blocks q = n_blocks p + 0 * int (length ks)"
    by (rule swap.loop_measure [OF wf l]) (auto simp: n_blocks_put dest: swap_body_ok)
  then show "n_blocks q = n_blocks p" by simp
qed

lemma release_blocks_effect:
  assumes wf: "blocks_wf p" and l: "release_blocks p r ks = (q, None)"
  shows "blocks_wf q" "rest_freed q = rest_freed p" "refs q = refs p - int (length ks)"
    "n_blocks q + p_freed_blocks q = n_blocks p + p_freed_blocks p"
proof -
  show "blocks_wf q" using wf l by (rule release.loop_inv)
  show "rest_freed q = rest_freed p" using l by (rule release.loop_frame) simp
  have "refs q = refs p + (- 1) * int (length ks)"
    by (rule release.loop_measure [OF wf l])
      (auto simp: release_put_measures refs_put dest!: release_body_ok split: option.splits)
  then show "refs q = refs p - int (length ks)" by simp
  have "n_blocks q + p_freed_blocks q = n_blocks p + p_freed_blocks p + 0 * int (length ks)"
    by (rule release.loop_measure [OF wf l, where m = "\<lambda>p. n_blocks p + p_freed_blocks p"])
      (auto simp: release_put_measures n_blocks_put dest!: release_body_ok split: option.splits)
  then show "n_blocks q + p_freed_blocks q = n_blocks p + p_freed_blocks p" by simp
qed

lemma free_blocks_effect:
  assumes wf: "blocks_wf p" and l: "free_blocks p ks 0 = (q, n, None)"
  shows "blocks_wf q" "rest q = rest p" "refs q = refs p" "n_blocks q + n = n_blocks p"
proof -
  have loop: "free_loop (p, 0) ks = ((q, n), None)" using l by (simp add: free_loop_def)
  have wf': "blocks_wf (fst (p, 0::int))" using wf by simp
  show "blocks_wf q" using free.loop_inv [OF wf' loop] by simp
  have "rest (fst (q, n)) = rest (fst (p, 0::int))"
    by (rule free.loop_frame [OF loop, where f = "\<lambda>s. rest (fst s)"])
      (auto simp: free_put_def split: prod.splits option.splits)
  then show "rest q = rest p" by simp
  have "refs (fst (q, n)) = refs (fst (p, 0::int)) + 0 * int (length ks)"
    by (rule free.loop_measure [OF wf' loop, where m = "\<lambda>s. refs (fst s)"])
      (auto simp: free_put_def refs_put dest!: free_body_ok split: prod.splits option.splits)
  then show "refs q = refs p" by simp
  have "n_blocks (fst (q, n)) + snd (q, n) =
      n_blocks (fst (p, 0::int)) + snd (p, 0) + 0 * int (length ks)"
    by (rule free.loop_measure [OF wf' loop, where m = "\<lambda>s. n_blocks (fst s) + snd s"])
      (auto simp: free_put_def n_blocks_put dest!: free_body_ok split: prod.splits option.splits)
  then show "n_blocks q + n = n_blocks p" by simp
qed

lemma new_block_ok:
  assumes "spec_ok (p_spec p)"
  shows "stored_ok (p_spec p) (new_block q k r)" "ref_count (new_block q k r) = 1"
  using spec_okD [OF assms]
  by (auto simp: stored_ok_def block_ok_def new_block_def ref_count_def dall_def)

lemma allocate_blocks_effect:
  assumes "blocks_wf p" and "distinct ks" and "\<forall>k \<in> set ks. look_block p k = None"
  shows "blocks_wf (allocate_blocks p r ks) \<and> rest (allocate_blocks p r ks) = rest p \<and>
    refs (allocate_blocks p r ks) = refs p + int (length ks) \<and>
    n_blocks (allocate_blocks p r ks) = n_blocks p + int (length ks) \<and>
    (\<forall>k. look_block (allocate_blocks p r ks) k =
       (if k \<in> set ks then Some (new_block p k r) else look_block p k))"
  using assms
proof (induction ks arbitrary: p)
  case (Cons k ks)
  let ?p = "put_block p k (Some (new_block p k r))"
  have sp: "spec_ok (p_spec p)" using Cons.prems(1) by (simp add: blocks_wf_def)
  have wf: "blocks_wf ?p"
    using Cons.prems(1) new_block_ok [OF sp] by (intro blocks_wf_put) auto
  have nb: "new_block ?p j r = new_block p j r" for j by (simp add: new_block_def)
  have "refs ?p = refs p + 1" "n_blocks ?p = n_blocks p + 1"
    using Cons.prems new_block_ok [OF sp] by (auto simp: refs_put n_blocks_put)
  moreover have "allocate_blocks p r (k # ks) = allocate_blocks ?p r ks"
    by (simp add: put_block_def)
  moreover have "\<forall>j \<in> set ks. look_block ?p j = None" using Cons.prems(2,3) by auto
  then have "blocks_wf (allocate_blocks ?p r ks) \<and> rest (allocate_blocks ?p r ks) = rest ?p \<and>
    refs (allocate_blocks ?p r ks) = refs ?p + int (length ks) \<and>
    n_blocks (allocate_blocks ?p r ks) = n_blocks ?p + int (length ks) \<and>
    (\<forall>j. look_block (allocate_blocks ?p r ks) j =
       (if j \<in> set ks then Some (new_block ?p j r) else look_block ?p j))"
    using wf Cons.prems(2) by (intro Cons.IH) auto
  ultimately show ?case using Cons.prems(2) nb by (auto simp del: allocate_blocks.simps)
qed simp

lemma allocate_checks_absent:
  assumes "blocks_wf p" and "allocate_checks p ks = None"
  shows "\<forall>k \<in> set ks. look_block p k = None"
proof
  fix k assume k: "k \<in> set ks"
  show "look_block p k = None"
  proof (rule ccontr)
    assume "look_block p k \<noteq> None"
    then obtain b where b: "look_block p k = Some b" by auto
    with assms(2) k have "block_state_of b = FREE_BLOCK"
      by (fastforce simp: allocate_checks_def first_err_None_iff)
    moreover have "stored_ok (p_spec p) b" using assms(1) b by (rule blocks_wf_get)
    ultimately show False by (auto simp: block_state_of_def stored_ok_def split: if_splits)
  qed
qed

text \<open>Filling: owners and tiers stay, fill levels and content only grow.\<close>

definition block_grows :: "kv_block option \<Rightarrow> kv_block option \<Rightarrow> bool" where
  "block_grows ob ob' =
     (case (ob, ob') of
        (None, None) \<Rightarrow> True
      | (Some b, Some b') \<Rightarrow>
          b_owners b' = b_owners b \<and> b_tier b' = b_tier b \<and> b_filled_tokens b \<le> b_filled_tokens b' \<and>
          (b_content b \<longrightarrow> b_content b')
      | _ \<Rightarrow> False)"

lemma block_grows_refl [simp]: "block_grows ob ob"
  by (simp add: block_grows_def split: option.splits)

lemma block_grows_trans: "block_grows a b \<Longrightarrow> block_grows b c \<Longrightarrow> block_grows a c"
  by (auto simp: block_grows_def split: option.splits)

definition filled_total :: "kv_pool \<Rightarrow> int" where
  "filled_total p = dsum b_filled_tokens (p_blocks p)"

lemma filled_total_put:
  "blocks_wf p \<Longrightarrow> filled_total (put_block p k ob) =
     filled_total p + (case ob of None \<Rightarrow> 0 | Some b \<Rightarrow> b_filled_tokens b)
                    - (case look_block p k of None \<Rightarrow> 0 | Some b \<Rightarrow> b_filled_tokens b)"
  by (cases ob) (simp_all add: filled_total_def blocks_wf_def put_block_def dsum_update dsum_delete)

definition fill_block :: "kv_pool_spec \<Rightarrow> kv_block \<Rightarrow> int \<Rightarrow> kv_block" where
  "fill_block s b taken =
     b\<lparr>b_filled_tokens := b_filled_tokens b + taken,
       b_content := (b_content b \<or> b_filled_tokens b + taken = ps_block_tokens s)\<rparr>"

lemma fill_block_ok:
  assumes "stored_ok s b" and "0 \<le> taken" and "taken \<le> ps_block_tokens s - b_filled_tokens b"
  shows "stored_ok s (fill_block s b taken)" "ref_count (fill_block s b taken) = ref_count b"
    "b_filled_tokens (fill_block s b taken) = b_filled_tokens b + taken"
    "block_grows (Some b) (Some (fill_block s b taken))"
  using assms
  by (auto simp: stored_ok_def block_ok_def fill_block_def ref_count_def block_grows_def)

lemma fill_effect:
  assumes "blocks_wf p" and "0 \<le> n" and "fill p ks n = (q, left)"
  shows "blocks_wf q \<and> rest q = rest p \<and> refs q = refs p \<and> n_blocks q = n_blocks p \<and>
    0 \<le> left \<and> filled_total q = filled_total p + (n - left) \<and>
    (\<forall>k. block_grows (look_block p k) (look_block q k))"
  using assms
proof (induction ks arbitrary: p n)
  case (Cons k ks)
  show ?case
  proof (cases "n = 0 \<or> look_block p k = None")
    case True
    with Cons show ?thesis by (auto split: if_splits)
  next
    case False
    then obtain b where b: "look_block p k = Some b" and n: "n \<noteq> 0" by auto
    have st: "stored_ok (p_spec p) b" using Cons.prems(1) b by (rule blocks_wf_get)
    let ?taken = "min (ps_block_tokens (p_spec p) - b_filled_tokens b) n"
    let ?b = "fill_block (p_spec p) b ?taken"
    let ?p = "put_block p k (Some ?b)"
    have t: "0 \<le> ?taken" using st Cons.prems(2) by (auto simp: stored_ok_def block_ok_def)
    note f = fill_block_ok [OF st t]
    have wf: "blocks_wf ?p" using Cons.prems(1) f(1) by (intro blocks_wf_put) auto
    have "fill ?p ks (n - ?taken) = (q, left)"
      using Cons.prems(3) b n by (simp add: put_block_def fill_block_def Let_def)
    then have IH: "blocks_wf q \<and> rest q = rest ?p \<and> refs q = refs ?p \<and> n_blocks q = n_blocks ?p \<and>
      0 \<le> left \<and> filled_total q = filled_total ?p + (n - ?taken - left) \<and>
      (\<forall>k. block_grows (look_block ?p k) (look_block q k))"
      using wf by (intro Cons.IH) auto
    have "refs ?p = refs p" "n_blocks ?p = n_blocks p" "filled_total ?p = filled_total p + ?taken"
      using Cons.prems(1) b f by (auto simp: refs_put n_blocks_put filled_total_put)
    moreover have "block_grows (look_block p j) (look_block ?p j)" for j
      using b f(4) by auto
    ultimately show ?thesis using IH by (auto intro: block_grows_trans)
  qed
qed auto

subsection \<open>The pool invariant and the handlers\<close>

text \<open>
  The balances: every block ever allocated is still stored, was evicted or was freed; every
  reference ever taken is still held or was released; every eviction has a cause.
\<close>

definition balanced :: "kv_pool \<Rightarrow> bool" where
  "balanced p \<longleftrightarrow>
     n_blocks p = p_allocated_blocks p - p_evicted_blocks p - p_freed_blocks p \<and>
     refs p = p_allocated_blocks p + p_touched_blocks p + p_retained_blocks p - p_released_references p \<and>
     dsum (\<lambda>n. n) (p_eviction_causes p) = p_evicted_blocks p"

definition core_inv :: "kv_pool \<Rightarrow> bool" where
  "core_inv p \<longleftrightarrow> blocks_wf p \<and> balanced p \<and> dict_ok (p_eviction_causes p) \<and>
     dict_ok (p_reservations p) \<and> dall (\<lambda>n. 0 < n) (p_reservations p)"

definition pool_inv :: "kv_pool \<Rightarrow> bool" where
  "pool_inv p \<longleftrightarrow> core_inv p \<and> live_blocks p + reclaimable_blocks p \<le> ps_capacity_blocks (p_spec p) \<and>
     live_blocks p \<le> p_peak_live_blocks p \<and> p_peak_live_blocks p \<le> ps_capacity_blocks (p_spec p)"

lemma rest_fields:
  assumes "rest q = rest p"
  shows "p_spec q = p_spec p" "p_reservations q = p_reservations p"
    "p_peak_live_blocks q = p_peak_live_blocks p" "p_allocated_blocks q = p_allocated_blocks p"
    "p_released_references q = p_released_references p" "p_evicted_blocks q = p_evicted_blocks p"
    "p_freed_blocks q = p_freed_blocks p" "p_touched_blocks q = p_touched_blocks p"
    "p_retained_blocks q = p_retained_blocks p" "p_read_bytes q = p_read_bytes p"
    "p_write_bytes q = p_write_bytes p" "p_swap_bytes q = p_swap_bytes p"
    "p_transfer_bytes q = p_transfer_bytes p" "p_eviction_causes q = p_eviction_causes p"
  using assms by (cases p; cases q; simp add: rest_def)+

lemma rest_freed_fields:
  assumes "rest_freed q = rest_freed p"
  shows "p_spec q = p_spec p" "p_reservations q = p_reservations p"
    "p_peak_live_blocks q = p_peak_live_blocks p" "p_allocated_blocks q = p_allocated_blocks p"
    "p_released_references q = p_released_references p" "p_evicted_blocks q = p_evicted_blocks p"
    "p_touched_blocks q = p_touched_blocks p"
    "p_retained_blocks q = p_retained_blocks p" "p_read_bytes q = p_read_bytes p"
    "p_write_bytes q = p_write_bytes p" "p_swap_bytes q = p_swap_bytes p"
    "p_transfer_bytes q = p_transfer_bytes p" "p_eviction_causes q = p_eviction_causes p"
  using assms by (cases p; cases q; simp add: rest_freed_def)+

text \<open>What a handler may rely on: \<open>observe\<close> has validated the token span and the bytes.\<close>

definition span_ok :: "kv_cache_work \<Rightarrow> int option \<Rightarrow> bool" where
  "span_ok w tokens \<longleftrightarrow> 0 \<le> kw_byte_count w \<and> (case tokens of None \<Rightarrow> True | Some t \<Rightarrow> 0 < t)"

lemma token_span_pos: "token_span w = Inr tokens \<Longrightarrow> (case tokens of None \<Rightarrow> True | Some t \<Rightarrow> 0 < t)"
  by (auto simp: token_span_def split: option.splits if_splits)

lemma require_blocksD: "require_blocks w = None \<Longrightarrow> distinct (kw_block_ids w) \<and> kw_block_ids w \<noteq> []"
  by (simp add: require_blocks_def)

lemmas pool_defs = core_inv_def balanced_def blocks_wf_def refs_def n_blocks_def

lemma reserve_inv:
  assumes "core_inv p" "span_ok w tokens" "observe_reserve p w tokens = (q, None)"
  shows "core_inv q \<and> p_spec q = p_spec p \<and> p_peak_live_blocks q = p_peak_live_blocks p"
proof -
  from assms(3) obtain r t where r: "kw_request_id w = Some r" and t: "tokens = Some t"
    by (auto simp: observe_reserve_def split: option.splits if_splits)
  with assms(3) have
    q: "q = p\<lparr>p_reservations := AList.update r
          (dict_get (p_reservations p) r 0 - ((- t) div ps_block_tokens (p_spec p))) (p_reservations p)\<rparr>"
    by (simp add: observe_reserve_def Let_def split: if_splits)
  have "0 < ps_block_tokens (p_spec p)" using assms(1) by (auto simp: core_inv_def blocks_wf_def dest: spec_okD)
  moreover have "0 < t" using assms(2) t by (simp add: span_ok_def)
  ultimately have "(- t) div ps_block_tokens (p_spec p) < 0" by (simp add: div_neg_pos_less0)
  moreover have "0 \<le> dict_get (p_reservations p) r 0"
    using assms(1) dall_get [of "\<lambda>n. 0 < n" "p_reservations p" r]
    by (fastforce simp: core_inv_def split: option.splits)
  ultimately show ?thesis using assms(1) q by (auto simp: pool_defs)
qed

lemma allocate_reservations:
  assumes "core_inv p" "map_of (p_reservations p) r = Some out" "n \<le> out"
  shows "core_inv (p\<lparr>p_reservations :=
    (if out - n \<noteq> 0 then AList.update r (out - n) (p_reservations p) else AList.delete r (p_reservations p))\<rparr>)"
  using assms by (auto simp: pool_defs)

lemma allocate_core:
  assumes "core_inv p" "require_blocks w = None" "allocate_checks p (kw_block_ids w) = None"
  shows "core_inv ((allocate_blocks p r (kw_block_ids w))
    \<lparr>p_allocated_blocks := p_allocated_blocks p + int (length (kw_block_ids w))\<rparr>) \<and>
    p_spec (allocate_blocks p r (kw_block_ids w)) = p_spec p \<and>
    p_peak_live_blocks (allocate_blocks p r (kw_block_ids w)) = p_peak_live_blocks p"
proof -
  let ?q = "allocate_blocks p r (kw_block_ids w)"
  have wf: "blocks_wf p" using assms(1) by (simp add: core_inv_def)
  then have eff: "blocks_wf ?q \<and> rest ?q = rest p \<and> refs ?q = refs p + int (length (kw_block_ids w)) \<and>
      n_blocks ?q = n_blocks p + int (length (kw_block_ids w))"
    using allocate_blocks_effect [OF wf, of "kw_block_ids w" r] allocate_checks_absent [OF wf assms(3)]
      require_blocksD [OF assms(2)] by blast
  then show ?thesis using assms(1) rest_fields [of ?q p] by (auto simp: pool_defs)
qed

lemma allocate_inv:
  assumes "core_inv p" "observe_allocate p w tokens = (q, None)"
  shows "core_inv q \<and> p_spec q = p_spec p \<and> p_peak_live_blocks q = p_peak_live_blocks p"
proof -
  let ?ks = "kw_block_ids w" let ?n = "int (length ?ks)"
  from assms(2) obtain r where r: "kw_request_id w = Some r" and rb: "require_blocks w = None"
    and ac: "allocate_checks p ?ks = None"
    by (auto simp: observe_allocate_def split: option.splits)
  show ?thesis
  proof (cases "map_of (p_reservations p) r")
    case None
    with assms(2) r rb ac have "q = (allocate_blocks p r ?ks)\<lparr>p_allocated_blocks := p_allocated_blocks p + ?n\<rparr>"
      by (simp add: observe_allocate_def)
    with allocate_core [OF assms(1) rb ac] show ?thesis by simp
  next
    case (Some out)
    let ?p = "p\<lparr>p_reservations := (if out - ?n \<noteq> 0 then AList.update r (out - ?n) (p_reservations p)
      else AList.delete r (p_reservations p))\<rparr>"
    from assms(2) r rb ac Some have "?n \<le> out"
      and q: "q = (allocate_blocks ?p r ?ks)\<lparr>p_allocated_blocks := p_allocated_blocks p + ?n\<rparr>"
      by (auto simp: observe_allocate_def Let_def split: if_splits)
    then have "core_inv ?p" using allocate_reservations [OF assms(1) Some] by blast
    moreover have "allocate_checks ?p ?ks = None" using ac by (simp add: allocate_checks_def)
    ultimately show ?thesis using allocate_core [of ?p w r] rb q by simp
  qed
qed

lemma bind_prefix_inv:
  "core_inv p \<Longrightarrow> observe_bind_prefix p w tokens = (q, None) \<Longrightarrow>
   core_inv q \<and> p_spec q = p_spec p \<and> p_peak_live_blocks q = p_peak_live_blocks p \<and> p_blocks q = p_blocks p"
  by (auto simp: observe_bind_prefix_def pool_defs split: option.splits)

lemma recompute_inv:
  "core_inv p \<Longrightarrow> observe_recompute p w tokens = (q, None) \<Longrightarrow>
   core_inv q \<and> p_spec q = p_spec p \<and> p_peak_live_blocks q = p_peak_live_blocks p \<and> p_blocks q = p_blocks p"
  by (auto simp: observe_recompute_def pool_defs split: option.splits if_splits)

lemma touch_inv:
  assumes "core_inv p" "observe_touch p w tokens = (q, None)"
  shows "core_inv q \<and> p_spec q = p_spec p \<and> p_peak_live_blocks q = p_peak_live_blocks p"
proof -
  from assms(2) obtain r t where t: "touch_blocks p r (kw_block_ids w) = (t, None)"
    and q: "q = t\<lparr>p_touched_blocks := p_touched_blocks t + int (length (kw_block_ids w))\<rparr>"
    by (auto simp: observe_touch_def split: option.splits prod.splits)
  have wf: "blocks_wf p" using assms(1) by (simp add: core_inv_def)
  note e = touch_blocks_effect [OF wf t]
  show ?thesis using assms(1) q e rest_fields [OF e(2)] by (auto simp: pool_defs)
qed

lemma retain_inv:
  assumes "core_inv p" "observe_retain p w tokens = (q, None)"
  shows "core_inv q \<and> p_spec q = p_spec p \<and> p_peak_live_blocks q = p_peak_live_blocks p"
proof -
  from assms(2) obtain r t where t: "retain_blocks p r (kw_block_ids w) = (t, None)"
    and q: "q = t\<lparr>p_retained_blocks := p_retained_blocks t + int (length (kw_block_ids w))\<rparr>"
    by (auto simp: observe_retain_def split: option.splits prod.splits)
  have wf: "blocks_wf p" using assms(1) by (simp add: core_inv_def)
  note e = retain_blocks_effect [OF wf t]
  show ?thesis using assms(1) q e rest_fields [OF e(2)] by (auto simp: pool_defs)
qed

lemma release_inv:
  assumes "core_inv p" "observe_release p w tokens = (q, None)"
  shows "core_inv q \<and> p_spec q = p_spec p \<and> p_peak_live_blocks q = p_peak_live_blocks p"
proof -
  from assms(2) obtain r t where t: "release_blocks p r (kw_block_ids w) = (t, None)"
    and q: "q = t\<lparr>p_released_references := p_released_references t + int (length (kw_block_ids w))\<rparr>"
    by (auto simp: observe_release_def split: option.splits prod.splits)
  have wf: "blocks_wf p" using assms(1) by (simp add: core_inv_def)
  note e = release_blocks_effect [OF wf t]
  show ?thesis using assms(1) q e rest_freed_fields [OF e(2)] by (auto simp: pool_defs)
qed

lemma evict_inv:
  assumes "core_inv p" "observe_evict p w tokens = (q, None)"
  shows "core_inv q \<and> p_spec q = p_spec p \<and> p_peak_live_blocks q = p_peak_live_blocks p"
proof -
  let ?n = "int (length (kw_block_ids w))"
  from assms(2) obtain cause t where t: "evict_blocks p (kw_block_ids w) = (t, None)"
    and c: "kw_cause w = Some cause"
    by (auto simp: observe_evict_def split: option.splits prod.splits)
  with assms(2) have q: "q = t\<lparr>p_evicted_blocks := p_evicted_blocks t + ?n, p_eviction_causes :=
        AList.update cause (dict_get (p_eviction_causes t) cause 0 + ?n) (p_eviction_causes t)\<rparr>"
    by (simp add: observe_evict_def Let_def split: option.splits)
  have wf: "blocks_wf p" using assms(1) by (simp add: core_inv_def)
  note e = evict_blocks_effect [OF wf t]
  have "dsum (\<lambda>n. n) (p_eviction_causes q) = p_evicted_blocks q" "dict_ok (p_eviction_causes q)"
    using assms(1) q rest_fields [OF e(2)] by (auto simp: core_inv_def balanced_def dsum_update split: option.splits)
  then show ?thesis using assms(1) q e rest_fields [OF e(2)] by (auto simp: pool_defs)
qed

lemma free_inv:
  assumes "core_inv p" "observe_free p w tokens = (q, None)"
  shows "core_inv q \<and> p_spec q = p_spec p \<and> p_peak_live_blocks q = p_peak_live_blocks p"
proof -
  from assms(2) obtain t n where t: "free_blocks p (kw_block_ids w) 0 = (t, n, None)"
    and q: "q = t\<lparr>p_freed_blocks := p_freed_blocks t + n\<rparr>"
    by (auto simp: observe_free_def split: option.splits prod.splits)
  have wf: "blocks_wf p" using assms(1) by (simp add: core_inv_def)
  note e = free_blocks_effect [OF wf t]
  show ?thesis using assms(1) q e rest_fields [OF e(2)] by (auto simp: pool_defs)
qed

lemma swap_inv:
  assumes "core_inv p" "observe_swap p w tokens = (q, None)"
  shows "core_inv q \<and> p_spec q = p_spec p \<and> p_peak_live_blocks q = p_peak_live_blocks p"
proof -
  from assms(2) obtain cause t where t: "swap_blocks p cause (kw_block_ids w) = (t, None)"
    and q: "q = t\<lparr>p_swap_bytes := p_swap_bytes t + kw_byte_count w\<rparr>"
    by (auto simp: observe_swap_def split: option.splits prod.splits)
  have wf: "blocks_wf p" using assms(1) by (simp add: core_inv_def)
  note e = swap_blocks_effect [OF wf t]
  show ?thesis using assms(1) q e rest_fields [OF e(2)] by (auto simp: pool_defs)
qed

lemma moved_tokens_nonneg:
  assumes "spec_ok (p_spec p)" "span_ok w tokens" "moved_tokens p w tokens = Inr n"
  shows "0 \<le> n"
  using assms spec_okD(5) [OF assms(1)]
  by (auto simp: moved_tokens_def span_ok_def pos_imp_zdiv_nonneg_iff split: option.splits if_splits)

lemma write_fill:
  assumes "observe_traffic p w tokens = (q, None)" "kw_action w = WRITE"
  obtains n t where "moved_tokens p w tokens = Inr n" "fill p (kw_block_ids w) n = (t, 0)"
    "q = t\<lparr>p_write_bytes := p_write_bytes t + kw_byte_count w\<rparr>"
  using assms by (auto simp: observe_traffic_def split: option.splits sum.splits prod.splits if_splits)

lemma traffic_other:
  assumes "observe_traffic p w tokens = (q, None)" "kw_action w \<noteq> WRITE"
  shows "q = p\<lparr>p_read_bytes := p_read_bytes p + (if kw_action w = READ then kw_byte_count w else 0),
               p_transfer_bytes := p_transfer_bytes p + (if kw_action w = READ then 0 else kw_byte_count w)\<rparr>"
  using assms by (auto simp: observe_traffic_def split: option.splits sum.splits if_splits)

lemma traffic_inv:
  assumes "core_inv p" "span_ok w tokens" "observe_traffic p w tokens = (q, None)"
  shows "core_inv q \<and> p_spec q = p_spec p \<and> p_peak_live_blocks q = p_peak_live_blocks p"
proof (cases "kw_action w = WRITE")
  case True
  with assms(3) obtain n t where m: "moved_tokens p w tokens = Inr n"
    and f: "fill p (kw_block_ids w) n = (t, 0)"
    and q: "q = t\<lparr>p_write_bytes := p_write_bytes t + kw_byte_count w\<rparr>" by (rule write_fill)
  have wf: "blocks_wf p" using assms(1) by (simp add: core_inv_def)
  then have "0 \<le> n" using moved_tokens_nonneg assms(2) m by (auto simp: blocks_wf_def)
  note e = fill_effect [OF wf this f]
  then show ?thesis using assms(1) q rest_fields [of t p] by (auto simp: pool_defs)
next
  case False
  then show ?thesis using traffic_other [OF assms(3)] assms(1) by (simp add: pool_defs)
qed

lemma handler_inv:
  assumes "core_inv p" "span_ok w tokens" "handler_for (kw_action w) p w tokens = (q, None)"
  shows "core_inv q \<and> p_spec q = p_spec p \<and> p_peak_live_blocks q = p_peak_live_blocks p"
  using assms
    reserve_inv [of p w tokens q] allocate_inv [of p w tokens q] bind_prefix_inv [of p w tokens q]
    touch_inv [of p w tokens q] retain_inv [of p w tokens q] traffic_inv [of p w tokens q]
    release_inv [of p w tokens q] evict_inv [of p w tokens q] free_inv [of p w tokens q]
    swap_inv [of p w tokens q] recompute_inv [of p w tokens q]
  by (cases "kw_action w") simp_all

subsection \<open>Observing keeps the invariant\<close>

lemma live_reclaimable_blocks:
  assumes "blocks_wf p"
  shows "live_blocks p + reclaimable_blocks p = n_blocks p"
proof -
  have "dsum (\<lambda>b. b2i (ref_count b > 0) + b2i (ref_count b = 0 \<and> b_content b)) (p_blocks p) =
        dsum (\<lambda>_. 1) (p_blocks p)"
  proof (rule dsum_cong)
    fix k b assume "(k, b) \<in> set (p_blocks p)"
    with assms have "stored_ok (p_spec p) b"
      by (auto simp: blocks_wf_def intro: dall_get)
    then show "b2i (ref_count b > 0) + b2i (ref_count b = 0 \<and> b_content b) = 1"
      by (auto simp: stored_ok_def dest: ref_count_nonneg)
  qed
  then show ?thesis
    unfolding live_blocks_def reclaimable_blocks_def n_blocks_def dsum_add .
qed

lemma live_blocks_nonneg: "0 \<le> live_blocks p" "0 \<le> reclaimable_blocks p"
  by (auto simp: live_blocks_def reclaimable_blocks_def dall_def list_all_iff intro!: dsum_nonneg)

lemma check_bytes_nonneg: "check_bytes p w tokens = None \<Longrightarrow> 0 \<le> kw_byte_count w"
  by (auto simp: check_bytes_def split: if_splits)

text \<open>What an accepted observation did, in one fact.\<close>

lemma observe_poolE:
  assumes "observe_pool p oid w = (q, Inr d)"
  obtains tokens t where "token_span w = Inr tokens" "check_bytes p w tokens = None"
    "span_ok w tokens" "handler_for (kw_action w) p w tokens = (t, None)"
    "check_reference_count t w = None" "check_conservation t = None"
    "q = t\<lparr>p_peak_live_blocks := max (p_peak_live_blocks t) (live_blocks t)\<rparr>"
    "kd_byte_count d = kw_byte_count w" "kd_action d = kw_action w" "kd_pool_id d = kw_pool_id w"
    "kd_operation_id d = oid"
proof -
  from assms obtain tokens where 1: "token_span w = Inr tokens"
    by (auto simp: observe_pool_def split: sum.splits)
  with assms have 2: "check_bytes p w tokens = None"
    by (auto simp: observe_pool_def split: option.splits)
  obtain t e where h: "handler_for (kw_action w) p w tokens = (t, e)" by fastforce
  with assms 1 2 have 3: "e = None" by (auto simp: observe_pool_def split: option.splits)
  with assms 1 2 h have 4: "check_reference_count t w = None"
    by (auto simp: observe_pool_def split: option.splits)
  with assms 1 2 h 3 have 5: "check_conservation t = None"
    by (auto simp: observe_pool_def split: option.splits)
  have 6: "span_ok w tokens"
    using token_span_pos [OF 1] check_bytes_nonneg [OF 2] by (simp add: span_ok_def)
  show thesis
    using that [OF 1 2 6 _ 4 5] h 3 assms 1 2 4 5 by (auto simp: observe_pool_def)
qed

lemma observe_pool_inv:
  assumes "pool_inv p" and "observe_pool p oid w = (q, Inr d)"
  shows "pool_inv q \<and> p_spec q = p_spec p"
proof -
  from assms(2) obtain tokens t where s: "span_ok w tokens"
    and h: "handler_for (kw_action w) p w tokens = (t, None)" and c: "check_conservation t = None"
    and q: "q = t\<lparr>p_peak_live_blocks := max (p_peak_live_blocks t) (live_blocks t)\<rparr>"
    by (rule observe_poolE)
  have t: "core_inv t" "p_spec t = p_spec p" "p_peak_live_blocks t = p_peak_live_blocks p"
    using handler_inv [OF _ s h] assms(1) by (auto simp: pool_inv_def)
  have "live_blocks q = live_blocks t" "reclaimable_blocks q = reclaimable_blocks t"
    using q by (simp_all add: live_blocks_def reclaimable_blocks_def)
  moreover have "core_inv q" using t(1) q by (simp add: pool_defs)
  moreover have "live_blocks t + reclaimable_blocks t \<le> ps_capacity_blocks (p_spec p)"
    using c t(2) by (simp add: check_conservation_def)
  ultimately show ?thesis
    using q t assms(1) live_blocks_nonneg [of t] by (auto simp: pool_inv_def)
qed

lemma pool_inv_new [inv_intros]: "spec_ok s \<Longrightarrow> pool_inv (new_pool s)"
  using spec_okD(3) [of s]
  by (simp add: pool_inv_def pool_defs new_pool_def live_blocks_def reclaimable_blocks_def dall_def)

definition ledger_inv :: "kv_ledger \<Rightarrow> bool" where
  "ledger_inv l \<longleftrightarrow> dict_ok l \<and> dall pool_inv l"

lemma add_pools_inv:
  "ledger_inv l \<Longrightarrow> \<forall>s \<in> set specs. spec_ok s \<Longrightarrow> add_pools l specs = Inr l' \<Longrightarrow> ledger_inv l'"
proof (induction specs arbitrary: l)
  case (Cons s specs)
  have "ledger_inv (AList.update (ps_pool_id s) (new_pool s) l)"
    using Cons.prems by (auto simp: ledger_inv_def intro: pool_inv_new)
  with Cons show ?case by (auto split: if_splits)
qed simp

lemma new_ledger_inv [inv_intros]:
  assumes "\<forall>s \<in> set specs. check_pool_spec s = None" and "new_ledger specs = Inr l"
  shows "ledger_inv l"
proof -
  have "add_pools [] specs = Inr l"
    using assms(2) by (auto simp: new_ledger_def split: sum.splits if_splits)
  moreover have "ledger_inv []" by (simp add: ledger_inv_def dall_def)
  moreover have "\<forall>s \<in> set specs. spec_ok s" using assms(1) by (simp add: spec_ok_def)
  ultimately show ?thesis using add_pools_inv by blast
qed

lemma kv_observeE:
  assumes "kv_observe l (oid, w) = (l', Inr d)"
  obtains p q where "map_of l (kw_pool_id w) = Some p" "observe_pool p oid w = (q, Inr d)"
    "l' = AList.update (kw_pool_id w) q l"
  using assms by (auto simp: kv_observe_def split: if_splits option.splits prod.splits)

interpretation kv: guarded_machine kv_observe ledger_inv
proof
  fix l l' :: kv_ledger and x and d
  assume inv: "ledger_inv l" and step: "kv_observe l x = (l', Inr d)"
  obtain oid w where x: "x = (oid, w)" by (cases x)
  from step obtain p q where p: "map_of l (kw_pool_id w) = Some p"
    and o: "observe_pool p oid w = (q, Inr d)" and l': "l' = AList.update (kw_pool_id w) q l"
    unfolding x by (rule kv_observeE)
  from inv p have "pool_inv p" by (auto simp: ledger_inv_def dest: dall_get)
  with o have "pool_inv q" using observe_pool_inv by blast
  with inv l' show "ledger_inv l'" by (auto simp: ledger_inv_def)
qed

end
