(* ===== verification/Kv_Properties.thy ===== *)
theory Kv_Properties
  imports Kv_Invariants
begin

text \<open>
  What the KV ledger guarantees to its clients: the balance of every reported pool, the
  block state machine, conservation of the bytes a batch demands, token-exact writes, and
  the sequential meaning of the runtime's per-graph transactions.
\<close>

subsection \<open>Block states\<close>

text \<open>
  The transitions the module documentation describes: \<open>ALLOCATE\<close> takes a free block,
  \<open>TOUCH\<close> revives a reclaimable one, \<open>RELEASE\<close> of the last reference makes a block
  reclaimable or free, \<open>EVICT\<close> and \<open>FREE\<close> discard reclaimable content.
\<close>

fun legal_transition :: "kv_cache_action \<Rightarrow> kv_block_state \<Rightarrow> kv_block_state \<Rightarrow> bool" where
  "legal_transition ALLOCATE s s' = (s = FREE_BLOCK \<and> s' = LIVE_BLOCK)"
| "legal_transition TOUCH s s' = (s = RECLAIMABLE_BLOCK \<and> s' = LIVE_BLOCK)"
| "legal_transition RELEASE s s' = (s = LIVE_BLOCK \<and> s' \<noteq> LIVE_BLOCK)"
| "legal_transition EVICT s s' = (s = RECLAIMABLE_BLOCK \<and> s' = FREE_BLOCK)"
| "legal_transition FREE s s' = (s = RECLAIMABLE_BLOCK \<and> s' = FREE_BLOCK)"
| "legal_transition _ s s' = False"

definition moves_legally :: "kv_cache_work \<Rightarrow> kv_pool \<Rightarrow> kv_pool \<Rightarrow> bool" where
  "moves_legally w p q \<longleftrightarrow>
     (\<forall>k. pool_block_state q k = pool_block_state p k \<or>
          k \<in> set (kw_block_ids w) \<and>
          legal_transition (kw_action w) (pool_block_state p k) (pool_block_state q k))"

definition opt_state :: "kv_block option \<Rightarrow> kv_block_state" where
  "opt_state ob = (case ob of None \<Rightarrow> FREE_BLOCK | Some b \<Rightarrow> block_state_of b)"

lemma pool_block_state_opt: "pool_block_state p k = opt_state (look_block p k)"
  by (simp add: pool_block_state_def opt_state_def split: option.splits)

lemma moves_legally_loop:
  assumes "(\<forall>k \<in> set (kw_block_ids w). body k (look_block p k) = Inr (look_block q k)) \<and>
      (\<forall>k. k \<notin> set (kw_block_ids w) \<longrightarrow> look_block q k = look_block p k)"
    and "\<And>k ob. body k (look_block p k) = Inr ob \<Longrightarrow>
      opt_state ob = opt_state (look_block p k) \<or>
      legal_transition (kw_action w) (opt_state (look_block p k)) (opt_state ob)"
  shows "moves_legally w p q"
  unfolding moves_legally_def pool_block_state_opt using assms by metis

lemma moves_legally_same: "p_blocks q = p_blocks p \<Longrightarrow> moves_legally w p q"
  by (simp add: moves_legally_def pool_block_state_def)

lemma moves_legally_cong:
  "moves_legally w p t \<Longrightarrow> p_blocks q = p_blocks t \<Longrightarrow> moves_legally w p q"
  by (simp add: moves_legally_def pool_block_state_def)

lemmas state_simps = opt_state_def block_state_of_def

lemma touch_moves:
  assumes "blocks_wf p" "observe_touch p w tokens = (q, None)" "kw_action w = TOUCH"
  shows "moves_legally w p q"
proof -
  from assms(2) obtain r t where t: "touch_blocks p r (kw_block_ids w) = (t, None)"
    and rb: "require_blocks w = None" and q: "p_blocks q = p_blocks t"
    by (auto simp: observe_touch_def split: option.splits prod.splits)
  note l = touch.loop_look [OF t require_blocksD [OF rb, THEN conjunct1]]
  have "moves_legally w p t"
    by (rule moves_legally_loop [where body = "touch_body r", OF l])
      (auto dest!: touch_body_ok [OF _ assms(1)] simp: state_simps assms(3))
  then show ?thesis using q by (rule moves_legally_cong)
qed

lemma retain_moves:
  assumes "blocks_wf p" "observe_retain p w tokens = (q, None)"
  shows "moves_legally w p q"
proof -
  from assms(2) obtain r t where t: "retain_blocks p r (kw_block_ids w) = (t, None)"
    and rb: "require_blocks w = None" and q: "p_blocks q = p_blocks t"
    by (auto simp: observe_retain_def split: option.splits prod.splits)
  note l = retain.loop_look [OF t require_blocksD [OF rb, THEN conjunct1]]
  have "moves_legally w p t"
    by (rule moves_legally_loop [where body = "retain_body r", OF l])
      (auto dest!: retain_body_ok [OF _ assms(1)] simp: state_simps)
  then show ?thesis using q by (rule moves_legally_cong)
qed

lemma release_moves:
  assumes "blocks_wf p" "observe_release p w tokens = (q, None)" "kw_action w = RELEASE"
  shows "moves_legally w p q"
proof -
  from assms(2) obtain r t where t: "release_blocks p r (kw_block_ids w) = (t, None)"
    and rb: "require_blocks w = None" and q: "p_blocks q = p_blocks t"
    by (auto simp: observe_release_def split: option.splits prod.splits)
  note l = release.loop_look [OF t require_blocksD [OF rb, THEN conjunct1]]
  have "moves_legally w p t"
    by (rule moves_legally_loop [where body = "release_body r", OF l])
      (auto dest!: release_body_ok [OF _ assms(1)] simp: state_simps assms(3) split: option.splits)
  then show ?thesis using q by (rule moves_legally_cong)
qed

lemma evict_moves:
  assumes "blocks_wf p" "observe_evict p w tokens = (q, None)" "kw_action w = EVICT"
  shows "moves_legally w p q"
proof -
  from assms(2) obtain t where t: "evict_blocks p (kw_block_ids w) = (t, None)"
    and rb: "require_blocks w = None" and q: "p_blocks q = p_blocks t"
    by (auto simp: observe_evict_def Let_def split: option.splits prod.splits)
  note l = evict.loop_look [OF t require_blocksD [OF rb, THEN conjunct1]]
  have "moves_legally w p t"
    by (rule moves_legally_loop [where body = "evict_body", OF l])
      (auto dest!: evict_body_ok [OF _ assms(1)] simp: state_simps assms(3))
  then show ?thesis using q by (rule moves_legally_cong)
qed

lemma swap_moves:
  assumes "blocks_wf p" "observe_swap p w tokens = (q, None)"
  shows "moves_legally w p q"
proof -
  from assms(2) obtain c t where t: "swap_blocks p c (kw_block_ids w) = (t, None)"
    and rb: "require_blocks w = None" and q: "p_blocks q = p_blocks t"
    by (auto simp: observe_swap_def split: option.splits prod.splits)
  note l = swap.loop_look [OF t require_blocksD [OF rb, THEN conjunct1]]
  have "moves_legally w p t"
    by (rule moves_legally_loop [where body = "swap_body c", OF l])
      (auto dest!: swap_body_ok [OF _ assms(1)] simp: state_simps)
  then show ?thesis using q by (rule moves_legally_cong)
qed

lemma free_moves:
  assumes "blocks_wf p" "observe_free p w tokens = (q, None)" "kw_action w = FREE"
  shows "moves_legally w p q"
proof -
  from assms(2) obtain t n where t: "free_loop (p, 0) (kw_block_ids w) = ((t, n), None)"
    and rb: "require_blocks w = None" and q: "p_blocks q = p_blocks t"
    by (auto simp: observe_free_def free_loop_def split: option.splits prod.splits)
  note l = free.loop_look [OF t require_blocksD [OF rb, THEN conjunct1], simplified fst_conv]
  have "moves_legally w p t"
    by (rule moves_legally_loop [where body = "free_body", OF l])
      (auto dest!: free_body_ok [OF _ assms(1)] simp: state_simps assms(3) split: option.splits)
  then show ?thesis using q by (rule moves_legally_cong)
qed

lemma allocate_moves:
  assumes "blocks_wf p" "observe_allocate p w tokens = (q, None)" "kw_action w = ALLOCATE"
  shows "moves_legally w p q"
proof -
  let ?ks = "kw_block_ids w"
  from assms(2) obtain r p' where rb: "require_blocks w = None"
    and ac: "allocate_checks p ?ks = None" and q: "p_blocks q = p_blocks (allocate_blocks p' r ?ks)"
    and p': "p_blocks p' = p_blocks p" "p_spec p' = p_spec p"
    by (auto simp: observe_allocate_def Let_def split: option.splits if_splits)
  have wf: "blocks_wf p'" using assms(1) p' by (simp add: blocks_wf_def)
  have ab: "\<forall>k \<in> set ?ks. look_block p' k = None" "\<forall>k \<in> set ?ks. look_block p k = None"
    using allocate_checks_absent [OF assms(1) ac] p' by auto
  have "look_block q k = (if k \<in> set ?ks then Some (new_block p' k r) else look_block p k)" for k
    using allocate_blocks_effect [OF wf _ ab(1), of r] require_blocksD [OF rb] q p' by simp
  moreover have "block_state_of (new_block p' k r) = LIVE_BLOCK" for k
    by (simp add: block_state_of_def new_block_def ref_count_def)
  ultimately show ?thesis using ab(2)
    by (simp add: moves_legally_def pool_block_state_opt opt_state_def assms(3))
qed

lemma block_grows_state: "block_grows ob ob' \<Longrightarrow> (\<And>b. ob = Some b \<Longrightarrow> stored_ok s b) \<Longrightarrow>
    opt_state ob' = opt_state ob"
  by (auto simp: block_grows_def state_simps ref_count_def stored_ok_def split: option.splits)

lemma traffic_moves:
  assumes "blocks_wf p" "span_ok w tokens" "observe_traffic p w tokens = (q, None)"
  shows "moves_legally w p q"
proof (cases "kw_action w = WRITE")
  case True
  with assms(3) obtain n t where m: "moved_tokens p w tokens = Inr n"
    and f: "fill p (kw_block_ids w) n = (t, 0)" and q: "p_blocks q = p_blocks t"
    using write_fill by (metis kv_pool.select_convs(2) kv_pool.surjective kv_pool.update_convs(14))
  have "0 \<le> n" using moved_tokens_nonneg [OF _ assms(2) m] assms(1) by (simp add: blocks_wf_def)
  then have "\<forall>k. block_grows (look_block p k) (look_block t k)"
    using fill_effect [OF assms(1) _ f] by blast
  then have "opt_state (look_block t k) = opt_state (look_block p k)" for k
    using block_grows_state blocks_wf_get [OF assms(1)] by metis
  then show ?thesis using q by (simp add: moves_legally_def pool_block_state_opt)
next
  case False
  then show ?thesis using traffic_other [OF assms(3)] by (intro moves_legally_same) simp
qed

lemma handler_moves:
  assumes wf: "blocks_wf p" and s: "span_ok w tokens"
    and h: "handler_for (kw_action w) p w tokens = (q, None)"
  shows "moves_legally w p q"
proof (cases "kw_action w \<in> {RESERVE, BIND_PREFIX, RECOMPUTE}")
  case True
  with h have "p_blocks q = p_blocks p"
    by (auto simp: observe_reserve_def observe_bind_prefix_def observe_recompute_def Let_def
        split: option.splits if_splits)
  then show ?thesis by (rule moves_legally_same)
next
  case False
  then show ?thesis
    using h allocate_moves [OF wf, of w tokens q] touch_moves [OF wf, of w tokens q]
      retain_moves [OF wf, of w tokens q] traffic_moves [OF wf s, of q]
      release_moves [OF wf, of w tokens q] evict_moves [OF wf, of w tokens q]
      free_moves [OF wf, of w tokens q] swap_moves [OF wf, of w tokens q]
    by (cases "kw_action w") simp_all
qed

lemma observe_pool_moves:
  assumes "pool_inv p" "observe_pool p oid w = (q, Inr d)"
  shows "moves_legally w p q"
proof -
  from assms(2) obtain tokens t where "span_ok w tokens"
    and "handler_for (kw_action w) p w tokens = (t, None)"
    and q: "q = t\<lparr>p_peak_live_blocks := max (p_peak_live_blocks t) (live_blocks t)\<rparr>"
    by (rule observe_poolE)
  then have "moves_legally w p t"
    using assms(1) by (intro handler_moves) (auto simp: pool_inv_def core_inv_def)
  then show ?thesis by (rule moves_legally_cong) (simp add: q)
qed

subsection \<open>Bytes\<close>

definition pool_bytes :: "kv_pool \<Rightarrow> int" where
  "pool_bytes p = p_read_bytes p + p_write_bytes p + p_swap_bytes p + p_transfer_bytes p"

lemma loop_bytes:
  "touch_blocks p r ks = (q, e) \<Longrightarrow> pool_bytes q = pool_bytes p"
  "retain_blocks p r ks = (q, e) \<Longrightarrow> pool_bytes q = pool_bytes p"
  "release_blocks p r ks = (q, e) \<Longrightarrow> pool_bytes q = pool_bytes p"
  "evict_blocks p ks = (q, e) \<Longrightarrow> pool_bytes q = pool_bytes p"
  "swap_blocks p r ks = (q, e) \<Longrightarrow> pool_bytes q = pool_bytes p"
  by (erule touch.loop_frame retain.loop_frame release.loop_frame evict.loop_frame swap.loop_frame,
      simp add: pool_bytes_def put_block_def release_put_def split: option.split)+

lemma free_bytes: "free_blocks p ks n = (q, m, e) \<Longrightarrow> pool_bytes q = pool_bytes p"
  by (induction ks arbitrary: p n) (auto simp: pool_bytes_def split: option.splits if_splits)

lemma allocate_bytes: "pool_bytes (allocate_blocks p r ks) = pool_bytes p"
  by (induction ks arbitrary: p) (auto simp: pool_bytes_def)

lemma fill_bytes: "fill p ks n = (q, m) \<Longrightarrow> pool_bytes q = pool_bytes p"
  by (induction ks arbitrary: p n) (auto simp: pool_bytes_def Let_def split: option.splits if_splits)

lemma metadata_bytes:
  "observe_reserve p w tokens = (q, None) \<Longrightarrow> pool_bytes q = pool_bytes p"
  "observe_bind_prefix p w tokens = (q, None) \<Longrightarrow> pool_bytes q = pool_bytes p"
  "observe_recompute p w tokens = (q, None) \<Longrightarrow> pool_bytes q = pool_bytes p"
  by (auto simp: observe_reserve_def observe_bind_prefix_def observe_recompute_def Let_def pool_bytes_def
      split: option.splits if_splits)

lemma owner_bytes:
  "observe_touch p w tokens = (q, None) \<Longrightarrow> pool_bytes q = pool_bytes p"
  "observe_retain p w tokens = (q, None) \<Longrightarrow> pool_bytes q = pool_bytes p"
  "observe_release p w tokens = (q, None) \<Longrightarrow> pool_bytes q = pool_bytes p"
  "observe_evict p w tokens = (q, None) \<Longrightarrow> pool_bytes q = pool_bytes p"
  "observe_free p w tokens = (q, None) \<Longrightarrow> pool_bytes q = pool_bytes p"
  by (auto simp: observe_touch_def observe_retain_def observe_release_def observe_evict_def
      observe_free_def Let_def dest!: loop_bytes free_bytes split: option.splits prod.splits)
    (auto simp: pool_bytes_def)

lemma observe_allocate_bytes: "observe_allocate p w tokens = (q, None) \<Longrightarrow> pool_bytes q = pool_bytes p"
  using allocate_bytes [of _ _ "kw_block_ids w"]
  by (auto simp: observe_allocate_def Let_def pool_bytes_def split: option.splits if_splits)

lemma swap_bytes: "observe_swap p w tokens = (q, None) \<Longrightarrow> pool_bytes q = pool_bytes p + kw_byte_count w"
  by (auto simp: observe_swap_def split: option.splits prod.splits dest!: loop_bytes)
    (auto simp: pool_bytes_def)

lemma traffic_bytes:
  assumes "observe_traffic p w tokens = (q, None)"
  shows "pool_bytes q = pool_bytes p + kw_byte_count w"
proof (cases "kw_action w = WRITE")
  case True
  with assms obtain n t where "fill p (kw_block_ids w) n = (t, 0)"
    "q = t\<lparr>p_write_bytes := p_write_bytes t + kw_byte_count w\<rparr>" by (rule write_fill)
  then show ?thesis using fill_bytes by (fastforce simp: pool_bytes_def)
next
  case False
  then show ?thesis using traffic_other [OF assms] by (simp add: pool_bytes_def)
qed

lemma observe_pool_bytes:
  assumes "observe_pool p oid w = (q, Inr d)"
  shows "pool_bytes q = pool_bytes p + kd_byte_count d"
proof -
  from assms obtain tokens t where cb: "check_bytes p w tokens = None"
    and h: "handler_for (kw_action w) p w tokens = (t, None)"
    and q: "q = t\<lparr>p_peak_live_blocks := max (p_peak_live_blocks t) (live_blocks t)\<rparr>"
    and d: "kd_byte_count d = kw_byte_count w" by (rule observe_poolE)
  have "pool_bytes t = pool_bytes p + kw_byte_count w"
  proof (cases "kw_action w \<in> set byte_carrying_actions")
    case True
    with h show ?thesis by (auto simp: byte_carrying_actions_def dest: traffic_bytes swap_bytes)
  next
    case False
    with cb have "kw_byte_count w = 0" by (simp add: check_bytes_def split: if_splits)
    moreover have "pool_bytes t = pool_bytes p"
      using h False metadata_bytes [of p w tokens t] owner_bytes [of p w tokens t]
        observe_allocate_bytes [of p w tokens t]
      by (cases "kw_action w") (simp_all add: byte_carrying_actions_def)
    ultimately show ?thesis by simp
  qed
  then show ?thesis by (simp add: q d pool_bytes_def)
qed

subsection \<open>Properties\<close>

text \<open>A pool and a batch to evaluate the properties on.\<close>

definition ex_spec :: kv_pool_spec where
  "ex_spec = \<lparr>ps_pool_id = ''hbm'', ps_block_bytes = 32, ps_block_tokens = 4,
     ps_capacity_blocks = 2, ps_tier = ''gpu''\<rparr>"

definition ex_work :: "kv_cache_action \<Rightarrow> string list \<Rightarrow> int \<Rightarrow> kv_cache_work" where
  "ex_work a ks n =
     \<lparr>kw_action = a, kw_pool_id = ''hbm'', kw_request_id = Some ''r'', kw_block_ids = ks,
      kw_token_start = None, kw_token_end = None, kw_layer = None, kw_dtype = None,
      kw_byte_count = n, kw_placement_epoch = 0, kw_reference_count = None, kw_cause = None,
      kw_correlation_id = None\<rparr>"

definition ex_ledger :: kv_ledger where
  "ex_ledger = [(''hbm'', new_pool ex_spec)]"

definition ex_batch :: "(string \<times> kv_cache_work) list" where
  "ex_batch =
     [(''o1'', ex_work ALLOCATE [''a'', ''b''] 0), (''o2'', ex_work WRITE [''a'', ''b''] 48),
      (''o3'', ex_work READ [''a''] 8)]"

definition ex_graph :: "(string \<times> kv_cache_work) list \<Rightarrow> execution_graph" where
  "ex_graph ops =
     \<lparr>eg_execution_id = ''e'', eg_step_index = 0, eg_released_at_ps = 0,
      eg_operations = map (\<lambda>(oid, w).
        \<lparr>op_operation_id = oid, op_rank = 0, op_logical_queue = ''q'', op_work = KvCacheWork w,
         op_depends_on = [], op_not_before_ps = 0, op_priority = 0,
         op_correlation = empty_correlation, op_placement_epoch = 0,
         op_participant_local_depends_on = []\<rparr>) ops,
      eg_completion_operation_ids = map fst ops, eg_collective_plans = []\<rparr>"

definition ex_pending1 :: "kv_error + kv_pending" where
  "ex_pending1 = account_kv ex_ledger 1 (ex_graph (take 1 ex_batch))"

definition ex_pending2 :: "kv_error + kv_pending" where
  "ex_pending2 = account_kv (kp_ledger (projr ex_pending1)) 1 (ex_graph (drop 1 ex_batch))"

lemma ex_new_ledger: "check_pool_spec ex_spec = None" "new_ledger [ex_spec] = Inr ex_ledger"
  by (simp_all add: ex_spec_def check_pool_spec_def kv_require_text_def kv_require_int_def
      new_ledger_def ex_ledger_def)

lemma ex_batch_ok: "accepted (kv_consume ex_ledger ex_batch)"
  by code_simp

lemmas ex_batch_run = accepted_eta [OF ex_batch_ok]

lemma consumed_inv:
  assumes "\<forall>s \<in> set specs. check_pool_spec s = None" "new_ledger specs = Inr l0"
    "kv_consume l0 ops = (l, Inr ds)"
  shows "ledger_inv l"
  using new_ledger_inv [OF assms(1,2)] assms(3) unfolding kv_consume_def by (rule kv.run_all_inv)

definition ex_pool :: kv_pool where
  "ex_pool = the (map_of (fst (kv_consume ex_ledger (take 1 ex_batch))) ''hbm'')"

lemma ex_pool_inv: "pool_inv ex_pool" "p_spec ex_pool = ex_spec"
proof -
  have run: "accepted (kv_consume ex_ledger (take 1 ex_batch))" by code_simp
  have "ledger_inv (fst (kv_consume ex_ledger (take 1 ex_batch)))"
    by (rule consumed_inv [OF _ ex_new_ledger(2) accepted_eta [OF run]]) (simp add: ex_new_ledger(1))
  moreover have "map_of (fst (kv_consume ex_ledger (take 1 ex_batch))) ''hbm'' = Some ex_pool"
    by code_simp
  ultimately show "pool_inv ex_pool" unfolding ledger_inv_def by (metis dall_get)
qed code_simp

text \<open>
  C3. Balance of the accounting report.  After any batch of observations that the ledger
  accepts, in every pool the live, reclaimable and free blocks partition the capacity and
  none is negative; every block ever allocated is stored, evicted or freed; the evictions
  add up over their causes; and the live blocks never exceeded the reported peak, nor the
  peak the capacity.
\<close>

theorem kv_ledger_balance:
  assumes "\<forall>s \<in> set specs. check_pool_spec s = None" and "new_ledger specs = Inr l0"
    and "kv_consume l0 ops = (l, Inr ds)" and "a \<in> set (kv_report l)"
  shows "ka_live_blocks a + ka_reclaimable_blocks a + ka_free_blocks a = ka_capacity_blocks a \<and>
    0 \<le> ka_live_blocks a \<and> 0 \<le> ka_reclaimable_blocks a \<and> 0 \<le> ka_free_blocks a \<and>
    ka_allocated_blocks a =
      ka_live_blocks a + ka_reclaimable_blocks a + ka_evicted_blocks a + ka_freed_blocks a \<and>
    sum_list (map snd (ka_eviction_causes a)) = ka_evicted_blocks a \<and>
    ka_live_blocks a \<le> ka_peak_live_blocks a \<and> ka_peak_live_blocks a \<le> ka_capacity_blocks a"
proof -
  have inv: "ledger_inv l" using assms(1,2,3) by (rule consumed_inv)
  from assms(4) obtain k p where kp: "(k, p) \<in> set l" and a: "a = accounting p"
    by (auto simp: kv_report_def)
  from inv kp have p: "pool_inv p" by (auto simp: ledger_inv_def intro: dall_get)
  then have "live_blocks p + reclaimable_blocks p = n_blocks p"
    by (intro live_reclaimable_blocks) (simp add: pool_inv_def core_inv_def)
  moreover have "sum_list (map (\<lambda>x. snd x) (sort_key fst (p_eviction_causes p))) = dsum (\<lambda>n. n) (p_eviction_causes p)"
    unfolding dsum_def by (rule sum_list_sort_key)
  ultimately show ?thesis
    using p live_blocks_nonneg [of p]
    by (auto simp: a accounting_def Let_def pool_inv_def core_inv_def balanced_def)
qed

theorem kv_ledger_balance_witness:
  "ka_allocated_blocks (accounting ex_pool) = 2 \<and>
   ka_live_blocks (accounting ex_pool) + ka_reclaimable_blocks (accounting ex_pool) = 2"
proof -
  have "accounting ex_pool \<in> set (kv_report (fst (kv_consume ex_ledger (take 1 ex_batch))))"
    "accepted (kv_consume ex_ledger (take 1 ex_batch))" by code_simp+
  note b = kv_ledger_balance [of "[ex_spec]", OF _ ex_new_ledger(2) accepted_eta [OF this(2)] this(1)]
  have "ka_allocated_blocks (accounting ex_pool) = 2" "ka_evicted_blocks (accounting ex_pool) = 0"
    "ka_freed_blocks (accounting ex_pool) = 0" by code_simp+
  then show ?thesis using b ex_new_ledger(1) by simp
qed

text \<open>
  C7. The block state machine.  When the ledger accepts an observation, a block's state
  changes only in the pool and for the blocks the observation names, and only along a
  documented transition: free to live by \<open>ALLOCATE\<close>, reclaimable to live by \<open>TOUCH\<close>,
  live to reclaimable or free by \<open>RELEASE\<close>, reclaimable to free by \<open>EVICT\<close> or \<open>FREE\<close>.
\<close>

theorem kv_block_lifecycle:
  assumes "\<forall>s \<in> set specs. check_pool_spec s = None" and "new_ledger specs = Inr l0"
    and "kv_consume l0 ops = (l, Inr ds)" and "kv_observe l (oid, w) = (l', Inr d)"
    and "block_state l pool k = Inr s" and "block_state l' pool k = Inr s'" and "s \<noteq> s'"
  shows "pool = kw_pool_id w \<and> k \<in> set (kw_block_ids w) \<and> legal_transition (kw_action w) s s'"
proof -
  have inv: "ledger_inv l" using assms(1,2,3) by (rule consumed_inv)
  from assms(4) obtain p q where p: "map_of l (kw_pool_id w) = Some p"
    and o: "observe_pool p oid w = (q, Inr d)" and l': "l' = AList.update (kw_pool_id w) q l"
    by (rule kv_observeE)
  from inv p have "pool_inv p" by (auto simp: ledger_inv_def dest: dall_get)
  then have "moves_legally w p q" using o by (rule observe_pool_moves)
  then show ?thesis
    unfolding moves_legally_def using assms(5,6,7) p l' spec [of _ k]
    by (auto simp: block_state_def split: option.splits if_splits dest: spec [of _ k])
qed

theorem kv_block_lifecycle_witness:
  "legal_transition RELEASE LIVE_BLOCK RECLAIMABLE_BLOCK \<and>
   accepted (kv_observe (fst (kv_consume ex_ledger ex_batch)) (''o4'', ex_work RELEASE [''a''] 0))"
proof -
  let ?l = "fst (kv_consume ex_ledger ex_batch)" let ?w = "ex_work RELEASE [''a''] 0"
  have ok: "accepted (kv_observe ?l (''o4'', ?w))" by code_simp
  have "block_state ?l ''hbm'' ''a'' = Inr LIVE_BLOCK"
    "block_state (fst (kv_observe ?l (''o4'', ?w))) ''hbm'' ''a'' = Inr RECLAIMABLE_BLOCK"
    by code_simp+
  then show ?thesis
    using kv_block_lifecycle [of "[ex_spec]", OF _ ex_new_ledger(2) ex_batch_run accepted_eta [OF ok]]
      ex_new_ledger(1) ok by (auto simp: ex_work_def)
qed

text \<open>
  C12. Conservation of bytes.  The read, write, swap and transfer bytes a ledger reports grow
  over an accepted batch by exactly the bytes of the demands it hands to the runtime: no
  byte-carrying observation is dropped or counted twice, and no metadata observation carries
  bytes.
\<close>

theorem kv_bytes_conserved:
  assumes "dict_ok l" and "kv_consume l ops = (l', Inr ds)"
  shows "dsum pool_bytes l' = dsum pool_bytes l + sum_list (map kd_byte_count ds)"
  using assms unfolding kv_consume_def
proof (induction ops arbitrary: l ds)
  case (Cons x ops)
  obtain oid w where x: "x = (oid, w)" by (cases x)
  from Cons.prems(2) obtain m d es where s: "kv_observe l (oid, w) = (m, Inr d)"
    and r: "run_all kv_observe m ops = (l', Inr es)" and ds: "ds = d # es"
    unfolding run_all_Cons_Inr x by blast
  from s obtain p q where p: "map_of l (kw_pool_id w) = Some p"
    and o: "observe_pool p oid w = (q, Inr d)" and m: "m = AList.update (kw_pool_id w) q l"
    by (rule kv_observeE)
  have "dsum pool_bytes m = dsum pool_bytes l + kd_byte_count d"
    using Cons.prems(1) p m observe_pool_bytes [OF o] by (simp add: dsum_update)
  moreover have "dict_ok m" using Cons.prems(1) m by simp
  ultimately show ?case using Cons.IH [OF _ r] ds by simp
qed simp

theorem kv_bytes_conserved_witness:
  "dsum pool_bytes (fst (kv_consume ex_ledger ex_batch)) = 56"
proof -
  have "dict_ok ex_ledger" "dsum pool_bytes ex_ledger = 0" by code_simp+
  moreover have "sum_list (map kd_byte_count (projr (snd (kv_consume ex_ledger ex_batch)))) = 56"
    by code_simp
  ultimately show ?thesis using kv_bytes_conserved [OF _ ex_batch_run] by simp
qed

text \<open>
  Writes fill exactly the slots they pay for.  An accepted \<open>WRITE\<close> of \<open>n\<close> tokens
  raises the tokens stored in its pool by \<open>n\<close>; when it carries bytes, \<open>n\<close> is its byte
  count at the pool's bytes per token.
\<close>

theorem kv_write_exact:
  assumes "pool_inv p" and "observe_pool p oid w = (q, Inr d)" and "kw_action w = WRITE"
  shows "\<exists>n. filled_total q = filled_total p + n \<and> 0 \<le> n \<and>
    (0 < kw_byte_count w \<longrightarrow> kw_byte_count w = n * bytes_per_token (p_spec p))"
proof -
  from assms(2) obtain tokens t where cb: "check_bytes p w tokens = None" and sp: "span_ok w tokens"
    and h: "handler_for (kw_action w) p w tokens = (t, None)"
    and q: "q = t\<lparr>p_peak_live_blocks := max (p_peak_live_blocks t) (live_blocks t)\<rparr>"
    by (rule observe_poolE)
  from h assms(3) have "observe_traffic p w tokens = (t, None)" by simp
  then obtain n u where m: "moved_tokens p w tokens = Inr n" and f: "fill p (kw_block_ids w) n = (u, 0)"
    and t: "t = u\<lparr>p_write_bytes := p_write_bytes u + kw_byte_count w\<rparr>"
    using assms(3) by (rule write_fill)
  have wf: "blocks_wf p" using assms(1) by (simp add: pool_inv_def core_inv_def)
  then have sk: "spec_ok (p_spec p)" by (simp add: blocks_wf_def)
  have n: "0 \<le> n" using sk sp m by (rule moved_tokens_nonneg)
  have "filled_total q = filled_total u" by (simp add: q t filled_total_def)
  also have "\<dots> = filled_total p + n" using fill_effect [OF wf n f] by simp
  finally have 1: "filled_total q = filled_total p + n" .
  have "kw_byte_count w = n * bytes_per_token (p_spec p)" if "0 < kw_byte_count w"
    using that cb m assms(3) sk
    by (auto simp: check_bytes_def byte_carrying_actions_def moved_tokens_def split: option.splits if_splits)
  with 1 n show ?thesis by blast
qed

theorem kv_write_exact_witness:
  "\<exists>n. 32 = n * bytes_per_token ex_spec"
proof -
  let ?r = "observe_pool ex_pool ''o2'' (ex_work WRITE [''a''] 32)"
  have "accepted ?r" by code_simp
  note e = kv_write_exact [OF ex_pool_inv(1) accepted_eta [OF this]]
  have "kw_action (ex_work WRITE [''a''] 32) = WRITE" "kw_byte_count (ex_work WRITE [''a''] 32) = 32"
    by (simp_all add: ex_work_def)
  with e [OF this(1)] show ?thesis by (simp only: ex_pool_inv(2)) auto
qed

text \<open>
  C15. The runtime's per-graph transactions compose.  Accounting one graph on a clone and,
  from the ledger it leaves pending, a second one, is accounting the operations of both in
  order: the clone loses nothing, and the demands are those of the joined stream.
\<close>

theorem account_kv_sequential:
  assumes "account_kv l rate g1 = Inr k1" and "account_kv (kp_ledger k1) rate g2 = Inr k2"
  shows "kv_consume l (kv_operations g1 @ kv_operations g2) =
    (kp_ledger k2, Inr (kp_demands k1 @ kp_demands k2))"
proof -
  have "kv_consume m (kv_operations g) = (kp_ledger k, Inr (kp_demands k))"
    if "account_kv m rate g = Inr k" for m g k
    using that by (auto simp: account_kv_def split: prod.splits sum.splits option.splits)
  with assms show ?thesis by (simp add: kv_consume_def run_all_append)
qed

theorem account_kv_sequential_witness:
  "kv_consume ex_ledger (kv_operations (ex_graph (take 1 ex_batch)) @ kv_operations (ex_graph (drop 1 ex_batch))) =
     (kp_ledger (projr ex_pending2), Inr (kp_demands (projr ex_pending1) @ kp_demands (projr ex_pending2)))"
proof -
  have "account_kv ex_ledger 1 (ex_graph (take 1 ex_batch)) = Inr (projr ex_pending1)"
    "account_kv (kp_ledger (projr ex_pending1)) 1 (ex_graph (drop 1 ex_batch)) = Inr (projr ex_pending2)"
    by code_simp+
  then show ?thesis by (rule account_kv_sequential)
qed

end
