(* ===== verification/Arbitration.thy ===== *)
theory Arbitration
  imports Prelude "HOL-Library.Product_Lexorder"
begin

text \<open>
  The arbitration policies of \<open>simllm/core/runtime.py\<close>: identity, strict priority and
  weighted round robin, behind the one seam \<open>ArbitrationPolicy.select\<close>.  The seam is
  the locale \<open>arbitration\<close>; its client, which grants one candidate at a time until none
  is left, is analysed once and holds for the three policies.  Python's \<open>min\<close> with a
  key returns the first element with the least key, which is \<open>arg_min_list\<close>.
\<close>

subsection \<open>Candidates and policies\<close>

record arbitration_candidate =
  ac_operation_id :: string
  ac_baseline_sequence :: int
  ac_eligible_at_ps :: int
  ac_class_label :: int

datatype arbitration_error =
    NoCandidate | NegativeClassLabel | NonPositiveWeight | IllegalGrant | MissingOperation string

definition identity_select ::
    "arbitration_candidate list \<Rightarrow> arbitration_error + arbitration_candidate" where
  "identity_select cs =
     (if cs = [] then Inl NoCandidate else Inr (arg_min_list ac_baseline_sequence cs))"

definition strict_key :: "arbitration_candidate \<Rightarrow> int \<times> int" where
  "strict_key c = (ac_class_label c, ac_baseline_sequence c)"

definition strict_select ::
    "bool \<Rightarrow> arbitration_candidate list \<Rightarrow> arbitration_error + arbitration_candidate" where
  "strict_select class_aware cs =
     (if cs = [] then Inl NoCandidate
      else if \<not> class_aware then Inr (arg_min_list ac_baseline_sequence cs)
      else Inr (arg_min_list strict_key cs))"

record wrr_policy =
  wrr_weights :: "(int, int) dict"
  wrr_default_weight :: int
  wrr_class_aware :: bool
  wrr_remaining :: "(int, int) dict"

text \<open>The constructor; \<open>weights\<close> is a dictionary, so its keys are distinct.\<close>

definition new_wrr :: "(int, int) dict \<Rightarrow> int \<Rightarrow> bool \<Rightarrow> arbitration_error + wrr_policy" where
  "new_wrr weights default_weight class_aware =
     (if default_weight \<le> 0 then Inl NonPositiveWeight
      else case first_err (map (\<lambda>(c, w).
             if c < 0 then Some NegativeClassLabel
             else if w \<le> 0 then Some NonPositiveWeight else None) weights) of
        Some e \<Rightarrow> Inl e
      | None \<Rightarrow> Inr \<lparr>wrr_weights = weights, wrr_default_weight = default_weight,
                    wrr_class_aware = class_aware, wrr_remaining = []\<rparr>)"

definition weight :: "wrr_policy \<Rightarrow> int \<Rightarrow> int" where
  "weight p c = dict_get (wrr_weights p) c (wrr_default_weight p)"

definition credit :: "wrr_policy \<Rightarrow> int \<Rightarrow> int" where
  "credit p c = dict_get (wrr_remaining p) c (weight p c)"

fun refill :: "wrr_policy \<Rightarrow> int list \<Rightarrow> wrr_policy" where
  "refill p [] = p"
| "refill p (c # cs) = refill (p\<lparr>wrr_remaining := AList.update c (weight p c) (wrr_remaining p)\<rparr>) cs"

definition spend :: "wrr_policy \<Rightarrow> int \<Rightarrow> wrr_policy" where
  "spend p c = p\<lparr>wrr_remaining := AList.update c (credit p c - 1) (wrr_remaining p)\<rparr>"

definition present_labels :: "arbitration_candidate list \<Rightarrow> int list" where
  "present_labels cs = sorted_list_of_set (set (map ac_class_label cs))"

text \<open>
  \<open>select\<close>: \<open>weight\<close> is evaluated for every present label while the eligible ones are
  collected, so a negative label raises before any credit is touched.
\<close>

definition wrr_select ::
    "wrr_policy \<Rightarrow> arbitration_candidate list \<Rightarrow>
     wrr_policy \<times> (arbitration_error + arbitration_candidate)" where
  "wrr_select p cs =
     (if cs = [] then (p, Inl NoCandidate)
      else if \<not> wrr_class_aware p then (p, Inr (arg_min_list ac_baseline_sequence cs))
      else
        (let present = present_labels cs;
             eligible = filter (\<lambda>c. credit p c > 0) present
         in if list_ex (\<lambda>c. c < 0) present then (p, Inl NegativeClassLabel)
            else
              (let p' = (if eligible = [] then refill p present else p);
                   winner = (if eligible = [] then hd present else hd eligible)
               in (spend p' winner,
                   Inr (arg_min_list ac_baseline_sequence
                         (filter (\<lambda>x. ac_class_label x = winner) cs))))))"

subsection \<open>The runtime's use of the seam\<close>

type_synonym 'p policy_select =
  "'p \<Rightarrow> arbitration_candidate list \<Rightarrow> 'p \<times> (arbitration_error + arbitration_candidate)"

definition grant ::
    "'p policy_select \<Rightarrow> 'p \<Rightarrow> arbitration_candidate list \<Rightarrow>
     'p \<times> (arbitration_error + arbitration_candidate)" where
  "grant select p cs =
     (case select p cs of
        (p', Inl e) \<Rightarrow> (p', Inl e)
      | (p', Inr c) \<Rightarrow> if c \<in> set cs then (p', Inr c) else (p', Inl IllegalGrant))"

text \<open>
  The three mappings a candidate is read from: the graph position, the readiness and the
  priority of an operation.  A missing key raises \<open>KeyError\<close>.
\<close>

record operation_tables =
  ot_operation_index :: "(string, int) dict"
  ot_eligible_at_ps :: "(string, int) dict"
  ot_priority :: "(string, int) dict"

definition candidate_of :: "operation_tables \<Rightarrow> string \<Rightarrow> arbitration_error + arbitration_candidate" where
  "candidate_of ts oid =
     (case (map_of (ot_operation_index ts) oid, map_of (ot_eligible_at_ps ts) oid,
            map_of (ot_priority ts) oid) of
        (Some i, Some t, Some c) \<Rightarrow>
          Inr \<lparr>ac_operation_id = oid, ac_baseline_sequence = i, ac_eligible_at_ps = t,
               ac_class_label = c\<rparr>
      | _ \<Rightarrow> Inl (MissingOperation oid))"

fun candidates_of ::
    "operation_tables \<Rightarrow> string list \<Rightarrow> arbitration_error + arbitration_candidate list" where
  "candidates_of ts [] = Inr []"
| "candidates_of ts (oid # oids) =
     (case candidate_of ts oid of
        Inl e \<Rightarrow> Inl e
      | Inr c \<Rightarrow> (case candidates_of ts oids of Inl e \<Rightarrow> Inl e | Inr cs \<Rightarrow> Inr (c # cs)))"

text \<open>
  \<open>_select_ready_operation\<close>: only the operations that became ready first are offered.
  \<open>ready\<close> lists the keys of \<open>ready_data\<close> in their order; \<open>min\<close> of an empty mapping raises.
\<close>

definition select_ready_operation ::
    "'p policy_select \<Rightarrow> 'p \<Rightarrow> operation_tables \<Rightarrow> string list \<Rightarrow>
     'p \<times> (arbitration_error + string)" where
  "select_ready_operation select p ts ready =
     (case candidates_of ts ready of
        Inl e \<Rightarrow> (p, Inl e)
      | Inr [] \<Rightarrow> (p, Inl NoCandidate)
      | Inr (c # cs) \<Rightarrow>
          (let earliest = Min (set (map ac_eligible_at_ps (c # cs)));
               candidates = filter (\<lambda>x. ac_eligible_at_ps x = earliest) (c # cs)
           in case grant select p candidates of
                (p', Inl e) \<Rightarrow> (p', Inl e)
              | (p', Inr g) \<Rightarrow> (p', Inr (ac_operation_id g))))"

text \<open>
  \<open>_arbitrated_order\<close>: the dictionary \<open>remaining\<close> is keyed by operation; every round
  offers its values in baseline order and removes the granted key.
\<close>

function grant_loop ::
    "'p policy_select \<Rightarrow> 'p \<Rightarrow> (string, arbitration_candidate) dict \<Rightarrow>
     'p \<times> (arbitration_error + arbitration_candidate list)" where
  "grant_loop select p remaining =
     (if remaining = [] then (p, Inr [])
      else case grant select p (map snd (sort_key (\<lambda>x. ac_baseline_sequence (snd x)) remaining)) of
        (p', Inl e) \<Rightarrow> (p', Inl e)
      | (p', Inr c) \<Rightarrow>
          if map_of remaining (ac_operation_id c) = None then (p', Inl (MissingOperation (ac_operation_id c)))
          else (case grant_loop select p' (AList.delete (ac_operation_id c) remaining) of
                  (p'', Inl e) \<Rightarrow> (p'', Inl e)
                | (p'', Inr cs) \<Rightarrow> (p'', Inr (c # cs))))"
  by pat_completeness auto
termination
proof (relation "measure (\<lambda>(select, p, remaining). length remaining)", simp)
  fix select p and remaining :: "(string, arbitration_candidate) dict" and p' c
  assume "\<not> map_of remaining (ac_operation_id c) = None"
  then obtain y where "(ac_operation_id c, y) \<in> set remaining" by (auto dest: map_of_SomeD)
  then have "\<exists>x \<in> set remaining. \<not> fst x \<noteq> ac_operation_id c" by (intro bexI) auto
  then have "length (AList.delete (ac_operation_id c) remaining) < length remaining"
    unfolding AList.delete_eq by (auto intro!: length_filter_less simp: case_prod_unfold)
  then show "((select, p', AList.delete (ac_operation_id c) remaining), select, p, remaining)
      \<in> measure (\<lambda>(select, p, remaining). length remaining)" by simp
qed

definition arbitrated_order ::
    "'p policy_select \<Rightarrow> 'p \<Rightarrow> operation_tables \<Rightarrow> string list \<Rightarrow>
     'p \<times> (arbitration_error + string list)" where
  "arbitrated_order select p ts operation_ids =
     (case candidates_of ts operation_ids of
        Inl e \<Rightarrow> (p, Inl e)
      | Inr cs \<Rightarrow>
          (case grant_loop select p (fold (\<lambda>c d. AList.update (ac_operation_id c) c d) cs []) of
             (p', Inl e) \<Rightarrow> (p', Inl e)
           | (p', Inr order) \<Rightarrow> (p', Inr (map ac_operation_id order))))"

declare grant_loop.simps [simp del]

subsection \<open>The seam\<close>

text \<open>
  What the runtime expects of a policy, and what follows for every co-runnable set.  A
  dictionary of candidates is well formed when every candidate is stored under its own
  operation.
\<close>

definition keyed :: "(string, arbitration_candidate) dict \<Rightarrow> bool" where
  "keyed d \<longleftrightarrow> dict_ok d \<and> (\<forall>(k, c) \<in> set d. k = ac_operation_id c \<and> 0 \<le> ac_class_label c)"

lemma keyed_map_of: "keyed d \<Longrightarrow> c \<in> snd ` set d \<Longrightarrow> map_of d (ac_operation_id c) = Some c"
  by (fastforce simp: keyed_def)

lemma keyed_delete: "keyed d \<Longrightarrow> keyed (AList.delete k d)"
  unfolding keyed_def by (intro conjI dict_ok_delete) (auto simp: AList.delete_eq)

lemma delete_values:
  assumes "keyed d" "c \<in> snd ` set d"
  shows "add_mset c (mset (map snd (AList.delete (ac_operation_id c) d))) = mset (map snd d)"
  using assms
proof (induction d)
  case (Cons x d)
  obtain k c' where x: "x = (k, c')" by (cases x)
  have k: "k = ac_operation_id c'" "keyed d" "k \<notin> fst ` set d"
    using Cons.prems(1) by (auto simp: keyed_def x)
  show ?case
  proof (cases "c \<in> snd ` set d")
    case True
    then have "ac_operation_id c \<in> fst ` set d" using k(2) by (force simp: keyed_def)
    with k(3) have "k \<noteq> ac_operation_id c" by blast
    then show ?thesis using Cons.IH [OF k(2) True] by (simp add: x add_mset_commute)
  next
    case False
    then have "c = c'" using Cons.prems(2) x by auto
    with k show ?thesis by (simp add: x delete_absent)
  qed
qed simp

lemma sort_key_snd_set: "set (map snd (sort_key f d)) = snd ` set d"
  by simp

lemma sort_key_eq_Nil [simp]: "sort_key f d = [] \<longleftrightarrow> d = []"
  by (simp flip: set_empty)

locale arbitration =
  fixes select :: "'p policy_select"
  assumes select_member: "select p cs = (p', Inr c) \<Longrightarrow> c \<in> set cs"
    and select_error: "select p cs = (p', Inl e) \<Longrightarrow> p' = p"
    and select_total: "cs \<noteq> [] \<Longrightarrow> \<forall>c \<in> set cs. 0 \<le> ac_class_label c \<Longrightarrow>
      \<exists>p' c. select p cs = (p', Inr c)"
begin

lemma grant_eq_select: "grant select p cs = select p cs"
  by (auto simp: grant_def split: prod.splits sum.splits dest: select_member)

lemma grant_loop_step:
  assumes "keyed d" "d \<noteq> []"
  obtains p' c where
    "select p (map snd (sort_key (\<lambda>x. ac_baseline_sequence (snd x)) d)) = (p', Inr c)" "c \<in> snd ` set d"
    "grant_loop select p d = (case grant_loop select p' (AList.delete (ac_operation_id c) d) of
        (p'', Inl e) \<Rightarrow> (p'', Inl e) | (p'', Inr cs) \<Rightarrow> (p'', Inr (c # cs)))"
proof -
  let ?cs = "map snd (sort_key (\<lambda>x. ac_baseline_sequence (snd x)) d)"
  have "?cs \<noteq> []" "\<forall>c \<in> set ?cs. 0 \<le> ac_class_label c"
    using assms by (auto simp: keyed_def)
  then obtain p' c where s: "select p ?cs = (p', Inr c)" using select_total by blast
  then have c: "c \<in> snd ` set d" using select_member sort_key_snd_set by metis
  show thesis
    by (rule that [OF s c], subst grant_loop.simps)
      (simp add: grant_eq_select s assms(2) keyed_map_of [OF assms(1) c])
qed

lemma grant_loop_perm:
  "keyed d \<Longrightarrow> \<exists>p' cs. grant_loop select p d = (p', Inr cs) \<and> mset cs = mset (map snd d)"
proof (induction "length d" arbitrary: p d rule: less_induct)
  case less
  show ?case
  proof (cases "d = []")
    case False
    from less.prems this obtain p' c where c: "c \<in> snd ` set d"
      and eq: "grant_loop select p d = (case grant_loop select p' (AList.delete (ac_operation_id c) d) of
        (p'', Inl e) \<Rightarrow> (p'', Inl e) | (p'', Inr cs) \<Rightarrow> (p'', Inr (c # cs)))"
      by (rule grant_loop_step)
    note m = delete_values [OF less.prems c]
    then have "length (AList.delete (ac_operation_id c) d) < length d"
      by (metis length_map lessI size_add_mset size_mset)
    then obtain q cs where "grant_loop select p' (AList.delete (ac_operation_id c) d) = (q, Inr cs)"
      "mset cs = mset (map snd (AList.delete (ac_operation_id c) d))"
      using less.hyps keyed_delete [OF less.prems] by blast
    with eq m show ?thesis by simp
  qed (simp add: grant_loop.simps)
qed

end

locale keyed_arbitration = arbitration +
  fixes key :: "arbitration_candidate \<Rightarrow> 'k::linorder"
  assumes select_least: "select p cs = (p', Inr c) \<Longrightarrow> x \<in> set cs \<Longrightarrow> key c \<le> key x"
begin

lemma grant_loop_sorted:
  "keyed d \<Longrightarrow> grant_loop select p d = (p', Inr cs) \<Longrightarrow> sorted (map key cs)"
proof (induction "length d" arbitrary: p p' d cs rule: less_induct)
  case less
  show ?case
  proof (cases "d = []")
    case True
    with less.prems(2) show ?thesis by (simp add: grant_loop.simps)
  next
    case False
    from less.prems(1) this obtain p1 c where
      s: "select p (map snd (sort_key (\<lambda>x. ac_baseline_sequence (snd x)) d)) = (p1, Inr c)"
      and c: "c \<in> snd ` set d"
      and eq: "grant_loop select p d = (case grant_loop select p1 (AList.delete (ac_operation_id c) d) of
        (p'', Inl e) \<Rightarrow> (p'', Inl e) | (p'', Inr cs) \<Rightarrow> (p'', Inr (c # cs)))"
      by (rule grant_loop_step)
    note m = delete_values [OF less.prems(1) c] and k = keyed_delete [OF less.prems(1)]
    then have len: "length (AList.delete (ac_operation_id c) d) < length d"
      by (metis length_map lessI size_add_mset size_mset)
    obtain q ds where ds: "grant_loop select p1 (AList.delete (ac_operation_id c) d) = (q, Inr ds)"
      "mset ds = mset (map snd (AList.delete (ac_operation_id c) d))"
      using grant_loop_perm [OF k] by blast
    have "sorted (map key ds)" using less.hyps [OF len k ds(1)] .
    moreover have "key c \<le> key x" if "x \<in> set ds" for x
    proof -
      have "x \<in># mset (map snd d)" using that ds(2) m by (metis insert_iff set_mset_add_mset_insert set_mset_mset)
      then show ?thesis using select_least [OF s] sort_key_snd_set by auto
    qed
    ultimately show ?thesis using eq ds less.prems(2) by auto
  qed
qed

end

subsection \<open>The policies behind the seam\<close>

lemma arg_min_list_least: "x \<in> set xs \<Longrightarrow> f (arg_min_list f xs) \<le> (f x :: 'k::linorder)"
  using f_arg_min_list_f [of xs f] by (cases "xs = []") auto

interpretation identity: keyed_arbitration "\<lambda>(p::unit) cs. (p, identity_select cs)" ac_baseline_sequence
  by unfold_locales
    (auto simp: identity_select_def arg_min_list_in arg_min_list_least split: if_splits)

interpretation strict: keyed_arbitration "\<lambda>(p::unit) cs. (p, strict_select True cs)" strict_key
  by unfold_locales
    (auto simp: strict_select_def arg_min_list_in arg_min_list_least split: if_splits)

lemma weight_simps [simp]:
  "weight (p\<lparr>wrr_remaining := d\<rparr>) = weight p" "weight (spend p c) = weight p"
  "wrr_class_aware (spend p c) = wrr_class_aware p"
  by (auto simp: weight_def spend_def fun_eq_iff split: option.split)

lemma refill_simps [simp]: "weight (refill p cs) = weight p" "wrr_class_aware (refill p cs) = wrr_class_aware p"
  by (induction cs arbitrary: p) auto

lemma credit_spend: "credit (spend p c) = (credit p)(c := credit p c - 1)"
  by (auto simp: credit_def spend_def fun_eq_iff split: option.split)

lemma credit_refill: "credit (refill p cs) c = (if c \<in> set cs then weight p c else credit p c)"
proof (induction cs arbitrary: p)
  case (Cons x cs)
  have "credit (p\<lparr>wrr_remaining := AList.update x (weight p x) (wrr_remaining p)\<rparr>) c =
      (if c = x then weight p c else credit p c)" by (simp add: credit_def split: option.split)
  then show ?case using Cons by auto
qed simp

lemma filter_ConsD: "filter P xs = w # ws \<Longrightarrow> w \<in> set xs \<and> P w"
  by (auto simp: filter_eq_Cons_iff)

lemma present_labels_simps [simp]:
  "set (present_labels cs) = ac_class_label ` set cs" "distinct (present_labels cs)"
  "present_labels cs = [] \<longleftrightarrow> cs = []"
  by (auto simp: present_labels_def)

text \<open>The class that \<open>select\<close> grants, and the state it leaves.\<close>

lemma filter_label_ne: "w \<in> set (present_labels cs) \<Longrightarrow> filter (\<lambda>x. ac_class_label x = w) cs \<noteq> []"
  by (auto simp: filter_empty_conv)

lemma wrr_select_credit:
  assumes "wrr_class_aware p" "\<forall>c \<in> set (present_labels cs). 0 \<le> c"
    and "filter (\<lambda>c. 0 < credit p c) (present_labels cs) = w # ws"
  shows "\<exists>g. wrr_select p cs = (spend p w, Inr g) \<and> ac_class_label g = w \<and> g \<in> set cs"
proof -
  have "w \<in> set (present_labels cs)" using filter_ConsD [OF assms(3)] by simp
  then have "arg_min_list ac_baseline_sequence (filter (\<lambda>x. ac_class_label x = w) cs) \<in>
      set (filter (\<lambda>x. ac_class_label x = w) cs)"
    by (intro arg_min_list_in filter_label_ne)
  moreover have "cs \<noteq> []" using \<open>w \<in> set (present_labels cs)\<close> by auto
  ultimately show ?thesis using assms
    by (auto simp: wrr_select_def Let_def list_ex_iff)
qed

lemma wrr_select_refill:
  assumes "wrr_class_aware p" "cs \<noteq> []" "\<forall>c. 0 < weight p c"
    and "\<forall>c \<in> set (present_labels cs). 0 \<le> c \<and> credit p c \<le> 0"
  shows "wrr_select p cs = wrr_select (refill p (present_labels cs)) cs"
proof -
  let ?q = "refill p (present_labels cs)"
  have "filter (\<lambda>c. 0 < credit p c) (present_labels cs) = []"
    using assms(4) by (auto simp: filter_empty_conv)
  moreover have "filter (\<lambda>c. 0 < credit ?q c) (present_labels cs) = present_labels cs"
    using assms(3) by (auto simp: filter_id_conv credit_refill)
  moreover have "\<not> list_ex (\<lambda>c. c < 0) (present_labels cs)"
    using assms(4) by (auto simp: list_ex_iff)
  ultimately show ?thesis using assms(1,2) by (simp add: wrr_select_def Let_def)
qed

subsection \<open>Weighted rounds\<close>

definition round_order :: "(int \<Rightarrow> int) \<Rightarrow> int list \<Rightarrow> int list" where
  "round_order f labels = concat (map (\<lambda>c. replicate (nat (f c)) c) labels)"

lemma round_order_Cons [simp]: "round_order f (c # cs) = replicate (nat (f c)) c @ round_order f cs"
  by (simp add: round_order_def)

lemma round_order_cong: "\<forall>c \<in> set labels. f c = g c \<Longrightarrow> round_order f labels = round_order g labels"
  unfolding round_order_def by (intro arg_cong [of _ _ concat] map_cong) auto

lemma round_order_step:
  assumes "distinct labels" "\<forall>c \<in> set labels. 0 \<le> f c" "filter (\<lambda>c. 0 < f c) labels = w # ws"
  shows "round_order f labels = w # round_order (f(w := f w - 1)) labels"
  using assms
proof (induction labels)
  case (Cons x labels)
  show ?case
  proof (cases "0 < f x")
    case True
    with Cons.prems have w: "w = x" "x \<notin> set labels" by auto
    moreover have "nat (f x) = Suc (nat (f x - 1))" using True by simp
    ultimately show ?thesis by (auto intro: round_order_cong)
  next
    case False
    with Cons.prems have "distinct labels" "\<forall>c \<in> set labels. 0 \<le> f c" "filter (\<lambda>c. 0 < f c) labels = w # ws"
      by auto
    then have "round_order f labels = w # round_order (f(w := f w - 1)) labels" by (rule Cons.IH)
    moreover have "w \<in> set labels" using False Cons.prems(3)
      by (auto dest: filter_ConsD)
    then have "w \<noteq> x" using Cons.prems(1) by auto
    ultimately show ?thesis using False by (simp add: fun_upd_def)
  qed
qed simp

lemma round_order_Nil: "round_order f labels = [] \<longleftrightarrow> (\<forall>c \<in> set labels. f c \<le> 0)"
  by (auto simp: round_order_def)

definition backlogged :: "int list \<Rightarrow> arbitration_candidate list list \<Rightarrow> bool" where
  "backlogged labels css \<longleftrightarrow> (\<forall>cs \<in> set css. present_labels cs = labels)"

definition wrr_ok :: "wrr_policy \<Rightarrow> bool" where
  "wrr_ok p \<longleftrightarrow> wrr_class_aware p \<and> (\<forall>c. 0 < weight p c)"

lemma wrr_spends_credit:
  assumes "wrr_ok p" "distinct labels" "\<forall>c \<in> set labels. 0 \<le> c \<and> 0 \<le> credit p c"
    and "backlogged labels css" "length css = length (round_order (credit p) labels)"
  shows "\<exists>p' gs. run_all wrr_select p css = (p', Inr gs) \<and>
    map ac_class_label gs = round_order (credit p) labels \<and>
    wrr_ok p' \<and> weight p' = weight p \<and> (\<forall>c \<in> set labels. credit p' c = 0)"
  using assms
proof (induction css arbitrary: p)
  case Nil
  then have "round_order (credit p) labels = []" by simp
  with Nil.prems(1,3) show ?case
    by (intro exI [of _ p] exI [of _ "[]"]) (auto simp: round_order_Nil antisym)
next
  case (Cons cs css)
  have "round_order (credit p) labels \<noteq> []" using Cons.prems(5) by auto
  then obtain w ws where w: "filter (\<lambda>c. 0 < credit p c) labels = w # ws"
    by (cases "filter (\<lambda>c. 0 < credit p c) labels") (auto simp: round_order_Nil filter_empty_conv not_less)
  have cs: "present_labels cs = labels" using Cons.prems(4) by (simp add: backlogged_def)
  then obtain g where g: "wrr_select p cs = (spend p w, Inr g)" "ac_class_label g = w"
    using wrr_select_credit [of p cs w ws] Cons.prems(1,3) w by (auto simp: wrr_ok_def)
  have r: "round_order (credit p) labels = w # round_order (credit (spend p w)) labels"
    unfolding credit_spend using Cons.prems(2,3) w by (intro round_order_step) auto
  have "0 < credit p w" using filter_ConsD [OF w] by simp
  then have "\<exists>p' gs. run_all wrr_select (spend p w) css = (p', Inr gs) \<and>
      map ac_class_label gs = round_order (credit (spend p w)) labels \<and>
      wrr_ok p' \<and> weight p' = weight (spend p w) \<and> (\<forall>c \<in> set labels. credit p' c = 0)"
  proof (intro Cons.IH)
    show "wrr_ok (spend p w)" "backlogged labels css" "distinct labels"
      using Cons.prems(1,2,4) by (simp_all add: wrr_ok_def backlogged_def)
    show "\<forall>c \<in> set labels. 0 \<le> c \<and> 0 \<le> credit (spend p w) c"
      using Cons.prems(3) \<open>0 < credit p w\<close> by (simp add: credit_spend)
    show "length css = length (round_order (credit (spend p w)) labels)"
      using Cons.prems(5) r by simp
  qed
  with g r show ?case by auto
qed

lemma wrr_next_round:
  assumes "wrr_ok p" "distinct labels" "labels \<noteq> []" "\<forall>c \<in> set labels. 0 \<le> c \<and> credit p c = 0"
    and "backlogged labels css" "length css = length (round_order (weight p) labels)"
  shows "\<exists>p' gs. run_all wrr_select p css = (p', Inr gs) \<and>
    map ac_class_label gs = round_order (weight p) labels \<and>
    wrr_ok p' \<and> weight p' = weight p \<and> (\<forall>c \<in> set labels. credit p' c = 0)"
proof -
  let ?q = "refill p labels"
  have w: "\<forall>c. 0 < weight p c" using assms(1) by (simp add: wrr_ok_def)
  then have "round_order (weight p) labels \<noteq> []"
    using assms(3) by (cases labels) (auto simp: not_le)
  then obtain cs css' where css: "css = cs # css'" using assms(6) by (cases css) auto
  have "present_labels cs = labels" using assms(5) css by (simp add: backlogged_def)
  then have "wrr_select p cs = wrr_select ?q cs"
    using wrr_select_refill [of p cs] assms(1,3,4) w by (auto simp: wrr_ok_def)
  then have eq: "run_all wrr_select p css = run_all wrr_select ?q css" by (simp add: css)
  have ro: "round_order (credit ?q) labels = round_order (weight p) labels"
    by (rule round_order_cong) (simp add: credit_refill)
  have "\<exists>p' gs. run_all wrr_select ?q css = (p', Inr gs) \<and>
      map ac_class_label gs = round_order (credit ?q) labels \<and>
      wrr_ok p' \<and> weight p' = weight ?q \<and> (\<forall>c \<in> set labels. credit p' c = 0)"
    using assms w by (intro wrr_spends_credit) (auto simp: wrr_ok_def credit_refill less_imp_le ro)
  then show ?thesis by (simp add: eq ro)
qed

lemma wrr_rounds_from_zero:
  assumes "wrr_ok p" "distinct labels" "labels \<noteq> []" "\<forall>c \<in> set labels. 0 \<le> c \<and> credit p c = 0"
    and "backlogged labels css" "length css = m * length (round_order (weight p) labels)"
  shows "\<exists>p' gs. run_all wrr_select p css = (p', Inr gs) \<and>
    map ac_class_label gs = concat (replicate m (round_order (weight p) labels))"
  using assms
proof (induction m arbitrary: p css)
  case (Suc m)
  let ?n = "length (round_order (weight p) labels)"
  have "backlogged labels (take ?n css)" "length (take ?n css) = ?n"
    using Suc.prems(5,6) by (auto simp: backlogged_def dest: in_set_takeD)
  with Suc.prems(1-4) obtain q gs where q: "run_all wrr_select p (take ?n css) = (q, Inr gs)"
    "map ac_class_label gs = round_order (weight p) labels" "wrr_ok q" "weight q = weight p"
    "\<forall>c \<in> set labels. credit q c = 0"
    using wrr_next_round by blast
  have "\<exists>p' hs. run_all wrr_select q (drop ?n css) = (p', Inr hs) \<and>
      map ac_class_label hs = concat (replicate m (round_order (weight q) labels))"
    using Suc.prems q(3-5) by (intro Suc.IH) (auto simp: backlogged_def dest: in_set_dropD)
  then show ?case
    using q run_all_append [of wrr_select p "take ?n css" "drop ?n css"] by auto
qed simp

lemma wrr_select_member: "wrr_select p cs = (p', Inr c) \<Longrightarrow> c \<in> set cs"
proof -
  assume s: "wrr_select p cs = (p', Inr c)"
  have *: "arg_min_list ac_baseline_sequence (filter (\<lambda>x. ac_class_label x = w) cs) \<in> set cs"
    if "w \<in> set (present_labels cs)" for w
    using arg_min_list_in [OF filter_label_ne [OF that], of ac_baseline_sequence] by auto
  have "hd (filter (\<lambda>c. 0 < credit p c) (present_labels cs)) \<in> set (present_labels cs)"
    if "filter (\<lambda>c. 0 < credit p c) (present_labels cs) \<noteq> []"
    using hd_in_set [OF that] by simp
  moreover have "hd (present_labels cs) \<in> set (present_labels cs)" if "cs \<noteq> []"
    using that by (intro hd_in_set) simp
  ultimately show ?thesis
    using s * by (auto simp: wrr_select_def Let_def arg_min_list_in split: if_splits)
qed

lemma wrr_select_error: "wrr_select p cs = (p', Inl e) \<Longrightarrow> p' = p"
  by (simp add: wrr_select_def Let_def split: if_splits)

lemma wrr_select_total:
  "cs \<noteq> [] \<Longrightarrow> \<forall>c \<in> set cs. 0 \<le> ac_class_label c \<Longrightarrow> \<exists>p' c. wrr_select p cs = (p', Inr c)"
  by (auto simp: wrr_select_def Let_def list_ex_iff not_less)

interpretation wrr: arbitration wrr_select
  by unfold_locales (fact wrr_select_member wrr_select_error wrr_select_total)+

subsection \<open>Properties\<close>

text \<open>
  Candidates of a co-runnable set: built from the tables for distinct operations, they
  form a well-formed dictionary whose values are the candidates in order.
\<close>

lemma candidates_of_Inr:
  "candidates_of ts oids = Inr cs \<Longrightarrow> map ac_operation_id cs = oids \<and>
   (\<forall>c \<in> set cs. map_of (ot_operation_index ts) (ac_operation_id c) = Some (ac_baseline_sequence c) \<and>
      map_of (ot_priority ts) (ac_operation_id c) = Some (ac_class_label c))"
  by (induction oids arbitrary: cs)
    (auto simp: candidate_of_def split: sum.splits option.splits)

definition table_index :: "operation_tables \<Rightarrow> string \<Rightarrow> int" where
  "table_index ts oid = dict_get (ot_operation_index ts) oid 0"

definition table_priority :: "operation_tables \<Rightarrow> string \<Rightarrow> int" where
  "table_priority ts oid = dict_get (ot_priority ts) oid 0"

text \<open>The operations are known to the three tables and their priorities are not negative.\<close>

definition known_operations :: "operation_tables \<Rightarrow> string list \<Rightarrow> bool" where
  "known_operations ts oids \<longleftrightarrow>
     distinct oids \<and>
     list_all (\<lambda>oid. map_of (ot_operation_index ts) oid \<noteq> None \<and>
       map_of (ot_eligible_at_ps ts) oid \<noteq> None \<and> map_of (ot_priority ts) oid \<noteq> None \<and>
       0 \<le> table_priority ts oid) oids"

lemma candidates_of_known: "known_operations ts oids \<Longrightarrow> \<exists>cs. candidates_of ts oids = Inr cs"
  by (induction oids) (auto simp: known_operations_def candidate_of_def)

text \<open>What \<open>arbitrated_order\<close> starts from on known operations.\<close>

definition start_dict :: "operation_tables \<Rightarrow> string list \<Rightarrow> (string, arbitration_candidate) dict" where
  "start_dict ts oids =
     (case candidates_of ts oids of Inl _ \<Rightarrow> [] | Inr cs \<Rightarrow> map (\<lambda>c. (ac_operation_id c, c)) cs)"

lemma start_dict:
  assumes "known_operations ts oids"
  shows "keyed (start_dict ts oids)" "map ac_operation_id (map snd (start_dict ts oids)) = oids"
    "\<forall>c \<in> set (map snd (start_dict ts oids)). ac_baseline_sequence c = table_index ts (ac_operation_id c) \<and>
       ac_class_label c = table_priority ts (ac_operation_id c)"
    "arbitrated_order select p ts oids =
       (case grant_loop select p (start_dict ts oids) of (p', Inl e) \<Rightarrow> (p', Inl e)
        | (p', Inr order) \<Rightarrow> (p', Inr (map ac_operation_id order)))"
proof -
  obtain cs where cs: "candidates_of ts oids = Inr cs" using candidates_of_known [OF assms] by blast
  note c = candidates_of_Inr [OF cs]
  have dist: "distinct (map ac_operation_id cs)" using c assms by (simp add: known_operations_def)
  have f: "fold (\<lambda>c d. AList.update (ac_operation_id c) c d) cs [] = start_dict ts oids"
    using fold_update_fresh [of "[]" ac_operation_id cs "\<lambda>c. c"] dist by (simp add: start_dict_def cs)
  show lab: "\<forall>c \<in> set (map snd (start_dict ts oids)).
       ac_baseline_sequence c = table_index ts (ac_operation_id c) \<and>
       ac_class_label c = table_priority ts (ac_operation_id c)"
    using c by (auto simp: table_index_def table_priority_def start_dict_def cs)
  have "\<forall>c \<in> set cs. 0 \<le> table_priority ts (ac_operation_id c)"
    using assms c by (auto simp: known_operations_def list_all_iff)
  then show "keyed (start_dict ts oids)"
    using dist lab by (auto simp: keyed_def comp_def start_dict_def cs)
  show "map ac_operation_id (map snd (start_dict ts oids)) = oids"
    using c by (simp add: start_dict_def cs comp_def)
  show "arbitrated_order select p ts oids =
       (case grant_loop select p (start_dict ts oids) of (p', Inl e) \<Rightarrow> (p', Inl e)
        | (p', Inr order) \<Rightarrow> (p', Inr (map ac_operation_id order)))"
    by (simp add: arbitrated_order_def cs f)
qed

context arbitration
begin

lemma order_perm:
  assumes "known_operations ts oids"
  shows "\<exists>p' order. arbitrated_order select p ts oids = (p', Inr order) \<and> mset order = mset oids"
proof -
  note sd = start_dict [OF assms]
  obtain p' gs where g: "grant_loop select p (start_dict ts oids) = (p', Inr gs)"
    and m: "mset gs = mset (map snd (start_dict ts oids))"
    using grant_loop_perm [OF sd(1)] by blast
  have "mset (map ac_operation_id gs) = mset oids" using m sd(2) by (metis mset_map)
  then show ?thesis using g by (simp add: sd(4))
qed

end

context keyed_arbitration
begin

lemma order_sorted:
  assumes "known_operations ts oids" "inj_on k (set oids)"
    and "\<And>c. ac_baseline_sequence c = table_index ts (ac_operation_id c) \<Longrightarrow>
      ac_class_label c = table_priority ts (ac_operation_id c) \<Longrightarrow> key c = k (ac_operation_id c)"
  shows "snd (arbitrated_order select p ts oids) = Inr (sort_key k oids)"
proof -
  note sd = start_dict [OF assms(1)]
  obtain p' gs where g: "grant_loop select p (start_dict ts oids) = (p', Inr gs)"
    and m: "mset gs = mset (map snd (start_dict ts oids))"
    using grant_loop_perm [OF sd(1)] by blast
  have "map key gs = map k (map ac_operation_id gs)"
    using sd(3) assms(3) mset_eq_setD [OF m] by auto
  then have "sorted (map k (map ac_operation_id gs))"
    using grant_loop_sorted [OF sd(1) g] by metis
  moreover have "mset (map ac_operation_id gs) = mset oids" using m sd(2) by (metis mset_map)
  ultimately have "sort_key k oids = map ac_operation_id gs"
    using assms(2) by (intro sort_key_inj_key_eq) auto
  then show ?thesis using g by (simp add: sd(4))
qed

end

text \<open>Three operations to evaluate the properties on.\<close>

definition ex_tables :: operation_tables where
  "ex_tables =
     \<lparr>ot_operation_index = [(''a'', 0), (''b'', 1), (''c'', 2)],
      ot_eligible_at_ps = [(''a'', 7), (''b'', 7), (''c'', 7)],
      ot_priority = [(''a'', 1), (''b'', 0), (''c'', 1)]\<rparr>"

lemma ex_known: "known_operations ex_tables [''c'', ''a'', ''b'']"
  by code_simp

text \<open>
  C14. Arbitration only reorders.  Whatever its weights and credits, weighted round robin
  orders every co-runnable set of known operations into a permutation of it: the loop ends,
  and no operation is lost, repeated or refused.
\<close>

theorem arbitrated_order_perm:
  assumes "known_operations ts oids"
  shows "\<exists>p' order. arbitrated_order wrr_select p ts oids = (p', Inr order) \<and> mset order = mset oids"
  using assms by (rule wrr.order_perm)

theorem arbitrated_order_perm_witness:
  "\<exists>p' order. arbitrated_order wrr_select (projr (new_wrr [(1, 2)] 1 True)) ex_tables [''c'', ''a'', ''b''] =
     (p', Inr order) \<and> mset order = {#''a'', ''b'', ''c''#}"
  using arbitrated_order_perm [OF ex_known, of "projr (new_wrr [(1, 2)] 1 True)"]
  by (simp add: add_mset_commute)

text \<open>
  C13. The documented orders.  Identity arbitration reproduces the graph order of a
  co-runnable set, strict priority orders it by priority and then by graph order, and the
  feature-off settings of strict priority and of weighted round robin are the identity
  policy grant for grant.
\<close>

theorem policy_orders:
  assumes "known_operations ts oids" and "inj_on (table_index ts) (set oids)"
  shows "snd (arbitrated_order (\<lambda>p cs. (p, identity_select cs)) () ts oids) =
      Inr (sort_key (table_index ts) oids) \<and>
    snd (arbitrated_order (\<lambda>p cs. (p, strict_select True cs)) () ts oids) =
      Inr (sort_key (\<lambda>oid. (table_priority ts oid, table_index ts oid)) oids) \<and>
    strict_select False = identity_select \<and>
    (\<forall>p cs. \<not> wrr_class_aware p \<longrightarrow> wrr_select p cs = (p, identity_select cs))"
proof (intro conjI allI impI)
  show "snd (arbitrated_order (\<lambda>p cs. (p, identity_select cs)) () ts oids) =
      Inr (sort_key (table_index ts) oids)"
    using assms by (rule identity.order_sorted)
  have "inj_on (\<lambda>oid. (table_priority ts oid, table_index ts oid)) (set oids)"
    using assms(2) by (auto simp: inj_on_def)
  then show "snd (arbitrated_order (\<lambda>p cs. (p, strict_select True cs)) () ts oids) =
      Inr (sort_key (\<lambda>oid. (table_priority ts oid, table_index ts oid)) oids)"
    by (rule strict.order_sorted [OF assms(1)]) (simp add: strict_key_def)
qed (auto simp: strict_select_def identity_select_def wrr_select_def fun_eq_iff)

theorem policy_orders_witness:
  "snd (arbitrated_order (\<lambda>p cs. (p, strict_select True cs)) () ex_tables [''c'', ''a'', ''b'']) =
     Inr [''b'', ''a'', ''c'']"
proof -
  have "inj_on (table_index ex_tables) (set [''c'', ''a'', ''b''])" by code_simp
  moreover have "sort_key (\<lambda>oid. (table_priority ex_tables oid, table_index ex_tables oid))
      [''c'', ''a'', ''b''] = [''b'', ''a'', ''c'']" by code_simp
  ultimately show ?thesis using policy_orders [OF ex_known] by simp
qed

text \<open>
  C5. Weighted shares.  On a freshly constructed policy, while the same classes stay
  backlogged, the grants come in rounds: every round serves the classes in ascending label
  order, each for exactly its weight of consecutive grants, and the rounds repeat.
\<close>

theorem wrr_weighted_rounds:
  assumes "new_wrr weights default_weight True = Inr p"
    and "distinct labels" and "labels \<noteq> []" and "\<forall>c \<in> set labels. 0 \<le> c"
    and "backlogged labels css" and "length css = m * length (round_order (weight p) labels)"
  shows "\<exists>p' gs. run_all wrr_select p css = (p', Inr gs) \<and>
    map ac_class_label gs = concat (replicate m (round_order (weight p) labels))"
proof (cases m)
  case 0
  with assms(6) show ?thesis by simp
next
  case (Suc n)
  let ?n = "length (round_order (weight p) labels)"
  have c: "credit p = weight p" "wrr_class_aware p" using assms(1)
    by (auto simp: new_wrr_def credit_def fun_eq_iff split: if_splits option.splits)
  have "0 < wrr_default_weight p" "\<forall>(c, w) \<in> set (wrr_weights p). 0 < w"
    using assms(1)
    by (auto simp: new_wrr_def first_err_None_iff not_le split: if_splits option.splits)
      (drule (1) bspec, simp split: if_splits)
  then have w: "0 < weight p c" for c
    by (auto simp: weight_def dest: map_of_SomeD split: option.splits)
  then have ok: "wrr_ok p" using c by (simp add: wrr_ok_def)
  have "\<exists>q gs. run_all wrr_select p (take ?n css) = (q, Inr gs) \<and>
      map ac_class_label gs = round_order (credit p) labels \<and>
      wrr_ok q \<and> weight q = weight p \<and> (\<forall>c \<in> set labels. credit q c = 0)"
    using ok assms(2,4,5,6) w c Suc
    by (intro wrr_spends_credit) (auto simp: backlogged_def less_imp_le dest: in_set_takeD)
  then obtain q gs where q: "run_all wrr_select p (take ?n css) = (q, Inr gs)"
    "map ac_class_label gs = round_order (weight p) labels" "wrr_ok q" "weight q = weight p"
    "\<forall>c \<in> set labels. credit q c = 0" using c by auto
  have "\<exists>p' hs. run_all wrr_select q (drop ?n css) = (p', Inr hs) \<and>
      map ac_class_label hs = concat (replicate n (round_order (weight q) labels))"
    using q(3-5) assms(2-6) Suc
    by (intro wrr_rounds_from_zero) (auto simp: backlogged_def dest: in_set_dropD)
  then show ?thesis
    using q Suc run_all_append [of wrr_select p "take ?n css" "drop ?n css"] by auto
qed

theorem wrr_weighted_rounds_witness:
  "\<exists>p' gs. run_all wrr_select (projr (new_wrr [(1, 2)] 1 True))
      (replicate 6 (projr (candidates_of ex_tables [''a'', ''b'', ''c'']))) = (p', Inr gs) \<and>
    map ac_class_label gs = [0, 1, 1, 0, 1, 1]"
proof -
  let ?p = "projr (new_wrr [(1, 2)] 1 True)"
  let ?css = "replicate 6 (projr (candidates_of ex_tables [''a'', ''b'', ''c'']))"
  have 1: "new_wrr [(1, 2)] 1 True = Inr ?p" by code_simp
  have 2: "backlogged [0, 1] ?css" "length ?css = 2 * length (round_order (weight ?p) [0, 1])"
    "concat (replicate 2 (round_order (weight ?p) [0, 1])) = [0, 1, 1, 0, 1, 1]" by code_simp+
  show ?thesis
    using wrr_weighted_rounds [OF 1 _ _ _ 2(1,2)] by (simp only: 2(3)) simp
qed

end
