(* ===== verification/Packet_Port.thy ===== *)
theory Packet_Port
  imports Prelude "HOL-Library.Product_Lexorder"
begin

text \<open>
  The packet-port correlation ledger of \<open>simllm/core/packet_port.py\<close>.  A producer admits
  extents, the port reports the events of each transmission attempt, and an extent is
  retired as delivered or dropped.  Every operation is a function from the ledger to the
  ledger it leaves and the error or result; an operation applied to a record first runs the
  record's constructor checks.  The enum-valued strings of the wire rows stay strings.
\<close>

subsection \<open>Errors and integers\<close>

datatype packet_port_error =
    IntegerOutOfRange | BlankText | UnsupportedAbi | UnknownTxBoundary | UnknownTerminalBoundary
  | UnknownOrderEvidence | InvalidLink | DuplicateLink | InvalidPacketKinds | DuplicatePacketKind
  | RequiresAbi2 | UnsupportedCapability string
  | AttemptAliasesParent | UnsupportedEventKind | UnsupportedPacketKind | WireBelowPayload
  | UnsupportedTerminal
  | CallbackBackwards | ExtentTokenReused | KindNotAdvertised | EventBackwards | NoParent
  | FollowsRetirement | ChangedIdentity | PrecedesEligibility | EmptyDataPacket
  | RangeExceedsPayload | ControlCarriesPayload | NotStarted | AttemptAliasesExtent
  | SecondToken | RetryChangedRange | PostTerminalEvent | GeometryChanged | AttemptBackwards
  | LifecycleOrder
  | NoOwner | DuplicateTerminal | TerminalChangedProducer | TerminalPrecedesEligibility
  | OutstandingChild | CoverageGap | IncompleteCoverage | MissingTerminals
  | AdmissionBackwards | TxPrecedesAdmission | TerminalBackwards | LiveTokensDisagree

definition port_integer :: "int \<Rightarrow> int \<Rightarrow> int \<Rightarrow> packet_port_error option" where
  "port_integer minimum maximum n = guard (minimum \<le> n \<and> n \<le> maximum) IntegerOutOfRange"

abbreviation max_u64 :: int where
  "max_u64 \<equiv> 2 ^ 64 - 1"

abbreviation max_u32 :: int where
  "max_u32 \<equiv> 2 ^ 32 - 1"

definition packet_event_kinds :: "string list" where
  "packet_event_kinds =
     [''packet_tx_started'', ''packet_tx_finished'', ''packet_rx_arrived'', ''delivered'', ''dropped'']"

definition packet_kinds :: "string list" where
  "packet_kinds = [''data'', ''retransmission'', ''ack'', ''nak'', ''cnp'', ''pfc'', ''other_control'']"

subsection \<open>The negotiated context\<close>

record packet_port_context =
  pc_session_id :: string
  pc_port_id :: string
  pc_abi_version :: int
  pc_packet_attempt_events :: bool
  pc_tx_start_boundary :: string
  pc_terminal_boundary :: string
  pc_clock_id :: string
  pc_link_ids :: "string list"
  pc_event_order_evidence :: string
  pc_packet_kinds :: "string list"

definition check_context :: "packet_port_context \<Rightarrow> packet_port_error option" where
  "check_context c =
     first_err
       [guard (nonblank (pc_session_id c)) BlankText,
        guard (nonblank (pc_port_id c)) BlankText,
        guard (nonblank (pc_clock_id c)) BlankText,
        guard (pc_abi_version c = 1 \<or> pc_abi_version c = 2) UnsupportedAbi,
        guard (pc_tx_start_boundary c \<in> {''producer_issue'', ''link_grant''}) UnknownTxBoundary,
        guard (pc_terminal_boundary c = ''transport_retirement'') UnknownTerminalBoundary,
        guard (pc_event_order_evidence c \<in> {''live_callbacks'', ''separate_arrays''})
          UnknownOrderEvidence,
        guard (list_all nonblank (pc_link_ids c)) InvalidLink,
        guard (distinct (pc_link_ids c)) DuplicateLink,
        guard (pc_packet_kinds c \<noteq> [] \<and> list_all (\<lambda>k. k \<in> set packet_kinds) (pc_packet_kinds c))
          InvalidPacketKinds,
        guard (distinct (pc_packet_kinds c)) DuplicatePacketKind]"

definition supports :: "packet_port_context \<Rightarrow> string \<Rightarrow> bool" where
  "supports c capability =
     (if capability = ''packet_attempt_events'' then pc_packet_attempt_events c
      else if capability = ''priority_flow_control''
        then pc_packet_attempt_events c \<and> ''pfc'' \<in> set (pc_packet_kinds c)
      else if capability = ''congestion_notification''
        then pc_packet_attempt_events c \<and> ''cnp'' \<in> set (pc_packet_kinds c)
      else False)"

definition require :: "packet_port_context \<Rightarrow> string list \<Rightarrow> packet_port_error option" where
  "require c capabilities =
     first_err
       (guard (pc_abi_version c = 2) RequiresAbi2
        # map (\<lambda>k. guard (supports c k) (UnsupportedCapability k)) capabilities)"

subsection \<open>Rows\<close>

record packet_extent_admission =
  xa_extent_token :: int
  xa_producer_id :: int
  xa_payload_bytes :: int
  xa_eligible_at_ps :: int
  xa_extent_index :: int

definition check_admission :: "packet_extent_admission \<Rightarrow> packet_port_error option" where
  "check_admission a =
     first_err
       [port_integer 1 max_u64 (xa_extent_token a),
        port_integer 1 max_u64 (xa_producer_id a),
        port_integer 1 max_u64 (xa_payload_bytes a),
        port_integer 0 max_u64 (xa_eligible_at_ps a),
        port_integer 0 max_u32 (xa_extent_index a)]"

record packet_attempt_event =
  ev_attempt_token :: int
  ev_extent_token :: int
  ev_wqe_id :: int
  ev_event_kind :: string
  ev_event_time_ps :: int
  ev_extent_index :: int
  ev_packet_index :: int
  ev_transmission_attempt :: int
  ev_payload_offset_bytes :: int
  ev_payload_bytes :: int
  ev_wire_bytes :: int
  ev_packet_kind :: string

definition check_event :: "packet_attempt_event \<Rightarrow> packet_port_error option" where
  "check_event e =
     first_err
       [port_integer 1 max_u64 (ev_attempt_token e),
        port_integer 1 max_u64 (ev_extent_token e),
        port_integer 1 max_u64 (ev_wqe_id e),
        port_integer 1 max_u64 (ev_wire_bytes e),
        port_integer 0 max_u64 (ev_event_time_ps e),
        port_integer 0 max_u64 (ev_extent_index e),
        port_integer 0 max_u64 (ev_packet_index e),
        port_integer 0 max_u64 (ev_transmission_attempt e),
        port_integer 0 max_u64 (ev_payload_offset_bytes e),
        port_integer 0 max_u64 (ev_payload_bytes e),
        port_integer 0 max_u32 (ev_extent_index e),
        port_integer 0 max_u32 (ev_transmission_attempt e),
        guard (ev_attempt_token e \<noteq> ev_extent_token e) AttemptAliasesParent,
        guard (ev_event_kind e \<in> set packet_event_kinds) UnsupportedEventKind,
        guard (ev_packet_kind e \<in> set packet_kinds) UnsupportedPacketKind,
        guard (ev_wire_bytes e \<ge> ev_payload_bytes e) WireBelowPayload]"

definition geometry ::
    "packet_attempt_event \<Rightarrow> int \<times> int \<times> int \<times> int \<times> int \<times> int \<times> int \<times> int \<times> string" where
  "geometry e =
     (ev_extent_token e, ev_wqe_id e, ev_extent_index e, ev_packet_index e,
      ev_transmission_attempt e, ev_payload_offset_bytes e, ev_payload_bytes e,
      ev_wire_bytes e, ev_packet_kind e)"

definition carries_data :: "packet_attempt_event \<Rightarrow> bool" where
  "carries_data e = (ev_packet_kind e \<in> {''data'', ''retransmission''})"

record packet_extent_terminal =
  xt_extent_token :: int
  xt_producer_id :: int
  xt_kind :: string
  xt_at_ps :: int

definition check_terminal :: "packet_extent_terminal \<Rightarrow> packet_port_error option" where
  "check_terminal t =
     first_err
       [port_integer 1 max_u64 (xt_extent_token t),
        port_integer 1 max_u64 (xt_producer_id t),
        port_integer 0 max_u64 (xt_at_ps t),
        guard (xt_kind t \<in> {''delivered'', ''dropped''}) UnsupportedTerminal]"

record packet_port_snapshot =
  sn_admitted_tokens :: "int list"
  sn_retired_tokens :: "int list"
  sn_live_extent_tokens :: "int list"
  sn_started_attempt_tokens :: "int list"
  sn_retired_attempt_tokens :: "int list"
  sn_live_attempt_tokens :: "int list"
  sn_delivered_payload_bytes :: int

subsection \<open>The ledger\<close>

record attempt =
  at_first :: packet_attempt_event
  at_last_kind :: string
  at_last_time_ps :: int
  at_terminal :: bool

record packet_port_ledger =
  lg_context :: packet_port_context
  lg_admissions :: "(int, packet_extent_admission) dict"
  lg_terminals :: "(int, packet_extent_terminal) dict"
  lg_attempts :: "(int, attempt) dict"
  lg_attempt_ids :: "(int \<times> int \<times> int) list"
  lg_logical_geometry :: "(int \<times> int, int \<times> int) dict"
  lg_events :: "packet_attempt_event list"
  lg_last_callback_at_ps :: int

definition new_port_ledger :: "packet_port_context \<Rightarrow> packet_port_error + packet_port_ledger" where
  "new_port_ledger c =
     (case require c [''packet_attempt_events''] of
        Some e \<Rightarrow> Inl e
      | None \<Rightarrow>
          Inr \<lparr>lg_context = c, lg_admissions = [], lg_terminals = [], lg_attempts = [],
               lg_attempt_ids = [], lg_logical_geometry = [], lg_events = [],
               lg_last_callback_at_ps = 0\<rparr>)"

definition check_callback_time :: "packet_port_ledger \<Rightarrow> int \<Rightarrow> packet_port_error option" where
  "check_callback_time l at_ps =
     (if pc_event_order_evidence (lg_context l) = ''live_callbacks''
      then guard (at_ps \<ge> lg_last_callback_at_ps l) CallbackBackwards else None)"

definition admit :: "packet_port_ledger \<Rightarrow> packet_extent_admission \<Rightarrow>
    packet_port_ledger \<times> (packet_port_error + unit)" where
  "admit l a =
     (let token = xa_extent_token a
      in if map_of (lg_admissions l) token \<noteq> None \<or> map_of (lg_attempts l) token \<noteq> None
         then (l, Inl ExtentTokenReused)
         else (l\<lparr>lg_admissions := AList.update token a (lg_admissions l)\<rparr>, Inr ()))"

text \<open>The checks of \<open>observe\<close> that precede the attempt lookup.\<close>

definition observe_parent_checks ::
    "packet_port_ledger \<Rightarrow> packet_attempt_event \<Rightarrow> packet_port_error option" where
  "observe_parent_checks l e =
     (case first_err
        [guard (ev_packet_kind e \<in> set (pc_packet_kinds (lg_context l))) KindNotAdvertised,
         check_callback_time l (ev_event_time_ps e),
         guard (lg_events l = [] \<or> ev_event_time_ps e \<ge> ev_event_time_ps (last (lg_events l)))
           EventBackwards] of
        Some x \<Rightarrow> Some x
      | None \<Rightarrow>
          (case map_of (lg_admissions l) (ev_extent_token e) of
             None \<Rightarrow> Some NoParent
           | Some a \<Rightarrow>
               first_err
                 ([guard (map_of (lg_terminals l) (ev_extent_token e) = None) FollowsRetirement,
                   guard (ev_wqe_id e = xa_producer_id a \<and> ev_extent_index e = xa_extent_index a)
                     ChangedIdentity,
                   guard (ev_event_time_ps e \<ge> xa_eligible_at_ps a) PrecedesEligibility]
                  @ (if carries_data e
                     then [guard (ev_payload_bytes e > 0) EmptyDataPacket,
                           guard (ev_payload_offset_bytes e + ev_payload_bytes e \<le> xa_payload_bytes a)
                             RangeExceedsPayload]
                     else [guard (ev_payload_bytes e = 0) ControlCarriesPayload]))))"

definition allowed :: "string \<Rightarrow> string list" where
  "allowed last_kind =
     (if last_kind = ''packet_tx_started'' then [''packet_tx_finished'', ''dropped'']
      else if last_kind = ''packet_tx_finished'' then [''packet_rx_arrived'', ''dropped'']
      else if last_kind = ''packet_rx_arrived'' then [''delivered'', ''dropped'']
      else [])"

definition next_attempt ::
    "packet_port_ledger \<Rightarrow> packet_attempt_event \<Rightarrow> packet_port_error + attempt" where
  "next_attempt l e =
     (case map_of (lg_attempts l) (ev_attempt_token e) of
        None \<Rightarrow>
          (case first_err
             [guard (ev_event_kind e = ''packet_tx_started'') NotStarted,
              guard (map_of (lg_admissions l) (ev_attempt_token e) = None) AttemptAliasesExtent,
              guard ((ev_extent_token e, ev_packet_index e, ev_transmission_attempt e)
                       \<notin> set (lg_attempt_ids l)) SecondToken,
              guard (case map_of (lg_logical_geometry l) (ev_extent_token e, ev_packet_index e) of
                       None \<Rightarrow> True
                     | Some g \<Rightarrow> g = (ev_payload_offset_bytes e, ev_payload_bytes e))
                RetryChangedRange] of
             Some x \<Rightarrow> Inl x
           | None \<Rightarrow> Inr \<lparr>at_first = e, at_last_kind = ev_event_kind e,
                         at_last_time_ps = ev_event_time_ps e, at_terminal = False\<rparr>)
      | Some a \<Rightarrow>
          (case first_err
             [guard (\<not> at_terminal a) PostTerminalEvent,
              guard (geometry (at_first a) = geometry e) GeometryChanged,
              guard (ev_event_time_ps e \<ge> at_last_time_ps a) AttemptBackwards,
              guard (ev_event_kind e \<in> set (allowed (at_last_kind a))) LifecycleOrder] of
             Some x \<Rightarrow> Inl x
           | None \<Rightarrow> Inr (a\<lparr>at_last_kind := ev_event_kind e, at_last_time_ps := ev_event_time_ps e,
                            at_terminal := (ev_event_kind e \<in> {''delivered'', ''dropped''})\<rparr>)))"

definition observe :: "packet_port_ledger \<Rightarrow> packet_attempt_event \<Rightarrow>
    packet_port_ledger \<times> (packet_port_error + unit)" where
  "observe l e =
     (case observe_parent_checks l e of
        Some x \<Rightarrow> (l, Inl x)
      | None \<Rightarrow>
          (case next_attempt l e of
             Inl x \<Rightarrow> (l, Inl x)
           | Inr updated \<Rightarrow>
               (l\<lparr>lg_attempts := AList.update (ev_attempt_token e) updated (lg_attempts l),
                  lg_attempt_ids :=
                    List.insert (ev_extent_token e, ev_packet_index e, ev_transmission_attempt e)
                      (lg_attempt_ids l),
                  lg_logical_geometry :=
                    (if carries_data e
                     then AList.update (ev_extent_token e, ev_packet_index e)
                            (ev_payload_offset_bytes e, ev_payload_bytes e) (lg_logical_geometry l)
                     else lg_logical_geometry l),
                  lg_events := lg_events l @ [e],
                  lg_last_callback_at_ps := max (lg_last_callback_at_ps l) (ev_event_time_ps e)\<rparr>,
                Inr ())))"

definition children :: "packet_port_ledger \<Rightarrow> int \<Rightarrow> attempt list" where
  "children l token = filter (\<lambda>x. ev_extent_token (at_first x) = token) (map snd (lg_attempts l))"

text \<open>
  The successful payload ranges of an extent, as (packet index, offset, length).  The code
  sorts a set by (offset, index); two ranges with the same key would be the same logical
  packet, whose range never changes, so the order of the set does not matter.
\<close>

definition delivered_ranges :: "attempt list \<Rightarrow> (int \<times> int \<times> int) list" where
  "delivered_ranges xs =
     remdups (map (\<lambda>x. (ev_packet_index (at_first x), ev_payload_offset_bytes (at_first x),
                        ev_payload_bytes (at_first x)))
       (filter (\<lambda>x. at_last_kind x = ''delivered'' \<and> carries_data (at_first x)) xs))"

fun coverage_cursor :: "int \<Rightarrow> (int \<times> int \<times> int) list \<Rightarrow> packet_port_error + int" where
  "coverage_cursor cursor [] = Inr cursor"
| "coverage_cursor cursor ((_, offset, len) # rs) =
     (if offset = cursor then coverage_cursor (cursor + len) rs else Inl CoverageGap)"

definition check_coverage :: "packet_extent_admission \<Rightarrow> attempt list \<Rightarrow> packet_port_error option" where
  "check_coverage a xs =
     (case coverage_cursor 0
             (sort_key (\<lambda>(i, offset, _). (offset, i)) (delivered_ranges xs)) of
        Inl x \<Rightarrow> Some x
      | Inr cursor \<Rightarrow> guard (cursor = xa_payload_bytes a) IncompleteCoverage)"

definition retire :: "packet_port_ledger \<Rightarrow> packet_extent_terminal \<Rightarrow>
    packet_port_ledger \<times> (packet_port_error + unit)" where
  "retire l t =
     (case check_callback_time l (xt_at_ps t) of Some x \<Rightarrow> (l, Inl x) | None \<Rightarrow>
     (case map_of (lg_admissions l) (xt_extent_token t) of None \<Rightarrow> (l, Inl NoOwner) | Some a \<Rightarrow>
     (case first_err
        [guard (map_of (lg_terminals l) (xt_extent_token t) = None) DuplicateTerminal,
         guard (xt_producer_id t = xa_producer_id a) TerminalChangedProducer,
         guard (xt_at_ps t \<ge> xa_eligible_at_ps a) TerminalPrecedesEligibility,
         guard (list_all (\<lambda>x. at_terminal x \<and> at_last_time_ps x \<le> xt_at_ps t)
                  (children l (xt_extent_token t))) OutstandingChild,
         if xt_kind t = ''delivered'' then check_coverage a (children l (xt_extent_token t))
         else None] of
        Some x \<Rightarrow> (l, Inl x)
      | None \<Rightarrow>
          (l\<lparr>lg_terminals := AList.update (xt_extent_token t) t (lg_terminals l),
             lg_last_callback_at_ps := max (lg_last_callback_at_ps l) (xt_at_ps t)\<rparr>, Inr ()))))"

definition snapshot :: "packet_port_ledger \<Rightarrow> bool \<Rightarrow> packet_port_error + packet_port_snapshot" where
  "snapshot l final =
     (let admitted = set (map fst (lg_admissions l)); retired = set (map fst (lg_terminals l));
          started = set (map fst (lg_attempts l));
          finished = set (map fst (filter (\<lambda>(_, x). at_terminal x) (lg_attempts l)));
          live_extents = admitted - retired; live_attempts = started - finished
      in if final \<and> \<not> (live_extents = {} \<and> live_attempts = {}) then Inl MissingTerminals
         else Inr \<lparr>sn_admitted_tokens = sorted_list_of_set admitted,
                   sn_retired_tokens = sorted_list_of_set retired,
                   sn_live_extent_tokens = sorted_list_of_set live_extents,
                   sn_started_attempt_tokens = sorted_list_of_set started,
                   sn_retired_attempt_tokens = sorted_list_of_set finished,
                   sn_live_attempt_tokens = sorted_list_of_set live_attempts,
                   sn_delivered_payload_bytes =
                     sum_list (map (\<lambda>(token, _).
                         case map_of (lg_admissions l) token of
                           None \<Rightarrow> 0 | Some a \<Rightarrow> xa_payload_bytes a)
                       (filter (\<lambda>(_, t). xt_kind t = ''delivered'') (lg_terminals l)))\<rparr>)"

subsection \<open>Operations as one machine, and the legacy batch adapter\<close>

datatype port_op =
    Admit packet_extent_admission
  | Observe packet_attempt_event
  | Retire packet_extent_terminal

fun port_step :: "packet_port_ledger \<Rightarrow> port_op \<Rightarrow> packet_port_ledger \<times> (packet_port_error + unit)" where
  "port_step l (Admit a) =
     (case check_admission a of Some x \<Rightarrow> (l, Inl x) | None \<Rightarrow> admit l a)"
| "port_step l (Observe e) =
     (case check_event e of Some x \<Rightarrow> (l, Inl x) | None \<Rightarrow> observe l e)"
| "port_step l (Retire t) =
     (case check_terminal t of Some x \<Rightarrow> (l, Inl x) | None \<Rightarrow> retire l t)"

record issued_row =
  is_token :: int
  is_wqe_id :: int
  is_accepted_at_ps :: int
  is_port_tx_at_ps :: int
  is_payload_bytes :: int

record packet_observation =
  po_issued :: "issued_row list"
  po_packet_events :: "packet_attempt_event list"
  po_terminals :: "packet_extent_terminal list"
  po_live_tokens :: "int list"

fun admit_issued :: "packet_port_ledger \<Rightarrow> int \<Rightarrow> issued_row list \<Rightarrow> packet_port_error + packet_port_ledger" where
  "admit_issued l last_admission [] = Inr l"
| "admit_issued l last_admission (r # rs) =
     (case port_step l (Admit \<lparr>xa_extent_token = is_token r, xa_producer_id = is_wqe_id r,
         xa_payload_bytes = is_payload_bytes r, xa_eligible_at_ps = is_accepted_at_ps r,
         xa_extent_index = 0\<rparr>) of
        (l', Inl x) \<Rightarrow> Inl x
      | (l', Inr _) \<Rightarrow>
          (case first_err
             [guard (is_accepted_at_ps r \<ge> last_admission) AdmissionBackwards,
              port_integer 0 max_u64 (is_port_tx_at_ps r),
              guard (is_port_tx_at_ps r \<ge> is_accepted_at_ps r) TxPrecedesAdmission] of
             Some x \<Rightarrow> Inl x
           | None \<Rightarrow> admit_issued l' (is_accepted_at_ps r) rs))"

fun retire_rows :: "packet_port_ledger \<Rightarrow> int \<Rightarrow> packet_extent_terminal list \<Rightarrow>
    packet_port_error + packet_port_ledger" where
  "retire_rows l last_terminal [] = Inr l"
| "retire_rows l last_terminal (t # ts) =
     (case check_terminal t of Some x \<Rightarrow> Inl x | None \<Rightarrow>
        if xt_at_ps t < last_terminal then Inl TerminalBackwards
        else (case retire l t of
                (l', Inl x) \<Rightarrow> Inl x
              | (l', Inr _) \<Rightarrow> retire_rows l' (xt_at_ps t) ts))"

text \<open>
  \<open>validate_packet_observation\<close>.  The typed rows stand for JSON objects that have exactly
  the expected keys.
\<close>

definition validate_packet_observation ::
    "packet_observation \<Rightarrow> packet_port_context \<Rightarrow> packet_port_error + packet_port_ledger" where
  "validate_packet_observation port c =
     (case new_port_ledger (c\<lparr>pc_event_order_evidence := ''separate_arrays''\<rparr>) of
        Inl x \<Rightarrow> Inl x
      | Inr l0 \<Rightarrow>
     (case admit_issued l0 0 (po_issued port) of Inl x \<Rightarrow> Inl x | Inr l1 \<Rightarrow>
     (case run_all (\<lambda>l e. port_step l (Observe e)) l1 (po_packet_events port) of
        (l2, Inl x) \<Rightarrow> Inl x
      | (l2, Inr _) \<Rightarrow>
     (case retire_rows l2 0 (po_terminals port) of Inl x \<Rightarrow> Inl x | Inr l3 \<Rightarrow>
     (case snapshot l3 True of
        Inl x \<Rightarrow> Inl x
      | Inr s \<Rightarrow> if po_live_tokens port = sn_live_extent_tokens s then Inr l3
                 else Inl LiveTokensDisagree)))))"

end
