(* ===== verification/Packet_Port_Properties.thy ===== *)
theory Packet_Port_Properties
  imports Packet_Port
begin

text \<open>
  What the packet-port ledger guarantees.  \<open>port_inv\<close> ties the ledger's dictionaries to
  the event log: the recorded state of an attempt is the end of that attempt's own events,
  which form a path of the packet lifecycle; retired extents have no outstanding attempt,
  and delivered ones are covered exactly.  The ledger is an \<open>atomic_machine\<close>: a rejected
  observation changes nothing, so the invariant holds after every history, rejected
  operations included.
\<close>

subsection \<open>The life of an attempt\<close>

definition attempt_events :: "packet_port_ledger \<Rightarrow> int \<Rightarrow> packet_attempt_event list" where
  "attempt_events l token = filter (\<lambda>e. ev_attempt_token e = token) (lg_events l)"

text \<open>Consecutive events of one attempt: the lifecycle step, the time and the geometry.\<close>

definition follows :: "packet_attempt_event \<Rightarrow> packet_attempt_event \<Rightarrow> bool" where
  "follows d e \<longleftrightarrow> ev_event_kind e \<in> set (allowed (ev_event_kind d)) \<and>
     ev_event_time_ps d \<le> ev_event_time_ps e \<and> geometry e = geometry d"

definition life :: "packet_attempt_event list \<Rightarrow> bool" where
  "life es \<longleftrightarrow> es \<noteq> [] \<and> ev_event_kind (hd es) = ''packet_tx_started'' \<and> successively follows es"

text \<open>An attempt record describes a life.\<close>

definition describes :: "attempt \<Rightarrow> packet_attempt_event list \<Rightarrow> bool" where
  "describes a es \<longleftrightarrow> life es \<and> at_first a = hd es \<and> at_last_kind a = ev_event_kind (last es) \<and>
     at_last_time_ps a = ev_event_time_ps (last es) \<and>
     (at_terminal a \<longleftrightarrow> at_last_kind a \<in> {''delivered'', ''dropped''}) \<and>
     geometry (last es) = geometry (at_first a) \<and>
     (carries_data (at_first a) \<longrightarrow> 0 < ev_payload_bytes (at_first a))"

lemma allowed_not_started [simp]: "''packet_tx_started'' \<notin> set (allowed k)"
  by (simp add: allowed_def)

lemma life_snoc:
  "life es \<Longrightarrow> follows (last es) e \<Longrightarrow> life (es @ [e])"
  by (auto simp: life_def successively_append_iff hd_append)

lemma geometry_extent: "geometry d = geometry e \<Longrightarrow> ev_extent_token d = ev_extent_token e"
  by (simp add: geometry_def)

subsection \<open>The invariant\<close>

definition covered :: "packet_port_ledger \<Rightarrow> packet_extent_terminal \<Rightarrow> bool" where
  "covered l t \<longleftrightarrow>
     (\<exists>a. map_of (lg_admissions l) (xt_extent_token t) = Some a \<and>
        list_all at_terminal (children l (xt_extent_token t)) \<and>
        (xt_kind t = ''delivered'' \<longrightarrow> check_coverage a (children l (xt_extent_token t)) = None))"

definition port_inv :: "packet_port_ledger \<Rightarrow> bool" where
  "port_inv l \<longleftrightarrow>
     dict_ok (lg_admissions l) \<and> dict_ok (lg_terminals l) \<and> dict_ok (lg_attempts l) \<and>
     (\<forall>k a. map_of (lg_admissions l) k = Some a \<longrightarrow> xa_extent_token a = k) \<and>
     (\<forall>k t. map_of (lg_terminals l) k = Some t \<longrightarrow> xt_extent_token t = k \<and> covered l t) \<and>
     (\<forall>k. map_of (lg_attempts l) k \<noteq> None \<longrightarrow> map_of (lg_admissions l) k = None) \<and>
     (\<forall>k a. map_of (lg_attempts l) k = Some a \<longrightarrow> describes a (attempt_events l k) \<and>
        map_of (lg_admissions l) (ev_extent_token (at_first a)) \<noteq> None) \<and>
     (\<forall>k. map_of (lg_attempts l) k = None \<longrightarrow> attempt_events l k = []) \<and>
     sorted (map ev_event_time_ps (lg_events l))"

lemma filter_values_update:
  assumes "dict_ok d" "\<not> P v" "\<And>w. map_of d k = Some w \<Longrightarrow> \<not> P w"
  shows "filter P (map snd (AList.update k v d)) = filter P (map snd d)"
  using assms
proof (induction d)
  case (Cons x d)
  then show ?case by (cases x) (auto simp: map_of_eq_None_iff split: if_splits)
qed simp

lemma new_port_ledger_inv: "new_port_ledger c = Inr l \<Longrightarrow> port_inv l"
  by (auto simp: new_port_ledger_def port_inv_def attempt_events_def split: option.splits)

lemma admit_inv:
  assumes "port_inv l" "admit l a = (l', Inr u)"
  shows "port_inv l'"
proof -
  from assms(2) have fresh: "map_of (lg_admissions l) (xa_extent_token a) = None"
    "map_of (lg_attempts l) (xa_extent_token a) = None"
    and l': "l' = l\<lparr>lg_admissions := AList.update (xa_extent_token a) a (lg_admissions l)\<rparr>"
    by (auto simp: admit_def Let_def split: if_splits)
  have ch: "children l' k = children l k" and ev: "attempt_events l' k = attempt_events l k" for k
    by (simp_all add: l' children_def attempt_events_def)
  have "covered l' t" if "covered l t" for t
    using that fresh(1) unfolding covered_def ch by (auto simp: l')
  then show ?thesis
    using assms(1) fresh unfolding port_inv_def ev by (auto simp: l')
qed

lemma retire_inv:
  assumes "port_inv l" "retire l t = (l', Inr u)"
  shows "port_inv l'"
proof -
  from assms(2) have cov: "covered l t"
    and l': "l' = l\<lparr>lg_terminals := AList.update (xt_extent_token t) t (lg_terminals l),
             lg_last_callback_at_ps := max (lg_last_callback_at_ps l) (xt_at_ps t)\<rparr>"
    by (auto simp: retire_def covered_def list_all_iff split: option.splits if_splits)
  have ch: "children l' k = children l k" and ev: "attempt_events l' k = attempt_events l k" for k
    by (simp_all add: l' children_def attempt_events_def)
  have "covered l' s = covered l s" for s unfolding covered_def ch by (simp add: l')
  then show ?thesis
    using assms(1) cov unfolding port_inv_def ev by (auto simp: l')
qed

text \<open>What an accepted event knew.\<close>

lemma observe_parent_None:
  assumes "observe_parent_checks l e = None"
  shows "map_of (lg_admissions l) (ev_extent_token e) \<noteq> None"
    "map_of (lg_terminals l) (ev_extent_token e) = None"
    "lg_events l = [] \<or> ev_event_time_ps (last (lg_events l)) \<le> ev_event_time_ps e"
    "carries_data e \<Longrightarrow> 0 < ev_payload_bytes e"
  using assms by (auto simp: observe_parent_checks_def split: option.splits if_splits)

lemma next_attempt_describes:
  assumes "port_inv l" "observe_parent_checks l e = None" "next_attempt l e = Inr x"
  shows "describes x (attempt_events l (ev_attempt_token e) @ [e])"
    and "ev_extent_token (at_first x) = ev_extent_token e"
    and "map_of (lg_admissions l) (ev_attempt_token e) = None"
proof -
  let ?es = "attempt_events l (ev_attempt_token e)"
  have "describes x (?es @ [e]) \<and> ev_extent_token (at_first x) = ev_extent_token e \<and>
      map_of (lg_admissions l) (ev_attempt_token e) = None"
  proof (cases "map_of (lg_attempts l) (ev_attempt_token e)")
    case None
    with assms(1) have "?es = []" by (simp add: port_inv_def)
    with None assms(3) observe_parent_None(4) [OF assms(2)] show ?thesis
      by (auto simp: next_attempt_def describes_def life_def split: option.splits)
  next
    case (Some a)
    with assms(1) have d: "describes a ?es" "map_of (lg_admissions l) (ev_attempt_token e) = None"
      unfolding port_inv_def by blast+
    from Some assms(3) have c: "geometry (at_first a) = geometry e" "at_last_time_ps a \<le> ev_event_time_ps e"
      "ev_event_kind e \<in> set (allowed (at_last_kind a))"
      and x: "x = a\<lparr>at_last_kind := ev_event_kind e, at_last_time_ps := ev_event_time_ps e,
                    at_terminal := (ev_event_kind e \<in> {''delivered'', ''dropped''})\<rparr>"
      by (auto simp: next_attempt_def split: option.splits)
    have "follows (last ?es) e" using d(1) c by (simp add: follows_def describes_def)
    then have "life (?es @ [e])" using d(1) by (intro life_snoc) (simp_all add: describes_def)
    moreover have "hd (?es @ [e]) = hd ?es" using d(1) by (simp add: describes_def life_def)
    ultimately show ?thesis using d x c geometry_extent [OF c(1)] by (auto simp: describes_def)
  qed
  then show "describes x (?es @ [e])" "ev_extent_token (at_first x) = ev_extent_token e"
    "map_of (lg_admissions l) (ev_attempt_token e) = None" by blast+
qed

lemma observe_children:
  assumes "port_inv l" "next_attempt l e = Inr x" "ev_extent_token (at_first x) = ev_extent_token e"
    and "k \<noteq> ev_extent_token e"
  shows "filter (\<lambda>x. ev_extent_token (at_first x) = k)
      (map snd (AList.update (ev_attempt_token e) x (lg_attempts l))) = children l k"
  unfolding children_def
proof (rule filter_values_update)
  fix w assume w: "map_of (lg_attempts l) (ev_attempt_token e) = Some w"
  with assms(2) have "at_first x = at_first w" by (auto simp: next_attempt_def split: option.splits)
  with assms(3,4) show "ev_extent_token (at_first w) \<noteq> k" by simp
qed (use assms in \<open>auto simp: port_inv_def\<close>)

lemma observe_inv:
  assumes "port_inv l" "observe l e = (l', Inr u)"
  shows "port_inv l'"
proof -
  from assms(2) obtain x where p: "observe_parent_checks l e = None" and n: "next_attempt l e = Inr x"
    and l': "lg_attempts l' = AList.update (ev_attempt_token e) x (lg_attempts l)"
      "lg_events l' = lg_events l @ [e]" "lg_admissions l' = lg_admissions l"
      "lg_terminals l' = lg_terminals l"
    by (auto simp: observe_def split: option.splits sum.splits)
  note d = next_attempt_describes [OF assms(1) p n] and o = observe_parent_None [OF p]
  have ev: "attempt_events l' k =
      (if k = ev_attempt_token e then attempt_events l k @ [e] else attempt_events l k)" for k
    by (simp add: attempt_events_def l'(2))
  have "covered l' t" if "map_of (lg_terminals l) k = Some t" for k t
  proof -
    have t: "xt_extent_token t = k" "covered l t" using that assms(1) by (auto simp: port_inv_def)
    have "k \<noteq> ev_extent_token e" using that o(2) by auto
    then have "children l' k = children l k"
      using observe_children [OF assms(1) n d(2)] by (simp add: children_def l')
    then show ?thesis using t by (simp add: covered_def l')
  qed
  moreover have "sorted (map ev_event_time_ps (lg_events l'))"
    unfolding l' using assms(1) o(3) by (intro sorted_map_snoc) (auto simp: port_inv_def)
  ultimately show ?thesis
    using assms(1) d o(1) unfolding port_inv_def ev by (auto simp: l')
qed

interpretation port: atomic_machine port_step port_inv
proof (unfold_locales, goal_cases)
  case (1 l op l' u)
  then show ?case
    by (cases op) (auto split: option.splits intro: admit_inv observe_inv retire_inv)
next
  case (2 l op l' x)
  then show ?case
    by (cases op) (auto simp: admit_def observe_def retire_def Let_def
        split: option.splits sum.splits if_splits)
qed

subsection \<open>Coverage\<close>

definition in_range :: "int \<Rightarrow> int \<times> int \<times> int \<Rightarrow> bool" where
  "in_range b r = (case r of (_, offset, len) \<Rightarrow> offset \<le> b \<and> b < offset + len)"

definition range_len :: "int \<times> int \<times> int \<Rightarrow> int" where
  "range_len r = snd (snd r)"

lemma coverage_cursor_sum:
  "coverage_cursor c rs = Inr e \<Longrightarrow> e = c + sum_list (map range_len rs)"
  by (induction c rs rule: coverage_cursor.induct) (auto simp: range_len_def split: if_splits)

text \<open>The ranges tile an interval: each of its points is in exactly one, no other point in any.\<close>

definition tiles :: "(int \<times> int \<times> int) list \<Rightarrow> int \<Rightarrow> int \<Rightarrow> bool" where
  "tiles rs c e \<longleftrightarrow> c \<le> e \<and> (\<forall>b. c \<le> b \<and> b < e \<longleftrightarrow> (\<exists>r \<in> set rs. in_range b r)) \<and>
    (\<forall>b r s. r \<in> set rs \<longrightarrow> s \<in> set rs \<longrightarrow> in_range b r \<longrightarrow> in_range b s \<longrightarrow> r = s)"

lemma tiles_Cons:
  assumes "tiles rs (c + n) e" "0 < n"
  shows "tiles ((i, c, n) # rs) c e"
proof -
  have hd: "in_range b (i, c, n) \<longleftrightarrow> c \<le> b \<and> b < c + n" for b by (simp add: in_range_def)
  have e: "c + n \<le> e" and IH: "c + n \<le> b \<and> b < e \<longleftrightarrow> (\<exists>r \<in> set rs. in_range b r)" for b
    using assms(1) unfolding tiles_def by blast+
  have sep: "\<not> in_range b r" if "r \<in> set rs" "in_range b (i, c, n)" for b r
    using that IH [of b] hd [of b] by force
  have "c \<le> b \<and> b < e \<longleftrightarrow> in_range b (i, c, n) \<or> (\<exists>r \<in> set rs. in_range b r)" for b
    unfolding IH [of b, symmetric] hd using e assms(2) by linarith
  moreover have "r = s" if "r \<in> set ((i, c, n) # rs)" "s \<in> set ((i, c, n) # rs)"
    "in_range b r" "in_range b s" for b r s
    using that sep assms(1) unfolding tiles_def by (metis set_ConsD)
  ultimately show ?thesis unfolding tiles_def using e assms(2) by auto
qed

lemma coverage_cursor_tiles:
  "coverage_cursor c rs = Inr e \<Longrightarrow> \<forall>r \<in> set rs. 0 < range_len r \<Longrightarrow> tiles rs c e"
proof (induction c rs rule: coverage_cursor.induct)
  case (2 c i off n rs)
  from 2(2) have off: "off = c" and rest: "coverage_cursor (c + n) rs = Inr e"
    by (simp_all split: if_splits)
  have "tiles rs (c + n) e" using 2(3) by (intro 2(1) [OF off rest]) simp
  then show ?case using 2(3) by (simp add: off tiles_Cons range_len_def)
qed (auto simp: tiles_def)

text \<open>The payload ranges that arrived, of an extent.\<close>

abbreviation arrived :: "packet_port_ledger \<Rightarrow> int \<Rightarrow> (int \<times> int \<times> int) list" where
  "arrived l token \<equiv> delivered_ranges (children l token)"

lemma arrived_pos:
  assumes "port_inv l" "r \<in> set (arrived l k)"
  shows "0 < range_len r"
proof -
  from assms(2) obtain x where x: "x \<in> set (children l k)" "carries_data (at_first x)"
    "range_len r = ev_payload_bytes (at_first x)"
    by (auto simp: delivered_ranges_def range_len_def)
  then obtain tok where "map_of (lg_attempts l) tok = Some x"
    using assms(1) by (auto simp: children_def port_inv_def)
  with assms(1) have "describes x (attempt_events l tok)" by (simp add: port_inv_def)
  with x show ?thesis by (auto simp: describes_def)
qed

lemma delivered_coverage:
  assumes "port_inv l" "map_of (lg_terminals l) k = Some t" "xt_kind t = ''delivered''"
  obtains a where "map_of (lg_admissions l) k = Some a"
    "coverage_cursor 0 (sort_key (\<lambda>(i, offset, _). (offset, i)) (arrived l k)) = Inr (xa_payload_bytes a)"
proof -
  from assms(1,2) have k: "xt_extent_token t = k" and "covered l t" by (auto simp: port_inv_def)
  then obtain a where a: "map_of (lg_admissions l) k = Some a" "check_coverage a (children l k) = None"
    using assms(3) by (auto simp: covered_def)
  then show thesis by (intro that [OF a(1)]) (auto simp: check_coverage_def split: sum.splits)
qed

subsection \<open>Properties\<close>

lemma history_inv: "new_port_ledger c = Inr l0 \<Longrightarrow> reaches port_step l0 l \<Longrightarrow> port_inv l"
  using port.reaches_inv new_port_ledger_inv by blast

definition legal_lives :: "string list list" where
  "legal_lives =
     [[''packet_tx_started''],
      [''packet_tx_started'', ''packet_tx_finished''],
      [''packet_tx_started'', ''packet_tx_finished'', ''packet_rx_arrived''],
      [''packet_tx_started'', ''packet_tx_finished'', ''packet_rx_arrived'', ''delivered''],
      [''packet_tx_started'', ''dropped''],
      [''packet_tx_started'', ''packet_tx_finished'', ''dropped''],
      [''packet_tx_started'', ''packet_tx_finished'', ''packet_rx_arrived'', ''dropped'']]"

lemma life_kinds: "life es \<Longrightarrow> map ev_event_kind es \<in> set legal_lives"
proof -
  assume l: "life es"
  then obtain e1 r1 where 1: "es = e1 # r1" "ev_event_kind e1 = ''packet_tx_started''"
    by (cases es) (auto simp: life_def)
  show ?thesis
  proof (cases r1)
    case Nil
    with 1 show ?thesis by (simp add: legal_lives_def)
  next
    case (Cons e2 r2)
    with l 1 have 2: "ev_event_kind e2 \<in> {''packet_tx_finished'', ''dropped''}" "successively follows (e2 # r2)"
      by (auto simp: life_def follows_def allowed_def)
    show ?thesis
    proof (cases r2)
      case Nil
      with 1 2 Cons show ?thesis by (auto simp: legal_lives_def)
    next
      case (Cons e3 r3)
      with 2 have 3: "ev_event_kind e2 = ''packet_tx_finished''"
        "ev_event_kind e3 \<in> {''packet_rx_arrived'', ''dropped''}" "successively follows (e3 # r3)"
        by (auto simp: follows_def allowed_def split: if_splits)
      show ?thesis
      proof (cases r3)
        case Nil
        with 1 3 Cons \<open>r1 = e2 # r2\<close> show ?thesis by (auto simp: legal_lives_def)
      next
        case (Cons e4 r4)
        with 3 have 4: "ev_event_kind e3 = ''packet_rx_arrived''"
          "ev_event_kind e4 \<in> {''delivered'', ''dropped''}" "successively follows (e4 # r4)"
          by (auto simp: follows_def allowed_def split: if_splits)
        then have "r4 = []" by (cases r4) (auto simp: follows_def allowed_def)
        with 1 3 4 Cons \<open>r2 = e3 # r3\<close> \<open>r1 = e2 # r2\<close> show ?thesis by (auto simp: legal_lives_def)
      qed
    qed
  qed
qed

text \<open>One extent of 8 bytes in two packets, the first of them retransmitted.\<close>

definition ex_context :: packet_port_context where
  "ex_context =
     \<lparr>pc_session_id = ''s'', pc_port_id = ''p'', pc_abi_version = 2, pc_packet_attempt_events = True,
      pc_tx_start_boundary = ''producer_issue'', pc_terminal_boundary = ''transport_retirement'',
      pc_clock_id = ''simulation'', pc_link_ids = [], pc_event_order_evidence = ''live_callbacks'',
      pc_packet_kinds = [''data'', ''retransmission'', ''ack'', ''nak'', ''other_control'']\<rparr>"

definition ex_event :: "int \<Rightarrow> int \<Rightarrow> int \<Rightarrow> string \<Rightarrow> int \<Rightarrow> packet_attempt_event" where
  "ex_event token packet retry kind t =
     \<lparr>ev_attempt_token = token, ev_extent_token = 1, ev_wqe_id = 5, ev_event_kind = kind,
      ev_event_time_ps = t, ev_extent_index = 0, ev_packet_index = packet,
      ev_transmission_attempt = retry, ev_payload_offset_bytes = 4 * packet, ev_payload_bytes = 4,
      ev_wire_bytes = 6, ev_packet_kind = ''data''\<rparr>"

definition ex_port_ops :: "port_op list" where
  "ex_port_ops =
     [Admit \<lparr>xa_extent_token = 1, xa_producer_id = 5, xa_payload_bytes = 8, xa_eligible_at_ps = 0,
             xa_extent_index = 0\<rparr>,
      Observe (ex_event 10 0 0 ''packet_tx_started'' 1), Observe (ex_event 10 0 0 ''dropped'' 2),
      Observe (ex_event 11 0 1 ''packet_tx_started'' 3), Observe (ex_event 11 0 1 ''packet_tx_finished'' 4),
      Observe (ex_event 11 0 1 ''packet_rx_arrived'' 5), Observe (ex_event 11 0 1 ''delivered'' 6),
      Observe (ex_event 12 1 0 ''packet_tx_started'' 6), Observe (ex_event 12 1 0 ''packet_tx_finished'' 7),
      Observe (ex_event 12 1 0 ''packet_rx_arrived'' 8), Observe (ex_event 12 1 0 ''delivered'' 9),
      Retire \<lparr>xt_extent_token = 1, xt_producer_id = 5, xt_kind = ''delivered'', xt_at_ps = 9\<rparr>]"

definition ex_port :: packet_port_ledger where
  "ex_port = projr (new_port_ledger ex_context)"

definition ex_port_end :: packet_port_ledger where
  "ex_port_end = fst (run_all port_step ex_port ex_port_ops)"

lemma ex_port_new: "new_port_ledger ex_context = Inr ex_port"
  unfolding ex_port_def by code_simp

lemma ex_port_run: "run_all port_step ex_port ex_port_ops = (ex_port_end, Inr (replicate 12 ()))"
  unfolding ex_port_end_def by code_simp

lemma ex_port_reaches: "reaches port_step ex_port ex_port_end"
  using ex_port_run reaches_refl by (rule run_all_reaches)

text \<open>
  C8. The lifecycle of an attempt.  Whatever sequence of operations a port has been given,
  accepted or rejected, the events recorded for one attempt token form a legal life: it
  starts once, each later event is the next stage or the drop, nothing follows a terminal
  event, time never goes back within it and its geometry never changes.
\<close>

theorem port_attempt_lifecycle:
  assumes "new_port_ledger c = Inr l0" and "reaches port_step l0 l" and "attempt_events l token \<noteq> []"
  shows "map ev_event_kind (attempt_events l token) \<in> set legal_lives \<and>
    successively follows (attempt_events l token)"
proof -
  have inv: "port_inv l" using assms(1,2) by (rule history_inv)
  then obtain a where "map_of (lg_attempts l) token = Some a"
    using assms(3) by (cases "map_of (lg_attempts l) token") (auto simp: port_inv_def)
  with inv have "life (attempt_events l token)" by (simp add: port_inv_def describes_def)
  then show ?thesis using life_kinds by (auto simp: life_def)
qed

theorem port_attempt_lifecycle_witness:
  "map ev_event_kind (attempt_events ex_port_end 10) = [''packet_tx_started'', ''dropped''] \<and>
   map ev_event_kind (attempt_events ex_port_end 10) \<in> set legal_lives"
proof -
  have "map ev_event_kind (attempt_events ex_port_end 10) = [''packet_tx_started'', ''dropped'']"
    by code_simp
  moreover from this have "attempt_events ex_port_end 10 \<noteq> []" by auto
  ultimately show ?thesis using port_attempt_lifecycle [OF ex_port_new ex_port_reaches] by blast
qed

text \<open>
  C4. Exact payload coverage.  When an extent has been retired as delivered, every byte of
  its admitted payload lies in exactly one of the ranges of its successfully delivered data
  packets, and no such range reaches outside the payload: no gap, no overlap, retransmitted
  copies of a packet counted once.
\<close>

theorem port_delivered_exactly:
  assumes "new_port_ledger c = Inr l0" and "reaches port_step l0 l"
    and "map_of (lg_terminals l) token = Some t" and "xt_kind t = ''delivered''"
  shows "\<exists>a. map_of (lg_admissions l) token = Some a \<and>
    (\<forall>b. 0 \<le> b \<and> b < xa_payload_bytes a \<longrightarrow> (\<exists>!r. r \<in> set (arrived l token) \<and> in_range b r)) \<and>
    (\<forall>b. \<forall>r \<in> set (arrived l token). in_range b r \<longrightarrow> 0 \<le> b \<and> b < xa_payload_bytes a)"
proof -
  have inv: "port_inv l" using assms(1,2) by (rule history_inv)
  obtain a where a: "map_of (lg_admissions l) token = Some a"
    "coverage_cursor 0 (sort_key (\<lambda>(i, offset, _). (offset, i)) (arrived l token)) = Inr (xa_payload_bytes a)"
    using inv assms(3,4) by (rule delivered_coverage)
  have "tiles (sort_key (\<lambda>(i, offset, _). (offset, i)) (arrived l token)) 0 (xa_payload_bytes a)"
    using a(2) arrived_pos [OF inv] by (intro coverage_cursor_tiles) auto
  then have "tiles (arrived l token) 0 (xa_payload_bytes a)" by (simp add: tiles_def)
  then show ?thesis using a(1) unfolding tiles_def by (intro exI [of _ a]) blast
qed

theorem port_delivered_exactly_witness:
  "\<exists>!r. r \<in> set (arrived ex_port_end 1) \<and> in_range 3 r"
proof -
  have "map_of (lg_terminals ex_port_end) 1 =
      Some \<lparr>xt_extent_token = 1, xt_producer_id = 5, xt_kind = ''delivered'', xt_at_ps = 9\<rparr>"
    "map_option xa_payload_bytes (map_of (lg_admissions ex_port_end) 1) = Some 8" by code_simp+
  moreover from this obtain a where a: "map_of (lg_admissions ex_port_end) 1 = Some a" "xa_payload_bytes a = 8"
    by auto
  ultimately have "\<forall>b. 0 \<le> b \<and> b < 8 \<longrightarrow> (\<exists>!r. r \<in> set (arrived ex_port_end 1) \<and> in_range b r)"
    using port_delivered_exactly [OF ex_port_new ex_port_reaches, of 1] by simp
  then show ?thesis by (elim allE [of _ 3]) simp
qed

text \<open>
  The delivered byte count is earned.  The payload bytes a snapshot reports as delivered
  are the sum, over the extents retired as delivered, of the lengths of the distinct payload
  ranges that arrived for them.
\<close>

theorem port_delivered_bytes:
  assumes "new_port_ledger c = Inr l0" and "reaches port_step l0 l" and "snapshot l final = Inr s"
  shows "sn_delivered_payload_bytes s =
    (\<Sum>(token, t) \<leftarrow> filter (\<lambda>(_, t). xt_kind t = ''delivered'') (lg_terminals l).
       sum_list (map range_len (arrived l token)))"
proof -
  have inv: "port_inv l" using assms(1,2) by (rule history_inv)
  have "(case map_of (lg_admissions l) token of None \<Rightarrow> 0 | Some a \<Rightarrow> xa_payload_bytes a) =
      sum_list (map range_len (arrived l token))"
    if "(token, t) \<in> set (lg_terminals l)" "xt_kind t = ''delivered''" for token t
  proof -
    have "map_of (lg_terminals l) token = Some t" using that(1) inv by (simp add: port_inv_def)
    from inv this that(2) obtain a where a: "map_of (lg_admissions l) token = Some a"
      and c: "coverage_cursor 0 (sort_key (\<lambda>(i, offset, _). (offset, i)) (arrived l token)) =
        Inr (xa_payload_bytes a)" by (rule delivered_coverage)
    have "xa_payload_bytes a =
        sum_list (map range_len (sort_key (\<lambda>(i, offset, _). (offset, i)) (arrived l token)))"
      using coverage_cursor_sum [OF c] by simp
    also have "\<dots> = sum_list (map range_len (arrived l token))" by (rule sum_list_sort_key)
    finally show ?thesis using a by simp
  qed
  then have "map (\<lambda>(token, _). case map_of (lg_admissions l) token of None \<Rightarrow> 0 | Some a \<Rightarrow> xa_payload_bytes a)
        (filter (\<lambda>(_, t). xt_kind t = ''delivered'') (lg_terminals l)) =
      map (\<lambda>(token, t). sum_list (map range_len (arrived l token)))
        (filter (\<lambda>(_, t). xt_kind t = ''delivered'') (lg_terminals l))"
    by (intro map_cong) auto
  moreover have "sn_delivered_payload_bytes s =
      sum_list (map (\<lambda>(token, _). case map_of (lg_admissions l) token of None \<Rightarrow> 0 | Some a \<Rightarrow> xa_payload_bytes a)
        (filter (\<lambda>(_, t). xt_kind t = ''delivered'') (lg_terminals l)))"
    using assms(3) by (auto simp: snapshot_def Let_def split: if_splits)
  ultimately show ?thesis by (simp only:)
qed

theorem port_delivered_bytes_witness:
  "sn_delivered_payload_bytes (projr (snapshot ex_port_end True)) = 8"
proof -
  have 1: "snapshot ex_port_end True = Inr (projr (snapshot ex_port_end True))" by code_simp
  have "(\<Sum>(token, t) \<leftarrow> filter (\<lambda>(_, t). xt_kind t = ''delivered'') (lg_terminals ex_port_end).
       sum_list (map range_len (arrived ex_port_end token))) = 8" by code_simp
  then show ?thesis using port_delivered_bytes [OF ex_port_new ex_port_reaches 1] by simp
qed

subsection \<open>The legacy batch adapter\<close>

lemma admit_issued_effect:
  assumes "admit_issued l n rs = Inr l'" "port_inv l"
  shows "port_inv l' \<and> lg_events l' = lg_events l \<and> lg_terminals l' = lg_terminals l \<and>
    map fst (lg_admissions l') = map fst (lg_admissions l) @ map is_token rs"
  using assms
proof (induction rs arbitrary: l n)
  case (Cons r rs)
  let ?a = "\<lparr>xa_extent_token = is_token r, xa_producer_id = is_wqe_id r,
    xa_payload_bytes = is_payload_bytes r, xa_eligible_at_ps = is_accepted_at_ps r, xa_extent_index = 0\<rparr>"
  from Cons.prems(1) obtain m u where s: "port_step l (Admit ?a) = (m, Inr u)"
    and rest: "admit_issued m (is_accepted_at_ps r) rs = Inr l'"
    by (auto simp del: port_step.simps split: prod.splits sum.splits option.splits)
  then have m: "m = l\<lparr>lg_admissions := AList.update (is_token r) ?a (lg_admissions l)\<rparr>"
    and f: "map_of (lg_admissions l) (is_token r) = None"
    by (auto simp: admit_def Let_def split: option.splits if_splits)
  have "port_inv m" using Cons.prems(2) s by (rule port.accept_inv)
  from Cons.IH [OF rest this] show ?case
    using f by (simp add: m update_append_fresh map_of_eq_None_iff)
qed simp

lemma observe_all_effect:
  "run_all (\<lambda>l e. port_step l (Observe e)) l es = (l', Inr us) \<Longrightarrow> port_inv l \<Longrightarrow>
   port_inv l' \<and> lg_events l' = lg_events l @ es \<and> lg_terminals l' = lg_terminals l \<and>
   lg_admissions l' = lg_admissions l"
proof (induction es arbitrary: l us)
  case (Cons e es)
  from Cons.prems(1) obtain m u vs where s: "port_step l (Observe e) = (m, Inr u)"
    and rest: "run_all (\<lambda>l e. port_step l (Observe e)) m es = (l', Inr vs)"
    unfolding run_all_Cons_Inr by blast
  have "lg_events m = lg_events l @ [e]" "lg_terminals m = lg_terminals l" "lg_admissions m = lg_admissions l"
    using s by (auto simp: observe_def split: option.splits sum.splits)
  moreover have "port_inv m" using Cons.prems(2) s by (rule port.accept_inv)
  ultimately show ?case using Cons.IH [OF rest] by simp
qed simp

lemma retire_rows_effect:
  "retire_rows l n ts = Inr l' \<Longrightarrow> port_inv l \<Longrightarrow>
   port_inv l' \<and> lg_events l' = lg_events l \<and> lg_admissions l' = lg_admissions l \<and>
   lg_terminals l' = lg_terminals l @ map (\<lambda>t. (xt_extent_token t, t)) ts"
proof (induction ts arbitrary: l n)
  case (Cons t ts)
  from Cons.prems(1) obtain m u where c: "check_terminal t = None" and s: "retire l t = (m, Inr u)"
    and rest: "retire_rows m (xt_at_ps t) ts = Inr l'"
    by (auto split: prod.splits sum.splits option.splits if_splits)
  have f: "map_of (lg_terminals l) (xt_extent_token t) = None"
    and m: "m = l\<lparr>lg_terminals := AList.update (xt_extent_token t) t (lg_terminals l),
              lg_last_callback_at_ps := max (lg_last_callback_at_ps l) (xt_at_ps t)\<rparr>"
    using s by (auto simp: retire_def split: option.splits)
  have "port_inv m" using Cons.prems(2) s by (rule retire_inv)
  from Cons.IH [OF rest this] show ?case
    using f by (simp add: m update_append_fresh map_of_eq_None_iff)
qed simp

text \<open>
  The batch adapter vouches for a complete record.  When
  \<open>validate_packet_observation\<close> accepts the native arrays, the ledger it returns holds
  exactly their packet events and terminals in order, the issued tokens are distinct and
  each of them is retired exactly once, no attempt is left outstanding, and the array of
  live tokens is empty.
\<close>

theorem validated_observation_complete:
  assumes "validate_packet_observation port c = Inr l"
  shows "lg_events l = po_packet_events port \<and> map snd (lg_terminals l) = po_terminals port \<and>
    distinct (map is_token (po_issued port)) \<and> distinct (map xt_extent_token (po_terminals port)) \<and>
    set (map xt_extent_token (po_terminals port)) = set (map is_token (po_issued port)) \<and>
    (\<forall>(token, a) \<in> set (lg_attempts l). at_terminal a) \<and> po_live_tokens port = []"
proof -
  from assms obtain l0 l1 l2 us s where
    0: "new_port_ledger (c\<lparr>pc_event_order_evidence := ''separate_arrays''\<rparr>) = Inr l0"
    and 1: "admit_issued l0 0 (po_issued port) = Inr l1"
    and 2: "run_all (\<lambda>l e. port_step l (Observe e)) l1 (po_packet_events port) = (l2, Inr us)"
    and 3: "retire_rows l2 0 (po_terminals port) = Inr l" and sn: "snapshot l True = Inr s"
    and live: "po_live_tokens port = sn_live_extent_tokens s"
    by (auto simp: validate_packet_observation_def split: sum.splits prod.splits if_splits)
  have l0: "port_inv l0" "lg_events l0 = []" "lg_terminals l0 = []" "lg_admissions l0 = []"
    using new_port_ledger_inv [OF 0] 0 by (auto simp: new_port_ledger_def split: option.splits)
  note e1 = admit_issued_effect [OF 1 l0(1)]
  note e2 = observe_all_effect [OF 2 conjunct1 [OF e1]]
  note e3 = retire_rows_effect [OF 3 conjunct1 [OF e2]]
  have ev: "lg_events l = po_packet_events port" and
    tm: "lg_terminals l = map (\<lambda>t. (xt_extent_token t, t)) (po_terminals port)" and
    ad: "map fst (lg_admissions l) = map is_token (po_issued port)"
    using e1 e2 e3 l0 by auto
  have inv: "port_inv l" using e3 by blast
  then have "dict_ok (lg_admissions l)" "dict_ok (lg_terminals l)" unfolding port_inv_def by blast+
  then have d: "distinct (map is_token (po_issued port))" "distinct (map xt_extent_token (po_terminals port))"
    unfolding ad by (simp_all add: tm comp_def)
  have sub: "fst ` set (lg_terminals l) \<subseteq> fst ` set (lg_admissions l)"
  proof
    fix k assume "k \<in> fst ` set (lg_terminals l)"
    then obtain t where "map_of (lg_terminals l) k = Some t"
      by (metis map_of_eq_None_iff not_None_eq)
    with inv have "xt_extent_token t = k" "covered l t" unfolding port_inv_def by blast+
    then show "k \<in> fst ` set (lg_admissions l)"
      by (auto simp: covered_def dest: map_of_SomeD intro: rev_image_eqI)
  qed
  from sn have le: "set (map fst (lg_admissions l)) - set (map fst (lg_terminals l)) = {}"
    and at: "set (map fst (lg_attempts l)) \<subseteq> set (map fst (filter (\<lambda>(_, x). at_terminal x) (lg_attempts l)))"
    by (auto simp: snapshot_def Let_def split: if_splits)
  have "sn_live_extent_tokens s = []"
    using sn le by (auto simp: snapshot_def Let_def split: if_splits)
  moreover have "fst ` set (lg_terminals l) = fst ` set (lg_admissions l)" using sub le by auto
  then have "set (map xt_extent_token (po_terminals port)) = set (map is_token (po_issued port))"
    using ad tm by (metis (no_types, lifting) image_set map_map fst_conv comp_apply map_eq_conv)
  moreover have "at_terminal a" if ka: "(k, a) \<in> set (lg_attempts l)" for k a
  proof -
    have "k \<in> set (map fst (filter (\<lambda>(_, x). at_terminal x) (lg_attempts l)))"
      using at ka by force
    then obtain b where "(k, b) \<in> set (lg_attempts l)" "at_terminal b" by auto
    moreover have "dict_ok (lg_attempts l)" using inv by (simp add: port_inv_def)
    ultimately show ?thesis using ka by (metis eq_key_imp_eq_value)
  qed
  ultimately show ?thesis using ev tm d live by (auto simp: comp_def)
qed

definition ex_observation :: packet_observation where
  "ex_observation =
     \<lparr>po_issued = [\<lparr>is_token = 1, is_wqe_id = 5, is_accepted_at_ps = 0, is_port_tx_at_ps = 1,
                    is_payload_bytes = 8\<rparr>],
      po_packet_events = lg_events ex_port_end, po_terminals = map snd (lg_terminals ex_port_end),
      po_live_tokens = []\<rparr>"

theorem validated_observation_complete_witness:
  "set (map xt_extent_token (po_terminals ex_observation)) = {1}"
proof -
  have "validate_packet_observation ex_observation ex_context =
      Inr (projr (validate_packet_observation ex_observation ex_context))" by code_simp
  note e = validated_observation_complete [OF this]
  have "map is_token (po_issued ex_observation) = [1]" by (simp add: ex_observation_def)
  then show ?thesis using e by simp
qed

text \<open>
  Rejection is atomic.  An operation that a port rejects, whatever the ledger and
  whatever the check that failed, leaves the ledger exactly as it was.
\<close>

theorem port_rejects_atomically:
  assumes "port_step l op = (l', Inl x)"
  shows "l' = l"
  using assms by (rule port.reject_unchanged)

theorem port_rejects_atomically_witness:
  "fst (port_step ex_port_end (Observe (ex_event 12 1 0 ''dropped'' 10))) = ex_port_end"
proof -
  have "port_step ex_port_end (Observe (ex_event 12 1 0 ''dropped'' 10)) =
      (fst (port_step ex_port_end (Observe (ex_event 12 1 0 ''dropped'' 10))), Inl FollowsRetirement)"
    by code_simp
  then show ?thesis by (rule port_rejects_atomically)
qed

end
