(* ===== verification/Step.thy ===== *)
theory Step
  imports Execution
begin

text \<open>
  The scheduler-step records of \<open>simllm/core/step.py\<close>: what a frontend asks for in one
  engine step, what the core answers, and the JSON form in which records cross a process
  boundary.  The dataclass constructors are the \<open>check_*\<close> functions (\<open>None\<close> when the
  object can be built); the type checks among them hold by typing.
\<close>

subsection \<open>Records\<close>

datatype step_error =
    StepBlankText | StepBelowMinimum | EmptyTensorShape | PayloadShapeMismatch | HalfLayerIdentity
  | UnsupportedSchema | EmptyCapture | SequenceNotContiguous
  | SampledOutOfRange | PaddingBelowTokens | BlankSampledId | DuplicateSampledId
  | UnscheduledSampledId | SampledCardinality
  | NegativeMetric | ZeroTokenIndex | AttributionMismatch | DuplicateMetric | MetricAfterResult
  | MissingKey string | WrongJsonType | UnknownPhase

datatype request_phase = PREFILL | DECODE

record scheduled_request =
  sr_request_id :: string
  sr_phase :: request_phase
  sr_num_new_tokens :: int
  sr_num_cached_tokens :: int
  sr_context_length :: int

definition require_nonblank_string :: "string \<Rightarrow> step_error option" where
  "require_nonblank_string s = guard (nonblank s) StepBlankText"

definition require_plain_int :: "int \<Rightarrow> int \<Rightarrow> step_error option" where
  "require_plain_int minimum n = guard (minimum \<le> n) StepBelowMinimum"

record collective_service_environment =
  ce_system :: string
  ce_backend :: string
  ce_device_type :: string
  ce_framework :: string
  ce_framework_version :: string
  ce_timer :: string

definition check_service_environment :: "collective_service_environment \<Rightarrow> step_error option" where
  "check_service_environment e =
     first_err (map require_nonblank_string
       [ce_system e, ce_backend e, ce_device_type e, ce_framework e, ce_framework_version e, ce_timer e])"

record collective_service_invocation =
  ci_sequence :: int
  ci_kind :: string
  ci_payload_bytes :: int
  ci_world_size :: int
  ci_dtype :: string
  ci_element_width_bytes :: int
  ci_tensor_shape :: "int list"
  ci_group_tag :: string
  ci_service_ps :: int
  ci_layer_index :: "int option"
  ci_layer_name :: "string option"

definition check_service_invocation :: "collective_service_invocation \<Rightarrow> step_error option" where
  "check_service_invocation i =
     first_err
       ([require_plain_int 0 (ci_sequence i), require_nonblank_string (ci_kind i),
         require_plain_int 1 (ci_payload_bytes i), require_plain_int 2 (ci_world_size i),
         require_nonblank_string (ci_dtype i), require_plain_int 1 (ci_element_width_bytes i),
         guard (ci_tensor_shape i \<noteq> []) EmptyTensorShape]
        @ map (require_plain_int 1) (ci_tensor_shape i)
        @ [guard (prod_list (ci_tensor_shape i) * ci_element_width_bytes i = ci_payload_bytes i)
             PayloadShapeMismatch,
           require_nonblank_string (ci_group_tag i), require_plain_int 1 (ci_service_ps i),
           case ci_layer_index i of None \<Rightarrow> None | Some n \<Rightarrow> require_plain_int 0 n,
           case ci_layer_name i of None \<Rightarrow> None | Some s \<Rightarrow> require_nonblank_string s,
           guard ((ci_layer_index i = None) = (ci_layer_name i = None)) HalfLayerIdentity])"

definition collective_service_schema :: string where
  "collective_service_schema = ''simllm-collective-service-v1''"

record collective_service_capture =
  cc_environment :: collective_service_environment
  cc_invocations :: "collective_service_invocation list"
  cc_schema :: string

text \<open>The environment and the invocations are constructed, and so checked, before the capture.\<close>

definition check_service_capture :: "collective_service_capture \<Rightarrow> step_error option" where
  "check_service_capture c =
     first_err
       [guard (cc_schema c = collective_service_schema) UnsupportedSchema,
        guard (cc_invocations c \<noteq> []) EmptyCapture,
        guard (map ci_sequence (cc_invocations c) = map int [0..<length (cc_invocations c)])
          SequenceNotContiguous]"

record step_record =
  st_step_index :: int
  st_virtual_time_ps :: int
  st_scheduled :: "scheduled_request list"
  st_preempted_request_ids :: "string list"
  st_finished_request_ids :: "string list"
  st_num_sampled :: "int option"
  st_num_tokens_after_padding :: "int option"
  st_sampled_request_ids :: "string list option"
  st_collective_service :: "collective_service_capture option"

definition total_new_tokens :: "step_record \<Rightarrow> int" where
  "total_new_tokens r = sum_list (map sr_num_new_tokens (st_scheduled r))"

definition check_step_record :: "step_record \<Rightarrow> step_error option" where
  "check_step_record r =
     first_err
       [case st_num_sampled r of None \<Rightarrow> None
        | Some n \<Rightarrow> guard (0 \<le> n \<and> n \<le> int (length (st_scheduled r))) SampledOutOfRange,
        case st_num_tokens_after_padding r of None \<Rightarrow> None
        | Some n \<Rightarrow> guard (total_new_tokens r \<le> n) PaddingBelowTokens,
        case st_sampled_request_ids r of None \<Rightarrow> None
        | Some ids \<Rightarrow>
            first_err
              [guard (list_all nonblank ids) BlankSampledId,
               guard (distinct ids) DuplicateSampledId,
               guard (set ids \<subseteq> set (map sr_request_id (st_scheduled r))) UnscheduledSampledId,
               case st_num_sampled r of None \<Rightarrow> None
               | Some n \<Rightarrow> guard (int (length ids) = n) SampledCardinality]]"

subsection \<open>Latency accounting\<close>

definition require_nonnegative_int :: "int \<Rightarrow> step_error option" where
  "require_nonnegative_int n = guard (0 \<le> n) NegativeMetric"

record latency_attribution =
  la_queue_ps :: int
  la_kv_ps :: int
  la_kernel_ps :: int
  la_dma_ps :: int
  la_collective_ps :: int
  la_nic_ps :: int
  la_control_ps :: int

definition check_attribution :: "latency_attribution \<Rightarrow> step_error option" where
  "check_attribution a =
     first_err (map require_nonnegative_int
       [la_queue_ps a, la_kv_ps a, la_kernel_ps a, la_dma_ps a, la_collective_ps a, la_nic_ps a,
        la_control_ps a])"

definition attribution_total_ps :: "latency_attribution \<Rightarrow> int" where
  "attribution_total_ps a =
     la_queue_ps a + la_kv_ps a + la_kernel_ps a + la_dma_ps a + la_collective_ps a + la_nic_ps a
     + la_control_ps a"

definition zero_attribution :: latency_attribution where
  "zero_attribution =
     \<lparr>la_queue_ps = 0, la_kv_ps = 0, la_kernel_ps = 0, la_dma_ps = 0, la_collective_ps = 0,
      la_nic_ps = 0, la_control_ps = 0\<rparr>"

definition add_attribution :: "latency_attribution \<Rightarrow> latency_attribution \<Rightarrow> latency_attribution" where
  "add_attribution a b =
     \<lparr>la_queue_ps = la_queue_ps a + la_queue_ps b, la_kv_ps = la_kv_ps a + la_kv_ps b,
      la_kernel_ps = la_kernel_ps a + la_kernel_ps b, la_dma_ps = la_dma_ps a + la_dma_ps b,
      la_collective_ps = la_collective_ps a + la_collective_ps b,
      la_nic_ps = la_nic_ps a + la_nic_ps b, la_control_ps = la_control_ps a + la_control_ps b\<rparr>"

record additive_visit_totals =
  av_queue_wait_ps :: int
  av_service_ps :: int
  av_visibility_ps :: int
  av_visit_count :: int

definition check_visit_totals :: "additive_visit_totals \<Rightarrow> step_error option" where
  "check_visit_totals v =
     first_err (map require_nonnegative_int
       [av_queue_wait_ps v, av_service_ps v, av_visibility_ps v, av_visit_count v])"

definition visit_total_ps :: "additive_visit_totals \<Rightarrow> int" where
  "visit_total_ps v = av_queue_wait_ps v + av_service_ps v + av_visibility_ps v"

definition zero_visit_totals :: additive_visit_totals where
  "zero_visit_totals =
     \<lparr>av_queue_wait_ps = 0, av_service_ps = 0, av_visibility_ps = 0, av_visit_count = 0\<rparr>"

definition add_visit_totals ::
    "additive_visit_totals \<Rightarrow> additive_visit_totals \<Rightarrow> additive_visit_totals" where
  "add_visit_totals v w =
     \<lparr>av_queue_wait_ps = av_queue_wait_ps v + av_queue_wait_ps w,
      av_service_ps = av_service_ps v + av_service_ps w,
      av_visibility_ps = av_visibility_ps v + av_visibility_ps w,
      av_visit_count = av_visit_count v + av_visit_count w\<rparr>"

record request_metric =
  rm_request_id :: string
  rm_phase :: request_phase
  rm_token_index :: int
  rm_completed_at_ps :: int
  rm_latency_ps :: int
  rm_ttft_ps :: int
  rm_tpot_ps :: "rat option"
  rm_attribution :: latency_attribution
  rm_additive_visit_totals :: additive_visit_totals

definition check_request_metric :: "request_metric \<Rightarrow> step_error option" where
  "check_request_metric m =
     first_err
       [require_nonblank_string (rm_request_id m),
        require_nonnegative_int (rm_token_index m),
        guard (rm_token_index m \<noteq> 0) ZeroTokenIndex,
        require_nonnegative_int (rm_completed_at_ps m),
        require_nonnegative_int (rm_latency_ps m),
        require_nonnegative_int (rm_ttft_ps m),
        case rm_tpot_ps m of None \<Rightarrow> None | Some q \<Rightarrow> guard (0 \<le> q) NegativeMetric,
        guard (attribution_total_ps (rm_attribution m) = rm_latency_ps m) AttributionMismatch]"

record step_result =
  re_step_index :: int
  re_step_latency_ps :: int
  re_completed_at_ps :: int
  re_request_metrics :: "request_metric list"
  re_additive_visit_totals :: "additive_visit_totals option"

definition check_step_result :: "step_result \<Rightarrow> step_error option" where
  "check_step_result r =
     first_err
       [require_nonnegative_int (re_step_index r),
        require_nonnegative_int (re_step_latency_ps r),
        require_nonnegative_int (re_completed_at_ps r),
        guard (distinct (map rm_request_id (re_request_metrics r))) DuplicateMetric,
        guard (list_all (\<lambda>m. rm_completed_at_ps m \<le> re_completed_at_ps r) (re_request_metrics r))
          MetricAfterResult]"

text \<open>
  Totals that add up: both accountings are sums of components, and a step's totals are folded
  out of the totals of its parts.
\<close>

locale additive_totals =
  fixes zero :: 'a and add :: "'a \<Rightarrow> 'a \<Rightarrow> 'a" and total :: "'a \<Rightarrow> int" and ok :: "'a \<Rightarrow> bool"
  assumes total_zero: "total zero = 0" and total_add: "total (add a b) = total a + total b"
    and ok_zero: "ok zero" and ok_add: "ok a \<Longrightarrow> ok b \<Longrightarrow> ok (add a b)"
    and ok_total: "ok a \<Longrightarrow> 0 \<le> total a"
begin

lemma total_foldl: "total (foldl add a xs) = total a + sum_list (map total xs)"
  by (induction xs arbitrary: a) (simp_all add: total_add)

lemma ok_foldl: "ok a \<Longrightarrow> list_all ok xs \<Longrightarrow> ok (foldl add a xs)"
  by (induction xs arbitrary: a) (simp_all add: ok_add)

lemma folded_totals:
  assumes "list_all ok xs"
  shows "ok (foldl add zero xs) \<and> total (foldl add zero xs) = sum_list (map total xs) \<and>
    (\<forall>x. x \<in> set xs \<longrightarrow> total x \<le> total (foldl add zero xs))"
proof -
  have "total x \<le> sum_list (map total xs)" if "x \<in> set xs" for x
    using that assms by (intro member_le_sum_list) (auto simp: list_all_iff intro: ok_total)
  then show ?thesis using ok_foldl [OF ok_zero assms] by (simp add: total_foldl total_zero)
qed

end

interpretation attribution: additive_totals zero_attribution add_attribution attribution_total_ps
  "\<lambda>a. check_attribution a = None"
  by unfold_locales
    (auto simp: zero_attribution_def add_attribution_def attribution_total_ps_def check_attribution_def
      require_nonnegative_int_def)

interpretation visits: additive_totals zero_visit_totals add_visit_totals visit_total_ps
  "\<lambda>v. check_visit_totals v = None"
  by unfold_locales
    (auto simp: zero_visit_totals_def add_visit_totals_def visit_total_ps_def check_visit_totals_def
      require_nonnegative_int_def)

end
