(* ===== verification/Step_Json.thy ===== *)
theory Step_Json
  imports Step
begin

text \<open>
  The JSON form of a step record (\<open>step_record_to_json\<close> and \<open>step_record_from_json\<close> of
  \<open>simllm/core/step.py\<close>) and its round trip.  A JSON object keeps its keys in order.  The
  reader is typed: where Python would hand a value of another JSON type on to the record,
  the model raises \<open>WrongJsonType\<close>.
\<close>

datatype json =
    JNull | JBool bool | JInt int | JFloat rat | JNonFinite | JStr string | JArray "json list" | JObject "(string \<times> json) list"

definition step_schema :: string where
  "step_schema = ''atlahs-closed-loop-step-v1''"

fun phase_value :: "request_phase \<Rightarrow> string" where
  "phase_value PREFILL = ''prefill''"
| "phase_value DECODE = ''decode''"

definition request_phase_of :: "string \<Rightarrow> step_error + request_phase" where
  "request_phase_of s =
     (if s = ''prefill'' then Inr PREFILL else if s = ''decode'' then Inr DECODE else Inl UnknownPhase)"

subsection \<open>Writing\<close>

definition scheduled_to_json :: "scheduled_request \<Rightarrow> json" where
  "scheduled_to_json r =
     JObject [(''request_id'', JStr (sr_request_id r)), (''phase'', JStr (phase_value (sr_phase r))),
       (''num_new_tokens'', JInt (sr_num_new_tokens r)),
       (''num_cached_tokens'', JInt (sr_num_cached_tokens r)),
       (''context_length'', JInt (sr_context_length r))]"

definition environment_to_json :: "collective_service_environment \<Rightarrow> json" where
  "environment_to_json e =
     JObject [(''system'', JStr (ce_system e)), (''backend'', JStr (ce_backend e)),
       (''device_type'', JStr (ce_device_type e)), (''framework'', JStr (ce_framework e)),
       (''framework_version'', JStr (ce_framework_version e)), (''timer'', JStr (ce_timer e))]"

definition opt_int :: "int option \<Rightarrow> json" where
  "opt_int ob = (case ob of None \<Rightarrow> JNull | Some n \<Rightarrow> JInt n)"

definition opt_str :: "string option \<Rightarrow> json" where
  "opt_str ob = (case ob of None \<Rightarrow> JNull | Some s \<Rightarrow> JStr s)"

definition invocation_to_json :: "collective_service_invocation \<Rightarrow> json" where
  "invocation_to_json i =
     JObject ([(''sequence'', JInt (ci_sequence i)), (''kind'', JStr (ci_kind i)),
       (''payload_bytes'', JInt (ci_payload_bytes i)), (''world_size'', JInt (ci_world_size i)),
       (''dtype'', JStr (ci_dtype i)), (''element_width_bytes'', JInt (ci_element_width_bytes i)),
       (''tensor_shape'', JArray (map JInt (ci_tensor_shape i))),
       (''group_tag'', JStr (ci_group_tag i)), (''service_ps'', JInt (ci_service_ps i))]
      @ (if ci_layer_index i \<noteq> None
         then [(''layer_index'', opt_int (ci_layer_index i)), (''layer_name'', opt_str (ci_layer_name i))]
         else []))"

definition capture_to_json :: "collective_service_capture \<Rightarrow> json" where
  "capture_to_json c =
     JObject [(''schema'', JStr (cc_schema c)), (''environment'', environment_to_json (cc_environment c)),
       (''invocations'', JArray (map invocation_to_json (cc_invocations c)))]"

definition step_record_to_json :: "step_record \<Rightarrow> json" where
  "step_record_to_json r =
     JObject ([(''schema'', JStr step_schema), (''step_index'', JInt (st_step_index r)),
       (''virtual_time_ps'', JInt (st_virtual_time_ps r)),
       (''scheduled'', JArray (map scheduled_to_json (st_scheduled r))),
       (''preempted_request_ids'', JArray (map JStr (st_preempted_request_ids r))),
       (''finished_request_ids'', JArray (map JStr (st_finished_request_ids r)))]
      @ (case st_num_sampled r of None \<Rightarrow> [] | Some n \<Rightarrow> [(''num_sampled'', JInt n)])
      @ (case st_num_tokens_after_padding r of None \<Rightarrow> []
         | Some n \<Rightarrow> [(''num_tokens_after_padding'', JInt n)])
      @ (case st_sampled_request_ids r of None \<Rightarrow> []
         | Some ids \<Rightarrow> [(''sampled_request_ids'', JArray (map JStr ids))])
      @ (case st_collective_service r of None \<Rightarrow> []
         | Some c \<Rightarrow> [(''collective_service'', capture_to_json c)]))"

subsection \<open>Reading\<close>

definition as_str :: "json \<Rightarrow> step_error + string" where
  "as_str j = (case j of JStr s \<Rightarrow> Inr s | _ \<Rightarrow> Inl WrongJsonType)"

definition as_int :: "json \<Rightarrow> step_error + int" where
  "as_int j = (case j of JInt n \<Rightarrow> Inr n | _ \<Rightarrow> Inl WrongJsonType)"

definition as_array :: "json \<Rightarrow> step_error + json list" where
  "as_array j = (case j of JArray xs \<Rightarrow> Inr xs | _ \<Rightarrow> Inl WrongJsonType)"

definition as_object :: "json \<Rightarrow> step_error + (string \<times> json) list" where
  "as_object j = (case j of JObject kvs \<Rightarrow> Inr kvs | _ \<Rightarrow> Inl WrongJsonType)"

definition as_opt :: "(json \<Rightarrow> step_error + 'a) \<Rightarrow> json \<Rightarrow> step_error + 'a option" where
  "as_opt f j = (if j = JNull then Inr None else rbind (f j) (\<lambda>a. Inr (Some a)))"

text \<open>\<open>d[k]\<close> raises on a missing key, \<open>d.get(k, d)\<close> returns the default.\<close>

definition item :: "(string \<times> json) list \<Rightarrow> string \<Rightarrow> step_error + json" where
  "item kvs k = (case map_of kvs k of None \<Rightarrow> Inl (MissingKey k) | Some j \<Rightarrow> Inr j)"

definition get_item :: "(string \<times> json) list \<Rightarrow> string \<Rightarrow> json \<Rightarrow> json" where
  "get_item kvs k d = (case map_of kvs k of None \<Rightarrow> d | Some j \<Rightarrow> j)"

abbreviation int_item :: "(string \<times> json) list \<Rightarrow> string \<Rightarrow> step_error + int" where
  "int_item kvs k \<equiv> rbind (item kvs k) as_int"

abbreviation str_item :: "(string \<times> json) list \<Rightarrow> string \<Rightarrow> step_error + string" where
  "str_item kvs k \<equiv> rbind (item kvs k) as_str"

definition scheduled_from_json :: "json \<Rightarrow> step_error + scheduled_request" where
  "scheduled_from_json j =
     rbind (as_object j) (\<lambda>kvs.
     rbind (str_item kvs ''request_id'') (\<lambda>rid.
     rbind (rbind (str_item kvs ''phase'') request_phase_of) (\<lambda>ph.
     rbind (int_item kvs ''num_new_tokens'') (\<lambda>n.
     rbind (as_int (get_item kvs ''num_cached_tokens'' (JInt 0))) (\<lambda>c.
     rbind (as_int (get_item kvs ''context_length'' (JInt 0))) (\<lambda>len.
       Inr \<lparr>sr_request_id = rid, sr_phase = ph, sr_num_new_tokens = n, sr_num_cached_tokens = c,
            sr_context_length = len\<rparr>))))))"

definition environment_from_json :: "json \<Rightarrow> step_error + collective_service_environment" where
  "environment_from_json j =
     rbind (as_object j) (\<lambda>kvs.
     rbind (str_item kvs ''system'') (\<lambda>s.
     rbind (str_item kvs ''backend'') (\<lambda>b.
     rbind (str_item kvs ''device_type'') (\<lambda>d.
     rbind (str_item kvs ''framework'') (\<lambda>f.
     rbind (str_item kvs ''framework_version'') (\<lambda>v.
     rbind (str_item kvs ''timer'') (\<lambda>t.
       let e = \<lparr>ce_system = s, ce_backend = b, ce_device_type = d, ce_framework = f,
                ce_framework_version = v, ce_timer = t\<rparr>
       in constructed (check_service_environment e) e)))))))"

definition invocation_from_json :: "json \<Rightarrow> step_error + collective_service_invocation" where
  "invocation_from_json j =
     rbind (as_object j) (\<lambda>kvs.
     rbind (int_item kvs ''sequence'') (\<lambda>q.
     rbind (str_item kvs ''kind'') (\<lambda>k.
     rbind (int_item kvs ''payload_bytes'') (\<lambda>p.
     rbind (int_item kvs ''world_size'') (\<lambda>w.
     rbind (str_item kvs ''dtype'') (\<lambda>d.
     rbind (int_item kvs ''element_width_bytes'') (\<lambda>e.
     rbind (rbind (rbind (item kvs ''tensor_shape'') as_array) (collect as_int)) (\<lambda>shape.
     rbind (str_item kvs ''group_tag'') (\<lambda>g.
     rbind (int_item kvs ''service_ps'') (\<lambda>s.
     rbind (as_opt as_int (get_item kvs ''layer_index'' JNull)) (\<lambda>li.
     rbind (as_opt as_str (get_item kvs ''layer_name'' JNull)) (\<lambda>ln.
       let i = \<lparr>ci_sequence = q, ci_kind = k, ci_payload_bytes = p, ci_world_size = w,
                ci_dtype = d, ci_element_width_bytes = e, ci_tensor_shape = shape,
                ci_group_tag = g, ci_service_ps = s, ci_layer_index = li, ci_layer_name = ln\<rparr>
       in constructed (check_service_invocation i) i))))))))))))"

definition capture_from_json :: "json \<Rightarrow> step_error + collective_service_capture" where
  "capture_from_json j =
     rbind (as_object j) (\<lambda>kvs.
     rbind (item kvs ''environment'') (\<lambda>env.
     rbind (str_item kvs ''schema'') (\<lambda>schema.
     rbind (environment_from_json env) (\<lambda>environment.
     rbind (rbind (rbind (item kvs ''invocations'') as_array) (collect invocation_from_json)) (\<lambda>invs.
       let c = \<lparr>cc_environment = environment, cc_invocations = invs, cc_schema = schema\<rparr>
       in constructed (check_service_capture c) c)))))"

definition str_list :: "json \<Rightarrow> step_error + string list" where
  "str_list j = rbind (as_array j) (collect as_str)"

definition step_record_from_json :: "json \<Rightarrow> step_error + step_record" where
  "step_record_from_json j =
     rbind (as_object j) (\<lambda>kvs.
       if get_item kvs ''schema'' JNull \<noteq> JStr step_schema then Inl UnsupportedSchema
       else
     rbind (rbind (as_array (get_item kvs ''scheduled'' (JArray []))) (collect scheduled_from_json)) (\<lambda>sch.
     rbind (as_opt capture_from_json (get_item kvs ''collective_service'' JNull)) (\<lambda>cs.
     rbind (int_item kvs ''step_index'') (\<lambda>ix.
     rbind (int_item kvs ''virtual_time_ps'') (\<lambda>vt.
     rbind (str_list (get_item kvs ''preempted_request_ids'' (JArray []))) (\<lambda>pre.
     rbind (str_list (get_item kvs ''finished_request_ids'' (JArray []))) (\<lambda>fin.
     rbind (as_opt as_int (get_item kvs ''num_sampled'' JNull)) (\<lambda>ns.
     rbind (as_opt as_int (get_item kvs ''num_tokens_after_padding'' JNull)) (\<lambda>pad.
     rbind (as_opt str_list (get_item kvs ''sampled_request_ids'' JNull)) (\<lambda>ids.
       let r = \<lparr>st_step_index = ix, st_virtual_time_ps = vt, st_scheduled = sch,
                st_preempted_request_ids = pre, st_finished_request_ids = fin,
                st_num_sampled = ns, st_num_tokens_after_padding = pad,
                st_sampled_request_ids = ids, st_collective_service = cs\<rparr>
       in constructed (check_step_record r) r))))))))))"

subsection \<open>The round trip\<close>

lemmas json_simps = as_str_def as_int_def as_array_def as_object_def as_opt_def item_def get_item_def
  opt_int_def opt_str_def

lemma scheduled_roundtrip: "scheduled_from_json (scheduled_to_json r) = Inr r"
  by (cases "sr_phase r")
    (simp_all add: scheduled_from_json_def scheduled_to_json_def json_simps request_phase_of_def)

lemma environment_roundtrip:
  "check_service_environment e = None \<Longrightarrow> environment_from_json (environment_to_json e) = Inr e"
  by (cases e) (simp add: environment_from_json_def environment_to_json_def json_simps Let_def)

lemma collect_JInt [simp]: "collect as_int (map JInt xs) = Inr xs"
  by (induction xs) (simp_all add: as_int_def)

lemma collect_JStr [simp]: "collect as_str (map JStr xs) = Inr xs"
  by (induction xs) (simp_all add: as_str_def)

lemma invocation_roundtrip:
  assumes "check_service_invocation i = None"
  shows "invocation_from_json (invocation_to_json i) = Inr i"
proof -
  have "(ci_layer_index i = None) = (ci_layer_name i = None)"
    using assms by (simp add: check_service_invocation_def first_err_append split: option.splits)
  then show ?thesis using assms
    by (cases i; cases "ci_layer_index i"; cases "ci_layer_name i")
      (simp_all add: invocation_from_json_def invocation_to_json_def json_simps Let_def)
qed

text \<open>A capture and a record that the constructors have built.\<close>

definition capture_built :: "collective_service_capture \<Rightarrow> bool" where
  "capture_built c \<longleftrightarrow> check_service_environment (cc_environment c) = None \<and>
     list_all (\<lambda>i. check_service_invocation i = None) (cc_invocations c) \<and>
     check_service_capture c = None"

definition record_built :: "step_record \<Rightarrow> bool" where
  "record_built r \<longleftrightarrow> check_step_record r = None \<and>
     (case st_collective_service r of None \<Rightarrow> True | Some c \<Rightarrow> capture_built c)"

lemma capture_roundtrip:
  assumes "capture_built c"
  shows "capture_from_json (capture_to_json c) = Inr c"
proof -
  have "collect invocation_from_json (map invocation_to_json (cc_invocations c)) = Inr (map id (cc_invocations c))"
    using assms by (intro collect_map) (auto simp: capture_built_def list_all_iff intro: invocation_roundtrip)
  then show ?thesis using assms
    by (cases c) (simp add: capture_from_json_def capture_to_json_def json_simps environment_roundtrip
        capture_built_def Let_def)
qed

lemma capture_to_json_not_null [simp]: "capture_to_json c \<noteq> JNull"
  by (simp add: capture_to_json_def)

text \<open>The optional tail of a record: looking a key up in the concatenation.\<close>

definition opt_field :: "string \<Rightarrow> json option \<Rightarrow> (string \<times> json) list" where
  "opt_field k ob = (case ob of None \<Rightarrow> [] | Some j \<Rightarrow> [(k, j)])"

lemma map_of_opt_field [simp]: "map_of (opt_field k ob) k' = (if k' = k then ob else None)"
  by (simp add: opt_field_def split: option.splits)

lemma map_add_opt_field [simp]:
  "k' \<noteq> k \<Longrightarrow> (m ++ map_of (opt_field k ob)) k' = m k'"
  "m k = None \<Longrightarrow> (m ++ map_of (opt_field k ob)) k = ob"
  by (simp_all add: map_add_def split: option.splits)

lemma step_record_to_json_alt:
  "step_record_to_json r =
     JObject ([(''schema'', JStr step_schema), (''step_index'', JInt (st_step_index r)),
       (''virtual_time_ps'', JInt (st_virtual_time_ps r)),
       (''scheduled'', JArray (map scheduled_to_json (st_scheduled r))),
       (''preempted_request_ids'', JArray (map JStr (st_preempted_request_ids r))),
       (''finished_request_ids'', JArray (map JStr (st_finished_request_ids r)))]
      @ opt_field ''num_sampled'' (map_option JInt (st_num_sampled r))
      @ opt_field ''num_tokens_after_padding'' (map_option JInt (st_num_tokens_after_padding r))
      @ opt_field ''sampled_request_ids'' (map_option (\<lambda>ids. JArray (map JStr ids)) (st_sampled_request_ids r))
      @ opt_field ''collective_service'' (map_option capture_to_json (st_collective_service r)))"
  by (simp add: step_record_to_json_def opt_field_def split: option.splits)

definition or_null :: "json option \<Rightarrow> json" where
  "or_null ob = (case ob of None \<Rightarrow> JNull | Some j \<Rightarrow> j)"

lemma get_item_or_null: "get_item kvs k JNull = or_null (map_of kvs k)"
  by (simp add: get_item_def or_null_def)

lemma get_item_Some: "map_of kvs k = Some j \<Longrightarrow> get_item kvs k d = j"
  by (simp add: get_item_def)

lemma or_null_Some [simp]: "or_null (Some j) = j"
  by (simp add: or_null_def)

lemma str_list_strs: "str_list (JArray (map JStr xs)) = Inr xs"
  by (simp add: str_list_def as_array_def)

lemma as_opt_map:
  assumes "\<And>x. ob = Some x \<Longrightarrow> g x \<noteq> JNull \<and> f (g x) = Inr x"
  shows "as_opt f (or_null (map_option g ob)) = Inr ob"
  using assms by (cases ob) (simp_all add: as_opt_def or_null_def)

subsection \<open>Properties\<close>

text \<open>
  C21. Step records survive the wire.  Reading back the JSON form of any record that the
  constructors accept returns that record, with every optional field present exactly when it
  was present and the collective-service evidence intact.
\<close>

theorem step_record_roundtrip:
  assumes "record_built r"
  shows "step_record_from_json (step_record_to_json r) = Inr r"
proof -
  have sched: "collect scheduled_from_json (map scheduled_to_json (st_scheduled r)) = Inr (map id (st_scheduled r))"
    by (intro collect_map) (simp add: scheduled_roundtrip)
  have cs: "as_opt capture_from_json (or_null (map_option capture_to_json (st_collective_service r))) = Inr (st_collective_service r)"
    using assms by (intro as_opt_map) (simp add: record_built_def capture_roundtrip)
  have ns: "as_opt as_int (or_null (map_option JInt (st_num_sampled r))) =
      Inr (st_num_sampled r)" by (intro as_opt_map) (simp add: as_int_def)
  have pad: "as_opt as_int (or_null (map_option JInt (st_num_tokens_after_padding r))) =
      Inr (st_num_tokens_after_padding r)" by (intro as_opt_map) (simp add: as_int_def)
  have ids: "as_opt str_list (or_null (map_option (\<lambda>ids. JArray (map JStr ids)) (st_sampled_request_ids r))) = Inr (st_sampled_request_ids r)"
    by (intro as_opt_map) (simp add: str_list_def as_array_def)
  have "step_record_from_json (step_record_to_json r) = constructed (check_step_record r) r"
    unfolding step_record_to_json_alt step_record_from_json_def
    using sched by (simp add: get_item_or_null get_item_Some item_def as_object_def as_array_def as_int_def str_list_strs
        cs ns pad ids Let_def) (cases r, simp)
  then show ?thesis using assms by (simp add: record_built_def)
qed

definition ex_record :: step_record where
  "ex_record =
     \<lparr>st_step_index = 3, st_virtual_time_ps = 100,
      st_scheduled = [\<lparr>sr_request_id = ''r'', sr_phase = DECODE, sr_num_new_tokens = 1,
        sr_num_cached_tokens = 0, sr_context_length = 9\<rparr>],
      st_preempted_request_ids = [], st_finished_request_ids = [], st_num_sampled = Some 1,
      st_num_tokens_after_padding = None, st_sampled_request_ids = Some [''r''],
      st_collective_service = None\<rparr>"

theorem step_record_roundtrip_witness:
  "step_record_from_json (step_record_to_json ex_record) = Inr ex_record"
proof (rule step_record_roundtrip)
  show "record_built ex_record" by code_simp
qed

text \<open>
  Attributions add up.  Adding the latency attributions of the parts of an interval
  never fails its constructor, conserves the elapsed time exactly, and dominates every part;
  so does adding visit totals.
\<close>

theorem attribution_conserved:
  assumes "list_all (\<lambda>a. check_attribution a = None) as"
    and "list_all (\<lambda>v. check_visit_totals v = None) vs"
  shows "check_attribution (foldl add_attribution zero_attribution as) = None \<and>
    attribution_total_ps (foldl add_attribution zero_attribution as) = sum_list (map attribution_total_ps as) \<and>
    check_visit_totals (foldl add_visit_totals zero_visit_totals vs) = None \<and>
    visit_total_ps (foldl add_visit_totals zero_visit_totals vs) = sum_list (map visit_total_ps vs) \<and>
    (\<forall>a. a \<in> set as \<longrightarrow>
       attribution_total_ps a \<le> attribution_total_ps (foldl add_attribution zero_attribution as))"
  using attribution.folded_totals [OF assms(1)] visits.folded_totals [OF assms(2)] by blast

theorem attribution_conserved_witness:
  "attribution_total_ps (foldl add_attribution zero_attribution
     [zero_attribution\<lparr>la_queue_ps := 2\<rparr>, zero_attribution\<lparr>la_nic_ps := 5\<rparr>]) = 7"
proof -
  have "list_all (\<lambda>a. check_attribution a = None)
      [zero_attribution\<lparr>la_queue_ps := 2\<rparr>, zero_attribution\<lparr>la_nic_ps := 5\<rparr>]"
    "sum_list (map attribution_total_ps
      [zero_attribution\<lparr>la_queue_ps := 2\<rparr>, zero_attribution\<lparr>la_nic_ps := 5\<rparr>]) = 7" by code_simp+
  moreover have "list_all (\<lambda>v. check_visit_totals v = None) []" by simp
  ultimately show ?thesis using attribution_conserved by metis
qed

end
