(* ===== verification/Lifetime.thy ===== *)
theory Lifetime
  imports Step
begin

text \<open>
  Per-request routing ownership and close-out (\<open>simllm/core/request_lifetime.py\<close>).  A
  registry holds one lifetime per joined request; \<open>consume_step\<close> stages a copy of all of
  them, advances the copies by one scheduler step and its completions, and commits only when
  every check has passed, before it hands back the routing views of the closed requests.

  The release callback of a view is code of the arena's owner: the model takes, per request,
  whether it returns, as the parameter \<open>cb\<close>, and records the calls in
  \<open>rg_release_calls\<close>.
\<close>

unbundle bit_operations_syntax

subsection \<open>Records\<close>

datatype lifetime_error =
    LifetimeBlank | LifetimeNegative | BadSha | ZeroTokenCount | BadPromptCount
  | BadLayerCount | LayersNotIncreasing | CursorAboveTokens
  | DuplicateLifetime string | UnknownLifetime string
  | StepIndexDisagrees | ReleaseDisagrees | ExecutionIdDisagrees | DuplicateOperation
  | EventExecutionDisagrees | EventUnknownOperation
  | AlreadyConsumed string | DuplicateScheduled | DuplicateFinished | UnknownRequests
  | MoreTokensThanContext string | CursorOverflow string | TokenGap string
  | ClosedScheduled string | FinishedScheduled string
  | FinishedBeforeAdmission string | DuplicateFinish string
  | MissingLayer string | UnknownLayer string | UnknownMoePhase
  | ReleaseBeforeClosed string | CallbackRaised string

record join_provenance =
  jp_run_schema :: string
  jp_trace_schema :: string
  jp_trace_sha256 :: string

definition hex_digit :: "char \<Rightarrow> bool" where
  "hex_digit c = (c \<in> set ''0123456789abcdef'')"

definition check_provenance :: "join_provenance \<Rightarrow> lifetime_error option" where
  "check_provenance p =
     first_err
       [guard (nonblank (jp_run_schema p)) LifetimeBlank,
        guard (nonblank (jp_trace_schema p)) LifetimeBlank,
        guard (length (jp_trace_sha256 p) = 64 \<and> list_all hex_digit (jp_trace_sha256 p)) BadSha]"

record routing_view_descriptor =
  rv_arena_id :: string
  rv_token_offset :: int
  rv_token_count :: int
  rv_prompt_token_count :: int

definition check_view :: "routing_view_descriptor \<Rightarrow> lifetime_error option" where
  "check_view v =
     first_err
       [guard (nonblank (rv_arena_id v)) LifetimeBlank,
        guard (0 \<le> rv_token_offset v) LifetimeNegative,
        guard (0 \<le> rv_token_count v) LifetimeNegative,
        guard (0 \<le> rv_prompt_token_count v) LifetimeNegative,
        guard (rv_token_count v \<noteq> 0) ZeroTokenCount,
        guard (\<not> (rv_prompt_token_count v = 0 \<or> rv_prompt_token_count v > rv_token_count v))
          BadPromptCount]"

datatype lifecycle_state = JOINED | ADMITTED | EXECUTING | FINISH_FLAGGED | DRAINED | CLOSED

record request_lifetime =
  lt_request_id :: string
  lt_join_provenance :: join_provenance
  lt_arrived_at_ps :: int
  lt_routing_view :: routing_view_descriptor
  lt_moe_layer_indices :: "int list"
  lt_state :: lifecycle_state
  lt_consumption_cursor :: int
  lt_scheduler_finished :: bool
  lt_dispatch_end_mask :: int
  lt_combine_end_mask :: int
  lt_view_released :: bool

definition check_layers :: "int list \<Rightarrow> lifetime_error option" where
  "check_layers layers =
     first_err
       [guard (layers \<noteq> [] \<and> length layers \<le> 64) BadLayerCount,
        guard (list_all (\<lambda>n. 0 \<le> n) layers) LifetimeNegative,
        guard (sorted_list_of_set (set layers) = layers) LayersNotIncreasing]"

abbreviation token_count :: "request_lifetime \<Rightarrow> int" where
  "token_count l \<equiv> rv_token_count (lt_routing_view l)"

definition check_lifetime :: "request_lifetime \<Rightarrow> lifetime_error option" where
  "check_lifetime l =
     first_err
       [guard (nonblank (lt_request_id l)) LifetimeBlank,
        guard (0 \<le> lt_arrived_at_ps l) LifetimeNegative,
        check_layers (lt_moe_layer_indices l),
        guard (0 \<le> lt_consumption_cursor l) LifetimeNegative,
        guard (lt_consumption_cursor l \<le> token_count l) CursorAboveTokens]"

definition full_end_mask :: "request_lifetime \<Rightarrow> int" where
  "full_end_mask l = push_bit (length (lt_moe_layer_indices l)) 1 - 1"

definition dispatch_complete :: "request_lifetime \<Rightarrow> bool" where
  "dispatch_complete l = (lt_dispatch_end_mask l = full_end_mask l)"

definition combine_complete :: "request_lifetime \<Rightarrow> bool" where
  "combine_complete l = (lt_combine_end_mask l = full_end_mask l)"

definition routing_consumed :: "request_lifetime \<Rightarrow> bool" where
  "routing_consumed l = (lt_consumption_cursor l = token_count l)"

definition drained :: "request_lifetime \<Rightarrow> bool" where
  "drained l = (routing_consumed l \<and> dispatch_complete l \<and> combine_complete l)"

definition layers_missing :: "int list \<Rightarrow> int \<Rightarrow> int list" where
  "layers_missing layers m =
     map snd (filter (\<lambda>(b, layer). m AND push_bit b 1 = 0) (zip [0..<length layers] layers))"

definition missing_layers :: "request_lifetime \<Rightarrow> string \<Rightarrow> lifetime_error + int list" where
  "missing_layers l phase =
     (if phase = ''dispatch'' then Inr (layers_missing (lt_moe_layer_indices l) (lt_dispatch_end_mask l))
      else if phase = ''combine'' then Inr (layers_missing (lt_moe_layer_indices l) (lt_combine_end_mask l))
      else Inl UnknownMoePhase)"

text \<open>\<open>release_view\<close>: the lifetime left behind, the callback calls made, and the error.\<close>

definition release_view ::
    "(string \<Rightarrow> bool) \<Rightarrow> request_lifetime \<Rightarrow> request_lifetime \<times> string list \<times> lifetime_error option" where
  "release_view cb l =
     (if lt_state l \<noteq> CLOSED then (l, [], Some (ReleaseBeforeClosed (lt_request_id l)))
      else if lt_view_released l then (l, [], None)
      else if cb (lt_request_id l) then (l\<lparr>lt_view_released := True\<rparr>, [lt_request_id l], None)
      else (l, [lt_request_id l], Some (CallbackRaised (lt_request_id l))))"

subsection \<open>The registry\<close>

record lifetime_registry =
  rg_moe_layer_indices :: "int list"
  rg_records :: "(string, request_lifetime) dict"
  rg_consumed_execution_ids :: "string list"
  rg_release_calls :: "string list"

definition new_registry :: "int list \<Rightarrow> lifetime_error + lifetime_registry" where
  "new_registry layers =
     constructed (check_layers layers)
       \<lparr>rg_moe_layer_indices = layers, rg_records = [], rg_consumed_execution_ids = [],
        rg_release_calls = []\<rparr>"

definition register ::
    "lifetime_registry \<Rightarrow> string \<Rightarrow> join_provenance \<Rightarrow> int \<Rightarrow> routing_view_descriptor \<Rightarrow>
     lifetime_registry \<times> (lifetime_error + request_lifetime)" where
  "register g request_id provenance arrived_at_ps view =
     (if \<not> nonblank request_id then (g, Inl LifetimeBlank)
      else if map_of (rg_records g) request_id \<noteq> None then (g, Inl (DuplicateLifetime request_id))
      else
        (let l = \<lparr>lt_request_id = request_id, lt_join_provenance = provenance,
                  lt_arrived_at_ps = arrived_at_ps, lt_routing_view = view,
                  lt_moe_layer_indices = rg_moe_layer_indices g, lt_state = JOINED,
                  lt_consumption_cursor = 0, lt_scheduler_finished = False,
                  lt_dispatch_end_mask = 0, lt_combine_end_mask = 0, lt_view_released = False\<rparr>
         in case check_lifetime l of
              Some e \<Rightarrow> (g, Inl e)
            | None \<Rightarrow> (g\<lparr>rg_records := AList.update request_id l (rg_records g)\<rparr>, Inr l)))"

definition by_request_id :: "lifetime_registry \<Rightarrow> string \<Rightarrow> lifetime_error + request_lifetime" where
  "by_request_id g request_id =
     (case map_of (rg_records g) request_id of None \<Rightarrow> Inl (UnknownLifetime request_id) | Some l \<Rightarrow> Inr l)"

definition closed_request_count :: "lifetime_registry \<Rightarrow> int" where
  "closed_request_count g = dsum (\<lambda>l. b2i (lt_state l = CLOSED)) (rg_records g)"

definition live_request_count :: "lifetime_registry \<Rightarrow> int" where
  "live_request_count g = int (length (rg_records g)) - closed_request_count g"

definition live_view_count :: "lifetime_registry \<Rightarrow> int" where
  "live_view_count g = dsum (\<lambda>l. b2i (\<not> lt_view_released l)) (rg_records g)"

definition validate_step_contract ::
    "step_record \<Rightarrow> execution_graph \<Rightarrow> execution_result \<Rightarrow>
     lifetime_error + (string, execution_operation) dict" where
  "validate_step_contract r g x =
     (let operations = fold (\<lambda>op d. AList.update (op_operation_id op) op d) (eg_operations g) []
      in constructed
           (first_err
             ([guard (eg_step_index g = st_step_index r) StepIndexDisagrees,
               guard (eg_released_at_ps g = st_virtual_time_ps r) ReleaseDisagrees,
               guard (er_execution_id x = eg_execution_id g) ExecutionIdDisagrees,
               guard (length operations = length (eg_operations g)) DuplicateOperation]
              @ concat (map (\<lambda>e.
                  [guard (ce_execution_id e = eg_execution_id g) EventExecutionDisagrees,
                   guard (map_of operations (ce_operation_id e) \<noteq> None) EventUnknownOperation])
                  (er_events x))))
           operations)"

definition cover_scheduled_tokens ::
    "request_lifetime \<Rightarrow> scheduled_request \<Rightarrow> lifetime_error + request_lifetime \<times> bool" where
  "cover_scheduled_tokens l s =
     (let n = sr_num_new_tokens s; ctx = sr_context_length s; cached = sr_num_cached_tokens s;
          start = ctx - n; previous = lt_consumption_cursor l
      in if n < 0 \<or> ctx < 0 \<or> cached < 0 then Inl LifetimeNegative
         else if n = 0 then Inr (l, False)
         else if start < 0 then Inl (MoreTokensThanContext (lt_request_id l))
         else if ctx > token_count l then Inl (CursorOverflow (lt_request_id l))
         else if start > previous \<and> \<not> (previous = 0 \<and> cached = start)
           then Inl (TokenGap (lt_request_id l))
         else Inr (l\<lparr>lt_consumption_cursor := max previous ctx\<rparr>,
                   previous < token_count l \<and> token_count l = max previous ctx))"

definition enter_execution :: "request_lifetime \<Rightarrow> lifetime_error + request_lifetime" where
  "enter_execution l =
     (if lt_state l = CLOSED then Inl (ClosedScheduled (lt_request_id l))
      else if lt_scheduler_finished l then Inl (FinishedScheduled (lt_request_id l))
      else
        (let l1 = (if lt_state l = JOINED then l\<lparr>lt_state := ADMITTED\<rparr> else l)
         in Inr (if lt_state l1 = ADMITTED then l1\<lparr>lt_state := EXECUTING\<rparr> else l1)))"

fun index_of :: "int list \<Rightarrow> int \<Rightarrow> nat option" where
  "index_of [] x = None"
| "index_of (y # ys) x = (if y = x then Some 0 else map_option Suc (index_of ys x))"

definition mark_end_flag ::
    "int list \<Rightarrow> request_lifetime \<Rightarrow> string \<Rightarrow> int \<Rightarrow> lifetime_error + request_lifetime" where
  "mark_end_flag layers l phase layer =
     (case index_of layers layer of
        None \<Rightarrow> Inl (UnknownLayer [])
      | Some b \<Rightarrow>
          if phase = ''dispatch''
            then Inr (l\<lparr>lt_dispatch_end_mask := lt_dispatch_end_mask l OR push_bit b 1\<rparr>)
          else if phase = ''combine''
            then Inr (l\<lparr>lt_combine_end_mask := lt_combine_end_mask l OR push_bit b 1\<rparr>)
          else Inl UnknownMoePhase)"

definition reconcile :: "request_lifetime \<Rightarrow> request_lifetime" where
  "reconcile l =
     (let l1 = (if lt_scheduler_finished l \<and> lt_state l = EXECUTING
                then l\<lparr>lt_state := FINISH_FLAGGED\<rparr> else l);
          l2 = (if lt_state l1 = FINISH_FLAGGED \<and> drained l1 then l1\<lparr>lt_state := DRAINED\<rparr> else l1)
      in if lt_state l2 = DRAINED then l2\<lparr>lt_state := CLOSED\<rparr> else l2)"

subsection \<open>Consuming a step\<close>

type_synonym staged = "(string, request_lifetime) dict"

text \<open>The scheduler's coverage; the second component collects the final reachers.\<close>

fun stage_scheduled ::
    "staged \<Rightarrow> string list \<Rightarrow> scheduled_request list \<Rightarrow> lifetime_error + staged \<times> string list" where
  "stage_scheduled d fin [] = Inr (d, fin)"
| "stage_scheduled d fin (s # ss) =
     (case map_of d (sr_request_id s) of
        None \<Rightarrow> Inl UnknownRequests
      | Some l \<Rightarrow>
          rbind (enter_execution l) (\<lambda>l1.
          rbind (cover_scheduled_tokens l1 s) (\<lambda>(l2, reached).
            stage_scheduled (AList.update (sr_request_id s) l2 d)
              (if reached then List.insert (sr_request_id s) fin else fin) ss)))"

fun stage_finished :: "staged \<Rightarrow> string list \<Rightarrow> lifetime_error + staged" where
  "stage_finished d [] = Inr d"
| "stage_finished d (r # rs) =
     (case map_of d r of
        None \<Rightarrow> Inl UnknownRequests
      | Some l \<Rightarrow>
          if lt_state l = JOINED then Inl (FinishedBeforeAdmission r)
          else if lt_scheduler_finished l then Inl (DuplicateFinish r)
          else stage_finished (AList.update r (l\<lparr>lt_scheduler_finished := True\<rparr>) d) rs)"

fun stage_flags ::
    "int list \<Rightarrow> string list \<Rightarrow> string \<Rightarrow> int \<Rightarrow> staged \<Rightarrow> string list \<Rightarrow> lifetime_error + staged" where
  "stage_flags layers fin phase layer d [] = Inr d"
| "stage_flags layers fin phase layer d (r # rs) =
     (if r \<in> set fin
      then (case map_of d r of
              None \<Rightarrow> Inl UnknownRequests
            | Some l \<Rightarrow>
                rbind (mark_end_flag layers l phase layer) (\<lambda>l'.
                  stage_flags layers fin phase layer (AList.update r l' d) rs))
      else stage_flags layers fin phase layer d rs)"

text \<open>
  Which completion events are logical MoE completions: their operation, phase and layer.
  \<open>None\<close> is a \<open>continue\<close> of the loop.
\<close>

definition moe_work :: "completion_event \<Rightarrow> execution_operation \<Rightarrow> string option" where
  "moe_work e op =
     (if ce_phase e \<noteq> COMPLETED \<or> ce_subject_object_id e \<noteq> None then None
      else case op_work op of
        CollectiveWork w \<Rightarrow>
          (case lw_channel_hint w of
             None \<Rightarrow> None
           | Some phase \<Rightarrow>
               if lw_collective w \<noteq> ''all-to-allv'' \<or> lw_algorithm_hint w \<noteq> Some ''pairwise''
                  \<or> phase \<notin> {''dispatch'', ''combine''} then None else Some phase)
      | _ \<Rightarrow> None)"

definition stage_event ::
    "int list \<Rightarrow> (string, execution_operation) dict \<Rightarrow> string list \<Rightarrow> completion_event \<Rightarrow> staged \<Rightarrow>
     lifetime_error + staged" where
  "stage_event layers ops fin e d =
     (case map_of ops (ce_operation_id e) of
        None \<Rightarrow> Inl EventUnknownOperation
      | Some op \<Rightarrow>
          (case moe_work e op of
             None \<Rightarrow> Inr d
           | Some phase \<Rightarrow>
               (case oc_layer (op_correlation op) of
                  None \<Rightarrow> Inl (MissingLayer (op_operation_id op))
                | Some layer \<Rightarrow>
                    if layer \<notin> set layers then Inl (UnknownLayer (op_operation_id op))
                    else stage_flags layers fin phase layer d (oc_request_ids (op_correlation op)))))"

fun stage_events ::
    "int list \<Rightarrow> (string, execution_operation) dict \<Rightarrow> string list \<Rightarrow> completion_event list \<Rightarrow> staged \<Rightarrow>
     lifetime_error + staged" where
  "stage_events layers ops fin [] d = Inr d"
| "stage_events layers ops fin (e # es) d =
     rbind (stage_event layers ops fin e d) (stage_events layers ops fin es)"

definition commit_fields :: "request_lifetime \<Rightarrow> request_lifetime \<Rightarrow> request_lifetime" where
  "commit_fields target s =
     target\<lparr>lt_state := lt_state s, lt_consumption_cursor := lt_consumption_cursor s,
            lt_scheduler_finished := lt_scheduler_finished s,
            lt_dispatch_end_mask := lt_dispatch_end_mask s,
            lt_combine_end_mask := lt_combine_end_mask s\<rparr>"

text \<open>The last loop of \<open>consume_step\<close>: closed views are released in join order.\<close>

fun release_closed ::
    "(string \<Rightarrow> bool) \<Rightarrow> staged \<Rightarrow> staged \<times> string list \<times> lifetime_error option" where
  "release_closed cb [] = ([], [], None)"
| "release_closed cb ((k, l) # d) =
     (if lt_state l = CLOSED
      then (case release_view cb l of
              (l', calls, Some e) \<Rightarrow> ((k, l') # d, calls, Some e)
            | (l', calls, None) \<Rightarrow>
                (case release_closed cb d of (d', calls', e) \<Rightarrow> ((k, l') # d', calls @ calls', e)))
      else (case release_closed cb d of (d', calls', e) \<Rightarrow> ((k, l) # d', calls', e)))"

definition stage_step ::
    "lifetime_registry \<Rightarrow> step_record \<Rightarrow> execution_graph \<Rightarrow> execution_result \<Rightarrow> lifetime_error + staged" where
  "stage_step g r graph x =
     (if eg_execution_id graph \<in> set (rg_consumed_execution_ids g)
        then Inl (AlreadyConsumed (eg_execution_id graph))
      else
     rbind (validate_step_contract r graph x) (\<lambda>ops.
     if \<not> distinct (map sr_request_id (st_scheduled r)) then Inl DuplicateScheduled
     else if \<not> distinct (st_finished_request_ids r) then Inl DuplicateFinished
     else if \<not> set (map sr_request_id (st_scheduled r) @ st_finished_request_ids r @ st_preempted_request_ids r)
               \<subseteq> set (map fst (rg_records g)) then Inl UnknownRequests
     else
     rbind (stage_scheduled (rg_records g) [] (st_scheduled r)) (\<lambda>(d1, fin).
     rbind (stage_finished d1 (st_finished_request_ids r)) (\<lambda>d2.
     rbind (stage_events (rg_moe_layer_indices g) ops fin (er_events x) d2) (\<lambda>d3.
       Inr (map (\<lambda>(k, l). (k, reconcile l)) d3))))))"

definition commit_step :: "staged \<Rightarrow> staged \<Rightarrow> staged" where
  "commit_step records d =
     map (\<lambda>(k, l). (k, case map_of d k of None \<Rightarrow> l | Some s \<Rightarrow> commit_fields l s)) records"

definition consume_step ::
    "(string \<Rightarrow> bool) \<Rightarrow> lifetime_registry \<Rightarrow> step_record \<Rightarrow> execution_graph \<Rightarrow> execution_result \<Rightarrow>
     lifetime_registry \<times> (lifetime_error + unit)" where
  "consume_step cb g r graph x =
     (case stage_step g r graph x of
        Inl e \<Rightarrow> (g, Inl e)
      | Inr d \<Rightarrow>
          (case release_closed cb (commit_step (rg_records g) d) of
             (records, calls, err) \<Rightarrow>
               (g\<lparr>rg_records := records,
                  rg_consumed_execution_ids :=
                    List.insert (eg_execution_id graph) (rg_consumed_execution_ids g),
                  rg_release_calls := rg_release_calls g @ calls\<rparr>,
                case err of None \<Rightarrow> Inr () | Some e \<Rightarrow> Inl e)))"

subsection \<open>The end-of-run audit\<close>

datatype audit_detail =
    AuditState lifecycle_state | AuditFinishMissing | AuditDispatch "int list"
  | AuditCombine "int list" | AuditCursor int int | AuditViewLive

definition audit_details :: "request_lifetime \<Rightarrow> audit_detail list" where
  "audit_details l =
     (let dispatch = layers_missing (lt_moe_layer_indices l) (lt_dispatch_end_mask l);
          combine = layers_missing (lt_moe_layer_indices l) (lt_combine_end_mask l)
      in [AuditState (lt_state l)]
         @ (if lt_scheduler_finished l then [] else [AuditFinishMissing])
         @ (if dispatch = [] then [] else [AuditDispatch dispatch])
         @ (if combine = [] then [] else [AuditCombine combine])
         @ (if routing_consumed l then [] else [AuditCursor (lt_consumption_cursor l) (token_count l)])
         @ (if lt_view_released l then [] else [AuditViewLive]))"

text \<open>\<open>audit_closed\<close>: \<open>None\<close> when it returns, otherwise the failures it raises with.\<close>

definition audit_closed :: "lifetime_registry \<Rightarrow> (string \<times> audit_detail list) list option" where
  "audit_closed g =
     (let failures =
            map (\<lambda>(k, l). (lt_request_id l, audit_details l))
              (filter (\<lambda>(k, l). \<not> (lt_state l = CLOSED \<and> lt_view_released l)) (rg_records g))
      in if failures \<noteq> [] \<or> live_view_count g \<noteq> 0 then Some failures else None)"

end
