(* ===== verification/Lifetime_Properties.thy ===== *)
theory Lifetime_Properties
  imports Lifetime
begin

text \<open>
  What the lifetime registry guarantees: requests advance only forward along the lifecycle,
  a request closes exactly when the scheduler has finished it and its routing is drained, a
  view is released only after that and only once, a step that fails its checks changes
  nothing, and the audit passes exactly when everything is closed and released.
\<close>

subsection \<open>End masks\<close>

text \<open>A mask over \<open>n\<close> layers, and what setting and reading its bits does.\<close>

definition mask_ok :: "nat \<Rightarrow> int \<Rightarrow> bool" where
  "mask_ok n m \<longleftrightarrow> take_bit n m = m"

lemma mask_ok_0 [simp]: "mask_ok n 0"
  by (simp add: mask_ok_def)

lemma bit_set_flag: "bit (m OR 2 ^ b :: int) i \<longleftrightarrow> bit m i \<or> i = b"
  by (auto simp: bit_simps)

lemma mask_ok_set: "mask_ok n m \<Longrightarrow> b < n \<Longrightarrow> mask_ok n (m OR 2 ^ b)"
  unfolding mask_ok_def by (auto simp: bit_eq_iff bit_simps)

lemma mask_ok_bit: "mask_ok n m \<Longrightarrow> bit m i \<Longrightarrow> i < n"
  unfolding mask_ok_def by (metis bit_take_bit_iff)

lemma full_mask: "(2::int) ^ n - 1 = mask n"
  by (simp add: mask_eq_exp_minus_1)

lemma full_iff:
  assumes "mask_ok n m"
  shows "m = 2 ^ n - 1 \<longleftrightarrow> (\<forall>i < n. bit m i)"
proof -
  have "m = mask n \<longleftrightarrow> (\<forall>i. bit m i = (i < n))" by (simp add: bit_eq_iff bit_mask_iff)
  then show ?thesis unfolding full_mask using mask_ok_bit [OF assms] by blast
qed

lemma layers_missing_iff:
  "layer \<in> set (layers_missing layers m) \<longleftrightarrow> (\<exists>i < length layers. layers ! i = layer \<and> \<not> bit m i)"
proof -
  have "m AND push_bit b 1 = 0 \<longleftrightarrow> \<not> bit m b" for b
    by (simp only: bit_iff_and_push_bit_not_eq_0 not_not)
  then have "layers_missing layers m =
      map snd (filter (\<lambda>(b, layer). \<not> bit m b) (zip [0..<length layers] layers))"
    unfolding layers_missing_def by (simp only:)
  then show ?thesis by (force simp: set_zip)
qed

lemma layers_missing_Nil_iff: "layers_missing layers m = [] \<longleftrightarrow> (\<forall>i < length layers. bit m i)"
proof -
  have "layers_missing layers m = [] \<longleftrightarrow> (\<forall>layer. layer \<notin> set (layers_missing layers m))" by auto
  then show ?thesis by (auto simp: layers_missing_iff)
qed

lemma index_of_less: "index_of layers x = Some b \<Longrightarrow> b < length layers \<and> layers ! b = x"
  by (induction layers arbitrary: b) (auto split: if_splits)

subsection \<open>One lifetime\<close>

fun state_rank :: "lifecycle_state \<Rightarrow> nat" where
  "state_rank JOINED = 0"
| "state_rank ADMITTED = 1"
| "state_rank EXECUTING = 2"
| "state_rank FINISH_FLAGGED = 3"
| "state_rank DRAINED = 4"
| "state_rank CLOSED = 5"

text \<open>Data bounds, and what the state says about the flags: between steps, and inside one.\<close>

definition bounds_ok :: "int list \<Rightarrow> request_lifetime \<Rightarrow> bool" where
  "bounds_ok layers l \<longleftrightarrow> lt_moe_layer_indices l = layers \<and>
     0 \<le> lt_consumption_cursor l \<and> lt_consumption_cursor l \<le> token_count l \<and>
     mask_ok (length layers) (lt_dispatch_end_mask l) \<and> mask_ok (length layers) (lt_combine_end_mask l)"

definition untouched :: "request_lifetime \<Rightarrow> bool" where
  "untouched l \<longleftrightarrow> lt_consumption_cursor l = 0 \<and> \<not> lt_scheduler_finished l \<and>
     lt_dispatch_end_mask l = 0 \<and> lt_combine_end_mask l = 0"

definition settled :: "request_lifetime \<Rightarrow> bool" where
  "settled l \<longleftrightarrow>
     (case lt_state l of
        JOINED \<Rightarrow> untouched l
      | EXECUTING \<Rightarrow> \<not> lt_scheduler_finished l
      | FINISH_FLAGGED \<Rightarrow> lt_scheduler_finished l \<and> \<not> drained l
      | CLOSED \<Rightarrow> lt_scheduler_finished l \<and> drained l
      | _ \<Rightarrow> False)"

definition in_step :: "request_lifetime \<Rightarrow> bool" where
  "in_step l \<longleftrightarrow>
     (case lt_state l of
        JOINED \<Rightarrow> untouched l
      | EXECUTING \<Rightarrow> True
      | FINISH_FLAGGED \<Rightarrow> lt_scheduler_finished l
      | CLOSED \<Rightarrow> lt_scheduler_finished l \<and> drained l
      | _ \<Rightarrow> False)"

text \<open>Forward progress: identity kept, state, cursor and flags only grow.\<close>

definition advances :: "request_lifetime \<Rightarrow> request_lifetime \<Rightarrow> bool" where
  "advances l l' \<longleftrightarrow>
     lt_request_id l' = lt_request_id l \<and> lt_routing_view l' = lt_routing_view l \<and>
     lt_moe_layer_indices l' = lt_moe_layer_indices l \<and>
     state_rank (lt_state l) \<le> state_rank (lt_state l') \<and>
     lt_consumption_cursor l \<le> lt_consumption_cursor l' \<and>
     (lt_scheduler_finished l \<longrightarrow> lt_scheduler_finished l') \<and>
     (\<forall>i. bit (lt_dispatch_end_mask l) i \<longrightarrow> bit (lt_dispatch_end_mask l') i) \<and>
     (\<forall>i. bit (lt_combine_end_mask l) i \<longrightarrow> bit (lt_combine_end_mask l') i)"

lemma advances_refl [simp]: "advances l l"
  by (simp add: advances_def)

lemma advances_trans: "advances l m \<Longrightarrow> advances m n \<Longrightarrow> advances l n"
  unfolding advances_def by (elim conjE) (intro conjI; (simp; fail)?; auto)

lemma settled_in_step: "settled l \<Longrightarrow> in_step l"
  by (auto simp: settled_def in_step_def split: lifecycle_state.splits)

lemma settled_closed_iff: "settled l \<Longrightarrow> lt_state l = CLOSED \<longleftrightarrow> lt_scheduler_finished l \<and> drained l"
  by (auto simp: settled_def untouched_def split: lifecycle_state.splits)

lemma enter_execution_ok:
  assumes "enter_execution l = Inr l'" "in_step l"
  shows "lt_state l' = EXECUTING" "\<not> lt_scheduler_finished l" "advances l l'" "l' = l\<lparr>lt_state := EXECUTING\<rparr>"
  using assms
  by (auto simp: enter_execution_def in_step_def advances_def Let_def
      split: if_splits lifecycle_state.splits)

lemma cover_ok:
  assumes "cover_scheduled_tokens l s = Inr (l', reached)" "bounds_ok layers l" "lt_state l = EXECUTING"
  shows "bounds_ok layers l'" "lt_state l' = EXECUTING" "advances l l'"
  using assms
  by (auto simp: cover_scheduled_tokens_def bounds_ok_def advances_def Let_def split: if_splits)

lemma mark_ok:
  assumes "mark_end_flag layers l phase layer = Inr l'" "bounds_ok layers l"
  shows "bounds_ok layers l'" "lt_state l' = lt_state l" "advances l l'"
    "lt_consumption_cursor l' = lt_consumption_cursor l" "lt_scheduler_finished l' = lt_scheduler_finished l"
  using assms
  by (auto simp: mark_end_flag_def bounds_ok_def advances_def bit_set_flag mask_ok_set
      dest: index_of_less split: option.splits if_splits)

lemma reconcile_ok:
  assumes "in_step l"
  shows "settled (reconcile l)" "advances l (reconcile l)"
    "bounds_ok layers l \<Longrightarrow> bounds_ok layers (reconcile l)"
  using assms
  by (auto simp: reconcile_def settled_def in_step_def advances_def bounds_ok_def drained_def
      routing_consumed_def dispatch_complete_def combine_complete_def full_end_mask_def untouched_def Let_def
      split: lifecycle_state.splits if_splits)

lemma reconcile_released [simp]: "lt_view_released (reconcile l) = lt_view_released l"
  by (simp add: reconcile_def Let_def)

subsection \<open>Staging\<close>

text \<open>
  A staged dictionary is well formed; it has grown out of another one when every request
  advanced, only the committed fields changed, and no request was added or lost.
\<close>

definition staged_ok :: "int list \<Rightarrow> staged \<Rightarrow> bool" where
  "staged_ok layers d \<longleftrightarrow> dict_ok d \<and> dall (\<lambda>l. bounds_ok layers l \<and> in_step l) d"

definition evolves :: "request_lifetime \<Rightarrow> request_lifetime \<Rightarrow> bool" where
  "evolves l l' \<longleftrightarrow> advances l l' \<and> commit_fields l l' = l'"

definition grows :: "staged \<Rightarrow> staged \<Rightarrow> bool" where
  "grows d d' \<longleftrightarrow> map fst d' = map fst d \<and>
     (\<forall>k l. map_of d k = Some l \<longrightarrow> (\<exists>l'. map_of d' k = Some l' \<and> evolves l l'))"

definition fin_ok :: "string list \<Rightarrow> staged \<Rightarrow> bool" where
  "fin_ok fin d \<longleftrightarrow> (\<forall>r l. r \<in> set fin \<longrightarrow> map_of d r = Some l \<longrightarrow> lt_state l = EXECUTING)"

lemma evolves_refl [simp]: "evolves l l"
  by (simp add: evolves_def commit_fields_def)

lemma commit_fields_trans:
  "commit_fields l m = m \<Longrightarrow> commit_fields m n = n \<Longrightarrow> commit_fields l n = n"
  by (cases l; cases m; cases n) (simp add: commit_fields_def)

lemma evolves_trans: "evolves l m \<Longrightarrow> evolves m n \<Longrightarrow> evolves l n"
  unfolding evolves_def using advances_trans commit_fields_trans by blast

lemma grows_refl [simp]: "grows d d"
  by (simp add: grows_def)

lemma grows_trans: "grows d e \<Longrightarrow> grows e f \<Longrightarrow> grows d f"
  unfolding grows_def using evolves_trans by metis

lemma keys_update_known: "map_of d k \<noteq> None \<Longrightarrow> map fst (AList.update k v d) = map fst d"
  by (induction d) auto

lemma stage_update:
  assumes "staged_ok layers d" "map_of d k = Some l" "evolves l l'" "bounds_ok layers l'" "in_step l'"
  shows "staged_ok layers (AList.update k l' d)" "grows d (AList.update k l' d)"
proof -
  show "staged_ok layers (AList.update k l' d)"
    using assms by (auto simp: staged_ok_def)
  show "grows d (AList.update k l' d)"
    using assms(2,3) keys_update_known [of d k l'] by (auto simp: grows_def)
qed

lemma staged_get: "staged_ok layers d \<Longrightarrow> map_of d k = Some l \<Longrightarrow> bounds_ok layers l \<and> in_step l"
  by (auto simp: staged_ok_def dest: dall_get)

lemma fin_ok_update: "fin_ok fin d \<Longrightarrow> (k \<in> set fin \<Longrightarrow> lt_state l' = EXECUTING) \<Longrightarrow>
    fin_ok fin (AList.update k l' d)"
  by (auto simp: fin_ok_def)

lemma in_step_executing: "lt_state l = EXECUTING \<Longrightarrow> in_step l"
  by (simp add: in_step_def)

lemma stage_scheduled_ok:
  "stage_scheduled d fin ss = Inr (d', fin') \<Longrightarrow> staged_ok layers d \<Longrightarrow> fin_ok fin d \<Longrightarrow>
   staged_ok layers d' \<and> grows d d' \<and> fin_ok fin' d'"
proof (induction ss arbitrary: d fin)
  case (Cons s ss)
  let ?k = "sr_request_id s"
  from Cons.prems(1) obtain l l1 l2 reached where l: "map_of d ?k = Some l"
    and e: "enter_execution l = Inr l1" and c: "cover_scheduled_tokens l1 s = Inr (l2, reached)"
    and rest: "stage_scheduled (AList.update ?k l2 d) (if reached then List.insert ?k fin else fin) ss = Inr (d', fin')"
    by (auto simp: rbind_Inr_iff split: option.splits prod.splits)
  have ok: "bounds_ok layers l" "in_step l" using staged_get [OF Cons.prems(2) l] by auto
  note en = enter_execution_ok [OF e ok(2)]
  have b1: "bounds_ok layers l1" using ok(1) en(4) by (simp add: bounds_ok_def)
  note cv = cover_ok [OF c b1 en(1)]
  have "commit_fields l l2 = l2" using c en(4)
    by (cases l) (auto simp: cover_scheduled_tokens_def commit_fields_def Let_def split: if_splits)
  then have ev: "evolves l l2" using advances_trans [OF en(3) cv(3)] by (simp add: evolves_def)
  note u = stage_update [OF Cons.prems(2) l ev cv(1) in_step_executing [OF cv(2)]]
  have "fin_ok fin (AList.update ?k l2 d)" using Cons.prems(3) cv(2) by (intro fin_ok_update) auto
  then have "fin_ok (if reached then List.insert ?k fin else fin) (AList.update ?k l2 d)"
    using cv(2) by (auto simp: fin_ok_def)
  from Cons.IH [OF rest u(1) this] show ?case using grows_trans [OF u(2)] by blast
qed simp

lemma stage_finished_ok:
  "stage_finished d rs = Inr d' \<Longrightarrow> staged_ok layers d \<Longrightarrow> fin_ok fin d \<Longrightarrow>
   staged_ok layers d' \<and> grows d d' \<and> fin_ok fin d'"
proof (induction rs arbitrary: d)
  case (Cons r rs)
  from Cons.prems(1) obtain l where l: "map_of d r = Some l" and st: "lt_state l \<noteq> JOINED" "\<not> lt_scheduler_finished l"
    and rest: "stage_finished (AList.update r (l\<lparr>lt_scheduler_finished := True\<rparr>) d) rs = Inr d'"
    by (auto split: option.splits if_splits)
  let ?l = "l\<lparr>lt_scheduler_finished := True\<rparr>"
  have ok: "bounds_ok layers l" "in_step l" using staged_get [OF Cons.prems(2) l] by auto
  have ev: "evolves l ?l" using st by (simp add: evolves_def advances_def commit_fields_def)
  have b: "bounds_ok layers ?l" using ok(1) by (simp add: bounds_ok_def)
  have ex: "lt_state l = EXECUTING" using ok(2) st by (auto simp: in_step_def split: lifecycle_state.splits)
  then have i: "in_step ?l" by (simp add: in_step_def)
  note u = stage_update [OF Cons.prems(2) l ev b i]
  have "fin_ok fin (AList.update r ?l d)" using Cons.prems(3) ex by (intro fin_ok_update) auto
  from Cons.IH [OF rest u(1) this] show ?case using grows_trans [OF u(2)] by blast
qed simp

lemma stage_flags_ok:
  "stage_flags layers fin phase layer d rs = Inr d' \<Longrightarrow> staged_ok layers d \<Longrightarrow> fin_ok fin d \<Longrightarrow>
   staged_ok layers d' \<and> grows d d' \<and> fin_ok fin d'"
proof (induction rs arbitrary: d)
  case (Cons r rs)
  show ?case
  proof (cases "r \<in> set fin")
    case True
    with Cons.prems(1) obtain l l' where l: "map_of d r = Some l"
      and m: "mark_end_flag layers l phase layer = Inr l'"
      and rest: "stage_flags layers fin phase layer (AList.update r l' d) rs = Inr d'"
      by (auto simp: rbind_Inr_iff split: option.splits)
    have ok: "bounds_ok layers l" "in_step l" using staged_get [OF Cons.prems(2) l] by auto
    note mk = mark_ok [OF m ok(1)]
    have "commit_fields l l' = l'" using m
      by (cases l) (auto simp: mark_end_flag_def commit_fields_def split: option.splits if_splits)
    then have ev: "evolves l l'" using mk(3) by (simp add: evolves_def)
    have ex: "lt_state l' = EXECUTING" using mk(2) Cons.prems(3) True l by (simp add: fin_ok_def)
    note u = stage_update [OF Cons.prems(2) l ev mk(1) in_step_executing [OF ex]]
    have "fin_ok fin (AList.update r l' d)" using Cons.prems(3) ex by (intro fin_ok_update) auto
    from Cons.IH [OF rest u(1) this] show ?thesis using grows_trans [OF u(2)] by blast
  next
    case False
    with Cons show ?thesis by simp
  qed
qed simp

lemma stage_events_ok:
  "stage_events layers ops fin es d = Inr d' \<Longrightarrow> staged_ok layers d \<Longrightarrow> fin_ok fin d \<Longrightarrow>
   staged_ok layers d' \<and> grows d d' \<and> fin_ok fin d'"
proof (induction es arbitrary: d)
  case (Cons e es)
  from Cons.prems(1) obtain d1 where 1: "stage_event layers ops fin e d = Inr d1"
    and rest: "stage_events layers ops fin es d1 = Inr d'" by (auto simp: rbind_Inr_iff)
  have "staged_ok layers d1 \<and> grows d d1 \<and> fin_ok fin d1"
    using 1 Cons.prems(2,3)
    by (auto simp: stage_event_def split: option.splits if_splits dest: stage_flags_ok)
  then show ?case using Cons.IH [OF rest] grows_trans by blast
qed simp

lemma reconcile_commit: "commit_fields l (reconcile l) = reconcile l"
  by (cases l) (simp add: reconcile_def commit_fields_def Let_def)

lemma map_of_map_value: "map_of (map (\<lambda>(k, l). (k, f l)) d) k = map_option f (map_of d k)"
  by (induction d) auto

text \<open>What a step that passed its checks stages.\<close>

lemma stage_step_ok:
  assumes "stage_step g r graph x = Inr d" "staged_ok (rg_moe_layer_indices g) (rg_records g)"
  shows "dict_ok d" "grows (rg_records g) d" "dall (\<lambda>l. bounds_ok (rg_moe_layer_indices g) l \<and> settled l) d"
proof -
  let ?L = "rg_moe_layer_indices g"
  from assms(1) obtain ops d1 fin d2 d3 where
    1: "stage_scheduled (rg_records g) [] (st_scheduled r) = Inr (d1, fin)"
    and 2: "stage_finished d1 (st_finished_request_ids r) = Inr d2"
    and 3: "stage_events ?L ops fin (er_events x) d2 = Inr d3"
    and d: "d = map (\<lambda>(k, l). (k, reconcile l)) d3"
    unfolding stage_step_def rbind_Inr_iff
    by (auto simp: rbind_Inr_iff split: if_splits)
  have s1: "staged_ok ?L d1 \<and> grows (rg_records g) d1 \<and> fin_ok fin d1"
    using stage_scheduled_ok [OF 1 assms(2)] by (simp add: fin_ok_def)
  then have s2: "staged_ok ?L d2 \<and> grows d1 d2 \<and> fin_ok fin d2" using stage_finished_ok [OF 2] by blast
  then have s3: "staged_ok ?L d3 \<and> grows d2 d3" using stage_events_ok [OF 3] by blast
  have keys: "map fst d = map fst d3" by (simp add: d comp_def case_prod_unfold)
  then show "dict_ok d" using s3 by (simp add: staged_ok_def)
  show "dall (\<lambda>l. bounds_ok ?L l \<and> settled l) d"
    using s3 by (auto simp: d staged_ok_def dall_def list_all_iff reconcile_ok)
  have "grows d3 d"
    unfolding grows_def keys using s3 staged_get [of ?L d3]
    by (auto simp: d map_of_map_value evolves_def reconcile_commit intro: reconcile_ok)
  then show "grows (rg_records g) d" using s1 s2 s3 grows_trans by blast
qed

subsection \<open>Committing and releasing\<close>

lemma dict_eta: "dict_ok d \<Longrightarrow> map (\<lambda>k. (k, the (map_of d k))) (map fst d) = d"
  unfolding map_map by (rule map_idI) auto

lemma commit_step_grows:
  assumes "grows records d" "dict_ok records" "dict_ok d"
  shows "commit_step records d = d"
proof -
  have "commit_step records d = map (\<lambda>k. (k, the (map_of d k))) (map fst records)"
    unfolding commit_step_def map_map
  proof (rule map_cong [OF refl])
    fix x assume x: "x \<in> set records"
    obtain k l where kl: "x = (k, l)" by (cases x)
    with x assms(2) have "map_of records k = Some l" by simp
    with assms(1) obtain l' where "map_of d k = Some l'" "commit_fields l l' = l'"
      by (auto simp: grows_def evolves_def)
    then show "(\<lambda>(k, l). (k, case map_of d k of None \<Rightarrow> l | Some s \<Rightarrow> commit_fields l s)) x =
        ((\<lambda>k. (k, the (map_of d k))) \<circ> fst) x" by (simp add: kl)
  qed
  also have "map fst records = map fst d" using assms(1) by (simp add: grows_def)
  also have "map (\<lambda>k. (k, the (map_of d k))) (map fst d) = d" using assms(3) by (rule dict_eta)
  finally show ?thesis .
qed

text \<open>A release pass: each lifetime is as before, or closed and now released.\<close>

definition released_from :: "string \<times> request_lifetime \<Rightarrow> string \<times> request_lifetime \<Rightarrow> bool" where
  "released_from x y \<longleftrightarrow> fst y = fst x \<and>
     (snd y = snd x \<or> lt_state (snd x) = CLOSED \<and> snd y = (snd x)\<lparr>lt_view_released := True\<rparr>)"

lemma released_from_intros [simp]:
  "released_from x x"
  "lt_state l = CLOSED \<Longrightarrow> released_from (k, l) (k, l\<lparr>lt_view_released := True\<rparr>)"
  by (simp_all add: released_from_def)

lemma release_closed_any:
  "release_closed cb d = (d', calls, e) \<Longrightarrow>
   list_all2 released_from d d' \<and>
   set calls \<subseteq> (\<lambda>x. lt_request_id (snd x)) ` {x \<in> set d. lt_state (snd x) = CLOSED}"
proof (induction d arbitrary: d' calls e)
  case (Cons x d)
  obtain k l where x: "x = (k, l)" by (cases x)
  obtain d1 calls1 e1 where r: "release_closed cb d = (d1, calls1, e1)" by (metis prod_cases3)
  have same: "list_all2 released_from d d" by (simp add: list_all2_same)
  note IH = Cons.IH [OF r]
  show ?case
  proof (cases "lt_state l = CLOSED \<and> \<not> lt_view_released l \<and> \<not> cb (lt_request_id l)")
    case True
    then have "d' = (k, l) # d" "calls = [lt_request_id l]" using Cons.prems by (auto simp: x release_view_def)
    then show ?thesis using True same by (force simp: x)
  next
    case False
    then have "d' = (k, if lt_state l = CLOSED \<and> \<not> lt_view_released l then l\<lparr>lt_view_released := True\<rparr> else l) # d1"
      "calls = (if lt_state l = CLOSED \<and> \<not> lt_view_released l then [lt_request_id l] else []) @ calls1"
      using Cons.prems by (auto simp: x r release_view_def split: if_splits)
    then show ?thesis using IH by (auto simp: x intro: rev_image_eqI [of "(k, l)"])
  qed
qed simp

lemma release_closed_total:
  assumes "\<forall>k. cb k"
  shows "release_closed cb d =
    (map (\<lambda>(k, l). (k, if lt_state l = CLOSED then l\<lparr>lt_view_released := True\<rparr> else l)) d,
     map (\<lambda>(k, l). lt_request_id l) (filter (\<lambda>(k, l). lt_state l = CLOSED \<and> \<not> lt_view_released l) d), None)"
proof (induction d)
  case (Cons x d)
  obtain k l where x: "x = (k, l)" by (cases x)
  have "l\<lparr>lt_view_released := True\<rparr> = l" if "lt_view_released l" using that by (cases l) simp
  with Cons assms show ?case by (simp add: x release_view_def)
qed simp

subsection \<open>The registry as a machine\<close>

datatype lifetime_op =
    Register string join_provenance int routing_view_descriptor
  | ConsumeStep step_record execution_graph execution_result

fun lifetime_step ::
    "(string \<Rightarrow> bool) \<Rightarrow> lifetime_registry \<Rightarrow> lifetime_op \<Rightarrow> lifetime_registry \<times> (lifetime_error + unit)" where
  "lifetime_step cb g (Register r p t v) =
     (case first_err [check_provenance p, check_view v] of
        Some e \<Rightarrow> (g, Inl e)
      | None \<Rightarrow> (case register g r p t v of (g', Inl e) \<Rightarrow> (g', Inl e) | (g', Inr _) \<Rightarrow> (g', Inr ())))"
| "lifetime_step cb g (ConsumeStep r graph x) = consume_step cb g r graph x"

definition rec_ok :: "int list \<Rightarrow> string \<times> request_lifetime \<Rightarrow> bool" where
  "rec_ok layers x \<longleftrightarrow> lt_request_id (snd x) = fst x \<and> bounds_ok layers (snd x) \<and> settled (snd x) \<and>
     (lt_view_released (snd x) \<longrightarrow> lt_state (snd x) = CLOSED)"

definition closed_ids :: "lifetime_registry \<Rightarrow> string set" where
  "closed_ids g = {k. \<exists>l. (k, l) \<in> set (rg_records g) \<and> lt_state l = CLOSED}"

definition released_ids :: "lifetime_registry \<Rightarrow> string set" where
  "released_ids g = {k. \<exists>l. (k, l) \<in> set (rg_records g) \<and> lt_view_released l}"

definition reg_inv :: "(string \<Rightarrow> bool) \<Rightarrow> lifetime_registry \<Rightarrow> bool" where
  "reg_inv cb g \<longleftrightarrow> dict_ok (rg_records g) \<and> list_all (rec_ok (rg_moe_layer_indices g)) (rg_records g) \<and>
     set (rg_release_calls g) \<subseteq> closed_ids g \<and>
     ((\<forall>k. cb k) \<longrightarrow> distinct (rg_release_calls g) \<and> set (rg_release_calls g) = closed_ids g \<and>
        released_ids g = closed_ids g)"

lemma new_registry_inv: "new_registry layers = Inr g \<Longrightarrow> reg_inv cb g"
  by (auto simp: new_registry_def constructed_Inr_iff reg_inv_def closed_ids_def released_ids_def)

lemma register_inv:
  assumes "reg_inv cb g" "register g r p t v = (g', Inr l)"
  shows "reg_inv cb g'"
proof -
  from assms(2) have fresh: "map_of (rg_records g) r = None" and c: "check_lifetime l = None"
    and l: "lt_request_id l = r" "lt_state l = JOINED" "untouched l" "\<not> lt_view_released l"
      "lt_moe_layer_indices l = rg_moe_layer_indices g"
    and g': "g' = g\<lparr>rg_records := AList.update r l (rg_records g)\<rparr>"
    by (auto simp: register_def Let_def untouched_def split: if_splits option.splits)
  have u: "AList.update r l (rg_records g) = rg_records g @ [(r, l)]"
    using fresh by (intro update_append_fresh) (simp add: map_of_eq_None_iff)
  have "rec_ok (rg_moe_layer_indices g) (r, l)"
    using l c by (auto simp: rec_ok_def settled_def bounds_ok_def untouched_def check_lifetime_def)
  moreover have "closed_ids g' = closed_ids g" "released_ids g' = released_ids g"
    using l by (auto simp: closed_ids_def released_ids_def g' u)
  moreover have "dict_ok (rg_records g')" using assms(1) by (simp add: g' reg_inv_def)
  ultimately show ?thesis using assms(1) by (simp add: reg_inv_def g' u)
qed

lemma reg_inv_staged: "reg_inv cb g \<Longrightarrow> staged_ok (rg_moe_layer_indices g) (rg_records g)"
  by (auto simp: reg_inv_def staged_ok_def dall_def list_all_iff rec_ok_def dest: settled_in_step)

text \<open>What \<open>consume_step\<close> did when its checks passed, whatever the callbacks did afterwards.\<close>

lemma consume_stepE:
  assumes "reg_inv cb g" "stage_step g r graph x = Inr d"
  obtains d' calls e where "release_closed cb d = (d', calls, e)"
    "consume_step cb g r graph x =
      (g\<lparr>rg_records := d',
         rg_consumed_execution_ids := List.insert (eg_execution_id graph) (rg_consumed_execution_ids g),
         rg_release_calls := rg_release_calls g @ calls\<rparr>,
       case e of None \<Rightarrow> Inr () | Some e \<Rightarrow> Inl e)"
proof -
  note st = stage_step_ok [OF assms(2) reg_inv_staged [OF assms(1)]]
  have c: "commit_step (rg_records g) d = d"
    using st assms(1) by (intro commit_step_grows) (auto simp: reg_inv_def)
  obtain d' calls e where r: "release_closed cb d = (d', calls, e)" by (metis prod_cases3)
  show thesis by (rule that [OF r]) (simp add: consume_step_def assms(2) c r)
qed

lemma grows_rec_ok:
  assumes "grows records d" "list_all (rec_ok layers) records" "dict_ok records" "dict_ok d"
    and "dall (\<lambda>l. bounds_ok layers l \<and> settled l) d"
  shows "list_all (rec_ok layers) d"
    "\<And>k l. (k, l) \<in> set records \<Longrightarrow> lt_state l = CLOSED \<Longrightarrow> \<exists>l'. (k, l') \<in> set d \<and> lt_state l' = CLOSED"
    "\<And>k. (\<exists>l. (k, l) \<in> set d \<and> lt_view_released l) = (\<exists>l. (k, l) \<in> set records \<and> lt_view_released l)"
proof -
  have fwd: "\<exists>l'. (k, l') \<in> set d \<and> evolves l l'" if "(k, l) \<in> set records" for k l
    using that assms(1,3) by (force simp: grows_def dest: map_of_SomeD)
  have bwd: "\<exists>l. (k, l) \<in> set records \<and> evolves l l'" if "(k, l') \<in> set d" for k l'
  proof -
    have "k \<in> set (map fst d)" using that by force
    then have "k \<in> set (map fst records)" using assms(1) by (simp only: grows_def)
    then obtain l where l: "(k, l) \<in> set records" by auto
    with fwd obtain m where "(k, m) \<in> set d" "evolves l m" by blast
    moreover have "m = l'" using calculation(1) that assms(4) by (rule eq_key_imp_eq_value [rotated 1]) 
    ultimately show ?thesis using l by blast
  qed
  have keep: "lt_view_released l' = lt_view_released l \<and> lt_request_id l' = lt_request_id l \<and>
      (lt_state l = CLOSED \<longrightarrow> lt_state l' = CLOSED)" if "evolves l l'" for l l'
  proof -
    have "commit_fields l l' = l'" "advances l l'" using that by (auto simp: evolves_def)
    moreover have "lt_view_released (commit_fields l l') = lt_view_released l" by (simp add: commit_fields_def)
    ultimately have "lt_view_released l' = lt_view_released l" "advances l l'" by simp_all
    then show ?thesis by (cases "lt_state l'") (auto simp: advances_def)
  qed
  show "list_all (rec_ok layers) d"
    unfolding list_all_iff
  proof
    fix x assume x: "x \<in> set d"
    obtain k l' where kl: "x = (k, l')" by (cases x)
    with x bwd obtain l where l: "(k, l) \<in> set records" "evolves l l'" by blast
    have "bounds_ok layers l' \<and> settled l'" using assms(5) x kl by (auto simp: dall_def list_all_iff)
    moreover have "rec_ok layers (k, l)" using assms(2) l(1) by (auto simp: list_all_iff)
    ultimately show "rec_ok layers x" using keep [OF l(2)] by (auto simp: rec_ok_def kl)
  qed
  show "\<exists>l'. (k, l') \<in> set d \<and> lt_state l' = CLOSED" if "(k, l) \<in> set records" "lt_state l = CLOSED" for k l
    using fwd [OF that(1)] keep that(2) by blast
  show "(\<exists>l. (k, l) \<in> set d \<and> lt_view_released l) = (\<exists>l. (k, l) \<in> set records \<and> lt_view_released l)" for k
    using fwd bwd keep by metis
qed

lemma released_from_rec_ok: "released_from x y \<Longrightarrow> rec_ok layers x \<Longrightarrow> rec_ok layers y"
  by (auto simp: released_from_def rec_ok_def bounds_ok_def settled_def untouched_def drained_def
      routing_consumed_def dispatch_complete_def combine_complete_def full_end_mask_def
      split: lifecycle_state.splits)

lemma released_from_all:
  "list_all2 released_from d d' \<Longrightarrow> list_all (rec_ok layers) d \<Longrightarrow> list_all (rec_ok layers) d'"
  by (induction d d' rule: list_all2_induct) (auto intro: released_from_rec_ok)

lemma released_from_keys: "list_all2 released_from d d' \<Longrightarrow> map fst d' = map fst d"
  by (induction d d' rule: list_all2_induct) (auto simp: released_from_def)

lemma released_from_lookup:
  "list_all2 released_from d d' \<Longrightarrow> map_of d k = Some m \<Longrightarrow> map_of d' k = Some l' \<Longrightarrow>
   l' = m \<or> l' = m\<lparr>lt_view_released := True\<rparr>"
  by (induction d d' rule: list_all2_induct) (auto simp: released_from_def split: if_splits)

lemma released_from_states:
  "list_all2 released_from d d' \<Longrightarrow>
   (\<exists>l. (k, l) \<in> set d' \<and> lt_state l = CLOSED) = (\<exists>l. (k, l) \<in> set d \<and> lt_state l = CLOSED)"
proof (induction d d' rule: list_all2_induct)
  case (Cons x d y d')
  have "fst y = fst x" "lt_state (snd y) = lt_state (snd x)" using Cons(1) by (auto simp: released_from_def)
  with Cons(3) show ?case by (cases x; cases y) auto
qed simp

lemma release_pass_total:
  assumes "\<forall>k. cb k" and rel: "release_closed cb d = (d', calls, e)" and d: "dict_ok d"
    and ok: "list_all (rec_ok layers) d" and old: "distinct old" and g': "rg_records g' = d'"
    and "set old = released_ids g" and "released_ids g = {k. \<exists>l. (k, l) \<in> set d \<and> lt_view_released l}"
  shows "distinct (old @ calls) \<and> set (old @ calls) = closed_ids g' \<and> released_ids g' = closed_ids g'"
proof -
  let ?fresh = "\<lambda>(k, l). lt_state l = CLOSED \<and> \<not> lt_view_released l"
  let ?rel = "\<lambda>(k, l). (k, if lt_state l = CLOSED then l\<lparr>lt_view_released := True\<rparr> else l)"
  have d': "d' = map ?rel d" and c0: "calls = map (\<lambda>(k, l). lt_request_id l) (filter ?fresh d)"
    using rel release_closed_total [OF assms(1), of d] by auto
  have ids: "lt_request_id l = k" "lt_view_released l \<Longrightarrow> lt_state l = CLOSED" if "(k, l) \<in> set d" for k l
    using ok that by (force simp: list_all_iff rec_ok_def)+
  then have c: "calls = map fst (filter ?fresh d)" unfolding c0 by (intro map_cong) auto
  have olds: "set old = {k. \<exists>l. (k, l) \<in> set d \<and> lt_view_released l}" using assms(7,8) by simp
  have "distinct calls" unfolding c using d by (rule distinct_map_filter)
  moreover have "set old \<inter> set calls = {}"
    unfolding olds c using d by (auto dest: eq_key_imp_eq_value)
  moreover have closed: "closed_ids g' = {k. \<exists>l. (k, l) \<in> set d \<and> lt_state l = CLOSED}"
    by (force simp: closed_ids_def g' d' split: if_splits)
  moreover have "set old \<union> set calls = {k. \<exists>l. (k, l) \<in> set d \<and> lt_state l = CLOSED}"
    unfolding olds c using ids(2) by force
  moreover have "released_ids g' = {k. \<exists>l. (k, l) \<in> set d \<and> lt_state l = CLOSED}"
    using ids(2) by (force simp: released_ids_def g' d' split: if_splits)
  ultimately show ?thesis using old by simp
qed

lemma consume_step_inv:
  assumes inv: "reg_inv cb g" and c: "consume_step cb g r graph x = (g', res)"
  shows "reg_inv cb g'"
proof (cases "stage_step g r graph x")
  case (Inl e)
  with c inv show ?thesis by (simp add: consume_step_def)
next
  case (Inr d)
  let ?L = "rg_moe_layer_indices g"
  obtain d' calls e where rel: "release_closed cb d = (d', calls, e)"
    and eq: "consume_step cb g r graph x =
      (g\<lparr>rg_records := d',
         rg_consumed_execution_ids := List.insert (eg_execution_id graph) (rg_consumed_execution_ids g),
         rg_release_calls := rg_release_calls g @ calls\<rparr>,
       case e of None \<Rightarrow> Inr () | Some e \<Rightarrow> Inl e)"
    using inv Inr by (rule consume_stepE)
  have g': "rg_records g' = d'" "rg_moe_layer_indices g' = ?L"
      "rg_release_calls g' = rg_release_calls g @ calls" using eq c by auto
  note st = stage_step_ok [OF Inr reg_inv_staged [OF inv]]
  have recs: "list_all (rec_ok ?L) (rg_records g)" "dict_ok (rg_records g)"
    using inv by (auto simp: reg_inv_def)
  note gr = grows_rec_ok [OF st(2) recs st(1,3)]
  note any = release_closed_any [OF rel]
  have keys: "map fst d' = map fst d" using any by (blast intro: released_from_keys)
  have ok: "list_all (rec_ok ?L) d'"
    using any gr(1) released_from_all by blast
  have closed: "closed_ids g' = {k. \<exists>l. (k, l) \<in> set d \<and> lt_state l = CLOSED}"
    using released_from_states [of d d'] any by (simp add: closed_ids_def g')
  have mono: "closed_ids g \<subseteq> closed_ids g'" using gr(2) unfolding closed by (auto simp: closed_ids_def)
  have "lt_request_id l = k" if "(k, l) \<in> set d" for k l
    using gr(1) that by (force simp: list_all_iff rec_ok_def)
  then have calls: "set calls \<subseteq> closed_ids g'" using any unfolding closed by force
  have total: "distinct (rg_release_calls g @ calls) \<and> set (rg_release_calls g @ calls) = closed_ids g' \<and>
      released_ids g' = closed_ids g'" if cb: "\<forall>k. cb k"
  proof (rule release_pass_total [OF cb rel st(1) gr(1) _ g'(1)])
    show "distinct (rg_release_calls g)" "set (rg_release_calls g) = released_ids g"
      using inv cb by (auto simp: reg_inv_def)
    show "released_ids g = {k. \<exists>l. (k, l) \<in> set d \<and> lt_view_released l}"
      using gr(3) by (simp add: released_ids_def)
  qed
  show ?thesis
    unfolding reg_inv_def g' using keys st(1) ok inv mono calls total
    by (auto simp: reg_inv_def)
qed

lemma consume_step_total_reject:
  assumes "reg_inv cb g" "\<forall>k. cb k" "consume_step cb g r graph x = (g', Inl e)"
  shows "g' = g"
proof (cases "stage_step g r graph x")
  case (Inr d)
  from assms(1) Inr obtain d' calls e' where "release_closed cb d = (d', calls, e')"
    "snd (consume_step cb g r graph x) = (case e' of None \<Rightarrow> Inr () | Some e \<Rightarrow> Inl e)"
    by (rule consume_stepE) simp
  with release_closed_total [OF assms(2), of d] assms(3) show ?thesis by simp
qed (use assms in \<open>simp add: consume_step_def\<close>)

lemma register_reject: "register g r p t v = (g', Inl e) \<Longrightarrow> g' = g"
  by (auto simp: register_def Let_def split: if_splits option.splits)

lemma lifetime_step_inv:
  assumes "reg_inv cb g" "lifetime_step cb g op = (g', res)"
  shows "reg_inv cb g'"
proof (cases op)
  case (Register r p t v)
  with assms show ?thesis
    by (auto split: option.splits prod.splits sum.splits dest: register_inv register_reject)
next
  case (ConsumeStep r graph x)
  with assms show ?thesis using consume_step_inv by simp
qed

interpretation lifetime: invariant_machine "lifetime_step cb" "reg_inv cb" for cb
  by unfold_locales (fact lifetime_step_inv)

subsection \<open>Properties\<close>

lemma history_reg_inv: "new_registry layers = Inr g0 \<Longrightarrow> reaches (lifetime_step cb) g0 g \<Longrightarrow> reg_inv cb g"
  using lifetime.reaches_inv new_registry_inv by blast

lemma reg_inv_rec: "reg_inv cb g \<Longrightarrow> map_of (rg_records g) k = Some l \<Longrightarrow> rec_ok (rg_moe_layer_indices g) (k, l)"
  by (auto simp: reg_inv_def list_all_iff dest: map_of_SomeD)

lemma drained_iff:
  assumes "bounds_ok layers l"
  shows "drained l \<longleftrightarrow> lt_consumption_cursor l = token_count l \<and>
    missing_layers l ''dispatch'' = Inr [] \<and> missing_layers l ''combine'' = Inr []"
  using assms
  by (auto simp: drained_def routing_consumed_def dispatch_complete_def combine_complete_def
      full_end_mask_def missing_layers_def layers_missing_Nil_iff bounds_ok_def full_iff)

text \<open>A request of one layer and two tokens that is prefilled, completed and finished.\<close>

definition ex_operation :: "string \<Rightarrow> execution_operation" where
  "ex_operation phase =
     \<lparr>op_operation_id = phase, op_rank = 0, op_logical_queue = ''q'',
      op_work = CollectiveWork \<lparr>lw_collective = ''all-to-allv'', lw_ranks = [0, 1],
        lw_payload_bytes = 8, lw_algorithm_hint = Some ''pairwise'', lw_channel_hint = Some phase,
        lw_pair_payload_bytes = [], lw_request_pair_payload_bytes = []\<rparr>,
      op_depends_on = [], op_not_before_ps = 0, op_priority = 0,
      op_correlation = empty_correlation\<lparr>oc_request_ids := [''r''], oc_layer := Some 4\<rparr>,
      op_placement_epoch = 0, op_participant_local_depends_on = []\<rparr>"

definition ex_step :: "string list \<Rightarrow> int \<Rightarrow> lifetime_op" where
  "ex_step phases index =
     ConsumeStep
       \<lparr>st_step_index = index, st_virtual_time_ps = 0,
        st_scheduled = [\<lparr>sr_request_id = ''r'', sr_phase = PREFILL, sr_num_new_tokens = 2,
          sr_num_cached_tokens = 0, sr_context_length = 2\<rparr>],
        st_preempted_request_ids = [], st_finished_request_ids = [''r''], st_num_sampled = None,
        st_num_tokens_after_padding = None, st_sampled_request_ids = None,
        st_collective_service = None\<rparr>
       \<lparr>eg_execution_id = ''e'', eg_step_index = index, eg_released_at_ps = 0,
        eg_operations = map ex_operation phases, eg_completion_operation_ids = phases,
        eg_collective_plans = []\<rparr>
       \<lparr>er_execution_id = ''e'', er_completed_at_ps = 5,
        er_events = map (\<lambda>p. \<lparr>ce_execution_id = ''e'', ce_operation_id = p, ce_phase = COMPLETED,
          ce_timestamp_ps = 5, ce_resource = None, ce_completed_bytes = None,
          ce_subject_object_id = None\<rparr>) phases,
        er_quiesced_at_ps = None\<rparr>"

definition ex_register :: lifetime_op where
  "ex_register =
     Register ''r'' \<lparr>jp_run_schema = ''run'', jp_trace_schema = ''trace'',
         jp_trace_sha256 = replicate 64 (CHR ''a'')\<rparr> 0
       \<lparr>rv_arena_id = ''arena'', rv_token_offset = 0, rv_token_count = 2, rv_prompt_token_count = 2\<rparr>"

definition ex_registry :: lifetime_registry where
  "ex_registry = projr (new_registry [4])"

definition ex_registered :: lifetime_registry where
  "ex_registered = fst (lifetime_step (\<lambda>_. True) ex_registry ex_register)"

definition ex_closed :: lifetime_registry where
  "ex_closed = fst (lifetime_step (\<lambda>_. True) ex_registered (ex_step [''dispatch'', ''combine''] 1))"

lemma ex_registry_new: "new_registry [4] = Inr ex_registry"
  unfolding ex_registry_def by code_simp

lemma ex_registered_reached: "reaches (lifetime_step (\<lambda>_. True)) ex_registry ex_registered"
  unfolding ex_registered_def
  by (rule reaches_step [OF reaches_refl, of _ _ ex_register]) (rule surjective_pairing)

lemma ex_closed_reached: "reaches (lifetime_step (\<lambda>_. True)) ex_registry ex_closed"
  unfolding ex_closed_def
  by (rule reaches_step [OF ex_registered_reached, of "ex_step [''dispatch'', ''combine''] 1"])
    (rule surjective_pairing)

text \<open>
  C18. Closing is exact.  After any history of registrations and steps, and however the
  release callbacks behave, a request is CLOSED exactly when the scheduler has finished it,
  its cursor covers every token of its view and no layer's dispatch or combine end flag is
  missing; and a view is released only for a closed request.
\<close>

theorem lifetime_close_out:
  assumes "new_registry layers = Inr g0" and "reaches (lifetime_step cb) g0 g"
    and "map_of (rg_records g) k = Some l"
  shows "(lt_state l = CLOSED \<longleftrightarrow>
      lt_scheduler_finished l \<and> lt_consumption_cursor l = token_count l \<and>
      missing_layers l ''dispatch'' = Inr [] \<and> missing_layers l ''combine'' = Inr []) \<and>
    (lt_view_released l \<longrightarrow> lt_state l = CLOSED)"
proof -
  have "rec_ok (rg_moe_layer_indices g) (k, l)"
    using history_reg_inv [OF assms(1,2)] assms(3) by (rule reg_inv_rec)
  then have b: "bounds_ok (rg_moe_layer_indices g) l" and s: "settled l"
    and v: "lt_view_released l \<longrightarrow> lt_state l = CLOSED" by (auto simp: rec_ok_def)
  from s have "lt_state l = CLOSED \<longleftrightarrow> lt_scheduler_finished l \<and> drained l" by (rule settled_closed_iff)
  then show ?thesis using v drained_iff [OF b] by blast
qed

theorem lifetime_close_out_witness:
  "lt_scheduler_finished (the (map_of (rg_records ex_closed) ''r'')) \<and>
   missing_layers (the (map_of (rg_records ex_closed) ''r'')) ''combine'' = Inr []"
proof -
  have "map_of (rg_records ex_closed) ''r'' = Some (the (map_of (rg_records ex_closed) ''r''))"
    "lt_state (the (map_of (rg_records ex_closed) ''r'')) = CLOSED" by code_simp+
  then show ?thesis using lifetime_close_out [OF ex_registry_new ex_closed_reached] by blast
qed

text \<open>
  C19. Views are released exactly once.  When the callbacks return, the calls made over any
  history name each closed request exactly once and nobody else, and the views marked
  released are those of the closed requests.
\<close>

theorem lifetime_release_once:
  assumes "new_registry layers = Inr g0" and "reaches (lifetime_step (\<lambda>_. True)) g0 g"
  shows "distinct (rg_release_calls g) \<and> set (rg_release_calls g) = closed_ids g \<and>
    released_ids g = closed_ids g"
  using history_reg_inv [OF assms] by (simp add: reg_inv_def)

theorem lifetime_release_once_witness:
  "set (rg_release_calls ex_closed) = closed_ids ex_closed \<and> rg_release_calls ex_closed = [''r'']"
proof -
  have "rg_release_calls ex_closed = [''r'']" by code_simp
  then show ?thesis using lifetime_release_once [OF ex_registry_new ex_closed_reached] by blast
qed

text \<open>
  C23. Requests only move forward.  An accepted step keeps the registered requests and
  their order; none goes back in the lifecycle, no cursor decreases, no finish or end flag
  is withdrawn, and no routing view changes.
\<close>

theorem lifetime_forward:
  assumes "new_registry layers = Inr g0" and "reaches (lifetime_step cb) g0 g"
    and "consume_step cb g r graph x = (g', Inr u)"
  shows "map fst (rg_records g') = map fst (rg_records g) \<and>
    (\<forall>k l l'. map_of (rg_records g) k = Some l \<longrightarrow> map_of (rg_records g') k = Some l' \<longrightarrow> advances l l')"
proof -
  have inv: "reg_inv cb g" using assms(1,2) by (rule history_reg_inv)
  from assms(3) obtain d where s: "stage_step g r graph x = Inr d"
    by (auto simp: consume_step_def split: sum.splits prod.splits)
  obtain d' calls e where rel: "release_closed cb d = (d', calls, e)"
    and eq: "consume_step cb g r graph x =
      (g\<lparr>rg_records := d',
         rg_consumed_execution_ids := List.insert (eg_execution_id graph) (rg_consumed_execution_ids g),
         rg_release_calls := rg_release_calls g @ calls\<rparr>,
       case e of None \<Rightarrow> Inr () | Some e \<Rightarrow> Inl e)"
    using inv s by (rule consume_stepE)
  have g': "rg_records g' = d'" using eq assms(3) by auto
  note st = stage_step_ok [OF s reg_inv_staged [OF inv]]
  have any: "list_all2 released_from d d'" using release_closed_any [OF rel] by blast
  have keys: "map fst d' = map fst (rg_records g)"
    using released_from_keys [OF any] st(2) by (simp add: grows_def)
  have "advances l l'" if "map_of (rg_records g) k = Some l" "map_of d' k = Some l'" for k l l'
  proof -
    from that(1) st(2) obtain m where m: "map_of d k = Some m" "advances l m"
      by (auto simp: grows_def evolves_def)
    have "l' = m \<or> l' = m\<lparr>lt_view_released := True\<rparr>"
      using released_from_lookup [OF any m(1) that(2)] .
    then show ?thesis using m(2) by (auto simp: advances_def)
  qed
  then show ?thesis using keys g' by blast
qed

theorem lifetime_forward_witness:
  "map fst (rg_records ex_closed) = map fst (rg_records ex_registered)"
proof -
  have "lifetime_step (\<lambda>_. True) ex_registered (ex_step [''dispatch'', ''combine''] 1) = (ex_closed, Inr ())"
    unfolding ex_closed_def by code_simp
  then show ?thesis
    unfolding ex_step_def lifetime_step.simps
    using lifetime_forward [OF ex_registry_new ex_registered_reached] by blast
qed

text \<open>
  C24. A refused step changes nothing.  With callbacks that return, a step that
  \<open>consume_step\<close> rejects, however far its staging went, leaves every lifetime, the
  consumed executions and the release calls as they were.
\<close>

theorem lifetime_step_atomic:
  assumes "new_registry layers = Inr g0" and "reaches (lifetime_step (\<lambda>_. True)) g0 g"
    and "consume_step (\<lambda>_. True) g r graph x = (g', Inl e)"
  shows "g' = g"
  using history_reg_inv [OF assms(1,2)] _ assms(3) by (rule consume_step_total_reject) simp

theorem lifetime_step_atomic_witness:
  "fst (lifetime_step (\<lambda>_. True) ex_closed (ex_step [''dispatch''] 1)) = ex_closed"
proof -
  have "lifetime_step (\<lambda>_. True) ex_closed (ex_step [''dispatch''] 1) =
      (fst (lifetime_step (\<lambda>_. True) ex_closed (ex_step [''dispatch''] 1)), Inl (AlreadyConsumed ''e''))"
    by code_simp
  then show ?thesis
    unfolding ex_step_def lifetime_step.simps
    by (rule lifetime_step_atomic [OF ex_registry_new ex_closed_reached])
qed

text \<open>
  C25. The audit is decisive.  On any registry that a history leads to, \<open>audit_closed\<close>
  returns exactly when every registered request has been finished by the scheduler, is fully
  consumed with no missing end flag, and has its view released.
\<close>

theorem lifetime_audit_exact:
  assumes "new_registry layers = Inr g0" and "reaches (lifetime_step cb) g0 g"
  shows "audit_closed g = None \<longleftrightarrow>
    list_all (\<lambda>(k, l). lt_scheduler_finished l \<and> drained l \<and> lt_view_released l) (rg_records g)"
proof -
  have inv: "reg_inv cb g" using assms by (rule history_reg_inv)
  have closed: "lt_state l = CLOSED \<longleftrightarrow> lt_scheduler_finished l \<and> drained l" if "(k, l) \<in> set (rg_records g)" for k l
  proof -
    have "map_of (rg_records g) k = Some l" using that inv by (simp add: reg_inv_def)
    with inv have "rec_ok (rg_moe_layer_indices g) (k, l)" by (rule reg_inv_rec)
    then show ?thesis by (simp add: rec_ok_def settled_closed_iff)
  qed
  have live: "live_view_count g = 0" if "\<forall>x \<in> set (rg_records g). lt_view_released (snd x)"
  proof -
    have "live_view_count g = dsum (\<lambda>l. 0) (rg_records g)"
      unfolding live_view_count_def using that by (intro dsum_cong) auto
    then show ?thesis by (simp add: dsum_def)
  qed
  show ?thesis
  proof
    assume "audit_closed g = None"
    then have "\<forall>x \<in> set (rg_records g). lt_state (snd x) = CLOSED \<and> lt_view_released (snd x)"
      by (simp add: audit_closed_def Let_def filter_empty_conv case_prod_unfold split: if_splits)
    then show "list_all (\<lambda>(k, l). lt_scheduler_finished l \<and> drained l \<and> lt_view_released l) (rg_records g)"
      using closed by (auto simp: list_all_iff)
  next
    assume "list_all (\<lambda>(k, l). lt_scheduler_finished l \<and> drained l \<and> lt_view_released l) (rg_records g)"
    then have "\<forall>x \<in> set (rg_records g). lt_state (snd x) = CLOSED \<and> lt_view_released (snd x)"
      using closed by (auto simp: list_all_iff)
    then show "audit_closed g = None"
      using live by (simp add: audit_closed_def Let_def filter_empty_conv case_prod_unfold)
  qed
qed

theorem lifetime_audit_exact_witness:
  "audit_closed ex_closed = None \<and> audit_closed ex_registered \<noteq> None"
proof -
  have "list_all (\<lambda>(k, l). lt_scheduler_finished l \<and> drained l \<and> lt_view_released l) (rg_records ex_closed)"
    "\<not> list_all (\<lambda>(k, l). lt_scheduler_finished l \<and> drained l \<and> lt_view_released l) (rg_records ex_registered)"
    by code_simp+
  then show ?thesis
    using lifetime_audit_exact [OF ex_registry_new ex_closed_reached]
      lifetime_audit_exact [OF ex_registry_new ex_registered_reached] by blast
qed

end
