(* ===== verification/Bookkeeping.thy ===== *)
theory Bookkeeping
  imports Execution
begin

text \<open>
  The append-only request and object ledger of \<open>simllm/core/bookkeeping.py\<close>.  Facts are
  validated one by one against the state that the earlier facts leave; a batch is validated
  on a copy-on-write overlay of the bookkeeper's own state and committed only when every
  fact passed.  The overlay chain is the recursive datatype \<open>vstate\<close>.  A validation that
  raises keeps the state it has written so far, as in the source.
\<close>

subsection \<open>Facts\<close>

datatype processing_stage =
    REQUEST_STAGE | SCHEDULER_STAGE | FRAMEWORK_MEMORY_STAGE | EXECUTION_STAGE | COLLECTIVE_STAGE
  | NETWORK_STAGE | COMPLETION_STAGE

datatype stage_phase = ENTERED | STAGE_COMPLETED

datatype created_object_kind =
    FRAMEWORK_REQUEST | VRAM_ALLOCATION | EXECUTION_OPERATION | NCCL_COMMAND | SEND_QUEUE
  | RECEIVE_QUEUE | OBJ_COMPLETION_QUEUE | NETWORK_WQE | DCQCN_QP | RNIC_CN_LINK_PAIR

datatype object_owner = FRAMEWORK | CORE | NCCL | DEVICE_RUNTIME | NETWORK_BACKEND

definition reusable_object_kinds :: "created_object_kind list" where
  "reusable_object_kinds =
     [VRAM_ALLOCATION, SEND_QUEUE, RECEIVE_QUEUE, OBJ_COMPLETION_QUEUE, DCQCN_QP, RNIC_CN_LINK_PAIR]"

record created_object_ref =
  cr_kind :: created_object_kind
  cr_object_id :: string

record bookkeeping_scope =
  bs_correlation :: operation_correlation
  bs_step_index :: "int option"
  bs_execution_id :: "string option"
  bs_operation_id :: "string option"

type_synonym object_metadata = "(string \<times> config_scalar) list"

record created_object_record =
  co_ref :: created_object_ref
  co_owner :: object_owner
  co_created_at_ps :: int
  co_scope :: bookkeeping_scope
  co_native_id :: "string option"
  co_parent_refs :: "created_object_ref list"
  co_metadata :: object_metadata

record stage_record =
  sg_stage :: processing_stage
  sg_phase :: stage_phase
  sg_timestamp_ps :: int
  sg_scope :: bookkeeping_scope
  sg_object_refs :: "created_object_ref list"

datatype bookkeeping_fact =
    CreatedFact created_object_record
  | StageFact stage_record
  | EventFact completion_event

record bookkeeping_entry =
  en_sequence :: int
  en_fact :: bookkeeping_fact

record framework_request_arrival =
  fa_sequence :: int
  fa_request_id :: string
  fa_arrived_at_ps :: int
  fa_request_ref :: created_object_ref

type_synonym bookkeeping_ledger = "bookkeeping_entry list"

datatype bk_error =
    BkBlank | BkNegative | BkDuplicateValues | BkScopeWithoutExecution | BkBadScalar | BkDuplicateKeys
  | BkIntroducedRequests | BkParentsDisagree | BkNotInherited
  | BkSequence | BkDuplicateObject | BkSelfParent | BkUnknownRef | BkChildPredatesParent
  | BkWqeQueue | BkWqeTransports | BkWqeTransportMissing | BkWqeTransportNone
  | BkStagePredatesObject
  | BkUnknownSubject | BkExecutionMismatch | BkOperationMismatch | BkCompletionPredatesSubject
  | BkSubjectBackwards | BkSecondCompletion | BkEventAfterCompletion | BkWrongCompletionQueue
  | BkRootCommit | BkNotFrameworkOwned | BkRequestCount | BkSecondRequestObject

subsection \<open>Field validators\<close>

definition bk_text :: "string \<Rightarrow> bk_error option" where
  "bk_text s = guard (nonblank s) BkBlank"

definition bk_nonnegative :: "int \<Rightarrow> bk_error option" where
  "bk_nonnegative n = guard (0 \<le> n) BkNegative"

definition bk_opt :: "('a \<Rightarrow> bk_error option) \<Rightarrow> 'a option \<Rightarrow> bk_error option" where
  "bk_opt f ob = (case ob of None \<Rightarrow> None | Some a \<Rightarrow> f a)"

definition validate_correlation :: "operation_correlation \<Rightarrow> bk_error option" where
  "validate_correlation c =
     first_err
       (map bk_text (oc_request_ids c)
        @ [guard (distinct (oc_request_ids c)) BkDuplicateValues,
           bk_opt bk_text (oc_batch_id c), bk_opt bk_nonnegative (oc_layer c),
           bk_opt bk_nonnegative (oc_microbatch c), bk_opt bk_nonnegative (oc_iteration c)])"

definition validate_scope :: "bookkeeping_scope \<Rightarrow> bk_error option" where
  "validate_scope s =
     first_err
       [validate_correlation (bs_correlation s),
        bk_opt bk_nonnegative (bs_step_index s),
        bk_opt bk_text (bs_execution_id s),
        bk_opt (\<lambda>x. first_err [bk_text x, guard (bs_execution_id s \<noteq> None) BkScopeWithoutExecution])
          (bs_operation_id s)]"

definition validate_ref :: "created_object_ref \<Rightarrow> bk_error option" where
  "validate_ref r = bk_text (cr_object_id r)"

definition validate_ref_tuple :: "created_object_ref list \<Rightarrow> bk_error option" where
  "validate_ref_tuple rs = first_err (map validate_ref rs @ [guard (distinct rs) BkDuplicateValues])"

definition finite_scalar :: "config_scalar \<Rightarrow> bool" where
  "finite_scalar v = (v \<noteq> CNonFinite)"

definition validate_metadata :: "object_metadata \<Rightarrow> bk_error option" where
  "validate_metadata kvs =
     first_err
       (concat (map (\<lambda>(k, v). [bk_text k, guard (finite_scalar v) BkBadScalar]) kvs)
        @ [guard (distinct (map fst kvs)) BkDuplicateKeys])"

subsection \<open>Scope lineage\<close>

definition inherit_check :: "'a option list \<Rightarrow> 'a option \<Rightarrow> bk_error option" where
  "inherit_check parent_fields child =
     (let parent_values = remdups (List.map_filter id parent_fields)
      in first_err
           [guard (length parent_values \<le> 1) BkParentsDisagree,
            guard (parent_values = [] \<or> child = Some (hd parent_values)) BkNotInherited])"

definition validate_scope_lineage ::
    "created_object_record list \<Rightarrow> bookkeeping_scope \<Rightarrow> bk_error option" where
  "validate_scope_lineage parents child =
     (let causal = filter (\<lambda>p. cr_kind (co_ref p) \<notin> set reusable_object_kinds) parents;
          scopes = map co_scope causal; corrs = map bs_correlation scopes
      in if causal = [] then None
         else first_err
           [guard (set (oc_request_ids (bs_correlation child)) \<subseteq> set (concat (map oc_request_ids corrs)))
              BkIntroducedRequests,
            inherit_check (map bs_step_index scopes) (bs_step_index child),
            inherit_check (map bs_execution_id scopes) (bs_execution_id child),
            inherit_check (map bs_operation_id scopes) (bs_operation_id child),
            inherit_check (map oc_batch_id corrs) (oc_batch_id (bs_correlation child)),
            inherit_check (map oc_layer corrs) (oc_layer (bs_correlation child)),
            inherit_check (map oc_microbatch corrs) (oc_microbatch (bs_correlation child)),
            inherit_check (map oc_iteration corrs) (oc_iteration (bs_correlation child))])"

fun fact_timestamp :: "bookkeeping_fact \<Rightarrow> int" where
  "fact_timestamp (CreatedFact c) = co_created_at_ps c"
| "fact_timestamp (StageFact s) = sg_timestamp_ps s"
| "fact_timestamp (EventFact e) = ce_timestamp_ps e"

fun fact_scope :: "bookkeeping_fact \<Rightarrow> bookkeeping_scope" where
  "fact_scope (CreatedFact c) = co_scope c"
| "fact_scope (StageFact s) = sg_scope s"
| "fact_scope (EventFact e) =
     \<lparr>bs_correlation = empty_correlation, bs_step_index = None,
      bs_execution_id = Some (ce_execution_id e), bs_operation_id = Some (ce_operation_id e)\<rparr>"

definition validate_completion_event :: "completion_event \<Rightarrow> bk_error option" where
  "validate_completion_event e =
     first_err
       [bk_text (ce_execution_id e), bk_text (ce_operation_id e), bk_nonnegative (ce_timestamp_ps e),
        bk_opt bk_nonnegative (ce_completed_bytes e),
        bk_opt (\<lambda>r. bk_text (rr_resource_id r)) (ce_resource e),
        bk_opt bk_text (ce_subject_object_id e)]"

subsection \<open>Validation state\<close>

datatype vstate =
  VState (vs_base: "vstate option") (vs_objects: "(string, created_object_record) dict")
    (vs_subject_timestamps: "(string, int) dict") (vs_completed_wqes: "string list")

definition root_state :: vstate where
  "root_state = VState None [] [] []"

definition transaction :: "vstate \<Rightarrow> vstate" where
  "transaction s = VState (Some s) [] [] []"

fun object_for :: "vstate \<Rightarrow> string \<Rightarrow> created_object_record option" where
  "object_for (VState base objs ts cs) k =
     (case map_of objs k of
        Some r \<Rightarrow> Some r
      | None \<Rightarrow> (case base of None \<Rightarrow> None | Some b \<Rightarrow> object_for b k))"

fun subject_timestamp :: "vstate \<Rightarrow> string \<Rightarrow> int" where
  "subject_timestamp (VState base objs ts cs) k =
     (case map_of ts k of
        Some t \<Rightarrow> t
      | None \<Rightarrow> (case base of None \<Rightarrow> - 1 | Some b \<Rightarrow> subject_timestamp b k))"

fun wqe_is_completed :: "vstate \<Rightarrow> string \<Rightarrow> bool" where
  "wqe_is_completed (VState base objs ts cs) k =
     (k \<in> set cs \<or> (case base of None \<Rightarrow> False | Some b \<Rightarrow> wqe_is_completed b k))"

text \<open>\<open>commit\<close> of an overlay returns its updated base; a root cannot be committed.\<close>

definition dict_update_all :: "('k, 'v) dict \<Rightarrow> ('k, 'v) dict \<Rightarrow> ('k, 'v) dict" where
  "dict_update_all d e = fold (\<lambda>(k, v) d. AList.update k v d) e d"

definition commit :: "vstate \<Rightarrow> vstate option" where
  "commit s =
     (case vs_base s of
        None \<Rightarrow> None
      | Some b \<Rightarrow>
          Some (VState (vs_base b) (dict_update_all (vs_objects b) (vs_objects s))
                  (dict_update_all (vs_subject_timestamps b) (vs_subject_timestamps s))
                  (fold List.insert (vs_completed_wqes s) (vs_completed_wqes b))))"

abbreviation add_object :: "vstate \<Rightarrow> string \<Rightarrow> created_object_record \<Rightarrow> vstate" where
  "add_object s k r \<equiv>
     VState (vs_base s) (AList.update k r (vs_objects s)) (vs_subject_timestamps s) (vs_completed_wqes s)"

abbreviation set_timestamp :: "vstate \<Rightarrow> string \<Rightarrow> int \<Rightarrow> vstate" where
  "set_timestamp s k t \<equiv>
     VState (vs_base s) (vs_objects s) (AList.update k t (vs_subject_timestamps s)) (vs_completed_wqes s)"

abbreviation add_completed :: "vstate \<Rightarrow> string \<Rightarrow> vstate" where
  "add_completed s k \<equiv>
     VState (vs_base s) (vs_objects s) (vs_subject_timestamps s) (List.insert k (vs_completed_wqes s))"

subsection \<open>The rule engine\<close>

text \<open>References to earlier objects: all known, none newer than the fact that names it.\<close>

fun resolve_refs ::
    "(string \<Rightarrow> created_object_record option) \<Rightarrow> int \<Rightarrow> bk_error \<Rightarrow> created_object_ref list \<Rightarrow>
     bk_error + created_object_record list" where
  "resolve_refs look at_ps predates [] = Inr []"
| "resolve_refs look at_ps predates (r # rs) =
     (case look (cr_object_id r) of
        None \<Rightarrow> Inl BkUnknownRef
      | Some prior \<Rightarrow>
          if co_ref prior \<noteq> r then Inl BkUnknownRef
          else if at_ps < co_created_at_ps prior then Inl predates
          else rbind (resolve_refs look at_ps predates rs) (\<lambda>ps. Inr (prior # ps)))"

definition validate_wqe :: "created_object_record \<Rightarrow> bk_error option" where
  "validate_wqe c =
     (let kinds = map cr_kind (co_parent_refs c);
          transports = count_list kinds DCQCN_QP + count_list kinds RNIC_CN_LINK_PAIR;
          transport_kind = map_of (co_metadata c) ''transport_kind''
      in first_err
           [guard (count_list kinds SEND_QUEUE = 1) BkWqeQueue,
            guard (count_list kinds RECEIVE_QUEUE = 1) BkWqeQueue,
            guard (count_list kinds OBJ_COMPLETION_QUEUE = 1) BkWqeQueue,
            guard (transports \<le> 1) BkWqeTransports,
            guard (transports = 0 \<longrightarrow> transport_kind = Some (CStr ''none'')) BkWqeTransportMissing,
            guard (transports = 1 \<longrightarrow> transport_kind \<noteq> Some (CStr ''none'')) BkWqeTransportNone])"

definition validate_created ::
    "(string \<Rightarrow> created_object_record option) \<Rightarrow> created_object_record \<Rightarrow> bk_error option" where
  "validate_created look c =
     (case first_err
        [validate_ref (co_ref c),
         guard (look (cr_object_id (co_ref c)) = None) BkDuplicateObject,
         validate_scope (co_scope c),
         bk_opt bk_text (co_native_id c),
         validate_ref_tuple (co_parent_refs c),
         guard (co_ref c \<notin> set (co_parent_refs c)) BkSelfParent] of
        Some e \<Rightarrow> Some e
      | None \<Rightarrow>
          (case resolve_refs look (co_created_at_ps c) BkChildPredatesParent (co_parent_refs c) of
             Inl e \<Rightarrow> Some e
           | Inr parents \<Rightarrow>
               first_err
                 [validate_scope_lineage parents (co_scope c), validate_metadata (co_metadata c),
                  if cr_kind (co_ref c) = NETWORK_WQE then validate_wqe c else None]))"

definition validate_stage ::
    "(string \<Rightarrow> created_object_record option) \<Rightarrow> stage_record \<Rightarrow> bk_error option" where
  "validate_stage look s =
     (case first_err [validate_scope (sg_scope s), validate_ref_tuple (sg_object_refs s)] of
        Some e \<Rightarrow> Some e
      | None \<Rightarrow>
          (case resolve_refs look (sg_timestamp_ps s) BkStagePredatesObject (sg_object_refs s) of
             Inl e \<Rightarrow> Some e
           | Inr objs \<Rightarrow> validate_scope_lineage objs (sg_scope s)))"

text \<open>The checks of an event on its subject before the subject's timestamp is recorded.\<close>

definition subject_checks :: "vstate \<Rightarrow> string \<Rightarrow> created_object_record \<Rightarrow> completion_event \<Rightarrow> bk_error option" where
  "subject_checks s k subject e =
     first_err
       [guard (bs_execution_id (co_scope subject) \<in> {None, Some (ce_execution_id e)}) BkExecutionMismatch,
        guard (bs_operation_id (co_scope subject) \<in> {None, Some (ce_operation_id e)}) BkOperationMismatch,
        guard (ce_timestamp_ps e \<ge> co_created_at_ps subject) BkCompletionPredatesSubject,
        guard (ce_timestamp_ps e \<ge> subject_timestamp s k) BkSubjectBackwards]"

definition completion_queue_of :: "created_object_record \<Rightarrow> created_object_ref list" where
  "completion_queue_of subject = filter (\<lambda>p. cr_kind p = OBJ_COMPLETION_QUEUE) (co_parent_refs subject)"

text \<open>
  \<open>completion_queues[0]\<close> exists because the WQE was validated when it was created; the model
  raises the mismatch error otherwise.
\<close>

definition names_completion_queue :: "created_object_record \<Rightarrow> completion_event \<Rightarrow> bool" where
  "names_completion_queue subject e =
     (case completion_queue_of subject of
        [] \<Rightarrow> False
      | q # _ \<Rightarrow> ce_resource e = Some \<lparr>rr_kind = COMPLETION_QUEUE, rr_resource_id = cr_object_id q\<rparr>)"

definition validate_event :: "vstate \<Rightarrow> completion_event \<Rightarrow> vstate \<times> (bk_error + unit)" where
  "validate_event s e =
     (case validate_completion_event e of Some x \<Rightarrow> (s, Inl x) | None \<Rightarrow>
     (case ce_subject_object_id e of None \<Rightarrow> (s, Inr ()) | Some k \<Rightarrow>
     (case object_for s k of None \<Rightarrow> (s, Inl BkUnknownSubject) | Some subject \<Rightarrow>
     (case subject_checks s k subject e of Some x \<Rightarrow> (s, Inl x) | None \<Rightarrow>
        (let s' = set_timestamp s k (ce_timestamp_ps e)
         in if cr_kind (co_ref subject) \<noteq> NETWORK_WQE then (s', Inr ())
            else if wqe_is_completed s' k
              then (s', Inl (if ce_phase e = COMPLETED then BkSecondCompletion else BkEventAfterCompletion))
            else if ce_phase e \<noteq> COMPLETED then (s', Inr ())
            else if \<not> names_completion_queue subject e then (s', Inl BkWrongCompletionQueue)
            else (add_completed s' k, Inr ()))))))"

text \<open>The sequence number and the timestamp that the entry records.\<close>

definition entry_checks :: "int \<Rightarrow> bookkeeping_entry \<Rightarrow> bk_error option" where
  "entry_checks expected entry =
     first_err
       [bk_nonnegative (en_sequence entry), guard (en_sequence entry = expected) BkSequence,
        bk_nonnegative (fact_timestamp (en_fact entry))]"

definition validate_entry :: "vstate \<Rightarrow> int \<Rightarrow> bookkeeping_entry \<Rightarrow> vstate \<times> (bk_error + unit)" where
  "validate_entry s expected entry =
     (case entry_checks expected entry of
        Some x \<Rightarrow> (s, Inl x)
      | None \<Rightarrow>
          (case en_fact entry of
             CreatedFact c \<Rightarrow>
               (case validate_created (object_for s) c of
                  Some x \<Rightarrow> (s, Inl x)
                | None \<Rightarrow> (add_object s (cr_object_id (co_ref c)) c, Inr ()))
           | StageFact g \<Rightarrow>
               (case validate_stage (object_for s) g of Some x \<Rightarrow> (s, Inl x) | None \<Rightarrow> (s, Inr ()))
           | EventFact e \<Rightarrow> validate_event s e))"

fun validate_entries :: "vstate \<Rightarrow> int \<Rightarrow> bookkeeping_entry list \<Rightarrow> vstate \<times> (bk_error + unit)" where
  "validate_entries s i [] = (s, Inr ())"
| "validate_entries s i (x # xs) =
     (case validate_entry s i x of
        (s', Inl e) \<Rightarrow> (s', Inl e)
      | (s', Inr _) \<Rightarrow> validate_entries s' (i + 1) xs)"

definition validate_ledger_state :: "bookkeeping_ledger \<Rightarrow> bk_error + vstate" where
  "validate_ledger_state l =
     (case validate_entries root_state 0 l of (s, Inl e) \<Rightarrow> Inl e | (s, Inr _) \<Rightarrow> Inr s)"

definition validate_bookkeeping_ledger :: "bookkeeping_ledger \<Rightarrow> bk_error option" where
  "validate_bookkeeping_ledger l = (case validate_ledger_state l of Inl e \<Rightarrow> Some e | Inr _ \<Rightarrow> None)"

subsection \<open>The bookkeeper\<close>

record request_bookkeeper =
  bk_validation_state :: vstate
  bk_entries :: "bookkeeping_entry list"

definition new_bookkeeper :: "bookkeeping_ledger \<Rightarrow> bk_error + request_bookkeeper" where
  "new_bookkeeper l =
     rbind (validate_ledger_state l) (\<lambda>s. Inr \<lparr>bk_validation_state = s, bk_entries = l\<rparr>)"

definition number_facts :: "int \<Rightarrow> bookkeeping_fact list \<Rightarrow> bookkeeping_entry list" where
  "number_facts start facts =
     map (\<lambda>(i, f). \<lparr>en_sequence = start + int i, en_fact = f\<rparr>) (enumerate 0 facts)"

definition extend :: "request_bookkeeper \<Rightarrow> bookkeeping_fact list \<Rightarrow>
    request_bookkeeper \<times> (bk_error + bookkeeping_entry list)" where
  "extend b facts =
     (let start = int (length (bk_entries b)); additions = number_facts start facts
      in case validate_entries (transaction (bk_validation_state b)) start additions of
           (t, Inl e) \<Rightarrow> (b, Inl e)
         | (t, Inr _) \<Rightarrow>
             (case commit t of
                None \<Rightarrow> (b, Inl BkRootCommit)
              | Some s \<Rightarrow> (\<lparr>bk_validation_state = s, bk_entries = bk_entries b @ additions\<rparr>, Inr additions)))"

definition append_fact :: "request_bookkeeper \<Rightarrow> bookkeeping_fact \<Rightarrow>
    request_bookkeeper \<times> (bk_error + bookkeeping_entry)" where
  "append_fact b f =
     (case extend b [f] of (b', Inl e) \<Rightarrow> (b', Inl e) | (b', Inr es) \<Rightarrow> (b', Inr (hd es)))"

definition snapshot_ledger :: "request_bookkeeper \<Rightarrow> bookkeeping_ledger" where
  "snapshot_ledger b = bk_entries b"

text \<open>\<open>str.replace\<close> of a one-character pattern.\<close>

definition replace_char :: "char \<Rightarrow> string \<Rightarrow> string \<Rightarrow> string" where
  "replace_char c r s = concat (map (\<lambda>x. if x = c then r else [x]) s)"

definition escape_object_id_component :: "string \<Rightarrow> string" where
  "escape_object_id_component s =
     replace_char (CHR '':'') ''%3A'' (replace_char (CHR ''%'') ''%25'' s)"

definition operation_object_id :: "string \<Rightarrow> string \<Rightarrow> string" where
  "operation_object_id execution_id operation_id =
     ''execution-operation:'' @ escape_object_id_component execution_id @ '':''
     @ escape_object_id_component operation_id"

text \<open>The facts that \<open>register_graph\<close> appends for a graph it has validated.\<close>

definition graph_facts :: "execution_graph \<Rightarrow> bookkeeping_fact list" where
  "graph_facts g =
     (let correlations = rev (remdups (rev (concat (map (\<lambda>op. oc_request_ids (op_correlation op))
                               (eg_operations g)))))
      in StageFact
           \<lparr>sg_stage = EXECUTION_STAGE, sg_phase = ENTERED, sg_timestamp_ps = eg_released_at_ps g,
            sg_scope = \<lparr>bs_correlation = empty_correlation\<lparr>oc_request_ids := correlations\<rparr>,
                        bs_step_index = Some (eg_step_index g),
                        bs_execution_id = Some (eg_execution_id g), bs_operation_id = None\<rparr>,
            sg_object_refs = []\<rparr>
         # map (\<lambda>op.
             CreatedFact
               \<lparr>co_ref = \<lparr>cr_kind = EXECUTION_OPERATION,
                          cr_object_id = operation_object_id (eg_execution_id g) (op_operation_id op)\<rparr>,
                co_owner = CORE, co_created_at_ps = eg_released_at_ps g,
                co_scope = \<lparr>bs_correlation = op_correlation op, bs_step_index = Some (eg_step_index g),
                            bs_execution_id = Some (eg_execution_id g),
                            bs_operation_id = Some (op_operation_id op)\<rparr>,
                co_native_id = Some (op_operation_id op), co_parent_refs = [], co_metadata = []\<rparr>)
             (eg_operations g))"

subsection \<open>Queries\<close>

definition created_facts :: "bookkeeping_entry list \<Rightarrow> created_object_record list" where
  "created_facts es = List.map_filter (\<lambda>x. case en_fact x of CreatedFact c \<Rightarrow> Some c | _ \<Rightarrow> None) es"

fun arrivals_from ::
    "string list \<Rightarrow> bookkeeping_entry list \<Rightarrow> bk_error + framework_request_arrival list" where
  "arrivals_from seen [] = Inr []"
| "arrivals_from seen (x # xs) =
     (case en_fact x of
        CreatedFact c \<Rightarrow>
          (if cr_kind (co_ref c) \<noteq> FRAMEWORK_REQUEST then arrivals_from seen xs
           else if co_owner c \<noteq> FRAMEWORK then Inl BkNotFrameworkOwned
           else case oc_request_ids (bs_correlation (co_scope c)) of
             [r] \<Rightarrow>
               (if r \<in> set seen then Inl BkSecondRequestObject
                else rbind (arrivals_from (r # seen) xs) (\<lambda>as.
                  Inr (\<lparr>fa_sequence = en_sequence x, fa_request_id = r,
                        fa_arrived_at_ps = co_created_at_ps c, fa_request_ref = co_ref c\<rparr> # as)))
           | _ \<Rightarrow> Inl BkRequestCount)
      | _ \<Rightarrow> arrivals_from seen xs)"

definition framework_request_arrivals ::
    "bookkeeping_ledger \<Rightarrow> bk_error + framework_request_arrival list" where
  "framework_request_arrivals l =
     (case validate_bookkeeping_ledger l of Some e \<Rightarrow> Inl e | None \<Rightarrow> arrivals_from [] l)"

text \<open>
  \<open>for_request\<close>: an event with a known subject belongs to the subject's requests, one without
  a subject to the requests of every operation record with its execution and operation.
\<close>

definition event_scopes :: "bookkeeping_entry list \<Rightarrow> completion_event \<Rightarrow> bookkeeping_scope list" where
  "event_scopes es e =
     (let own = [fact_scope (EventFact e)] in
      case ce_subject_object_id e of
        Some k \<Rightarrow>
          (case find (\<lambda>c. cr_object_id (co_ref c) = k) (rev (created_facts es)) of
             None \<Rightarrow> own
           | Some c \<Rightarrow> [co_scope c])
      | None \<Rightarrow>
          (case filter (\<lambda>s. bs_execution_id s = Some (ce_execution_id e)
                          \<and> bs_operation_id s = Some (ce_operation_id e))
                  (map co_scope (filter (\<lambda>c. cr_kind (co_ref c) = EXECUTION_OPERATION) (created_facts es))) of
             [] \<Rightarrow> own
           | ss \<Rightarrow> ss))"

definition for_request ::
    "request_bookkeeper \<Rightarrow> string \<Rightarrow> bk_error + bookkeeping_entry list" where
  "for_request b request_id =
     (case bk_text request_id of
        Some e \<Rightarrow> Inl e
      | None \<Rightarrow>
          Inr (filter (\<lambda>x.
                 list_ex (\<lambda>s. request_id \<in> set (oc_request_ids (bs_correlation s)))
                   (case en_fact x of EventFact e \<Rightarrow> event_scopes (bk_entries b) e
                    | f \<Rightarrow> [fact_scope f])) (bk_entries b)))"

definition for_execution ::
    "request_bookkeeper \<Rightarrow> string \<Rightarrow> bk_error + bookkeeping_entry list" where
  "for_execution b execution_id =
     (case bk_text execution_id of
        Some e \<Rightarrow> Inl e
      | None \<Rightarrow> Inr (filter (\<lambda>x. bs_execution_id (fact_scope (en_fact x)) = Some execution_id) (bk_entries b)))"

text \<open>One pass of the descendant loop, and the loop until nothing changes.\<close>

fun descend_pass ::
    "created_object_record list \<Rightarrow> created_object_ref list \<Rightarrow> bool \<Rightarrow> created_object_ref list \<times> bool" where
  "descend_pass [] selected changed = (selected, changed)"
| "descend_pass (c # cs) selected changed =
     (if list_ex (\<lambda>p. p \<in> set selected) (co_parent_refs c) \<and> co_ref c \<notin> set selected
      then descend_pass cs (co_ref c # selected) True
      else descend_pass cs selected changed)"

definition unselected :: "created_object_record list \<Rightarrow> created_object_ref list \<Rightarrow> nat" where
  "unselected cs selected = length (filter (\<lambda>c. co_ref c \<notin> set selected) cs)"

lemma unselected_mono:
  "set xs \<subseteq> set ys \<Longrightarrow> unselected cs ys \<le> unselected cs xs"
  unfolding unselected_def by (induction cs) auto

lemma unselected_less:
  "c \<in> set cs \<Longrightarrow> co_ref c \<notin> set xs \<Longrightarrow> set xs \<subseteq> set ys \<Longrightarrow> co_ref c \<in> set ys \<Longrightarrow>
   unselected cs ys < unselected cs xs"
proof (induction cs)
  case (Cons d cs)
  then show ?case
    using unselected_mono [of xs ys cs]
    by (cases "d = c") (auto simp: unselected_def less_Suc_eq_le)
qed simp

lemma descend_pass_mono: "descend_pass cs xs b = (ys, b') \<Longrightarrow> set xs \<subseteq> set ys \<and> (b \<longrightarrow> b')"
  by (induction cs xs b rule: descend_pass.induct) (auto split: if_splits)

lemma descend_pass_progress:
  "descend_pass cs xs False = (ys, True) \<Longrightarrow> \<exists>c \<in> set cs. co_ref c \<notin> set xs \<and> co_ref c \<in> set ys"
proof (induction cs arbitrary: xs)
  case (Cons c cs)
  show ?case
  proof (cases "list_ex (\<lambda>p. p \<in> set xs) (co_parent_refs c) \<and> co_ref c \<notin> set xs")
    case True
    with Cons.prems have "descend_pass cs (co_ref c # xs) True = (ys, True)" by simp
    then have "co_ref c \<in> set ys" using descend_pass_mono by fastforce
    with True show ?thesis by auto
  next
    case False
    with Cons.prems have "descend_pass cs xs False = (ys, True)" by (auto split: if_splits)
    then show ?thesis using Cons.IH by auto
  qed
qed simp

lemma descend_pass_less:
  assumes "(ys, True) = descend_pass cs xs False"
  shows "unselected cs ys < unselected cs xs"
proof -
  note d = assms [symmetric]
  show ?thesis using descend_pass_progress [OF d] descend_pass_mono [OF d] by (auto intro: unselected_less)
qed

function descend_loop :: "created_object_record list \<Rightarrow> created_object_ref list \<Rightarrow> created_object_ref list" where
  "descend_loop cs selected =
     (case descend_pass cs selected False of
        (selected', changed) \<Rightarrow> if changed then descend_loop cs selected' else selected')"
  by pat_completeness auto
termination
  by (relation "measure (\<lambda>(cs, selected). unselected cs selected)") (auto intro: descend_pass_less)

declare descend_loop.simps [simp del]

definition for_object ::
    "request_bookkeeper \<Rightarrow> created_object_ref \<Rightarrow> bool \<Rightarrow> bk_error + bookkeeping_entry list" where
  "for_object b ref recursive =
     (case validate_ref ref of
        Some e \<Rightarrow> Inl e
      | None \<Rightarrow>
          (let cs = created_facts (bk_entries b)
           in if ref \<notin> set (map co_ref cs) then Inr []
              else
                (let selected = (if recursive then descend_loop cs [ref] else [ref]);
                     keys = map (\<lambda>c. (bs_execution_id (co_scope c), bs_operation_id (co_scope c)))
                       (filter (\<lambda>c. co_ref c \<in> set selected \<and> cr_kind (co_ref c) = EXECUTION_OPERATION) cs)
                 in Inr (filter (\<lambda>x. case en_fact x of
                        CreatedFact c \<Rightarrow> co_ref c \<in> set selected
                      | StageFact s \<Rightarrow> list_ex (\<lambda>r. r \<in> set selected) (sg_object_refs s)
                      | EventFact e \<Rightarrow>
                          (case ce_subject_object_id e of None \<Rightarrow> False
                           | Some k \<Rightarrow> k \<in> cr_object_id ` set selected)
                          \<or> (Some (ce_execution_id e), Some (ce_operation_id e)) \<in> set keys)
                      (bk_entries b)))))"

end
