(* ===== verification/Bookkeeping_Properties.thy ===== *)
theory Bookkeeping_Properties
  imports Bookkeeping
begin

text \<open>
  What the bookkeeper guarantees.  The copy-on-write overlay refines the flat state: the
  rules read a state only through its three lookups, an overlay answers them as the state it
  would commit, so the incremental validation of a batch is the validation of the whole
  ledger.  On valid ledgers objects have unique identities and older parents, and a WQE
  completes at most once with nothing after it.
\<close>

subsection \<open>What the rules see of a state\<close>

definition same_view :: "vstate \<Rightarrow> vstate \<Rightarrow> bool" where
  "same_view s t \<longleftrightarrow> object_for s = object_for t \<and> subject_timestamp s = subject_timestamp t \<and>
     wqe_is_completed s = wqe_is_completed t"

lemma same_view_refl [simp]: "same_view s s"
  by (simp add: same_view_def)

lemma same_view_sym: "same_view s t \<Longrightarrow> same_view t s"
  by (simp add: same_view_def)

lemma same_view_trans: "same_view s t \<Longrightarrow> same_view t u \<Longrightarrow> same_view s u"
  by (simp add: same_view_def)

lemma add_object_view [simp]:
  "object_for (add_object s k r) = (object_for s)(k \<mapsto> r)"
  "subject_timestamp (add_object s k r) = subject_timestamp s"
  "wqe_is_completed (add_object s k r) = wqe_is_completed s"
  by (cases s; auto simp: fun_eq_iff)+

lemma set_timestamp_view [simp]:
  "object_for (set_timestamp s k t) = object_for s"
  "subject_timestamp (set_timestamp s k t) = (subject_timestamp s)(k := t)"
  "wqe_is_completed (set_timestamp s k t) = wqe_is_completed s"
  by (cases s; auto simp: fun_eq_iff)+

lemma add_completed_view [simp]:
  "object_for (add_completed s k) = object_for s"
  "subject_timestamp (add_completed s k) = subject_timestamp s"
  "wqe_is_completed (add_completed s k) = (\<lambda>j. j = k \<or> wqe_is_completed s j)"
  by (cases s; auto simp: fun_eq_iff)+

lemma completed_at_view [simp]:
  fixes s k t
  defines "s' \<equiv> VState (vs_base s) (vs_objects s) (AList.update k t (vs_subject_timestamps s))
    (List.insert k (vs_completed_wqes s))"
  shows "object_for s' = object_for s" "subject_timestamp s' = (subject_timestamp s)(k := t)"
    "wqe_is_completed s' = (\<lambda>j. j = k \<or> wqe_is_completed s j)"
  unfolding s'_def by (cases s; auto simp: fun_eq_iff)+

lemma root_view [simp]:
  "object_for root_state k = None" "subject_timestamp root_state k = - 1" "\<not> wqe_is_completed root_state k"
  by (simp_all add: root_state_def)

lemma transaction_view: "same_view (transaction s) s"
  by (simp add: same_view_def transaction_def fun_eq_iff)

text \<open>Equal views are validated alike.\<close>

definition same_result :: "vstate \<times> (bk_error + unit) \<Rightarrow> vstate \<times> (bk_error + unit) \<Rightarrow> bool" where
  "same_result x y \<longleftrightarrow> snd x = snd y \<and> same_view (fst x) (fst y)"

lemma subject_checks_view: "same_view s t \<Longrightarrow> subject_checks s = subject_checks t"
  by (simp add: same_view_def subject_checks_def fun_eq_iff)

lemma validate_event_view:
  assumes "same_view s t" shows "same_result (validate_event s e) (validate_event t e)"
proof (cases "validate_completion_event e")
  case None
  show ?thesis
  proof (cases "ce_subject_object_id e")
    case (Some k)
    show ?thesis
    proof (cases "object_for t k")
      case subject: (Some subject)
      have "object_for s k = Some subject" using assms subject by (simp add: same_view_def)
      then show ?thesis using assms None Some subject subject_checks_view [OF assms]
        by (cases "subject_checks t k subject e") (auto simp: validate_event_def same_result_def same_view_def Let_def)
    qed (use assms None Some in \<open>simp add: validate_event_def same_result_def same_view_def\<close>)
  qed (use assms None in \<open>simp add: validate_event_def same_result_def\<close>)
qed (use assms in \<open>simp add: validate_event_def same_result_def\<close>)

lemma validate_entry_view:
  assumes "same_view s t" shows "same_result (validate_entry s i x) (validate_entry t i x)"
proof (cases "entry_checks i x")
  case None
  have eq: "object_for s = object_for t" using assms by (simp add: same_view_def)
  show ?thesis
  proof (cases "en_fact x")
    case (CreatedFact c)
    then show ?thesis using None eq assms
      by (cases "validate_created (object_for t) c") (simp_all add: validate_entry_def same_result_def same_view_def)
  next
    case (StageFact g)
    then show ?thesis using None eq assms
      by (cases "validate_stage (object_for t) g") (simp_all add: validate_entry_def same_result_def)
  next
    case (EventFact e)
    then show ?thesis using None validate_event_view [OF assms] by (simp add: validate_entry_def)
  qed
qed (use assms in \<open>simp add: validate_entry_def same_result_def\<close>)

lemma validate_entries_view:
  "same_view s t \<Longrightarrow> same_result (validate_entries s i xs) (validate_entries t i xs)"
proof (induction xs arbitrary: s t i)
  case (Cons x xs)
  obtain s' r t' r' where e: "validate_entry s i x = (s', r)" "validate_entry t i x = (t', r')" by fastforce
  with validate_entry_view [OF Cons.prems, of i x] have "r' = r" "same_view s' t'"
    by (auto simp: same_result_def)
  then show ?case using e Cons.IH [of s' t' "i + 1"] by (cases r) (auto simp: same_result_def)
qed (simp add: same_result_def)

lemma validate_entries_append:
  "validate_entries s i (xs @ ys) =
     (case validate_entries s i xs of
        (s', Inl e) \<Rightarrow> (s', Inl e)
      | (s', Inr _) \<Rightarrow> validate_entries s' (i + int (length xs)) ys)"
  by (induction xs arbitrary: s i) (auto split: prod.splits sum.splits simp: algebra_simps)

subsection \<open>Overlays\<close>

definition overlay_ok :: "vstate \<Rightarrow> vstate \<Rightarrow> bool" where
  "overlay_ok b t \<longleftrightarrow> vs_base t = Some b \<and> dict_ok (vs_objects t) \<and> dict_ok (vs_subject_timestamps t)"

lemma validate_entry_overlay:
  "validate_entry s i x = (s', r) \<Longrightarrow> overlay_ok b s \<Longrightarrow> overlay_ok b s'"
  by (auto simp: validate_entry_def validate_event_def overlay_ok_def Let_def
      split: option.splits bookkeeping_fact.splits if_splits)

lemma validate_entries_overlay:
  "validate_entries s i xs = (s', r) \<Longrightarrow> overlay_ok b s \<Longrightarrow> overlay_ok b s'"
proof (induction xs arbitrary: s i)
  case (Cons x xs)
  obtain t q where t: "validate_entry s i x = (t, q)" by fastforce
  then have "overlay_ok b t" using Cons.prems(2) by (rule validate_entry_overlay)
  then show ?case using Cons t by (cases q) auto
qed simp

lemma dict_update_all_map:
  "dict_ok e \<Longrightarrow> map_of (dict_update_all d e) = map_of d ++ map_of e"
proof (induction e arbitrary: d)
  case (Cons x e)
  obtain k v where x: "x = (k, v)" by (cases x)
  have "map_of (dict_update_all (AList.update k v d) e) = (map_of d)(k \<mapsto> v) ++ map_of e"
    using Cons by simp
  moreover have "map_of e k = None" using Cons.prems by (simp add: x map_of_eq_None_iff)
  ultimately show ?case by (auto simp: x dict_update_all_def map_add_def fun_eq_iff split: option.splits)
qed (simp add: dict_update_all_def)

lemma set_fold_insert: "set (fold List.insert xs ys) = set xs \<union> set ys"
  by (induction xs arbitrary: ys) auto

lemma commit_view:
  assumes "overlay_ok b t"
  obtains s where "commit t = Some s" "same_view s t" "vs_base s = vs_base b"
proof -
  let ?s = "VState (vs_base b) (dict_update_all (vs_objects b) (vs_objects t))
    (dict_update_all (vs_subject_timestamps b) (vs_subject_timestamps t))
    (fold List.insert (vs_completed_wqes t) (vs_completed_wqes b))"
  have c: "commit t = Some ?s" using assms by (simp add: commit_def overlay_ok_def)
  obtain objs ts cs where t: "t = VState (Some b) objs ts cs"
    using assms by (cases t) (auto simp: overlay_ok_def)
  obtain base bo bt bc where b: "b = VState base bo bt bc" by (cases b)
  have "same_view ?s t" using assms
    by (auto simp: same_view_def fun_eq_iff t b overlay_ok_def dict_update_all_map map_add_def set_fold_insert
        split: option.splits)
  with c show thesis by (rule that) simp
qed

subsection \<open>The bookkeeper as a machine\<close>

definition bk_inv :: "request_bookkeeper \<Rightarrow> bool" where
  "bk_inv b \<longleftrightarrow>
     (\<exists>s. validate_entries root_state 0 (bk_entries b) = (s, Inr ()) \<and> same_view s (bk_validation_state b))"

lemma validate_ledger_state_iff:
  "validate_ledger_state l = Inr s \<longleftrightarrow> validate_entries root_state 0 l = (s, Inr ())"
  by (auto simp: validate_ledger_state_def split: prod.splits sum.splits)

lemma validate_ledger_iff:
  "validate_bookkeeping_ledger l = None \<longleftrightarrow> (\<exists>s. validate_entries root_state 0 l = (s, Inr ()))"
  "validate_bookkeeping_ledger l = Some e \<longleftrightarrow> (\<exists>s. validate_entries root_state 0 l = (s, Inl e))"
  by (auto simp: validate_bookkeeping_ledger_def validate_ledger_state_def split: prod.splits sum.splits)

lemma new_bookkeeper_inv: "new_bookkeeper l = Inr b \<Longrightarrow> bk_inv b \<and> bk_entries b = l"
  by (auto simp: new_bookkeeper_def rbind_Inr_iff validate_ledger_state_iff bk_inv_def)

abbreviation additions_of :: "request_bookkeeper \<Rightarrow> bookkeeping_fact list \<Rightarrow> bookkeeping_entry list" where
  "additions_of b facts \<equiv> number_facts (int (length (bk_entries b))) facts"

text \<open>The incremental validation of a batch against the validation of the longer ledger.\<close>

lemma extend_spec:
  assumes "bk_inv b"
  shows "case extend b facts of
      (b', Inl e) \<Rightarrow> b' = b \<and> validate_bookkeeping_ledger (bk_entries b @ additions_of b facts) = Some e
    | (b', Inr adds) \<Rightarrow> adds = additions_of b facts \<and> bk_entries b' = bk_entries b @ adds \<and> bk_inv b'"
proof -
  let ?n = "int (length (bk_entries b))" let ?adds = "additions_of b facts"
  let ?st = "bk_validation_state b"
  obtain s where s: "validate_entries root_state 0 (bk_entries b) = (s, Inr ())" "same_view s ?st"
    using assms by (auto simp: bk_inv_def)
  obtain t r where t: "validate_entries (transaction ?st) ?n ?adds = (t, r)" by fastforce
  obtain u q where u: "validate_entries s ?n ?adds = (u, q)" by fastforce
  have v: "same_view (transaction ?st) s" using transaction_view s(2) same_view_sym same_view_trans by blast
  from validate_entries_view [OF v, of ?n ?adds] t u have rq: "r = q" "same_view t u"
    by (auto simp: same_result_def)
  have full: "validate_entries root_state 0 (bk_entries b @ ?adds) = (u, q)"
    using s(1) u by (simp add: validate_entries_append)
  show ?thesis
  proof (cases r)
    case (Inl e)
    then show ?thesis using t full rq(1) by (simp add: extend_def Let_def validate_ledger_iff)
  next
    case (Inr x)
    have "overlay_ok ?st (transaction ?st)" by (simp add: overlay_ok_def transaction_def)
    with t have "overlay_ok ?st t" by (rule validate_entries_overlay)
    then obtain c where c: "commit t = Some c" "same_view c t" by (rule commit_view)
    have "same_view u c" using rq(2) c(2) same_view_sym same_view_trans by blast
    then show ?thesis using t Inr c(1) full rq(1) by (auto simp: extend_def Let_def bk_inv_def)
  qed
qed

interpretation bk: atomic_machine extend bk_inv
proof (unfold_locales, goal_cases)
  case (1 b facts b' adds)
  then show ?case using extend_spec [of b facts] by simp
next
  case (2 b facts b' e)
  then show ?case by (auto simp: extend_def Let_def split: prod.splits sum.splits option.splits)
qed

lemma reached_bk_inv: "new_bookkeeper l = Inr b0 \<Longrightarrow> reaches extend b0 b \<Longrightarrow> bk_inv b"
  using bk.reaches_inv new_bookkeeper_inv by blast

text \<open>
  C17. Incremental bookkeeping is full bookkeeping: for a bookkeeper that was opened on a
  ledger and has taken any sequence of batches, its snapshot is a valid ledger, and the next
  batch is accepted exactly when the longer ledger validates from scratch.  An accepted batch
  is numbered on from the ledger and appended; a rejected one raises the error of the full
  validation and leaves the bookkeeper as it was.
\<close>

theorem bookkeeper_incremental_validation:
  assumes "new_bookkeeper l = Inr b0" and "reaches extend b0 b"
  shows "validate_bookkeeping_ledger (snapshot_ledger b) = None \<and>
    (case extend b facts of
       (b', Inl e) \<Rightarrow> b' = b \<and>
         validate_bookkeeping_ledger (snapshot_ledger b @ number_facts (int (length (snapshot_ledger b))) facts) = Some e
     | (b', Inr adds) \<Rightarrow>
         adds = number_facts (int (length (snapshot_ledger b))) facts \<and>
         snapshot_ledger b' = snapshot_ledger b @ adds \<and> validate_bookkeeping_ledger (snapshot_ledger b') = None)"
proof -
  have inv: "bk_inv b" using assms by (rule reached_bk_inv)
  have valid: "validate_bookkeeping_ledger (bk_entries c) = None" if "bk_inv c" for c
    using that by (auto simp: bk_inv_def validate_ledger_iff)
  obtain b' r where e: "extend b facts = (b', r)" by fastforce
  show ?thesis using extend_spec [OF inv, of facts] valid [OF inv] valid [of b']
    by (cases r) (auto simp: e snapshot_ledger_def)
qed

subsection \<open>What a valid ledger says about its objects\<close>

lemma created_facts_simps [simp]:
  "created_facts [] = []" "created_facts (xs @ ys) = created_facts xs @ created_facts ys"
  "created_facts (x # xs) = (case en_fact x of CreatedFact c \<Rightarrow> [c] | _ \<Rightarrow> []) @ created_facts xs"
  by (auto simp: created_facts_def List.map_filter_def split: bookkeeping_fact.splits)

lemma set_created_facts: "c \<in> set (created_facts xs) \<longleftrightarrow> (\<exists>x \<in> set xs. en_fact x = CreatedFact c)"
  by (induction xs) (auto split: bookkeeping_fact.splits)

abbreviation event_on :: "bookkeeping_entry \<Rightarrow> completion_event \<Rightarrow> string \<Rightarrow> bool" where
  "event_on x e k \<equiv> en_fact x = EventFact e \<and> ce_subject_object_id e = Some k"

text \<open>What the validation state knows of the entries it has seen.\<close>

definition ledger_view :: "bookkeeping_entry list \<Rightarrow> vstate \<Rightarrow> bool" where
  "ledger_view l s \<longleftrightarrow>
     (\<forall>k c. object_for s k = Some c \<longleftrightarrow> c \<in> set (created_facts l) \<and> cr_object_id (co_ref c) = k) \<and>
     (\<forall>x \<in> set l. \<forall>e k. event_on x e k \<longrightarrow>
        ce_timestamp_ps e \<le> subject_timestamp s k \<and>
        (\<exists>c. object_for s k = Some c \<and>
           (cr_kind (co_ref c) = NETWORK_WQE \<and> ce_phase e = COMPLETED \<longrightarrow> wqe_is_completed s k)))"

lemma ledger_view_object:
  "ledger_view l s \<Longrightarrow> object_for s k = Some c \<longleftrightarrow> c \<in> set (created_facts l) \<and> cr_object_id (co_ref c) = k"
  unfolding ledger_view_def by blast

lemma ledger_view_event:
  "ledger_view l s \<Longrightarrow> x \<in> set l \<Longrightarrow> event_on x e k \<Longrightarrow>
   ce_timestamp_ps e \<le> subject_timestamp s k \<and>
   (\<exists>c. object_for s k = Some c \<and>
      (cr_kind (co_ref c) = NETWORK_WQE \<and> ce_phase e = COMPLETED \<longrightarrow> wqe_is_completed s k))"
  unfolding ledger_view_def by blast

lemma validate_event_accepted:
  assumes "validate_event s e = (s', Inr ())"
  obtains
    (no_subject) "ce_subject_object_id e = None" "s' = s"
  | (subject) k c where "ce_subject_object_id e = Some k" "object_for s k = Some c"
      "co_created_at_ps c \<le> ce_timestamp_ps e" "subject_timestamp s k \<le> ce_timestamp_ps e"
      "cr_kind (co_ref c) = NETWORK_WQE \<Longrightarrow> \<not> wqe_is_completed s k"
      "cr_kind (co_ref c) = NETWORK_WQE \<Longrightarrow> ce_phase e = COMPLETED \<Longrightarrow> names_completion_queue c e"
      "object_for s' = object_for s" "subject_timestamp s' = (subject_timestamp s)(k := ce_timestamp_ps e)"
      "wqe_is_completed s' = (\<lambda>j. j = k \<and> cr_kind (co_ref c) = NETWORK_WQE \<and> ce_phase e = COMPLETED
         \<or> wqe_is_completed s j)"
proof (cases "ce_subject_object_id e")
  case None
  then show ?thesis using assms no_subject by (auto simp: validate_event_def split: option.splits)
next
  case (Some k)
  then obtain c where c: "object_for s k = Some c" "subject_checks s k c e = None"
    using assms by (auto simp: validate_event_def split: option.splits)
  have times: "co_created_at_ps c \<le> ce_timestamp_ps e" "subject_timestamp s k \<le> ce_timestamp_ps e"
    using c(2) by (auto simp: subject_checks_def)
  show ?thesis
    by (rule subject [OF Some c(1) times]; use assms Some c in
        \<open>auto simp: validate_event_def Let_def fun_eq_iff split: if_splits option.splits\<close>)
qed

text \<open>An accepted object is new and descends from older objects.\<close>

lemma resolve_refs_accepted:
  "resolve_refs look at_ps d rs = Inr ps \<Longrightarrow>
   map co_ref ps = rs \<and> (\<forall>p \<in> set ps. look (cr_object_id (co_ref p)) = Some p \<and> co_created_at_ps p \<le> at_ps)"
proof (induction rs arbitrary: ps)
  case (Cons r rs)
  from Cons.prems obtain p qs where "look (cr_object_id r) = Some p" "co_ref p = r" "co_created_at_ps p \<le> at_ps"
      "resolve_refs look at_ps d rs = Inr qs" "ps = p # qs"
    by (auto split: option.splits if_splits simp: rbind_Inr_iff)
  with Cons.IH [of qs] show ?case by auto
qed simp

lemma validate_created_accepted:
  assumes "validate_created look c = None"
  obtains ps where "look (cr_object_id (co_ref c)) = None"
    "resolve_refs look (co_created_at_ps c) BkChildPredatesParent (co_parent_refs c) = Inr ps"
    "validate_scope_lineage ps (co_scope c) = None"
  using assms by (auto simp: validate_created_def split: option.splits sum.splits)

lemma validate_entry_accepted:
  assumes "validate_entry s i x = (s', Inr ())"
  obtains (created) c where "en_fact x = CreatedFact c" "validate_created (object_for s) c = None"
      "s' = add_object s (cr_object_id (co_ref c)) c"
  | (stage) g where "en_fact x = StageFact g" "validate_stage (object_for s) g = None" "s' = s"
  | (event) e where "en_fact x = EventFact e" "validate_event s e = (s', Inr ())"
proof (cases "en_fact x")
  case (CreatedFact c)
  with assms created show ?thesis by (auto simp: validate_entry_def split: option.splits)
next
  case (StageFact g)
  with assms stage show ?thesis by (auto simp: validate_entry_def split: option.splits)
next
  case (EventFact e)
  with assms event show ?thesis by (auto simp: validate_entry_def split: option.splits)
qed

lemma ledger_view_root: "ledger_view [] root_state"
  by (simp add: ledger_view_def)

lemma ledger_view_created:
  assumes v: "ledger_view l s" and x: "en_fact x = CreatedFact c" and new: "object_for s (cr_object_id (co_ref c)) = None"
  shows "ledger_view (l @ [x]) (add_object s (cr_object_id (co_ref c)) c)"
  unfolding ledger_view_def
proof (intro conjI allI ballI impI, goal_cases)
  case (1 k d)
  note look = ledger_view_object [OF v]
  show ?case
  proof (cases "k = cr_object_id (co_ref c)")
    case True
    then have "\<not> (d \<in> set (created_facts l) \<and> cr_object_id (co_ref d) = k)" using new look [of k d] by simp
    then show ?thesis using x True by auto
  next
    case False
    then show ?thesis using x look [of k d] by auto
  qed
next
  case (2 y e k)
  then have "y \<in> set l" using x by auto
  with 2 show ?case using ledger_view_event [OF v] by simp
next
  case (3 y e k)
  then have "y \<in> set l" using x by auto
  then have "\<exists>d. object_for s k = Some d \<and> (cr_kind (co_ref d) = NETWORK_WQE \<and> ce_phase e = COMPLETED \<longrightarrow> wqe_is_completed s k)"
    using ledger_view_event [OF v] 3(2) by blast
  then show ?case using new by auto
qed

lemma ledger_view_quiet:
  assumes v: "ledger_view l s" and c: "created_facts [x] = []" and e: "\<And>e k. \<not> event_on x e k"
  shows "ledger_view (l @ [x]) s"
  unfolding ledger_view_def
proof (intro conjI allI ballI impI, goal_cases)
  case (1 k d)
  then show ?case using ledger_view_object [OF v, of k d] c unfolding created_facts_simps(2) c by simp
next
  case (2 y e k)
  then show ?case using ledger_view_event [OF v] e by auto
next
  case (3 y e k)
  then have "y \<in> set l" using e by auto
  then show ?case using ledger_view_event [OF v] 3 by blast
qed

lemma ledger_view_subject:
  assumes v: "ledger_view l s" and x: "event_on x e k" and c: "object_for s k = Some c"
    and t: "subject_timestamp s k \<le> ce_timestamp_ps e"
    and s': "object_for s' = object_for s" "subject_timestamp s' = (subject_timestamp s)(k := ce_timestamp_ps e)"
      "wqe_is_completed s' = (\<lambda>j. j = k \<and> cr_kind (co_ref c) = NETWORK_WQE \<and> ce_phase e = COMPLETED
         \<or> wqe_is_completed s j)"
  shows "ledger_view (l @ [x]) s'"
  unfolding ledger_view_def
proof (intro conjI allI ballI impI, goal_cases)
  case (1 j d)
  show ?case using ledger_view_object [OF v] x by (simp add: s')
next
  case (2 y e' j)
  show ?case
  proof (cases "y \<in> set l")
    case True
    then have "ce_timestamp_ps e' \<le> subject_timestamp s j" using ledger_view_event [OF v] 2 by blast
    then show ?thesis using t by (auto simp: s')
  qed (use 2 x in \<open>simp add: s'\<close>)
next
  case (3 y e' j)
  show ?case
  proof (cases "y \<in> set l")
    case True
    then show ?thesis using ledger_view_event [OF v] 3 by (simp add: s') blast
  qed (use 3 x c in \<open>simp add: s'\<close>)
qed

lemma ledger_view_step:
  assumes "ledger_view l s" "validate_entry s i x = (s', Inr ())"
  shows "ledger_view (l @ [x]) s'"
  using assms(2)
proof (cases rule: validate_entry_accepted)
  case (created c)
  then show ?thesis using assms(1) ledger_view_created validate_created_accepted by metis
next
  case (stage g)
  then show ?thesis using assms(1) by (simp add: ledger_view_quiet)
next
  case (event e)
  from event(2) show ?thesis
  proof (cases rule: validate_event_accepted)
    case no_subject
    then show ?thesis using assms(1) event(1) by (auto intro: ledger_view_quiet)
  next
    case (subject k c)
    then show ?thesis using assms(1) event(1) ledger_view_subject by blast
  qed
qed

lemma validated_ledger_view: "validate_entries root_state 0 l = (s, Inr ()) \<Longrightarrow> ledger_view l s"
proof (induction l arbitrary: s rule: rev_induct)
  case (snoc x l)
  then obtain t where t: "validate_entries root_state 0 l = (t, Inr ())" "validate_entry t (int (length l)) x = (s, Inr ())"
    by (auto simp: validate_entries_append split: prod.splits sum.splits)
  then show ?case using snoc.IH ledger_view_step by blast
qed (simp add: ledger_view_root)

lemma valid_ledger_entry:
  assumes "validate_bookkeeping_ledger l = None" "i < length l"
  obtains s s' where "ledger_view (take i l) s" "validate_entry s (int i) (l ! i) = (s', Inr ())"
proof -
  obtain u where u: "validate_entries root_state 0 l = (u, Inr ())" using assms(1) by (auto simp: validate_ledger_iff)
  have split: "l = take i l @ l ! i # drop (Suc i) l" using assms(2) by (simp add: id_take_nth_drop)
  obtain s s' where "validate_entries root_state 0 (take i l) = (s, Inr ())" "validate_entry s (int i) (l ! i) = (s', Inr ())"
    using u assms(2) by (subst (asm) split) (auto simp: validate_entries_append min_def split: prod.splits sum.splits)
  then show thesis using validated_ledger_view that by blast
qed

text \<open>What an accepted entry says about the entries before it.\<close>

definition created_sound :: "bookkeeping_entry list \<Rightarrow> created_object_record \<Rightarrow> bool" where
  "created_sound prior c \<longleftrightarrow>
     (\<forall>q \<in> set (created_facts prior). cr_object_id (co_ref q) \<noteq> cr_object_id (co_ref c)) \<and>
     (\<forall>r \<in> set (co_parent_refs c).
        \<exists>q \<in> set (created_facts prior). co_ref q = r \<and> co_created_at_ps q \<le> co_created_at_ps c)"

definition event_sound :: "bookkeeping_entry list \<Rightarrow> completion_event \<Rightarrow> string \<Rightarrow> bool" where
  "event_sound prior e k \<longleftrightarrow>
     (\<exists>c \<in> set (created_facts prior).
        cr_object_id (co_ref c) = k \<and> co_created_at_ps c \<le> ce_timestamp_ps e \<and>
        (\<forall>y \<in> set prior. \<forall>e'. event_on y e' k \<longrightarrow>
           ce_timestamp_ps e' \<le> ce_timestamp_ps e \<and>
           \<not> (cr_kind (co_ref c) = NETWORK_WQE \<and> ce_phase e' = COMPLETED)))"

lemma resolved_in_ledger:
  assumes v: "ledger_view l s" and ps: "resolve_refs (object_for s) at_ps d rs = Inr ps" and r: "r \<in> set rs"
  shows "\<exists>c \<in> set (created_facts l). co_ref c = r \<and> co_created_at_ps c \<le> at_ps"
proof -
  note ok = resolve_refs_accepted [OF ps]
  have "r \<in> set (map co_ref ps)" unfolding conjunct1 [OF ok] by (rule r)
  then obtain p where p: "p \<in> set ps" "co_ref p = r" by auto
  then have "p \<in> set (created_facts l)" using conjunct2 [OF ok] ledger_view_object [OF v, of "cr_object_id r" p] by blast
  then show ?thesis using p conjunct2 [OF ok] by blast
qed

lemma created_sound_accepted:
  assumes v: "ledger_view l s" and "validate_created (object_for s) c = None"
  shows "created_sound l c"
  using assms(2)
proof (rule validate_created_accepted)
  fix ps
  assume new: "object_for s (cr_object_id (co_ref c)) = None"
    and ps: "resolve_refs (object_for s) (co_created_at_ps c) BkChildPredatesParent (co_parent_refs c) = Inr ps"
  have "cr_object_id (co_ref q) \<noteq> cr_object_id (co_ref c)" if "q \<in> set (created_facts l)" for q
    using that new ledger_view_object [OF v, of "cr_object_id (co_ref c)" q] by auto
  then show ?thesis using resolved_in_ledger [OF v ps] by (simp add: created_sound_def)
qed

lemma event_sound_accepted:
  assumes v: "ledger_view l s" and "validate_event s e = (s', Inr ())" and k: "ce_subject_object_id e = Some k"
  shows "event_sound l e k"
  using assms(2)
proof (cases rule: validate_event_accepted)
  case (subject j c)
  then have jk: "j = k" using k by simp
  have "c \<in> set (created_facts l)" "cr_object_id (co_ref c) = k"
    using subject(2) ledger_view_object [OF v] jk by auto
  moreover have "ce_timestamp_ps e' \<le> ce_timestamp_ps e \<and> \<not> (cr_kind (co_ref c) = NETWORK_WQE \<and> ce_phase e' = COMPLETED)"
    if "y \<in> set l" "event_on y e' k" for y e'
    using ledger_view_event [OF v that] subject(2,4,5) jk by force
  ultimately show ?thesis using subject(3) by (auto simp: event_sound_def)
qed (use k in simp)

text \<open>
  C20. In a ledger that validates, the entries are numbered from zero; an object is created
  once, after and no earlier than every parent it names; and an event on a subject comes after
  the subject's creation, no earlier than the subject's other events, and, when the subject
  is a network WQE, never after the WQE's completion.
\<close>

theorem ledger_object_histories:
  assumes "validate_bookkeeping_ledger l = None" and "i < length l"
  shows "en_sequence (l ! i) = int i \<and>
    (case en_fact (l ! i) of
       CreatedFact c \<Rightarrow> created_sound (take i l) c
     | StageFact g \<Rightarrow> \<forall>r \<in> set (sg_object_refs g). \<exists>c \<in> set (created_facts (take i l)).
         co_ref c = r \<and> co_created_at_ps c \<le> sg_timestamp_ps g
     | EventFact e \<Rightarrow> \<forall>k. ce_subject_object_id e = Some k \<longrightarrow> event_sound (take i l) e k)"
proof -
  obtain s s' where v: "ledger_view (take i l) s" and x: "validate_entry s (int i) (l ! i) = (s', Inr ())"
    using assms by (rule valid_ledger_entry)
  have "en_sequence (l ! i) = int i"
    using x by (auto simp: validate_entry_def entry_checks_def split: option.splits)
  moreover from x have "case en_fact (l ! i) of
       CreatedFact c \<Rightarrow> created_sound (take i l) c
     | StageFact g \<Rightarrow> \<forall>r \<in> set (sg_object_refs g). \<exists>c \<in> set (created_facts (take i l)).
         co_ref c = r \<and> co_created_at_ps c \<le> sg_timestamp_ps g
     | EventFact e \<Rightarrow> \<forall>k. ce_subject_object_id e = Some k \<longrightarrow> event_sound (take i l) e k"
  proof (cases rule: validate_entry_accepted)
    case (created c)
    then show ?thesis using created_sound_accepted [OF v] by simp
  next
    case (stage g)
    then obtain ps where "resolve_refs (object_for s) (sg_timestamp_ps g) BkStagePredatesObject (sg_object_refs g) = Inr ps"
      by (auto simp: validate_stage_def split: option.splits sum.splits)
    then show ?thesis using stage(1) resolved_in_ledger [OF v] by simp
  next
    case (event e)
    then show ?thesis using event_sound_accepted [OF v] by simp
  qed
  ultimately show ?thesis by blast
qed

text \<open>A worked ledger: one WQE on its three queues, started and completed on its own queue.\<close>

definition demo_ref :: "created_object_kind \<Rightarrow> string \<Rightarrow> created_object_ref" where
  "demo_ref kind name = \<lparr>cr_kind = kind, cr_object_id = name\<rparr>"

definition demo_created :: "created_object_kind \<Rightarrow> string \<Rightarrow> int \<Rightarrow> created_object_ref list \<Rightarrow> object_metadata \<Rightarrow> bookkeeping_fact" where
  "demo_created kind name at_ps parents metadata =
     CreatedFact \<lparr>co_ref = demo_ref kind name, co_owner = NETWORK_BACKEND, co_created_at_ps = at_ps,
       co_scope = \<lparr>bs_correlation = empty_correlation, bs_step_index = None, bs_execution_id = None,
                   bs_operation_id = None\<rparr>,
       co_native_id = None, co_parent_refs = parents, co_metadata = metadata\<rparr>"

definition demo_event :: "event_phase \<Rightarrow> int \<Rightarrow> bookkeeping_fact" where
  "demo_event phase at_ps =
     EventFact \<lparr>ce_execution_id = ''e0'', ce_operation_id = ''op0'', ce_phase = phase, ce_timestamp_ps = at_ps,
       ce_resource = Some \<lparr>rr_kind = COMPLETION_QUEUE, rr_resource_id = ''cq''\<rparr>, ce_completed_bytes = None,
       ce_subject_object_id = Some ''wqe''\<rparr>"

definition demo_facts :: "bookkeeping_fact list" where
  "demo_facts =
     [demo_created SEND_QUEUE ''sq'' 0 [] [], demo_created RECEIVE_QUEUE ''rq'' 0 [] [],
      demo_created OBJ_COMPLETION_QUEUE ''cq'' 0 [] [],
      demo_created NETWORK_WQE ''wqe'' 5
        [demo_ref SEND_QUEUE ''sq'', demo_ref RECEIVE_QUEUE ''rq'', demo_ref OBJ_COMPLETION_QUEUE ''cq'']
        [(''transport_kind'', CStr ''none'')],
      demo_event STARTED 7, demo_event COMPLETED 9]"

definition demo_ledger :: bookkeeping_ledger where
  "demo_ledger = number_facts 0 demo_facts"

definition demo_bookkeeper :: request_bookkeeper where
  "demo_bookkeeper = \<lparr>bk_validation_state = root_state, bk_entries = []\<rparr>"

lemma demo_ledger_valid: "validate_bookkeeping_ledger demo_ledger = None"
  by code_simp

lemma demo_bookkeeper_extends:
  "new_bookkeeper [] = Inr demo_bookkeeper"
  "reaches extend demo_bookkeeper (fst (extend demo_bookkeeper demo_facts))"
  by (simp add: new_bookkeeper_def validate_ledger_state_def demo_bookkeeper_def)
    (metis prod.collapse reaches_refl reaches_step)

theorem bookkeeper_incremental_validation_witness:
  "validate_bookkeeping_ledger (snapshot_ledger (fst (extend demo_bookkeeper demo_facts))) = None \<and>
   snapshot_ledger (fst (extend demo_bookkeeper demo_facts)) = demo_ledger \<and>
   extend (fst (extend demo_bookkeeper demo_facts)) [demo_event COMPLETED 9]
     = (fst (extend demo_bookkeeper demo_facts), Inl BkSecondCompletion)"
proof -
  have "snapshot_ledger (fst (extend demo_bookkeeper demo_facts)) = demo_ledger"
    "snd (extend (fst (extend demo_bookkeeper demo_facts)) [demo_event COMPLETED 9]) = Inl BkSecondCompletion"
    by code_simp+
  then show ?thesis
    using bookkeeper_incremental_validation [OF demo_bookkeeper_extends, of "[demo_event COMPLETED 9]"]
    by (auto split: prod.splits)
qed

theorem ledger_object_histories_witness:
  "event_sound (take 5 demo_ledger) (case en_fact (demo_ledger ! 5) of EventFact e \<Rightarrow> e) ''wqe'' \<and>
   length demo_ledger = 6"
proof -
  have "length demo_ledger = 6" "en_fact (demo_ledger ! 5) = demo_event COMPLETED 9" by code_simp+
  then show ?thesis using ledger_object_histories [OF demo_ledger_valid, of 5] by (simp add: demo_event_def)
qed

subsection \<open>Object identities of operations\<close>

definition escape_char :: "char \<Rightarrow> string" where
  "escape_char c = (if c = CHR ''%'' then ''%25'' else if c = CHR '':'' then ''%3A'' else [c])"

lemma escape_concat: "escape_object_id_component s = concat (map escape_char s)"
  by (induction s) (auto simp: escape_object_id_component_def replace_char_def escape_char_def)

lemma escape_no_colon: "CHR '':'' \<notin> set (escape_object_id_component s)"
  by (induction s) (auto simp: escape_concat escape_char_def)

lemma escape_inj: "escape_object_id_component s = escape_object_id_component t \<longleftrightarrow> s = t"
proof (induction s arbitrary: t)
  case Nil
  then show ?case by (cases t) (auto simp: escape_concat escape_char_def)
next
  case (Cons c s)
  then show ?case by (cases t) (auto simp: escape_concat escape_char_def)
qed

text \<open>
  The object identity of an operation determines the execution and the operation: two
  operations share an identity only when both names agree, whatever characters they contain,
  because the escape removes every colon that could be taken for the separator.
\<close>

theorem operation_object_id_injective:
  "operation_object_id e1 op1 = operation_object_id e2 op2 \<longleftrightarrow> e1 = e2 \<and> op1 = op2"
  by (simp add: operation_object_id_def append_sep_inj escape_no_colon escape_inj)

subsection \<open>Descendants\<close>

definition child_of :: "created_object_record list \<Rightarrow> (created_object_ref \<times> created_object_ref) set" where
  "child_of cs = {(p, co_ref c) | p c. c \<in> set cs \<and> p \<in> set (co_parent_refs c)}"

lemma rtrancl_Image_subset: "Y \<subseteq> R\<^sup>* `` X \<Longrightarrow> R\<^sup>* `` Y \<subseteq> R\<^sup>* `` X"
  by (auto dest!: subsetD intro: rtrancl_trans)

lemma descend_pass_sound:
  "descend_pass cs xs b = (ys, b') \<Longrightarrow> set cs \<subseteq> set ds \<Longrightarrow> set ys \<subseteq> (child_of ds)\<^sup>* `` set xs"
proof (induction cs xs b rule: descend_pass.induct)
  case (2 c cs xs b)
  show ?case
  proof (cases "list_ex (\<lambda>p. p \<in> set xs) (co_parent_refs c) \<and> co_ref c \<notin> set xs")
    case True
    then obtain p where "p \<in> set xs" "(p, co_ref c) \<in> child_of ds"
      using "2.prems"(2) by (auto simp: list_ex_iff child_of_def)
    then have "set (co_ref c # xs) \<subseteq> (child_of ds)\<^sup>* `` set xs" by auto
    then have "(child_of ds)\<^sup>* `` set (co_ref c # xs) \<subseteq> (child_of ds)\<^sup>* `` set xs"
      by (rule rtrancl_Image_subset)
    moreover have "set ys \<subseteq> (child_of ds)\<^sup>* `` set (co_ref c # xs)"
      using "2.IH"(1) [OF True] "2.prems" True by simp
    ultimately show ?thesis by blast
  next
    case False
    then show ?thesis using "2.IH"(2) [OF False] "2.prems" by (auto split: if_splits)
  qed
qed auto

lemma descend_pass_fixpoint:
  "descend_pass cs xs False = (ys, False) \<Longrightarrow>
   ys = xs \<and> (\<forall>c \<in> set cs. (\<exists>p \<in> set (co_parent_refs c). p \<in> set xs) \<longrightarrow> co_ref c \<in> set xs)"
proof (induction cs arbitrary: xs)
  case (Cons c cs)
  show ?case
  proof (cases "list_ex (\<lambda>p. p \<in> set xs) (co_parent_refs c) \<and> co_ref c \<notin> set xs")
    case True
    with Cons.prems have "descend_pass cs (co_ref c # xs) True = (ys, False)" by simp
    then show ?thesis using descend_pass_mono by blast
  next
    case False
    with Cons.prems have "descend_pass cs xs False = (ys, False)" by (auto split: if_splits)
    then show ?thesis using Cons.IH [of xs] False by (auto simp: list_ex_iff)
  qed
qed simp

lemma descend_closed:
  assumes "\<forall>c \<in> set cs. (\<exists>p \<in> set (co_parent_refs c). p \<in> X) \<longrightarrow> co_ref c \<in> X"
  shows "(child_of cs)\<^sup>* `` X \<subseteq> X"
proof -
  have "y \<in> X" if "(x, y) \<in> (child_of cs)\<^sup>*" "x \<in> X" for x y
    using that by (induction rule: rtrancl_induct) (use assms in \<open>auto simp: child_of_def\<close>)
  then show ?thesis by blast
qed

lemma descend_loop_set: "set (descend_loop cs xs) = (child_of cs)\<^sup>* `` set xs"
proof (induction cs xs rule: descend_loop.induct)
  case (1 cs xs)
  obtain ys b where p: "descend_pass cs xs False = (ys, b)" by fastforce
  have sound: "set ys \<subseteq> (child_of cs)\<^sup>* `` set xs" and mono: "set xs \<subseteq> set ys"
    using descend_pass_sound [OF p] descend_pass_mono [OF p] by auto
  show ?case
  proof (cases b)
    case True
    then have "set (descend_loop cs xs) = (child_of cs)\<^sup>* `` set ys"
      using "1.IH" p by (subst descend_loop.simps) simp
    moreover have "(child_of cs)\<^sup>* `` set ys \<subseteq> (child_of cs)\<^sup>* `` set xs"
      using sound by (rule rtrancl_Image_subset)
    ultimately show ?thesis using mono by blast
  next
    case False
    then have "descend_loop cs xs = xs"
      "\<forall>c \<in> set cs. (\<exists>p \<in> set (co_parent_refs c). p \<in> set xs) \<longrightarrow> co_ref c \<in> set xs"
      using descend_pass_fixpoint [of cs xs ys] p by (auto simp: descend_loop.simps [of cs xs])
    then show ?thesis using descend_closed [of cs "set xs"] by auto
  qed
qed

text \<open>The entries about a set of objects.\<close>

definition about_family :: "bookkeeping_entry list \<Rightarrow> created_object_ref set \<Rightarrow> bookkeeping_entry \<Rightarrow> bool" where
  "about_family es family x \<longleftrightarrow>
     (case en_fact x of
        CreatedFact c \<Rightarrow> co_ref c \<in> family
      | StageFact g \<Rightarrow> (\<exists>r \<in> set (sg_object_refs g). r \<in> family)
      | EventFact e \<Rightarrow> ce_subject_object_id e \<in> Some ` cr_object_id ` family
          \<or> (\<exists>c \<in> set (created_facts es). co_ref c \<in> family \<and> cr_kind (co_ref c) = EXECUTION_OPERATION
              \<and> bs_execution_id (co_scope c) = Some (ce_execution_id e)
              \<and> bs_operation_id (co_scope c) = Some (ce_operation_id e)))"

lemma operation_keys:
  "(Some x, Some y) \<in> (\<lambda>c. (bs_execution_id (co_scope c), bs_operation_id (co_scope c))) ` {c \<in> A. P c}
     \<longleftrightarrow> (\<exists>c \<in> A. P c \<and> bs_execution_id (co_scope c) = Some x \<and> bs_operation_id (co_scope c) = Some y)"
  by (auto simp: image_iff eq_commute)

lemma subject_among:
  "(case k of None \<Rightarrow> False | Some k \<Rightarrow> k \<in> A) \<longleftrightarrow> k \<in> Some ` A"
  by (auto split: option.splits)

text \<open>
  C22. \<open>for_object\<close> with \<open>recursive\<close> selects exactly the entries about the object and its
  descendants: its fixed-point loop ends with the transitive closure of the parent
  references, and the result keeps, in ledger order, the creations of those objects, the
  stages that name one of them, and the events on one of them or on an operation among them.
\<close>

theorem for_object_descendants:
  assumes "nonblank (cr_object_id ref)" and "ref \<in> co_ref ` set (created_facts (bk_entries b))"
  shows "for_object b ref True =
    Inr (filter (about_family (bk_entries b) ((child_of (created_facts (bk_entries b)))\<^sup>* `` {ref})) (bk_entries b))"
proof -
  let ?cs = "created_facts (bk_entries b)"
  have family: "(child_of ?cs)\<^sup>* `` {ref} = set (descend_loop ?cs [ref])"
    using descend_loop_set [of ?cs "[ref]"] by simp
  have ok: "validate_ref ref = None" "ref \<in> set (map co_ref ?cs)"
    using assms by (auto simp: validate_ref_def bk_text_def)
  show ?thesis
    unfolding for_object_def Let_def family using ok
    by (auto simp del: set_map intro!: filter_cong
        simp: about_family_def list_ex_iff subject_among set_map [of _ "filter _ _"] operation_keys conj_assoc
        split: bookkeeping_fact.splits)
qed

abbreviation demo_opened :: request_bookkeeper where
  "demo_opened \<equiv> \<lparr>bk_validation_state = root_state, bk_entries = demo_ledger\<rparr>"

lemma demo_object: "for_object demo_opened (demo_ref SEND_QUEUE ''sq'') True
   = Inr (filter (\<lambda>x. en_sequence x \<in> {0, 3, 4, 5}) demo_ledger)"
  by code_simp

theorem for_object_descendants_witness:
  "filter (about_family demo_ledger ((child_of (created_facts demo_ledger))\<^sup>* `` {demo_ref SEND_QUEUE ''sq''})) demo_ledger
     = filter (\<lambda>x. en_sequence x \<in> {0, 3, 4, 5}) demo_ledger"
proof -
  have "nonblank (cr_object_id (demo_ref SEND_QUEUE ''sq''))"
    "demo_ref SEND_QUEUE ''sq'' \<in> co_ref ` set (created_facts (bk_entries demo_opened))"
    by code_simp+
  from for_object_descendants [OF this] show ?thesis using demo_object by simp
qed

end
