(* ===== verification/Graph.thy ===== *)
theory Graph
  imports Execution Step_Json "HOL-Library.Product_Lexorder"
begin

text \<open>
  Execution graphs (\<open>simllm/core/execution_io.py\<close> with the field checks of
  \<open>simllm/core/_wire.py\<close>): the validation of work payloads, of explicit collective plans and
  of whole graphs, and the expansion of a graph into its ordering edges.  A plan's digest is
  SHA-256 over the canonical JSON text of the plan; the text and hash function is the
  parameter \<open>digest\<close> of the definitions that compare it.
\<close>

datatype graph_error =
    GBlank | GNegative | GBelowOne | GDuplicate | GNonFinite | GDuplicateKeys
  | GUnknownScope | GMissingDemand | GTokenSpan | GTokenOrder
  | GNoRanks | GSamePair | GOutsideRanks | GUnsorted | GTableKind | GTwoAuthorities | GPartitionSum
  | GDuplicateOperation | GSelfDependency | GTwoModes | GAnchorRank | GUnknownRequest
  | GUnknownOperation | GNoSharedRank | GPlanCount | GPlanOrder | GCycle
  | GPlanMismatch | GNoRounds | GRoundIndex | GDuplicateAction | GActionRank | GUnknownAction
  | GLaterAction | GCrossRank | GDuplicateExtent | GRoundRange | GRoundOrder | GSameEndpoint
  | GActionKind | GActionExtent | GActionReused | GRequestSum | GUnpairedAction
  | GRankCount | GRankEntry | GEntries | GTerminals | GDigestForm | GDigest

subsection \<open>Field checks\<close>

definition w_string :: "string \<Rightarrow> graph_error option" where
  "w_string s = guard (nonblank s) GBlank"

definition w_nonneg :: "int \<Rightarrow> graph_error option" where
  "w_nonneg n = guard (0 \<le> n) GNegative"

definition w_positive :: "int \<Rightarrow> graph_error option" where
  "w_positive n = guard (1 \<le> n) GBelowOne"

definition w_opt :: "('a \<Rightarrow> graph_error option) \<Rightarrow> 'a option \<Rightarrow> graph_error option" where
  "w_opt f ob = (case ob of None \<Rightarrow> None | Some a \<Rightarrow> f a)"

definition w_each :: "('a \<Rightarrow> graph_error option) \<Rightarrow> 'a list \<Rightarrow> graph_error option" where
  "w_each f xs = first_err (map f xs)"

definition w_unique :: "'a list \<Rightarrow> graph_error option" where
  "w_unique xs = guard (distinct xs) GDuplicate"

lemma w_simps [simp]:
  "w_string s = None \<longleftrightarrow> nonblank s" "w_nonneg n = None \<longleftrightarrow> 0 \<le> n" "w_positive n = None \<longleftrightarrow> 1 \<le> n"
  "w_opt f ob = None \<longleftrightarrow> (\<forall>a. ob = Some a \<longrightarrow> f a = None)"
  "w_each f xs = None \<longleftrightarrow> (\<forall>x \<in> set xs. f x = None)" "w_unique ys = None \<longleftrightarrow> distinct ys"
  by (auto simp: w_string_def w_nonneg_def w_positive_def w_opt_def w_each_def w_unique_def first_err_None_iff
      split: option.splits)

definition wire_correlation :: "operation_correlation \<Rightarrow> graph_error option" where
  "wire_correlation c =
     first_err
       [w_each w_string (oc_request_ids c), w_unique (oc_request_ids c), w_opt w_string (oc_batch_id c),
        w_opt w_nonneg (oc_layer c), w_opt w_nonneg (oc_microbatch c), w_opt w_nonneg (oc_iteration c)]"

subsection \<open>Work payloads\<close>

definition validate_config :: "(string \<times> config_scalar) list \<Rightarrow> graph_error option" where
  "validate_config kvs =
     first_err
       [w_each (\<lambda>(k, v). first_err [w_string k, guard (v \<noteq> CNonFinite) GNonFinite]) kvs,
        guard (distinct (map fst kvs)) GDuplicateKeys]"

definition validate_compute :: "compute_work \<Rightarrow> graph_error option" where
  "validate_compute w =
     (let demand = (\<lambda>ob. if cw_scope w = ''logical-operator'' then w_opt w_nonneg ob
                         else case ob of None \<Rightarrow> Some GMissingDemand | Some n \<Rightarrow> w_nonneg n)
      in first_err
        [w_string (cw_kernel w), validate_config (cw_config w),
         guard (cw_scope w \<in> {''kernel-region'', ''logical-operator'', ''synthetic-operator''}) GUnknownScope,
         demand (cw_flops w), demand (cw_hbm_bytes w), w_opt w_nonneg (cw_nominal_duration_ps w),
         w_opt (\<lambda>f. guard (0 \<le> f) GNegative) (cw_uncertainty_fraction w)])"

definition validate_kv_work :: "kv_cache_work \<Rightarrow> graph_error option" where
  "validate_kv_work w =
     first_err
       [w_string (kw_pool_id w), w_opt w_string (kw_request_id w), w_opt w_string (kw_dtype w),
        w_opt w_string (kw_cause w), w_opt w_string (kw_correlation_id w),
        w_each w_string (kw_block_ids w), w_unique (kw_block_ids w),
        guard ((kw_token_start w = None) = (kw_token_end w = None)) GTokenSpan,
        (case (kw_token_start w, kw_token_end w) of
           (Some s, Some e) \<Rightarrow> first_err [w_nonneg s, w_nonneg e, guard (s \<le> e) GTokenOrder]
         | _ \<Rightarrow> None),
        w_opt w_nonneg (kw_layer w), w_opt w_nonneg (kw_reference_count w),
        w_nonneg (kw_byte_count w), w_nonneg (kw_placement_epoch w)]"

definition validate_dma :: "dma_work \<Rightarrow> graph_error option" where
  "validate_dma w =
     first_err
       [w_string (dw_descriptor_id w), w_string (dw_source w), w_string (dw_destination w),
        w_nonneg (dw_byte_count w)]"

definition pair_checks :: "int list \<Rightarrow> int \<Rightarrow> int \<Rightarrow> int \<Rightarrow> graph_error option" where
  "pair_checks ranks s d n =
     first_err
       [w_nonneg s, w_nonneg d, w_positive n, guard (s \<noteq> d) GSamePair,
        guard (s \<in> set ranks \<and> d \<in> set ranks) GOutsideRanks]"

definition pairwise_table :: "collective_work \<Rightarrow> bool" where
  "pairwise_table w = (lw_collective w = ''all-to-allv'' \<and> lw_algorithm_hint w = Some ''pairwise'')"

text \<open>The bytes that the request partition attributes to each ordered rank pair.\<close>

definition attributed_pairs :: "(string \<times> int \<times> int \<times> int) list \<Rightarrow> (int \<times> int, int) dict" where
  "attributed_pairs entries =
     fold (\<lambda>(r, s, d, n) acc. AList.update (s, d) (dict_get acc (s, d) 0 + n) acc) entries []"

definition expected_pairs :: "(int \<times> int \<times> int) list \<Rightarrow> (int \<times> int, int) dict" where
  "expected_pairs pairs = fold (\<lambda>(s, d, n) acc. AList.update (s, d) n acc) pairs []"

definition validate_collective :: "collective_work \<Rightarrow> graph_error option" where
  "validate_collective w =
     (let ranks = lw_ranks w; pairs = lw_pair_payload_bytes w; parts = lw_request_pair_payload_bytes w;
          pair_keys = map (\<lambda>(s, d, n). (s, d)) pairs; part_keys = map (\<lambda>(r, s, d, n). (r, s, d)) parts
      in first_err
        [w_string (lw_collective w), guard (ranks \<noteq> []) GNoRanks, w_each w_nonneg ranks, w_unique ranks,
         w_nonneg (lw_payload_bytes w),
         w_each (\<lambda>(s, d, n). pair_checks ranks s d n) pairs,
         guard (distinct pair_keys) GDuplicate, guard (sort pair_keys = pair_keys) GUnsorted,
         (if pairs = [] then None
          else first_err [guard (pairwise_table w) GTableKind, guard (lw_payload_bytes w = 0) GTwoAuthorities]),
         w_each (\<lambda>(r, s, d, n). first_err [w_string r, pair_checks ranks s d n]) parts,
         guard (distinct part_keys) GDuplicate, guard (sort part_keys = part_keys) GUnsorted,
         (if parts = [] then None
          else first_err [guard (pairwise_table w) GTableKind,
            guard (set (attributed_pairs parts) = set (expected_pairs pairs)) GPartitionSum]),
         w_opt w_string (lw_algorithm_hint w), w_opt w_string (lw_channel_hint w)])"

definition validate_control :: "control_work \<Rightarrow> graph_error option" where
  "validate_control w =
     first_err
       [w_string (xw_message w), w_each w_nonneg (xw_destination_ranks w), w_unique (xw_destination_ranks w),
        w_nonneg (xw_payload_bytes w)]"

fun validate_work :: "work_payload \<Rightarrow> graph_error option" where
  "validate_work (ComputeWork w) = validate_compute w"
| "validate_work (KvCacheWork w) = validate_kv_work w"
| "validate_work (DmaWork w) = validate_dma w"
| "validate_work (CollectiveWork w) = validate_collective w"
| "validate_work (ControlWork w) = validate_control w"

subsection \<open>Explicit collective plans\<close>

definition collective_plan_schema :: string where
  "collective_plan_schema = ''simllm-collective-plan-v1''"

fun plan_kind_value :: "plan_action_kind \<Rightarrow> string" where
  "plan_kind_value SEND = ''send''"
| "plan_kind_value RECEIVE = ''receive''"

definition rank_actions_to_json :: "(int \<times> string list) list \<Rightarrow> json" where
  "rank_actions_to_json es = JArray (map (\<lambda>(r, ids). JArray [JInt r, JArray (map JStr ids)]) es)"

definition collective_plan_identity_to_json :: "collective_plan \<Rightarrow> json" where
  "collective_plan_identity_to_json p =
     JObject
       [(''schema'', JStr collective_plan_schema), (''operation_id'', JStr (cp_operation_id p)),
        (''collective'', JStr (cp_collective p)), (''algorithm'', JStr (cp_algorithm p)),
        (''channel_id'', JStr (cp_channel_id p)), (''rank_order'', JArray (map JInt (cp_rank_order p))),
        (''payload_bytes'', JInt (cp_payload_bytes p)),
        (''pair_payload_bytes'',
           JArray (map (\<lambda>(s, d, n). JArray [JInt s, JInt d, JInt n]) (cp_pair_payload_bytes p))),
        (''request_pair_payload_bytes'',
           JArray (map (\<lambda>(r, s, d, n). JArray [JStr r, JInt s, JInt d, JInt n])
             (cp_request_pair_payload_bytes p))),
        (''rounds'', JArray (map (\<lambda>r. JObject [(''round_index'', JInt (pr_round_index r)),
           (''tag'', JInt (pr_tag r)), (''channel_id'', JStr (pr_channel_id r))]) (cp_rounds p))),
        (''actions'', JArray (map (\<lambda>a. JObject [(''action_id'', JStr (pa_action_id a)),
           (''rank'', JInt (pa_rank a)), (''kind'', JStr (plan_kind_value (pa_kind a))),
           (''extent_id'', JStr (pa_extent_id a)), (''depends_on'', JArray (map JStr (pa_depends_on a)))])
             (cp_actions p))),
        (''extents'', JArray (map (\<lambda>x. JObject [(''extent_id'', JStr (pe_extent_id x)),
           (''round_index'', JInt (pe_round_index x)), (''source_rank'', JInt (pe_source_rank x)),
           (''destination_rank'', JInt (pe_destination_rank x)), (''payload_bytes'', JInt (pe_payload_bytes x)),
           (''send_action_id'', JStr (pe_send_action_id x)), (''receive_action_id'', JStr (pe_receive_action_id x)),
           (''request_payload_bytes'',
              JArray (map (\<lambda>(r, n). JArray [JStr r, JInt n]) (pe_request_payload_bytes x)))])
             (cp_extents p))),
        (''entry_action_ids'', rank_actions_to_json (cp_entry_action_ids p)),
        (''terminal_action_ids'', rank_actions_to_json (cp_terminal_action_ids p))]"

definition collective_plan_integrity_sha256 :: "(json \<Rightarrow> string) \<Rightarrow> collective_plan \<Rightarrow> string" where
  "collective_plan_integrity_sha256 digest p = digest (collective_plan_identity_to_json p)"

text \<open>The semantic content that a plan repeats from its operation.\<close>

definition plan_matches_work :: "collective_plan \<Rightarrow> collective_work \<Rightarrow> bool" where
  "plan_matches_work p w =
     (cp_collective p = lw_collective w \<and> Some (cp_algorithm p) = lw_algorithm_hint w \<and>
      cp_channel_id p = (case lw_channel_hint w of None \<Rightarrow> ''default''
        | Some c \<Rightarrow> if c = [] then ''default'' else c) \<and>
      cp_rank_order p = lw_ranks w \<and> cp_payload_bytes p = lw_payload_bytes w \<and>
      cp_pair_payload_bytes p = lw_pair_payload_bytes w \<and>
      cp_request_pair_payload_bytes p = lw_request_pair_payload_bytes w)"

definition semantic_copy :: "collective_plan \<Rightarrow> collective_work \<Rightarrow> collective_work" where
  "semantic_copy p w =
     \<lparr>lw_collective = cp_collective p, lw_ranks = cp_rank_order p, lw_payload_bytes = cp_payload_bytes p,
      lw_algorithm_hint = Some (cp_algorithm p), lw_channel_hint = lw_channel_hint w,
      lw_pair_payload_bytes = cp_pair_payload_bytes p,
      lw_request_pair_payload_bytes = cp_request_pair_payload_bytes p\<rparr>"

definition plan_header :: "collective_plan \<Rightarrow> collective_work \<Rightarrow> graph_error option" where
  "plan_header p w =
     first_err
       [w_string (cp_operation_id p), w_string (cp_collective p), w_string (cp_algorithm p),
        w_string (cp_channel_id p), guard (cp_rank_order p \<noteq> []) GNoRanks,
        w_each w_nonneg (cp_rank_order p), w_unique (cp_rank_order p), w_nonneg (cp_payload_bytes p),
        guard (plan_matches_work p w) GPlanMismatch,
        validate_collective (semantic_copy p w)]"

definition plan_rounds :: "plan_round list \<Rightarrow> graph_error option" where
  "plan_rounds rs =
     first_err
       [guard (rs \<noteq> []) GNoRounds,
        w_each (\<lambda>(i, r). first_err [guard (pr_round_index r = int i) GRoundIndex, w_nonneg (pr_tag r),
          w_string (pr_channel_id r)]) (enumerate 0 rs),
        w_unique (map pr_tag rs)]"

text \<open>First pass over the actions: identities and fields.  Second pass: the dependencies.\<close>

fun plan_actions :: "int list \<Rightarrow> string list \<Rightarrow> plan_action list \<Rightarrow> graph_error option" where
  "plan_actions ranks seen [] = None"
| "plan_actions ranks seen (a # as) =
     first_err
       [w_string (pa_action_id a), guard (pa_action_id a \<notin> set seen) GDuplicateAction,
        w_nonneg (pa_rank a), guard (pa_rank a \<in> set ranks) GActionRank, w_string (pa_extent_id a),
        w_each w_string (pa_depends_on a), w_unique (pa_depends_on a),
        plan_actions ranks (pa_action_id a # seen) as]"

definition find_action :: "plan_action list \<Rightarrow> string \<Rightarrow> plan_action option" where
  "find_action as k = find (\<lambda>a. pa_action_id a = k) as"

text \<open>\<open>prior\<close> are the actions before \<open>a\<close>; identities are unique here, so being among them is a smaller index.\<close>

definition dependency_checks :: "plan_action list \<Rightarrow> plan_action list \<Rightarrow> plan_action \<Rightarrow> graph_error option" where
  "dependency_checks all prior a =
     w_each (\<lambda>k.
       case find_action all k of
         None \<Rightarrow> Some GUnknownAction
       | Some b \<Rightarrow> first_err [guard (k \<in> pa_action_id ` set prior) GLaterAction,
                             guard (pa_rank b = pa_rank a) GCrossRank]) (pa_depends_on a)"

definition plan_dependencies :: "plan_action list \<Rightarrow> graph_error option" where
  "plan_dependencies as = w_each (\<lambda>(i, a). dependency_checks as (take i as) a) (enumerate 0 as)"

definition extent_end :: "plan_action list \<Rightarrow> string list \<Rightarrow> string \<Rightarrow> string \<Rightarrow> plan_action_kind \<Rightarrow> int
    \<Rightarrow> graph_error option" where
  "extent_end as used extent_id k kind rank =
     (if \<not> nonblank k then Some GBlank
      else case find_action as k of
        None \<Rightarrow> Some GUnknownAction
      | Some a \<Rightarrow>
          first_err
            [guard (pa_kind a = kind \<and> pa_rank a = rank) GActionKind,
             guard (pa_extent_id a = extent_id) GActionExtent, guard (k \<notin> set used) GActionReused])"

definition extent_requests :: "plan_extent \<Rightarrow> graph_error option" where
  "extent_requests x =
     (let parts = pe_request_payload_bytes x; ids = map fst parts
      in first_err
        [w_each (\<lambda>(r, n). first_err [w_string r, w_positive n]) parts, w_unique ids,
         guard (sort ids = ids) GUnsorted,
         guard (parts \<noteq> [] \<longrightarrow> sum_list (map snd parts) = pe_payload_bytes x) GRequestSum])"

definition extent_checks :: "int list \<Rightarrow> nat \<Rightarrow> plan_action list \<Rightarrow> string list \<Rightarrow> string list \<Rightarrow> int \<Rightarrow> plan_extent
    \<Rightarrow> graph_error option" where
  "extent_checks ranks rounds as seen used previous x =
     first_err
       [w_string (pe_extent_id x), guard (pe_extent_id x \<notin> set seen) GDuplicateExtent,
        w_nonneg (pe_round_index x), guard (pe_round_index x < int rounds) GRoundRange,
        guard (previous \<le> pe_round_index x) GRoundOrder,
        w_nonneg (pe_source_rank x), w_nonneg (pe_destination_rank x),
        guard (pe_source_rank x \<noteq> pe_destination_rank x) GSameEndpoint,
        guard (pe_source_rank x \<in> set ranks \<and> pe_destination_rank x \<in> set ranks) GOutsideRanks,
        w_positive (pe_payload_bytes x),
        extent_end as used (pe_extent_id x) (pe_send_action_id x) SEND (pe_source_rank x),
        extent_end as (pe_send_action_id x # used) (pe_extent_id x) (pe_receive_action_id x) RECEIVE
          (pe_destination_rank x),
        extent_requests x]"

fun plan_extents :: "int list \<Rightarrow> nat \<Rightarrow> plan_action list \<Rightarrow> string list \<Rightarrow> string list \<Rightarrow> int \<Rightarrow> plan_extent list
    \<Rightarrow> graph_error option" where
  "plan_extents ranks rounds as seen used previous [] = None"
| "plan_extents ranks rounds as seen used previous (x # xs) =
     first_err
       [extent_checks ranks rounds as seen used previous x,
        plan_extents ranks rounds as (pe_extent_id x # seen)
          (pe_receive_action_id x # pe_send_action_id x # used) (pe_round_index x) xs]"

definition extent_action_ids :: "plan_extent list \<Rightarrow> string list" where
  "extent_action_ids xs = concat (map (\<lambda>x. [pe_send_action_id x, pe_receive_action_id x]) xs)"

definition validate_rank_action_ids :: "(int \<times> string list) list \<Rightarrow> int list \<Rightarrow> plan_action list \<Rightarrow> graph_error option" where
  "validate_rank_action_ids entries ranks as =
     first_err
       [guard (length entries = length ranks) GRankCount,
        w_each (\<lambda>((r, ids), rank).
          first_err
            [w_nonneg r, guard (r = rank) GRankEntry,
             w_each (\<lambda>k. if \<not> nonblank k then Some GBlank
               else case find_action as k of None \<Rightarrow> Some GUnknownAction
                 | Some a \<Rightarrow> guard (pa_rank a = r) GCrossRank) ids,
             w_unique ids]) (zip entries ranks)]"

definition expected_entries :: "int list \<Rightarrow> plan_action list \<Rightarrow> (int \<times> string list) list" where
  "expected_entries ranks as =
     map (\<lambda>r. (r, map pa_action_id (filter (\<lambda>a. pa_rank a = r \<and> pa_depends_on a = []) as))) ranks"

definition expected_terminals :: "int list \<Rightarrow> plan_action list \<Rightarrow> (int \<times> string list) list" where
  "expected_terminals ranks as =
     (let predecessors = concat (map pa_depends_on as)
      in map (\<lambda>r. (r, map pa_action_id (filter (\<lambda>a. pa_rank a = r \<and> pa_action_id a \<notin> set predecessors) as))) ranks)"

text \<open>
  The rank entries repeat \<open>rank_order\<close>, whose ranks are distinct, so comparing the two
  dictionaries is comparing the lists.
\<close>

definition validate_collective_plan :: "(json \<Rightarrow> string) \<Rightarrow> collective_plan \<Rightarrow> collective_work \<Rightarrow> graph_error option" where
  "validate_collective_plan digest p w =
     (let ranks = cp_rank_order p; as = cp_actions p; xs = cp_extents p
      in first_err
        [plan_header p w, plan_rounds (cp_rounds p), plan_actions ranks [] as, plan_dependencies as,
         plan_extents ranks (length (cp_rounds p)) as [] [] (- 1) xs,
         guard (set (extent_action_ids xs) = pa_action_id ` set as) GUnpairedAction,
         validate_rank_action_ids (cp_entry_action_ids p) ranks as,
         validate_rank_action_ids (cp_terminal_action_ids p) ranks as,
         guard (cp_entry_action_ids p = expected_entries ranks as) GEntries,
         guard (cp_terminal_action_ids p = expected_terminals ranks as) GTerminals,
         guard (length (cp_integrity_sha256 p) = 64
           \<and> list_all (\<lambda>c. c \<in> set ''0123456789abcdef'') (cp_integrity_sha256 p)) GDigestForm,
         guard (collective_plan_integrity_sha256 digest p = cp_integrity_sha256 p) GDigest])"

subsection \<open>Participants\<close>

definition py_strip :: "string \<Rightarrow> string" where
  "py_strip s = rev (dropWhile py_isspace (rev (dropWhile py_isspace s)))"

definition to_lower :: "char \<Rightarrow> char" where
  "to_lower c = (let n = (of_char c :: nat) in if 65 \<le> n \<and> n \<le> 90 then char_of (n + 32) else c)"

definition is_digit :: "char \<Rightarrow> bool" where
  "is_digit c = (let n = (of_char c :: nat) in 48 \<le> n \<and> n \<le> 57)"

definition decimal :: "string \<Rightarrow> int" where
  "decimal s = foldl (\<lambda>n c. 10 * n + (int (of_char c) - 48)) 0 s"

text \<open>The device pattern: gpu, cuda or rank in any case, a colon, digits, and a colon or the end.\<close>

definition device_participant :: "string \<Rightarrow> int option" where
  "device_participant endpoint =
     (let s = py_strip endpoint in
      case find (\<lambda>p. map to_lower (take (length p) s) = p) [''gpu:'', ''cuda:'', ''rank:''] of
        None \<Rightarrow> None
      | Some p \<Rightarrow>
          (let rest = drop (length p) s; digits = takeWhile is_digit rest; after = dropWhile is_digit rest
           in if digits \<noteq> [] \<and> (after = [] \<or> hd after = CHR '':'') then Some (decimal digits) else None))"

definition operation_participant_ranks :: "execution_operation \<Rightarrow> int list" where
  "operation_participant_ranks op =
     sort (remdups (op_rank op #
       (case op_work op of
          CollectiveWork w \<Rightarrow> lw_ranks w
        | ControlWork w \<Rightarrow> xw_destination_ranks w
        | DmaWork w \<Rightarrow> List.map_filter device_participant [dw_source w, dw_destination w]
        | _ \<Rightarrow> [])))"

subsection \<open>Ordering edges\<close>

definition operation_by_id :: "execution_operation list \<Rightarrow> (string, execution_operation) dict" where
  "operation_by_id ops = fold (\<lambda>op d. AList.update (op_operation_id op) op d) ops []"

definition explicit_edge :: "execution_operation \<Rightarrow> string \<Rightarrow> effective_dependency_edge" where
  "explicit_edge op k =
     \<lparr>ed_predecessor_id = k, ed_operation_id = op_operation_id op, ed_scope = WHOLE_OPERATION,
      ed_origin = EXPLICIT, ed_participant_rank = None\<rparr>"

definition local_edges :: "(string, execution_operation) dict \<Rightarrow> execution_operation \<Rightarrow> string
    \<Rightarrow> effective_dependency_edge list" where
  "local_edges by_id op k =
     (case map_of by_id k of
        None \<Rightarrow> []
      | Some pre \<Rightarrow>
          map (\<lambda>r. \<lparr>ed_predecessor_id = k, ed_operation_id = op_operation_id op, ed_scope = PARTICIPANT_LOCAL,
                    ed_origin = EXPLICIT, ed_participant_rank = Some r\<rparr>)
            (filter (\<lambda>r. r \<in> set (operation_participant_ranks pre)) (operation_participant_ranks op)))"

definition fifo_edge :: "execution_operation \<Rightarrow> string \<Rightarrow> effective_dependency_edge" where
  "fifo_edge op k =
     \<lparr>ed_predecessor_id = k, ed_operation_id = op_operation_id op, ed_scope = WHOLE_OPERATION,
      ed_origin = LOGICAL_QUEUE_FIFO, ed_participant_rank = None\<rparr>"

abbreviation op_queue :: "execution_operation \<Rightarrow> int \<times> string" where
  "op_queue op \<equiv> (op_rank op, op_logical_queue op)"

fun edges_from :: "(string, execution_operation) dict \<Rightarrow> (int \<times> string, string) dict \<Rightarrow> execution_operation list
    \<Rightarrow> effective_dependency_edge list" where
  "edges_from by_id queue_tail [] = []"
| "edges_from by_id queue_tail (op # ops) =
     map (explicit_edge op) (op_depends_on op)
     @ concat (map (local_edges by_id op) (op_participant_local_depends_on op))
     @ (case map_of queue_tail (op_queue op) of None \<Rightarrow> [] | Some k \<Rightarrow> [fifo_edge op k])
     @ edges_from by_id (AList.update (op_queue op) (op_operation_id op) queue_tail) ops"

definition effective_dependency_edges_unchecked :: "execution_graph \<Rightarrow> effective_dependency_edge list" where
  "effective_dependency_edges_unchecked g = edges_from (operation_by_id (eg_operations g)) [] (eg_operations g)"

subsection \<open>The cycle check\<close>

text \<open>
  The source keeps edges and successors in sets, whose iteration order Python does not fix.
  The model iterates in edge order; whether the count reaches every operation does not depend
  on the order.
\<close>

type_synonym edge_pair = "string \<times> string"

definition outgoing :: "edge_pair list \<Rightarrow> string \<Rightarrow> string list" where
  "outgoing edges source = map snd (filter (\<lambda>e. fst e = source) edges)"

definition initial_indegree :: "string list \<Rightarrow> edge_pair list \<Rightarrow> (string, int) dict" where
  "initial_indegree ids edges =
     fold (\<lambda>e d. AList.update (snd e) (dict_get d (snd e) 0 + 1) d) edges (map (\<lambda>k. (k, 0)) ids)"

fun relax :: "string list \<Rightarrow> string list \<Rightarrow> (string, int) dict \<Rightarrow> string list \<times> (string, int) dict" where
  "relax [] ready indegree = (ready, indegree)"
| "relax (v # vs) ready indegree =
     (let n = dict_get indegree v 0 - 1
      in relax vs (if n = 0 then ready @ [v] else ready) (AList.update v n indegree))"

definition waiting :: "(string, int) dict \<Rightarrow> nat" where
  "waiting indegree = length (filter (\<lambda>p. 0 < snd p) indegree)"

lemma waiting_update:
  "waiting (AList.update v n d) + (if 0 < dict_get d v 0 then 1 else 0) = waiting d + (if 0 < n then 1 else 0)"
  by (induction d) (auto simp: waiting_def)

lemma relax_measure: "relax vs ready d = (ready', d') \<Longrightarrow> length ready' + waiting d' \<le> length ready + waiting d"
proof (induction vs arbitrary: ready d)
  case (Cons v vs)
  define n where "n = dict_get d v 0 - 1"
  have "length ready' + waiting d' \<le> length (if n = 0 then ready @ [v] else ready) + waiting (AList.update v n d)"
    using Cons by (simp add: n_def Let_def)
  also have "\<dots> \<le> length ready + waiting d"
    using waiting_update [of v n d] n_def by (cases "n = 0") (auto split: if_splits)
  finally show ?case .
qed simp

function kahn :: "edge_pair list \<Rightarrow> string list \<Rightarrow> (string, int) dict \<Rightarrow> nat \<Rightarrow> nat" where
  "kahn edges [] indegree visited = visited"
| "kahn edges (source # ready) indegree visited =
     (case relax (outgoing edges source) ready indegree of
        (ready', indegree') \<Rightarrow> kahn edges ready' indegree' (visited + 1))"
  by pat_completeness auto
termination
proof (relation "measure (\<lambda>(edges, ready, indegree, visited). length ready + waiting indegree)", goal_cases)
  case (2 edges source ready indegree visited ready' indegree')
  then show ?case using relax_measure [of "outgoing edges source" ready indegree ready' indegree'] by simp
qed simp

definition edge_pairs :: "execution_graph \<Rightarrow> edge_pair list" where
  "edge_pairs g =
     remdups (map (\<lambda>e. (ed_predecessor_id e, ed_operation_id e)) (effective_dependency_edges_unchecked g))"

definition acyclic_check :: "execution_graph \<Rightarrow> graph_error option" where
  "acyclic_check g =
     (let ids = map fst (operation_by_id (eg_operations g)); edges = edge_pairs g;
          indegree = initial_indegree ids edges; ready = map fst (filter (\<lambda>p. snd p = 0) indegree)
      in guard (kahn edges ready indegree 0 = length ids) GCycle)"

subsection \<open>Graphs\<close>

definition dependency_fields :: "string \<Rightarrow> string list \<Rightarrow> graph_error option" where
  "dependency_fields operation_id deps =
     first_err [w_each w_string deps, w_unique deps, guard (operation_id \<notin> set deps) GSelfDependency]"

definition operation_checks :: "string list \<Rightarrow> execution_operation \<Rightarrow> graph_error option" where
  "operation_checks seen op =
     first_err
       [w_string (op_operation_id op), guard (op_operation_id op \<notin> set seen) GDuplicateOperation,
        w_nonneg (op_rank op), w_string (op_logical_queue op),
        dependency_fields (op_operation_id op) (op_depends_on op),
        dependency_fields (op_operation_id op) (op_participant_local_depends_on op),
        guard (set (op_depends_on op) \<inter> set (op_participant_local_depends_on op) = {}) GTwoModes,
        w_nonneg (op_not_before_ps op), wire_correlation (op_correlation op), w_nonneg (op_placement_epoch op),
        validate_work (op_work op),
        (case op_work op of
           CollectiveWork w \<Rightarrow>
             first_err [guard (op_rank op \<in> set (lw_ranks w)) GAnchorRank,
               guard (fst ` set (lw_request_pair_payload_bytes w) \<subseteq> set (oc_request_ids (op_correlation op)))
                 GUnknownRequest]
         | _ \<Rightarrow> None)]"

fun check_operations :: "string list \<Rightarrow> execution_operation list \<Rightarrow> graph_error option" where
  "check_operations seen [] = None"
| "check_operations seen (op # ops) =
     first_err [operation_checks seen op, check_operations (op_operation_id op # seen) ops]"

definition check_dependencies :: "(string, execution_operation) dict \<Rightarrow> execution_operation \<Rightarrow> graph_error option" where
  "check_dependencies by_id op =
     first_err
       [w_each (\<lambda>k. guard (map_of by_id k \<noteq> None) GUnknownOperation) (op_depends_on op),
        w_each (\<lambda>k. guard (map_of by_id k \<noteq> None) GUnknownOperation) (op_participant_local_depends_on op),
        w_each (\<lambda>k. case map_of by_id k of
            None \<Rightarrow> Some GUnknownOperation
          | Some pre \<Rightarrow> guard (set (operation_participant_ranks op) \<inter> set (operation_participant_ranks pre) \<noteq> {})
              GNoSharedRank) (op_participant_local_depends_on op)]"

definition collective_operations :: "execution_operation list \<Rightarrow> (string \<times> collective_work) list" where
  "collective_operations ops =
     List.map_filter (\<lambda>op. case op_work op of CollectiveWork w \<Rightarrow> Some (op_operation_id op, w) | _ \<Rightarrow> None) ops"

definition check_plans :: "(json \<Rightarrow> string) \<Rightarrow> execution_graph \<Rightarrow> graph_error option" where
  "check_plans digest g =
     (let plans = eg_collective_plans g; works = collective_operations (eg_operations g)
      in if plans = [] then None
         else first_err
           [guard (length plans = length works) GPlanCount,
            w_each (\<lambda>(p, k, w). first_err [guard (cp_operation_id p = k) GPlanOrder,
              validate_collective_plan digest p w]) (zip plans works),
            w_unique (concat (map (\<lambda>p. map pr_tag (cp_rounds p)) plans))])"

text \<open>Everything but the cycle check, and the whole validation.\<close>

definition graph_structure :: "(json \<Rightarrow> string) \<Rightarrow> execution_graph \<Rightarrow> graph_error option" where
  "graph_structure digest g =
     (let ops = eg_operations g; by_id = operation_by_id ops; done = eg_completion_operation_ids g
      in first_err
        [w_string (eg_execution_id g), w_nonneg (eg_step_index g), w_nonneg (eg_released_at_ps g),
         check_operations [] ops,
         w_each (check_dependencies by_id) ops,
         w_each (\<lambda>k. first_err [w_string k, guard (map_of by_id k \<noteq> None) GUnknownOperation]) done,
         w_unique done,
         check_plans digest g])"

definition validate_execution_graph :: "(json \<Rightarrow> string) \<Rightarrow> execution_graph \<Rightarrow> graph_error option" where
  "validate_execution_graph digest g = first_err [graph_structure digest g, acyclic_check g]"

definition effective_dependency_edges :: "(json \<Rightarrow> string) \<Rightarrow> execution_graph \<Rightarrow> graph_error + effective_dependency_edge list" where
  "effective_dependency_edges digest g =
     (case validate_execution_graph digest g of
        Some e \<Rightarrow> Inl e
      | None \<Rightarrow> Inr (effective_dependency_edges_unchecked g))"

text \<open>The decimal text of a natural number, as an f-string prints it.\<close>

fun nat_text :: "nat \<Rightarrow> string" where
  "nat_text n = (if n < 10 then [char_of (48 + n)] else nat_text (n div 10) @ [char_of (48 + n mod 10)])"

declare nat_text.simps [simp del]

definition execution_graph_from_observations :: "(json \<Rightarrow> string) \<Rightarrow> step_record \<Rightarrow> execution_observations option
    \<Rightarrow> string option \<Rightarrow> graph_error + execution_graph" where
  "execution_graph_from_observations digest r observations execution_id =
     (case first_err [w_nonneg (st_step_index r), w_nonneg (st_virtual_time_ps r)] of
        Some e \<Rightarrow> Inl e
      | None \<Rightarrow>
          (let ob = (case observations of None \<Rightarrow> \<lparr>ob_operations = [], ob_completion_operation_ids = []\<rparr>
                     | Some ob \<Rightarrow> ob);
               g = \<lparr>eg_execution_id = (case execution_id of None \<Rightarrow> ''step-'' @ nat_text (nat (st_step_index r))
                                     | Some k \<Rightarrow> k),
                    eg_step_index = st_step_index r, eg_released_at_ps = st_virtual_time_ps r,
                    eg_operations = ob_operations ob,
                    eg_completion_operation_ids = ob_completion_operation_ids ob, eg_collective_plans = []\<rparr>
           in case validate_execution_graph digest g of Some e \<Rightarrow> Inl e | None \<Rightarrow> Inr g))"

end
