(* ===== verification/Graph_Properties.thy ===== *)
theory Graph_Properties
  imports Graph
begin

text \<open>
  What a validated graph guarantees: the cycle check accepts exactly the acyclic edge
  relations, operations on one logical queue are ordered as they appear in the graph, a
  validated collective plan pairs its actions with its extents one to one and never waits for
  a later action, and a request partition adds up to the pair table.
\<close>

subsection \<open>The counting loop\<close>

definition pending :: "edge_pair list \<Rightarrow> string list \<Rightarrow> string \<Rightarrow> int" where
  "pending edges done v = int (length (filter (\<lambda>e. snd e = v \<and> fst e \<notin> set done) edges))"

lemma pending_0: "pending edges done v = 0 \<longleftrightarrow> (\<forall>u. (u, v) \<in> set edges \<longrightarrow> u \<in> set done)"
  by (auto simp: pending_def filter_empty_conv)

lemma outgoing_set: "v \<in> set (outgoing edges u) \<longleftrightarrow> (u, v) \<in> set edges"
  by (force simp: outgoing_def)

lemma distinct_outgoing: "distinct edges \<Longrightarrow> distinct (outgoing edges u)"
  by (force simp: outgoing_def distinct_map inj_on_def)

lemma pending_simps [simp]:
  "pending [] done v = 0"
  "pending (e # edges) done v = b2i (snd e = v \<and> fst e \<notin> set done) + pending edges done v"
  by (simp_all add: pending_def)

lemma pending_pop:
  "distinct edges \<Longrightarrow> u \<notin> set done \<Longrightarrow>
   pending edges (done @ [u]) v = pending edges done v - b2i ((u, v) \<in> set edges)"
proof (induction edges)
  case (Cons e edges)
  then show ?case by (cases "e = (u, v)") (cases e, auto)+
qed simp

lemma relax_effect:
  "relax vs ready d = (ready', d') \<Longrightarrow> distinct vs \<Longrightarrow>
   ready' = ready @ filter (\<lambda>v. dict_get d v 0 = 1) vs \<and>
   (\<forall>v. dict_get d' v 0 = dict_get d v 0 - (if v \<in> set vs then 1 else 0))"
proof (induction vs arbitrary: ready d)
  case (Cons w vs)
  let ?n = "dict_get d w 0 - 1"
  have "relax vs (if ?n = 0 then ready @ [w] else ready) (AList.update w ?n d) = (ready', d')"
    using Cons.prems(1) by (simp add: Let_def)
  note ih = Cons.IH [OF this] Cons.prems(2)
  have "filter (\<lambda>v. dict_get (AList.update w ?n d) v 0 = 1) vs = filter (\<lambda>v. dict_get d v 0 = 1) vs"
    using Cons.prems(2) by (intro filter_cong) auto
  then show ?case using ih by auto
qed simp

lemma count_edges_keys:
  "set (map snd edges) \<subseteq> set (map fst d) \<Longrightarrow>
   map fst (fold (\<lambda>e d. AList.update (snd e) (dict_get d (snd e) 0 + 1) d) edges d) = map fst (d :: (string, int) dict)"
proof (induction edges arbitrary: d)
  case (Cons e edges)
  have keys: "map fst (AList.update (snd e) (dict_get d (snd e) 0 + 1) d) = map fst d"
    using Cons.prems by (simp add: AList.update_keys)
  have "set (map snd edges) \<subseteq> set (map fst (AList.update (snd e) (dict_get d (snd e) 0 + 1) d))"
    unfolding keys using Cons.prems by simp
  from Cons.IH [OF this] show ?case by (simp add: keys)
qed simp

lemma initial_indegree_keys:
  "set (map snd edges) \<subseteq> set ids \<Longrightarrow> map fst (initial_indegree ids edges) = ids"
  using count_edges_keys [of edges "map (\<lambda>k. (k, 0)) ids"] by (simp add: initial_indegree_def o_def)

lemma initial_indegree_get: "dict_get (initial_indegree ids edges) v 0 = pending edges [] v"
proof -
  have "dict_get (fold (\<lambda>e d. AList.update (snd e) (dict_get d (snd e) 0 + 1) d) edges d) v 0
      = dict_get d v 0 + pending edges [] v" for d :: "(string, int) dict"
    by (induction edges arbitrary: d) (auto simp: pending_def)
  moreover have "dict_get (map (\<lambda>k. (k, 0)) ids) v (0 :: int) = 0"
    by (induction ids) auto
  ultimately show ?thesis by (simp add: initial_indegree_def)
qed

text \<open>The loop invariant: \<open>done\<close> are the sources taken so far, in order.\<close>

definition kahn_inv :: "edge_pair list \<Rightarrow> string list \<Rightarrow> string list \<Rightarrow> string list \<Rightarrow> (string, int) dict \<Rightarrow> bool" where
  "kahn_inv edges ids done ready d \<longleftrightarrow>
     distinct (done @ ready) \<and> set (done @ ready) \<subseteq> set ids \<and> (\<forall>v. dict_get d v 0 = pending edges done v) \<and>
     (\<forall>v \<in> set ids. v \<in> set (done @ ready) \<longleftrightarrow> pending edges done v = 0) \<and>
     (\<forall>i < length done. \<forall>u. (u, done ! i) \<in> set edges \<longrightarrow> u \<in> set (take i done))"

lemma kahn_inv_step:
  assumes inv: "kahn_inv edges ids done (source # ready) d" and edges: "distinct edges" "set edges \<subseteq> set ids \<times> set ids"
    and r: "relax (outgoing edges source) ready d = (ready', d')"
  shows "kahn_inv edges ids (done @ [source]) ready' d'"
proof -
  have new: "source \<notin> set done" and get: "\<And>v. dict_get d v 0 = pending edges done v"
    and zero: "\<And>v. v \<in> set ids \<Longrightarrow> v \<in> set (done @ source # ready) \<longleftrightarrow> pending edges done v = 0"
    and sub: "set (done @ source # ready) \<subseteq> set ids" and dist: "distinct (done @ source # ready)"
    using inv by (auto simp: kahn_inv_def)
  note pop = pending_pop [OF edges(1) new]
  note eff = relax_effect [OF r distinct_outgoing [OF edges(1)]]
  have r': "ready' = ready @ filter (\<lambda>v. pending edges done v = 1) (outgoing edges source)"
    using conjunct1 [OF eff] by (simp add: get)
  have out: "set (outgoing edges source) \<subseteq> set ids" using edges(2) by (auto simp: outgoing_set)
  have get': "dict_get d' v 0 = pending edges (done @ [source]) v" for v
    using conjunct2 [OF eff] by (simp add: get pop outgoing_set)
  have zero': "v \<in> set ((done @ [source]) @ ready') \<longleftrightarrow> pending edges (done @ [source]) v = 0" if v: "v \<in> set ids" for v
  proof (cases "(source, v) \<in> set edges")
    case True
    then have "pending edges done v \<noteq> 0" using new by (auto simp: pending_0)
    then show ?thesis using zero [OF v] True by (simp add: r' pop outgoing_set)
  next
    case False
    then show ?thesis using zero [OF v] by (auto simp: r' pop outgoing_set)
  qed
  have "v \<notin> set (done @ source # ready)" if "v \<in> set (outgoing edges source)" for v
    using that zero [of v] out new by (auto simp: outgoing_set pending_0)
  then have dist': "distinct ((done @ [source]) @ ready')"
    using dist distinct_outgoing [OF edges(1)] by (auto simp: r')
  have "(u, source) \<in> set edges \<Longrightarrow> u \<in> set done" for u
    using zero [of source] sub by (auto simp: pending_0)
  then have order: "\<forall>i < length (done @ [source]). \<forall>u. (u, (done @ [source]) ! i) \<in> set edges \<longrightarrow> u \<in> set (take i (done @ [source]))"
    using inv by (auto simp: kahn_inv_def nth_append less_Suc_eq)
  have "set ((done @ [source]) @ ready') \<subseteq> set ids" using sub out by (auto simp: r')
  then show ?thesis using dist' get' zero' order unfolding kahn_inv_def by blast
qed

lemma kahn_result:
  "kahn_inv edges ids done ready d \<Longrightarrow> n = length done \<Longrightarrow> distinct edges \<Longrightarrow> set edges \<subseteq> set ids \<times> set ids \<Longrightarrow>
   \<exists>done' d'. kahn edges ready d n = length done' \<and> kahn_inv edges ids done' [] d'"
proof (induction edges ready d n arbitrary: "done" rule: kahn.induct)
  case (2 edges source ready d n "done")
  obtain ready' d' where r: "relax (outgoing edges source) ready d = (ready', d')" by fastforce
  have "kahn_inv edges ids (done @ [source]) ready' d'" using 2(2,4,5) r by (rule kahn_inv_step)
  from 2(1) [OF r [symmetric] this _ 2(4,5)] show ?case using 2(3) by (simp add: r)
qed auto

text \<open>When the loop stops: everything taken gives a topological order, anything left a cycle.\<close>

lemma length_takeWhile_less_of: "takeWhile P xs \<noteq> xs \<Longrightarrow> length (takeWhile P xs) < length xs"
  by (induction xs) auto

lemma topological_acyclic:
  assumes order: "\<forall>i < length xs. \<forall>u. (u, xs ! i) \<in> E \<longrightarrow> u \<in> set (take i xs)" and sub: "snd ` E \<subseteq> set xs"
  shows "acyclic E"
proof -
  let ?index = "\<lambda>v. length (takeWhile (\<lambda>x. x \<noteq> v) xs)"
  have "?index u < ?index v" if e: "(u, v) \<in> E" for u v
  proof -
    have "v \<in> set xs" using e sub by force
    then have "takeWhile (\<lambda>x. x \<noteq> v) xs \<noteq> xs" by (auto simp: takeWhile_eq_all_conv)
    then have i: "?index v < length xs" by (rule length_takeWhile_less_of)
    then have "xs ! ?index v = v" using nth_length_takeWhile [of "\<lambda>x. x \<noteq> v" xs] by simp
    then have "u \<in> set (take (?index v) xs)" using order i e by metis
    then obtain j where j: "j < ?index v" "xs ! j = u" using i by (auto simp: in_set_conv_nth)
    have "?index u \<le> j"
    proof (rule ccontr)
      assume "\<not> ?thesis"
      then have "xs ! j \<in> set (takeWhile (\<lambda>x. x \<noteq> u) xs)" by (metis linorder_not_le nth_mem takeWhile_nth)
      then show False using j(2) by (auto dest: set_takeWhileD)
    qed
    then show ?thesis using j(1) by simp
  qed
  then have "E \<subseteq> measure ?index" by auto
  then show ?thesis using wf_acyclic wf_measure acyclic_subset by blast
qed

lemma distinct_keys_filter: "dict_ok d \<Longrightarrow> distinct (map fst (filter P d))"
  by (induction d) auto

lemma zero_keys:
  "dict_ok d \<Longrightarrow> set (map fst (filter (\<lambda>p. snd p = 0) d)) = {v \<in> set (map fst d). dict_get d v 0 = (0 :: int)}"
  by (induction d) (auto split: option.splits simp: map_of_eq_None_iff)

lemma kahn_acyclic:
  assumes ids: "distinct ids" and edges: "distinct edges" "set edges \<subseteq> set ids \<times> set ids"
  shows "kahn edges (map fst (filter (\<lambda>p. snd p = 0) (initial_indegree ids edges))) (initial_indegree ids edges) 0
    = length ids \<longleftrightarrow> acyclic (set edges)"
proof -
  let ?d = "initial_indegree ids edges" let ?ready = "map fst (filter (\<lambda>p. snd p = 0) ?d)"
  have keys: "map fst ?d = ids" using edges(2) by (intro initial_indegree_keys) auto
  have keys_ok: "dict_ok ?d" unfolding keys by (rule ids)
  have ready: "set ?ready = {v \<in> set ids. pending edges [] v = 0}"
    by (simp only: zero_keys [OF keys_ok] keys initial_indegree_get)
  have "distinct ?ready" using keys_ok by (rule distinct_keys_filter)
  then have "kahn_inv edges ids [] ?ready ?d" using ready by (auto simp: kahn_inv_def initial_indegree_get)
  from kahn_result [OF this _ edges] obtain xs d where
    k: "kahn edges ?ready ?d 0 = length xs" and inv: "kahn_inv edges ids xs [] d" by auto
  have xs: "distinct xs" "set xs \<subseteq> set ids"
    and zero: "\<And>v. v \<in> set ids \<Longrightarrow> v \<in> set xs \<longleftrightarrow> pending edges xs v = 0"
    and order: "\<forall>i < length xs. \<forall>u. (u, xs ! i) \<in> set edges \<longrightarrow> u \<in> set (take i xs)"
    using inv by (auto simp: kahn_inv_def)
  have all: "length xs = length ids \<longleftrightarrow> set xs = set ids"
    using xs ids by (metis card_subset_eq distinct_card finite_set)
  show ?thesis
  proof
    assume "kahn edges ?ready ?d 0 = length ids"
    then have "set xs = set ids" using k all by simp
    then show "acyclic (set edges)" using edges(2) order by (intro topological_acyclic [of xs]) auto
  next
    assume "acyclic (set edges)"
    then have wf: "wf (set edges)" by (simp add: finite_acyclic_wf)
    have "set ids - set xs = {}"
    proof (rule ccontr)
      assume "set ids - set xs \<noteq> {}"
      then obtain v where v: "v \<in> set ids - set xs" and least: "\<And>u. (u, v) \<in> set edges \<Longrightarrow> u \<notin> set ids - set xs"
        using wf by (metis wfE_min')
      then have "pending edges xs v = 0" using edges(2) by (auto simp: pending_0)
      then show False using zero v by auto
    qed
    then show "kahn edges ?ready ?d 0 = length ids" using k all xs(2) by auto
  qed
qed

subsection \<open>Validated graphs\<close>

lemma check_operations_distinct:
  "check_operations seen ops = None \<Longrightarrow>
   distinct (map op_operation_id ops) \<and> set (map op_operation_id ops) \<inter> set seen = {}"
proof (induction ops arbitrary: seen)
  case (Cons op ops)
  then have "op_operation_id op \<notin> set seen" "check_operations (op_operation_id op # seen) ops = None"
    by (simp_all add: operation_checks_def)
  then show ?case using Cons.IH [of "op_operation_id op # seen"] by auto
qed simp

lemma operation_by_id_distinct:
  "distinct (map op_operation_id ops) \<Longrightarrow> operation_by_id ops = map (\<lambda>op. (op_operation_id op, op)) ops"
  using fold_update_fresh [of "[]" op_operation_id ops "\<lambda>op. op"] by (simp add: operation_by_id_def)

lemma graph_structure_operations:
  assumes "graph_structure digest g = None"
  shows "distinct (map op_operation_id (eg_operations g))"
    and "operation_by_id (eg_operations g) = map (\<lambda>op. (op_operation_id op, op)) (eg_operations g)"
    and "op \<in> set (eg_operations g) \<Longrightarrow> check_dependencies (operation_by_id (eg_operations g)) op = None"
proof -
  have "check_operations [] (eg_operations g) = None" "w_each (check_dependencies (operation_by_id (eg_operations g))) (eg_operations g) = None"
    using assms by (auto simp: graph_structure_def Let_def)
  then show "distinct (map op_operation_id (eg_operations g))"
    and "op \<in> set (eg_operations g) \<Longrightarrow> check_dependencies (operation_by_id (eg_operations g)) op = None"
    using check_operations_distinct by auto
  then show "operation_by_id (eg_operations g) = map (\<lambda>op. (op_operation_id op, op)) (eg_operations g)"
    by (simp add: operation_by_id_distinct)
qed

text \<open>Where an edge comes from.\<close>

lemma edges_from_ends:
  "e \<in> set (edges_from by_id tails ops) \<Longrightarrow>
   \<exists>op \<in> set ops. ed_operation_id e = op_operation_id op \<and>
     (ed_predecessor_id e \<in> set (op_depends_on op) \<union> set (op_participant_local_depends_on op) \<or>
      ed_predecessor_id e \<in> snd ` set tails \<union> op_operation_id ` set ops)"
proof (induction ops arbitrary: tails)
  case (Cons op ops)
  have upd: "snd ` set (AList.update q k tails) \<subseteq> insert k (snd ` set tails)" for q k
    by (induction tails) auto
  consider "e \<in> set (map (explicit_edge op) (op_depends_on op))"
    | "e \<in> set (concat (map (local_edges by_id op) (op_participant_local_depends_on op)))"
    | k where "map_of tails (op_queue op) = Some k" "e = fifo_edge op k"
    | "e \<in> set (edges_from by_id (AList.update (op_queue op) (op_operation_id op) tails) ops)"
    using Cons.prems by (cases "map_of tails (op_queue op)") auto
  then show ?case
  proof cases
    case 3
    then have "k \<in> snd ` set tails" by (force dest: map_of_SomeD)
    then show ?thesis using 3 by (auto simp: fifo_edge_def)
  next
    case 4
    from Cons.IH [OF 4] show ?thesis using upd [of "op_queue op" "op_operation_id op"] by (auto dest!: subsetD)
  qed (auto simp: explicit_edge_def local_edges_def split: option.splits)
qed simp

definition ordering :: "execution_graph \<Rightarrow> edge_pair set" where
  "ordering g = (\<lambda>e. (ed_predecessor_id e, ed_operation_id e)) ` set (effective_dependency_edges_unchecked g)"

lemma edge_pairs_set: "set (edge_pairs g) = ordering g" "distinct (edge_pairs g)"
  by (simp_all add: edge_pairs_def ordering_def)

lemma ordering_known:
  assumes "graph_structure digest g = None"
  shows "ordering g \<subseteq> op_operation_id ` set (eg_operations g) \<times> op_operation_id ` set (eg_operations g)"
proof -
  let ?ops = "eg_operations g"
  have "ed_predecessor_id e \<in> op_operation_id ` set ?ops \<and> ed_operation_id e \<in> op_operation_id ` set ?ops"
    if e: "e \<in> set (effective_dependency_edges_unchecked g)" for e
  proof -
    obtain op where op: "op \<in> set ?ops" "ed_operation_id e = op_operation_id op" and
      pre: "ed_predecessor_id e \<in> set (op_depends_on op) \<union> set (op_participant_local_depends_on op) \<or>
        ed_predecessor_id e \<in> op_operation_id ` set ?ops"
      using edges_from_ends [OF e [unfolded effective_dependency_edges_unchecked_def]] by auto
    have "check_dependencies (operation_by_id ?ops) op = None" using assms op(1) by (rule graph_structure_operations)
    then have "map_of (operation_by_id ?ops) k \<noteq> None"
      if "k \<in> set (op_depends_on op) \<union> set (op_participant_local_depends_on op)" for k
      using that by (auto simp: check_dependencies_def)
    then have "k \<in> op_operation_id ` set ?ops"
      if "k \<in> set (op_depends_on op) \<union> set (op_participant_local_depends_on op)" for k
      using that graph_structure_operations(2) [OF assms] by (force simp: map_of_eq_None_iff)
    then show ?thesis using pre op by auto
  qed
  then show ?thesis by (auto simp: ordering_def)
qed

lemma acyclic_check_correct:
  assumes "graph_structure digest g = None"
  shows "acyclic_check g = (if acyclic (ordering g) then None else Some GCycle)"
proof -
  let ?ids = "map op_operation_id (eg_operations g)"
  have ids: "map fst (operation_by_id (eg_operations g)) = ?ids" "distinct ?ids"
    using graph_structure_operations [OF assms] by (simp_all add: o_def)
  have "set (edge_pairs g) \<subseteq> set ?ids \<times> set ?ids" using ordering_known [OF assms] by (simp add: edge_pairs_set)
  from kahn_acyclic [OF ids(2) edge_pairs_set(2) this] show ?thesis
    by (simp add: acyclic_check_def Let_def ids(1) edge_pairs_set guard_def)
qed

text \<open>
  C26. The cycle check is exact: after the structural checks, \<open>validate_execution_graph\<close>
  accepts a graph exactly when its effective ordering (explicit dependencies,
  participant-local dependencies and queue order together) has no cycle, and reports the cycle
  otherwise; the counting loop always ends.
\<close>

theorem graph_accepted_iff_acyclic:
  "validate_execution_graph digest g =
     (case graph_structure digest g of
        Some e \<Rightarrow> Some e
      | None \<Rightarrow> if acyclic (ordering g) then None else Some GCycle)"
proof (cases "graph_structure digest g")
  case None
  then show ?thesis using acyclic_check_correct [OF None] by (simp add: validate_execution_graph_def)
qed (simp add: validate_execution_graph_def)

subsection \<open>Queue order\<close>

abbreviation pairs_of :: "effective_dependency_edge list \<Rightarrow> edge_pair set" where
  "pairs_of es \<equiv> (\<lambda>e. (ed_predecessor_id e, ed_operation_id e)) ` set es"

lemma pairs_of_rest:
  "pairs_of (edges_from by_id (AList.update (op_queue op) (op_operation_id op) tails) ops)
     \<subseteq> pairs_of (edges_from by_id tails (op # ops))"
  by auto

lemma fifo_edge_pair:
  "map_of tails (op_queue op) = Some k \<Longrightarrow> (k, op_operation_id op) \<in> pairs_of (edges_from by_id tails (op # ops))"
  by (force simp: fifo_edge_def)

lemma tail_before:
  "j < length ops \<Longrightarrow> map_of tails (op_queue (ops ! j)) = Some k \<Longrightarrow>
   (k, op_operation_id (ops ! j)) \<in> (pairs_of (edges_from by_id tails ops))\<^sup>+"
proof (induction ops arbitrary: tails k j)
  case (Cons op ops)
  let ?tails = "AList.update (op_queue op) (op_operation_id op) tails"
  let ?R = "pairs_of (edges_from by_id tails (op # ops))"
  show ?case
  proof (cases j)
    case 0
    then have "(k, op_operation_id op) \<in> ?R" using Cons.prems(2) by (intro fifo_edge_pair) simp
    then show ?thesis using 0 by (simp del: edges_from.simps)
  next
    case (Suc i)
    define h where "h = (if op_queue op = op_queue (ops ! i) then op_operation_id op else k)"
    have "map_of ?tails (op_queue (ops ! i)) = Some h" using Cons.prems(2) Suc by (auto simp: h_def)
    then have "(h, op_operation_id (ops ! i)) \<in> (pairs_of (edges_from by_id ?tails ops))\<^sup>+"
      using Cons.IH [of i] Cons.prems(1) Suc by simp
    then have rest: "(h, op_operation_id (ops ! i)) \<in> ?R\<^sup>+" by (rule trancl_mono) (rule pairs_of_rest)
    show ?thesis
    proof (cases "op_queue op = op_queue (ops ! i)")
      case True
      then have "(k, h) \<in> ?R" using fifo_edge_pair [of tails op k by_id ops] Cons.prems(2) Suc by (simp add: h_def)
      then show ?thesis using rest Suc by (simp add: trancl_into_trancl2 del: edges_from.simps)
    next
      case False
      then have "h = k" by (auto simp: h_def)
      then show ?thesis using rest Suc by (simp del: edges_from.simps)
    qed
  qed
qed simp

lemma queue_order_from:
  "i < j \<Longrightarrow> j < length ops \<Longrightarrow> op_queue (ops ! i) = op_queue (ops ! j) \<Longrightarrow>
   (op_operation_id (ops ! i), op_operation_id (ops ! j)) \<in> (pairs_of (edges_from by_id tails ops))\<^sup>+"
proof (induction ops arbitrary: tails i j)
  case (Cons op ops)
  let ?tails = "AList.update (op_queue op) (op_operation_id op) tails"
  obtain j' where j: "j = Suc j'" using Cons.prems(1) by (cases j) auto
  have "(op_operation_id ((op # ops) ! i), op_operation_id (ops ! j')) \<in> (pairs_of (edges_from by_id ?tails ops))\<^sup>+"
  proof (cases i)
    case 0
    then show ?thesis using tail_before [of j' ops ?tails "op_operation_id op"] Cons.prems j by simp
  next
    case (Suc i')
    then show ?thesis using Cons.IH [of i' j' ?tails] Cons.prems j by simp
  qed
  then show ?case unfolding j nth_Cons_Suc by (rule trancl_mono) (rule pairs_of_rest)
qed simp

text \<open>
  Logical queues are first in, first out: in a graph that validates, any two operations
  of one rank and queue are ordered as they are listed, and never the other way round.
\<close>

theorem queue_order_respected:
  assumes "validate_execution_graph digest g = None" and "i < j" and "j < length (eg_operations g)"
    and "op_rank (eg_operations g ! i) = op_rank (eg_operations g ! j)"
    and "op_logical_queue (eg_operations g ! i) = op_logical_queue (eg_operations g ! j)"
  shows "(op_operation_id (eg_operations g ! i), op_operation_id (eg_operations g ! j)) \<in> (ordering g)\<^sup>+ \<and>
    (op_operation_id (eg_operations g ! j), op_operation_id (eg_operations g ! i)) \<notin> (ordering g)\<^sup>+"
proof -
  have "graph_structure digest g = None" "acyclic_check g = None"
    using assms(1) by (simp_all add: validate_execution_graph_def)
  then have "acyclic (ordering g)" using acyclic_check_correct [of digest g] by (auto split: if_splits)
  moreover have "(op_operation_id (eg_operations g ! i), op_operation_id (eg_operations g ! j)) \<in> (ordering g)\<^sup>+"
    using queue_order_from [OF assms(2,3)] assms(4,5)
    by (simp add: ordering_def effective_dependency_edges_unchecked_def)
  ultimately show ?thesis by (meson acyclic_def trancl_trans)
qed

subsection \<open>Validated plans\<close>

lemma plan_actions_distinct:
  "plan_actions ranks seen as = None \<Longrightarrow>
   distinct (map pa_action_id as) \<and> set (map pa_action_id as) \<inter> set seen = {}"
proof (induction as arbitrary: seen)
  case (Cons a as)
  then have "pa_action_id a \<notin> set seen" "plan_actions ranks (pa_action_id a # seen) as = None" by simp_all
  then show ?case using Cons.IH [of "pa_action_id a # seen"] by auto
qed simp

lemma find_action_Some: "find_action as k = Some a \<Longrightarrow> a \<in> set as \<and> pa_action_id a = k"
  by (auto simp: find_action_def find_Some_iff)

text \<open>An action is an end of an extent when the extent names it and they agree on rank and identity.\<close>

definition end_of :: "plan_extent \<Rightarrow> plan_action \<Rightarrow> bool" where
  "end_of x a \<longleftrightarrow> pa_extent_id a = pe_extent_id x \<and>
     (case pa_kind a of
        SEND \<Rightarrow> pa_action_id a = pe_send_action_id x \<and> pa_rank a = pe_source_rank x
      | RECEIVE \<Rightarrow> pa_action_id a = pe_receive_action_id x \<and> pa_rank a = pe_destination_rank x)"

lemma extent_end_accepted:
  assumes "extent_end as used x k kind rank = None"
  obtains a where "a \<in> set as" "pa_action_id a = k" "pa_kind a = kind" "pa_rank a = rank" "pa_extent_id a = x" "k \<notin> set used"
proof -
  obtain a where "find_action as k = Some a" "pa_kind a = kind" "pa_rank a = rank" "pa_extent_id a = x" "k \<notin> set used"
    using assms by (auto simp: extent_end_def split: if_splits option.splits)
  with find_action_Some [of as k a] that show thesis by blast
qed

lemma extent_ids_simps [simp]:
  "extent_action_ids [] = []"
  "extent_action_ids (x # xs) = pe_send_action_id x # pe_receive_action_id x # extent_action_ids xs"
  by (simp_all add: extent_action_ids_def)

lemma extent_checks_accepted:
  assumes "extent_checks ranks rounds as seen used previous x = None"
  shows "pe_extent_id x \<notin> set seen" "pe_send_action_id x \<notin> set used"
    "pe_receive_action_id x \<notin> set (pe_send_action_id x # used)"
    "\<exists>a \<in> set as. pa_action_id a = pe_send_action_id x \<and> end_of x a"
    "\<exists>a \<in> set as. pa_action_id a = pe_receive_action_id x \<and> end_of x a"
proof -
  have send: "extent_end as used (pe_extent_id x) (pe_send_action_id x) SEND (pe_source_rank x) = None"
    and recv: "extent_end as (pe_send_action_id x # used) (pe_extent_id x) (pe_receive_action_id x) RECEIVE
      (pe_destination_rank x) = None"
    and new: "pe_extent_id x \<notin> set seen"
    using assms by (simp_all add: extent_checks_def)
  show "pe_extent_id x \<notin> set seen" by (rule new)
  show "pe_send_action_id x \<notin> set used" "\<exists>a \<in> set as. pa_action_id a = pe_send_action_id x \<and> end_of x a"
    using send by (auto elim!: extent_end_accepted simp: end_of_def)
  show "pe_receive_action_id x \<notin> set (pe_send_action_id x # used)"
    "\<exists>a \<in> set as. pa_action_id a = pe_receive_action_id x \<and> end_of x a"
    using recv by (auto elim!: extent_end_accepted simp: end_of_def)
qed

lemma plan_extents_accepted:
  "plan_extents ranks rounds as seen used previous xs = None \<Longrightarrow>
   distinct (extent_action_ids xs) \<and> set (extent_action_ids xs) \<inter> set used = {} \<and>
   distinct (map pe_extent_id xs) \<and> set (map pe_extent_id xs) \<inter> set seen = {} \<and>
   (\<forall>k \<in> set (extent_action_ids xs). \<exists>x \<in> set xs. \<exists>a \<in> set as. pa_action_id a = k \<and> end_of x a)"
proof (induction xs arbitrary: seen used previous)
  case (Cons x xs)
  then have x: "extent_checks ranks rounds as seen used previous x = None"
    and rest: "plan_extents ranks rounds as (pe_extent_id x # seen)
      (pe_receive_action_id x # pe_send_action_id x # used) (pe_round_index x) xs = None"
    by simp_all
  note ih = Cons.IH [OF rest] and hd = extent_checks_accepted [OF x]
  show ?case using ih hd by (auto 4 3)
qed simp

lemma validated_plan:
  assumes "validate_collective_plan digest p w = None"
  shows "distinct (map pa_action_id (cp_actions p))" "distinct (extent_action_ids (cp_extents p))"
    "distinct (map pe_extent_id (cp_extents p))"
    "set (extent_action_ids (cp_extents p)) = pa_action_id ` set (cp_actions p)"
    "plan_dependencies (cp_actions p) = None"
    "k \<in> set (extent_action_ids (cp_extents p)) \<Longrightarrow>
       \<exists>x \<in> set (cp_extents p). \<exists>a \<in> set (cp_actions p). pa_action_id a = k \<and> end_of x a"
proof -
  have a: "plan_actions (cp_rank_order p) [] (cp_actions p) = None"
    and x: "plan_extents (cp_rank_order p) (length (cp_rounds p)) (cp_actions p) [] [] (- 1) (cp_extents p) = None"
    and "set (extent_action_ids (cp_extents p)) = pa_action_id ` set (cp_actions p)" "plan_dependencies (cp_actions p) = None"
    using assms by (simp_all add: validate_collective_plan_def Let_def)
  then show "set (extent_action_ids (cp_extents p)) = pa_action_id ` set (cp_actions p)" "plan_dependencies (cp_actions p) = None"
    by simp_all
  show "distinct (map pa_action_id (cp_actions p))" using plan_actions_distinct [OF a] by simp
  show "distinct (extent_action_ids (cp_extents p))" "distinct (map pe_extent_id (cp_extents p))"
    "k \<in> set (extent_action_ids (cp_extents p)) \<Longrightarrow>
       \<exists>x \<in> set (cp_extents p). \<exists>a \<in> set (cp_actions p). pa_action_id a = k \<and> end_of x a"
    using plan_extents_accepted [OF x] by simp_all
qed

lemma plan_dependency_earlier:
  assumes "plan_dependencies as = None" "distinct (map pa_action_id as)" "i < length as" "k \<in> set (pa_depends_on (as ! i))"
  shows "\<exists>j < i. pa_action_id (as ! j) = k \<and> pa_rank (as ! j) = pa_rank (as ! i)"
proof -
  have "dependency_checks as (take i as) (as ! i) = None"
  proof -
    have "(i, as ! i) \<in> set (enumerate 0 as)" using assms(3) by (simp add: in_set_enumerate_eq)
    then show ?thesis using assms(1) by (auto simp: plan_dependencies_def)
  qed
  then obtain b where b: "find_action as k = Some b" "k \<in> pa_action_id ` set (take i as)" "pa_rank b = pa_rank (as ! i)"
    using assms(4) by (force simp: dependency_checks_def split: option.splits)
  then obtain j where j: "j < i" "pa_action_id (as ! j) = k" using assms(3) by (auto simp: in_set_conv_nth)
  have "as ! j = b"
    using find_action_Some [OF b(1)] j assms(2,3) by (metis (no_types, lifting) distinct_map inj_on_def nth_mem order_less_trans)
  then show ?thesis using j b(3) by blast
qed

lemma length_extent_ids: "length (extent_action_ids xs) = 2 * length xs"
  by (induction xs) auto

text \<open>
  C30. A collective plan that validates is a matching: there are two actions per extent, every
  action is the sending or receiving end of exactly one extent and sits on that end's rank,
  and an action waits only for earlier actions of its own rank, so no rank can wait in a circle.
\<close>

theorem plan_actions_matched:
  assumes "validate_collective_plan digest p w = None"
  shows "length (cp_actions p) = 2 * length (cp_extents p) \<and>
    (\<forall>a \<in> set (cp_actions p). \<exists>!x. x \<in> set (cp_extents p) \<and> end_of x a) \<and>
    (\<forall>i < length (cp_actions p). \<forall>k \<in> set (pa_depends_on (cp_actions p ! i)).
       \<exists>j < i. pa_action_id (cp_actions p ! j) = k \<and> pa_rank (cp_actions p ! j) = pa_rank (cp_actions p ! i))"
proof -
  note v = validated_plan [OF assms]
  have "length (map pa_action_id (cp_actions p)) = length (extent_action_ids (cp_extents p))"
    using v(1,2,4) by (metis distinct_card list.set_map)
  moreover have "\<exists>!x. x \<in> set (cp_extents p) \<and> end_of x a" if a: "a \<in> set (cp_actions p)" for a
  proof -
    obtain x b where x: "x \<in> set (cp_extents p)" "b \<in> set (cp_actions p)" "pa_action_id b = pa_action_id a" "end_of x b"
      using v(6) [of "pa_action_id a"] v(4) a by blast
    have "b = a" using x(2,3) a v(1) by (auto simp: distinct_map inj_on_def)
    moreover have "y = x" if "y \<in> set (cp_extents p)" "end_of y a" for y
      using that x calculation v(3) by (auto simp: end_of_def distinct_map inj_on_def)
    ultimately show ?thesis using x by blast
  qed
  ultimately show ?thesis using plan_dependency_earlier [OF v(5,1)] by (simp add: length_extent_ids)
qed

text \<open>A worked plan: rank 0 sends four bytes to rank 1.\<close>

definition demo_digest :: "json \<Rightarrow> string" where
  "demo_digest = (\<lambda>_. replicate 64 CHR ''a'')"

definition demo_plan :: collective_plan where
  "demo_plan =
     \<lparr>cp_operation_id = ''c'', cp_collective = ''all-to-allv'', cp_algorithm = ''pairwise'', cp_channel_id = ''default'',
      cp_rank_order = [0, 1], cp_payload_bytes = 0, cp_pair_payload_bytes = [(0, 1, 4)],
      cp_request_pair_payload_bytes = [(''r'', 0, 1, 3), (''s'', 0, 1, 1)],
      cp_rounds = [\<lparr>pr_round_index = 0, pr_tag = 7, pr_channel_id = ''default''\<rparr>],
      cp_actions = [\<lparr>pa_action_id = ''x:send'', pa_rank = 0, pa_kind = SEND, pa_extent_id = ''x'', pa_depends_on = []\<rparr>,
                    \<lparr>pa_action_id = ''x:recv'', pa_rank = 1, pa_kind = RECEIVE, pa_extent_id = ''x'', pa_depends_on = []\<rparr>],
      cp_extents = [\<lparr>pe_extent_id = ''x'', pe_round_index = 0, pe_source_rank = 0, pe_destination_rank = 1,
                     pe_payload_bytes = 4, pe_send_action_id = ''x:send'', pe_receive_action_id = ''x:recv'',
                     pe_request_payload_bytes = [(''r'', 3), (''s'', 1)]\<rparr>],
      cp_entry_action_ids = [(0, [''x:send'']), (1, [''x:recv''])],
      cp_terminal_action_ids = [(0, [''x:send'']), (1, [''x:recv''])],
      cp_integrity_sha256 = replicate 64 CHR ''a''\<rparr>"

definition demo_work :: collective_work where
  "demo_work =
     \<lparr>lw_collective = ''all-to-allv'', lw_ranks = [0, 1], lw_payload_bytes = 0, lw_algorithm_hint = Some ''pairwise'',
      lw_channel_hint = None, lw_pair_payload_bytes = [(0, 1, 4)],
      lw_request_pair_payload_bytes = [(''r'', 0, 1, 3), (''s'', 0, 1, 1)]\<rparr>"

definition demo_op :: "string \<Rightarrow> string list \<Rightarrow> work_payload \<Rightarrow> execution_operation" where
  "demo_op k deps w =
     \<lparr>op_operation_id = k, op_rank = 0, op_logical_queue = ''q'', op_work = w, op_depends_on = deps, op_not_before_ps = 0,
      op_priority = 0, op_correlation = empty_correlation\<lparr>oc_request_ids := [''r'', ''s'']\<rparr>, op_placement_epoch = 0,
      op_participant_local_depends_on = []\<rparr>"

definition demo_graph :: execution_graph where
  "demo_graph =
     \<lparr>eg_execution_id = ''e'', eg_step_index = 0, eg_released_at_ps = 0,
      eg_operations = [demo_op ''a'' [] (DmaWork \<lparr>dw_descriptor_id = ''d'', dw_source = ''gpu:0'',
                         dw_destination = ''GPU:1'', dw_byte_count = 4\<rparr>),
                       demo_op ''c'' [''a''] (CollectiveWork demo_work)],
      eg_completion_operation_ids = [''c''], eg_collective_plans = [demo_plan]\<rparr>"

lemma demo_valid:
  "validate_collective_plan demo_digest demo_plan demo_work = None"
  "validate_execution_graph demo_digest demo_graph = None"
  by code_simp+

theorem plan_actions_matched_witness:
  "length (cp_actions demo_plan) = 2 * length (cp_extents demo_plan) \<and> length (cp_extents demo_plan) = 1"
  using plan_actions_matched [OF demo_valid(1)] by (simp add: demo_plan_def)

theorem queue_order_respected_witness:
  "(''a'', ''c'') \<in> (ordering demo_graph)\<^sup>+ \<and> (''c'', ''a'') \<notin> (ordering demo_graph)\<^sup>+"
  using queue_order_respected [OF demo_valid(2), of 0 1] by (simp add: demo_graph_def demo_op_def)

subsection \<open>Request partitions\<close>

definition attributed :: "(string \<times> int \<times> int \<times> int) list \<Rightarrow> int \<times> int \<Rightarrow> int" where
  "attributed parts sd = sum_list (map (\<lambda>(r, s, d, n). if (s, d) = sd then n else 0) parts)"

lemma attributed_pairs_fold:
  "map_of (fold (\<lambda>(r, s, d, n) acc. AList.update (s, d) (dict_get acc (s, d) 0 + n) acc) parts acc) sd =
     (if sd \<in> fst ` set acc \<union> (\<lambda>(r, s, d, n). (s, d)) ` set parts
      then Some (dict_get acc sd 0 + attributed parts sd) else None)"
proof (induction parts arbitrary: acc)
  case Nil
  then show ?case by (auto simp: attributed_def map_of_eq_None_iff split: option.splits)
next
  case (Cons part parts)
  obtain r s d n where p: "part = (r, s, d, n)" by (cases part)
  let ?acc = "AList.update (s, d) (dict_get acc (s, d) 0 + n) acc"
  have keys: "fst ` set ?acc = insert (s, d) (fst ` set acc)"
    using AList.dom_update [of "(s, d)" _ acc] by (simp add: image_iff)
  show ?case using Cons.IH [of ?acc] by (auto simp: p keys attributed_def split: option.splits)
qed

lemma attributed_pairs_get:
  "dict_get (attributed_pairs parts) sd 0 = attributed parts sd"
proof -
  have "attributed parts sd = 0" if "sd \<notin> (\<lambda>(r, s, d, n). (s, d)) ` set parts"
    using that by (induction parts) (auto simp: attributed_def)
  then show ?thesis using attributed_pairs_fold [of parts "[]" sd] by (simp add: attributed_pairs_def)
qed

lemma attributed_pairs_ok: "dict_ok (attributed_pairs parts)"
proof -
  have "dict_ok acc \<Longrightarrow> dict_ok (fold (\<lambda>(r, s, d, n) acc. AList.update (s, d) (dict_get acc (s, d) 0 + n) acc) parts acc)" for acc
    by (induction parts arbitrary: acc) auto
  then show ?thesis by (simp add: attributed_pairs_def)
qed

lemma expected_pairs_distinct:
  assumes "distinct (map (\<lambda>(s, d, n). (s, d)) pairs)"
  shows "expected_pairs pairs = map (\<lambda>(s, d, n). ((s, d), n)) pairs"
  using fold_update_fresh [of "[]" "\<lambda>(s, d, n). (s, d)" pairs "\<lambda>(s, d, n). n"] assms
  by (simp add: expected_pairs_def case_prod_unfold)

lemma partition_sums:
  assumes "validate_collective w = None" and "lw_request_pair_payload_bytes w \<noteq> []"
  shows "attributed (lw_request_pair_payload_bytes w) (s, d)
    = dict_get (map (\<lambda>(s, d, n). ((s, d), n)) (lw_pair_payload_bytes w)) (s, d) 0"
proof -
  let ?parts = "lw_request_pair_payload_bytes w" let ?pairs = "lw_pair_payload_bytes w"
  have eq: "set (attributed_pairs ?parts) = set (expected_pairs ?pairs)"
    and dist: "distinct (map (\<lambda>(s, d, n). (s, d)) ?pairs)"
    using assms by (simp_all add: validate_collective_def Let_def)
  note ex = expected_pairs_distinct [OF dist]
  have "dict_ok (expected_pairs ?pairs)" using dist by (simp add: ex o_def case_prod_unfold)
  then have "map_of (attributed_pairs ?parts) = map_of (expected_pairs ?pairs)"
    using eq attributed_pairs_ok map_of_inject_set by blast
  then show ?thesis using attributed_pairs_get [of ?parts "(s, d)"] by (simp add: ex)
qed

text \<open>
  A request partition adds up: when collective work that carries one validates, the
  bytes attributed to an ordered rank pair are the pair's size in the pair table, and a pair
  outside the table is attributed none.
\<close>

theorem request_partition_adds_up:
  assumes "validate_collective w = None" and "lw_request_pair_payload_bytes w \<noteq> []"
  shows "attributed (lw_request_pair_payload_bytes w) (s, d)
    = dict_get (map (\<lambda>(s, d, n). ((s, d), n)) (lw_pair_payload_bytes w)) (s, d) 0"
  using assms by (rule partition_sums)

theorem request_partition_adds_up_witness:
  "attributed [(''r'', 0, 1, 3), (''s'', 0, 1, 1)] (0, 1) = 4"
proof -
  have "validate_collective demo_work = None" "lw_request_pair_payload_bytes demo_work \<noteq> []" by code_simp+
  from request_partition_adds_up [OF this, of 0 1] show ?thesis by (simp add: demo_work_def)
qed

end
