(* ===== verification/Registration.thy ===== *)
theory Registration
  imports Bookkeeping_Properties Graph_Properties
begin

text \<open>
  \<open>RequestBookkeeper.register_graph\<close> of \<open>simllm/core/bookkeeping.py\<close>: a graph is validated,
  then its execution stage and one object per operation are appended in one batch.  The two
  validators agree: a graph that the graph validator accepts is refused by the ledger only
  when one of its operations is registered already.
\<close>

datatype register_error = GraphRejected graph_error | LedgerRejected bk_error

definition register_graph :: "(json \<Rightarrow> string) \<Rightarrow> request_bookkeeper \<Rightarrow> execution_graph \<Rightarrow>
    request_bookkeeper \<times> (register_error + bookkeeping_entry list)" where
  "register_graph digest b g =
     (case validate_execution_graph digest g of
        Some e \<Rightarrow> (b, Inl (GraphRejected e))
      | None \<Rightarrow>
          (case Bookkeeping.extend b (graph_facts g) of
             (b', Inl e) \<Rightarrow> (b', Inl (LedgerRejected e))
           | (b', Inr es) \<Rightarrow> (b', Inr es)))"

lemma number_facts_simps [simp]:
  "number_facts i [] = []"
  "number_facts i (f # fs) = \<lparr>en_sequence = i, en_fact = f\<rparr> # number_facts (i + 1) fs"
proof -
  have "map (\<lambda>(j, f). \<lparr>en_sequence = i + int j, en_fact = f\<rparr>) (enumerate (Suc n) fs)
      = map (\<lambda>(j, f). \<lparr>en_sequence = i + 1 + int j, en_fact = f\<rparr>) (enumerate n fs)" for n
    by (induction fs arbitrary: n) auto
  then show "number_facts i (f # fs) = \<lparr>en_sequence = i, en_fact = f\<rparr> # number_facts (i + 1) fs"
    by (simp add: number_facts_def)
qed (simp add: number_facts_def)

subsection \<open>Facts of a valid graph\<close>

text \<open>An object with no parents and no metadata.\<close>

definition plain_object :: "created_object_record \<Rightarrow> bool" where
  "plain_object c \<longleftrightarrow> validate_ref (co_ref c) = None \<and> validate_scope (co_scope c) = None \<and>
     bk_opt bk_text (co_native_id c) = None \<and> co_parent_refs c = [] \<and> co_metadata c = [] \<and>
     cr_kind (co_ref c) \<noteq> NETWORK_WQE \<and> 0 \<le> co_created_at_ps c"

lemma validate_plain_object:
  "plain_object c \<Longrightarrow>
   validate_created look c = (if look (cr_object_id (co_ref c)) = None then None else Some BkDuplicateObject)"
  by (simp add: plain_object_def validate_created_def validate_ref_tuple_def validate_scope_lineage_def
      validate_metadata_def guard_def Let_def)

lemma validate_plain_entry:
  "plain_object c \<Longrightarrow> 0 \<le> i \<Longrightarrow>
   validate_entry s i \<lparr>en_sequence = i, en_fact = CreatedFact c\<rparr> =
     (if object_for s (cr_object_id (co_ref c)) = None then (add_object s (cr_object_id (co_ref c)) c, Inr ())
      else (s, Inl BkDuplicateObject))"
  by (simp add: validate_entry_def entry_checks_def bk_nonnegative_def plain_object_def guard_def
      validate_plain_object [unfolded plain_object_def])

lemma validate_plain_objects:
  assumes "list_all plain_object cs" "distinct (map (cr_object_id \<circ> co_ref) cs)" "0 \<le> i"
  shows "snd (validate_entries s i (number_facts i (map CreatedFact cs))) =
    (if \<exists>c \<in> set cs. object_for s (cr_object_id (co_ref c)) \<noteq> None then Inl BkDuplicateObject else Inr ())"
  using assms
proof (induction cs arbitrary: s i)
  case (Cons c cs)
  let ?k = "cr_object_id (co_ref c)"
  show ?case
  proof (cases "object_for s ?k")
    case None
    have "?k \<notin> (cr_object_id \<circ> co_ref) ` set cs" using Cons.prems(2) by simp
    then have "d \<in> set cs \<Longrightarrow> cr_object_id (co_ref d) \<noteq> ?k" for d by (metis comp_apply image_eqI)
    then have "(\<exists>d \<in> set cs. object_for (add_object s ?k c) (cr_object_id (co_ref d)) \<noteq> None)
        \<longleftrightarrow> (\<exists>d \<in> set cs. object_for s (cr_object_id (co_ref d)) \<noteq> None)"
      by (simp only: add_object_view) auto
    then show ?thesis using Cons.IH [of "i + 1" "add_object s ?k c"] Cons.prems None
      by (simp add: validate_plain_entry del: object_for.simps)
  next
    case (Some r)
    then show ?thesis using Cons.prems by (simp add: validate_plain_entry)
  qed
qed simp

lemma wire_correlation_ledger: "wire_correlation c = None \<Longrightarrow> validate_correlation c = None"
  by (auto simp: wire_correlation_def validate_correlation_def first_err_None_iff bk_text_def bk_nonnegative_def bk_opt_def
      split: option.splits)

text \<open>The objects of a graph's operations, and the facts of a graph that validates.\<close>

definition operation_object :: "execution_graph \<Rightarrow> execution_operation \<Rightarrow> created_object_record" where
  "operation_object g op =
     \<lparr>co_ref = \<lparr>cr_kind = EXECUTION_OPERATION,
                 cr_object_id = operation_object_id (eg_execution_id g) (op_operation_id op)\<rparr>,
      co_owner = CORE, co_created_at_ps = eg_released_at_ps g,
      co_scope = \<lparr>bs_correlation = op_correlation op, bs_step_index = Some (eg_step_index g),
                   bs_execution_id = Some (eg_execution_id g), bs_operation_id = Some (op_operation_id op)\<rparr>,
      co_native_id = Some (op_operation_id op), co_parent_refs = [], co_metadata = []\<rparr>"

lemma graph_facts_split:
  "\<exists>g0. graph_facts g = StageFact g0 # map CreatedFact (map (operation_object g) (eg_operations g)) \<and>
     sg_object_refs g0 = [] \<and> sg_timestamp_ps g0 = eg_released_at_ps g \<and> bs_step_index (sg_scope g0) = Some (eg_step_index g) \<and>
     bs_execution_id (sg_scope g0) = Some (eg_execution_id g) \<and> bs_operation_id (sg_scope g0) = None \<and>
     (\<exists>ids. bs_correlation (sg_scope g0) = empty_correlation\<lparr>oc_request_ids := ids\<rparr> \<and> distinct ids \<and>
        set ids = (\<Union>op \<in> set (eg_operations g). set (oc_request_ids (op_correlation op))))"
  by (simp add: graph_facts_def operation_object_def Let_def, rule exI, rule conjI, rule refl) simp

lemma escape_nonblank: "nonblank (operation_object_id e op)"
  by (simp add: operation_object_id_def nonblank_def py_isspace_def)

lemma checked_operations:
  "check_operations seen ops = None \<Longrightarrow> op \<in> set ops \<Longrightarrow>
   nonblank (op_operation_id op) \<and> wire_correlation (op_correlation op) = None"
  by (induction ops arbitrary: seen) (auto simp: operation_checks_def)

lemma operation_object_plain:
  assumes "graph_structure digest g = None" "op \<in> set (eg_operations g)"
  shows "plain_object (operation_object g op)"
proof -
  have g: "check_operations [] (eg_operations g) = None" "nonblank (eg_execution_id g)" "0 \<le> eg_step_index g" "0 \<le> eg_released_at_ps g"
    using assms(1) by (auto simp: graph_structure_def Let_def)
  then show ?thesis using checked_operations [OF g(1) assms(2)] wire_correlation_ledger
    by (simp add: plain_object_def operation_object_def validate_ref_def escape_nonblank validate_scope_def bk_opt_def
        bk_text_def bk_nonnegative_def)
qed

lemma operation_objects_distinct:
  assumes "graph_structure digest g = None"
  shows "distinct (map (cr_object_id \<circ> co_ref) (map (operation_object g) (eg_operations g)))"
  using graph_structure_operations(1) [OF assms]
  by (auto simp: operation_object_def distinct_map inj_on_def operation_object_id_def append_sep_inj escape_no_colon escape_inj)

lemma graph_stage_accepted:
  assumes "graph_structure digest g = None" "graph_facts g = StageFact g0 # rest" "0 \<le> i"
  shows "validate_entry s i \<lparr>en_sequence = i, en_fact = StageFact g0\<rparr> = (s, Inr ())"
proof -
  have g: "check_operations [] (eg_operations g) = None" "nonblank (eg_execution_id g)" "0 \<le> eg_step_index g" "0 \<le> eg_released_at_ps g"
    using assms(1) by (auto simp: graph_structure_def Let_def)
  obtain ids where ids: "bs_correlation (sg_scope g0) = empty_correlation\<lparr>oc_request_ids := ids\<rparr>" "distinct ids"
      "set ids = (\<Union>op \<in> set (eg_operations g). set (oc_request_ids (op_correlation op)))"
    and g0: "sg_object_refs g0 = []" "sg_timestamp_ps g0 = eg_released_at_ps g" "bs_step_index (sg_scope g0) = Some (eg_step_index g)"
      "bs_execution_id (sg_scope g0) = Some (eg_execution_id g)" "bs_operation_id (sg_scope g0) = None"
    using graph_facts_split [of g] assms(2) by auto
  have "nonblank k" if "k \<in> set ids" for k
    using that ids(3) checked_operations [OF g(1)] by (auto simp: wire_correlation_def)
  then have "validate_correlation (bs_correlation (sg_scope g0)) = None"
    using ids(1,2) by (simp add: validate_correlation_def first_err_None_iff bk_text_def empty_correlation_def bk_opt_def)
  then show ?thesis using g g0 assms(3)
    by (simp add: validate_entry_def entry_checks_def validate_stage_def validate_scope_def validate_ref_tuple_def
        validate_scope_lineage_def bk_nonnegative_def bk_text_def bk_opt_def guard_def)
qed

lemma number_facts_facts: "map en_fact (number_facts i fs) = fs"
  by (induction fs arbitrary: i) auto

lemma created_number_facts: "created_facts (number_facts i (map (CreatedFact \<circ> f) xs)) = map f xs"
  by (induction xs arbitrary: i) auto

lemma extend_outcome:
  assumes "bk_inv b"
  shows "Bookkeeping.extend b facts = (b', Inl e) \<Longrightarrow>
      b' = b \<and> snd (validate_entries root_state 0 (bk_entries b @ additions_of b facts)) = Inl e"
    and "Bookkeeping.extend b facts = (b', Inr es) \<Longrightarrow>
      es = additions_of b facts \<and> bk_entries b' = bk_entries b @ es \<and>
      snd (validate_entries root_state 0 (bk_entries b @ additions_of b facts)) = Inr ()"
  using extend_spec [OF assms, of facts] by (auto simp: validate_ledger_iff bk_inv_def)

text \<open>
  C27. Registering a graph fails only for a good reason: with a bookkeeper that has been used
  in any way, a graph the graph validator accepts is registered, unless the ledger already
  holds the object of one of its operations, which is then reported.  A registered graph
  appends its stage and one object per operation, in order; a refused one changes nothing.
\<close>

theorem register_graph_outcome:
  assumes "new_bookkeeper l = Inr b0" and "reaches Bookkeeping.extend b0 b" and "validate_execution_graph digest g = None"
  shows "if \<exists>c \<in> set (created_facts (snapshot_ledger b)). \<exists>op \<in> set (eg_operations g).
         cr_object_id (co_ref c) = operation_object_id (eg_execution_id g) (op_operation_id op)
    then register_graph digest b g = (b, Inl (LedgerRejected BkDuplicateObject))
    else \<exists>b' es. register_graph digest b g = (b', Inr es) \<and> snapshot_ledger b' = snapshot_ledger b @ es \<and>
      map en_fact es = graph_facts g \<and> created_facts es = map (operation_object g) (eg_operations g)"
proof -
  let ?n = "int (length (bk_entries b))" let ?adds = "number_facts ?n (graph_facts g)"
  let ?cs = "map (operation_object g) (eg_operations g)"
  have inv: "bk_inv b" using assms(1,2) by (rule reached_bk_inv)
  have ok: "graph_structure digest g = None" using assms(3) by (simp add: validate_execution_graph_def)
  obtain s where s: "validate_entries root_state 0 (bk_entries b) = (s, Inr ())"
    using inv by (auto simp: bk_inv_def)
  obtain g0 where g0: "graph_facts g = StageFact g0 # map CreatedFact ?cs" using graph_facts_split [of g] by blast
  have plain: "list_all plain_object ?cs" using operation_object_plain [OF ok] by (auto simp: list_all_iff)
  have known: "object_for s k \<noteq> None \<longleftrightarrow> (\<exists>c \<in> set (created_facts (bk_entries b)). cr_object_id (co_ref c) = k)" for k
    using ledger_view_object [OF validated_ledger_view [OF s], of k] by (metis not_None_eq)
  have "snd (validate_entries root_state 0 (bk_entries b @ ?adds)) = snd (validate_entries s ?n ?adds)"
    using s by (simp add: validate_entries_append)
  also have "\<dots> = snd (validate_entries s (?n + 1) (number_facts (?n + 1) (map CreatedFact ?cs)))"
    using graph_stage_accepted [OF ok g0, of ?n s] by (simp add: g0)
  also have "\<dots> = (if \<exists>c \<in> set ?cs. object_for s (cr_object_id (co_ref c)) \<noteq> None then Inl BkDuplicateObject else Inr ())"
    by (rule validate_plain_objects [OF plain operation_objects_distinct [OF ok]]) simp
  finally have full: "snd (validate_entries root_state 0 (bk_entries b @ ?adds)) =
      (if \<exists>c \<in> set ?cs. object_for s (cr_object_id (co_ref c)) \<noteq> None then Inl BkDuplicateObject else Inr ())" .
  have clash: "(\<exists>c \<in> set ?cs. object_for s (cr_object_id (co_ref c)) \<noteq> None) \<longleftrightarrow>
      (\<exists>c \<in> set (created_facts (snapshot_ledger b)). \<exists>op \<in> set (eg_operations g).
         cr_object_id (co_ref c) = operation_object_id (eg_execution_id g) (op_operation_id op))"
    unfolding known by (auto simp: snapshot_ledger_def operation_object_def)
  obtain b' r where e: "Bookkeeping.extend b (graph_facts g) = (b', r)" by fastforce
  show ?thesis
  proof (cases r)
    case (Inl x)
    with extend_outcome(1) [OF inv, of "graph_facts g" b' x] e full show ?thesis
      unfolding clash [symmetric] by (auto simp: register_graph_def assms(3) split: if_splits)
  next
    case (Inr es)
    with extend_outcome(2) [OF inv, of "graph_facts g" b' es] e full show ?thesis
      unfolding clash [symmetric]
      by (auto simp: register_graph_def assms(3) snapshot_ledger_def number_facts_facts g0 created_number_facts split: if_splits)
  qed
qed

theorem register_graph_outcome_witness:
  "\<exists>b' es. register_graph demo_digest demo_bookkeeper demo_graph = (b', Inr es) \<and> snapshot_ledger b' = es \<and>
     map en_fact es = graph_facts demo_graph \<and> length es = 3"
proof -
  have "length (graph_facts demo_graph) = 3" by code_simp
  moreover have "snapshot_ledger demo_bookkeeper = []" by code_simp
  ultimately show ?thesis
    using register_graph_outcome [OF demo_bookkeeper_extends(1) reaches_refl demo_valid(2)]
    by (simp, metis length_map)
qed

end
