(* ===== verification/Admission.thy ===== *)
theory Admission
  imports Clock Bookkeeping_Properties "HOL-Library.Product_Lexorder"
begin

text \<open>
  The request admission gate of \<open>simllm/workload/admission.py\<close>.  The gate shares the clock
  and the bookkeeper with the engine loop that owns it, so both are part of its state and the
  owner may move time forward and append facts between calls.  The framework-entry callback is
  a parameter of \<open>admit_ready\<close>: a function that says whether the call for an arrival returns
  or raises.
\<close>

datatype admission_mode = ALL_AT_ONCE | ARRIVAL_GATED

record 'p admission_gate =
  ag_clock :: "'p virtual_clock"
  ag_bookkeeper :: request_bookkeeper
  ag_mode :: admission_mode
  ag_pending :: "framework_request_arrival list"
  ag_admitted :: "framework_request_arrival list"

datatype admission_error =
    NoFutureGate | NoPendingRequests | ReadyFirst | ClockRefused clock_error | LedgerRefused bk_error
  | CallbackRaised framework_request_arrival | PendingOrderChanged

subsection \<open>Operations\<close>

definition new_gate :: "'p virtual_clock \<Rightarrow> request_bookkeeper \<Rightarrow> admission_mode \<Rightarrow> bk_error + 'p admission_gate" where
  "new_gate clock bookkeeper mode =
     rbind (framework_request_arrivals (snapshot_ledger bookkeeper)) (\<lambda>arrivals.
       Inr \<lparr>ag_clock = clock, ag_bookkeeper = bookkeeper, ag_mode = mode,
            ag_pending = (if mode = ARRIVAL_GATED then sort_key (\<lambda>a. (fa_arrived_at_ps a, fa_sequence a)) arrivals
                          else arrivals),
            ag_admitted = []\<rparr>)"

definition has_pending :: "'p admission_gate \<Rightarrow> bool" where
  "has_pending g = (ag_pending g \<noteq> [])"

definition pending_request_ids :: "'p admission_gate \<Rightarrow> string list" where
  "pending_request_ids g = map fa_request_id (ag_pending g)"

definition admitted_request_ids :: "'p admission_gate \<Rightarrow> string list" where
  "admitted_request_ids g = map fa_request_id (ag_admitted g)"

definition next_arrival_ps :: "'p admission_gate \<Rightarrow> int option" where
  "next_arrival_ps g =
     (case ag_pending g of
        [] \<Rightarrow> None
      | a # _ \<Rightarrow> Some (if ag_mode g = ALL_AT_ONCE then now_ps (ag_clock g) else fa_arrived_at_ps a))"

definition gate_ready :: "'p admission_gate \<Rightarrow> framework_request_arrival list" where
  "gate_ready g =
     (if ag_mode g = ALL_AT_ONCE then ag_pending g
      else takeWhile (\<lambda>a. fa_arrived_at_ps a \<le> now_ps (ag_clock g)) (ag_pending g))"

definition advance_to_next_arrival :: "'p admission_gate \<Rightarrow> 'p admission_gate \<times> (admission_error + int)" where
  "advance_to_next_arrival g =
     (if ag_mode g = ALL_AT_ONCE then (g, Inl NoFutureGate)
      else case ag_pending g of
        [] \<Rightarrow> (g, Inl NoPendingRequests)
      | a # _ \<Rightarrow>
          if gate_ready g \<noteq> [] then (g, Inl ReadyFirst)
          else case advance_to (ag_clock g) (fa_arrived_at_ps a) of
            (c, Inl e) \<Rightarrow> (g\<lparr>ag_clock := c\<rparr>, Inl (ClockRefused e))
          | (c, Inr _) \<Rightarrow> (g\<lparr>ag_clock := c\<rparr>, Inr (now_ps c)))"

definition request_correlation :: "framework_request_arrival \<Rightarrow> operation_correlation" where
  "request_correlation a = empty_correlation\<lparr>oc_request_ids := [fa_request_id a]\<rparr>"

definition scheduler_entry :: "int \<Rightarrow> framework_request_arrival \<Rightarrow> stage_record" where
  "scheduler_entry at_ps a =
     \<lparr>sg_stage = SCHEDULER_STAGE, sg_phase = ENTERED, sg_timestamp_ps = at_ps,
      sg_scope = \<lparr>bs_correlation = request_correlation a, bs_step_index = None, bs_execution_id = None,
                  bs_operation_id = None\<rparr>,
      sg_object_refs = [fa_request_ref a]\<rparr>"

text \<open>The handoff of one arrival: the callback, the ledger entry of the gated mode, the move to \<open>admitted\<close>.\<close>

definition pop_pending :: "'p admission_gate \<Rightarrow> framework_request_arrival \<Rightarrow> 'p admission_gate \<times> (admission_error + unit)" where
  "pop_pending g a =
     (case ag_pending g of
        [] \<Rightarrow> (g, Inl PendingOrderChanged)
      | p # ps \<Rightarrow>
          if p \<noteq> a then (g\<lparr>ag_pending := ps\<rparr>, Inl PendingOrderChanged)
          else (g\<lparr>ag_pending := ps, ag_admitted := ag_admitted g @ [a]\<rparr>, Inr ()))"

definition hand_off :: "(framework_request_arrival \<Rightarrow> bool) \<Rightarrow> 'p admission_gate \<Rightarrow> framework_request_arrival
    \<Rightarrow> 'p admission_gate \<times> (admission_error + framework_request_arrival)" where
  "hand_off add_request g a =
     (if \<not> add_request a then (g, Inl (CallbackRaised a))
      else
        case (if ag_mode g = ARRIVAL_GATED
              then (case append_fact (ag_bookkeeper g) (StageFact (scheduler_entry (now_ps (ag_clock g)) a)) of
                     (b, r) \<Rightarrow> (g\<lparr>ag_bookkeeper := b\<rparr>, map_sum LedgerRefused (\<lambda>_. ()) r))
              else (g, Inr ())) of
          (g1, Inl e) \<Rightarrow> (g1, Inl e)
        | (g1, Inr _) \<Rightarrow>
            (case pop_pending g1 a of (g2, Inl e) \<Rightarrow> (g2, Inl e) | (g2, Inr _) \<Rightarrow> (g2, Inr a)))"

definition admit_ready :: "(framework_request_arrival \<Rightarrow> bool) \<Rightarrow> 'p admission_gate
    \<Rightarrow> 'p admission_gate \<times> (admission_error + framework_request_arrival list)" where
  "admit_ready add_request g = run_all (hand_off add_request) g (gate_ready g)"

end
