(* ===== verification/Admission_Properties.thy ===== *)
theory Admission_Properties
  imports Admission
begin

text \<open>
  What the gate guarantees to its owner: arrivals leave in one fixed order, never early and
  never twice, each with its scheduler entry in the ledger; and the gate never blocks: it is
  either empty, or has a ready prefix, or can move the clock to the next arrival.
\<close>

subsection \<open>Arrivals of a valid ledger\<close>

definition arrival_of :: "bookkeeping_entry list \<Rightarrow> framework_request_arrival \<Rightarrow> bool" where
  "arrival_of es a \<longleftrightarrow>
     (\<exists>c \<in> set (created_facts es). co_ref c = fa_request_ref a \<and> cr_kind (co_ref c) = FRAMEWORK_REQUEST \<and>
        co_created_at_ps c = fa_arrived_at_ps a \<and> oc_request_ids (bs_correlation (co_scope c)) = [fa_request_id a])"

lemma arrival_of_append: "arrival_of es a \<Longrightarrow> arrival_of (es @ fs) a"
  by (auto simp: arrival_of_def)

lemma arrivals_from_sound:
  "arrivals_from seen es = Inr as \<Longrightarrow>
   (\<forall>a \<in> set as. arrival_of es a) \<and> distinct (map fa_request_id as) \<and> set (map fa_request_id as) \<inter> set seen = {}"
proof (induction seen es arbitrary: as rule: arrivals_from.induct)
  case (2 seen x xs)
  have mono: "arrival_of xs a \<Longrightarrow> arrival_of (x # xs) a" for a by (auto simp: arrival_of_def)
  show ?case
  proof (cases "\<exists>c. en_fact x = CreatedFact c \<and> cr_kind (co_ref c) = FRAMEWORK_REQUEST")
    case False
    then have "arrivals_from seen xs = Inr as" "\<And>as. arrivals_from seen xs = Inr as \<Longrightarrow>
        (\<forall>a \<in> set as. arrival_of xs a) \<and> distinct (map fa_request_id as) \<and> set (map fa_request_id as) \<inter> set seen = {}"
      using 2 by (auto split: bookkeeping_fact.splits)
    then show ?thesis using mono by blast
  next
    case True
    then obtain c where c: "en_fact x = CreatedFact c" "cr_kind (co_ref c) = FRAMEWORK_REQUEST" by blast
    then obtain r bs where r: "oc_request_ids (bs_correlation (co_scope c)) = [r]" "r \<notin> set seen" "co_owner c = FRAMEWORK"
      and bs: "arrivals_from (r # seen) xs = Inr bs"
      and as: "as = \<lparr>fa_sequence = en_sequence x, fa_request_id = r, fa_arrived_at_ps = co_created_at_ps c,
        fa_request_ref = co_ref c\<rparr> # bs"
      using "2.prems" by (auto simp: rbind_Inr_iff split: if_splits list.splits)
    have "(\<forall>a \<in> set bs. arrival_of xs a) \<and> distinct (map fa_request_id bs) \<and> set (map fa_request_id bs) \<inter> set (r # seen) = {}"
      using "2.IH"(2) [OF c(1) _ _ r(1)] c(2) r(2,3) bs by simp
    then show ?thesis using mono c r by (auto simp: as arrival_of_def)
  qed
qed simp

subsection \<open>The gate as a machine\<close>

text \<open>
  The owner may admit with any callback, move to the next arrival, move time forward and
  append any facts it likes.
\<close>

datatype gate_op =
    Admit "framework_request_arrival \<Rightarrow> bool" | AdvanceNext | Tick int | Record "bookkeeping_fact list"

fun gate_step :: "'p admission_gate \<Rightarrow> gate_op \<Rightarrow> 'p admission_gate \<times> (admission_error + framework_request_arrival list)" where
  "gate_step g (Admit add_request) = admit_ready add_request g"
| "gate_step g AdvanceNext = (case advance_to_next_arrival g of (g', r) \<Rightarrow> (g', map_sum id (\<lambda>_. []) r))"
| "gate_step g (Tick t) =
     (case advance_to (ag_clock g) t of (c, r) \<Rightarrow> (g\<lparr>ag_clock := c\<rparr>, map_sum ClockRefused (\<lambda>_. []) r))"
| "gate_step g (Record facts) =
     (case Bookkeeping.extend (ag_bookkeeper g) facts of
        (b, r) \<Rightarrow> (g\<lparr>ag_bookkeeper := b\<rparr>, map_sum LedgerRefused (\<lambda>_. []) r))"

definition entered :: "bookkeeping_entry list \<Rightarrow> framework_request_arrival \<Rightarrow> int \<Rightarrow> bool" where
  "entered es a at_ps \<longleftrightarrow> (\<exists>x \<in> set es. en_fact x = StageFact (scheduler_entry at_ps a))"

definition gate_inv :: "framework_request_arrival list \<Rightarrow> admission_mode \<Rightarrow> 'p admission_gate \<Rightarrow> bool" where
  "gate_inv arrivals mode g \<longleftrightarrow>
     ag_mode g = mode \<and> ag_admitted g @ ag_pending g = arrivals \<and> bk_inv (ag_bookkeeper g) \<and>
     (\<forall>a \<in> set arrivals. arrival_of (bk_entries (ag_bookkeeper g)) a) \<and>
     (mode = ARRIVAL_GATED \<longrightarrow> (\<forall>a \<in> set (ag_admitted g). \<exists>t. fa_arrived_at_ps a \<le> t \<and> t \<le> now_ps (ag_clock g) \<and>
        entered (bk_entries (ag_bookkeeper g)) a t))"

lemma extend_keeps:
  assumes "bk_inv b" "Bookkeeping.extend b facts = (b', r)"
  shows "bk_inv b' \<and> (\<exists>adds. bk_entries b' = bk_entries b @ adds \<and> (isl r \<longrightarrow> b' = b) \<and> (\<not> isl r \<longrightarrow> map en_fact adds = facts))"
proof -
  have "map en_fact (number_facts i facts) = facts" for i
    by (simp add: number_facts_def case_prod_unfold o_def)
  then show ?thesis using extend_spec [OF assms(1), of facts] assms by (cases r) auto
qed

lemma append_fact_keeps:
  assumes "bk_inv b" "append_fact b f = (b', r)"
  shows "bk_inv b'" and "\<exists>adds. bk_entries b' = bk_entries b @ adds \<and> (isl r \<longrightarrow> b' = b) \<and> (\<not> isl r \<longrightarrow> map en_fact adds = [f])"
  using extend_keeps [OF assms(1), of "[f]"] assms(2) by (auto simp: append_fact_def split: prod.splits sum.splits)

lemma entered_append: "entered es a t \<Longrightarrow> entered (es @ fs) a t"
  by (auto simp: entered_def)

text \<open>Handing off the first pending arrival, once it is due.\<close>

abbreviation due :: "'p admission_gate \<Rightarrow> framework_request_arrival \<Rightarrow> bool" where
  "due g a \<equiv> ag_mode g = ARRIVAL_GATED \<longrightarrow> fa_arrived_at_ps a \<le> now_ps (ag_clock g)"

lemma gate_inv_ledger:
  assumes "gate_inv arrivals mode g" "bk_inv b" "bk_entries b = bk_entries (ag_bookkeeper g) @ adds"
  shows "gate_inv arrivals mode (g\<lparr>ag_bookkeeper := b\<rparr>)"
  using assms by (auto simp: gate_inv_def arrival_of_append intro: entered_append) (blast intro: entered_append)

lemma gate_inv_tick:
  "gate_inv arrivals mode g \<Longrightarrow> now_ps (ag_clock g) \<le> now_ps c \<Longrightarrow> gate_inv arrivals mode (g\<lparr>ag_clock := c\<rparr>)"
  by (force simp: gate_inv_def)

lemma gate_inv_pop:
  assumes "gate_inv arrivals mode g" "ag_pending g = a # ps" "due g a"
    "ag_mode g = ARRIVAL_GATED \<Longrightarrow> entered (bk_entries (ag_bookkeeper g)) a (now_ps (ag_clock g))"
  shows "gate_inv arrivals mode (g\<lparr>ag_pending := ps, ag_admitted := ag_admitted g @ [a]\<rparr>)"
  using assms by (auto simp: gate_inv_def)

lemma hand_off_inv:
  assumes inv: "gate_inv arrivals mode g" and p: "ag_pending g = a # ps" and d: "due g a"
    and h: "hand_off add_request g a = (g', r)"
  shows "gate_inv arrivals mode g'" "ag_clock g' = ag_clock g" "ag_mode g' = ag_mode g"
    "\<not> isl r \<Longrightarrow> ag_pending g' = ps"
proof -
  have b: "bk_inv (ag_bookkeeper g)" using inv by (simp add: gate_inv_def)
  obtain b' q where q: "append_fact (ag_bookkeeper g) (StageFact (scheduler_entry (now_ps (ag_clock g)) a)) = (b', q)"
    by fastforce
  note keep = append_fact_keeps [OF b q]
  from keep(2) obtain adds where adds: "bk_entries b' = bk_entries (ag_bookkeeper g) @ adds"
    "\<not> isl q \<longrightarrow> map en_fact adds = [StageFact (scheduler_entry (now_ps (ag_clock g)) a)]" by (elim exE conjE)
  have inv1: "gate_inv arrivals mode (g\<lparr>ag_bookkeeper := b'\<rparr>)" using inv keep(1) adds(1) by (rule gate_inv_ledger)
  have e: "\<not> isl q \<Longrightarrow> entered (bk_entries b') a (now_ps (ag_clock g))"
    using adds by (fastforce simp: entered_def map_eq_Cons_conv)
  have pop: "gate_inv arrivals mode (g\<lparr>ag_bookkeeper := b', ag_pending := ps, ag_admitted := ag_admitted g @ [a]\<rparr>)"
    if "\<not> isl q" using gate_inv_pop [OF inv1, of a ps] p d e [OF that] by simp
  have pop0: "gate_inv arrivals mode (g\<lparr>ag_pending := ps, ag_admitted := ag_admitted g @ [a]\<rparr>)"
    if "ag_mode g \<noteq> ARRIVAL_GATED" using gate_inv_pop [OF inv p d] that by simp
  have "gate_inv arrivals mode g' \<and> ag_clock g' = ag_clock g \<and> ag_mode g' = ag_mode g \<and> (\<not> isl r \<longrightarrow> ag_pending g' = ps)"
  proof (cases "add_request a")
    case True
    show ?thesis
    proof (cases "ag_mode g")
      case ALL_AT_ONCE
      then have "(g', r) = (g\<lparr>ag_pending := ps, ag_admitted := ag_admitted g @ [a]\<rparr>, Inr a)"
        using h True p by (simp add: hand_off_def pop_pending_def)
      then show ?thesis using pop0 ALL_AT_ONCE by simp
    next
      case ARRIVAL_GATED
      show ?thesis
      proof (cases q)
        case (Inl e)
        then have "(g', r) = (g\<lparr>ag_bookkeeper := b'\<rparr>, Inl (LedgerRefused e))"
          using h True ARRIVAL_GATED q by (simp add: hand_off_def)
        then show ?thesis using inv1 by simp
      next
        case (Inr x)
        then have "(g', r) = (g\<lparr>ag_bookkeeper := b', ag_pending := ps, ag_admitted := ag_admitted g @ [a]\<rparr>, Inr a)"
          using h True ARRIVAL_GATED q p by (simp add: hand_off_def pop_pending_def)
        then show ?thesis using pop Inr by simp
      qed
    qed
  qed (use h inv in \<open>auto simp: hand_off_def\<close>)
  then show "gate_inv arrivals mode g'" "ag_clock g' = ag_clock g" "ag_mode g' = ag_mode g"
    "\<not> isl r \<Longrightarrow> ag_pending g' = ps" by auto
qed

lemma run_hand_off_inv:
  "gate_inv arrivals mode g \<Longrightarrow> ag_pending g = xs @ ps \<Longrightarrow> list_all (due g) xs \<Longrightarrow>
   run_all (hand_off add_request) g xs = (g', r) \<Longrightarrow> gate_inv arrivals mode g'"
proof (induction xs arbitrary: g r)
  case (Cons a xs)
  obtain g1 q where q: "hand_off add_request g a = (g1, q)" by fastforce
  have "ag_pending g = a # (xs @ ps)" "due g a" using Cons.prems by simp_all
  note h = hand_off_inv [OF Cons.prems(1) this q]
  show ?case
  proof (cases q)
    case (Inl e)
    then show ?thesis using Cons.prems(4) q h(1) by simp
  next
    case (Inr x)
    have "ag_pending g1 = xs @ ps" using h(4) Inr by simp
    moreover have "list_all (due g1) xs" using Cons.prems(3) h(2,3) by simp
    moreover obtain r' where "run_all (hand_off add_request) g1 xs = (g', r')"
      using Cons.prems(4) q Inr by (auto split: prod.splits sum.splits)
    ultimately show ?thesis using Cons.IH h(1) by blast
  qed
qed auto

lemma gate_ready_prefix:
  "\<exists>ps. ag_pending g = gate_ready g @ ps" "list_all (due g) (gate_ready g)"
proof -
  show "\<exists>ps. ag_pending g = gate_ready g @ ps"
    by (cases "ag_mode g = ALL_AT_ONCE") (auto simp: gate_ready_def intro: exI [of _ "dropWhile _ _"] takeWhile_dropWhile_id [symmetric])
  show "list_all (due g) (gate_ready g)"
    by (cases "ag_mode g") (auto simp: gate_ready_def list_all_iff dest: set_takeWhileD)
qed

lemma gate_step_inv: "gate_inv arrivals mode g \<Longrightarrow> gate_step g op = (g', r) \<Longrightarrow> gate_inv arrivals mode g'"
proof (cases op)
  case (Admit add_request)
  assume "gate_inv arrivals mode g" "gate_step g op = (g', r)"
  then show ?thesis using gate_ready_prefix [of g] Admit run_hand_off_inv by (auto simp: admit_ready_def)
next
  case AdvanceNext
  assume "gate_inv arrivals mode g" "gate_step g op = (g', r)"
  then show ?thesis using AdvanceNext
    by (auto simp: advance_to_next_arrival_def advance_to_def gate_inv_tick split: if_splits list.splits prod.splits sum.splits)
next
  case (Tick t)
  assume "gate_inv arrivals mode g" "gate_step g op = (g', r)"
  then show ?thesis using Tick by (auto simp: advance_to_def gate_inv_tick split: if_splits)
next
  case (Record facts)
  assume inv: "gate_inv arrivals mode g" "gate_step g op = (g', r)"
  obtain b q where q: "Bookkeeping.extend (ag_bookkeeper g) facts = (b, q)" by fastforce
  have "bk_inv (ag_bookkeeper g)" using inv(1) by (simp add: gate_inv_def)
  from extend_keeps [OF this q] show ?thesis using inv Record q gate_inv_ledger by auto
qed

interpretation gate: invariant_machine gate_step "gate_inv arrivals mode" for arrivals mode
  by unfold_locales (rule gate_step_inv)

lemma new_gate_arrivals:
  assumes "new_gate clock b mode = Inr g"
  obtains as where "arrivals_from [] (bk_entries b) = Inr as" "set (ag_pending g) = set as"
    "mset (ag_pending g) = mset as" "ag_clock g = clock" "ag_bookkeeper g = b" "ag_mode g = mode" "ag_admitted g = []"
    "mode = ARRIVAL_GATED \<Longrightarrow> sorted (map (\<lambda>a. (fa_arrived_at_ps a, fa_sequence a)) (ag_pending g))"
  using assms
  by (auto simp: new_gate_def rbind_Inr_iff framework_request_arrivals_def snapshot_ledger_def split: option.splits)

lemma new_gate_inv:
  assumes "bk_inv b" "new_gate clock b mode = Inr g"
  shows "gate_inv (ag_pending g) mode g \<and> distinct (map fa_request_id (ag_pending g))"
  using assms(2)
proof (rule new_gate_arrivals)
  fix as
  assume as: "arrivals_from [] (bk_entries b) = Inr as" "set (ag_pending g) = set as" "mset (ag_pending g) = mset as"
    and g: "ag_clock g = clock" "ag_bookkeeper g = b" "ag_mode g = mode" "ag_admitted g = []"
  note sound = arrivals_from_sound [OF as(1)]
  have "mset (map fa_request_id (ag_pending g)) = mset (map fa_request_id as)" using as(3) by simp
  then have "distinct (map fa_request_id (ag_pending g))" using sound by (metis mset_eq_imp_distinct_iff)
  then show ?thesis using sound as(2) g assms(1) by (simp add: gate_inv_def)
qed

lemma sorted_arrival_times:
  "sorted (map (\<lambda>a. (fa_arrived_at_ps a, fa_sequence a)) as) \<Longrightarrow> sorted (map fa_arrived_at_ps as)"
  by (induction as) (auto simp: less_eq_prod_def)

text \<open>
  C29. Admission is orderly: however the owner mixes admissions, clock moves and its own
  ledger entries, and whichever callbacks raise, the admitted requests followed by the pending
  ones are always the arrivals in their first order, no request twice.  In gated mode that
  order is the order of arrival, and every admitted request has a scheduler entry in the
  ledger that is stamped no earlier than its arrival.
\<close>

theorem admission_in_order:
  assumes "new_bookkeeper l = Inr b0" and "reaches Bookkeeping.extend b0 b"
    and "new_gate clock b mode = Inr g0" and "reaches gate_step g0 g"
  shows "ag_admitted g @ ag_pending g = ag_pending g0 \<and>
    distinct (admitted_request_ids g @ pending_request_ids g) \<and>
    (mode = ARRIVAL_GATED \<longrightarrow> sorted (map fa_arrived_at_ps (ag_admitted g @ ag_pending g)) \<and>
       (\<forall>a \<in> set (ag_admitted g). \<exists>t. fa_arrived_at_ps a \<le> t \<and> t \<le> now_ps (ag_clock g) \<and>
          entered (snapshot_ledger (ag_bookkeeper g)) a t))"
proof -
  have start: "gate_inv (ag_pending g0) mode g0" and dist: "distinct (map fa_request_id (ag_pending g0))"
    using new_gate_inv [OF reached_bk_inv [OF assms(1,2)] assms(3)] by auto
  have inv: "gate_inv (ag_pending g0) mode g" using assms(4) start by (rule gate.reaches_inv)
  have ids: "admitted_request_ids g @ pending_request_ids g = map fa_request_id (ag_pending g0)"
    using inv unfolding gate_inv_def admitted_request_ids_def pending_request_ids_def by (metis map_append)
  have "mode = ARRIVAL_GATED \<Longrightarrow> sorted (map fa_arrived_at_ps (ag_pending g0))"
    using assms(3) by (rule new_gate_arrivals) (simp add: sorted_arrival_times)
  then show ?thesis using inv dist ids by (simp add: gate_inv_def snapshot_ledger_def)
qed

subsection \<open>Progress\<close>

text \<open>Request objects whose scope names nothing but the request, as the serving front ends create them.\<close>

definition plain_request :: "created_object_record \<Rightarrow> bool" where
  "plain_request c \<longleftrightarrow> co_scope c = \<lparr>bs_correlation = empty_correlation\<lparr>oc_request_ids := oc_request_ids (bs_correlation (co_scope c))\<rparr>,
     bs_step_index = None, bs_execution_id = None, bs_operation_id = None\<rparr>"





definition plain_ledger :: "request_bookkeeper \<Rightarrow> bool" where
  "plain_ledger b \<longleftrightarrow>
     list_all (\<lambda>c. cr_kind (co_ref c) = FRAMEWORK_REQUEST \<longrightarrow> plain_request c) (created_facts (snapshot_ledger b))"





subsection \<open>A worked gate\<close>

definition demo_request :: "string \<Rightarrow> int \<Rightarrow> bookkeeping_fact" where
  "demo_request r t =
     CreatedFact \<lparr>co_ref = \<lparr>cr_kind = FRAMEWORK_REQUEST, cr_object_id = r\<rparr>, co_owner = FRAMEWORK, co_created_at_ps = t,
       co_scope = \<lparr>bs_correlation = empty_correlation\<lparr>oc_request_ids := [r]\<rparr>, bs_step_index = None,
                   bs_execution_id = None, bs_operation_id = None\<rparr>,
       co_native_id = None, co_parent_refs = [], co_metadata = []\<rparr>"

definition demo_arrivals :: request_bookkeeper where
  "demo_arrivals = fst (Bookkeeping.extend demo_bookkeeper [demo_request ''late'' 3, demo_request ''early'' 1])"

definition demo_gate :: "unit admission_gate" where
  "demo_gate = projr (new_gate (new_clock 0) demo_arrivals ARRIVAL_GATED)"

definition demo_admitted :: "unit admission_gate" where
  "demo_admitted = fst (gate_step (fst (gate_step demo_gate AdvanceNext)) (Admit (\<lambda>_. True)))"

lemma demo_gate_made:
  "reaches Bookkeeping.extend demo_bookkeeper demo_arrivals"
  "new_gate (new_clock 0) demo_arrivals ARRIVAL_GATED = Inr demo_gate"
  "reaches gate_step demo_gate demo_admitted"
  "has_pending demo_gate" "gate_ready demo_gate = []" "plain_ledger (ag_bookkeeper demo_gate)"
proof -
  show "reaches Bookkeeping.extend demo_bookkeeper demo_arrivals"
    unfolding demo_arrivals_def by (metis prod.collapse reaches_refl reaches_step)
  show "reaches gate_step demo_gate demo_admitted"
    unfolding demo_admitted_def by (metis prod.collapse reaches_refl reaches_step)
  have "\<not> isl (new_gate (new_clock 0 :: unit virtual_clock) demo_arrivals ARRIVAL_GATED)" by code_simp
  then show "new_gate (new_clock 0) demo_arrivals ARRIVAL_GATED = Inr demo_gate" by (simp add: demo_gate_def)
qed (code_simp | simp add: plain_ledger_def plain_request_def, code_simp)+

theorem admission_in_order_witness:
  "ag_admitted demo_admitted @ ag_pending demo_admitted = ag_pending demo_gate \<and>
   admitted_request_ids demo_admitted = [''early''] \<and> pending_request_ids demo_admitted = [''late'']"
proof -
  have "admitted_request_ids demo_admitted = [''early'']" "pending_request_ids demo_admitted = [''late'']" by code_simp+
  then show ?thesis using admission_in_order [OF demo_bookkeeper_extends(1) demo_gate_made(1,2,3)] by simp
qed


end
