(* ===== verification/Collective_Plan.thy ===== *)
theory Collective_Plan
  imports Graph
begin

text \<open>
  The traffic-owned expansion of collectives (\<open>simllm/traffic/collective_plan.py\<close>) with the
  tag allocator it uses (\<open>collective_goal_tags\<close> of \<open>simllm/core/runtime.py\<close>): every ring
  all-reduce and pairwise all-to-allv of a graph gets an explicit plan of rounds, extents and
  endpoint actions.  The digest function is the parameter of the graph validator.
\<close>

datatype plan_error =
    GraphInvalid graph_error | NegativeBaseTag | RingTooSmall | UnsupportedCollective | TagRangeFull
  | RingTagCount | PairwiseTooSmall | PairwiseTagCount | NoAlgorithm | MissingTags | PlannedInvalid graph_error

subsection \<open>Identities\<close>

definition int_text :: "int \<Rightarrow> string" where
  "int_text i = (if i < 0 then CHR ''-'' # nat_text (nat (- i)) else nat_text (nat i))"

definition action_id :: "string \<Rightarrow> nat \<Rightarrow> int \<Rightarrow> string \<Rightarrow> string" where
  "action_id operation_id round_index rank role =
     operation_id @ '':plan-round-'' @ nat_text round_index @ '':rank-'' @ int_text rank @ '':'' @ role"

definition extent_id :: "string \<Rightarrow> nat \<Rightarrow> nat \<Rightarrow> string" where
  "extent_id operation_id round_index extent_index =
     operation_id @ '':plan-round-'' @ nat_text round_index @ '':extent-'' @ nat_text extent_index"

definition channel_of :: "collective_work \<Rightarrow> string" where
  "channel_of w = (case lw_channel_hint w of None \<Rightarrow> ''default'' | Some c \<Rightarrow> if c = [] then ''default'' else c)"

subsection \<open>Tags\<close>

definition control_goal_tag_offset :: int where
  "control_goal_tag_offset = 1000000"

definition default_goal_base_tag :: int where
  "default_goal_base_tag = 1000"

abbreviation ring_work :: "collective_work \<Rightarrow> bool" where
  "ring_work w \<equiv> lw_collective w = ''all-reduce'' \<and> lw_algorithm_hint w = Some ''ring''"

text \<open>One pass over the collectives gives the rings their tags and collects the pairwise ones.\<close>

fun ring_tags :: "int \<Rightarrow> (string \<times> collective_work) list \<Rightarrow> plan_error + (int \<times> (string, int list) dict \<times> string list)" where
  "ring_tags next [] = Inr (next, [], [])"
| "ring_tags next ((k, w) # ws) =
     (if ring_work w then
        (let rounds = 2 * (int (length (lw_ranks w)) - 1)
         in if rounds \<le> 0 then Inl RingTooSmall
            else rbind (ring_tags (next + rounds) ws) (\<lambda>(next', tags, pairwise).
              Inr (next', (k, [next..next + rounds - 1]) # tags, pairwise)))
      else if pairwise_table w then
        rbind (ring_tags next ws) (\<lambda>(next', tags, pairwise). Inr (next', tags, k # pairwise))
      else Inl UnsupportedCollective)"

definition collective_goal_tags :: "(json \<Rightarrow> string) \<Rightarrow> int \<Rightarrow> execution_graph \<Rightarrow> plan_error + (string, int list) dict" where
  "collective_goal_tags digest base_tag g =
     (case validate_execution_graph digest g of Some e \<Rightarrow> Inl (GraphInvalid e) | None \<Rightarrow>
      if base_tag < 0 then Inl NegativeBaseTag
      else if eg_collective_plans g \<noteq> [] then
        (let result = map (\<lambda>p. (cp_operation_id p, map pr_tag (cp_rounds p))) (eg_collective_plans g)
         in if list_ex (\<lambda>t. base_tag + control_goal_tag_offset \<le> t) (concat (map snd result))
            then Inl TagRangeFull else Inr result)
      else
        rbind (ring_tags base_tag (collective_operations (eg_operations g))) (\<lambda>(next, tags, pairwise).
          (let result = tags @ map (\<lambda>(i, k). (k, [next + int i])) (enumerate 0 pairwise)
           in if list_ex (\<lambda>t. base_tag + control_goal_tag_offset \<le> t) (concat (map snd result))
              then Inl TagRangeFull else Inr result)))"

subsection \<open>Plans\<close>

definition finish_plan :: "(json \<Rightarrow> string) \<Rightarrow> string \<Rightarrow> collective_work \<Rightarrow> plan_round list \<Rightarrow> plan_action list \<Rightarrow> plan_extent list
    \<Rightarrow> plan_error + collective_plan" where
  "finish_plan digest operation_id w rounds actions extents =
     (case lw_algorithm_hint w of
        None \<Rightarrow> Inl NoAlgorithm
      | Some algorithm \<Rightarrow>
          (let plan =
             \<lparr>cp_operation_id = operation_id, cp_collective = lw_collective w, cp_algorithm = algorithm,
              cp_channel_id = channel_of w, cp_rank_order = lw_ranks w, cp_payload_bytes = lw_payload_bytes w,
              cp_pair_payload_bytes = lw_pair_payload_bytes w,
              cp_request_pair_payload_bytes = lw_request_pair_payload_bytes w,
              cp_rounds = rounds, cp_actions = actions, cp_extents = extents,
              cp_entry_action_ids = expected_entries (lw_ranks w) actions,
              cp_terminal_action_ids = expected_terminals (lw_ranks w) actions,
              cp_integrity_sha256 = replicate 64 CHR ''0''\<rparr>
           in Inr (plan\<lparr>cp_integrity_sha256 := collective_plan_integrity_sha256 digest plan\<rparr>)))"

definition ring_extents :: "string \<Rightarrow> int list \<Rightarrow> int \<Rightarrow> nat \<Rightarrow> plan_extent list" where
  "ring_extents operation_id ranks chunk_bytes round_index =
     map (\<lambda>(i, source).
       let destination = ranks ! ((i + 1) mod length ranks)
       in \<lparr>pe_extent_id = extent_id operation_id round_index i, pe_round_index = int round_index,
           pe_source_rank = source, pe_destination_rank = destination, pe_payload_bytes = chunk_bytes,
           pe_send_action_id = action_id operation_id round_index source ''send'',
           pe_receive_action_id = action_id operation_id round_index destination ''receive'',
           pe_request_payload_bytes = []\<rparr>) (enumerate 0 ranks)"

definition ring_actions :: "string \<Rightarrow> int list \<Rightarrow> int \<Rightarrow> nat \<Rightarrow> plan_action list" where
  "ring_actions operation_id ranks chunk_bytes round_index =
     (let extents = ring_extents operation_id ranks chunk_bytes round_index
      in concat (map (\<lambda>(i, rank).
           let successor_extent = extents ! i;
               predecessor_extent = extents ! ((i + length ranks - 1) mod length ranks);
               dependencies = (if round_index = 0 then []
                 else [action_id operation_id (round_index - 1) rank ''receive''])
           in [\<lparr>pa_action_id = pe_send_action_id successor_extent, pa_rank = rank, pa_kind = SEND,
                 pa_extent_id = pe_extent_id successor_extent, pa_depends_on = dependencies\<rparr>,
               \<lparr>pa_action_id = pe_receive_action_id predecessor_extent, pa_rank = rank, pa_kind = RECEIVE,
                 pa_extent_id = pe_extent_id predecessor_extent, pa_depends_on = dependencies\<rparr>])
         (enumerate 0 ranks)))"

definition ring_rounds :: "string \<Rightarrow> int list \<Rightarrow> plan_round list" where
  "ring_rounds channel tags =
     map (\<lambda>(i, tag). \<lparr>pr_round_index = int i, pr_tag = tag,
       pr_channel_id = channel @ '':round-'' @ nat_text i\<rparr>) (enumerate 0 tags)"

definition ring_plan :: "(json \<Rightarrow> string) \<Rightarrow> string \<Rightarrow> collective_work \<Rightarrow> int list \<Rightarrow> plan_error + collective_plan" where
  "ring_plan digest operation_id w tags =
     (let ranks = lw_ranks w; world = length ranks; expected_rounds = 2 * (world - 1);
          chunk_bytes = max 1 (lw_payload_bytes w div int world)
      in if world < 2 then Inl RingTooSmall
         else if length tags \<noteq> expected_rounds then Inl RingTagCount
         else finish_plan digest operation_id w (ring_rounds (channel_of w) tags)
                (concat (map (ring_actions operation_id ranks chunk_bytes) [0..<expected_rounds]))
                (concat (map (ring_extents operation_id ranks chunk_bytes) [0..<expected_rounds])))"

definition request_partitions :: "collective_work \<Rightarrow> (int \<times> int, (string \<times> int) list) dict" where
  "request_partitions w =
     fold (\<lambda>(r, s, d, n) by_pair. AList.update (s, d) (dict_get by_pair (s, d) [] @ [(r, n)]) by_pair)
       (lw_request_pair_payload_bytes w) []"

definition pair_payloads :: "collective_work \<Rightarrow> (int \<times> int \<times> int) list" where
  "pair_payloads w =
     (if lw_pair_payload_bytes w \<noteq> [] then lw_pair_payload_bytes w
      else concat (map (\<lambda>s. List.map_filter (\<lambda>d. if s \<noteq> d \<and> 0 < lw_payload_bytes w
                                            then Some (s, d, lw_payload_bytes w) else None) (lw_ranks w))
             (lw_ranks w)))"

definition pairwise_extent :: "string \<Rightarrow> (int \<times> int, (string \<times> int) list) dict \<Rightarrow> nat \<Rightarrow> int \<times> int \<times> int \<Rightarrow> plan_extent" where
  "pairwise_extent operation_id partitions i = (\<lambda>(source, destination, payload_bytes).
     let x = extent_id operation_id 0 i
     in \<lparr>pe_extent_id = x, pe_round_index = 0, pe_source_rank = source, pe_destination_rank = destination,
         pe_payload_bytes = payload_bytes, pe_send_action_id = x @ '':send'', pe_receive_action_id = x @ '':receive'',
         pe_request_payload_bytes = dict_get partitions (source, destination) []\<rparr>)"

definition pairwise_actions :: "plan_extent \<Rightarrow> plan_action list" where
  "pairwise_actions x =
     [\<lparr>pa_action_id = pe_send_action_id x, pa_rank = pe_source_rank x, pa_kind = SEND,
        pa_extent_id = pe_extent_id x, pa_depends_on = []\<rparr>,
      \<lparr>pa_action_id = pe_receive_action_id x, pa_rank = pe_destination_rank x, pa_kind = RECEIVE,
        pa_extent_id = pe_extent_id x, pa_depends_on = []\<rparr>]"

definition pairwise_plan :: "(json \<Rightarrow> string) \<Rightarrow> string \<Rightarrow> collective_work \<Rightarrow> int list \<Rightarrow> plan_error + collective_plan" where
  "pairwise_plan digest operation_id w tags =
     (if length (lw_ranks w) < 2 then Inl PairwiseTooSmall
      else case tags of
        [tag] \<Rightarrow>
          (let extents = map (\<lambda>(i, p). pairwise_extent operation_id (request_partitions w) i p)
                           (enumerate 0 (pair_payloads w))
           in finish_plan digest operation_id w
                [\<lparr>pr_round_index = 0, pr_tag = tag, pr_channel_id = channel_of w\<rparr>]
                (concat (map pairwise_actions extents)) extents)
      | _ \<Rightarrow> Inl PairwiseTagCount)"

subsection \<open>Planning a graph\<close>

definition plan_one :: "(json \<Rightarrow> string) \<Rightarrow> (string, int list) dict \<Rightarrow> string \<times> collective_work \<Rightarrow> plan_error + collective_plan" where
  "plan_one digest tags = (\<lambda>(k, w).
     case map_of tags k of
       None \<Rightarrow> Inl MissingTags
     | Some ts \<Rightarrow>
         if ring_work w then ring_plan digest k w ts
         else if pairwise_table w then pairwise_plan digest k w ts
         else Inl UnsupportedCollective)"

definition plan_execution_graph_collectives :: "(json \<Rightarrow> string) \<Rightarrow> int \<Rightarrow> execution_graph \<Rightarrow> plan_error + execution_graph" where
  "plan_execution_graph_collectives digest base_tag g =
     (case validate_execution_graph digest g of Some e \<Rightarrow> Inl (GraphInvalid e) | None \<Rightarrow>
      if eg_collective_plans g \<noteq> [] then Inr g
      else
        rbind (collective_goal_tags digest base_tag g) (\<lambda>tags.
        rbind (collect (plan_one digest tags) (collective_operations (eg_operations g))) (\<lambda>plans.
          (let planned = g\<lparr>eg_collective_plans := plans\<rparr>
           in case validate_execution_graph digest planned of
                Some e \<Rightarrow> Inl (PlannedInvalid e)
              | None \<Rightarrow> Inr planned))))"

definition collective_plan_by_operation :: "(json \<Rightarrow> string) \<Rightarrow> execution_graph \<Rightarrow> graph_error + (string, collective_plan) dict" where
  "collective_plan_by_operation digest g =
     (case validate_execution_graph digest g of
        Some e \<Rightarrow> Inl e
      | None \<Rightarrow> Inr (fold (\<lambda>p d. AList.update (cp_operation_id p) p d) (eg_collective_plans g) []))"

end
