(* ===== verification/Collective_Plan_Properties.thy ===== *)
theory Collective_Plan_Properties
  imports Collective_Plan Graph_Properties
begin

text \<open>
  The planner against the validator: every plan that the ring and pairwise planners build
  passes the plan validator, so planning a valid graph fails only for the reasons the planner
  names itself.
\<close>

subsection \<open>Texts of numbers\<close>

lemma nat_text_digits: "list_all is_digit (nat_text n)"
proof (induction n rule: nat_text.induct)
  case (1 n)
  have d: "is_digit (char_of (48 + m))" if "m < 10" for m :: nat
    using that by (simp add: is_digit_def)
  show ?case
  proof (cases "n < 10")
    case True
    then show ?thesis using d by (simp add: nat_text.simps [of n])
  next
    case False
    then show ?thesis using 1 d [of "n mod 10"] by (simp add: nat_text.simps [of n])
  qed
qed

lemma decimal_snoc: "decimal (s @ [c]) = 10 * decimal s + (int (of_char c) - 48)"
  by (simp add: decimal_def)

lemma decimal_nat_text: "decimal (nat_text n) = int n"
proof (induction n rule: nat_text.induct)
  case (1 n)
  show ?case
  proof (cases "n < 10")
    case True
    then show ?thesis by (simp add: nat_text.simps [of n] decimal_def)
  next
    case False
    have "int (of_char (char_of (48 + n mod 10) :: char)) = 48 + int (n mod 10)" by (simp add: of_char_of)
    then show ?thesis using 1 False by (simp add: nat_text.simps [of n] decimal_snoc) presburger
  qed
qed

lemma nat_text_inj [simp]: "nat_text m = nat_text n \<longleftrightarrow> m = n"
  by (metis decimal_nat_text of_nat_eq_iff)

lemma nat_text_chars: "CHR '':'' \<notin> set (nat_text n)" "CHR ''-'' \<notin> set (nat_text n)"
  using nat_text_digits [of n] by (auto simp: list_all_iff is_digit_def)

lemma int_text_colon: "CHR '':'' \<notin> set (int_text i)"
  by (simp add: int_text_def nat_text_chars)

lemma int_text_inj [simp]: "int_text i = int_text j \<longleftrightarrow> i = j"
proof -
  have "CHR ''-'' # xs \<noteq> nat_text n" "nat_text n \<noteq> CHR ''-'' # xs" for xs n
    using nat_text_chars(2) [of n] by (metis list.set_intros(1))+
  then show ?thesis by (auto simp: int_text_def)
qed

lemma action_id_inj [simp]:
  "action_id k i r role = action_id k j s role' \<longleftrightarrow> i = j \<and> r = s \<and> role = role'"
  by (simp add: action_id_def append_sep_inj nat_text_chars int_text_colon)

lemma extent_id_inj [simp]: "extent_id k i m = extent_id k j n \<longleftrightarrow> i = j \<and> m = n"
  by (simp add: extent_id_def append_sep_inj nat_text_chars)

lemma nonblank_append [simp]: "nonblank (xs @ ys) \<longleftrightarrow> nonblank xs \<or> nonblank ys"
  by (simp add: nonblank_def)

lemma plan_ids_nonblank [simp]: "nonblank (action_id k i r role)" "nonblank (extent_id k i m)"
  by (simp_all add: action_id_def extent_id_def nonblank_def py_isspace_def)

subsection \<open>When a plan is accepted\<close>

lemma find_action_distinct:
  "distinct (map pa_action_id as) \<Longrightarrow> a \<in> set as \<Longrightarrow> find_action as (pa_action_id a) = Some a"
  by (induction as) (auto simp: find_action_def)

definition action_fits :: "int list \<Rightarrow> plan_action \<Rightarrow> bool" where
  "action_fits ranks a \<longleftrightarrow> nonblank (pa_action_id a) \<and> 0 \<le> pa_rank a \<and> pa_rank a \<in> set ranks \<and> nonblank (pa_extent_id a) \<and>
     list_all nonblank (pa_depends_on a) \<and> distinct (pa_depends_on a)"

lemma plan_actions_intro:
  "list_all (action_fits ranks) as \<Longrightarrow> distinct (map pa_action_id as) \<Longrightarrow> set (map pa_action_id as) \<inter> set seen = {} \<Longrightarrow>
   plan_actions ranks seen as = None"
  by (induction as arbitrary: seen) (auto simp: action_fits_def list_all_iff)

definition extent_fits :: "int list \<Rightarrow> nat \<Rightarrow> plan_action list \<Rightarrow> plan_extent \<Rightarrow> bool" where
  "extent_fits ranks rounds as x \<longleftrightarrow>
     nonblank (pe_extent_id x) \<and> 0 \<le> pe_round_index x \<and> pe_round_index x < int rounds \<and>
     0 \<le> pe_source_rank x \<and> 0 \<le> pe_destination_rank x \<and> pe_source_rank x \<noteq> pe_destination_rank x \<and>
     pe_source_rank x \<in> set ranks \<and> pe_destination_rank x \<in> set ranks \<and> 1 \<le> pe_payload_bytes x \<and>
     (\<exists>a \<in> set as. pa_action_id a = pe_send_action_id x \<and> pa_kind a = SEND \<and> pa_rank a = pe_source_rank x \<and>
        pa_extent_id a = pe_extent_id x) \<and>
     (\<exists>a \<in> set as. pa_action_id a = pe_receive_action_id x \<and> pa_kind a = RECEIVE \<and> pa_rank a = pe_destination_rank x \<and>
        pa_extent_id a = pe_extent_id x) \<and>
     nonblank (pe_send_action_id x) \<and> nonblank (pe_receive_action_id x) \<and> extent_requests x = None"

lemma extent_end_intro:
  assumes "distinct (map pa_action_id as)" "nonblank k" "k \<notin> set used"
    "\<exists>a \<in> set as. pa_action_id a = k \<and> pa_kind a = kind \<and> pa_rank a = rank \<and> pa_extent_id a = x"
  shows "extent_end as used x k kind rank = None"
  using assms find_action_distinct [OF assms(1)] by (auto simp: extent_end_def)

lemma plan_extents_intro:
  assumes "distinct (map pa_action_id as)"
  shows "list_all (extent_fits ranks rounds as) xs \<Longrightarrow>
   distinct (map pe_extent_id xs) \<Longrightarrow> set (map pe_extent_id xs) \<inter> set seen = {} \<Longrightarrow>
   distinct (extent_action_ids xs) \<Longrightarrow> set (extent_action_ids xs) \<inter> set used = {} \<Longrightarrow>
   sorted (previous # map pe_round_index xs) \<Longrightarrow> plan_extents ranks rounds as seen used previous xs = None"
proof (induction xs arbitrary: seen used previous)
  case (Cons x xs)
  have x: "extent_fits ranks rounds as x" using Cons.prems(1) by simp
  have "extent_end as used (pe_extent_id x) (pe_send_action_id x) SEND (pe_source_rank x) = None"
    "extent_end as (pe_send_action_id x # used) (pe_extent_id x) (pe_receive_action_id x) RECEIVE (pe_destination_rank x) = None"
    using x Cons.prems(4,5) by (auto simp: extent_fits_def intro!: extent_end_intro [OF assms])
  then have "extent_checks ranks rounds as seen used previous x = None"
    using x Cons.prems(3,6) by (simp add: extent_checks_def extent_fits_def)
  moreover have "plan_extents ranks rounds as (pe_extent_id x # seen)
      (pe_receive_action_id x # pe_send_action_id x # used) (pe_round_index x) xs = None"
    using Cons.prems by (intro Cons.IH) auto
  ultimately show ?case by simp
qed simp

lemma expected_ids_valid:
  assumes "distinct (map pa_action_id as)" "list_all (action_fits ranks) as" "\<forall>r \<in> set ranks. 0 \<le> r"
  shows "validate_rank_action_ids (map (\<lambda>r. (r, map pa_action_id (filter (\<lambda>a. pa_rank a = r \<and> P a) as))) ranks) ranks as = None"
proof -
  have "(case find_action as k of None \<Rightarrow> Some GUnknownAction | Some a \<Rightarrow> guard (pa_rank a = r) GCrossRank) = None \<and> nonblank k"
    if "k \<in> pa_action_id ` {a \<in> set as. pa_rank a = r \<and> P a}" for k r
    using that find_action_distinct [OF assms(1)] assms(2) by (auto simp: list_all_iff action_fits_def)
  moreover have "distinct (map pa_action_id (filter Q as))" for Q using assms(1) by (rule distinct_map_filter)
  moreover have "((r, ids), rank) \<in> set (zip (map (\<lambda>r. (r, f r)) ranks) ranks) \<Longrightarrow> rank = r \<and> ids = f r \<and> r \<in> set ranks"
    for r ids rank and f :: "int \<Rightarrow> string list"
    by (induction ranks) auto
  ultimately show ?thesis using assms(3) by (fastforce simp: validate_rank_action_ids_def)
qed

text \<open>The digest function returns 64 lowercase hexadecimal digits, as SHA-256 does.\<close>

definition hex_digest :: "(json \<Rightarrow> string) \<Rightarrow> bool" where
  "hex_digest digest \<longleftrightarrow> (\<forall>j. length (digest j) = 64 \<and> list_all (\<lambda>c. c \<in> set ''0123456789abcdef'') (digest j))"

lemma channel_nonblank: "validate_collective w = None \<Longrightarrow> nonblank (channel_of w)"
proof -
  assume "validate_collective w = None"
  then have "w_opt w_string (lw_channel_hint w) = None" by (simp add: validate_collective_def Let_def)
  moreover have "nonblank ''default''" by code_simp
  ultimately show ?thesis by (simp add: channel_of_def split: option.splits)
qed

lemma finish_plan_header:
  assumes "validate_collective w = None" "nonblank k" "lw_algorithm_hint w = Some algorithm"
    "cp_operation_id p = k" "cp_collective p = lw_collective w" "cp_algorithm p = algorithm"
    "cp_channel_id p = channel_of w" "cp_rank_order p = lw_ranks w" "cp_payload_bytes p = lw_payload_bytes w"
    "cp_pair_payload_bytes p = lw_pair_payload_bytes w" "cp_request_pair_payload_bytes p = lw_request_pair_payload_bytes w"
  shows "plan_header p w = None"
proof -
  have "semantic_copy p w = w" using assms by (cases w) (simp add: semantic_copy_def)
  moreover have "plan_matches_work p w" using assms by (simp add: plan_matches_work_def channel_of_def)
  moreover have "nonblank algorithm" "nonblank (lw_collective w)" "lw_ranks w \<noteq> []" "\<forall>r \<in> set (lw_ranks w). 0 \<le> r"
      "distinct (lw_ranks w)" "0 \<le> lw_payload_bytes w"
    using assms(1,3) by (simp_all add: validate_collective_def Let_def)
  ultimately show ?thesis using assms channel_nonblank [OF assms(1)] by (simp add: plan_header_def)
qed

lemma plan_accepted:
  assumes fin: "finish_plan digest k w rounds as xs = Inr p" and w: "validate_collective w = None" and k: "nonblank k"
    and rounds: "plan_rounds rounds = None"
    and as: "list_all (action_fits (lw_ranks w)) as" "distinct (map pa_action_id as)" "plan_dependencies as = None"
    and xs: "list_all (extent_fits (lw_ranks w) (length rounds) as) xs" "distinct (map pe_extent_id xs)"
      "distinct (extent_action_ids xs)" "sorted (map pe_round_index xs)"
    and ids: "set (extent_action_ids xs) = pa_action_id ` set as" and hex: "hex_digest digest"
  shows "validate_collective_plan digest p w = None"
proof -
  obtain algorithm where alg: "lw_algorithm_hint w = Some algorithm" using fin by (auto simp: finish_plan_def split: option.splits)
  let ?sha = "cp_integrity_sha256 p"
  have p: "p = \<lparr>cp_operation_id = k, cp_collective = lw_collective w, cp_algorithm = algorithm,
      cp_channel_id = channel_of w, cp_rank_order = lw_ranks w, cp_payload_bytes = lw_payload_bytes w,
      cp_pair_payload_bytes = lw_pair_payload_bytes w, cp_request_pair_payload_bytes = lw_request_pair_payload_bytes w,
      cp_rounds = rounds, cp_actions = as, cp_extents = xs, cp_entry_action_ids = expected_entries (lw_ranks w) as,
      cp_terminal_action_ids = expected_terminals (lw_ranks w) as, cp_integrity_sha256 = ?sha\<rparr>"
    and sha: "?sha = digest (collective_plan_identity_to_json p)"
    using fin alg by (auto simp: finish_plan_def Let_def collective_plan_integrity_sha256_def collective_plan_identity_to_json_def)
  have nonneg: "\<forall>r \<in> set (lw_ranks w). 0 \<le> r" using w by (simp add: validate_collective_def Let_def)
  have "sorted (- 1 # map pe_round_index xs)" using xs(1,4) by (auto simp: list_all_iff extent_fits_def)
  then have "plan_extents (lw_ranks w) (length rounds) as [] [] (- 1) xs = None"
    using plan_extents_intro [OF as(2) xs(1,2) _ xs(3)] by simp
  moreover have "plan_actions (lw_ranks w) [] as = None" using as(1,2) by (intro plan_actions_intro) simp_all
  moreover have "validate_rank_action_ids (expected_entries (lw_ranks w) as) (lw_ranks w) as = None"
    unfolding expected_entries_def by (rule expected_ids_valid [OF as(2,1) nonneg])
  moreover have "validate_rank_action_ids (expected_terminals (lw_ranks w) as) (lw_ranks w) as = None"
    unfolding expected_terminals_def Let_def by (rule expected_ids_valid [OF as(2,1) nonneg])
  moreover have "plan_header p w = None" by (rule finish_plan_header [OF w k alg]) (subst p, simp)+
  moreover have "length ?sha = 64 \<and> list_all (\<lambda>c. c \<in> set ''0123456789abcdef'') ?sha"
    using hex unfolding sha hex_digest_def by blast
  moreover have "cp_rank_order p = lw_ranks w" "cp_rounds p = rounds" "cp_actions p = as" "cp_extents p = xs"
    "cp_entry_action_ids p = expected_entries (lw_ranks w) as" "cp_terminal_action_ids p = expected_terminals (lw_ranks w) as"
    by (subst p, simp)+
  moreover have "collective_plan_integrity_sha256 digest p = ?sha" using sha by (simp add: collective_plan_integrity_sha256_def)
  ultimately show ?thesis using rounds as(3) ids unfolding validate_collective_plan_def Let_def
    by (simp only: first_err_Cons_None first_err.simps(1) guard_None simp_thms)
qed

subsection \<open>Rings\<close>

lemma enumerate_nth: "enumerate 0 xs = map (\<lambda>i. (i, xs ! i)) [0..<length xs]"
  by (rule nth_equalityI) (auto simp: nth_enumerate_eq)

lemma concat_product: "concat (map (\<lambda>i. map (f i) ys) xs) = map (\<lambda>(i, j). f i j) (List.product xs ys)"
  by (induction xs) (auto simp: o_def)

lemma product_append: "List.product (us @ vs) zs = List.product us zs @ List.product vs zs"
  by (induction us) auto

lemma concat_concat_product:
  "concat (map (\<lambda>i. concat (map (\<lambda>j. map (f i j) zs) ys)) xs) = map (\<lambda>((i, j), z). f i j z) (List.product (List.product xs ys) zs)"
proof -
  have "concat (map (\<lambda>j. map (f i j) zs) ys) = map (\<lambda>(j, z). f i j z) (List.product ys zs)" for i
    by (rule concat_product)
  moreover have "concat (map (\<lambda>i. map (\<lambda>(j, z). f i j z) (List.product ys zs)) xs)
      = map (\<lambda>(i, j, z). f i j z) (List.product xs (List.product ys zs))"
    by (rule concat_product)
  moreover have "map (\<lambda>(i, j, z). f i j z) (List.product xs (List.product ys zs))
      = map (\<lambda>((i, j), z). f i j z) (List.product (List.product xs ys) zs)"
  proof (induction xs)
    case (Cons x xs)
    have "map (\<lambda>(j, z). f x j z) (List.product ys zs) = map (\<lambda>((i, j), z). f i j z) (List.product (map (Pair x) ys) zs)"
      by (induction ys) auto
    then show ?case using Cons by (simp add: o_def case_prod_unfold product_append)
  qed simp
  ultimately show ?thesis by simp
qed

definition ring_extent :: "string \<Rightarrow> int list \<Rightarrow> int \<Rightarrow> nat \<Rightarrow> nat \<Rightarrow> plan_extent" where
  "ring_extent k ranks chunk i j =
     (let destination = ranks ! ((j + 1) mod length ranks)
      in \<lparr>pe_extent_id = extent_id k i j, pe_round_index = int i, pe_source_rank = ranks ! j,
          pe_destination_rank = destination, pe_payload_bytes = chunk,
          pe_send_action_id = action_id k i (ranks ! j) ''send'',
          pe_receive_action_id = action_id k i destination ''receive'', pe_request_payload_bytes = []\<rparr>)"

definition ring_action :: "string \<Rightarrow> int list \<Rightarrow> nat \<Rightarrow> nat \<Rightarrow> bool \<Rightarrow> plan_action" where
  "ring_action k ranks i j sending =
     \<lparr>pa_action_id = action_id k i (ranks ! j) (if sending then ''send'' else ''receive''), pa_rank = ranks ! j,
      pa_kind = (if sending then SEND else RECEIVE),
      pa_extent_id = extent_id k i (if sending then j else (j + length ranks - 1) mod length ranks),
      pa_depends_on = (if i = 0 then [] else [action_id k (i - 1) (ranks ! j) ''receive''])\<rparr>"

lemma ring_extents_alt: "ring_extents k ranks chunk i = map (ring_extent k ranks chunk i) [0..<length ranks]"
  by (simp add: ring_extents_def enumerate_nth ring_extent_def Let_def)

lemma mod_pred_succ:
  fixes j n :: nat
  assumes "j < n" shows "((j + n - 1) mod n + 1) mod n = j"
proof (cases j)
  case 0
  then show ?thesis using assms by simp
next
  case (Suc i)
  then have "(j + n - 1) mod n = i" using assms by simp
  then show ?thesis using Suc assms by simp
qed

lemma ring_extents_nth: "j < length ranks \<Longrightarrow> ring_extents k ranks chunk i ! j = ring_extent k ranks chunk i j"
  by (simp add: ring_extents_alt)

lemma ring_actions_alt:
  "ring_actions k ranks chunk i = concat (map (\<lambda>j. map (ring_action k ranks i j) [True, False]) [0..<length ranks])"
  unfolding ring_actions_def Let_def enumerate_nth map_map o_def
proof (intro arg_cong [where f = concat] map_cong refl, simp only: split_conv, goal_cases)
  case (1 j)
  then have j: "j < length ranks" "(j + length ranks - 1) mod length ranks < length ranks" by (auto intro!: mod_less_divisor)
  then show ?case using mod_pred_succ [OF j(1)]
    by (simp only: ring_extents_nth) (simp add: ring_extent_def ring_action_def Let_def)
qed

text \<open>The dependencies of a list of actions whose predecessors \<open>prior\<close> are known.\<close>

fun deps_ok :: "plan_action list \<Rightarrow> plan_action list \<Rightarrow> bool" where
  "deps_ok prior [] = True"
| "deps_ok prior (a # as) =
     ((\<forall>k \<in> set (pa_depends_on a). \<exists>b \<in> set prior. pa_action_id b = k \<and> pa_rank b = pa_rank a) \<and> deps_ok (prior @ [a]) as)"

lemma deps_ok_append: "deps_ok prior (as @ bs) \<longleftrightarrow> deps_ok prior as \<and> deps_ok (prior @ as) bs"
  by (induction as arbitrary: prior) auto

lemma deps_ok_prior:
  assumes "\<And>a k. a \<in> set as \<Longrightarrow> k \<in> set (pa_depends_on a) \<Longrightarrow> \<exists>b \<in> set prior. pa_action_id b = k \<and> pa_rank b = pa_rank a"
  shows "deps_ok prior as"
  using assms
proof (induction as arbitrary: prior)
  case (Cons a as)
  have "deps_ok (prior @ [a]) as" using Cons.prems by (intro Cons.IH) fastforce
  then show ?case using Cons.prems by simp
qed simp

lemma deps_ok_nth:
  "deps_ok prior as \<Longrightarrow> i < length as \<Longrightarrow> k \<in> set (pa_depends_on (as ! i)) \<Longrightarrow>
   \<exists>b \<in> set (prior @ take i as). pa_action_id b = k \<and> pa_rank b = pa_rank (as ! i)"
proof (induction as arbitrary: prior i)
  case (Cons a as)
  show ?case
  proof (cases i)
    case 0
    then show ?thesis using Cons.prems by simp
  next
    case (Suc m)
    then show ?thesis using Cons.IH [of "prior @ [a]" m] Cons.prems by simp
  qed
qed simp

lemma plan_dependencies_intro:
  assumes "distinct (map pa_action_id as)" "deps_ok [] as"
  shows "plan_dependencies as = None"
proof -
  have "dependency_checks as (take i as) (as ! i) = None" if i: "i < length as" for i
  proof -
    have "(case find_action as k of None \<Rightarrow> Some GUnknownAction
        | Some b \<Rightarrow> first_err [guard (k \<in> pa_action_id ` set (take i as)) GLaterAction,
                             guard (pa_rank b = pa_rank (as ! i)) GCrossRank]) = None"
      if k: "k \<in> set (pa_depends_on (as ! i))" for k
    proof -
      obtain b where b: "b \<in> set (take i as)" "pa_action_id b = k" "pa_rank b = pa_rank (as ! i)"
        using deps_ok_nth [OF assms(2) i k] by auto
      have "find_action as k = Some b" using find_action_distinct [OF assms(1)] in_set_takeD [OF b(1)] b(2) by blast
      then show ?thesis using b by auto
    qed
    then show ?thesis by (simp add: dependency_checks_def)
  qed
  then show ?thesis by (simp add: plan_dependencies_def enumerate_nth)
qed

text \<open>All rounds of a ring at once: the position of an extent is its round and its source.\<close>

lemma ring_all_extents:
  "concat (map (ring_extents k ranks chunk) [0..<n])
     = map (\<lambda>(i, j). ring_extent k ranks chunk i j) (List.product [0..<n] [0..<length ranks])"
  unfolding ring_extents_alt by (rule concat_product)

lemma ring_all_actions:
  "concat (map (ring_actions k ranks chunk) [0..<n])
     = map (\<lambda>((i, j), b). ring_action k ranks i j b) (List.product (List.product [0..<n] [0..<length ranks]) [True, False])"
  unfolding ring_actions_alt by (rule concat_concat_product)

lemma ring_actions_set:
  "set (ring_actions k ranks chunk i) = {ring_action k ranks i j b |j b. j < length ranks}"
  by (auto simp: ring_actions_alt) (metis (full_types) atLeastLessThan_iff le0)

lemma ring_deps: "deps_ok [] (concat (map (ring_actions k ranks chunk) [0..<n]))"
proof (induction n)
  case (Suc n)
  have "deps_ok (concat (map (ring_actions k ranks chunk) [0..<n])) (ring_actions k ranks chunk n)"
  proof (rule deps_ok_prior)
    fix a d assume "a \<in> set (ring_actions k ranks chunk n)" "d \<in> set (pa_depends_on a)"
    then obtain j b where j: "j < length ranks" "a = ring_action k ranks n j b" "d \<in> set (pa_depends_on a)"
      by (auto simp only: ring_actions_set)
    then have n: "n \<noteq> 0" and d: "d = action_id k (n - 1) (ranks ! j) ''receive''"
      by (auto simp: ring_action_def split: if_splits)
    have "ring_action k ranks (n - 1) j False \<in> set (ring_actions k ranks chunk (n - 1))"
      using j(1) by (auto simp: ring_actions_set)
    then have "ring_action k ranks (n - 1) j False \<in> set (concat (map (ring_actions k ranks chunk) [0..<n]))" using n by force
    then show "\<exists>b \<in> set (concat (map (ring_actions k ranks chunk) [0..<n])). pa_action_id b = d \<and> pa_rank b = pa_rank a"
      by (rule rev_bexI) (simp add: ring_action_def d j(2))
  qed
  then show ?case using Suc by (simp add: deps_ok_append)
qed simp

lemma ring_action_ids_distinct:
  assumes "distinct ranks"
  shows "distinct (map pa_action_id (concat (map (ring_actions k ranks chunk) [0..<n])))"
proof -
  have "inj_on (\<lambda>((i, j), b). pa_action_id (ring_action k ranks i j b)) (({..<n} \<times> {..<length ranks}) \<times> UNIV)"
    using assms by (auto simp: inj_on_def ring_action_def nth_eq_iff_index_eq split: if_splits)
  then show ?thesis
    by (simp add: ring_all_actions distinct_map distinct_product o_def case_prod_unfold)
      (auto intro: inj_on_subset)
qed

lemma ring_extent_ids_distinct: "distinct (map pe_extent_id (concat (map (ring_extents k ranks chunk) [0..<n])))"
  by (simp add: ring_all_extents distinct_map distinct_product o_def case_prod_unfold inj_on_def ring_extent_def Let_def)

lemma mod_succ_pred:
  fixes j n :: nat
  assumes "j < n" shows "((j + 1) mod n + n - 1) mod n = j"
proof (cases "j + 1 = n")
  case False
  then have "(j + 1) mod n = j + 1" using assms by simp
  then show ?thesis using assms by simp
qed (use assms in simp)

lemma mod_succ_inj:
  fixes i j n :: nat
  shows "i < n \<Longrightarrow> j < n \<Longrightarrow> (i + 1) mod n = (j + 1) mod n \<Longrightarrow> i = j"
  by (metis mod_succ_pred)

lemma mod_succ_neq:
  fixes j n :: nat
  assumes "j < n" "2 \<le> n" shows "(j + 1) mod n \<noteq> j"
  using assms by (cases "j + 1 = n") auto

definition ring_end :: "string \<Rightarrow> int list \<Rightarrow> nat \<Rightarrow> nat \<Rightarrow> bool \<Rightarrow> string" where
  "ring_end k ranks i j sending =
     (if sending then action_id k i (ranks ! j) ''send'' else action_id k i (ranks ! ((j + 1) mod length ranks)) ''receive'')"

lemma ring_extent_action_ids:
  "extent_action_ids (concat (map (ring_extents k ranks chunk) [0..<n]))
     = map (\<lambda>((i, j), b). ring_end k ranks i j b) (List.product (List.product [0..<n] [0..<length ranks]) [True, False])"
proof -
  have "extent_action_ids (map (\<lambda>(i, j). ring_extent k ranks chunk i j) ps)
      = concat (map (\<lambda>p. map (\<lambda>b. ring_end k ranks (fst p) (snd p) b) [True, False]) ps)" for ps
    by (induction ps) (auto simp: extent_action_ids_def ring_end_def ring_extent_def Let_def)
  then show ?thesis unfolding ring_all_extents concat_product by (simp add: case_prod_unfold)
qed

lemma ring_extent_ends_distinct:
  assumes "distinct ranks"
  shows "distinct (extent_action_ids (concat (map (ring_extents k ranks chunk) [0..<n])))"
proof -
  have m: "Suc j mod length ranks < length ranks" if "j < length ranks" for j using that by (auto intro!: mod_less_divisor)
  have inj: "i = i' \<and> j = j' \<and> b = b'"
    if "ring_end k ranks i j b = ring_end k ranks i' j' b'" "j < length ranks" "j' < length ranks" for i i' j j' b b'
    using that assms mod_succ_inj [of j "length ranks" j'] m [OF that(2)] m [OF that(3)]
    by (auto simp: ring_end_def nth_eq_iff_index_eq split: if_splits)
  have "inj_on (\<lambda>((i, j), b). ring_end k ranks i j b) (({0..<n} \<times> {0..<length ranks}) \<times> UNIV)"
    by (rule inj_onI, clarify, frule inj) auto
  moreover have "{True, False} = UNIV" by auto
  ultimately show ?thesis by (simp add: ring_extent_action_ids distinct_map distinct_product)
qed

lemma ring_ends_are_actions:
  "set (extent_action_ids (concat (map (ring_extents k ranks chunk) [0..<n])))
     = pa_action_id ` set (concat (map (ring_actions k ranks chunk) [0..<n]))" (is "?l = ?r")
proof -
  have l: "x \<in> ?l \<longleftrightarrow> (\<exists>i < n. \<exists>j < length ranks. \<exists>b. x = ring_end k ranks i j b)" for x
    unfolding ring_extent_action_ids by (auto simp: image_iff) (metis (full_types) atLeastLessThan_iff le0)+
  have r: "x \<in> ?r \<longleftrightarrow> (\<exists>i < n. \<exists>j < length ranks. \<exists>b. x = pa_action_id (ring_action k ranks i j b))" for x
    unfolding ring_all_actions by (auto simp: image_iff) (metis (full_types) atLeastLessThan_iff le0)+
  have "\<exists>j' < length ranks. \<exists>b'. ring_end k ranks i j b = pa_action_id (ring_action k ranks i j' b')" if "j < length ranks" for i j b
  proof (cases b)
    case True
    then show ?thesis using that by (intro exI [of _ j] conjI exI [of _ True]) (simp_all add: ring_end_def ring_action_def)
  next
    case False
    moreover have "(j + 1) mod length ranks < length ranks" using that by (auto intro!: mod_less_divisor)
    ultimately show ?thesis by (intro exI [of _ "(j + 1) mod length ranks"] conjI exI [of _ False]) (simp_all add: ring_end_def ring_action_def)
  qed
  moreover have "\<exists>j' < length ranks. \<exists>b'. pa_action_id (ring_action k ranks i j b) = ring_end k ranks i j' b'" if "j < length ranks" for i j b
  proof (cases b)
    case True
    then show ?thesis using that by (intro exI [of _ j] conjI exI [of _ True]) (simp_all add: ring_end_def ring_action_def)
  next
    case False
    moreover have "(j + length ranks - 1) mod length ranks < length ranks" using that by (auto intro!: mod_less_divisor)
    ultimately show ?thesis using mod_pred_succ [OF that]
      by (intro exI [of _ "(j + length ranks - 1) mod length ranks"] conjI exI [of _ False]) (simp_all add: ring_end_def ring_action_def)
  qed
  ultimately show ?thesis using l r by (auto simp only: set_eq_iff)
qed

lemma ring_rounds_sorted: "sorted (map pe_round_index (concat (map (ring_extents k ranks chunk) [0..<n])))"
proof (induction n)
  case (Suc n)
  have "map pe_round_index (ring_extents k ranks chunk n) = replicate (length ranks) (int n)"
    by (simp add: ring_extents_alt ring_extent_def Let_def o_def map_replicate_const)
  moreover have "r \<le> int n" if "r \<in> set (map pe_round_index (concat (map (ring_extents k ranks chunk) [0..<n])))" for r
    using that by (auto simp: ring_extents_alt ring_extent_def Let_def)
  ultimately show ?case using Suc by (simp add: sorted_append)
qed simp

lemma ring_actions_fit:
  assumes "\<forall>r \<in> set ranks. 0 \<le> r"
  shows "list_all (action_fits ranks) (concat (map (ring_actions k ranks chunk) [0..<n]))"
  using assms by (auto simp: list_all_iff ring_actions_set action_fits_def ring_action_def)

lemma ring_extents_fit:
  assumes "\<forall>r \<in> set ranks. 0 \<le> r" "distinct ranks" "2 \<le> length ranks" "1 \<le> chunk"
  shows "list_all (extent_fits ranks n (concat (map (ring_actions k ranks chunk) [0..<n])))
           (concat (map (ring_extents k ranks chunk) [0..<n]))"
proof -
  have "extent_fits ranks n (concat (map (ring_actions k ranks chunk) [0..<n])) (ring_extent k ranks chunk i j)"
    if i: "i < n" and j: "j < length ranks" for i j
  proof -
    let ?as = "concat (map (ring_actions k ranks chunk) [0..<n])" and ?d = "(j + 1) mod length ranks"
    have d: "?d < length ranks" "?d \<noteq> j" using j mod_succ_neq [OF j assms(3)] by (auto intro!: mod_less_divisor)
    have in_as: "ring_action k ranks i m b \<in> set ?as" if "m < length ranks" for m b
      using that i by (auto simp: ring_actions_set intro!: bexI [of _ i])
    have "\<exists>a \<in> set ?as. pa_action_id a = action_id k i (ranks ! j) ''send'' \<and> pa_kind a = SEND \<and> pa_rank a = ranks ! j \<and>
        pa_extent_id a = extent_id k i j"
      using in_as [OF j, of True] by (rule rev_bexI) (simp add: ring_action_def)
    moreover have "\<exists>a \<in> set ?as. pa_action_id a = action_id k i (ranks ! ?d) ''receive'' \<and> pa_kind a = RECEIVE \<and>
        pa_rank a = ranks ! ?d \<and> pa_extent_id a = extent_id k i j"
      using in_as [OF d(1), of False] mod_succ_pred [OF j] by (intro rev_bexI [of "ring_action k ranks i ?d False"]) (simp_all add: ring_action_def)
    moreover have "ranks ! j \<noteq> ranks ! ?d" using assms(2) j d by (simp add: nth_eq_iff_index_eq)
    ultimately show ?thesis using i j d(1) assms(1,4)
      unfolding extent_fits_def ring_extent_def Let_def
      by (auto simp: extent_requests_def)
  qed
  then show ?thesis by (auto simp: list_all_iff ring_extents_alt)
qed

lemma ring_plan_accepted:
  assumes plan: "ring_plan digest k w tags = Inr p" and w: "validate_collective w = None" and k: "nonblank k"
    and tags: "distinct tags" "\<forall>t \<in> set tags. 0 \<le> t" and hex: "hex_digest digest"
  shows "validate_collective_plan digest p w = None"
proof -
  let ?n = "2 * (length (lw_ranks w) - 1)" let ?chunk = "max 1 (lw_payload_bytes w div int (length (lw_ranks w)))"
  have len: "2 \<le> length (lw_ranks w)" "length tags = ?n"
    and fin: "finish_plan digest k w (ring_rounds (channel_of w) tags)
      (concat (map (ring_actions k (lw_ranks w) ?chunk) [0..<?n])) (concat (map (ring_extents k (lw_ranks w) ?chunk) [0..<?n])) = Inr p"
    using plan by (simp_all add: ring_plan_def Let_def split: if_splits)
  have ranks: "distinct (lw_ranks w)" "\<forall>r \<in> set (lw_ranks w). 0 \<le> r"
    using w by (simp_all add: validate_collective_def Let_def)
  have "tags \<noteq> []" using len by auto
  then have "plan_rounds (ring_rounds (channel_of w) tags) = None"
    using tags channel_nonblank [OF w]
    by (simp add: plan_rounds_def ring_rounds_def enumerate_nth o_def case_prod_unfold nth_map nth_enumerate_eq map_nth)
  moreover have "length (ring_rounds (channel_of w) tags) = ?n" using len by (simp add: ring_rounds_def)
  ultimately show ?thesis
    using plan_accepted [OF fin w k _ ring_actions_fit [OF ranks(2)] ring_action_ids_distinct [OF ranks(1)]
      plan_dependencies_intro [OF ring_action_ids_distinct [OF ranks(1)] ring_deps] _ ring_extent_ids_distinct
      ring_extent_ends_distinct [OF ranks(1)] ring_rounds_sorted ring_ends_are_actions hex]
      ring_extents_fit [OF ranks(2,1) len(1), of ?chunk ?n k] by simp
qed

end
