(* ===== verification/Planner_Properties.thy ===== *)
theory Planner_Properties
  imports Collective_Plan_Properties
begin

text \<open>
  Pairwise plans and the planner of a whole graph: the pairwise plan built from a validated
  transfer table is accepted, the allocated tags are distinct and in range, and planning a
  valid graph of supported collectives always succeeds.
\<close>

subsection \<open>Request partitions\<close>

definition parts_of :: "(string \<times> int \<times> int \<times> int) list \<Rightarrow> int \<times> int \<Rightarrow> (string \<times> int) list" where
  "parts_of parts sd = map (\<lambda>(r, s, d, n). (r, n)) (filter (\<lambda>(r, s, d, n). (s, d) = sd) parts)"

lemma request_partitions_fold:
  "dict_get (fold (\<lambda>(r, s, d, n) by_pair. AList.update (s, d) (dict_get by_pair (s, d) [] @ [(r, n)]) by_pair) parts acc) sd []
     = dict_get acc sd [] @ parts_of parts sd"
proof (induction parts arbitrary: acc)
  case (Cons p parts)
  obtain r s d n where p: "p = (r, s, d, n)" by (cases p)
  show ?case by (simp add: p Cons.IH parts_of_def update_conv' split: option.splits)
qed (simp add: parts_of_def)

lemma request_partitions_get: "dict_get (request_partitions w) sd [] = parts_of (lw_request_pair_payload_bytes w) sd"
  by (simp add: request_partitions_def request_partitions_fold)

lemma parts_of_sum: "sum_list (map snd (parts_of parts sd)) = attributed parts sd"
  by (induction parts) (auto simp: parts_of_def attributed_def)

lemma parts_of_distinct:
  "distinct (map (\<lambda>(r, s, d, n). (r, s, d)) parts) \<Longrightarrow> distinct (map fst (parts_of parts sd))"
  by (induction parts) (auto simp: parts_of_def image_iff)

lemma parts_of_sorted:
  "sorted (map (\<lambda>(r, s, d, n). (r, s, d)) parts) \<Longrightarrow> sorted (map fst (parts_of parts sd))"
  by (induction parts) (auto simp: parts_of_def less_eq_prod_def order_le_less)

lemma parts_of_extent:
  assumes w: "validate_collective w = None" and x: "(s, d, n) \<in> set (pair_payloads w)"
    and e: "pe_request_payload_bytes e = parts_of (lw_request_pair_payload_bytes w) (s, d)" "pe_payload_bytes e = n"
  shows "extent_requests e = None"
proof -
  let ?parts = "lw_request_pair_payload_bytes w" and ?pairs = "lw_pair_payload_bytes w"
  let ?keys = "map (\<lambda>(r, s, d, n). (r, s, d)) ?parts"
  have keys: "distinct ?keys" "sort ?keys = ?keys" "distinct (map (\<lambda>(s, d, n). (s, d)) ?pairs)"
    and each: "\<forall>(r, s, d, n) \<in> set ?parts. nonblank r \<and> 1 \<le> n"
    and eq: "?parts \<noteq> [] \<Longrightarrow> set (attributed_pairs ?parts) = set (expected_pairs ?pairs)"
    using w by (auto simp: validate_collective_def Let_def pair_checks_def)
  have "sorted ?keys" using keys(2) by (metis sorted_sort)
  then have "sorted (map fst (parts_of ?parts (s, d)))" by (rule parts_of_sorted)
  moreover have "n = attributed ?parts (s, d)" if ne: "parts_of ?parts (s, d) \<noteq> []"
  proof -
    obtain r m where part: "(r, s, d, m) \<in> set ?parts" using ne by (fastforce simp: parts_of_def filter_empty_conv)
    then have "?parts \<noteq> []" by auto
    note sums = partition_sums [OF w this, of s d]
    have "?pairs \<noteq> []"
    proof
      assume "?pairs = []"
      then have "set (attributed_pairs ?parts) = {}" using eq [OF \<open>?parts \<noteq> []\<close>] by (simp add: expected_pairs_def)
      then have "map_of (attributed_pairs ?parts) (s, d) = None" by simp
      then show False using attributed_pairs_fold [of ?parts "[]" "(s, d)"] part by (force simp: attributed_pairs_def split: if_splits)
    qed
    then have "(s, d, n) \<in> set ?pairs" using x by (simp add: pair_payloads_def)
    then have "map_of (map (\<lambda>(s, d, n). ((s, d), n)) ?pairs) (s, d) = Some n"
      using keys(3) by (intro map_of_is_SomeI) (force simp: o_def case_prod_unfold)+
    then show ?thesis using sums by simp
  qed
  moreover have "nonblank r \<and> 1 \<le> m" if "(r, m) \<in> set (parts_of ?parts (s, d))" for r m
    using that each by (auto simp: parts_of_def)
  ultimately show ?thesis using parts_of_distinct [OF keys(1), of "(s, d)"]
    by (auto simp: extent_requests_def Let_def e parts_of_sum sort_key_id_if_sorted)
qed

subsection \<open>Pairwise plans\<close>

lemma pair_payloads_checked:
  assumes w: "validate_collective w = None" and x: "(s, d, n) \<in> set (pair_payloads w)"
  shows "s \<in> set (lw_ranks w)" "d \<in> set (lw_ranks w)" "s \<noteq> d" "1 \<le> n" "0 \<le> s" "0 \<le> d"
proof -
  have "\<forall>(s, d, n) \<in> set (lw_pair_payload_bytes w). s \<in> set (lw_ranks w) \<and> d \<in> set (lw_ranks w) \<and> s \<noteq> d \<and> 1 \<le> n"
    and ranks: "\<forall>r \<in> set (lw_ranks w). 0 \<le> r"
    using w by (auto simp: validate_collective_def Let_def pair_checks_def)
  then have "s \<in> set (lw_ranks w) \<and> d \<in> set (lw_ranks w) \<and> s \<noteq> d \<and> 1 \<le> n"
    using x by (auto simp: pair_payloads_def map_filter_def split: if_splits)
  then show "s \<in> set (lw_ranks w)" "d \<in> set (lw_ranks w)" "s \<noteq> d" "1 \<le> n" "0 \<le> s" "0 \<le> d" using ranks by auto
qed

abbreviation pairwise_extents :: "string \<Rightarrow> collective_work \<Rightarrow> plan_extent list" where
  "pairwise_extents k w \<equiv> map (\<lambda>(i, p). pairwise_extent k (request_partitions w) i p) (enumerate 0 (pair_payloads w))"

lemma pairwise_extents_alt:
  "pairwise_extents k w = map (\<lambda>i. pairwise_extent k (request_partitions w) i (pair_payloads w ! i)) [0..<length (pair_payloads w)]"
  by (simp add: enumerate_nth)

lemma pairwise_ids: "map pa_action_id (concat (map pairwise_actions xs)) = extent_action_ids xs"
  by (induction xs) (auto simp: pairwise_actions_def extent_action_ids_def)

lemma pairwise_ends_distinct: "distinct (extent_action_ids (pairwise_extents k w))"
proof -
  let ?f = "\<lambda>i b. extent_id k 0 i @ (if b then '':send'' else '':receive'')"
  have "extent_action_ids (map (\<lambda>i. pairwise_extent k ps i (q i)) is) = concat (map (\<lambda>i. map (?f i) [True, False]) is)" for ps q "is"
    by (induction "is") (auto simp: extent_action_ids_def pairwise_extent_def Let_def case_prod_unfold)
  then have *: "extent_action_ids (pairwise_extents k w) = map (\<lambda>(i, b). ?f i b) (List.product [0..<length (pair_payloads w)] [True, False])"
    unfolding pairwise_extents_alt concat_product by simp
  have "inj_on (\<lambda>(i, b). ?f i b) UNIV"
    by (auto simp: inj_on_def extent_id_def append_sep_inj nat_text_chars split: if_splits)
  then show ?thesis unfolding * by (auto simp: distinct_map distinct_product intro: inj_on_subset)
qed

lemma pairwise_extent_fits:
  assumes w: "validate_collective w = None" and e: "(s, d, n) \<in> set (pair_payloads w)"
    and x: "x = pairwise_extent k (request_partitions w) i (s, d, n)" and as: "set (pairwise_actions x) \<subseteq> set as"
  shows "extent_fits (lw_ranks w) 1 as x" and "list_all (action_fits (lw_ranks w)) (pairwise_actions x)"
proof -
  have "extent_requests x = None"
    by (rule parts_of_extent [OF w e]) (simp_all add: x pairwise_extent_def Let_def request_partitions_get)
  then show "extent_fits (lw_ranks w) 1 as x" using pair_payloads_checked [OF w e] as
    by (auto simp: extent_fits_def x pairwise_extent_def pairwise_actions_def Let_def intro: rev_bexI)
  show "list_all (action_fits (lw_ranks w)) (pairwise_actions x)" using pair_payloads_checked [OF w e]
    by (simp add: action_fits_def x pairwise_extent_def pairwise_actions_def Let_def)
qed

lemma pairwise_plan_accepted:
  assumes plan: "pairwise_plan digest k w tags = Inr p" and w: "validate_collective w = None" and k: "nonblank k"
    and tags: "\<forall>t \<in> set tags. 0 \<le> t" and hex: "hex_digest digest"
  shows "validate_collective_plan digest p w = None"
proof -
  let ?xs = "pairwise_extents k w" let ?as = "concat (map pairwise_actions ?xs)"
  obtain tag where tag: "tags = [tag]"
    and fin: "finish_plan digest k w [\<lparr>pr_round_index = 0, pr_tag = tag, pr_channel_id = channel_of w\<rparr>] ?as ?xs = Inr p"
    using plan by (auto simp: pairwise_plan_def Let_def split: if_splits list.splits)
  have mem: "\<exists>i s d n. x = pairwise_extent k (request_partitions w) i (s, d, n) \<and> (s, d, n) \<in> set (pair_payloads w)"
    if "x \<in> set ?xs" for x
    using that unfolding pairwise_extents_alt by (metis (no_types, lifting) imageE list.set_map nth_mem prod_cases3 atLeastLessThan_iff set_upt)
  have dist: "distinct (map pa_action_id ?as)" unfolding pairwise_ids by (rule pairwise_ends_distinct)
  have fit: "extent_fits (lw_ranks w) 1 ?as x \<and> list_all (action_fits (lw_ranks w)) (pairwise_actions x)" if x: "x \<in> set ?xs" for x
  proof -
    obtain i s d n where e: "x = pairwise_extent k (request_partitions w) i (s, d, n)" "(s, d, n) \<in> set (pair_payloads w)"
      using mem [OF x] by blast
    have "set (pairwise_actions x) \<subseteq> set ?as" using x by force
    then show ?thesis using pairwise_extent_fits [OF w e(2,1)] by blast
  qed
  have "plan_rounds [\<lparr>pr_round_index = 0, pr_tag = tag, pr_channel_id = channel_of w\<rparr>] = None"
    using tags tag channel_nonblank [OF w] by (simp add: plan_rounds_def)
  moreover have "list_all (action_fits (lw_ranks w)) ?as" using fit by (auto simp: list_all_iff)
  moreover have "plan_dependencies ?as = None"
    by (rule plan_dependencies_intro [OF dist]) (auto intro!: deps_ok_prior simp: pairwise_actions_def)
  moreover have "distinct (map pe_extent_id ?xs)"
    unfolding pairwise_extents_alt by (simp add: pairwise_extent_def Let_def case_prod_unfold o_def distinct_map inj_on_def)
  moreover have "map pe_round_index ?xs = replicate (length ?xs) 0"
    unfolding pairwise_extents_alt by (simp add: pairwise_extent_def Let_def case_prod_unfold o_def map_replicate_const)
  moreover have "set (extent_action_ids ?xs) = pa_action_id ` set ?as" unfolding pairwise_ids [symmetric] by simp
  ultimately show ?thesis using plan_accepted [OF fin w k _ _ dist _ _ _ pairwise_ends_distinct _ _ hex] fit
    by (simp add: list_all_iff)
qed

subsection \<open>Tags\<close>

definition supported :: "collective_work \<Rightarrow> bool" where
  "supported w \<longleftrightarrow> (ring_work w \<or> pairwise_table w) \<and> 2 \<le> length (lw_ranks w)"

definition tag_count :: "collective_work \<Rightarrow> nat" where
  "tag_count w = (if ring_work w then 2 * (length (lw_ranks w) - 1) else 1)"

lemma ring_not_pairwise: "pairwise_table w \<Longrightarrow> \<not> ring_work w"
  by (simp add: pairwise_table_def)

lemma upto_append: "i \<le> j \<Longrightarrow> j \<le> l \<Longrightarrow> [i..j - 1] @ [j..l - 1] = [i..l - (1::int)]"
  by (metis diff_add_cancel upto_split1 diff_ge_0_iff_ge zle_diff1_eq linorder_not_less append_Nil upto_empty diff_add_cancel order_le_less upto_split2)

lemma ring_tags_spec:
  "list_all (\<lambda>(k, w). supported w) ws \<Longrightarrow>
   \<exists>end tags. ring_tags next ws = Inr (end, tags, map fst (filter (\<lambda>(k, w). \<not> ring_work w) ws)) \<and>
     next \<le> end \<and> concat (map snd tags) = [next..end - 1] \<and>
     map fst tags = map fst (filter (\<lambda>(k, w). ring_work w) ws) \<and>
     (\<forall>(k, w) \<in> set ws. ring_work w \<longrightarrow> (\<exists>ts. (k, ts) \<in> set tags \<and> length ts = tag_count w)) \<and>
     end = next + int (sum_list (map (\<lambda>(k, w). if ring_work w then tag_count w else 0) ws))"
proof (induction ws arbitrary: "next")
  case (Cons x ws)
  obtain k w where x: "x = (k, w)" by (cases x)
  have w: "supported w" and ws: "list_all (\<lambda>(k, w). supported w) ws" using Cons.prems x by simp_all
  show ?case
  proof (cases "ring_work w")
    case True
    define n where "n = 2 * (int (length (lw_ranks w)) - 1)"
    have n: "0 < n" "n = int (tag_count w)" using w True by (auto simp: n_def supported_def tag_count_def)
    obtain "end" tags where IH: "ring_tags (next + n) ws = Inr (end, tags, map fst (filter (\<lambda>(k, w). \<not> ring_work w) ws))"
      "next + n \<le> end" "concat (map snd tags) = [next + n..end - 1]"
      "map fst tags = map fst (filter (\<lambda>(k, w). ring_work w) ws)"
      "\<forall>(k, w) \<in> set ws. ring_work w \<longrightarrow> (\<exists>ts. (k, ts) \<in> set tags \<and> length ts = tag_count w)"
      "end = next + n + int (sum_list (map (\<lambda>(k, w). if ring_work w then tag_count w else 0) ws))"
      using Cons.IH [OF ws, of "next + n"] by blast
    have app: "[next..next + n - 1] @ [next + n..end - 1] = [next..end - 1]" using n(1) IH(2) by (intro upto_append) simp_all
    have "ring_tags next (x # ws) = Inr (end, (k, [next..next + n - 1]) # tags, map fst (filter (\<lambda>(k, w). \<not> ring_work w) ws))"
      unfolding x ring_tags.simps Let_def n_def [symmetric] using n(1) True IH(1) by simp
    moreover have "length [next..next + n - 1] = tag_count w" using n(2) by simp
    ultimately show ?thesis using True n IH(2-6) app
      by (intro exI [of _ "end"] exI [of _ "(k, [next..next + n - 1]) # tags"]) (auto simp: x)
  next
    case False
    then have "pairwise_table w" using w by (auto simp: supported_def)
    then show ?thesis using Cons.IH [OF ws, of "next"] False by (auto simp: x)
  qed
qed simp

lemma dict_blocks_disjoint:
  assumes "distinct (concat (map snd r))" "(k, ts) \<in> set r" "(k', ts') \<in> set r" "k \<noteq> k'"
  shows "set ts \<inter> set ts' = {}"
  using assms by (induction r) (auto, force+)

lemma distinct_lookup_concat:
  assumes "distinct (concat (map snd r))" "distinct ks" "\<forall>k \<in> set ks. (k, f k) \<in> set r"
  shows "distinct (concat (map f ks))"
  using assms(2,3)
proof (induction ks)
  case (Cons k ks)
  have "distinct (f k)" using assms(1) Cons.prems(2) by (auto simp: distinct_concat_iff)
  moreover have "set (f k) \<inter> set (f k') = {}" if "k' \<in> set ks" for k'
    using that Cons.prems by (intro dict_blocks_disjoint [OF assms(1), of k _ k']) auto
  ultimately show ?case using Cons by auto
qed simp

lemma enumerate_tags: "concat (map snd (map (\<lambda>(i, k). (k, [next + int i])) (enumerate 0 ks))) = [next..next + int (length ks) - 1]"
proof (induction ks rule: rev_induct)
  case (snoc k ks)
  have "[next..next + int (length ks)] = [next..next + int (length ks) - 1] @ [next + int (length ks)]"
    by (rule upto_rec2) simp
  then show ?case using snoc by (simp add: enumerate_append_eq o_def case_prod_unfold)
qed simp

lemma enumerate_keys: "map fst (map (\<lambda>(i, k). (k, f i)) (enumerate 0 ks)) = ks"
  by (simp add: enumerate_nth o_def map_nth)

text \<open>The tags of supported collectives: one block per operation, all in one range.\<close>

definition tags_needed :: "execution_graph \<Rightarrow> nat" where
  "tags_needed g = sum_list (map (\<lambda>(k, w). tag_count w) (collective_operations (eg_operations g)))"

lemma collective_goal_tags_ok:
  assumes g: "validate_execution_graph digest g = None" "eg_collective_plans g = []" and base: "0 \<le> base_tag"
    and sup: "list_all (\<lambda>(k, w). supported w) (collective_operations (eg_operations g))"
    and room: "int (tags_needed g) \<le> control_goal_tag_offset"
  shows "\<exists>r. collective_goal_tags digest base_tag g = Inr r \<and> concat (map snd r) = [base_tag..base_tag + int (tags_needed g) - 1] \<and>
    (\<forall>(k, w) \<in> set (collective_operations (eg_operations g)). \<exists>ts. (k, ts) \<in> set r \<and> length ts = tag_count w) \<and>
    map fst r = map fst (filter (\<lambda>(k, w). ring_work w) (collective_operations (eg_operations g)))
      @ map fst (filter (\<lambda>(k, w). \<not> ring_work w) (collective_operations (eg_operations g)))"
proof -
  let ?ws = "collective_operations (eg_operations g)"
  let ?pw = "map fst (filter (\<lambda>(k, w). \<not> ring_work w) ?ws)"
  obtain "end" tags where spec: "ring_tags base_tag ?ws = Inr (end, tags, ?pw)" "base_tag \<le> end"
    "concat (map snd tags) = [base_tag..end - 1]" "map fst tags = map fst (filter (\<lambda>(k, w). ring_work w) ?ws)"
    "\<forall>(k, w) \<in> set ?ws. ring_work w \<longrightarrow> (\<exists>ts. (k, ts) \<in> set tags \<and> length ts = tag_count w)"
    "end = base_tag + int (sum_list (map (\<lambda>(k, w). if ring_work w then tag_count w else 0) ?ws))"
    using ring_tags_spec [OF sup, of base_tag] by blast
  let ?pairs = "map (\<lambda>(i, k). (k, [end + int i])) (enumerate 0 ?pw)"
  have "sum_list (map (\<lambda>(k, w). tag_count w) xs) = sum_list (map (\<lambda>(k, w). if ring_work w then tag_count w else 0) xs)
      + length (filter (\<lambda>(k, w). \<not> ring_work w) xs)" for xs :: "(string \<times> collective_work) list"
    by (induction xs) (auto simp: tag_count_def)
  then have total: "end + int (length ?pw) = base_tag + int (tags_needed g)" by (simp add: spec(6) tags_needed_def)
  have all: "concat (map snd (tags @ ?pairs)) = [base_tag..base_tag + int (tags_needed g) - 1]"
    using enumerate_tags [of "end" ?pw] spec(2,3) upto_append [of base_tag "end" "end + int (length ?pw)"] total by simp
  have pairs: "\<exists>ts. (k, ts) \<in> set ?pairs \<and> length ts = tag_count w" if kw: "(k, w) \<in> set ?ws" "\<not> ring_work w" for k w
  proof -
    have "k \<in> set ?pw" using kw by force
    then obtain i where "i < length ?pw" "?pw ! i = k" by (auto simp only: in_set_conv_nth)
    then have "(k, [end + int i]) \<in> set ?pairs" by (force simp: enumerate_nth image_iff)
    moreover have "length [end + int i] = tag_count w" using kw(2) by (auto simp: tag_count_def)
    ultimately show ?thesis by blast
  qed
  have "\<not> list_ex (\<lambda>t. base_tag + control_goal_tag_offset \<le> t) (concat (map snd (tags @ ?pairs)))"
    unfolding all using room by (auto simp: list_ex_iff)
  then have "collective_goal_tags digest base_tag g = Inr (tags @ ?pairs)"
    using g base unfolding collective_goal_tags_def spec(1) Let_def by simp
  moreover have "\<forall>(k, w) \<in> set ?ws. \<exists>ts. (k, ts) \<in> set (tags @ ?pairs) \<and> length ts = tag_count w"
    using spec(5) pairs by fastforce
  moreover have "map fst (tags @ ?pairs) = map fst (filter (\<lambda>(k, w). ring_work w) ?ws) @ ?pw"
    using enumerate_keys [of "\<lambda>i. [end + int i]" ?pw] by (simp only: map_append spec(4))
  ultimately show ?thesis using all by blast
qed

subsection \<open>Planning a graph\<close>

lemma finish_plan_fields:
  assumes "finish_plan digest k w rounds as xs = Inr p"
  shows "cp_operation_id p = k" "cp_rounds p = rounds"
  using assms by (auto simp: finish_plan_def Let_def split: option.splits)

lemma plan_one_ok:
  assumes w: "validate_collective w = None" "nonblank k" "supported w"
    and ts: "map_of tags k = Some ts" "length ts = tag_count w" "distinct ts" "\<forall>t \<in> set ts. 0 \<le> t" and hex: "hex_digest digest"
  shows "\<exists>p. plan_one digest tags (k, w) = Inr p \<and> validate_collective_plan digest p w = None \<and> cp_operation_id p = k
    \<and> map pr_tag (cp_rounds p) = ts"
proof (cases "ring_work w")
  case True
  then have "\<exists>p. ring_plan digest k w ts = Inr p" "plan_one digest tags (k, w) = ring_plan digest k w ts"
    using w(3) ts(1,2) by (auto simp: ring_plan_def plan_one_def Let_def supported_def tag_count_def finish_plan_def)
  then obtain p where p: "ring_plan digest k w ts = Inr p" "plan_one digest tags (k, w) = Inr p" by auto
  then have "cp_operation_id p = k" "cp_rounds p = ring_rounds (channel_of w) ts"
    by (auto simp: ring_plan_def Let_def split: if_splits dest: finish_plan_fields)
  then show ?thesis using p ring_plan_accepted [OF p(1) w(1,2) ts(3,4) hex]
    by (simp add: ring_rounds_def o_def case_prod_unfold)
next
  case False
  then have pw: "pairwise_table w" using w(3) by (auto simp: supported_def)
  then have "\<exists>p. pairwise_plan digest k w ts = Inr p" "plan_one digest tags (k, w) = pairwise_plan digest k w ts"
    using w(3) ts(1,2) False
    by (auto simp: pairwise_plan_def plan_one_def Let_def supported_def tag_count_def finish_plan_def pairwise_table_def length_Suc_conv
        split: if_splits)
  then obtain p where p: "pairwise_plan digest k w ts = Inr p" "plan_one digest tags (k, w) = Inr p" by auto
  then have "cp_operation_id p = k" "map pr_tag (cp_rounds p) = ts"
    by (auto simp: pairwise_plan_def Let_def split: if_splits list.splits dest: finish_plan_fields)
  then show ?thesis using p pairwise_plan_accepted [OF p(1) w(1,2) ts(4) hex] by simp
qed

lemma collect_ok:
  "(\<And>x. x \<in> set xs \<Longrightarrow> \<exists>y. f x = Inr y \<and> P x y) \<Longrightarrow> \<exists>ys. collect f xs = Inr ys \<and> list_all2 P xs ys"
proof (induction xs)
  case (Cons x xs)
  then obtain y ys where "f x = Inr y" "P x y" "collect f xs = Inr ys" "list_all2 P xs ys" by (metis list.set_intros)
  then show ?case by simp
qed simp

lemma check_operations_facts:
  "check_operations seen ops = None \<Longrightarrow> op \<in> set ops \<Longrightarrow> \<exists>seen. operation_checks seen op = None"
  by (induction ops arbitrary: seen) auto

lemma valid_collectives:
  assumes "validate_execution_graph digest g = None"
  shows "distinct (map fst (collective_operations (eg_operations g)))"
    and "(k, w) \<in> set (collective_operations (eg_operations g)) \<Longrightarrow> nonblank k \<and> validate_collective w = None"
proof -
  have ops: "check_operations [] (eg_operations g) = None"
    using assms by (simp add: validate_execution_graph_def graph_structure_def Let_def)
  have "map fst (collective_operations ops)
      = map op_operation_id (filter (\<lambda>op. case op_work op of CollectiveWork w \<Rightarrow> True | _ \<Rightarrow> False) ops)" for ops
    by (induction ops) (auto simp: collective_operations_def map_filter_simps split: work_payload.splits)
  then show "distinct (map fst (collective_operations (eg_operations g)))"
    using check_operations_distinct [OF ops] by (simp add: distinct_map_filter)
  assume "(k, w) \<in> set (collective_operations (eg_operations g))"
  then obtain op where op: "op \<in> set (eg_operations g)" "op_work op = CollectiveWork w" "op_operation_id op = k"
    by (auto simp: collective_operations_def map_filter_def split: work_payload.splits)
  from check_operations_facts [OF ops op(1)] obtain seen where "operation_checks seen op = None" ..
  then show "nonblank k \<and> validate_collective w = None" using op by (auto simp: operation_checks_def)
qed

text \<open>What the planner makes of one operation, given the tags of all.\<close>

definition planned :: "(json \<Rightarrow> string) \<Rightarrow> (string, int list) dict \<Rightarrow> string \<times> collective_work \<Rightarrow> collective_plan \<Rightarrow> bool" where
  "planned digest r = (\<lambda>(k, w) p.
     validate_collective_plan digest p w = None \<and> cp_operation_id p = k \<and> map pr_tag (cp_rounds p) = the (map_of r k))"

lemma plans_accepted:
  assumes plans: "list_all2 (planned digest r) (collective_operations (eg_operations g)) plans"
    and keys: "distinct (map fst (collective_operations (eg_operations g)))" and tags: "distinct (concat (map snd r))"
    and r: "\<forall>k \<in> set (map fst (collective_operations (eg_operations g))). (k, the (map_of r k)) \<in> set r"
  shows "check_plans digest (g\<lparr>eg_collective_plans := plans\<rparr>) = None"
proof -
  let ?ws = "collective_operations (eg_operations g)"
  have "map (\<lambda>p. map pr_tag (cp_rounds p)) plans = map (\<lambda>k. the (map_of r k)) (map fst ?ws)"
    using plans by (induction rule: list_all2_induct) (auto simp: planned_def)
  then have "distinct (concat (map (\<lambda>p. map pr_tag (cp_rounds p)) plans))"
    using distinct_lookup_concat [OF tags keys r] by simp
  moreover have "\<forall>(p, k, w) \<in> set (zip plans ?ws). cp_operation_id p = k \<and> validate_collective_plan digest p w = None"
    using plans by (induction rule: list_all2_induct) (auto simp: planned_def)
  ultimately show ?thesis using list_all2_lengthD [OF plans] by (auto simp: check_plans_def Let_def)
qed

text \<open>
  C31. Planning succeeds: a valid graph of ring all-reduce and pairwise all-to-allv operations
  over at least two ranks each, whose rounds need no more tags than the control tag range
  leaves, is planned without error, and the graph with one plan per collective, in operation
  order, passes the whole validation.  The hypothesis on the digest function is the form of a
  SHA-256 hex digest.
\<close>

theorem planning_succeeds:
  assumes hex: "hex_digest digest" and g: "validate_execution_graph digest g = None" "eg_collective_plans g = []"
    and base: "0 \<le> base_tag" and sup: "list_all (\<lambda>(k, w). supported w) (collective_operations (eg_operations g))"
    and room: "int (tags_needed g) \<le> control_goal_tag_offset"
  shows "\<exists>plans. plan_execution_graph_collectives digest base_tag g = Inr (g\<lparr>eg_collective_plans := plans\<rparr>) \<and>
    validate_execution_graph digest (g\<lparr>eg_collective_plans := plans\<rparr>) = None \<and>
    map cp_operation_id plans = map fst (collective_operations (eg_operations g))"
proof -
  let ?ws = "collective_operations (eg_operations g)"
  obtain r where r: "collective_goal_tags digest base_tag g = Inr r" "concat (map snd r) = [base_tag..base_tag + int (tags_needed g) - 1]"
    "\<forall>(k, w) \<in> set ?ws. \<exists>ts. (k, ts) \<in> set r \<and> length ts = tag_count w"
    "map fst r = map fst (filter (\<lambda>(k, w). ring_work w) ?ws) @ map fst (filter (\<lambda>(k, w). \<not> ring_work w) ?ws)"
    using collective_goal_tags_ok [OF g base sup room] by blast
  have keys: "distinct (map fst ?ws)" by (rule valid_collectives(1) [OF g(1)])
  have rkeys: "distinct (map fst r)"
    using keys unfolding r(4) by (auto simp: distinct_map_filter inj_on_def distinct_map)
  have tags: "distinct (concat (map snd r))" "\<forall>t \<in> set (concat (map snd r)). 0 \<le> t" unfolding r(2) using base by simp_all
  have "\<exists>p. plan_one digest r x = Inr p \<and> planned digest r x p" if x: "x \<in> set ?ws" for x
  proof -
    obtain k w where kw: "x = (k, w)" by (cases x)
    obtain ts where ts: "(k, ts) \<in> set r" "length ts = tag_count w" using r(3) x kw by auto
    have m: "map_of r k = Some ts" using rkeys ts(1) by simp
    have "ts \<in> set (map snd r)" using ts(1) by force
    then have "distinct ts" "\<forall>t \<in> set ts. 0 \<le> t" using tags by (auto simp: distinct_concat_iff)
    then show ?thesis using plan_one_ok [of w k r ts digest] m ts(2) hex valid_collectives(2) [OF g(1), of k w] x sup
      by (auto simp: kw list_all_iff planned_def)
  qed
  then obtain plans where plans: "collect (plan_one digest r) ?ws = Inr plans" "list_all2 (planned digest r) ?ws plans" 
    using collect_ok [of ?ws "plan_one digest r" "planned digest r"] by blast
  have ids: "map cp_operation_id plans = map fst ?ws"
    using plans(2) by (induction rule: list_all2_induct) (auto simp: planned_def)
  have "check_plans digest (g\<lparr>eg_collective_plans := plans\<rparr>) = None"
    using plans_accepted [OF plans(2) keys tags(1)] r(3) rkeys by fastforce
  then have "validate_execution_graph digest (g\<lparr>eg_collective_plans := plans\<rparr>) = None"
    using g by (simp add: validate_execution_graph_def graph_structure_def Let_def acyclic_check_def edge_pairs_def
      effective_dependency_edges_unchecked_def)
  then show ?thesis using g r(1) plans(1) ids
    by (intro exI [of _ plans]) (simp add: plan_execution_graph_collectives_def Let_def)
qed

definition planner_demo :: execution_graph where
  "planner_demo = demo_graph\<lparr>
     eg_operations := [demo_op ''r'' [] (CollectiveWork \<lparr>lw_collective = ''all-reduce'', lw_ranks = [0, 2, 1],
         lw_payload_bytes = 7, lw_algorithm_hint = Some ''ring'', lw_channel_hint = None, lw_pair_payload_bytes = [],
         lw_request_pair_payload_bytes = []\<rparr>),
       demo_op ''c'' [''r''] (CollectiveWork demo_work)],
     eg_collective_plans := []\<rparr>"

theorem planning_succeeds_witness:
  "\<exists>plans. plan_execution_graph_collectives demo_digest 1000 planner_demo = Inr (planner_demo\<lparr>eg_collective_plans := plans\<rparr>) \<and>
     validate_execution_graph demo_digest (planner_demo\<lparr>eg_collective_plans := plans\<rparr>) = None \<and>
     map cp_operation_id plans = [''r'', ''c'']"
proof -
  have "hex_digest demo_digest" by (simp add: hex_digest_def demo_digest_def list_all_iff)
  moreover have "validate_execution_graph demo_digest planner_demo = None" "eg_collective_plans planner_demo = []"
    "list_all (\<lambda>(k, w). supported w) (collective_operations (eg_operations planner_demo))"
    "int (tags_needed planner_demo) \<le> control_goal_tag_offset"
    "map fst (collective_operations (eg_operations planner_demo)) = [''r'', ''c'']"
    by code_simp+
  ultimately show ?thesis using planning_succeeds [of demo_digest planner_demo 1000] by simp
qed

end
