(* ===== verification/Goal.thy ===== *)
theory Goal
  imports Collective_Plan
begin

text \<open>
  The GOAL trace writer (\<open>simllm/goal/emitter.py\<close>): labelled operations and dependencies per
  rank, the structured projection of messages, and the text form.  A method of a rank program
  or of a trace takes the object and returns the state it is left in with the exception or the
  value, as everywhere in the development; \<open>gbind\<close> and \<open>fold_emit\<close> sequence such calls, the
  loop carrying its local variables along.
\<close>

datatype goal_error =
    BlankField | BelowMinimum | BadScope | BadOrigin | RankMissing | RankForbidden | EdgeOwner | EdgesMissing
  | EdgesForbidden | BadRelation | EqualRanks | RequestTwice | RequestOrder | OwnerMissing | PartitionTotal
  | OperationLabel | PredecessorLabel | RankIndex | SourceOutside | DestinationOutside | SendLabel | ReceiveLabel
  | NoRankCount | RingSize | FrontierOwner | KeyMissing | RequestPairs | GroupRanks | NoMessages | OutsideGroup
  | SelfPair | PayloadSign

subsection \<open>Data\<close>

record goal_operation =
  go_rank :: int
  go_label :: string
  go_text :: string
  go_operation_id :: "string option"

datatype goal_dependency_kind = EXECUTION_GRAPH | COLLECTIVE_INTERNAL

record goal_graph_edge =
  gg_predecessor_id :: string
  gg_operation_id :: string
  gg_scope :: string
  gg_origin :: string
  gg_participant_rank :: "int option"

record goal_provenance =
  gp_kind :: goal_dependency_kind
  gp_operation_id :: string
  gp_graph_edges :: "goal_graph_edge list"

record goal_dependency =
  gd_rank :: int
  gd_operation_label :: string
  gd_predecessor_label :: string
  gd_relation :: string
  gd_provenance :: "goal_provenance option"

record goal_message =
  gm_operation_id :: "string option"
  gm_source_rank :: int
  gm_destination_rank :: int
  gm_payload_bytes :: int
  gm_tag :: int
  gm_send_label :: string
  gm_receive_label :: string
  gm_request_payload_bytes :: "(string \<times> int) list"

record rank_program =
  rp_rank :: int
  rp_ops :: "goal_operation list"
  rp_deps :: "goal_dependency list"

record goal_trace =
  gt_num_ranks :: int
  gt_ranks :: "rank_program list"
  gt_messages :: "goal_message list"

subsection \<open>Construction checks\<close>

definition goal_integer :: "int \<Rightarrow> int \<Rightarrow> goal_error option" where
  "goal_integer minimum v = guard (minimum \<le> v) BelowMinimum"

definition goal_text :: "string \<Rightarrow> goal_error option" where
  "goal_text s = guard (nonblank s) BlankField"

definition check_goal_edge :: "goal_graph_edge \<Rightarrow> goal_error option" where
  "check_goal_edge e =
     first_err
       [goal_text (gg_predecessor_id e), goal_text (gg_operation_id e),
        guard (gg_scope e \<in> {''whole-operation'', ''participant-local''}) BadScope,
        guard (gg_origin e \<in> {''explicit'', ''logical-queue-fifo''}) BadOrigin,
        (if gg_scope e = ''participant-local'' then
           (case gg_participant_rank e of None \<Rightarrow> Some RankMissing | Some r \<Rightarrow> goal_integer 0 r)
         else guard (gg_participant_rank e = None) RankForbidden)]"

definition check_goal_provenance :: "goal_provenance \<Rightarrow> goal_error option" where
  "check_goal_provenance p =
     first_err
       [goal_text (gp_operation_id p),
        first_err (map (\<lambda>e. guard (gg_operation_id e = gp_operation_id p) EdgeOwner) (gp_graph_edges p)),
        guard (gp_kind p = EXECUTION_GRAPH \<longrightarrow> gp_graph_edges p \<noteq> []) EdgesMissing,
        guard (gp_kind p = COLLECTIVE_INTERNAL \<longrightarrow> gp_graph_edges p = []) EdgesForbidden]"

definition check_goal_dependency :: "goal_dependency \<Rightarrow> goal_error option" where
  "check_goal_dependency d =
     first_err
       [goal_integer 0 (gd_rank d), goal_text (gd_operation_label d), goal_text (gd_predecessor_label d),
        guard (gd_relation d \<in> {''requires'', ''irequires''}) BadRelation]"

definition dependency_render :: "goal_dependency \<Rightarrow> string" where
  "dependency_render d = gd_operation_label d @ '' '' @ gd_relation d @ '' '' @ gd_predecessor_label d"

definition check_goal_message :: "goal_message \<Rightarrow> goal_error option" where
  "check_goal_message m =
     (let parts = gm_request_payload_bytes m; ids = map fst parts
      in first_err
        [(case gm_operation_id m of None \<Rightarrow> None | Some k \<Rightarrow> goal_text k),
         goal_integer 0 (gm_source_rank m), goal_integer 0 (gm_destination_rank m),
         guard (gm_source_rank m \<noteq> gm_destination_rank m) EqualRanks,
         goal_integer 1 (gm_payload_bytes m), goal_integer 0 (gm_tag m),
         goal_text (gm_send_label m), goal_text (gm_receive_label m),
         first_err (map (\<lambda>(r, n). first_err [goal_text r, goal_integer 1 n]) parts),
         guard (distinct ids) RequestTwice, guard (sort ids = ids) RequestOrder,
         (if parts = [] then None
          else first_err [guard (gm_operation_id m \<noteq> None) OwnerMissing,
            guard (sum_list (map snd parts) = gm_payload_bytes m) PartitionTotal])])"

definition internal_provenance :: "string \<Rightarrow> goal_provenance" where
  "internal_provenance k = \<lparr>gp_kind = COLLECTIVE_INTERNAL, gp_operation_id = k, gp_graph_edges = []\<rparr>"

subsection \<open>Rank programs\<close>

type_synonym 'a rank_step = "rank_program \<Rightarrow> rank_program \<times> (goal_error + 'a)"

definition op_label :: "int \<Rightarrow> nat \<Rightarrow> string" where
  "op_label r n = CHR ''r'' # int_text r @ ''op'' @ nat_text n"

definition rp_add :: "string \<Rightarrow> string option \<Rightarrow> string rank_step" where
  "rp_add txt operation_id p =
     (case (case operation_id of None \<Rightarrow> None | Some k \<Rightarrow> goal_text k) of
        Some e \<Rightarrow> (p, Inl e)
      | None \<Rightarrow>
          (let label = op_label (rp_rank p) (length (rp_ops p))
           in (p\<lparr>rp_ops := rp_ops p @ [\<lparr>go_rank = rp_rank p, go_label = label, go_text = txt,
                                       go_operation_id = operation_id\<rparr>]\<rparr>, Inr label)))"

definition clause :: "string \<Rightarrow> int option \<Rightarrow> string" where
  "clause name v = (case v of None \<Rightarrow> [] | Some n \<Rightarrow> '' '' @ name @ '' '' @ int_text n)"

definition calc_text :: "int \<Rightarrow> int option \<Rightarrow> string" where
  "calc_text cost cpu = ''calc '' @ int_text cost @ clause ''cpu'' cpu"

definition send_text :: "int \<Rightarrow> int \<Rightarrow> int \<Rightarrow> int option \<Rightarrow> string" where
  "send_text size_bytes destination tag nic =
     ''send '' @ int_text size_bytes @ ''b to '' @ int_text destination @ '' tag '' @ int_text tag @ clause ''nic'' nic"

definition recv_text :: "int \<Rightarrow> int \<Rightarrow> int \<Rightarrow> int option \<Rightarrow> string" where
  "recv_text size_bytes source tag nic =
     ''recv '' @ int_text size_bytes @ ''b from '' @ int_text source @ '' tag '' @ int_text tag @ clause ''nic'' nic"

definition calc :: "int \<Rightarrow> int option \<Rightarrow> string option \<Rightarrow> string rank_step" where
  "calc cost cpu operation_id = rp_add (calc_text cost cpu) operation_id"

definition send :: "int \<Rightarrow> int \<Rightarrow> int \<Rightarrow> int option \<Rightarrow> string option \<Rightarrow> string rank_step" where
  "send size_bytes destination tag nic operation_id = rp_add (send_text size_bytes destination tag nic) operation_id"

definition recv :: "int \<Rightarrow> int \<Rightarrow> int \<Rightarrow> int option \<Rightarrow> string option \<Rightarrow> string rank_step" where
  "recv size_bytes source tag nic operation_id = rp_add (recv_text size_bytes source tag nic) operation_id"

definition record_dependency :: "string \<Rightarrow> string \<Rightarrow> string \<Rightarrow> goal_provenance option \<Rightarrow> unit rank_step" where
  "record_dependency op after relation provenance p =
     (let labels = map go_label (rp_ops p);
          d = \<lparr>gd_rank = rp_rank p, gd_operation_label = op, gd_predecessor_label = after, gd_relation = relation,
               gd_provenance = provenance\<rparr>
      in case first_err [guard (op \<in> set labels) OperationLabel, guard (after \<in> set labels) PredecessorLabel,
                         check_goal_dependency d] of
           Some e \<Rightarrow> (p, Inl e)
         | None \<Rightarrow> (p\<lparr>rp_deps := rp_deps p @ [d]\<rparr>, Inr ()))"

definition requires :: "string \<Rightarrow> string \<Rightarrow> goal_provenance option \<Rightarrow> unit rank_step" where
  "requires op after provenance = record_dependency op after ''requires'' provenance"

definition irequires :: "string \<Rightarrow> string \<Rightarrow> goal_provenance option \<Rightarrow> unit rank_step" where
  "irequires op after provenance = record_dependency op after ''irequires'' provenance"

fun join_lines :: "string list \<Rightarrow> string" where
  "join_lines [] = []"
| "join_lines [x] = x"
| "join_lines (x # y # xs) = x @ CHR 0x0A # join_lines (y # xs)"

definition rank_render :: "rank_program \<Rightarrow> string" where
  "rank_render p =
     join_lines ([''rank '' @ int_text (rp_rank p) @ '' {''] @ map (\<lambda>op. go_label op @ '': '' @ go_text op) (rp_ops p)
       @ map dependency_render (rp_deps p) @ [''}''])"

subsection \<open>Traces\<close>

type_synonym 'a emit = "goal_trace \<Rightarrow> goal_trace \<times> (goal_error + 'a)"

definition new_trace :: "int \<Rightarrow> goal_error + goal_trace" where
  "new_trace num_ranks =
     (if num_ranks < 1 then Inl NoRankCount
      else Inr \<lparr>gt_num_ranks = num_ranks,
                gt_ranks = map (\<lambda>r. \<lparr>rp_rank = r, rp_ops = [], rp_deps = []\<rparr>) [0..num_ranks - 1], gt_messages = []\<rparr>)"

text \<open>Python's list index: a negative one counts from the end.\<close>

definition list_index :: "int \<Rightarrow> nat \<Rightarrow> nat option" where
  "list_index r n =
     (if 0 \<le> r \<and> r < int n then Some (nat r)
      else if r < 0 \<and> - int n \<le> r then Some (nat (int n + r))
      else None)"

definition on_rank :: "int \<Rightarrow> 'a rank_step \<Rightarrow> 'a emit" where
  "on_rank r step t =
     (case list_index r (length (gt_ranks t)) of
        None \<Rightarrow> (t, Inl RankIndex)
      | Some i \<Rightarrow> (case step (gt_ranks t ! i) of (p, res) \<Rightarrow> (t\<lparr>gt_ranks := (gt_ranks t)[i := p]\<rparr>, res)))"

definition dependencies :: "goal_trace \<Rightarrow> goal_dependency list" where
  "dependencies t = concat (map rp_deps (gt_ranks t))"

definition operations :: "goal_trace \<Rightarrow> goal_operation list" where
  "operations t = concat (map rp_ops (gt_ranks t))"

definition labels_of :: "goal_trace \<Rightarrow> int \<Rightarrow> string list" where
  "labels_of t r = map go_label (rp_ops (gt_ranks t ! nat r))"

text \<open>Constructing a message and attaching it.\<close>

definition record_message :: "goal_message \<Rightarrow> unit emit" where
  "record_message m t =
     (case first_err
        [check_goal_message m,
         guard (gm_source_rank m < gt_num_ranks t) SourceOutside,
         guard (gm_destination_rank m < gt_num_ranks t) DestinationOutside,
         guard (gm_send_label m \<in> set (labels_of t (gm_source_rank m))) SendLabel,
         guard (gm_receive_label m \<in> set (labels_of t (gm_destination_rank m))) ReceiveLabel] of
        Some e \<Rightarrow> (t, Inl e)
      | None \<Rightarrow> (t\<lparr>gt_messages := gt_messages t @ [m]\<rparr>, Inr ()))"

definition trace_render :: "goal_trace \<Rightarrow> string" where
  "trace_render t = join_lines ((''num_ranks '' @ int_text (gt_num_ranks t)) # map rank_render (gt_ranks t)) @ [CHR 0x0A]"

subsection \<open>Sequencing\<close>

definition gbind :: "'a emit \<Rightarrow> ('a \<Rightarrow> 'b emit) \<Rightarrow> 'b emit" where
  "gbind m f t = (case m t of (t', Inl e) \<Rightarrow> (t', Inl e) | (t', Inr a) \<Rightarrow> f a t')"

definition greturn :: "'a \<Rightarrow> 'a emit" where
  "greturn a t = (t, Inr a)"

definition gfail :: "goal_error \<Rightarrow> 'a emit" where
  "gfail e t = (t, Inl e)"

fun fold_emit :: "('x \<Rightarrow> 's \<Rightarrow> 's emit) \<Rightarrow> 'x list \<Rightarrow> 's \<Rightarrow> 's emit" where
  "fold_emit f [] s = greturn s"
| "fold_emit f (x # xs) s = gbind (f x s) (fold_emit f xs)"

text \<open>\<open>d[k]\<close> of a local dictionary, and a constructed provenance.\<close>

definition lookup :: "('k, 'v) dict \<Rightarrow> 'k \<Rightarrow> 'v emit" where
  "lookup d k = (case map_of d k of None \<Rightarrow> gfail KeyMissing | Some v \<Rightarrow> greturn v)"

definition internal_of :: "string \<Rightarrow> goal_provenance emit" where
  "internal_of k = (case check_goal_provenance (internal_provenance k) of
     Some e \<Rightarrow> gfail e | None \<Rightarrow> greturn (internal_provenance k))"

end
