(* ===== verification/Patterns.thy ===== *)
theory Patterns
  imports Goal
begin

text \<open>
  Communication patterns as GOAL fragments (\<open>simllm/traffic/patterns.py\<close>) and the renderer of
  explicit plans (\<open>render_collective_plan\<close> of \<open>simllm/traffic/collective_plan.py\<close>).  Each
  appends operations to the trace and returns the frontier: the label per rank that a later
  phase waits for.  The frontier earlier the phase and its provenance are the dictionaries
  \<open>after\<close> and \<open>prov\<close>; an absent Python dictionary is the empty one, which the code treats
  alike.
\<close>

type_synonym frontier = "(int, string) dict"
type_synonym provenances = "(int, goal_provenance) dict"

definition chain :: "int \<Rightarrow> string \<Rightarrow> frontier \<Rightarrow> provenances \<Rightarrow> unit emit" where
  "chain r label after prov =
     (case map_of after r of
        None \<Rightarrow> greturn ()
      | Some earlier \<Rightarrow> on_rank r (requires label earlier (map_of prov r)))"

subsection \<open>Scatter, gather and broadcast\<close>

definition scatter :: "int \<Rightarrow> int list \<Rightarrow> int \<Rightarrow> int \<Rightarrow> frontier \<Rightarrow> frontier emit" where
  "scatter root_rank workers size_bytes tag after =
     fold_emit (\<lambda>w finished.
       gbind (on_rank root_rank (send size_bytes w tag None None)) (\<lambda>tx.
       gbind (chain root_rank tx after []) (\<lambda>_.
       gbind (on_rank w (recv size_bytes root_rank tag None None)) (\<lambda>rx.
       gbind (chain w rx after []) (\<lambda>_.
         greturn (AList.update root_rank tx (AList.update w rx finished))))))) workers []"

definition gather :: "int \<Rightarrow> int list \<Rightarrow> int \<Rightarrow> int \<Rightarrow> frontier \<Rightarrow> frontier emit" where
  "gather root_rank workers size_bytes tag after =
     gbind (fold_emit (\<lambda>w (finished, last).
       gbind (on_rank w (send size_bytes root_rank tag None None)) (\<lambda>tx.
       gbind (chain w tx after []) (\<lambda>_.
       gbind (on_rank root_rank (recv size_bytes w tag None None)) (\<lambda>rx.
       gbind (chain root_rank rx after []) (\<lambda>_.
         greturn (AList.update w tx finished, Some rx)))))) workers ([], None))
       (\<lambda>(finished, last). greturn (case last of None \<Rightarrow> finished | Some rx \<Rightarrow> AList.update root_rank rx finished))"

definition broadcast_edge :: "int list \<Rightarrow> nat \<Rightarrow> int \<Rightarrow> int \<Rightarrow> frontier \<Rightarrow> nat \<Rightarrow> frontier \<Rightarrow> frontier emit" where
  "broadcast_edge order holders size_bytes tag after i finished =
     (let src = order ! i; dst = order ! (i + holders)
      in gbind (on_rank src (send size_bytes dst tag None None)) (\<lambda>tx.
         gbind (case map_of finished src of None \<Rightarrow> greturn ()
                | Some earlier \<Rightarrow> on_rank src (requires tx earlier None)) (\<lambda>_.
         gbind (on_rank dst (recv size_bytes src tag None None)) (\<lambda>rx.
         gbind (case map_of after dst of None \<Rightarrow> greturn ()
                | Some earlier \<Rightarrow> on_rank dst (requires rx earlier None)) (\<lambda>_.
           greturn (AList.update dst rx (AList.update src tx finished)))))))"

text \<open>The number of holders doubles every round, starting from one: it is \<open>2 ^ k\<close> in round \<open>k\<close>.\<close>

function broadcast_rounds :: "int list \<Rightarrow> int \<Rightarrow> int \<Rightarrow> frontier \<Rightarrow> nat \<Rightarrow> frontier \<Rightarrow> frontier emit" where
  "broadcast_rounds order size_bytes tag after k finished =
     (let holders = 2 ^ k
      in if holders < length order then
           gbind (fold_emit (broadcast_edge order holders size_bytes tag after)
                    [0..<min holders (length order - holders)] finished)
             (broadcast_rounds order size_bytes tag after (Suc k))
         else greturn finished)"
  by pat_completeness auto
termination
proof (relation "measure (\<lambda>(order, size_bytes, tag, after, k, finished). length order - 2 ^ k)", goal_cases)
  case (2 order size_bytes tag after k finished holders x)
  then have "(2::nat) ^ k < length order" by simp
  then show ?case by (auto intro!: diff_less_mono2)
qed simp

definition binomial_broadcast :: "int \<Rightarrow> int list \<Rightarrow> int \<Rightarrow> int \<Rightarrow> frontier \<Rightarrow> frontier emit" where
  "binomial_broadcast root_rank ranks size_bytes tag after =
     (let order = root_rank # filter (\<lambda>r. r \<noteq> root_rank) ranks;
          finished = (case map_of after root_rank of None \<Rightarrow> [] | Some earlier \<Rightarrow> [(root_rank, earlier)])
      in broadcast_rounds order size_bytes tag after 0 finished)"

subsection \<open>Ring all-reduce\<close>

definition ring_labels :: "int list \<Rightarrow> int \<Rightarrow> int \<Rightarrow> string option \<Rightarrow> (int, string \<times> string) dict emit" where
  "ring_labels ranks chunk tag operation_id =
     fold_emit (\<lambda>(i, r) labels.
       gbind (on_rank r (send chunk (ranks ! ((i + 1) mod length ranks)) tag None operation_id)) (\<lambda>tx.
       gbind (on_rank r (recv chunk (ranks ! ((i + length ranks - 1) mod length ranks)) tag None operation_id)) (\<lambda>rx.
         greturn (AList.update r (tx, rx) labels)))) (enumerate 0 ranks) []"

definition ring_provenance :: "nat \<Rightarrow> string option \<Rightarrow> provenances \<Rightarrow> int \<Rightarrow> goal_provenance option emit" where
  "ring_provenance round_index operation_id prov r =
     (if round_index = 0 then greturn (map_of prov r)
      else case operation_id of
        None \<Rightarrow> greturn None
      | Some k \<Rightarrow> gbind (internal_of k) (\<lambda>p. greturn (Some p)))"

definition ring_join :: "bool \<Rightarrow> string option \<Rightarrow> int \<Rightarrow> string \<Rightarrow> string \<Rightarrow> string emit" where
  "ring_join exact operation_id r tx rx =
     (if exact then
        (case operation_id of
           None \<Rightarrow> gfail FrontierOwner
         | Some k \<Rightarrow>
             gbind (on_rank r (calc 0 None operation_id)) (\<lambda>join.
             gbind (internal_of k) (\<lambda>internal.
             gbind (on_rank r (requires join tx (Some internal))) (\<lambda>_.
             gbind (on_rank r (requires join rx (Some internal))) (\<lambda>_. greturn join)))))
      else greturn rx)"

definition ring_link :: "int list \<Rightarrow> int \<Rightarrow> int \<Rightarrow> string option \<Rightarrow> provenances \<Rightarrow> bool \<Rightarrow> nat \<Rightarrow> frontier
    \<Rightarrow> (int, string \<times> string) dict \<Rightarrow> nat \<times> int \<Rightarrow> frontier \<Rightarrow> frontier emit" where
  "ring_link ranks chunk tag operation_id prov exact round_index prev labels = (\<lambda>(i, r) finished.
     let succ = ranks ! ((i + 1) mod length ranks)
     in gbind (lookup labels r) (\<lambda>(tx, rx).
        gbind (lookup labels succ) (\<lambda>(_, succ_rx).
        gbind (record_message \<lparr>gm_operation_id = operation_id, gm_source_rank = r, gm_destination_rank = succ,
          gm_payload_bytes = chunk, gm_tag = tag, gm_send_label = tx, gm_receive_label = succ_rx,
          gm_request_payload_bytes = []\<rparr>) (\<lambda>_.
        gbind (case map_of prev r of
                 None \<Rightarrow> greturn ()
               | Some earlier \<Rightarrow>
                   gbind (ring_provenance round_index operation_id prov r) (\<lambda>p.
                   gbind (on_rank r (requires tx earlier p)) (\<lambda>_. on_rank r (requires rx earlier p)))) (\<lambda>_.
        gbind (ring_join exact operation_id r tx rx) (\<lambda>finish.
          greturn (AList.update r finish finished)))))))"

definition ring_round :: "int list \<Rightarrow> int \<Rightarrow> int \<Rightarrow> string option \<Rightarrow> provenances \<Rightarrow> bool \<Rightarrow> nat \<Rightarrow> frontier \<Rightarrow> frontier emit" where
  "ring_round ranks chunk base_tag operation_id prov exact round_index prev =
     (let tag = base_tag + int round_index
      in gbind (ring_labels ranks chunk tag operation_id) (\<lambda>labels.
           fold_emit (ring_link ranks chunk tag operation_id prov exact round_index prev labels) (enumerate 0 ranks) []))"

definition ring_allreduce :: "int list \<Rightarrow> int \<Rightarrow> int \<Rightarrow> frontier \<Rightarrow> string option \<Rightarrow> provenances \<Rightarrow> bool \<Rightarrow> frontier emit" where
  "ring_allreduce ranks size_bytes base_tag after operation_id prov exact =
     (if length ranks < 2 then gfail RingSize
      else fold_emit (ring_round ranks (max 1 (size_bytes div int (length ranks))) base_tag operation_id prov exact)
             [0..<2 * (length ranks - 1)] after)"

subsection \<open>Pairwise exchanges\<close>

definition incident_add :: "int \<Rightarrow> string \<Rightarrow> (int, string list) dict \<Rightarrow> (int, string list) dict emit" where
  "incident_add r label incident =
     gbind (lookup incident r) (\<lambda>labels. greturn (AList.update r (labels @ [label]) incident))"

definition setdefault :: "'k \<Rightarrow> 'v \<Rightarrow> ('k, 'v) dict \<Rightarrow> ('k, 'v) dict" where
  "setdefault k v d = (case map_of d k of None \<Rightarrow> AList.update k v d | Some _ \<Rightarrow> d)"

definition join_labels :: "goal_provenance \<Rightarrow> string option \<Rightarrow> int \<Rightarrow> string list \<Rightarrow> string emit" where
  "join_labels internal operation_id r labels =
     gbind (on_rank r (calc 0 None operation_id)) (\<lambda>join.
     gbind (fold_emit (\<lambda>label _. on_rank r (requires join label (Some internal))) labels ()) (\<lambda>_. greturn join))"

definition pairwise_pair :: "(int \<times> int, int) dict \<Rightarrow> int \<Rightarrow> frontier \<Rightarrow> string option \<Rightarrow> provenances
    \<Rightarrow> (int \<times> int, (string \<times> int) list) dict option \<Rightarrow> int \<times> int
    \<Rightarrow> frontier \<times> (int, string list) dict \<Rightarrow> (frontier \<times> (int, string list) dict) emit" where
  "pairwise_pair send_bytes tag after operation_id prov request_send_bytes = (\<lambda>(s, d) (finished, incident).
     let size = dict_get send_bytes (s, d) 0
     in if size \<le> 0 \<or> s = d then greturn (finished, incident)
        else
          gbind (on_rank s (send size d tag None operation_id)) (\<lambda>tx.
          gbind (chain s tx after prov) (\<lambda>_.
          gbind (incident_add s tx incident) (\<lambda>incident.
          gbind (on_rank d (recv size s tag None operation_id)) (\<lambda>rx.
          gbind (chain d rx after prov) (\<lambda>_.
          gbind (incident_add d rx incident) (\<lambda>incident.
          gbind (case request_send_bytes of None \<Rightarrow> greturn [] | Some parts \<Rightarrow> lookup parts (s, d)) (\<lambda>parts.
          gbind (record_message \<lparr>gm_operation_id = operation_id, gm_source_rank = s, gm_destination_rank = d,
            gm_payload_bytes = size, gm_tag = tag, gm_send_label = tx, gm_receive_label = rx,
            gm_request_payload_bytes = parts\<rparr>) (\<lambda>_.
            greturn (AList.update d rx (setdefault s tx finished), incident))))))))))"

definition pairwise_frontier :: "frontier \<Rightarrow> string \<Rightarrow> goal_provenance \<Rightarrow> (int, string list) dict \<Rightarrow> int \<Rightarrow> frontier
    \<Rightarrow> frontier emit" where
  "pairwise_frontier after operation_id internal incident r finished =
     gbind (lookup incident r) (\<lambda>labels.
       if labels = [] then
         (case map_of after r of
            Some earlier \<Rightarrow> greturn (AList.update r earlier finished)
          | None \<Rightarrow> gbind (on_rank r (calc 0 None (Some operation_id))) (\<lambda>point. greturn (AList.update r point finished)))
       else gbind (join_labels internal (Some operation_id) r labels) (\<lambda>join. greturn (AList.update r join finished)))"

definition pairwise_all_to_allv :: "int list \<Rightarrow> (int \<times> int, int) dict \<Rightarrow> int \<Rightarrow> frontier \<Rightarrow> string option \<Rightarrow> provenances
    \<Rightarrow> bool \<Rightarrow> (int \<times> int, (string \<times> int) list) dict option \<Rightarrow> frontier emit" where
  "pairwise_all_to_allv ranks send_bytes tag after operation_id prov exact request_send_bytes =
     (let positive_pairs = map fst (filter (\<lambda>((s, d), size). 0 < size \<and> s \<noteq> d) send_bytes)
      in if (case request_send_bytes of None \<Rightarrow> False | Some parts \<Rightarrow> set (map fst parts) \<noteq> set positive_pairs)
         then gfail RequestPairs
         else
           gbind (fold_emit (pairwise_pair send_bytes tag after operation_id prov request_send_bytes)
                    (List.product ranks ranks) ([], map (\<lambda>r. (r, [])) (remdups ranks))) (\<lambda>(finished, incident).
             if exact then
               (case operation_id of
                  None \<Rightarrow> gfail FrontierOwner
                | Some k \<Rightarrow> gbind (internal_of k) (\<lambda>internal.
                    fold_emit (pairwise_frontier after k internal incident) ranks finished))
             else greturn finished))"

definition ordered_row_check :: "int list \<Rightarrow> string \<times> int \<times> int \<times> int \<Rightarrow> goal_error option" where
  "ordered_row_check ranks = (\<lambda>(r, s, d, n).
     first_err [goal_text r, guard (s \<in> set ranks \<and> d \<in> set ranks) OutsideGroup, guard (s \<noteq> d) SelfPair,
       guard (0 < n) PayloadSign])"

definition ordered_row :: "int \<Rightarrow> frontier \<Rightarrow> string \<Rightarrow> provenances \<Rightarrow> goal_provenance \<Rightarrow> string \<times> int \<times> int \<times> int
    \<Rightarrow> (int, string list) dict \<times> frontier \<Rightarrow> ((int, string list) dict \<times> frontier) emit" where
  "ordered_row tag after operation_id prov internal = (\<lambda>(request_id, s, d, n) (incident, tails).
     gbind (on_rank s (send n d tag None (Some operation_id))) (\<lambda>tx.
     gbind (case map_of tails s of
              Some tail \<Rightarrow> on_rank s (irequires tx tail (Some internal))
            | None \<Rightarrow> chain s tx after prov) (\<lambda>_.
     gbind (incident_add s tx incident) (\<lambda>incident.
     gbind (on_rank d (recv n s tag None (Some operation_id))) (\<lambda>rx.
     gbind (chain d rx after prov) (\<lambda>_.
     gbind (incident_add d rx incident) (\<lambda>incident.
     gbind (record_message \<lparr>gm_operation_id = Some operation_id, gm_source_rank = s, gm_destination_rank = d,
       gm_payload_bytes = n, gm_tag = tag, gm_send_label = tx, gm_receive_label = rx,
       gm_request_payload_bytes = [(request_id, n)]\<rparr>) (\<lambda>_.
       greturn (incident, AList.update s tx tails)))))))))"

definition ordered_pairwise_messages :: "int list \<Rightarrow> (string \<times> int \<times> int \<times> int) list \<Rightarrow> int \<Rightarrow> frontier \<Rightarrow> string option
    \<Rightarrow> provenances \<Rightarrow> frontier emit" where
  "ordered_pairwise_messages ranks rows tag after operation_id prov =
     (case operation_id of
        None \<Rightarrow> gfail OwnerMissing
      | Some k \<Rightarrow>
          (case first_err ([guard (ranks \<noteq> [] \<and> distinct ranks) GroupRanks, guard (rows \<noteq> []) NoMessages]
                  @ map (ordered_row_check ranks) rows) of
             Some e \<Rightarrow> gfail e
           | None \<Rightarrow>
               gbind (internal_of k) (\<lambda>internal.
               gbind (fold_emit (ordered_row tag after k prov internal) rows (map (\<lambda>r. (r, [])) ranks, []))
                 (\<lambda>(incident, tails).
               fold_emit (\<lambda>(r, labels) finished.
                 if labels = [] then greturn finished
                 else gbind (join_labels internal (Some k) r labels) (\<lambda>join. greturn (AList.update r join finished)))
               incident []))))"

subsection \<open>Explicit plans\<close>

text \<open>
  The local tables of the renderer.  Its loop state is the label of every rendered action, the
  join of every rank and round, and the last round in which a rank took part.
\<close>

definition dict_of :: "('k \<times> 'v) list \<Rightarrow> ('k, 'v) dict" where
  "dict_of kvs = fold (\<lambda>(k, v) d. AList.update k v d) kvs []"

record plan_tables =
  pt_extents :: "(string, plan_extent) dict"
  pt_actions :: "(string, plan_action) dict"
  pt_rounds :: "(int, plan_round) dict"

record render_state =
  rs_labels :: "(string, string) dict"
  rs_joins :: "(int \<times> int, string) dict"
  rs_last :: "(int, int) dict"

definition plan_tables_of :: "collective_plan \<Rightarrow> plan_tables" where
  "plan_tables_of p =
     \<lparr>pt_extents = dict_of (map (\<lambda>x. (pe_extent_id x, x)) (cp_extents p)),
      pt_actions = dict_of (map (\<lambda>a. (pa_action_id a, a)) (cp_actions p)),
      pt_rounds = dict_of (map (\<lambda>r. (pr_round_index r, r)) (cp_rounds p))\<rparr>"

definition round_of_action :: "plan_tables \<Rightarrow> plan_action \<Rightarrow> int option" where
  "round_of_action tb a = map_option pe_round_index (map_of (pt_extents tb) (pa_extent_id a))"

definition predecessor_label :: "bool \<Rightarrow> plan_tables \<Rightarrow> render_state \<Rightarrow> string \<Rightarrow> string emit" where
  "predecessor_label exact tb rs k =
     (if \<not> exact then lookup (rs_labels rs) k
      else
        gbind (lookup (pt_actions tb) k) (\<lambda>a.
        (case round_of_action tb a of
           None \<Rightarrow> gfail KeyMissing
         | Some i \<Rightarrow> lookup (rs_joins rs) (pa_rank a, i))))"

definition render_action :: "string \<Rightarrow> plan_tables \<Rightarrow> int \<Rightarrow> plan_action \<Rightarrow> render_state \<Rightarrow> render_state emit" where
  "render_action operation_id tb tag a rs =
     gbind (lookup (pt_extents tb) (pa_extent_id a)) (\<lambda>x.
     gbind (case pa_kind a of
              SEND \<Rightarrow> on_rank (pa_rank a) (send (pe_payload_bytes x) (pe_destination_rank x) tag None (Some operation_id))
            | RECEIVE \<Rightarrow> on_rank (pa_rank a) (recv (pe_payload_bytes x) (pe_source_rank x) tag None (Some operation_id)))
       (\<lambda>label. greturn (rs\<lparr>rs_labels := AList.update (pa_action_id a) label (rs_labels rs)\<rparr>)))"

definition link_action :: "bool \<Rightarrow> plan_tables \<Rightarrow> string list \<Rightarrow> goal_provenance \<Rightarrow> frontier \<Rightarrow> provenances \<Rightarrow> render_state
    \<Rightarrow> int \<Rightarrow> plan_action \<Rightarrow> unit emit" where
  "link_action exact tb entry_ids internal after prov rs r a =
     gbind (lookup (rs_labels rs) (pa_action_id a)) (\<lambda>label.
     gbind (if pa_action_id a \<in> set entry_ids then chain r label after prov else greturn ()) (\<lambda>_.
       fold_emit (\<lambda>k _. gbind (predecessor_label exact tb rs k) (\<lambda>earlier. on_rank r (requires label earlier (Some internal))))
         (pa_depends_on a) ()))"

definition link_rank :: "bool \<Rightarrow> string \<Rightarrow> plan_tables \<Rightarrow> string list \<Rightarrow> goal_provenance \<Rightarrow> frontier \<Rightarrow> provenances
    \<Rightarrow> int \<Rightarrow> plan_action list \<Rightarrow> int \<Rightarrow> render_state \<Rightarrow> render_state emit" where
  "link_rank exact operation_id tb entry_ids internal after prov round_index round_actions r rs =
     (let rank_actions = filter (\<lambda>a. pa_rank a = r) round_actions
      in if rank_actions = [] then greturn rs
         else
           (let rs = rs\<lparr>rs_last := AList.update r round_index (rs_last rs)\<rparr>
            in gbind (fold_emit (\<lambda>a _. link_action exact tb entry_ids internal after prov rs r a) rank_actions ()) (\<lambda>_.
               if exact then
                 gbind (on_rank r (calc 0 None (Some operation_id))) (\<lambda>join.
                 gbind (fold_emit (\<lambda>a _. gbind (lookup (rs_labels rs) (pa_action_id a)) (\<lambda>label.
                          on_rank r (requires join label (Some internal)))) rank_actions ()) (\<lambda>_.
                   greturn (rs\<lparr>rs_joins := AList.update (r, round_index) join (rs_joins rs)\<rparr>)))
               else greturn rs)))"

definition render_round :: "bool \<Rightarrow> collective_plan \<Rightarrow> plan_tables \<Rightarrow> string list \<Rightarrow> goal_provenance \<Rightarrow> frontier \<Rightarrow> provenances
    \<Rightarrow> plan_round \<Rightarrow> render_state \<Rightarrow> render_state emit" where
  "render_round exact p tb entry_ids internal after prov rnd rs =
     (let round_actions = filter (\<lambda>a. round_of_action tb a = Some (pr_round_index rnd)) (cp_actions p)
      in gbind (fold_emit (render_action (cp_operation_id p) tb (pr_tag rnd)) round_actions rs) (\<lambda>rs.
           fold_emit (link_rank exact (cp_operation_id p) tb entry_ids internal after prov (pr_round_index rnd) round_actions)
             (cp_rank_order p) rs))"

definition render_message :: "string \<Rightarrow> plan_tables \<Rightarrow> render_state \<Rightarrow> plan_extent \<Rightarrow> unit emit" where
  "render_message operation_id tb rs x =
     gbind (lookup (pt_rounds tb) (pe_round_index x)) (\<lambda>rnd.
     gbind (lookup (rs_labels rs) (pe_send_action_id x)) (\<lambda>tx.
     gbind (lookup (rs_labels rs) (pe_receive_action_id x)) (\<lambda>rx.
       record_message \<lparr>gm_operation_id = Some operation_id, gm_source_rank = pe_source_rank x,
         gm_destination_rank = pe_destination_rank x, gm_payload_bytes = pe_payload_bytes x, gm_tag = pr_tag rnd,
         gm_send_label = tx, gm_receive_label = rx, gm_request_payload_bytes = pe_request_payload_bytes x\<rparr>)))"

fun lookup_all :: "('k, 'v) dict \<Rightarrow> 'k list \<Rightarrow> 'v list emit" where
  "lookup_all d [] = greturn []"
| "lookup_all d (k # ks) = gbind (lookup d k) (\<lambda>v. gbind (lookup_all d ks) (\<lambda>vs. greturn (v # vs)))"

text \<open>Python tests the kind of an action before it reads its label; both lookups are of declared actions.\<close>

fun receives_of :: "plan_tables \<Rightarrow> render_state \<Rightarrow> string list \<Rightarrow> string list emit" where
  "receives_of tb rs [] = greturn []"
| "receives_of tb rs (k # ks) =
     gbind (lookup (pt_actions tb) k) (\<lambda>a.
       if pa_kind a = RECEIVE then
         gbind (lookup (rs_labels rs) k) (\<lambda>label. gbind (receives_of tb rs ks) (\<lambda>ls. greturn (label # ls)))
       else receives_of tb rs ks)"

definition rank_frontier :: "bool \<Rightarrow> string \<Rightarrow> plan_tables \<Rightarrow> frontier \<Rightarrow> render_state \<Rightarrow> int \<times> string list \<Rightarrow> frontier
    \<Rightarrow> frontier emit" where
  "rank_frontier exact operation_id tb after rs = (\<lambda>(r, ids) frontiers.
     if exact then
       (case map_of (rs_last rs) r of
          None \<Rightarrow>
            (case map_of after r of
               Some earlier \<Rightarrow> greturn (AList.update r earlier frontiers)
             | None \<Rightarrow> gbind (on_rank r (calc 0 None (Some operation_id))) (\<lambda>point. greturn (AList.update r point frontiers)))
        | Some i \<Rightarrow> gbind (lookup (rs_joins rs) (r, i)) (\<lambda>join. greturn (AList.update r join frontiers)))
     else
       gbind (receives_of tb rs ids) (\<lambda>receives.
         if receives \<noteq> [] then greturn (AList.update r (last receives) frontiers)
         else gbind (lookup_all (rs_labels rs) ids) (\<lambda>sends.
           greturn (if sends \<noteq> [] then AList.update r (hd sends) frontiers else frontiers))))"

definition render_collective_plan :: "collective_plan \<Rightarrow> frontier \<Rightarrow> provenances \<Rightarrow> bool \<Rightarrow> frontier emit" where
  "render_collective_plan p after prov exact =
     (let tb = plan_tables_of p; entry_ids = concat (map snd (cp_entry_action_ids p))
      in if \<not> list_all (\<lambda>a. round_of_action tb a \<noteq> None) (cp_actions p) then gfail KeyMissing
         else
           gbind (internal_of (cp_operation_id p)) (\<lambda>internal.
           gbind (fold_emit (render_round exact p tb entry_ids internal after prov) (cp_rounds p)
                    \<lparr>rs_labels = [], rs_joins = [], rs_last = []\<rparr>) (\<lambda>rs.
           gbind (fold_emit (\<lambda>x _. render_message (cp_operation_id p) tb rs x) (cp_extents p) ()) (\<lambda>_.
             fold_emit (rank_frontier exact (cp_operation_id p) tb after rs) (cp_terminal_action_ids p) []))))"

end
