(* ===== verification/Goal_Properties.thy ===== *)
theory Goal_Properties
  imports Patterns Collective_Plan_Properties "HOL-Library.Sublist"
begin

text \<open>
  Well-formed traces.  The locale \<open>trace_keeper\<close> states what a property of traces has to
  satisfy to survive every pattern and the plan renderer, on error paths too: the three
  mutating primitives keep it.  It is interpreted twice, for well-formedness (labels are unique
  and every dependency and message refers to labels of its ranks) and for being an extension of
  an earlier trace (emission only appends).
\<close>

subsection \<open>Keeping a property\<close>

named_theorems keep_intros \<open>rules for the property of traces that a computation keeps\<close>

definition keeps :: "(goal_trace \<Rightarrow> bool) \<Rightarrow> 'a emit \<Rightarrow> bool" where
  "keeps P m \<longleftrightarrow> (\<forall>t. P t \<longrightarrow> P (fst (m t)))"

lemma keepsD: "keeps P m \<Longrightarrow> P t \<Longrightarrow> P (fst (m t))"
  by (simp add: keeps_def)

lemma keeps_return [keep_intros]: "keeps P (greturn a)" "keeps P (gfail e)"
  by (simp_all add: keeps_def greturn_def gfail_def)

lemma keeps_gbind [keep_intros]:
  assumes "keeps P m" "\<And>a. keeps P (f a)" shows "keeps P (gbind m f)"
  unfolding keeps_def
proof (intro allI impI)
  fix t assume "P t"
  then have "P (fst (m t))" using assms(1) by (simp add: keeps_def)
  then show "P (fst (gbind m f t))" using assms(2)
    by (auto simp: gbind_def keeps_def split: prod.splits sum.splits)
qed

lemma keeps_cases [keep_intros]:
  "keeps P m \<Longrightarrow> keeps P m' \<Longrightarrow> keeps P (if b then m else m')"
  "keeps P m \<Longrightarrow> (\<And>x. keeps P (f x)) \<Longrightarrow> keeps P (case v of None \<Rightarrow> m | Some x \<Rightarrow> f x)"
  "(\<And>x y. keeps P (g x y)) \<Longrightarrow> keeps P (case xy of (x, y) \<Rightarrow> g x y)"
  "(\<And>x y. keeps P (h x y s)) \<Longrightarrow> keeps P ((case xy of (x, y) \<Rightarrow> h x y) s)"
  "keeps P m \<Longrightarrow> keeps P m' \<Longrightarrow> keeps P (case kind of SEND \<Rightarrow> m | RECEIVE \<Rightarrow> m')"
  by (simp_all split: option.splits prod.splits plan_action_kind.splits)

lemma keeps_fold [keep_intros]:
  assumes "\<And>x s. keeps P (f x s)" shows "keeps P (fold_emit f xs s)"
  by (induction xs arbitrary: s) (simp_all add: keeps_return keeps_gbind assms)

lemma keeps_lookup [keep_intros]: "keeps P (lookup d x)" "keeps P (internal_of k)"
  unfolding lookup_def internal_of_def by (intro keep_intros)+

lemma keeps_lookup_all [keep_intros]: "keeps P (lookup_all d ks)"
  by (induction ks) (simp only: lookup_all.simps, intro keep_intros, assumption?)+

lemma keeps_receives_of [keep_intros]: "keeps P (receives_of tb rs ks)"
  by (induction ks) (simp only: receives_of.simps, intro keep_intros, assumption?)+

locale trace_keeper =
  fixes P :: "goal_trace \<Rightarrow> bool"
  assumes add: "keeps P (on_rank r (rp_add txt k))"
    and dep: "keeps P (on_rank r (record_dependency op after relation prov))"
    and msg: "keeps P (record_message m)"
begin

lemma prims [keep_intros]:
  "keeps P (on_rank r (send n d tag nic k))" "keeps P (on_rank r (recv n d tag nic k))" "keeps P (on_rank r (calc n nic k))"
  "keeps P (on_rank r (requires op after prov))" "keeps P (on_rank r (irequires op after prov))" "keeps P (record_message m)"
  using add dep msg by (simp_all add: send_def recv_def calc_def requires_def irequires_def)

lemma chain_keeps [keep_intros]: "keeps P (chain r label after prov)"
  unfolding chain_def by (intro keep_intros)

lemma scatter_keeps: "keeps P (scatter hub workers n tag after)"
  unfolding scatter_def by (intro keep_intros)

lemma gather_keeps: "keeps P (gather hub workers n tag after)"
  unfolding gather_def by (intro keep_intros)

lemma broadcast_edge_keeps [keep_intros]: "keeps P (broadcast_edge order h n tag after i finished)"
  unfolding broadcast_edge_def Let_def by (intro keep_intros)

lemma broadcast_rounds_keeps [keep_intros]: "keeps P (broadcast_rounds order n tag after k finished)"
proof (induction order n tag after k finished rule: broadcast_rounds.induct)
  case (1 order n tag after k finished)
  then show ?case
    by (subst broadcast_rounds.simps, cases "2 ^ k < length order") (simp_all add: Let_def keeps_gbind keeps_fold broadcast_edge_keeps keeps_return)
qed

lemma broadcast_keeps: "keeps P (binomial_broadcast hub ranks n tag after)"
  unfolding binomial_broadcast_def Let_def by (intro keep_intros)

lemma ring_parts_keep [keep_intros]:
  "keeps P (ring_join exact k r tx rx)" "keeps P (ring_provenance i k prov r)" "keeps P (ring_labels ranks n tag k)"
  unfolding ring_join_def ring_provenance_def ring_labels_def by (intro keep_intros)+

lemma ring_link_keeps [keep_intros]: "keeps P (ring_link ranks n tag k prov exact i prev labels x s)"
  unfolding ring_link_def Let_def case_prod_unfold by (intro keep_intros)

lemma ring_keeps: "keeps P (ring_allreduce ranks n tag after k prov exact)"
  unfolding ring_allreduce_def ring_round_def Let_def by (intro keep_intros)

lemma join_keeps [keep_intros]: "keeps P (join_labels internal k r labels)"
  unfolding join_labels_def by (intro keep_intros)

lemma incident_keeps [keep_intros]: "keeps P (incident_add r label incident)"
  unfolding incident_add_def by (intro keep_intros)

lemma pairwise_parts_keep [keep_intros]:
  "keeps P (pairwise_frontier after k internal incident r s)" "keeps P (pairwise_pair sizes tag after k' prov parts x s')"
  unfolding pairwise_frontier_def pairwise_pair_def Let_def case_prod_unfold by (intro keep_intros)+

lemma pairwise_keeps: "keeps P (pairwise_all_to_allv ranks sizes tag after k prov exact parts)"
  unfolding pairwise_all_to_allv_def Let_def by (intro keep_intros)

lemma ordered_row_keeps [keep_intros]: "keeps P (ordered_row tag after k prov internal x s)"
  unfolding ordered_row_def case_prod_unfold by (intro keep_intros)

lemma ordered_keeps: "keeps P (ordered_pairwise_messages ranks rows tag after k prov)"
  unfolding ordered_pairwise_messages_def by (intro keep_intros)

lemma render_parts_keep [keep_intros]:
  "keeps P (render_action k tb tag a rs)" "keeps P (predecessor_label exact tb rs key)"
  "keeps P (render_message k tb rs x)" "keeps P (rank_frontier exact k tb after rs entry s)"
  unfolding render_action_def predecessor_label_def render_message_def rank_frontier_def case_prod_unfold
  by (intro keep_intros)+

lemma link_keeps [keep_intros]:
  "keeps P (link_action exact tb entries internal after prov rs r a)"
  unfolding link_action_def by (intro keep_intros)

lemma link_rank_keeps [keep_intros]:
  "keeps P (link_rank exact k tb entries internal after prov i as r rs)"
  unfolding link_rank_def Let_def by (intro keep_intros)

lemma render_keeps: "keeps P (render_collective_plan p after prov exact)"
  unfolding render_collective_plan_def render_round_def Let_def by (intro keep_intros)

end

subsection \<open>Well-formed traces\<close>

definition program_ok :: "int \<Rightarrow> rank_program \<Rightarrow> bool" where
  "program_ok r p \<longleftrightarrow>
     rp_rank p = r \<and> map go_label (rp_ops p) = map (op_label r) [0..<length (rp_ops p)] \<and>
     (\<forall>op \<in> set (rp_ops p). go_rank op = r) \<and>
     (\<forall>d \<in> set (rp_deps p). gd_rank d = r \<and> gd_operation_label d \<in> go_label ` set (rp_ops p) \<and>
        gd_predecessor_label d \<in> go_label ` set (rp_ops p))"

definition message_ok :: "goal_trace \<Rightarrow> goal_message \<Rightarrow> bool" where
  "message_ok t m \<longleftrightarrow> check_goal_message m = None \<and>
     gm_source_rank m < int (length (gt_ranks t)) \<and> gm_destination_rank m < int (length (gt_ranks t)) \<and>
     gm_send_label m \<in> set (labels_of t (gm_source_rank m)) \<and> gm_receive_label m \<in> set (labels_of t (gm_destination_rank m))"

definition trace_ok :: "goal_trace \<Rightarrow> bool" where
  "trace_ok t \<longleftrightarrow> gt_num_ranks t = int (length (gt_ranks t)) \<and> gt_ranks t \<noteq> [] \<and>
     (\<forall>i < length (gt_ranks t). program_ok (int i) (gt_ranks t ! i)) \<and> (\<forall>m \<in> set (gt_messages t). message_ok t m)"

text \<open>Emission appends: operations, dependencies and messages of the earlier trace are kept in place.\<close>

definition program_extends :: "rank_program \<Rightarrow> rank_program \<Rightarrow> bool" where
  "program_extends p q \<longleftrightarrow> rp_rank q = rp_rank p \<and> prefix (rp_ops p) (rp_ops q) \<and> prefix (rp_deps p) (rp_deps q)"

definition extends :: "goal_trace \<Rightarrow> goal_trace \<Rightarrow> bool" where
  "extends t u \<longleftrightarrow> gt_num_ranks u = gt_num_ranks t \<and> list_all2 program_extends (gt_ranks t) (gt_ranks u) \<and>
     prefix (gt_messages t) (gt_messages u)"

lemma list_index_bound: "list_index r n = Some i \<Longrightarrow> i < n"
  by (auto simp: list_index_def split: if_splits)

lemma on_rank_trace:
  "fst (on_rank r step t) = (case list_index r (length (gt_ranks t)) of None \<Rightarrow> t
     | Some i \<Rightarrow> t\<lparr>gt_ranks := (gt_ranks t)[i := fst (step (gt_ranks t ! i))]\<rparr>)"
  by (auto simp: on_rank_def split: option.splits prod.splits)

lemma extends_refl [simp]: "extends t t"
  by (simp add: extends_def list_all2_refl program_extends_def)

lemma keeps_extends_rank:
  assumes "\<And>p. program_extends p (fst (step p))"
  shows "keeps (extends t0) (on_rank r step)"
proof -
  have "extends t0 (t\<lparr>gt_ranks := (gt_ranks t)[i := fst (step (gt_ranks t ! i))]\<rparr>)" if "extends t0 t" "i < length (gt_ranks t)" for t i
  proof -
    have "program_extends (gt_ranks t0 ! i) (fst (step (gt_ranks t ! i)))"
      using that assms [of "gt_ranks t ! i"] by (auto simp: extends_def program_extends_def list_all2_conv_all_nth)
    then have "program_extends (gt_ranks t0 ! j) ((gt_ranks t)[i := fst (step (gt_ranks t ! i))] ! j)" if "j < length (gt_ranks t)" for j
      using \<open>extends t0 t\<close> that by (cases "j = i") (auto simp: extends_def list_all2_conv_all_nth)
    then show ?thesis using that(1) by (simp add: extends_def list_all2_conv_all_nth)
  qed
  then show ?thesis by (auto simp: keeps_def on_rank_trace list_index_bound split: option.splits)
qed

lemma add_extends: "program_extends p (fst (rp_add txt k p))"
  by (auto simp: rp_add_def program_extends_def Let_def split: option.splits)

lemma dep_extends: "program_extends p (fst (record_dependency op after relation prov p))"
  by (auto simp: record_dependency_def program_extends_def Let_def split: option.splits)

interpretation append: trace_keeper "extends t0" for t0
proof (unfold_locales, goal_cases)
  case (1 r line k)
  show ?case by (rule keeps_extends_rank) (rule add_extends)
next
  case (2 r op after relation prov)
  show ?case by (rule keeps_extends_rank) (rule dep_extends)
next
  case (3 m)
  show ?case by (auto simp: keeps_def record_message_def extends_def split: option.splits)
qed

lemma labels_extend:
  assumes "extends t u" "0 \<le> r" "r < int (length (gt_ranks t))" "l \<in> set (labels_of t r)"
  shows "l \<in> set (labels_of u r)"
proof -
  have "program_extends (gt_ranks t ! nat r) (gt_ranks u ! nat r)" using assms(1-3) by (auto simp: extends_def list_all2_conv_all_nth)
  then show ?thesis using assms(4) by (auto simp: labels_of_def program_extends_def prefix_def)
qed

lemma keeps_trace_ok_rank:
  assumes ext: "\<And>p. program_extends p (fst (step p))" and ok: "\<And>r p. program_ok r p \<Longrightarrow> program_ok r (fst (step p))"
  shows "keeps trace_ok (on_rank r step)"
  unfolding keeps_def
proof (intro allI impI)
  fix t assume t: "trace_ok t"
  let ?u = "fst (on_rank r step t)"
  have u: "extends t ?u" using keepsD [OF keeps_extends_rank [OF ext]] by auto
  then have len: "length (gt_ranks ?u) = length (gt_ranks t)" by (auto simp: extends_def dest: list_all2_lengthD)
  have "message_ok ?u m" if "m \<in> set (gt_messages t)" for m
  proof -
    have m: "message_ok t m" using t that by (simp add: trace_ok_def)
    then have "0 \<le> gm_source_rank m" "0 \<le> gm_destination_rank m"
      by (auto simp: message_ok_def check_goal_message_def Let_def goal_integer_def)
    then show ?thesis using m labels_extend [OF u] by (simp add: message_ok_def len)
  qed
  moreover have "program_ok (int j) (gt_ranks ?u ! j)" if j: "j < length (gt_ranks t)" for j
  proof -
    have "program_ok (int j) (gt_ranks t ! j)" using t j by (simp add: trace_ok_def)
    then show ?thesis using ok [of "int j" "gt_ranks t ! j"] j
      by (cases "list_index r (length (gt_ranks t))") (auto simp: on_rank_trace nth_list_update list_index_bound)
  qed
  moreover have "gt_num_ranks ?u = gt_num_ranks t" "gt_messages ?u = gt_messages t"
    by (simp_all add: on_rank_trace split: option.splits)
  moreover have "gt_ranks ?u \<noteq> []" using len t by (auto simp: trace_ok_def)
  ultimately show "trace_ok ?u" using t unfolding trace_ok_def len by simp
qed

lemma add_ok: "program_ok r p \<Longrightarrow> program_ok r (fst (rp_add txt k p))"
  by (auto simp: rp_add_def program_ok_def Let_def split: option.splits)

lemma dep_ok:
  assumes "program_ok r p" shows "program_ok r (fst (record_dependency op after relation prov p))"
proof (cases "op \<in> go_label ` set (rp_ops p) \<and> after \<in> go_label ` set (rp_ops p)")
  case True
  moreover have "fst (record_dependency op after relation prov p) \<in>
      {p, p\<lparr>rp_deps := rp_deps p @ [\<lparr>gd_rank = rp_rank p, gd_operation_label = op, gd_predecessor_label = after,
          gd_relation = relation, gd_provenance = prov\<rparr>]\<rparr>}"
    by (auto simp: record_dependency_def Let_def split: option.splits)
  ultimately show ?thesis using assms unfolding program_ok_def by (elim insertE) simp_all
next
  case False
  then have "fst (record_dependency op after relation prov p) = p" by (auto simp: record_dependency_def Let_def guard_def)
  then show ?thesis using assms by simp
qed

interpretation wf: trace_keeper trace_ok
proof (unfold_locales, goal_cases)
  case (1 r line k)
  show ?case using add_extends add_ok by (rule keeps_trace_ok_rank)
next
  case (2 r op after relation prov)
  show ?case using dep_extends dep_ok by (rule keeps_trace_ok_rank)
next
  case (3 m)
  show ?case
    by (auto simp: keeps_def record_message_def trace_ok_def message_ok_def labels_of_def split: option.splits)
qed

subsection \<open>What can be emitted\<close>

text \<open>Any sequence of calls on a trace, whether they return or raise.\<close>

inductive emitted :: "goal_trace \<Rightarrow> goal_trace \<Rightarrow> bool" for t0 :: goal_trace where
  start: "emitted t0 t0"
| operation: "emitted t0 t \<Longrightarrow> emitted t0 (fst (on_rank r (rp_add line k) t))"
| dependency: "emitted t0 t \<Longrightarrow> emitted t0 (fst (on_rank r (record_dependency op after relation prov) t))"
| message: "emitted t0 t \<Longrightarrow> emitted t0 (fst (record_message m t))"
| scatter: "emitted t0 t \<Longrightarrow> emitted t0 (fst (scatter hub workers n tag after t))"
| gather: "emitted t0 t \<Longrightarrow> emitted t0 (fst (gather hub workers n tag after t))"
| broadcast: "emitted t0 t \<Longrightarrow> emitted t0 (fst (binomial_broadcast hub ranks n tag after t))"
| ring: "emitted t0 t \<Longrightarrow> emitted t0 (fst (ring_allreduce ranks n tag after k' prov' exact t))"
| pairwise: "emitted t0 t \<Longrightarrow> emitted t0 (fst (pairwise_all_to_allv ranks sizes tag after k' prov' exact parts t))"
| ordered: "emitted t0 t \<Longrightarrow> emitted t0 (fst (ordered_pairwise_messages ranks rows tag after k' prov' t))"
| plan: "emitted t0 t \<Longrightarrow> emitted t0 (fst (render_collective_plan p after prov' exact t))"

context trace_keeper
begin

lemma emitted_keeps: "emitted t0 t \<Longrightarrow> P t0 \<Longrightarrow> P t"
  by (induction rule: emitted.induct)
    (auto intro: keepsD [OF add] keepsD [OF dep] keepsD [OF msg] keepsD [OF scatter_keeps] keepsD [OF gather_keeps]
      keepsD [OF broadcast_keeps] keepsD [OF ring_keeps] keepsD [OF pairwise_keeps] keepsD [OF ordered_keeps]
      keepsD [OF render_keeps])

end

lemma new_trace_ok: "new_trace n = Inr t \<Longrightarrow> trace_ok t"
  by (auto simp: new_trace_def trace_ok_def program_ok_def split: if_splits)

lemma int_text_letters: "CHR ''o'' \<notin> set (int_text i)"
proof -
  have "CHR ''o'' \<notin> set (nat_text n)" for n
    using nat_text_digits [of n] by (auto simp: list_all_iff is_digit_def)
  then show ?thesis by (simp add: int_text_def)
qed

lemma op_label_inj [simp]: "op_label r m = op_label s n \<longleftrightarrow> r = s \<and> m = n"
  by (simp add: op_label_def append_sep_inj int_text_letters)

lemma trace_ok_labels:
  assumes "trace_ok t" shows "distinct (map go_label (operations t))"
proof -
  have lab: "map go_label (rp_ops (gt_ranks t ! i)) = map (op_label (int i)) [0..<length (rp_ops (gt_ranks t ! i))]"
    if "i < length (gt_ranks t)" for i
    using assms that by (simp add: trace_ok_def program_ok_def)
  have "map go_label (operations t) = concat (map (\<lambda>i. map go_label (rp_ops (gt_ranks t ! i))) [0..<length (gt_ranks t)])"
    unfolding operations_def map_concat map_map o_def by (rule arg_cong [where f = concat], rule nth_equalityI) simp_all
  also have "\<dots> = map (\<lambda>(i, j). op_label (int i) j)
      (concat (map (\<lambda>i. map (Pair i) [0..<length (rp_ops (gt_ranks t ! i))]) [0..<length (gt_ranks t)]))"
    unfolding map_concat map_map using lab by (intro arg_cong [where f = concat] map_cong refl) simp
  finally have *: "map go_label (operations t) = \<dots>" .
  have "distinct (concat (map (\<lambda>i. map (Pair i) (f i)) is))" if "distinct is" "\<And>i. distinct (f i)" for "is" :: "nat list" and f :: "nat \<Rightarrow> nat list"
    using that by (induction "is") (auto simp: distinct_map inj_on_def)
  then show ?thesis unfolding * by (auto simp: distinct_map inj_on_def)
qed

text \<open>
  C33. Emitted traces are well formed.  Whatever sequence of emitter calls, patterns and plan
  renderings runs on a new trace, and whether or not some of them raise, all labels of the
  trace are different, every dependency connects two operations of its own rank, every message
  is constructible and connects operations of its source and destination rank, and each rank
  that was created is still there; and a call never changes what an earlier one emitted.
\<close>

theorem emitted_traces_wellformed:
  assumes "new_trace n = Inr t0" "emitted t0 t" "emitted t u"
  shows "int (length (gt_ranks t)) = n \<and> distinct (map go_label (operations t)) \<and>
    (\<forall>d \<in> set (dependencies t). {gd_operation_label d, gd_predecessor_label d} \<subseteq> set (labels_of t (gd_rank d))) \<and>
    (\<forall>m \<in> set (gt_messages t). check_goal_message m = None \<and> gm_source_rank m < n \<and> gm_destination_rank m < n \<and>
       gm_send_label m \<in> set (labels_of t (gm_source_rank m)) \<and>
       gm_receive_label m \<in> set (labels_of t (gm_destination_rank m))) \<and> extends t u"
proof -
  have t: "trace_ok t" using wf.emitted_keeps [OF assms(2) new_trace_ok [OF assms(1)]] .
  have "extends t0 t" using append.emitted_keeps [OF assms(2)] by simp
  then have "gt_num_ranks t = n" using assms(1) by (auto simp: extends_def new_trace_def split: if_splits)
  then have n: "int (length (gt_ranks t)) = n" using t by (simp add: trace_ok_def)
  have "{gd_operation_label d, gd_predecessor_label d} \<subseteq> set (labels_of t (gd_rank d))" if d: "d \<in> set (dependencies t)" for d
  proof -
    obtain i where i: "i < length (gt_ranks t)" "d \<in> set (rp_deps (gt_ranks t ! i))"
      using d by (fastforce simp: dependencies_def in_set_conv_nth [of _ "gt_ranks t"])
    then have "program_ok (int i) (gt_ranks t ! i)" using t by (simp add: trace_ok_def)
    then have "gd_rank d = int i \<and> {gd_operation_label d, gd_predecessor_label d} \<subseteq> go_label ` set (rp_ops (gt_ranks t ! i))"
      using i(2) unfolding program_ok_def by blast
    then show ?thesis by (simp only: labels_of_def set_map nat_int)
  qed
  moreover have "extends t u" using append.emitted_keeps [OF assms(3)] by simp
  ultimately show ?thesis using t n trace_ok_labels [OF t] by (auto simp: trace_ok_def message_ok_def)
qed

definition demo_trace :: goal_trace where
  "demo_trace = \<lparr>gt_num_ranks = 3, gt_ranks = map (\<lambda>r. \<lparr>rp_rank = r, rp_ops = [], rp_deps = []\<rparr>) [0, 1, 2], gt_messages = []\<rparr>"

theorem emitted_traces_wellformed_witness:
  "distinct (map go_label (operations (fst (ring_allreduce [0, 2] 7 5 [] (Some ''k'') [] True demo_trace)))) \<and>
   length (gt_messages (fst (ring_allreduce [0, 2] 7 5 [] (Some ''k'') [] True demo_trace))) = 4"
proof -
  have "new_trace 3 = Inr demo_trace" "length (gt_messages (fst (ring_allreduce [0, 2] 7 5 [] (Some ''k'') [] True demo_trace))) = 4"
    by code_simp+
  moreover note ring = emitted.ring [OF emitted.start, of demo_trace "[0, 2]" 7 5 "[]" "Some ''k''" "[]" True]
  ultimately show ?thesis using emitted_traces_wellformed [OF _ ring emitted.start, of 3] by blast
qed

end
