(* ===== verification/Render_Properties.thy ===== *)
theory Render_Properties
  imports Goal_Properties
begin

text \<open>
  Total correctness of emission.  \<open>ok m t Q\<close> says that the computation \<open>m\<close> returns on the trace
  \<open>t\<close>, that the new trace is well formed and extends \<open>t\<close>, and that the value and the new trace
  satisfy \<open>Q\<close>.  The rules follow the structure of the emitter; with them every validated plan
  whose dependencies point to earlier rounds is rendered completely.
\<close>

named_theorems ok_intros \<open>rules for computations that return\<close>

subsection \<open>Computations that return\<close>

definition grown :: "goal_trace \<Rightarrow> goal_trace \<Rightarrow> bool" where
  "grown t u \<longleftrightarrow> trace_ok t \<and> trace_ok u \<and> extends t u"

definition ok :: "'a emit \<Rightarrow> goal_trace \<Rightarrow> ('a \<Rightarrow> goal_trace \<Rightarrow> bool) \<Rightarrow> bool" where
  "ok m t Q \<longleftrightarrow> (\<exists>u a. m t = (u, Inr a) \<and> grown t u \<and> Q a u)"

lemma program_extends_trans: "program_extends p q \<Longrightarrow> program_extends q r \<Longrightarrow> program_extends p r"
  by (auto simp: program_extends_def intro: prefix_order.trans)

lemma grown_trans: "grown t u \<Longrightarrow> grown u v \<Longrightarrow> grown t v"
  by (auto simp: grown_def extends_def intro: prefix_order.trans list_all2_trans [OF program_extends_trans])

lemma grown_refl [simp]: "grown t t \<longleftrightarrow> trace_ok t"
  by (simp add: grown_def)

definition in_range :: "goal_trace \<Rightarrow> int \<Rightarrow> bool" where
  "in_range t r \<longleftrightarrow> 0 \<le> r \<and> r < int (length (gt_ranks t))"

definition has :: "goal_trace \<Rightarrow> int \<Rightarrow> string \<Rightarrow> bool" where
  "has t r l \<longleftrightarrow> in_range t r \<and> l \<in> set (labels_of t r)"

lemma grown_in_range: "grown t u \<Longrightarrow> in_range u r \<longleftrightarrow> in_range t r"
  by (auto simp: grown_def extends_def in_range_def dest: list_all2_lengthD)

lemma grown_has: "grown t u \<Longrightarrow> has t r l \<Longrightarrow> has u r l"
  using labels_extend [of t u r l] grown_in_range [of t u r] by (auto simp: has_def grown_def in_range_def)

lemma ok_return [ok_intros]: "trace_ok t \<Longrightarrow> Q a t \<Longrightarrow> ok (greturn a) t Q"
  by (simp add: ok_def greturn_def)

lemma ok_gbind:
  assumes "ok m t Q" "\<And>a u. grown t u \<Longrightarrow> Q a u \<Longrightarrow> ok (f a) u R"
  shows "ok (gbind m f) t R"
proof -
  obtain u a where u: "m t = (u, Inr a)" "grown t u" "Q a u" using assms(1) by (auto simp: ok_def)
  then obtain v b where "f a u = (v, Inr b)" "grown u v" "R b v" using assms(2) [of u a] by (auto simp: ok_def)
  then show ?thesis using u grown_trans by (auto simp: ok_def gbind_def)
qed

lemma ok_weaken: "ok m t Q \<Longrightarrow> (\<And>a u. grown t u \<Longrightarrow> Q a u \<Longrightarrow> R a u) \<Longrightarrow> ok m t R"
  by (auto simp: ok_def)

lemma ok_lookup: "trace_ok t \<Longrightarrow> map_of d k = Some v \<Longrightarrow> Q v t \<Longrightarrow> ok (lookup d k) t Q"
  by (simp add: lookup_def ok_return)

lemma ok_internal: "trace_ok t \<Longrightarrow> nonblank k \<Longrightarrow> Q (internal_provenance k) t \<Longrightarrow> ok (internal_of k) t Q"
  by (simp add: internal_of_def check_goal_provenance_def internal_provenance_def goal_text_def guard_def ok_return)

text \<open>The loop rule: the invariant speaks of the elements done so far.\<close>

lemma ok_fold:
  assumes "trace_ok t" "I [] s t"
    and "\<And>ys x zs s u. xs = ys @ x # zs \<Longrightarrow> grown t u \<Longrightarrow> I ys s u \<Longrightarrow> ok (f x s) u (I (ys @ [x]))"
  shows "ok (fold_emit f xs s) t (I xs)"
proof -
  have "ok (fold_emit f zs s) u (I xs)" if "xs = ys @ zs" "grown t u" "I ys s u" for ys zs s u
    using that
  proof (induction zs arbitrary: ys s u)
    case Nil
    then show ?case by (auto simp: grown_def intro: ok_return)
  next
    case (Cons z zs)
    have "ok (f z s) u (I (ys @ [z]))" using assms(3) [OF Cons.prems] .
    then show ?case using Cons.IH [of "ys @ [z]"] Cons.prems
      by (auto intro!: ok_gbind intro: grown_trans)
  qed
  then show ?thesis using assms(1,2) by force
qed

subsection \<open>Primitives\<close>

lemma list_index_in_range: "in_range t r \<Longrightarrow> list_index r (length (gt_ranks t)) = Some (nat r)"
  by (simp add: in_range_def list_index_def)

lemma program_at: "trace_ok t \<Longrightarrow> in_range t r \<Longrightarrow> program_ok r (gt_ranks t ! nat r)"
  unfolding trace_ok_def in_range_def by (metis nat_0_le nat_less_iff)

lemma grown_step:
  assumes "trace_ok t" "keeps trace_ok m" "keeps (extends t) m" "m t = (u, res)"
  shows "grown t u"
  using assms keepsD [OF assms(2), of t] keepsD [OF assms(3), of t] by (simp add: grown_def)

lemma ok_add:
  assumes t: "trace_ok t" "in_range t r" and k: "\<And>i. k = Some i \<Longrightarrow> nonblank i"
  shows "ok (on_rank r (rp_add line k)) t (\<lambda>l u. has u r l \<and> gt_messages u = gt_messages t)"
proof -
  have "(case k of None \<Rightarrow> None | Some k \<Rightarrow> goal_text k) = None" using k by (auto simp: goal_text_def split: option.splits)
  then obtain u l where u: "on_rank r (rp_add line k) t = (u, Inr l)" "l \<in> set (labels_of u r)" "gt_messages u = gt_messages t"
      "length (gt_ranks u) = length (gt_ranks t)"
    using t(2) by (auto simp: on_rank_def list_index_in_range rp_add_def Let_def labels_of_def in_range_def)
  then show ?thesis using grown_step [OF t(1) wf.add append.add u(1)] t(2) by (auto simp: ok_def has_def in_range_def)
qed

lemma label_nonblank: "trace_ok t \<Longrightarrow> has t r l \<Longrightarrow> nonblank l"
proof -
  assume "trace_ok t" "has t r l"
  then have "program_ok r (gt_ranks t ! nat r)" "l \<in> set (map go_label (rp_ops (gt_ranks t ! nat r)))"
    by (auto simp: has_def labels_of_def intro: program_at)
  then show "nonblank l" by (auto simp: program_ok_def op_label_def nonblank_def py_isspace_def)
qed

lemma ok_dep:
  assumes t: "trace_ok t" "has t r op" "has t r after" and rel: "relation \<in> {''requires'', ''irequires''}"
  shows "ok (on_rank r (record_dependency op after relation prov)) t (\<lambda>_ u. gt_messages u = gt_messages t)"
proof -
  have r: "in_range t r" and labels: "op \<in> set (map go_label (rp_ops (gt_ranks t ! nat r)))" "after \<in> set (map go_label (rp_ops (gt_ranks t ! nat r)))"
    using t(2,3) by (auto simp: has_def labels_of_def)
  have "rp_rank (gt_ranks t ! nat r) = r" using program_at [OF t(1) r] by (simp add: program_ok_def)
  then obtain p where "record_dependency op after relation prov (gt_ranks t ! nat r) = (p, Inr ())"
    using labels r rel label_nonblank [OF t(1)] t(2,3)
    by (simp add: record_dependency_def Let_def check_goal_dependency_def goal_integer_def goal_text_def in_range_def guard_def)
  then have "on_rank r (record_dependency op after relation prov) t = (t\<lparr>gt_ranks := (gt_ranks t)[nat r := p]\<rparr>, Inr ())"
    by (simp add: on_rank_def list_index_in_range [OF r])
  then show ?thesis using grown_step [OF t(1) wf.dep append.dep] by (auto simp: ok_def)
qed

lemma ok_msg:
  assumes t: "trace_ok t" and m: "check_goal_message m = None" "has t (gm_source_rank m) (gm_send_label m)"
    "has t (gm_destination_rank m) (gm_receive_label m)"
  shows "ok (record_message m) t (\<lambda>_ u. gt_messages u = gt_messages t @ [m])"
proof -
  have "record_message m t = (t\<lparr>gt_messages := gt_messages t @ [m]\<rparr>, Inr ())"
    using t m by (simp add: record_message_def has_def in_range_def trace_ok_def guard_def)
  then show ?thesis using grown_step [OF t wf.msg append.msg] by (auto simp: ok_def)
qed

definition frontier_ok :: "goal_trace \<Rightarrow> frontier \<Rightarrow> bool" where
  "frontier_ok t after \<longleftrightarrow> (\<forall>r l. map_of after r = Some l \<longrightarrow> has t r l)"

lemma grown_frontier: "grown t u \<Longrightarrow> frontier_ok t after \<Longrightarrow> frontier_ok u after"
  by (auto simp: frontier_ok_def intro: grown_has)

lemma ok_chain:
  assumes "trace_ok t" "has t r l" "frontier_ok t after"
  shows "ok (chain r l after prov) t (\<lambda>_ u. gt_messages u = gt_messages t)"
  using assms by (auto simp: chain_def frontier_ok_def requires_def intro!: ok_return ok_dep split: option.splits)

subsection \<open>What the renderer needs of a plan\<close>

text \<open>
  The round of an action is the round of its extent.  A plan is round ordered when every
  dependency points to an action of an earlier round; without the exact frontier the same round
  is early enough.
\<close>

definition action_round :: "collective_plan \<Rightarrow> plan_action \<Rightarrow> int" where
  "action_round p a = (case find (\<lambda>x. pe_extent_id x = pa_extent_id a) (cp_extents p) of None \<Rightarrow> 0 | Some x \<Rightarrow> pe_round_index x)"

definition round_ordered :: "bool \<Rightarrow> collective_plan \<Rightarrow> bool" where
  "round_ordered exact p =
     list_all (\<lambda>a. list_all (\<lambda>b. pa_action_id b \<in> set (pa_depends_on a) \<longrightarrow>
       (if exact then action_round p b < action_round p a else action_round p b \<le> action_round p a)) (cp_actions p)) (cp_actions p)"

definition action_known :: "collective_plan \<Rightarrow> plan_action \<Rightarrow> bool" where
  "action_known p a \<longleftrightarrow> (\<exists>x \<in> set (cp_extents p). map_of (pt_extents (plan_tables_of p)) (pa_extent_id a) = Some x \<and> end_of x a) \<and>
     round_of_action (plan_tables_of p) a = Some (action_round p a) \<and>
     0 \<le> action_round p a \<and> action_round p a < int (length (cp_rounds p)) \<and> pa_rank a \<in> set (cp_rank_order p) \<and>
     map_of (pt_actions (plan_tables_of p)) (pa_action_id a) = Some a"

lemma dict_of_distinct: "dict_ok kvs \<Longrightarrow> dict_of kvs = kvs"
  using fold_update_fresh [of "[]" fst kvs snd] by (simp add: dict_of_def case_prod_unfold)

lemma find_distinct: "distinct (map f xs) \<Longrightarrow> x \<in> set xs \<Longrightarrow> find (\<lambda>y. f y = f x) xs = Some x"
  by (induction xs) auto

lemma plan_extents_rounds:
  "plan_extents ranks rounds as seen used previous xs = None \<Longrightarrow> x \<in> set xs \<Longrightarrow>
   0 \<le> pe_round_index x \<and> pe_round_index x < int rounds \<and> 1 \<le> pe_payload_bytes x \<and> extent_requests x = None \<and>
   pe_source_rank x \<noteq> pe_destination_rank x \<and> 0 \<le> pe_source_rank x \<and> 0 \<le> pe_destination_rank x \<and>
   (\<exists>a \<in> set as. pa_action_id a = pe_send_action_id x \<and> pa_rank a = pe_source_rank x) \<and>
   (\<exists>a \<in> set as. pa_action_id a = pe_receive_action_id x \<and> pa_rank a = pe_destination_rank x)"
proof (induction xs arbitrary: seen used previous)
  case (Cons y xs)
  show ?case
  proof (cases "x = y")
    case True
    have y: "extent_checks ranks rounds as seen used previous y = None" using Cons.prems(1) by simp
    then have "extent_end as used (pe_extent_id y) (pe_send_action_id y) SEND (pe_source_rank y) = None"
      "extent_end as (pe_send_action_id y # used) (pe_extent_id y) (pe_receive_action_id y) RECEIVE (pe_destination_rank y) = None"
      by (simp_all add: extent_checks_def)
    then have "\<exists>a \<in> set as. pa_action_id a = pe_send_action_id y \<and> pa_rank a = pe_source_rank y"
      "\<exists>a \<in> set as. pa_action_id a = pe_receive_action_id y \<and> pa_rank a = pe_destination_rank y"
      by (blast elim: extent_end_accepted)+
    then show ?thesis using y unfolding True by (simp add: extent_checks_def)
  next
    case False
    then show ?thesis using Cons by (auto simp del: extent_ids_simps)
  qed
qed simp

lemma plan_actions_ranks: "plan_actions ranks seen as = None \<Longrightarrow> a \<in> set as \<Longrightarrow> pa_rank a \<in> set ranks"
  by (induction as arbitrary: seen) auto

lemma validated_action_known:
  assumes v: "validate_collective_plan digest p w = None" and a: "a \<in> set (cp_actions p)"
  shows "action_known p a"
proof -
  note vp = validated_plan [OF v]
  have xs: "plan_extents (cp_rank_order p) (length (cp_rounds p)) (cp_actions p) [] [] (- 1) (cp_extents p) = None"
    and as: "plan_actions (cp_rank_order p) [] (cp_actions p) = None"
    using v by (simp_all add: validate_collective_plan_def Let_def)
  obtain x b where x: "x \<in> set (cp_extents p)" "b \<in> set (cp_actions p)" "pa_action_id b = pa_action_id a" "end_of x b"
    using vp(6) [of "pa_action_id a"] vp(4) a by blast
  have "b = a" using x(2,3) a vp(1) by (auto simp: distinct_map inj_on_def)
  then have e: "end_of x a" "pe_extent_id x = pa_extent_id a" using x(4) by (auto simp: end_of_def)
  have "map_of (map (\<lambda>x. (pe_extent_id x, x)) (cp_extents p)) (pa_extent_id a) = Some x"
    using x(1) e(2) vp(3) by (intro map_of_is_SomeI) (force simp: o_def)+
  then have mx: "map_of (pt_extents (plan_tables_of p)) (pa_extent_id a) = Some x"
    using vp(3) by (simp add: plan_tables_of_def dict_of_distinct o_def)
  have "find (\<lambda>y. pe_extent_id y = pa_extent_id a) (cp_extents p) = Some x"
    using find_distinct [OF vp(3) x(1)] e(2) by simp
  then have rnd: "action_round p a = pe_round_index x" by (simp add: action_round_def)
  have "map_of (map (\<lambda>a. (pa_action_id a, a)) (cp_actions p)) (pa_action_id a) = Some a"
    using a vp(1) by (intro map_of_is_SomeI) (auto simp: o_def)
  then have ma: "map_of (pt_actions (plan_tables_of p)) (pa_action_id a) = Some a"
    using vp(1) by (simp add: plan_tables_of_def dict_of_distinct o_def)
  show ?thesis using x(1) mx e(1) rnd ma plan_extents_rounds [OF xs x(1)] plan_actions_ranks [OF as a]
    by (auto simp: action_known_def round_of_action_def)
qed

text \<open>A dependency is an action of the same rank.\<close>

lemma validated_dependency:
  assumes v: "validate_collective_plan digest p w = None" and a: "a \<in> set (cp_actions p)" and k: "k \<in> set (pa_depends_on a)"
  shows "\<exists>b \<in> set (cp_actions p). pa_action_id b = k \<and> pa_rank b = pa_rank a"
proof -
  obtain i where i: "i < length (cp_actions p)" "cp_actions p ! i = a" using a by (auto simp: in_set_conv_nth)
  have "k \<in> set (pa_depends_on (cp_actions p ! i))" using k i by simp
  then obtain j where "j < i" "pa_action_id (cp_actions p ! j) = k" "pa_rank (cp_actions p ! j) = pa_rank (cp_actions p ! i)"
    using plan_dependency_earlier [OF validated_plan(5) [OF v] validated_plan(1) [OF v] i(1)] by auto
  then show ?thesis using i by (intro bexI [of _ "cp_actions p ! j"]) auto
qed

lemma validated_round:
  assumes v: "validate_collective_plan digest p w = None" and i: "i < length (cp_rounds p)"
  shows "pr_round_index (cp_rounds p ! i) = int i" "0 \<le> pr_tag (cp_rounds p ! i)"
    "map_of (pt_rounds (plan_tables_of p)) (int i) = Some (cp_rounds p ! i)"
proof -
  have r: "plan_rounds (cp_rounds p) = None" using v by (simp add: validate_collective_plan_def Let_def)
  then show idx: "pr_round_index (cp_rounds p ! i) = int i" "0 \<le> pr_tag (cp_rounds p ! i)"
    using i by (simp_all add: plan_rounds_def enumerate_nth)
  have ix: "map pr_round_index (cp_rounds p) = map int [0..<length (cp_rounds p)]"
    using r by (intro nth_equalityI) (simp_all add: plan_rounds_def enumerate_nth)
  have d: "dict_ok (map (\<lambda>r. (pr_round_index r, r)) (cp_rounds p))" using ix by (simp add: o_def distinct_map)
  then have "map_of (map (\<lambda>r. (pr_round_index r, r)) (cp_rounds p)) (int i) = Some (cp_rounds p ! i)"
    using i idx(1) by (intro map_of_is_SomeI) force+
  then show "map_of (pt_rounds (plan_tables_of p)) (int i) = Some (cp_rounds p ! i)"
    using d by (simp add: plan_tables_of_def dict_of_distinct)
qed

subsection \<open>Rendering the rounds\<close>

text \<open>
  The state after some rounds: every action of an earlier round has a label on its rank, with
  the exact frontier also a join, and a rank's last round is one in which it acted.
\<close>

definition labelled :: "collective_plan \<Rightarrow> render_state \<Rightarrow> goal_trace \<Rightarrow> plan_action \<Rightarrow> bool" where
  "labelled p rs t a \<longleftrightarrow> (\<exists>l. map_of (rs_labels rs) (pa_action_id a) = Some l \<and> has t (pa_rank a) l)"

definition joined :: "render_state \<Rightarrow> goal_trace \<Rightarrow> int \<Rightarrow> int \<Rightarrow> bool" where
  "joined rs t r i \<longleftrightarrow> (\<exists>l. map_of (rs_joins rs) (r, i) = Some l \<and> has t r l)"

lemma grown_labelled: "grown t u \<Longrightarrow> labelled p rs t a \<Longrightarrow> labelled p rs u a"
  by (auto simp: labelled_def intro: grown_has)

lemma grown_joined: "grown t u \<Longrightarrow> joined rs t r i \<Longrightarrow> joined rs u r i"
  by (auto simp: joined_def intro: grown_has)

lemma ok_render_action:
  assumes t: "trace_ok t" "in_range t (pa_rank a)" and k: "nonblank k" and x: "map_of (pt_extents tb) (pa_extent_id a) = Some x"
  shows "ok (render_action k tb tag a rs) t (\<lambda>rs' u. gt_messages u = gt_messages t \<and>
    (\<exists>l. rs' = rs\<lparr>rs_labels := AList.update (pa_action_id a) l (rs_labels rs)\<rparr> \<and> has u (pa_rank a) l))"
proof -
  have "ok (case pa_kind a of
              SEND \<Rightarrow> on_rank (pa_rank a) (send (pe_payload_bytes x) (pe_destination_rank x) tag None (Some k))
            | RECEIVE \<Rightarrow> on_rank (pa_rank a) (recv (pe_payload_bytes x) (pe_source_rank x) tag None (Some k))) t
     (\<lambda>l u. has u (pa_rank a) l \<and> gt_messages u = gt_messages t)"
    using k by (cases "pa_kind a") (auto simp: send_def recv_def intro!: ok_add t)
  then show ?thesis unfolding render_action_def
    by (intro ok_gbind [OF ok_lookup [OF t(1) x, of "\<lambda>v u. v = x \<and> u = t"]]) (auto simp: grown_def intro!: ok_return ok_gbind)
qed

text \<open>First the operations of a round.\<close>

lemma ok_render_actions:
  assumes t: "trace_ok t" and r: "\<And>r. r \<in> set (cp_rank_order p) \<Longrightarrow> in_range t r" and k: "nonblank k"
    and known: "\<And>a. a \<in> set (cp_actions p) \<Longrightarrow> action_known p a" and as: "set as \<subseteq> set (cp_actions p)"
    and dist: "distinct (map pa_action_id (cp_actions p))"
  shows "ok (fold_emit (render_action k (plan_tables_of p) tag) as rs) t (\<lambda>rs' u. gt_messages u = gt_messages t \<and>
    rs_joins rs' = rs_joins rs \<and> rs_last rs' = rs_last rs \<and>
    (\<forall>a \<in> set (cp_actions p). labelled p rs t a \<or> a \<in> set as \<longrightarrow> labelled p rs' u a))"
proof (rule ok_fold [where I = "\<lambda>done rs' u. gt_messages u = gt_messages t \<and>
    rs_joins rs' = rs_joins rs \<and> rs_last rs' = rs_last rs \<and>
    (\<forall>a \<in> set (cp_actions p). labelled p rs t a \<or> a \<in> set done \<longrightarrow> labelled p rs' u a)", OF t])
  fix ys a zs rs' u
  assume split: "as = ys @ a # zs" and u: "grown t u" and I: "gt_messages u = gt_messages t \<and>
    rs_joins rs' = rs_joins rs \<and> rs_last rs' = rs_last rs \<and>
    (\<forall>a \<in> set (cp_actions p). labelled p rs t a \<or> a \<in> set ys \<longrightarrow> labelled p rs' u a)"
  have a: "a \<in> set (cp_actions p)" using as split by auto
  then obtain x where x: "map_of (pt_extents (plan_tables_of p)) (pa_extent_id a) = Some x"
    using known [of a] by (auto simp: action_known_def)
  have ur: "in_range u (pa_rank a)" using grown_in_range [OF u] known [OF a] r by (auto simp: action_known_def)
  have uok: "trace_ok u" using u by (simp add: grown_def)
  show "ok (render_action k (plan_tables_of p) tag a rs') u (\<lambda>rs' u. gt_messages u = gt_messages t \<and>
    rs_joins rs' = rs_joins rs \<and> rs_last rs' = rs_last rs \<and>
    (\<forall>b \<in> set (cp_actions p). labelled p rs t b \<or> b \<in> set (ys @ [a]) \<longrightarrow> labelled p rs' u b))"
  proof (rule ok_weaken [OF ok_render_action [OF uok ur k x]], elim conjE exE, intro conjI ballI impI)
    fix rs'' v l b
    assume v: "grown u v" "rs'' = rs'\<lparr>rs_labels := AList.update (pa_action_id a) l (rs_labels rs')\<rparr>" "has v (pa_rank a) l"
      and b: "b \<in> set (cp_actions p)" "labelled p rs t b \<or> b \<in> set (ys @ [a])"
    show "labelled p rs'' v b"
    proof (cases "b = a")
      case True
      then show ?thesis using v by (simp add: labelled_def)
    next
      case False
      then have "labelled p rs' u b" "pa_action_id b \<noteq> pa_action_id a" using I b a dist by (auto simp: distinct_map inj_on_def)
      then show ?thesis using grown_labelled [OF v(1), of p rs' b] by (simp add: labelled_def v(2))
    qed
  qed (use I in auto)
qed simp

text \<open>Then their dependencies: an action of the current round waits for labelled predecessors.\<close>

definition links_ready :: "bool \<Rightarrow> collective_plan \<Rightarrow> render_state \<Rightarrow> goal_trace \<Rightarrow> plan_action \<Rightarrow> bool" where
  "links_ready exact p rs t a \<longleftrightarrow> labelled p rs t a \<and>
     (\<forall>k \<in> set (pa_depends_on a). \<exists>b \<in> set (cp_actions p). pa_action_id b = k \<and> pa_rank b = pa_rank a \<and>
        (if exact then joined rs t (pa_rank b) (action_round p b) else labelled p rs t b))"

lemma grown_links_ready: "grown t u \<Longrightarrow> links_ready exact p rs t a \<Longrightarrow> links_ready exact p rs u a"
  unfolding links_ready_def by (cases exact; simp; blast intro: grown_labelled grown_joined)

lemma ok_predecessor:
  assumes t: "trace_ok t" and b: "action_known p b" and ready: "if exact then joined rs t (pa_rank b) (action_round p b) else labelled p rs t b"
  shows "ok (predecessor_label exact (plan_tables_of p) rs (pa_action_id b)) t (\<lambda>l u. u = t \<and> has t (pa_rank b) l)"
proof (cases exact)
  case True
  then obtain l where l: "map_of (rs_joins rs) (pa_rank b, action_round p b) = Some l" "has t (pa_rank b) l"
    using ready by (auto simp: joined_def)
  have "predecessor_label exact (plan_tables_of p) rs (pa_action_id b) = gbind (greturn b) (\<lambda>_. greturn l)"
    using True b l(1) by (simp add: predecessor_label_def action_known_def lookup_def gbind_def greturn_def fun_eq_iff)
  then show ?thesis using t l(2) by (simp add: ok_def gbind_def greturn_def)
next
  case False
  then show ?thesis using ready t by (auto simp: predecessor_label_def labelled_def intro!: ok_lookup)
qed

lemma ok_link_action:
  assumes t: "trace_ok t" and ready: "links_ready exact p rs t a" and front: "frontier_ok t after"
    and known: "\<And>a. a \<in> set (cp_actions p) \<Longrightarrow> action_known p a"
  shows "ok (link_action exact (plan_tables_of p) entries internal after prov rs (pa_rank a) a) t (\<lambda>_ u. gt_messages u = gt_messages t)"
proof -
  obtain l where l: "map_of (rs_labels rs) (pa_action_id a) = Some l" "has t (pa_rank a) l"
    using ready by (auto simp: links_ready_def labelled_def)
  have entry: "ok (if pa_action_id a \<in> set entries then chain (pa_rank a) l after prov else greturn ()) t (\<lambda>_ u. gt_messages u = gt_messages t)"
    using ok_chain [OF t l(2) front, of prov] t by (auto intro: ok_return)
  have deps: "ok (fold_emit (\<lambda>k _. gbind (predecessor_label exact (plan_tables_of p) rs k) (\<lambda>earlier.
      on_rank (pa_rank a) (requires l earlier (Some internal)))) (pa_depends_on a) ()) u (\<lambda>_ v. gt_messages v = gt_messages t)"
    if u: "grown t u" "gt_messages u = gt_messages t" for u
  proof (rule ok_fold [where I = "\<lambda>_ _ v. gt_messages v = gt_messages t"])
    fix ys k zs s v
    assume k: "pa_depends_on a = ys @ k # zs" and v: "grown u v" "gt_messages v = gt_messages t"
    have tv: "grown t v" using u(1) v(1) by (rule grown_trans)
    have "k \<in> set (pa_depends_on a)" by (simp add: k)
    then obtain b where b: "b \<in> set (cp_actions p)" "pa_action_id b = k" "pa_rank b = pa_rank a"
        "if exact then joined rs v (pa_rank b) (action_round p b) else labelled p rs v b"
      using grown_links_ready [OF tv ready] unfolding links_ready_def by blast
    have tok: "trace_ok v" using tv by (simp add: grown_def)
    show "ok (gbind (predecessor_label exact (plan_tables_of p) rs k) (\<lambda>earlier.
      on_rank (pa_rank a) (requires l earlier (Some internal)))) v (\<lambda>_ v. gt_messages v = gt_messages t)"
      unfolding b(2) [symmetric]
    proof (rule ok_gbind [OF ok_predecessor [OF tok known [OF b(1)] b(4)]], elim conjE)
      fix e x assume "x = v" "has v (pa_rank b) e"
      then show "ok (on_rank (pa_rank a) (requires l e (Some internal))) x (\<lambda>_ v. gt_messages v = gt_messages t)"
        unfolding requires_def using ok_dep [OF tok, of "pa_rank a" l e "''requires''"] grown_has [OF tv l(2)] b(3) v(2)
        by (auto intro: ok_weaken)
    qed
  qed (use u in \<open>auto simp: grown_def\<close>)
  have "ok (gbind (if pa_action_id a \<in> set entries then chain (pa_rank a) l after prov else greturn ()) (\<lambda>_.
       fold_emit (\<lambda>k _. gbind (predecessor_label exact (plan_tables_of p) rs k) (\<lambda>earlier.
         on_rank (pa_rank a) (requires l earlier (Some internal)))) (pa_depends_on a) ())) t (\<lambda>_ u. gt_messages u = gt_messages t)"
    using entry deps by (rule ok_gbind)
  then show ?thesis unfolding link_action_def
    by (intro ok_gbind [OF ok_lookup [OF t l(1), of "\<lambda>v u. v = l \<and> u = t"]]) auto
qed

lemma links_ready_mono:
  assumes "grown t u" "rs_labels rs' = rs_labels rs" "\<And>r j. joined rs t r j \<Longrightarrow> joined rs' u r j" "links_ready exact p rs t a"
  shows "links_ready exact p rs' u a"
proof -
  have "labelled p rs' u b" if "labelled p rs t b" for b
    using grown_labelled [OF assms(1) that] by (simp add: labelled_def assms(2))
  then show ?thesis using assms(3,4) unfolding links_ready_def by (cases exact; simp; blast)
qed

lemma ok_join:
  assumes t: "trace_ok t" "in_range t r" and k: "nonblank k" and as: "\<And>a. a \<in> set as \<Longrightarrow> labelled p rs t a \<and> pa_rank a = r"
    and f: "\<And>join u. grown t u \<Longrightarrow> has u r join \<Longrightarrow> gt_messages u = gt_messages t \<Longrightarrow> ok (f join) u Q"
  shows "ok (gbind (on_rank r (calc 0 None (Some k))) (\<lambda>join.
       gbind (fold_emit (\<lambda>a _. gbind (lookup (rs_labels rs) (pa_action_id a)) (\<lambda>label.
           on_rank r (requires join label (Some internal)))) as ()) (\<lambda>_. f join))) t Q"
proof (rule ok_gbind, unfold calc_def, rule ok_add [OF t])
  fix join u assume u: "grown t u" "has u r join \<and> gt_messages u = gt_messages t"
  show "ok (gbind (fold_emit (\<lambda>a _. gbind (lookup (rs_labels rs) (pa_action_id a)) (\<lambda>label.
           on_rank r (requires join label (Some internal)))) as ()) (\<lambda>_. f join)) u Q"
  proof (rule ok_gbind, rule ok_fold [where I = "\<lambda>_ _ v. gt_messages v = gt_messages t"])
    fix ys a zs s v assume a: "as = ys @ a # zs" and v: "grown u v" "gt_messages v = gt_messages t"
    have tv: "grown t v" using u(1) v(1) by (rule grown_trans)
    have v': "trace_ok v" using v(1) by (simp add: grown_def)
    obtain l where l: "map_of (rs_labels rs) (pa_action_id a) = Some l" "has v r l"
      using grown_labelled [OF tv, of p rs a] as [of a] a by (auto simp: labelled_def)
    show "ok (gbind (lookup (rs_labels rs) (pa_action_id a)) (\<lambda>label. on_rank r (requires join label (Some internal)))) v
        (\<lambda>_ v. gt_messages v = gt_messages t)"
      unfolding requires_def
      using ok_dep [OF v' grown_has [OF v(1)] l(2), of join "''requires''" "Some internal"] u(2) v(2)
      by (intro ok_gbind [OF ok_lookup [OF v' l(1), of "\<lambda>x w. x = l \<and> w = v"]]) (auto intro: ok_weaken)
  next
    fix v assume v: "grown u v" "gt_messages v = gt_messages t"
    show "ok (f join) v Q" using f [OF grown_trans [OF u(1) v(1)] grown_has [OF v(1)] v(2)] u(2) by blast
  qed (use u in \<open>auto simp: grown_def\<close>)
qed (use k in auto)

definition acts :: "plan_action list \<Rightarrow> int \<Rightarrow> bool" where
  "acts as r \<longleftrightarrow> (\<exists>a \<in> set as. pa_rank a = r)"

definition linked :: "bool \<Rightarrow> int \<Rightarrow> plan_action list \<Rightarrow> int set \<Rightarrow> render_state \<Rightarrow> goal_trace \<Rightarrow> render_state \<Rightarrow> goal_trace \<Rightarrow> bool" where
  "linked exact i as R rs t rs' u \<longleftrightarrow> gt_messages u = gt_messages t \<and> rs_labels rs' = rs_labels rs \<and>
     (\<forall>r j. joined rs t r j \<longrightarrow> joined rs' u r j) \<and> (\<forall>r \<in> R. exact \<and> acts as r \<longrightarrow> joined rs' u r i) \<and>
     (\<forall>r. map_of (rs_last rs') r = (if r \<in> R \<and> acts as r then Some i else map_of (rs_last rs) r))"

lemma ok_link_rank:
  assumes t: "trace_ok t" "in_range t r" and k: "nonblank k" and front: "frontier_ok t after"
    and known: "\<And>a. a \<in> set (cp_actions p) \<Longrightarrow> action_known p a" and ready: "\<And>a. a \<in> set as \<Longrightarrow> links_ready exact p rs t a"
  shows "ok (link_rank exact k (plan_tables_of p) entries internal after prov i as r rs) t (linked exact i as {r} rs t)"
proof (cases "acts as r")
  case False
  then have "filter (\<lambda>a. pa_rank a = r) as = []" by (auto simp: acts_def filter_empty_conv)
  then show ?thesis using False t(1) unfolding link_rank_def Let_def by (auto simp: linked_def intro!: ok_return)
next
  case True
  let ?as = "filter (\<lambda>a. pa_rank a = r) as" let ?rs = "rs\<lparr>rs_last := AList.update r i (rs_last rs)\<rparr>"
  have ne: "?as \<noteq> []" using True by (auto simp: acts_def filter_empty_conv)
  have ready': "links_ready exact p ?rs t a \<and> pa_rank a = r" if "a \<in> set ?as" for a
    using that t(1) by (intro conjI links_ready_mono [of t t ?rs rs, OF _ _ _ ready]) (auto simp: joined_def)
  have links: "ok (fold_emit (\<lambda>a _. link_action exact (plan_tables_of p) entries internal after prov ?rs r a) ?as ()) t
      (\<lambda>_ u. gt_messages u = gt_messages t)"
  proof (rule ok_fold [where I = "\<lambda>_ _ u. gt_messages u = gt_messages t", OF t(1)])
    fix ys a zs s u assume a: "?as = ys @ a # zs" and u: "grown t u" "gt_messages u = gt_messages t"
    have "a \<in> set ?as" using a by simp
    note a' = ready' [OF this]
    have "ok (link_action exact (plan_tables_of p) entries internal after prov ?rs (pa_rank a) a) u (\<lambda>_ v. gt_messages v = gt_messages u)"
      using u(1) a' known by (intro ok_link_action grown_frontier [OF u(1) front] grown_links_ready [OF u(1)]) (auto simp: grown_def)
    then show "ok (link_action exact (plan_tables_of p) entries internal after prov ?rs r a) u (\<lambda>_ v. gt_messages v = gt_messages t)"
      using a' u(2) by simp
  qed simp
  have "joined (?rs\<lparr>rs_joins := AList.update (r, i) join (rs_joins ?rs)\<rparr>) u r' j"
    if "grown t u" "has u r join" "joined rs t r' j \<or> (r', j) = (r, i)" for join u r' j
    using that grown_joined [of t u rs r' j] by (auto simp: joined_def)
  then have upd: "linked exact i as {r} rs t (?rs\<lparr>rs_joins := AList.update (r, i) join (rs_joins ?rs)\<rparr>) u"
    if "grown t u" "has u r join" "gt_messages u = gt_messages t" for join u
    using that True by (auto simp: linked_def)
  show ?thesis unfolding link_rank_def Let_def
  proof (simp only: ne if_False, rule ok_gbind [OF links], cases exact, goal_cases)
    case (1 x u)
    have as: "labelled p ?rs u a \<and> pa_rank a = r" if "a \<in> set ?as" for a
      using grown_links_ready [OF 1(1)] ready' [OF that] by (auto simp: links_ready_def)
    have u: "trace_ok u" "in_range u r" using 1(1) t(2) grown_in_range [OF 1(1)] by (auto simp: grown_def)
    show ?case unfolding if_P [OF 1(3)]
    proof (rule ok_join [OF u k as])
      fix join v assume v: "grown u v" "has v r join" "gt_messages v = gt_messages u"
      have "linked exact i as {r} rs t (?rs\<lparr>rs_joins := AList.update (r, i) join (rs_joins ?rs)\<rparr>) v"
        using upd [OF grown_trans [OF 1(1) v(1)] v(2)] v(3) 1(2) by simp
      then show "ok (greturn (?rs\<lparr>rs_joins := AList.update (r, i) join (rs_joins ?rs)\<rparr>)) v (linked exact i as {r} rs t)"
        using v(1) by (intro ok_return) (simp_all add: grown_def)
    qed
  next
    case (2 x u)
    have "joined ?rs u r' j" if "joined rs t r' j" for r' j
      using grown_joined [OF 2(1) that] by (simp add: joined_def)
    then show ?case unfolding if_not_P [OF 2(3)] using 2 True by (intro ok_return) (auto simp: linked_def grown_def)
  qed
qed

lemma linked_trans:
  assumes "linked exact i as R rs t rs' u" "linked exact i as {r} rs' u rs'' v"
  shows "linked exact i as (insert r R) rs t rs'' v"
  using assms unfolding linked_def by (auto split: if_splits)

lemma ok_link_ranks:
  assumes t: "trace_ok t" and r: "\<And>r. r \<in> set ranks \<Longrightarrow> in_range t r" and k: "nonblank k" and front: "frontier_ok t after"
    and known: "\<And>a. a \<in> set (cp_actions p) \<Longrightarrow> action_known p a" and ready: "\<And>a. a \<in> set as \<Longrightarrow> links_ready exact p rs t a"
  shows "ok (fold_emit (link_rank exact k (plan_tables_of p) entries internal after prov i as) ranks rs) t
    (linked exact i as (set ranks) rs t)"
proof (rule ok_fold [where I = "\<lambda>done. linked exact i as (set done) rs t", OF t])
  show "linked exact i as (set []) rs t rs t" by (simp add: linked_def)
next
  fix ys r' zs rs' u assume x: "ranks = ys @ r' # zs" and u: "grown t u" and I: "linked exact i as (set ys) rs t rs' u"
  have u': "trace_ok u" "in_range u r'" using u r [of r'] x grown_in_range [OF u] by (auto simp: grown_def)
  have "links_ready exact p rs' u a" if "a \<in> set as" for a
    using I by (intro links_ready_mono [OF u _ _ ready [OF that]]) (auto simp: linked_def)
  then have "ok (link_rank exact k (plan_tables_of p) entries internal after prov i as r' rs') u (linked exact i as {r'} rs' u)"
    using ok_link_rank [OF u' k grown_frontier [OF u front] known] by blast
  then show "ok (link_rank exact k (plan_tables_of p) entries internal after prov i as r' rs') u
      (linked exact i as (set (ys @ [r'])) rs t)"
    by (rule ok_weaken) (use linked_trans [OF I] in auto)
qed

text \<open>The invariant of the loop over the rounds.\<close>

definition rendered :: "bool \<Rightarrow> collective_plan \<Rightarrow> goal_message list \<Rightarrow> int \<Rightarrow> render_state \<Rightarrow> goal_trace \<Rightarrow> bool" where
  "rendered exact p ms i rs t \<longleftrightarrow> gt_messages t = ms \<and>
     (\<forall>a \<in> set (cp_actions p). action_round p a < i \<longrightarrow> labelled p rs t a \<and> (exact \<longrightarrow> joined rs t (pa_rank a) (action_round p a))) \<and>
     (\<forall>r j. map_of (rs_last rs) r = Some j \<longrightarrow> (\<exists>a \<in> set (cp_actions p). pa_rank a = r \<and> action_round p a = j \<and> j < i))"

definition in_round :: "collective_plan \<Rightarrow> int \<Rightarrow> plan_action list" where
  "in_round p i = filter (\<lambda>a. round_of_action (plan_tables_of p) a = Some i) (cp_actions p)"

lemma in_round_iff:
  assumes "validate_collective_plan digest p w = None"
  shows "a \<in> set (in_round p i) \<longleftrightarrow> a \<in> set (cp_actions p) \<and> action_round p a = i"
  using validated_action_known [OF assms] by (auto simp: in_round_def action_known_def)

text \<open>After the operations of round \<open>i\<close> all actions up to that round are labelled, so its links are ready.\<close>

lemma round_links_ready:
  assumes v: "validate_collective_plan digest p w = None" and ord: "round_ordered exact p" and a: "a \<in> set (in_round p i)"
    and lab: "\<And>b. b \<in> set (cp_actions p) \<Longrightarrow> action_round p b \<le> i \<Longrightarrow> labelled p rs t b"
    and join: "\<And>b. exact \<Longrightarrow> b \<in> set (cp_actions p) \<Longrightarrow> action_round p b < i \<Longrightarrow> joined rs t (pa_rank b) (action_round p b)"
  shows "links_ready exact p rs t a"
proof -
  have a': "a \<in> set (cp_actions p)" "action_round p a = i" using a in_round_iff [OF v] by auto
  have "\<exists>b \<in> set (cp_actions p). pa_action_id b = d \<and> pa_rank b = pa_rank a \<and>
      (if exact then joined rs t (pa_rank b) (action_round p b) else labelled p rs t b)" if d: "d \<in> set (pa_depends_on a)" for d
  proof -
    obtain b where b: "b \<in> set (cp_actions p)" "pa_action_id b = d" "pa_rank b = pa_rank a"
      using validated_dependency [OF v a'(1) d] by blast
    have "if exact then action_round p b < action_round p a else action_round p b \<le> action_round p a"
      using ord a'(1) b d by (simp add: round_ordered_def list_all_iff)
    then show ?thesis using b a'(2) lab [of b] join [of b] by (intro bexI [of _ b]) (auto split: if_splits)
  qed
  then show ?thesis using lab [OF a'(1)] a'(2) by (simp add: links_ready_def)
qed

lemma linked_rendered:
  assumes v: "validate_collective_plan digest p w = None" and u: "grown t u"
    and L: "linked exact i (in_round p i) (set (cp_rank_order p)) rs t rs' u"
    and lab: "\<And>b. b \<in> set (cp_actions p) \<Longrightarrow> action_round p b \<le> i \<Longrightarrow> labelled p rs t b"
    and join: "\<And>b. exact \<Longrightarrow> b \<in> set (cp_actions p) \<Longrightarrow> action_round p b < i \<Longrightarrow> joined rs t (pa_rank b) (action_round p b)"
    and last: "\<And>r j. map_of (rs_last rs) r = Some j \<Longrightarrow> \<exists>a \<in> set (cp_actions p). pa_rank a = r \<and> action_round p a = j \<and> j < i"
  shows "rendered exact p (gt_messages t) (i + 1) rs' u"
proof -
  have "labelled p rs' u a" if "a \<in> set (cp_actions p)" "action_round p a \<le> i" for a
    using grown_labelled [OF u lab [OF that]] L by (simp add: labelled_def linked_def)
  moreover have "joined rs' u (pa_rank a) (action_round p a)" if "exact" "a \<in> set (cp_actions p)" "action_round p a \<le> i" for a
  proof (cases "action_round p a = i")
    case True
    then have "acts (in_round p i) (pa_rank a)" using in_round_iff [OF v] that(2) by (auto simp: acts_def)
    then show ?thesis using L that(1,2) validated_action_known [OF v, of a] True by (auto simp: linked_def action_known_def)
  next
    case False
    then show ?thesis using L join [of a] that by (auto simp: linked_def)
  qed
  moreover have "\<exists>a \<in> set (cp_actions p). pa_rank a = r \<and> action_round p a = j \<and> j < i + 1"
    if j: "map_of (rs_last rs') r = Some j" for r j
  proof (cases "r \<in> set (cp_rank_order p) \<and> acts (in_round p i) r")
    case True
    then have "j = i" using L j by (auto simp: linked_def)
    then show ?thesis using True in_round_iff [OF v] by (auto simp: acts_def)
  next
    case False
    then have "map_of (rs_last rs) r = Some j" using L j by (auto simp: linked_def split: if_splits)
    then show ?thesis using last by fastforce
  qed
  moreover have "gt_messages u = gt_messages t" using L by (simp add: linked_def)
  ultimately show ?thesis unfolding rendered_def by auto
qed

lemma ok_render_round:
  assumes v: "validate_collective_plan digest p w = None" and ord: "round_ordered exact p"
    and t: "trace_ok t" and r: "\<And>r. r \<in> set (cp_rank_order p) \<Longrightarrow> in_range t r" and front: "frontier_ok t after"
    and i: "i < length (cp_rounds p)" and I: "rendered exact p ms (int i) rs t"
  shows "ok (render_round exact p (plan_tables_of p) entries internal after prov (cp_rounds p ! i) rs) t
    (rendered exact p ms (int i + 1))"
proof -
  note known = validated_action_known [OF v]
  let ?as = "in_round p (int i)"
  have k: "nonblank (cp_operation_id p)" using v by (simp add: validate_collective_plan_def plan_header_def Let_def)
  have sub: "set ?as \<subseteq> set (cp_actions p)" by (auto simp: in_round_def)
  note acts = ok_render_actions [OF t r k known sub validated_plan(1) [OF v]]
  show ?thesis unfolding render_round_def Let_def validated_round(1) [OF v i] in_round_def [symmetric]
  proof (rule ok_gbind [OF acts], assumption, assumption, elim conjE)
    fix rs' u
    assume u: "grown t u" and m: "gt_messages u = gt_messages t" and j: "rs_joins rs' = rs_joins rs" and l: "rs_last rs' = rs_last rs"
      and labs: "\<forall>a \<in> set (cp_actions p). labelled p rs t a \<or> a \<in> set ?as \<longrightarrow> labelled p rs' u a"
    have lab: "labelled p rs' u a" if "a \<in> set (cp_actions p)" "action_round p a \<le> int i" for a
      using that I labs in_round_iff [OF v, of a "int i"] by (cases "action_round p a = int i") (auto simp: rendered_def)
    have join: "joined rs' u (pa_rank a) (action_round p a)" if "exact" "a \<in> set (cp_actions p)" "action_round p a < int i" for a
      using that I grown_joined [OF u, of rs] by (simp add: rendered_def joined_def j)
    have ur: "in_range u r" if "r \<in> set (cp_rank_order p)" for r using r [OF that] grown_in_range [OF u] by simp
    have uok: "trace_ok u" using u by (simp add: grown_def)
    note ready = round_links_ready [OF v ord _ lab join]
    show "ok (fold_emit (link_rank exact (cp_operation_id p) (plan_tables_of p) entries internal after prov (int i) ?as)
        (cp_rank_order p) rs') u (rendered exact p ms (int i + 1))"
      by (rule ok_weaken [OF ok_link_ranks [OF uok ur k grown_frontier [OF u front] known ready]])
        (use linked_rendered [OF v _ _ lab join] I m l in \<open>auto simp: rendered_def\<close>)
  qed
qed

subsection \<open>Messages and frontier\<close>

text \<open>The message that stands for an extent.\<close>

definition stands_for :: "collective_plan \<Rightarrow> goal_trace \<Rightarrow> plan_extent \<Rightarrow> goal_message \<Rightarrow> bool" where
  "stands_for p t x m \<longleftrightarrow> gm_operation_id m = Some (cp_operation_id p) \<and> gm_source_rank m = pe_source_rank x \<and>
     gm_destination_rank m = pe_destination_rank x \<and> gm_payload_bytes m = pe_payload_bytes x \<and>
     gm_tag m = pr_tag (cp_rounds p ! nat (pe_round_index x)) \<and> gm_request_payload_bytes m = pe_request_payload_bytes x \<and>
     gm_send_label m \<in> set (labels_of t (pe_source_rank x)) \<and> gm_receive_label m \<in> set (labels_of t (pe_destination_rank x))"

lemma grown_stands_for: "grown t u \<Longrightarrow> in_range t (pe_source_rank x) \<Longrightarrow> in_range t (pe_destination_rank x) \<Longrightarrow> stands_for p t x m \<Longrightarrow> stands_for p u x m"
  using grown_has [of t u] by (auto simp: stands_for_def has_def)

lemma ok_render_message:
  assumes v: "validate_collective_plan digest p w = None" and x: "x \<in> set (cp_extents p)"
    and t: "trace_ok t" and lab: "\<And>a. a \<in> set (cp_actions p) \<Longrightarrow> labelled p rs t a"
  shows "ok (render_message (cp_operation_id p) (plan_tables_of p) rs x) t
    (\<lambda>_ u. \<exists>m. gt_messages u = gt_messages t @ [m] \<and> stands_for p u x m)"
proof -
  have xs: "plan_extents (cp_rank_order p) (length (cp_rounds p)) (cp_actions p) [] [] (- 1) (cp_extents p) = None"
    and k: "nonblank (cp_operation_id p)"
    using v by (simp_all add: validate_collective_plan_def plan_header_def Let_def)
  note fx = plan_extents_rounds [OF xs x]
  let ?i = "nat (pe_round_index x)" let ?r = "cp_rounds p ! ?i"
  have i: "?i < length (cp_rounds p)" "int ?i = pe_round_index x" using fx by auto
  have rnd: "map_of (pt_rounds (plan_tables_of p)) (pe_round_index x) = Some ?r" "0 \<le> pr_tag ?r"
    using validated_round(2,3) [OF v i(1)] i(2) by simp_all
  obtain tx where tx: "map_of (rs_labels rs) (pe_send_action_id x) = Some tx" "has t (pe_source_rank x) tx"
    using fx lab by (fastforce simp: labelled_def)
  obtain rx where rx: "map_of (rs_labels rs) (pe_receive_action_id x) = Some rx" "has t (pe_destination_rank x) rx"
    using fx lab by (fastforce simp: labelled_def)
  let ?m = "\<lparr>gm_operation_id = Some (cp_operation_id p), gm_source_rank = pe_source_rank x,
         gm_destination_rank = pe_destination_rank x, gm_payload_bytes = pe_payload_bytes x, gm_tag = pr_tag ?r,
         gm_send_label = tx, gm_receive_label = rx, gm_request_payload_bytes = pe_request_payload_bytes x\<rparr>"
  have "check_goal_message ?m = None"
    using fx k rnd(2) label_nonblank [OF t tx(2)] label_nonblank [OF t rx(2)]
    by (auto simp: check_goal_message_def Let_def goal_text_def goal_integer_def extent_requests_def first_err_None_iff)
  then have "ok (record_message ?m) t (\<lambda>_ u. gt_messages u = gt_messages t @ [?m])"
    using tx(2) rx(2) by (intro ok_msg [OF t]) simp_all
  then have "ok (record_message ?m) t (\<lambda>_ u. \<exists>m. gt_messages u = gt_messages t @ [m] \<and> stands_for p u x m)"
  proof (rule ok_weaken)
    fix y u assume u: "grown t u" "gt_messages u = gt_messages t @ [?m]"
    have "stands_for p u x ?m" using grown_has [OF u(1) tx(2)] grown_has [OF u(1) rx(2)] by (simp add: stands_for_def has_def)
    then show "\<exists>m. gt_messages u = gt_messages t @ [m] \<and> stands_for p u x m" using u(2) by blast
  qed
  moreover have "render_message (cp_operation_id p) (plan_tables_of p) rs x t = record_message ?m t"
    by (simp add: render_message_def lookup_def rnd(1) tx(1) rx(1) gbind_def greturn_def)
  ultimately show ?thesis by (simp add: ok_def)
qed

lemma validated_ends:
  assumes v: "validate_collective_plan digest p w = None" and x: "x \<in> set (cp_extents p)"
  shows "pe_source_rank x \<in> set (cp_rank_order p)" "pe_destination_rank x \<in> set (cp_rank_order p)"
proof -
  have "plan_extents (cp_rank_order p) (length (cp_rounds p)) (cp_actions p) [] [] (- 1) (cp_extents p) = None"
    and as: "plan_actions (cp_rank_order p) [] (cp_actions p) = None"
    using v by (simp_all add: validate_collective_plan_def Let_def)
  from plan_extents_rounds [OF this(1) x]
  show "pe_source_rank x \<in> set (cp_rank_order p)" "pe_destination_rank x \<in> set (cp_rank_order p)"
    using plan_actions_ranks [OF as] by metis+
qed

lemma ok_render_messages:
  assumes v: "validate_collective_plan digest p w = None"
    and t: "trace_ok t" "\<And>r. r \<in> set (cp_rank_order p) \<Longrightarrow> in_range t r" and lab: "\<And>a. a \<in> set (cp_actions p) \<Longrightarrow> labelled p rs t a"
  shows "ok (fold_emit (\<lambda>x _. render_message (cp_operation_id p) (plan_tables_of p) rs x) (cp_extents p) ()) t
    (\<lambda>_ u. \<exists>ms. gt_messages u = gt_messages t @ ms \<and> list_all2 (stands_for p u) (cp_extents p) ms)"
proof (rule ok_fold [where I = "\<lambda>done _ u. \<exists>ms. gt_messages u = gt_messages t @ ms \<and> list_all2 (stands_for p u) done ms", OF t(1)])
  fix ys x zs s u
  assume x: "cp_extents p = ys @ x # zs" and u: "grown t u"
    and "\<exists>ms. gt_messages u = gt_messages t @ ms \<and> list_all2 (stands_for p u) ys ms"
  then obtain ms where ms: "gt_messages u = gt_messages t @ ms" "list_all2 (stands_for p u) ys ms" by blast
  have ends: "in_range u (pe_source_rank y) \<and> in_range u (pe_destination_rank y)" if "y \<in> set (cp_extents p)" for y
    using validated_ends [OF v that] t(2) grown_in_range [OF u] by simp
  have "ok (render_message (cp_operation_id p) (plan_tables_of p) rs x) u
    (\<lambda>_ u'. \<exists>m. gt_messages u' = gt_messages u @ [m] \<and> stands_for p u' x m)"
    using u grown_labelled [OF u lab] x by (intro ok_render_message [OF v]) (auto simp: grown_def)
  then show "ok (render_message (cp_operation_id p) (plan_tables_of p) rs x) u
    (\<lambda>_ u. \<exists>ms. gt_messages u = gt_messages t @ ms \<and> list_all2 (stands_for p u) (ys @ [x]) ms)"
  proof (rule ok_weaken, elim exE conjE)
    fix y u' m assume u': "grown u u'" and m: "gt_messages u' = gt_messages u @ [m]" "stands_for p u' x m"
    have "list_all2 (stands_for p u') ys ms"
      using ms(2) by (rule list.rel_mono_strong) (use ends x grown_stands_for [OF u'] in auto)
    then show "\<exists>ms. gt_messages u' = gt_messages t @ ms \<and> list_all2 (stands_for p u') (ys @ [x]) ms"
      using m ms(1) by (intro exI [of _ "ms @ [m]"]) (simp add: list_all2_appendI)
  qed
qed simp

lemma ok_lookup_all:
  assumes "trace_ok t" "\<And>k. k \<in> set ks \<Longrightarrow> \<exists>l. map_of d k = Some l \<and> has t r l"
  shows "ok (lookup_all d ks) t (\<lambda>ls u. u = t \<and> (\<forall>l \<in> set ls. has t r l))"
proof -
  obtain f where f: "\<And>k. k \<in> set ks \<Longrightarrow> map_of d k = Some (f k) \<and> has t r (f k)" using assms(2) by metis
  then have "lookup_all d ks = greturn (map f ks)"
    by (induction ks) (auto simp: lookup_def gbind_def greturn_def fun_eq_iff)
  then show ?thesis using f assms(1) by (auto intro!: ok_return)
qed

lemma ok_receives_of:
  assumes "trace_ok t" "\<And>k. k \<in> set ks \<Longrightarrow> \<exists>l a. map_of (rs_labels rs) k = Some l \<and> has t r l \<and> map_of (pt_actions tb) k = Some a"
  shows "ok (receives_of tb rs ks) t (\<lambda>ls u. u = t \<and> (\<forall>l \<in> set ls. has t r l))"
proof -
  obtain f g where f: "\<And>k. k \<in> set ks \<Longrightarrow> map_of (rs_labels rs) k = Some (f k) \<and> has t r (f k) \<and> map_of (pt_actions tb) k = Some (g k)"
    using assms(2) by metis
  then have "receives_of tb rs ks = greturn (map f (filter (\<lambda>k. pa_kind (g k) = RECEIVE) ks))"
    by (induction ks) (auto simp: lookup_def gbind_def greturn_def fun_eq_iff)
  then show ?thesis using f assms(1) by (auto intro!: ok_return)
qed

lemma frontier_ok_update: "frontier_ok t f \<Longrightarrow> has t r l \<Longrightarrow> frontier_ok t (AList.update r l f)"
  by (simp add: frontier_ok_def)

lemma ok_rank_frontier:
  assumes t: "trace_ok t" "in_range t r" and k: "nonblank k" and front: "frontier_ok t after" "frontier_ok t f"
    and last: "\<And>j. exact \<Longrightarrow> map_of (rs_last rs) r = Some j \<Longrightarrow> joined rs t r j"
    and ids: "\<And>i. i \<in> set ids \<Longrightarrow> \<exists>l a. map_of (rs_labels rs) i = Some l \<and> has t r l \<and> map_of (pt_actions tb) i = Some a"
  shows "ok (rank_frontier exact k tb after rs (r, ids) f) t (\<lambda>f' u. frontier_ok u f' \<and> gt_messages u = gt_messages t)"
proof (cases exact)
  case True
  show ?thesis
  proof (cases "map_of (rs_last rs) r")
    case (Some j)
    then obtain l where "map_of (rs_joins rs) (r, j) = Some l" "has t r l" using last [OF True] by (auto simp: joined_def)
    then show ?thesis using True Some t front
      by (auto simp: rank_frontier_def lookup_def intro!: ok_gbind [OF ok_return [OF t(1), of "\<lambda>x u. x = l \<and> u = t"]] ok_return frontier_ok_update)
  next
    case last_none: None
    show ?thesis
    proof (cases "map_of after r")
      case None
      have "ok (gbind (on_rank r (calc 0 None (Some k))) (\<lambda>point. greturn (AList.update r point f))) t
          (\<lambda>f' u. frontier_ok u f' \<and> gt_messages u = gt_messages t)"
        unfolding calc_def using k
        by (intro ok_gbind [OF ok_add [OF t]]) (auto simp: grown_def intro!: ok_return frontier_ok_update grown_frontier [OF _ front(2)])
      then show ?thesis using True None last_none by (simp add: rank_frontier_def)
    next
      case (Some l)
      then have "has t r l" using front(1) by (simp add: frontier_ok_def)
      then show ?thesis using True last_none Some t front(2) by (auto simp: rank_frontier_def intro!: ok_return frontier_ok_update)
    qed
  qed
next
  case False
  have all: "ok (lookup_all (rs_labels rs) ids) t (\<lambda>ls u. u = t \<and> (\<forall>l \<in> set ls. has t r l))"
    using ids by (intro ok_lookup_all [OF t(1)]) blast
  have "ok (if receives \<noteq> [] then greturn (AList.update r (List.last receives) f)
         else gbind (lookup_all (rs_labels rs) ids) (\<lambda>sends.
           greturn (if sends \<noteq> [] then AList.update r (hd sends) f else f))) t (\<lambda>f' u. frontier_ok u f' \<and> gt_messages u = gt_messages t)"
    if "\<forall>l \<in> set receives. has t r l" for receives
    using that t front(2) by (auto intro!: ok_return frontier_ok_update ok_gbind [OF all])
  then show ?thesis using False ok_receives_of [OF t(1) ids]
    by (auto simp: rank_frontier_def intro!: ok_gbind)
qed

lemma validated_terminals:
  assumes v: "validate_collective_plan digest p w = None" and e: "(r, ids) \<in> set (cp_terminal_action_ids p)"
  shows "r \<in> set (cp_rank_order p)" and "i \<in> set ids \<Longrightarrow> \<exists>a \<in> set (cp_actions p). pa_action_id a = i \<and> pa_rank a = r"
proof -
  have "cp_terminal_action_ids p = expected_terminals (cp_rank_order p) (cp_actions p)"
    using v by (simp add: validate_collective_plan_def Let_def)
  then show "r \<in> set (cp_rank_order p)" "i \<in> set ids \<Longrightarrow> \<exists>a \<in> set (cp_actions p). pa_action_id a = i \<and> pa_rank a = r"
    using e by (auto simp: expected_terminals_def Let_def)
qed

lemma ok_frontiers:
  assumes v: "validate_collective_plan digest p w = None"
    and t: "trace_ok t" "\<And>r. r \<in> set (cp_rank_order p) \<Longrightarrow> in_range t r" and front: "frontier_ok t after"
    and I: "rendered exact p ms (int (length (cp_rounds p))) rs t0" "grown t0 t"
  shows "ok (fold_emit (rank_frontier exact (cp_operation_id p) (plan_tables_of p) after rs) (cp_terminal_action_ids p) []) t
    (\<lambda>f u. frontier_ok u f \<and> gt_messages u = gt_messages t)"
proof (rule ok_fold [where I = "\<lambda>_ f u. frontier_ok u f \<and> gt_messages u = gt_messages t", OF t(1)])
  fix ys entry zs f u
  assume e: "cp_terminal_action_ids p = ys @ entry # zs" and u: "grown t u" and f: "frontier_ok u f \<and> gt_messages u = gt_messages t"
  obtain r ids where re: "entry = (r, ids)" by (cases entry)
  have mem: "(r, ids) \<in> set (cp_terminal_action_ids p)" using e re by simp
  have t0u: "grown t0 u" using I(2) u by (rule grown_trans)
  have k: "nonblank (cp_operation_id p)" using v by (simp add: validate_collective_plan_def plan_header_def Let_def)
  have lab: "labelled p rs u a \<and> (exact \<longrightarrow> joined rs u (pa_rank a) (action_round p a))" if "a \<in> set (cp_actions p)" for a
    using I(1) validated_action_known [OF v that] that grown_labelled [OF t0u] grown_joined [OF t0u]
    by (auto simp: rendered_def action_known_def)
  have "joined rs u r j" if "exact" "map_of (rs_last rs) r = Some j" for j
    using I(1) that lab by (fastforce simp: rendered_def)
  moreover have "\<exists>l a. map_of (rs_labels rs) i = Some l \<and> has u r l \<and> map_of (pt_actions (plan_tables_of p)) i = Some a" if "i \<in> set ids" for i
    using validated_terminals(2) [OF v mem that] lab validated_action_known [OF v] by (fastforce simp: labelled_def action_known_def)
  ultimately have "ok (rank_frontier exact (cp_operation_id p) (plan_tables_of p) after rs (r, ids) f) u
      (\<lambda>f' u'. frontier_ok u' f' \<and> gt_messages u' = gt_messages u)"
    using u f t(2) [OF validated_terminals(1) [OF v mem]] grown_in_range [OF u] grown_frontier [OF u front] k
    by (intro ok_rank_frontier) (auto simp: grown_def)
  then show "ok (rank_frontier exact (cp_operation_id p) (plan_tables_of p) after rs entry f) u
      (\<lambda>f u. frontier_ok u f \<and> gt_messages u = gt_messages t)"
    unfolding re by (rule ok_weaken) (use f in auto)
qed (simp add: frontier_ok_def)

lemma ok_after_rounds:
  assumes v: "validate_collective_plan digest p w = None"
    and t: "trace_ok t" "\<And>r. r \<in> set (cp_rank_order p) \<Longrightarrow> in_range t r" and front: "frontier_ok t after"
    and I: "rendered exact p ms0 (int (length (cp_rounds p))) rs t"
  shows "ok (gbind (fold_emit (\<lambda>x _. render_message (cp_operation_id p) (plan_tables_of p) rs x) (cp_extents p) ()) (\<lambda>_.
      fold_emit (rank_frontier exact (cp_operation_id p) (plan_tables_of p) after rs) (cp_terminal_action_ids p) [])) t
    (\<lambda>f u. frontier_ok u f \<and> (\<exists>ms. gt_messages u = ms0 @ ms \<and> list_all2 (stands_for p u) (cp_extents p) ms))"
proof (rule ok_gbind)
  have lab: "labelled p rs t a" if "a \<in> set (cp_actions p)" for a
    using I validated_action_known [OF v that] that by (auto simp: rendered_def action_known_def)
  show "ok (fold_emit (\<lambda>x _. render_message (cp_operation_id p) (plan_tables_of p) rs x) (cp_extents p) ()) t
      (\<lambda>_ u. \<exists>ms. gt_messages u = gt_messages t @ ms \<and> list_all2 (stands_for p u) (cp_extents p) ms)"
    by (rule ok_render_messages [OF v t(1) t(2) lab])
next
  fix y u assume u: "grown t u" and "\<exists>ms. gt_messages u = gt_messages t @ ms \<and> list_all2 (stands_for p u) (cp_extents p) ms"
  then obtain ms where ms: "gt_messages u = ms0 @ ms" "list_all2 (stands_for p u) (cp_extents p) ms"
    using I by (auto simp: rendered_def)
  have ru: "in_range u r" if "r \<in> set (cp_rank_order p)" for r using t(2) [OF that] grown_in_range [OF u] by simp
  have "trace_ok u" using u by (simp add: grown_def)
  from ok_frontiers [OF v this ru grown_frontier [OF u front] I u]
  show "ok (fold_emit (rank_frontier exact (cp_operation_id p) (plan_tables_of p) after rs) (cp_terminal_action_ids p) []) u
      (\<lambda>f u. frontier_ok u f \<and> (\<exists>ms. gt_messages u = ms0 @ ms \<and> list_all2 (stands_for p u) (cp_extents p) ms))"
  proof (rule ok_weaken)
    fix f x assume x: "grown u x" "frontier_ok x f \<and> gt_messages x = gt_messages u"
    have "list_all2 (stands_for p x) (cp_extents p) ms"
      using ms(2) by (rule list.rel_mono_strong) (use validated_ends [OF v] ru grown_stands_for [OF x(1)] in auto)
    then show "frontier_ok x f \<and> (\<exists>ms. gt_messages x = ms0 @ ms \<and> list_all2 (stands_for p x) (cp_extents p) ms)"
      using x(2) ms(1) by auto
  qed
qed

text \<open>
  C32. A validated plan is rendered completely.  On a well-formed trace that has the plan's
  ranks, with a frontier of labels of those ranks, rendering a validated plan whose
  dependencies point to earlier rounds never raises; it records exactly one message per extent,
  in extent order, with the extent's ends, bytes and request partition and its round's tag,
  between operations of the two ranks, and it returns a frontier of existing labels.
\<close>

theorem render_plan_complete:
  assumes v: "validate_collective_plan digest p w = None" and ord: "round_ordered exact p"
    and t: "trace_ok t" "\<forall>r \<in> set (cp_rank_order p). r < gt_num_ranks t" and front: "frontier_ok t after"
  shows "\<exists>u f ms. render_collective_plan p after prov exact t = (u, Inr f) \<and> extends t u \<and> frontier_ok u f \<and>
    gt_messages u = gt_messages t @ ms \<and> list_all2 (stands_for p u) (cp_extents p) ms"
proof -
  let ?k = "cp_operation_id p" and ?tb = "plan_tables_of p" and ?n = "int (length (cp_rounds p))" and ?rs = "\<lparr>rs_labels = [], rs_joins = [], rs_last = []\<rparr>"
  have k: "nonblank ?k" and "\<forall>r \<in> set (cp_rank_order p). 0 \<le> r"
    using v by (simp_all add: validate_collective_plan_def plan_header_def Let_def)
  then have r: "in_range t r" if "r \<in> set (cp_rank_order p)" for r using t that by (auto simp: in_range_def trace_ok_def)
  note known = validated_action_known [OF v]
  have start: "rendered exact p (gt_messages t) 0 ?rs t" using known by (force simp: rendered_def action_known_def)
  have rounds: "ok (fold_emit (render_round exact p ?tb entries internal after prov) (cp_rounds p) ?rs) t (rendered exact p (gt_messages t) ?n)"
    for entries internal
  proof (rule ok_fold [where I = "\<lambda>done. rendered exact p (gt_messages t) (int (length done))", OF t(1)])
    fix ys x zs rs u
    assume x: "cp_rounds p = ys @ x # zs" and u: "grown t u" and I: "rendered exact p (gt_messages t) (int (length ys)) rs u"
    have "cp_rounds p ! length ys = x" "length ys < length (cp_rounds p)" using x by simp_all
    moreover have "trace_ok u" using u by (simp add: grown_def)
    ultimately show "ok (render_round exact p ?tb entries internal after prov x rs) u
        (rendered exact p (gt_messages t) (int (length (ys @ [x]))))"
      using ok_render_round [OF v ord _ _ grown_frontier [OF u front] _ I] r grown_in_range [OF u] by (fastforce simp: add.commute)
  qed (use start in simp)
  have "list_all (\<lambda>a. round_of_action ?tb a \<noteq> None) (cp_actions p)" using known by (auto simp: list_all_iff action_known_def)
  moreover have body: "ok (gbind (fold_emit (render_round exact p ?tb entries internal after prov) (cp_rounds p) ?rs)
        (\<lambda>rs. gbind (fold_emit (\<lambda>x _. render_message ?k ?tb rs x) (cp_extents p) ()) (\<lambda>_.
             fold_emit (rank_frontier exact ?k ?tb after rs) (cp_terminal_action_ids p) []))) t
      (\<lambda>f u. frontier_ok u f \<and> (\<exists>ms. gt_messages u = gt_messages t @ ms \<and> list_all2 (stands_for p u) (cp_extents p) ms))"
    for entries internal
    by (rule ok_gbind [OF rounds], rule ok_after_rounds [OF v])
      (auto simp: grown_def r grown_in_range intro: grown_frontier [OF _ front])
  ultimately have "ok (render_collective_plan p after prov exact) t (\<lambda>f u. frontier_ok u f \<and>
      (\<exists>ms. gt_messages u = gt_messages t @ ms \<and> list_all2 (stands_for p u) (cp_extents p) ms))"
    unfolding render_collective_plan_def Let_def
    by (simp only: not_True_eq_False if_False) (rule ok_gbind [OF ok_internal [OF t(1) k, of "\<lambda>_ u. u = t"]], auto intro: body)
  then show ?thesis by (auto simp: ok_def grown_def)
qed

theorem render_plan_complete_witness:
  "\<exists>u f ms. render_collective_plan demo_plan [] [] True demo_trace = (u, Inr f) \<and> extends demo_trace u \<and> gt_messages u = ms \<and>
     map gm_payload_bytes ms = [4]"
proof -
  have "new_trace 3 = Inr demo_trace" "round_ordered True demo_plan" by code_simp+
  moreover have "\<forall>r \<in> set (cp_rank_order demo_plan). r < gt_num_ranks demo_trace"
    by (simp add: demo_plan_def demo_trace_def)
  ultimately obtain u f ms where r: "render_collective_plan demo_plan [] [] True demo_trace = (u, Inr f)" "extends demo_trace u"
      "gt_messages u = gt_messages demo_trace @ ms" "list_all2 (stands_for demo_plan u) (cp_extents demo_plan) ms"
    using render_plan_complete [OF demo_valid(1), of True demo_trace "[]" "[]"] new_trace_ok by (auto simp: frontier_ok_def)
  have "map gm_payload_bytes ms = map pe_payload_bytes (cp_extents demo_plan)"
    using r(4) by (induction rule: list_all2_induct) (auto simp: stands_for_def)
  then show ?thesis using r(1-3) by (simp add: demo_plan_def demo_trace_def)
qed



end
