(* ===== verification/Ring_Equivalence.thy ===== *)
theory Ring_Equivalence
  imports Render_Properties
begin

text \<open>
  The two ways to emit a ring all-reduce agree: rendering the planner's explicit plan leaves the
  same trace and returns the same frontier as the pattern function, in both frontier modes.  The
  pattern records a round's messages while it emits the round, the renderer records all of them at
  the end, so the proof runs both on traces that differ in their messages only (\<open>ok2\<close>).
\<close>

subsection \<open>Two computations side by side\<close>

lemma gbind_return [simp]: "gbind (greturn a) f = f a"
  by (simp add: gbind_def greturn_def fun_eq_iff)

lemma gbind_assoc: "gbind (gbind m f) g = gbind m (\<lambda>a. gbind (f a) g)"
  by (simp add: gbind_def fun_eq_iff split: prod.splits sum.splits)

lemma fold_emit_append: "fold_emit f (xs @ ys) s = gbind (fold_emit f xs s) (fold_emit f ys)"
proof (induction xs arbitrary: s)
  case (Cons x xs)
  then have "fold_emit f (xs @ ys) = (\<lambda>s. gbind (fold_emit f xs s) (fold_emit f ys))" by blast
  then show ?case by (simp add: gbind_assoc)
qed simp

lemma fold_emit_Nil: "fold_emit f [] = greturn"
  by (rule ext) simp

lemma fold_emit_Cons: "fold_emit f (x # xs) = (\<lambda>s. gbind (f x s) (fold_emit f xs))"
  by (rule ext) simp

lemma fold_emit_map: "fold_emit f (map g xs) s = fold_emit (\<lambda>x. f (g x)) xs s"
proof (induction xs arbitrary: s)
  case (Cons x xs)
  then have "fold_emit f (map g xs) = fold_emit (\<lambda>x. f (g x)) xs" by blast
  then show ?case by simp
qed simp

lemma gbind_fun_return [simp]: "gbind m greturn = m"
  by (simp add: gbind_def greturn_def fun_eq_iff split: prod.splits sum.splits)

text \<open>A computation that neither reads nor writes the messages.\<close>

named_theorems blind_intros \<open>computations that do not depend on messages\<close>

definition blind :: "'a emit \<Rightarrow> bool" where
  "blind m \<longleftrightarrow> (\<forall>t M. m (t\<lparr>gt_messages := M\<rparr>) = (case m t of (u, res) \<Rightarrow> (u\<lparr>gt_messages := M\<rparr>, res)))"

lemma blind_prims [blind_intros]: "blind (greturn a)" "blind (on_rank r step)"
  by (auto simp: blind_def greturn_def on_rank_def split: option.splits prod.splits)

lemma blind_gbind [blind_intros]: "blind m \<Longrightarrow> (\<And>a. blind (f a)) \<Longrightarrow> blind (gbind m f)"
  by (simp add: blind_def gbind_def split: prod.splits sum.splits)

lemma blind_cases [blind_intros]:
  "blind m \<Longrightarrow> blind m' \<Longrightarrow> blind (if b then m else m')"
  "blind m \<Longrightarrow> (\<And>x. blind (f x)) \<Longrightarrow> blind (case v of None \<Rightarrow> m | Some x \<Rightarrow> f x)"
  by (simp_all split: option.splits)

definition ok2 :: "'a emit \<Rightarrow> 'b emit \<Rightarrow> goal_trace \<Rightarrow> goal_message list
    \<Rightarrow> ('a \<Rightarrow> 'b \<Rightarrow> goal_message list \<Rightarrow> goal_trace \<Rightarrow> bool) \<Rightarrow> bool" where
  "ok2 m m' t M Q \<longleftrightarrow> (\<exists>u a b M'. m t = (u, Inr a) \<and> m' (t\<lparr>gt_messages := M\<rparr>) = (u\<lparr>gt_messages := M'\<rparr>, Inr b) \<and>
     grown t u \<and> Q a b M' u)"

lemma ok2_return: "trace_ok t \<Longrightarrow> Q a b M t \<Longrightarrow> ok2 (greturn a) (greturn b) t M Q"
  by (auto simp: ok2_def greturn_def)

lemma ok2_gbind:
  assumes "ok2 m m' t M Q" "\<And>a b M' u. grown t u \<Longrightarrow> Q a b M' u \<Longrightarrow> ok2 (f a) (f' b) u M' R"
  shows "ok2 (gbind m f) (gbind m' f') t M R"
proof -
  obtain u a b M' where u: "m t = (u, Inr a)" "m' (t\<lparr>gt_messages := M\<rparr>) = (u\<lparr>gt_messages := M'\<rparr>, Inr b)" "grown t u" "Q a b M' u"
    using assms(1) by (auto simp: ok2_def)
  from assms(2) [OF u(3,4)] obtain v c d N where
    "f a u = (v, Inr c)" "f' b (u\<lparr>gt_messages := M'\<rparr>) = (v\<lparr>gt_messages := N\<rparr>, Inr d)" "grown u v" "R c d N v"
    by (auto simp: ok2_def)
  then show ?thesis using u(1-3) grown_trans by (auto simp: ok2_def gbind_def)
qed

lemma ok2_same:
  assumes "blind m" "ok m t Q" shows "ok2 m m t M (\<lambda>a b M' u. a = b \<and> M' = M \<and> Q a u)"
  using assms by (auto simp: ok_def ok2_def blind_def)

lemma ok2_msg:
  assumes t: "trace_ok t" and m: "check_goal_message msg = None" "has t (gm_source_rank msg) (gm_send_label msg)"
      "has t (gm_destination_rank msg) (gm_receive_label msg)"
    and f: "ok2 m f' t (M @ [msg]) Q"
  shows "ok2 m (gbind (record_message msg) (\<lambda>_. f')) t M Q"
proof -
  have "record_message msg (t\<lparr>gt_messages := M\<rparr>) = (t\<lparr>gt_messages := M @ [msg]\<rparr>, Inr ())"
    using t m by (simp add: record_message_def has_def in_range_def trace_ok_def labels_of_def guard_def)
  then show ?thesis using f by (simp add: ok2_def gbind_def)
qed

lemma ok2_fold:
  assumes "trace_ok t" "I [] s s' M t"
    and "\<And>ys x zs s s' M u. xs = ys @ x # zs \<Longrightarrow> grown t u \<Longrightarrow> I ys s s' M u \<Longrightarrow> ok2 (f x s) (f' x s') u M (I (ys @ [x]))"
  shows "ok2 (fold_emit f xs s) (fold_emit f' xs s') t M (I xs)"
proof -
  have "ok2 (fold_emit f zs s) (fold_emit f' zs s') u M (I xs)" if "xs = ys @ zs" "grown t u" "I ys s s' M u" for ys zs s s' M u
    using that
  proof (induction zs arbitrary: ys s s' M u)
    case Nil
    then show ?case by (auto simp: grown_def intro: ok2_return)
  next
    case (Cons z zs)
    have "ok2 (f z s) (f' z s') u M (I (ys @ [z]))" using assms(3) [OF Cons.prems] .
    then show ?case unfolding fold_emit.simps
    proof (rule ok2_gbind)
      fix a b N v assume "grown u v" "I (ys @ [z]) a b N v"
      then show "ok2 (fold_emit f zs a) (fold_emit f' zs b) v N (I xs)"
        using Cons.prems(1,2) by (intro Cons.IH [of "ys @ [z]"]) (auto intro: grown_trans)
    qed
  qed
  then show ?thesis using assms(1,2) by force
qed

subsection \<open>The tables of a ring plan\<close>

abbreviation ring_chunk :: "collective_work \<Rightarrow> int" where
  "ring_chunk w \<equiv> max 1 (lw_payload_bytes w div int (length (lw_ranks w)))"

lemma ring_plan_fields:
  assumes "ring_plan digest k w tags = Inr p"
  shows "cp_operation_id p = k" "cp_rank_order p = lw_ranks w" "cp_rounds p = ring_rounds (channel_of w) tags"
    "cp_actions p = concat (map (ring_actions k (lw_ranks w) (ring_chunk w)) [0..<2 * (length (lw_ranks w) - 1)])"
    "cp_extents p = concat (map (ring_extents k (lw_ranks w) (ring_chunk w)) [0..<2 * (length (lw_ranks w) - 1)])"
    "cp_entry_action_ids p = expected_entries (lw_ranks w) (cp_actions p)"
    "cp_terminal_action_ids p = expected_terminals (lw_ranks w) (cp_actions p)"
    "length tags = 2 * (length (lw_ranks w) - 1)" "2 \<le> length (lw_ranks w)"
  using assms by (auto simp: ring_plan_def finish_plan_def Let_def split: if_splits option.splits)

lemma filter_block:
  assumes "\<And>j a. j < n \<Longrightarrow> a \<in> set (f j) \<Longrightarrow> P a \<longleftrightarrow> j = i" "i < n"
  shows "filter P (concat (map f [0..<n])) = f i"
proof -
  have "filter P (concat (map f [0..<n])) = (if i < n then f i else [])"
    using assms(1)
  proof (induction n)
    case (Suc n)
    have "filter P (f n) = (if n = i then f n else [])" using Suc.prems [of n] by (auto simp: filter_id_conv filter_empty_conv)
    moreover have "filter P (concat (map f [0..<n])) = (if i < n then f i else [])" using Suc.prems by (intro Suc.IH) simp
    ultimately show ?case by simp
  qed simp
  then show ?thesis using assms(2) by simp
qed

lemma ring_extent_lookup:
  assumes plan: "ring_plan digest k w tags = Inr p" and i: "i < 2 * (length (lw_ranks w) - 1)" and j: "j < length (lw_ranks w)"
  shows "map_of (pt_extents (plan_tables_of p)) (extent_id k i j) = Some (ring_extent k (lw_ranks w) (ring_chunk w) i j)"
proof -
  let ?xs = "concat (map (ring_extents k (lw_ranks w) (ring_chunk w)) [0..<2 * (length (lw_ranks w) - 1)])"
  have d: "dict_ok (map (\<lambda>x. (pe_extent_id x, x)) ?xs)" using ring_extent_ids_distinct by (simp add: o_def)
  have "ring_extent k (lw_ranks w) (ring_chunk w) i j \<in> set ?xs" using i j by (force simp: ring_extents_alt)
  then have "(extent_id k i j, ring_extent k (lw_ranks w) (ring_chunk w) i j) \<in> set (map (\<lambda>x. (pe_extent_id x, x)) ?xs)"
    by (force simp: ring_extent_def Let_def)
  then show ?thesis using d by (simp add: plan_tables_of_def dict_of_distinct ring_plan_fields(5) [OF plan] map_of_is_SomeI del: set_map)
qed

lemma ring_round_of_action:
  assumes plan: "ring_plan digest k w tags = Inr p" and i: "i < 2 * (length (lw_ranks w) - 1)" and j: "j < length (lw_ranks w)"
  shows "round_of_action (plan_tables_of p) (ring_action k (lw_ranks w) i j b) = Some (int i)"
proof -
  define m where "m = (if b then j else (j + length (lw_ranks w) - 1) mod length (lw_ranks w))"
  have "m < length (lw_ranks w)" using j by (auto simp: m_def intro!: mod_less_divisor)
  then show ?thesis using ring_extent_lookup [OF plan i, of m]
    by (simp add: round_of_action_def ring_action_def m_def [symmetric] ring_extent_def Let_def)
qed

lemma ring_in_round:
  assumes plan: "ring_plan digest k w tags = Inr p" and i: "i < 2 * (length (lw_ranks w) - 1)"
  shows "in_round p (int i) = ring_actions k (lw_ranks w) (ring_chunk w) i"
  unfolding in_round_def ring_plan_fields(4) [OF plan]
  by (intro filter_block i) (auto simp: ring_actions_set ring_round_of_action [OF plan])

lemma ring_action_lookup:
  assumes plan: "ring_plan digest k w tags = Inr p" and i: "i < 2 * (length (lw_ranks w) - 1)" and j: "j < length (lw_ranks w)"
    and dist: "distinct (lw_ranks w)"
  shows "map_of (pt_actions (plan_tables_of p)) (pa_action_id (ring_action k (lw_ranks w) i j b)) = Some (ring_action k (lw_ranks w) i j b)"
proof -
  let ?as = "concat (map (ring_actions k (lw_ranks w) (ring_chunk w)) [0..<2 * (length (lw_ranks w) - 1)])"
  have d: "dict_ok (map (\<lambda>a. (pa_action_id a, a)) ?as)" using ring_action_ids_distinct [OF dist] by (simp add: o_def)
  have "ring_action k (lw_ranks w) i j b \<in> set ?as" using i j by (auto simp: ring_actions_set intro!: bexI [of _ i])
  then have "(pa_action_id (ring_action k (lw_ranks w) i j b), ring_action k (lw_ranks w) i j b) \<in> set (map (\<lambda>a. (pa_action_id a, a)) ?as)"
    by force
  then show ?thesis using d by (simp add: plan_tables_of_def dict_of_distinct ring_plan_fields(4) [OF plan] map_of_is_SomeI del: set_map)
qed

text \<open>The operations of one rank in one round.\<close>

abbreviation ring_next :: "int list \<Rightarrow> nat \<Rightarrow> int" where
  "ring_next ranks j \<equiv> ranks ! ((j + 1) mod length ranks)"

abbreviation ring_prev :: "int list \<Rightarrow> nat \<Rightarrow> int" where
  "ring_prev ranks j \<equiv> ranks ! ((j + length ranks - 1) mod length ranks)"

lemma ring_render_action:
  assumes plan: "ring_plan digest k w tags = Inr p" and i: "i < 2 * (length (lw_ranks w) - 1)" and j: "j < length (lw_ranks w)"
  shows "render_action k (plan_tables_of p) tag (ring_action k (lw_ranks w) i j True) rs =
      gbind (on_rank (lw_ranks w ! j) (send (ring_chunk w) (ring_next (lw_ranks w) j) tag None (Some k)))
        (\<lambda>l. greturn (rs\<lparr>rs_labels := AList.update (action_id k i (lw_ranks w ! j) ''send'') l (rs_labels rs)\<rparr>))"
    and "render_action k (plan_tables_of p) tag (ring_action k (lw_ranks w) i j False) rs =
      gbind (on_rank (lw_ranks w ! j) (recv (ring_chunk w) (ring_prev (lw_ranks w) j) tag None (Some k)))
        (\<lambda>l. greturn (rs\<lparr>rs_labels := AList.update (action_id k i (lw_ranks w ! j) ''receive'') l (rs_labels rs)\<rparr>))"
proof -
  have m: "(j + length (lw_ranks w) - 1) mod length (lw_ranks w) < length (lw_ranks w)" using j by (auto intro!: mod_less_divisor)
  show "render_action k (plan_tables_of p) tag (ring_action k (lw_ranks w) i j True) rs =
      gbind (on_rank (lw_ranks w ! j) (send (ring_chunk w) (ring_next (lw_ranks w) j) tag None (Some k)))
        (\<lambda>l. greturn (rs\<lparr>rs_labels := AList.update (action_id k i (lw_ranks w ! j) ''send'') l (rs_labels rs)\<rparr>))"
    using ring_extent_lookup [OF plan i j] by (simp add: render_action_def ring_action_def lookup_def ring_extent_def Let_def)
  show "render_action k (plan_tables_of p) tag (ring_action k (lw_ranks w) i j False) rs =
      gbind (on_rank (lw_ranks w ! j) (recv (ring_chunk w) (ring_prev (lw_ranks w) j) tag None (Some k)))
        (\<lambda>l. greturn (rs\<lparr>rs_labels := AList.update (action_id k i (lw_ranks w ! j) ''receive'') l (rs_labels rs)\<rparr>))"
    using ring_extent_lookup [OF plan i m] by (simp add: render_action_def ring_action_def lookup_def ring_extent_def Let_def)
qed

lemma fold_pairs: "fold_emit f (concat (map (\<lambda>x. [a x, b x]) xs)) s = fold_emit (\<lambda>x s. gbind (f (a x) s) (f (b x))) xs s"
proof (induction xs arbitrary: s)
  case (Cons x xs)
  then have "fold_emit f (concat (map (\<lambda>x. [a x, b x]) xs)) = fold_emit (\<lambda>x s. gbind (f (a x) s) (f (b x))) xs" by blast
  then show ?case by (simp add: gbind_assoc fold_emit_Cons)
qed simp

subsection \<open>The first half of a round\<close>

definition labels_at :: "string \<Rightarrow> int list \<Rightarrow> render_state \<Rightarrow> nat \<Rightarrow> nat \<Rightarrow> string option \<times> string option" where
  "labels_at k ranks rs i j = (map_of (rs_labels rs) (action_id k i (ranks ! j) ''send''),
     map_of (rs_labels rs) (action_id k i (ranks ! j) ''receive''))"

definition round_labels :: "string \<Rightarrow> int list \<Rightarrow> nat \<Rightarrow> nat set \<Rightarrow> render_state \<Rightarrow> render_state \<Rightarrow> (int, string \<times> string) dict
    \<Rightarrow> goal_trace \<Rightarrow> bool" where
  "round_labels k ranks i J rs0 rs labels t \<longleftrightarrow> rs_joins rs = rs_joins rs0 \<and> rs_last rs = rs_last rs0 \<and>
     (\<forall>i' j. i' \<noteq> i \<longrightarrow> labels_at k ranks rs i' j = labels_at k ranks rs0 i' j) \<and>
     (\<forall>j \<in> J. \<exists>tx rx. map_of labels (ranks ! j) = Some (tx, rx) \<and> labels_at k ranks rs i j = (Some tx, Some rx) \<and>
        has t (ranks ! j) tx \<and> has t (ranks ! j) rx)"

lemma round_labels_step:
  assumes I: "round_labels k ranks i J rs0 rs labels t" and u: "grown t u" "has u (ranks ! j) tx" "has u (ranks ! j) rx"
    and dist: "distinct ranks" "j < length ranks" "\<forall>j' \<in> J. j' < length ranks"
  shows "round_labels k ranks i (insert j J) rs0 (rs\<lparr>rs_labels := AList.update (action_id k i (ranks ! j) ''receive'') rx
      (AList.update (action_id k i (ranks ! j) ''send'') tx (rs_labels rs))\<rparr>) (AList.update (ranks ! j) (tx, rx) labels) u" (is "round_labels _ _ _ _ _ ?rs ?labels _")
proof -
  have new: "labels_at k ranks ?rs i j = (Some tx, Some rx)" by (simp add: labels_at_def)
  have old: "labels_at k ranks ?rs i' j' = labels_at k ranks rs i' j'" if "i' \<noteq> i \<or> ranks ! j' \<noteq> ranks ! j" for i' j'
    using that by (auto simp: labels_at_def)
  have "\<exists>tx rx. map_of ?labels (ranks ! j') = Some (tx, rx) \<and> labels_at k ranks ?rs i j' = (Some tx, Some rx) \<and>
      has u (ranks ! j') tx \<and> has u (ranks ! j') rx" if j': "j' \<in> insert j J" for j'
  proof (cases "j' = j")
    case True
    then show ?thesis using u new by simp
  next
    case False
    then have ne: "ranks ! j' \<noteq> ranks ! j" using j' dist by (auto simp: nth_eq_iff_index_eq)
    have "j' \<in> J" using j' False by simp
    then obtain tx' rx' where "map_of labels (ranks ! j') = Some (tx', rx')" "labels_at k ranks rs i j' = (Some tx', Some rx')"
      "has t (ranks ! j') tx'" "has t (ranks ! j') rx'" using I unfolding round_labels_def by blast
    then show ?thesis using ne old [of i j'] grown_has [OF u(1)] by auto
  qed
  then show ?thesis using I old unfolding round_labels_def by auto
qed

lemma ring_labels_round:
  assumes plan: "ring_plan digest k w tags = Inr p" and k: "nonblank k" and dist: "distinct (lw_ranks w)"
    and i: "i < 2 * (length (lw_ranks w) - 1)" and t: "trace_ok t" "\<And>r. r \<in> set (lw_ranks w) \<Longrightarrow> in_range t r"
  shows "ok2 (fold_emit (render_action k (plan_tables_of p) tag) (ring_actions k (lw_ranks w) (ring_chunk w) i) rs)
    (ring_labels (lw_ranks w) (ring_chunk w) tag (Some k)) t M
    (\<lambda>rs' labels M' u. M' = M \<and> gt_messages u = gt_messages t \<and> round_labels k (lw_ranks w) i {..<length (lw_ranks w)} rs rs' labels u)"
proof -
  let ?ranks = "lw_ranks w" and ?tb = "plan_tables_of p"
  let ?f = "\<lambda>j rs. gbind (render_action k ?tb tag (ring_action k ?ranks i j True) rs)
      (render_action k ?tb tag (ring_action k ?ranks i j False))"
  let ?g = "\<lambda>j labels. gbind (on_rank (?ranks ! j) (send (ring_chunk w) (ring_next ?ranks j) tag None (Some k))) (\<lambda>tx.
       gbind (on_rank (?ranks ! j) (recv (ring_chunk w) (ring_prev ?ranks j) tag None (Some k))) (\<lambda>rx.
         greturn (AList.update (?ranks ! j) (tx, rx) labels)))"
  have left: "fold_emit (render_action k ?tb tag) (ring_actions k ?ranks (ring_chunk w) i) rs = fold_emit ?f [0..<length ?ranks] rs"
    by (simp add: ring_actions_alt fold_pairs)
  have right: "ring_labels ?ranks (ring_chunk w) tag (Some k) = fold_emit ?g [0..<length ?ranks] []"
    unfolding ring_labels_def enumerate_nth fold_emit_map by (simp add: fun_eq_iff)
  have "ok2 (fold_emit ?f [0..<length ?ranks] rs) (fold_emit ?g [0..<length ?ranks] []) t M
      ((\<lambda>done rs' labels M' u. M' = M \<and> gt_messages u = gt_messages t \<and> round_labels k ?ranks i (set done) rs rs' labels u) [0..<length ?ranks])"
  proof (rule ok2_fold [OF t(1)], goal_cases)
    case 1
    then show ?case by (simp add: round_labels_def)
  next
    case (2 ys j zs rs' labels N u)
    have j: "j < length ?ranks" "\<forall>j' \<in> set ys. j' < length ?ranks" using 2(1) by (metis atLeastLessThan_iff in_set_conv_decomp set_upt Un_iff set_append)+
    have u: "trace_ok u" "in_range u (?ranks ! j)" using 2(2) t(2) j(1) grown_in_range [OF 2(2)] by (auto simp: grown_def)
    have fj: "?f j rs' = gbind (on_rank (?ranks ! j) (send (ring_chunk w) (ring_next ?ranks j) tag None (Some k))) (\<lambda>tx.
       gbind (on_rank (?ranks ! j) (recv (ring_chunk w) (ring_prev ?ranks j) tag None (Some k))) (\<lambda>rx.
         greturn (rs'\<lparr>rs_labels := AList.update (action_id k i (?ranks ! j) ''receive'') rx
           (AList.update (action_id k i (?ranks ! j) ''send'') tx (rs_labels rs'))\<rparr>)))"
      by (simp add: ring_render_action [OF plan i j(1)] gbind_assoc)
    show ?case unfolding fj send_def recv_def
    proof (rule ok2_gbind [OF ok2_same [OF blind_prims(2) ok_add [OF u]]], use k in blast, elim conjE, hypsubst)
      fix tx v assume v: "grown u v" "has v (?ranks ! j) tx" "gt_messages v = gt_messages u"
      have v': "trace_ok v" "in_range v (?ranks ! j)" using v(1) u(2) grown_in_range [OF v(1)] by (auto simp: grown_def)
      show "ok2 (gbind (on_rank (?ranks ! j) (rp_add (recv_text (ring_chunk w) (ring_prev ?ranks j) tag None) (Some k))) (\<lambda>rx.
         greturn (rs'\<lparr>rs_labels := AList.update (action_id k i (?ranks ! j) ''receive'') rx
           (AList.update (action_id k i (?ranks ! j) ''send'') tx (rs_labels rs'))\<rparr>)))
         (gbind (on_rank (?ranks ! j) (rp_add (recv_text (ring_chunk w) (ring_prev ?ranks j) tag None) (Some k))) (\<lambda>rx.
           greturn (AList.update (?ranks ! j) (tx, rx) labels))) v N
         (\<lambda>rs' labels M' u. M' = M \<and> gt_messages u = gt_messages t \<and> round_labels k ?ranks i (set (ys @ [j])) rs rs' labels u)"
      proof (rule ok2_gbind [OF ok2_same [OF blind_prims(2) ok_add [OF v']]], use k in blast, elim conjE, hypsubst, rule ok2_return)
        fix rx x assume x: "grown v x" "has x (?ranks ! j) rx" "gt_messages x = gt_messages v"
        show "trace_ok x" using x(1) by (simp add: grown_def)
        show "N = M \<and> gt_messages x = gt_messages t \<and> round_labels k ?ranks i (set (ys @ [j])) rs
          (rs'\<lparr>rs_labels := AList.update (action_id k i (?ranks ! j) ''receive'') rx
           (AList.update (action_id k i (?ranks ! j) ''send'') tx (rs_labels rs'))\<rparr>) (AList.update (?ranks ! j) (tx, rx) labels) x"
          using round_labels_step [OF _ grown_trans [OF v(1) x(1)] grown_has [OF x(1) v(2)] x(2) dist j] 2(3) v(3) x(3) by simp
      qed
    qed
  qed
  then show ?thesis unfolding left right by (simp add: atLeast0LessThan)
qed

subsection \<open>The second half of a round\<close>

text \<open>
  What both sides do for one rank once its labels are known: wait for \<open>bf\<close>, the label the rank's
  previous round is exposed through, and return the label that exposes this round.
\<close>

definition ring_step :: "bool \<Rightarrow> string \<Rightarrow> int \<Rightarrow> string \<Rightarrow> string \<Rightarrow> string option \<Rightarrow> goal_provenance option \<Rightarrow> string emit" where
  "ring_step exact k r tx rx bf pv =
     gbind (case bf of None \<Rightarrow> greturn () | Some e \<Rightarrow>
              gbind (on_rank r (requires tx e pv)) (\<lambda>_. on_rank r (requires rx e pv))) (\<lambda>_.
     if exact then
       gbind (on_rank r (calc 0 None (Some k))) (\<lambda>join.
       gbind (on_rank r (requires join tx (Some (internal_provenance k)))) (\<lambda>_.
       gbind (on_rank r (requires join rx (Some (internal_provenance k)))) (\<lambda>_. greturn join)))
     else greturn rx)"

lemma blind_ring_step: "blind (ring_step exact k r tx rx bf pv)"
  unfolding ring_step_def by (intro blind_intros)

lemma ok_requires:
  "trace_ok t \<Longrightarrow> has t r op \<Longrightarrow> has t r e \<Longrightarrow> ok (on_rank r (requires op e pv)) t (\<lambda>_ u. gt_messages u = gt_messages t)"
  unfolding requires_def by (rule ok_dep) simp_all

lemma ok_ring_step:
  assumes t: "trace_ok t" "has t r tx" "has t r rx" and bf: "\<And>e. bf = Some e \<Longrightarrow> has t r e" and k: "nonblank k"
  shows "ok (ring_step exact k r tx rx bf pv) t (\<lambda>e u. has u r e \<and> (\<not> exact \<longrightarrow> e = rx) \<and> gt_messages u = gt_messages t)"
proof -
  have wait: "ok (case bf of None \<Rightarrow> greturn () | Some e \<Rightarrow>
      gbind (on_rank r (requires tx e pv)) (\<lambda>_. on_rank r (requires rx e pv))) t (\<lambda>_ u. gt_messages u = gt_messages t)"
  proof (cases bf)
    case None
    then show ?thesis using t(1) by (auto intro: ok_return)
  next
    case (Some e)
    have "ok (on_rank r (requires rx e pv)) u (\<lambda>_ v. gt_messages v = gt_messages t)" if "grown t u" "gt_messages u = gt_messages t" for u
      using ok_requires [of u r rx e pv] that grown_has [OF that(1)] t(3) bf [OF Some] by (simp add: grown_def)
    then show ?thesis using Some ok_requires [OF t(1,2) bf [OF Some]] by (auto intro: ok_gbind)
  qed
  have join: "ok (gbind (on_rank r (calc 0 None (Some k))) (\<lambda>join.
       gbind (on_rank r (requires join tx (Some (internal_provenance k)))) (\<lambda>_.
       gbind (on_rank r (requires join rx (Some (internal_provenance k)))) (\<lambda>_. greturn join)))) u
       (\<lambda>e v. has v r e \<and> gt_messages v = gt_messages u)" if u: "grown t u" for u
  proof (rule ok_gbind, unfold calc_def, rule ok_add)
    show "trace_ok u" "in_range u r" using u t(2) grown_has [OF u t(2)] by (auto simp: grown_def has_def)
  next
    fix j v assume v: "grown u v" "has v r j \<and> gt_messages v = gt_messages u"
    have tv: "grown t v" using u v(1) by (rule grown_trans)
    have last: "ok (gbind (on_rank r (requires j rx (Some (internal_provenance k)))) (\<lambda>_. greturn j)) x
        (\<lambda>e v. has v r e \<and> gt_messages v = gt_messages u)" if x: "grown v x" "gt_messages x = gt_messages v" for x
      using x v(2) grown_has [OF x(1)] grown_has [OF grown_trans [OF tv x(1)] t(3)]
      by (intro ok_gbind [OF ok_requires]) (auto simp: grown_def intro!: ok_return intro: grown_has)
    show "ok (gbind (on_rank r (requires j tx (Some (internal_provenance k)))) (\<lambda>_.
       gbind (on_rank r (requires j rx (Some (internal_provenance k)))) (\<lambda>_. greturn j))) v
       (\<lambda>e v. has v r e \<and> gt_messages v = gt_messages u)"
      using v tv grown_has [OF tv t(2)] by (intro ok_gbind [OF ok_requires] last) (auto simp: grown_def)
  qed (use k in auto)
  show ?thesis unfolding ring_step_def
  proof (rule ok_gbind [OF wait])
    fix a u assume u: "grown t u" "gt_messages u = gt_messages t"
    then show "ok (if exact then
       gbind (on_rank r (calc 0 None (Some k))) (\<lambda>join.
       gbind (on_rank r (requires join tx (Some (internal_provenance k)))) (\<lambda>_.
       gbind (on_rank r (requires join rx (Some (internal_provenance k)))) (\<lambda>_. greturn join)))
     else greturn rx) u (\<lambda>e u. has u r e \<and> (\<not> exact \<longrightarrow> e = rx) \<and> gt_messages u = gt_messages t)"
      using join [OF u(1)] grown_has [OF u(1) t(3)] by (cases exact) (auto simp: grown_def intro!: ok_return)
  qed
qed

text \<open>The label that exposes the round before round \<open>i\<close>, as the renderer finds it.\<close>

definition exposed :: "bool \<Rightarrow> string \<Rightarrow> int list \<Rightarrow> frontier \<Rightarrow> render_state \<Rightarrow> nat \<Rightarrow> nat \<Rightarrow> string option" where
  "exposed exact k ranks after rs i j =
     (if i = 0 then map_of after (ranks ! j)
      else if exact then map_of (rs_joins rs) (ranks ! j, int (i - 1))
      else snd (labels_at k ranks rs (i - 1) j))"

definition wait_provenance :: "string \<Rightarrow> provenances \<Rightarrow> nat \<Rightarrow> int \<Rightarrow> goal_provenance option" where
  "wait_provenance k prov i r = (if i = 0 then map_of prov r else Some (internal_provenance k))"

lemma ring_entries:
  assumes plan: "ring_plan digest k w tags = Inr p" and i: "i < 2 * (length (lw_ranks w) - 1)" and j: "j < length (lw_ranks w)"
  shows "pa_action_id (ring_action k (lw_ranks w) i j b) \<in> set (concat (map snd (cp_entry_action_ids p))) \<longleftrightarrow> i = 0"
proof -
  have entries: "pa_action_id a \<in> set (concat (map snd (expected_entries ranks as)))"
    if "a \<in> set as" "pa_depends_on a = []" "pa_rank a \<in> set ranks" for a ranks as
    using that by (auto simp: expected_entries_def)
  show ?thesis
  proof
    assume "pa_action_id (ring_action k (lw_ranks w) i j b) \<in> set (concat (map snd (cp_entry_action_ids p)))"
    then obtain a where "a \<in> set (cp_actions p)" "pa_depends_on a = []" "pa_action_id a = pa_action_id (ring_action k (lw_ranks w) i j b)"
      by (auto simp: ring_plan_fields(6) [OF plan] expected_entries_def)
    then show "i = 0" by (auto simp: ring_plan_fields(4) [OF plan] ring_actions_set ring_action_def split: if_splits)
  next
    assume "i = 0"
    moreover have "ring_action k (lw_ranks w) i j b \<in> set (cp_actions p)"
      using i j unfolding ring_plan_fields(4) [OF plan] by (auto simp: ring_actions_set intro!: bexI [of _ i])
    ultimately show "pa_action_id (ring_action k (lw_ranks w) i j b) \<in> set (concat (map snd (cp_entry_action_ids p)))"
      using j unfolding ring_plan_fields(6) [OF plan] by (intro entries) (simp_all add: ring_action_def)
  qed
qed

lemma ring_link_action:
  assumes plan: "ring_plan digest k w tags = Inr p" and i: "i < 2 * (length (lw_ranks w) - 1)" and j: "j < length (lw_ranks w)"
    and dist: "distinct (lw_ranks w)" and l: "map_of (rs_labels rs) (pa_action_id (ring_action k (lw_ranks w) i j b)) = Some l"
    and bf: "i \<noteq> 0 \<Longrightarrow> exposed exact k (lw_ranks w) after rs i j \<noteq> None"
  shows "link_action exact (plan_tables_of p) (concat (map snd (cp_entry_action_ids p))) (internal_provenance k) after prov rs
      (lw_ranks w ! j) (ring_action k (lw_ranks w) i j b) =
    (case exposed exact k (lw_ranks w) after rs i j of None \<Rightarrow> greturn ()
     | Some e \<Rightarrow> on_rank (lw_ranks w ! j) (requires l e (wait_provenance k prov i (lw_ranks w ! j))))"
proof (cases "i = 0")
  case True
  have "pa_depends_on (ring_action k (lw_ranks w) i j b) = []" using True by (simp add: ring_action_def)
  then show ?thesis using l ring_entries [OF plan i j] True
    by (auto simp: link_action_def lookup_def chain_def exposed_def wait_provenance_def split: option.splits)
next
  case False
  then have i': "i - 1 < 2 * (length (lw_ranks w) - 1)" using i by simp
  obtain e where e: "exposed exact k (lw_ranks w) after rs i j = Some e" using bf [OF False] by blast
  have id: "pa_action_id (ring_action k (lw_ranks w) (i - 1) j False) = action_id k (i - 1) (lw_ranks w ! j) ''receive''"
    by (simp add: ring_action_def)
  have "predecessor_label exact (plan_tables_of p) rs (action_id k (i - 1) (lw_ranks w ! j) ''receive'') = greturn e"
  proof (cases exact)
    case True
    then show ?thesis using e False ring_action_lookup [OF plan i' j dist, of False] ring_round_of_action [OF plan i' j, of False]
      by (simp add: predecessor_label_def exposed_def id lookup_def) (simp add: ring_action_def lookup_def)
  next
    case exact: False
    then show ?thesis using e False by (simp add: predecessor_label_def exposed_def labels_at_def lookup_def)
  qed
  moreover have "pa_depends_on (ring_action k (lw_ranks w) i j b) = [action_id k (i - 1) (lw_ranks w ! j) ''receive'']"
    using False by (simp add: ring_action_def)
  ultimately show ?thesis using l ring_entries [OF plan i j] False e
    by (simp add: link_action_def lookup_def wait_provenance_def fold_emit_Nil)
qed

text \<open>The renderer's and the pattern's treatment of one rank.\<close>

lemma ring_link_rank:
  assumes plan: "ring_plan digest k w tags = Inr p" and i: "i < 2 * (length (lw_ranks w) - 1)" and j: "j < length (lw_ranks w)"
    and dist: "distinct (lw_ranks w)" and l: "labels_at k (lw_ranks w) rs i j = (Some tx, Some rx)"
    and bf: "i \<noteq> 0 \<Longrightarrow> exposed exact k (lw_ranks w) after rs i j \<noteq> None"
  shows "link_rank exact k (plan_tables_of p) (concat (map snd (cp_entry_action_ids p))) (internal_provenance k) after prov (int i)
      (ring_actions k (lw_ranks w) (ring_chunk w) i) (lw_ranks w ! j) rs =
    gbind (ring_step exact k (lw_ranks w ! j) tx rx (exposed exact k (lw_ranks w) after rs i j) (wait_provenance k prov i (lw_ranks w ! j)))
      (\<lambda>e. greturn (rs\<lparr>rs_last := AList.update (lw_ranks w ! j) (int i) (rs_last rs),
         rs_joins := if exact then AList.update (lw_ranks w ! j, int i) e (rs_joins rs) else rs_joins rs\<rparr>))"
proof -
  let ?r = "lw_ranks w ! j" let ?rs = "rs\<lparr>rs_last := AList.update ?r (int i) (rs_last rs)\<rparr>"
  let ?a = "ring_action k (lw_ranks w) i j True" and ?b = "ring_action k (lw_ranks w) i j False"
  have "filter (\<lambda>a. pa_rank a = ?r) (concat (map (\<lambda>j'. map (ring_action k (lw_ranks w) i j') [True, False]) [0..<length (lw_ranks w)]))
      = map (ring_action k (lw_ranks w) i j) [True, False]"
    by (rule filter_block [OF _ j]) (use dist j in \<open>auto simp: ring_action_def nth_eq_iff_index_eq\<close>)
  then have ab: "filter (\<lambda>a. pa_rank a = ?r) (ring_actions k (lw_ranks w) (ring_chunk w) i) = [?a, ?b]" by (simp add: ring_actions_alt)
  have lab: "map_of (rs_labels ?rs) (pa_action_id ?a) = Some tx" "map_of (rs_labels ?rs) (pa_action_id ?b) = Some rx"
    using l by (simp_all add: labels_at_def ring_action_def)
  have ex: "exposed exact k (lw_ranks w) after ?rs i j = exposed exact k (lw_ranks w) after rs i j"
    by (simp add: exposed_def labels_at_def)
  have link: "link_action exact (plan_tables_of p) (concat (map snd (cp_entry_action_ids p))) (internal_provenance k) after prov ?rs ?r
      (ring_action k (lw_ranks w) i j b) = (case exposed exact k (lw_ranks w) after rs i j of None \<Rightarrow> greturn ()
     | Some e \<Rightarrow> on_rank ?r (requires (if b then tx else rx) e (wait_provenance k prov i ?r)))" for b
    using ring_link_action [OF plan i j dist, of ?rs b "if b then tx else rx" exact after prov] lab bf by (cases b) (simp_all add: ex)
  show ?thesis
    unfolding link_rank_def Let_def ab ring_step_def fold_emit_Cons fold_emit_Nil link
    by (cases "exposed exact k (lw_ranks w) after rs i j"; cases exact)
      (simp_all add: lookup_def lab [simplified] gbind_assoc)
qed

lemma ring_link_message:
  assumes k: "nonblank k" and l: "map_of labels (ranks ! j) = Some (tx, rx)" "map_of labels (ring_next ranks j) = Some (tx', rx')"
    and prev: "map_of prev (ranks ! j) = bf"
  shows "ring_link ranks chunk tag (Some k) prov exact i prev labels (j, ranks ! j) finished =
    gbind (record_message \<lparr>gm_operation_id = Some k, gm_source_rank = ranks ! j, gm_destination_rank = ring_next ranks j,
      gm_payload_bytes = chunk, gm_tag = tag, gm_send_label = tx, gm_receive_label = rx', gm_request_payload_bytes = []\<rparr>) (\<lambda>_.
    gbind (ring_step exact k (ranks ! j) tx rx bf (wait_provenance k prov i (ranks ! j)))
      (\<lambda>e. greturn (AList.update (ranks ! j) e finished)))"
proof -
  have int: "internal_of k = greturn (internal_provenance k)"
    using k by (simp add: internal_of_def check_goal_provenance_def internal_provenance_def goal_text_def guard_def)
  show ?thesis unfolding ring_link_def ring_step_def Let_def
    by (cases bf; cases exact) (simp_all add: l(1) l(2) [simplified] prev lookup_def ring_provenance_def ring_join_def wait_provenance_def int gbind_assoc)
qed

subsection \<open>Whole rounds\<close>

definition ring_message :: "string \<Rightarrow> int list \<Rightarrow> int \<Rightarrow> int \<Rightarrow> render_state \<Rightarrow> nat \<Rightarrow> nat \<Rightarrow> goal_message" where
  "ring_message k ranks chunk base rs i j =
     \<lparr>gm_operation_id = Some k, gm_source_rank = ranks ! j, gm_destination_rank = ring_next ranks j,
      gm_payload_bytes = chunk, gm_tag = base + int i, gm_send_label = the (fst (labels_at k ranks rs i j)),
      gm_receive_label = the (snd (labels_at k ranks rs i ((j + 1) mod length ranks))), gm_request_payload_bytes = []\<rparr>"

definition round_linked :: "bool \<Rightarrow> string \<Rightarrow> int list \<Rightarrow> nat \<Rightarrow> nat list \<Rightarrow> render_state \<Rightarrow> render_state \<Rightarrow> frontier \<Rightarrow> goal_trace \<Rightarrow> bool" where
  "round_linked exact k ranks i js rs0 rs finished t \<longleftrightarrow> rs_labels rs = rs_labels rs0 \<and>
     map fst finished = map ((!) ranks) js \<and>
     (\<forall>r i'. i' \<noteq> int i \<longrightarrow> map_of (rs_joins rs) (r, i') = map_of (rs_joins rs0) (r, i')) \<and>
     (\<forall>j \<in> set js. map_of (rs_last rs) (ranks ! j) = Some (int i) \<and> (\<exists>e. map_of finished (ranks ! j) = Some e \<and> has t (ranks ! j) e \<and>
        (if exact then map_of (rs_joins rs) (ranks ! j, int i) = Some e else snd (labels_at k ranks rs i j) = Some e)))"

lemma round_linked_step:
  assumes I: "round_linked exact k ranks i js rs0 rs finished t" and u: "grown t u" "has u (ranks ! j) e"
    and e: "\<not> exact \<Longrightarrow> snd (labels_at k ranks rs i j) = Some e"
    and dist: "distinct ranks" "j < length ranks" "j \<notin> set js" "\<forall>j' \<in> set js. j' < length ranks"
  shows "round_linked exact k ranks i (js @ [j]) rs0 (rs\<lparr>rs_last := AList.update (ranks ! j) (int i) (rs_last rs),
      rs_joins := if exact then AList.update (ranks ! j, int i) e (rs_joins rs) else rs_joins rs\<rparr>) (AList.update (ranks ! j) e finished) u"
    (is "round_linked _ _ _ _ _ _ ?rs ?f _")
proof -
  have ne: "ranks ! j' \<noteq> ranks ! j" if "j' \<in> set js" for j' using that dist by (auto simp: nth_eq_iff_index_eq)
  have keys: "ranks ! j \<notin> fst ` set finished"
    using I ne unfolding round_linked_def by (metis (no_types, lifting) image_iff list.set_map)
  have lab: "labels_at k ranks ?rs = labels_at k ranks rs" by (simp add: labels_at_def fun_eq_iff)
  have "map_of (rs_last ?rs) (ranks ! j') = Some (int i) \<and> (\<exists>e. map_of ?f (ranks ! j') = Some e \<and> has u (ranks ! j') e \<and>
        (if exact then map_of (rs_joins ?rs) (ranks ! j', int i) = Some e else snd (labels_at k ranks ?rs i j') = Some e))"
    if j': "j' \<in> set (js @ [j])" for j'
  proof (cases "j' = j")
    case True
    then show ?thesis using u(2) e by (cases exact) (simp_all add: labels_at_def)
  next
    case False
    then have mem: "j' \<in> set js" using j' by simp
    obtain e' where e': "map_of (rs_last rs) (ranks ! j') = Some (int i)" "map_of finished (ranks ! j') = Some e'" "has t (ranks ! j') e'"
      "if exact then map_of (rs_joins rs) (ranks ! j', int i) = Some e' else snd (labels_at k ranks rs i j') = Some e'"
      using I mem unfolding round_linked_def by blast
    then show ?thesis using ne [OF mem] grown_has [OF u(1) e'(3)] lab by auto
  qed
  moreover have "map fst ?f = map ((!) ranks) (js @ [j])" using I keys by (simp add: update_append_fresh round_linked_def)
  moreover have "map_of (rs_joins ?rs) (r, i') = map_of (rs_joins rs0) (r, i')" if "i' \<noteq> int i" for r i'
    using I that by (simp add: round_linked_def)
  ultimately show ?thesis using I unfolding round_linked_def by simp
qed

lemma exposed_stable:
  assumes "round_linked exact k ranks i js rs0 rs finished t"
  shows "exposed exact k ranks after rs i j = exposed exact k ranks after rs0 i j"
proof (cases i)
  case (Suc m)
  have "int m \<noteq> int i" using Suc by simp
  then show ?thesis using assms Suc by (simp add: exposed_def labels_at_def round_linked_def)
qed (simp add: exposed_def)

lemma ring_links_round:
  assumes plan: "ring_plan digest k w tags = Inr p" and k: "nonblank k" and dist: "distinct (lw_ranks w)"
    and i: "i < 2 * (length (lw_ranks w) - 1)" and t: "trace_ok t" and base: "0 \<le> base"
    and L: "round_labels k (lw_ranks w) i {..<length (lw_ranks w)} rs0 rs labels t"
    and prev: "\<And>j. j < length (lw_ranks w) \<Longrightarrow> map_of prev (lw_ranks w ! j) = exposed exact k (lw_ranks w) after rs i j"
    and bf: "\<And>j. j < length (lw_ranks w) \<Longrightarrow> i \<noteq> 0 \<Longrightarrow> exposed exact k (lw_ranks w) after rs i j \<noteq> None"
    and has: "\<And>j e. j < length (lw_ranks w) \<Longrightarrow> exposed exact k (lw_ranks w) after rs i j = Some e \<Longrightarrow> has t (lw_ranks w ! j) e"
  shows "ok2 (fold_emit (link_rank exact k (plan_tables_of p) (concat (map snd (cp_entry_action_ids p))) (internal_provenance k) after prov
      (int i) (ring_actions k (lw_ranks w) (ring_chunk w) i)) (lw_ranks w) rs)
    (fold_emit (ring_link (lw_ranks w) (ring_chunk w) (base + int i) (Some k) prov exact i prev labels) (enumerate 0 (lw_ranks w)) []) t M
    (\<lambda>rs' finished M' u. M' = M @ map (ring_message k (lw_ranks w) (ring_chunk w) base rs i) [0..<length (lw_ranks w)] \<and>
       gt_messages u = gt_messages t \<and> round_linked exact k (lw_ranks w) i [0..<length (lw_ranks w)] rs rs' finished u)"
proof -
  let ?ranks = "lw_ranks w" and ?W = "length (lw_ranks w)" and ?chunk = "ring_chunk w"
  let ?f = "\<lambda>j. link_rank exact k (plan_tables_of p) (concat (map snd (cp_entry_action_ids p))) (internal_provenance k) after prov
      (int i) (ring_actions k ?ranks ?chunk i) (?ranks ! j)"
  let ?g = "\<lambda>j. ring_link ?ranks ?chunk (base + int i) (Some k) prov exact i prev labels (j, ?ranks ! j)"
  have left: "fold_emit (link_rank exact k (plan_tables_of p) (concat (map snd (cp_entry_action_ids p))) (internal_provenance k) after prov
      (int i) (ring_actions k ?ranks ?chunk i)) ?ranks rs = fold_emit ?f [0..<?W] rs"
    using fold_emit_map [of "link_rank exact k (plan_tables_of p) (concat (map snd (cp_entry_action_ids p))) (internal_provenance k) after prov
      (int i) (ring_actions k ?ranks ?chunk i)" "(!) ?ranks" "[0..<?W]"] by (simp add: map_nth)
  have "ok2 (fold_emit ?f [0..<?W] rs) (fold_emit ?g [0..<?W] []) t M ((\<lambda>js rs' finished M' u.
      M' = M @ map (ring_message k ?ranks ?chunk base rs i) js \<and> gt_messages u = gt_messages t \<and> round_linked exact k ?ranks i js rs rs' finished u) [0..<?W])"
  proof (rule ok2_fold [OF t], goal_cases)
    case 1
    then show ?case by (simp add: round_linked_def)
  next
    case (2 js j zs rs' finished N u)
    have "distinct [0..<?W]" "set [0..<?W] = {..<?W}" by auto
    then have j: "j < ?W" "j \<notin> set js" "\<forall>j' \<in> set js. j' < ?W" unfolding 2(1) by auto
    define s where "s = (j + 1) mod ?W"
    have s: "s < ?W" "s \<noteq> j" using j(1) mod_succ_neq [OF j(1) ring_plan_fields(9) [OF plan]] by (auto simp: s_def intro!: mod_less_divisor)
    obtain tx rx where l: "map_of labels (?ranks ! j) = Some (tx, rx)" "labels_at k ?ranks rs i j = (Some tx, Some rx)"
      "has t (?ranks ! j) tx" "has t (?ranks ! j) rx" using L j(1) unfolding round_labels_def by blast
    obtain tx' rx' where l': "map_of labels (?ranks ! s) = Some (tx', rx')" "labels_at k ?ranks rs i s = (Some tx', Some rx')"
      "has t (?ranks ! s) rx'" using L s(1) unfolding round_labels_def by blast
    have RL: "round_linked exact k ?ranks i js rs rs' finished u" using 2(3) by simp
    have same: "labels_at k ?ranks rs' = labels_at k ?ranks rs" using RL by (simp add: round_linked_def labels_at_def fun_eq_iff)
    let ?bf = "exposed exact k ?ranks after rs i j" let ?m = "ring_message k ?ranks ?chunk base rs i j"
    have m: "?m = \<lparr>gm_operation_id = Some k, gm_source_rank = ?ranks ! j, gm_destination_rank = ?ranks ! s, gm_payload_bytes = ?chunk,
        gm_tag = base + int i, gm_send_label = tx, gm_receive_label = rx', gm_request_payload_bytes = []\<rparr>"
      using l(2) l'(2) by (simp add: ring_message_def s_def)
    have uok: "trace_ok u" using 2(2) by (simp add: grown_def)
    have hs: "has u (?ranks ! j) tx" "has u (?ranks ! j) rx" "has u (?ranks ! s) rx'" "\<And>e. ?bf = Some e \<Longrightarrow> has u (?ranks ! j) e"
      using grown_has [OF 2(2)] l(3,4) l'(3) has [OF j(1)] by auto
    have fj: "?f j rs' = gbind (ring_step exact k (?ranks ! j) tx rx ?bf (wait_provenance k prov i (?ranks ! j)))
      (\<lambda>e. greturn (rs'\<lparr>rs_last := AList.update (?ranks ! j) (int i) (rs_last rs'),
         rs_joins := if exact then AList.update (?ranks ! j, int i) e (rs_joins rs') else rs_joins rs'\<rparr>))"
      using ring_link_rank [OF plan i j(1) dist, of rs' tx rx exact after prov] l(2) bf [OF j(1)] by (simp add: same exposed_stable [OF RL])
    have gj: "?g j finished = gbind (record_message ?m) (\<lambda>_. gbind (ring_step exact k (?ranks ! j) tx rx ?bf (wait_provenance k prov i (?ranks ! j)))
      (\<lambda>e. greturn (AList.update (?ranks ! j) e finished)))"
      unfolding m using ring_link_message [OF k l(1) l'(1) [unfolded s_def] prev [OF j(1)]] by (simp add: s_def)
    have check: "check_goal_message ?m = None"
      using hs(1,3) s dist j(1) k base label_nonblank [OF uok hs(1)] label_nonblank [OF uok hs(3)]
      by (simp add: m check_goal_message_def Let_def goal_text_def goal_integer_def has_def in_range_def nth_eq_iff_index_eq)
    have M': "N @ [?m] = M @ map (ring_message k ?ranks ?chunk base rs i) (js @ [j])" using 2(3) by simp
    show ?case unfolding fj gj
    proof (rule ok2_msg [OF uok check], goal_cases)
      case 3
      show ?case
      proof (rule ok2_gbind [OF ok2_same [OF blind_ring_step ok_ring_step [OF uok hs(1,2) hs(4) k]]], assumption, elim conjE, hypsubst, rule ok2_return)
        fix e v assume v: "grown u v" "has v (?ranks ! j) e" "\<not> exact \<longrightarrow> e = rx" "gt_messages v = gt_messages u"
        show "trace_ok v" using v(1) by (simp add: grown_def)
        show "N @ [?m] = M @ map (ring_message k ?ranks ?chunk base rs i) (js @ [j]) \<and> gt_messages v = gt_messages t \<and>
          round_linked exact k ?ranks i (js @ [j]) rs (rs'\<lparr>rs_last := AList.update (?ranks ! j) (int i) (rs_last rs'),
         rs_joins := if exact then AList.update (?ranks ! j, int i) e (rs_joins rs') else rs_joins rs'\<rparr>) (AList.update (?ranks ! j) e finished) v"
          using round_linked_step [OF RL v(1,2) _ dist j] v(3,4) 2(3) l(2) M' by (simp add: same)
      qed
    qed (simp_all add: m hs)
  qed
  then show ?thesis unfolding left enumerate_nth fold_emit_map by simp
qed

text \<open>The state of both sides after \<open>i\<close> rounds.\<close>

definition ring_sim :: "bool \<Rightarrow> string \<Rightarrow> int list \<Rightarrow> int \<Rightarrow> int \<Rightarrow> frontier \<Rightarrow> goal_message list \<Rightarrow> nat \<Rightarrow> render_state \<Rightarrow> frontier
    \<Rightarrow> goal_message list \<Rightarrow> goal_trace \<Rightarrow> bool" where
  "ring_sim exact k ranks chunk base after ms0 i rs prev M t \<longleftrightarrow>
     M = ms0 @ map (\<lambda>(i, j). ring_message k ranks chunk base rs i j) (List.product [0..<i] [0..<length ranks]) \<and> gt_messages t = ms0 \<and>
     (\<forall>i' < i. \<forall>j < length ranks. \<exists>tx rx. labels_at k ranks rs i' j = (Some tx, Some rx) \<and> has t (ranks ! j) tx \<and> has t (ranks ! j) rx) \<and>
     (\<forall>j < length ranks. map_of prev (ranks ! j) = exposed exact k ranks after rs i j) \<and>
     (\<forall>j < length ranks. \<forall>e. exposed exact k ranks after rs i j = Some e \<longrightarrow> has t (ranks ! j) e) \<and>
     (i \<noteq> 0 \<longrightarrow> map fst prev = ranks \<and>
        (\<forall>j < length ranks. exposed exact k ranks after rs i j \<noteq> None \<and> map_of (rs_last rs) (ranks ! j) = Some (int (i - 1))))"

lemma ring_message_cong:
  "labels_at k ranks rs i = labels_at k ranks rs' i \<Longrightarrow> ring_message k ranks chunk base rs i j = ring_message k ranks chunk base rs' i j"
  by (simp add: ring_message_def)

lemma ring_sim_step:
  assumes I: "ring_sim exact k ranks chunk base after ms0 i rs prev M t" and u: "grown t u" and v: "grown u v"
    and L: "round_labels k ranks i {..<length ranks} rs rs1 labels u" and m: "gt_messages v = gt_messages t"
    and R: "round_linked exact k ranks i [0..<length ranks] rs1 rs2 finished v"
  shows "ring_sim exact k ranks chunk base after ms0 (Suc i) rs2 finished
    (M @ map (ring_message k ranks chunk base rs1 i) [0..<length ranks]) v"
proof -
  have same: "labels_at k ranks rs2 = labels_at k ranks rs1" using R by (simp add: round_linked_def labels_at_def fun_eq_iff)
  have old: "labels_at k ranks rs1 i' = labels_at k ranks rs i'" if "i' \<noteq> i" for i' using L that by (auto simp: round_labels_def)
  have "map (\<lambda>(i, j). ring_message k ranks chunk base rs2 i j) (List.product [0..<i] [0..<length ranks])
      = map (\<lambda>(i, j). ring_message k ranks chunk base rs i j) (List.product [0..<i] [0..<length ranks])"
    by (rule map_cong [OF refl]) (auto simp: same old intro!: ring_message_cong)
  moreover have "map (ring_message k ranks chunk base rs1 i) [0..<length ranks] = map (ring_message k ranks chunk base rs2 i) [0..<length ranks]"
    by (rule map_cong [OF refl]) (auto simp: same intro!: ring_message_cong)
  ultimately have "M @ map (ring_message k ranks chunk base rs1 i) [0..<length ranks]
      = ms0 @ map (\<lambda>(i, j). ring_message k ranks chunk base rs2 i j) (List.product [0..<Suc i] [0..<length ranks])"
    using I by (simp add: ring_sim_def product_append o_def)
  moreover have "\<exists>tx rx. labels_at k ranks rs2 i' j = (Some tx, Some rx) \<and> has v (ranks ! j) tx \<and> has v (ranks ! j) rx"
    if ij: "i' < Suc i" "j < length ranks" for i' j
  proof (cases "i' = i")
    case True
    then show ?thesis using L ij(2) grown_has [OF v] unfolding same round_labels_def by blast
  next
    case False
    then have "i' < i" using ij by simp
    then show ?thesis using I ij(2) grown_has [OF grown_trans [OF u v]] unfolding same old [OF False] ring_sim_def by blast
  qed
  moreover have "\<exists>e. map_of finished (ranks ! j) = Some e \<and> exposed exact k ranks after rs2 (Suc i) j = Some e \<and> has v (ranks ! j) e \<and>
      map_of (rs_last rs2) (ranks ! j) = Some (int i)" if "j < length ranks" for j
  proof -
    have "j \<in> set [0..<length ranks]" using that by simp
    then have "map_of (rs_last rs2) (ranks ! j) = Some (int i) \<and> (\<exists>e. map_of finished (ranks ! j) = Some e \<and> has v (ranks ! j) e \<and>
        (if exact then map_of (rs_joins rs2) (ranks ! j, int i) = Some e else snd (labels_at k ranks rs2 i j) = Some e))"
      using R unfolding round_linked_def by blast
    then show ?thesis by (cases exact) (auto simp: exposed_def)
  qed
  moreover have "map fst finished = ranks" using R by (simp add: round_linked_def map_nth)
  moreover have "gt_messages v = ms0" using I m by (simp add: ring_sim_def)
  ultimately show ?thesis unfolding ring_sim_def by fastforce
qed

lemma ring_round_sim:
  assumes plan: "ring_plan digest k w [base..base + int n - 1] = Inr p" and n: "n = 2 * (length (lw_ranks w) - 1)" and k: "nonblank k"
    and dist: "distinct (lw_ranks w)" and base: "0 \<le> base" and i: "i < n"
    and t: "trace_ok t" "\<And>r. r \<in> set (lw_ranks w) \<Longrightarrow> in_range t r"
    and I: "ring_sim exact k (lw_ranks w) (ring_chunk w) base after ms0 i rs prev M t"
  shows "ok2 (render_round exact p (plan_tables_of p) (concat (map snd (cp_entry_action_ids p))) (internal_provenance k) after prov
      (cp_rounds p ! i) rs)
    (ring_round (lw_ranks w) (ring_chunk w) base (Some k) prov exact i prev) t M
    (ring_sim exact k (lw_ranks w) (ring_chunk w) base after ms0 (Suc i))"
proof -
  let ?ranks = "lw_ranks w" and ?W = "length (lw_ranks w)" and ?chunk = "ring_chunk w"
  have i': "i < 2 * (?W - 1)" using i n by simp
  have rnd: "pr_round_index (cp_rounds p ! i) = int i" "pr_tag (cp_rounds p ! i) = base + int i"
    using i by (simp_all add: ring_plan_fields(3) [OF plan] ring_rounds_def enumerate_nth nth_upto)
  show ?thesis
    unfolding render_round_def ring_round_def Let_def in_round_def [symmetric] rnd ring_in_round [OF plan i'] ring_plan_fields(1,2) [OF plan]
  proof (rule ok2_gbind [OF ring_labels_round [OF plan k dist i' t]], assumption, elim conjE, hypsubst)
    fix rs1 labels u
    assume u: "grown t u" and m: "gt_messages u = gt_messages t" and L: "round_labels k ?ranks i {..<?W} rs rs1 labels u"
    have ex: "exposed exact k ?ranks after rs1 i j = exposed exact k ?ranks after rs i j" for j
      using L by (cases i) (auto simp: exposed_def round_labels_def)
    have uok: "trace_ok u" using u by (simp add: grown_def)
    have "ok2 (fold_emit (link_rank exact k (plan_tables_of p) (concat (map snd (cp_entry_action_ids p))) (internal_provenance k) after prov
        (int i) (ring_actions k ?ranks ?chunk i)) ?ranks rs1)
      (fold_emit (ring_link ?ranks ?chunk (base + int i) (Some k) prov exact i prev labels) (enumerate 0 ?ranks) []) u M
      (\<lambda>rs' finished M' v. M' = M @ map (ring_message k ?ranks ?chunk base rs1 i) [0..<?W] \<and>
         gt_messages v = gt_messages u \<and> round_linked exact k ?ranks i [0..<?W] rs1 rs' finished v)"
      using I grown_has [OF u] by (intro ring_links_round [OF plan k dist i' uok base L]) (auto simp: ring_sim_def ex)
    then show "ok2 (fold_emit (link_rank exact k (plan_tables_of p) (concat (map snd (cp_entry_action_ids p))) (internal_provenance k) after prov
        (int i) (ring_actions k ?ranks ?chunk i)) ?ranks rs1)
      (fold_emit (ring_link ?ranks ?chunk (base + int i) (Some k) prov exact i prev labels) (enumerate 0 ?ranks) []) u M
      (ring_sim exact k ?ranks ?chunk base after ms0 (Suc i))"
      unfolding ok2_def using ring_sim_step [OF I u _ L] m by (auto, metis)
  qed
qed

subsection \<open>Messages and frontier of the renderer\<close>

lemma fold_record:
  assumes "trace_ok t" "\<And>x. x \<in> set xs \<Longrightarrow> check_goal_message (g x) = None \<and>
      has t (gm_source_rank (g x)) (gm_send_label (g x)) \<and> has t (gm_destination_rank (g x)) (gm_receive_label (g x))"
  shows "fold_emit (\<lambda>x _. record_message (g x)) xs () (t\<lparr>gt_messages := M\<rparr>) = (t\<lparr>gt_messages := M @ map g xs\<rparr>, Inr ())"
  using assms(2)
proof (induction xs arbitrary: M)
  case (Cons x xs)
  have "record_message (g x) (t\<lparr>gt_messages := M\<rparr>) = (t\<lparr>gt_messages := M @ [g x]\<rparr>, Inr ())"
    using assms(1) Cons.prems [of x] by (simp add: record_message_def has_def in_range_def trace_ok_def labels_of_def guard_def)
  then show ?case using Cons.IH [of "M @ [g x]"] Cons.prems by (simp add: gbind_def)
qed (simp add: greturn_def)

lemma fold_emit_cong: "(\<And>x s. x \<in> set xs \<Longrightarrow> f x s = g x s) \<Longrightarrow> fold_emit f xs s = fold_emit g xs s"
proof (induction xs arbitrary: s)
  case (Cons x xs)
  then have "fold_emit f xs = fold_emit g xs" by auto
  then show ?case using Cons.prems by simp
qed simp

lemma fold_emit_pure: "fold_emit (\<lambda>x s. greturn (h x s)) xs s = greturn (fold h xs s)"
proof (induction xs arbitrary: s)
  case (Cons x xs)
  then show ?case by simp
qed simp

lemma ring_render_message:
  assumes v: "validate_collective_plan digest p w = None" and plan: "ring_plan digest k w [base..base + int n - 1] = Inr p"
    and n: "n = 2 * (length (lw_ranks w) - 1)" and i: "i < n" and j: "j < length (lw_ranks w)"
    and l: "labels_at k (lw_ranks w) rs i j = (Some tx, Some rx)"
    and l': "labels_at k (lw_ranks w) rs i ((j + 1) mod length (lw_ranks w)) = (Some tx', Some rx')"
  shows "render_message k (plan_tables_of p) rs (ring_extent k (lw_ranks w) (ring_chunk w) i j)
    = record_message (ring_message k (lw_ranks w) (ring_chunk w) base rs i j)"
proof -
  have len: "i < length (cp_rounds p)" and tag: "pr_tag (cp_rounds p ! i) = base + int i"
    using i by (simp_all add: ring_plan_fields(3) [OF plan] ring_rounds_def enumerate_nth nth_upto)
  have "map_of (rs_labels rs) (action_id k i (lw_ranks w ! j) ''send'') = Some tx"
    "map_of (rs_labels rs) (action_id k i (ring_next (lw_ranks w) j) ''receive'') = Some rx'"
    using l l' by (simp_all add: labels_at_def)
  then show ?thesis using validated_round(3) [OF v len] l l' tag
    by (simp add: render_message_def ring_extent_def Let_def lookup_def ring_message_def)
qed

lemma ring_messages:
  assumes v: "validate_collective_plan digest p w = None" and plan: "ring_plan digest k w [base..base + int n - 1] = Inr p"
    and n: "n = 2 * (length (lw_ranks w) - 1)" and k: "nonblank k" and base: "0 \<le> base" and dist: "distinct (lw_ranks w)"
    and I: "ring_sim exact k (lw_ranks w) (ring_chunk w) base after ms0 n rs prev M t" and t: "trace_ok t"
  shows "fold_emit (\<lambda>x _. render_message k (plan_tables_of p) rs x) (cp_extents p) () t = (t\<lparr>gt_messages := M\<rparr>, Inr ())"
proof -
  let ?ranks = "lw_ranks w" and ?W = "length (lw_ranks w)" and ?chunk = "ring_chunk w"
  let ?ps = "List.product [0..<n] [0..<?W]" and ?g = "\<lambda>(i, j). ring_message k ?ranks ?chunk base rs i j"
  have lab: "\<exists>tx rx. labels_at k ?ranks rs i j = (Some tx, Some rx) \<and> has t (?ranks ! j) tx \<and> has t (?ranks ! j) rx"
    if "i < n" "j < ?W" for i j using I that unfolding ring_sim_def by blast
  have next_less: "(j + 1) mod ?W < ?W" "(j + 1) mod ?W \<noteq> j" if "j < ?W" for j
    using that mod_succ_neq [OF that ring_plan_fields(9) [OF plan]] by (auto intro!: mod_less_divisor)
  have step: "render_message k (plan_tables_of p) rs (ring_extent k ?ranks ?chunk i j) = record_message (?g (i, j)) \<and>
      check_goal_message (?g (i, j)) = None \<and> has t (gm_source_rank (?g (i, j))) (gm_send_label (?g (i, j))) \<and>
      has t (gm_destination_rank (?g (i, j))) (gm_receive_label (?g (i, j)))" if ij: "i < n" "j < ?W" for i j
  proof -
    obtain tx rx where l: "labels_at k ?ranks rs i j = (Some tx, Some rx)" "has t (?ranks ! j) tx" using lab [OF ij] by blast
    obtain tx' rx' where l': "labels_at k ?ranks rs i ((j + 1) mod ?W) = (Some tx', Some rx')" "has t (ring_next ?ranks j) rx'"
      using lab [OF ij(1) next_less(1) [OF ij(2)]] by blast
    have "?ranks ! j \<noteq> ring_next ?ranks j" using next_less [OF ij(2)] ij(2) dist by (simp add: nth_eq_iff_index_eq)
    moreover have "0 \<le> ?ranks ! j" "0 \<le> ring_next ?ranks j" using l(2) l'(2) by (simp_all add: has_def in_range_def)
    ultimately show ?thesis using ring_render_message [OF v plan n ij l(1) l'(1)] l l' k base label_nonblank [OF t l(2)] label_nonblank [OF t l'(2)]
      by (simp add: ring_message_def check_goal_message_def Let_def goal_text_def goal_integer_def)
  qed
  have "fold_emit (\<lambda>x _. render_message k (plan_tables_of p) rs x) (cp_extents p) ()
      = fold_emit (\<lambda>x _. record_message (?g x)) ?ps ()"
    unfolding ring_plan_fields(5) [OF plan] ring_all_extents fold_emit_map n [symmetric]
    by (rule fold_emit_cong) (use step in auto)
  moreover have "fold_emit (\<lambda>x _. record_message (?g x)) ?ps () (t\<lparr>gt_messages := ms0\<rparr>) = (t\<lparr>gt_messages := ms0 @ map ?g ?ps\<rparr>, Inr ())"
    by (rule fold_record [OF t]) (use step in auto)
  moreover have "M = ms0 @ map ?g ?ps" "t\<lparr>gt_messages := ms0\<rparr> = t" using I by (auto simp: ring_sim_def)
  ultimately show ?thesis by simp
qed

lemma receives_of_actions:
  "(\<And>a. a \<in> set as \<Longrightarrow> map_of (pt_actions tb) (pa_action_id a) = Some a \<and> map_of (rs_labels rs) (pa_action_id a) = Some (l a)) \<Longrightarrow>
   receives_of tb rs (map pa_action_id as) = greturn (map l (filter (\<lambda>a. pa_kind a = RECEIVE) as))"
  by (induction as) (auto simp: lookup_def)

text \<open>Only the last receive of a rank has no successor, so it is the rank's compatibility frontier.\<close>

lemma ring_last_receive:
  assumes plan: "ring_plan digest k w tags = Inr p" and n: "n = 2 * (length (lw_ranks w) - 1)" and dist: "distinct (lw_ranks w)"
    and j: "j < length (lw_ranks w)" and e: "(lw_ranks w ! j, ids) \<in> set (cp_terminal_action_ids p)"
    and lab: "\<And>i j. i < n \<Longrightarrow> j < length (lw_ranks w) \<Longrightarrow> \<exists>tx rx. labels_at k (lw_ranks w) rs i j = (Some tx, Some rx)"
  shows "\<exists>ls. receives_of (plan_tables_of p) rs ids = greturn ls \<and> ls \<noteq> [] \<and> set ls = {the (snd (labels_at k (lw_ranks w) rs (n - 1) j))}"
proof -
  let ?ranks = "lw_ranks w" and ?as = "cp_actions p" let ?r = "?ranks ! j" let ?z = "ring_action k ?ranks (n - 1) j False"
  let ?l = "\<lambda>a. the (map_of (rs_labels rs) (pa_action_id a))"
  let ?fs = "filter (\<lambda>a. pa_rank a = ?r \<and> pa_action_id a \<notin> set (concat (map pa_depends_on ?as))) ?as"
  have npos: "0 < n" using ring_plan_fields(9) [OF plan] n by simp
  have mem: "a \<in> set ?as \<longleftrightarrow> (\<exists>i j' b. i < n \<and> j' < length ?ranks \<and> a = ring_action k ?ranks i j' b)" for a
    unfolding ring_plan_fields(4) [OF plan] n [symmetric] by (auto simp: ring_actions_set) (metis atLeastLessThan_iff le0)+
  have ids: "ids = map pa_action_id ?fs"
    using e by (auto simp: ring_plan_fields(7) [OF plan] expected_terminals_def Let_def)
  have look: "map_of (pt_actions (plan_tables_of p)) (pa_action_id a) = Some a \<and> map_of (rs_labels rs) (pa_action_id a) = Some (?l a)"
    if fs: "a \<in> set ?fs" for a
  proof -
    obtain i j' b where a: "i < n" "j' < length ?ranks" "a = ring_action k ?ranks i j' b" using fs mem by auto
    then have "map_of (rs_labels rs) (pa_action_id a) \<noteq> None"
      using lab [OF a(1,2)] by (cases b) (auto simp: labels_at_def ring_action_def)
    then show ?thesis using ring_action_lookup [OF plan _ a(2) dist, of i b] a n by auto
  qed
  have only: "a = ?z" if a: "a \<in> set ?fs" "pa_kind a = RECEIVE" for a
  proof -
    obtain i j' b where x: "i < n" "j' < length ?ranks" "a = ring_action k ?ranks i j' b" using a(1) mem by auto
    have "j' = j" using a(1) x j dist by (auto simp: ring_action_def nth_eq_iff_index_eq)
    moreover have "\<not> b" using a(2) x(3) by (auto simp: ring_action_def)
    moreover have "i = n - 1"
    proof (rule ccontr)
      assume "i \<noteq> n - 1"
      then have "Suc i < n" using x(1) by simp
      then have "ring_action k ?ranks (Suc i) j' True \<in> set ?as" unfolding mem using x(2) by blast
      moreover have "pa_action_id a \<in> set (pa_depends_on (ring_action k ?ranks (Suc i) j' True))"
        using x(3) \<open>\<not> b\<close> by (simp add: ring_action_def)
      ultimately show False using a(1) by auto
    qed
    ultimately show ?thesis using x(3) by simp
  qed
  have "?z \<in> set ?fs"
  proof -
    have "n - 1 < n" using npos by simp
    then have "?z \<in> set ?as" unfolding mem using j by blast
    moreover have "pa_action_id ?z \<notin> set (pa_depends_on a)" if "a \<in> set ?as" for a
      using that unfolding mem by (auto simp: ring_action_def split: if_splits)
    ultimately show ?thesis by (auto simp: ring_action_def)
  qed
  moreover have "pa_kind ?z = RECEIVE" by (simp add: ring_action_def)
  ultimately have "set (filter (\<lambda>a. pa_kind a = RECEIVE) ?fs) = {?z}" using only unfolding set_filter [of "\<lambda>a. pa_kind a = RECEIVE"] by blast
  then have "set (map ?l (filter (\<lambda>a. pa_kind a = RECEIVE) ?fs)) = {?l ?z}" unfolding set_map by simp
  moreover have "?l ?z = the (snd (labels_at k ?ranks rs (n - 1) j))" by (simp add: labels_at_def ring_action_def)
  ultimately have ls: "set (map ?l (filter (\<lambda>a. pa_kind a = RECEIVE) ?fs)) = {the (snd (labels_at k ?ranks rs (n - 1) j))}" by (simp only:)
  have "receives_of (plan_tables_of p) rs ids = greturn (map ?l (filter (\<lambda>a. pa_kind a = RECEIVE) ?fs))"
    unfolding ids by (rule receives_of_actions [OF look])
  moreover have "map ?l (filter (\<lambda>a. pa_kind a = RECEIVE) ?fs) \<noteq> []"
  proof
    assume "map ?l (filter (\<lambda>a. pa_kind a = RECEIVE) ?fs) = []"
    from ls [unfolded this] show False by simp
  qed
  ultimately show ?thesis using ls by blast
qed

lemma dict_rebuild: "dict_ok d \<Longrightarrow> map (\<lambda>k. (k, the (map_of d k))) (map fst d) = d"
proof (induction d)
  case (Cons p d)
  have "map (\<lambda>k. (k, the (map_of (p # d) k))) (map fst d) = map (\<lambda>k. (k, the (map_of d k))) (map fst d)"
    using Cons.prems by (intro map_cong refl) (cases p; auto simp: rev_image_eqI)
  also have "\<dots> = d" using Cons by simp
  finally show ?case by (cases p) (simp del: map_map)
qed simp

lemma ring_frontier:
  assumes plan: "ring_plan digest k w tags = Inr p" and n: "n = 2 * (length (lw_ranks w) - 1)" and dist: "distinct (lw_ranks w)"
    and I: "ring_sim exact k (lw_ranks w) (ring_chunk w) base after ms0 n rs prev M t"
  shows "fold_emit (rank_frontier exact k (plan_tables_of p) after rs) (cp_terminal_action_ids p) [] = greturn prev"
proof -
  let ?ranks = "lw_ranks w" and ?es = "cp_terminal_action_ids p"
  have npos: "n \<noteq> 0" using ring_plan_fields(9) [OF plan] n by simp
  have keys: "map fst ?es = ?ranks" by (simp add: ring_plan_fields(7) [OF plan] expected_terminals_def Let_def o_def)
  have pk: "map fst prev = ?ranks" using I npos by (simp add: ring_sim_def)
  have lab: "\<exists>tx rx. labels_at k ?ranks rs i j = (Some tx, Some rx)" if "i < n" "j < length ?ranks" for i j
    using I that unfolding ring_sim_def by blast
  have one: "rank_frontier exact k (plan_tables_of p) after rs x f = greturn (AList.update (fst x) (the (map_of prev (fst x))) f)" if x: "x \<in> set ?es" for x f
  proof -
    obtain r ids where ri: "x = (r, ids)" by (cases x)
    have "r \<in> set ?ranks" using x ri keys by (metis fst_conv image_eqI list.set_map)
    then obtain j where j: "j < length ?ranks" "r = ?ranks ! j" by (auto simp: in_set_conv_nth)
    obtain e where e: "map_of prev r = Some e" "exposed exact k ?ranks after rs n j = Some e" "map_of (rs_last rs) r = Some (int (n - 1))"
      using I npos j unfolding ring_sim_def by (metis option.exhaust)
    show ?thesis
    proof (cases exact)
      case True
      then show ?thesis using e npos j by (simp add: ri rank_frontier_def exposed_def lookup_def)
    next
      case False
      obtain ls where ls: "receives_of (plan_tables_of p) rs ids = greturn ls" "ls \<noteq> []" "set ls = {the (snd (labels_at k ?ranks rs (n - 1) j))}"
        using ring_last_receive [OF plan n dist j(1) _ lab] x ri j(2) by blast
      have "last ls = e" using ls(2,3) e(2) False npos last_in_set [OF ls(2)] by (simp add: exposed_def)
      then show ?thesis using False ls(1,2) e(1) by (simp add: ri rank_frontier_def)
    qed
  qed
  have "fold_emit (rank_frontier exact k (plan_tables_of p) after rs) ?es [] =
      fold_emit (\<lambda>x f. greturn (AList.update (fst x) (the (map_of prev (fst x))) f)) ?es []"
    by (rule fold_emit_cong) (rule one)
  also have "\<dots> = greturn (map (\<lambda>x. (fst x, the (map_of prev (fst x)))) ?es)"
    unfolding fold_emit_pure using fold_update_fresh [of "[]" fst ?es "\<lambda>x. the (map_of prev (fst x))"] dist keys by simp
  also have "map (\<lambda>x. (fst x, the (map_of prev (fst x)))) ?es = map (\<lambda>r. (r, the (map_of prev r))) (map fst ?es)"
    by simp
  also have "map fst ?es = map fst prev" by (rule trans [OF keys pk [symmetric]])
  also have "map (\<lambda>r. (r, the (map_of prev r))) (map fst prev) = prev" 
    by (rule dict_rebuild) (simp add: dist pk)
  finally show ?thesis .
qed

subsection \<open>The equivalence\<close>

text \<open>
  C35. The renderer and the pattern agree on rings.  For validated ring work over ranks of a
  well-formed trace, with consecutive tags from a nonnegative base and a frontier of existing
  labels, rendering the planner's explicit plan and running \<open>ring_allreduce\<close> both return, leave
  exactly the same trace and return the same frontier, with and without the exact frontier.
\<close>

theorem ring_plan_renders_as_pattern:
  assumes plan: "ring_plan digest k w [base..base + 2 * (int (length (lw_ranks w)) - 1) - 1] = Inr p"
    and w: "validate_collective w = None" and k: "nonblank k" and base: "0 \<le> base" and hex: "hex_digest digest"
    and t: "trace_ok t" "\<forall>r \<in> set (lw_ranks w). r < gt_num_ranks t" and front: "frontier_ok t after"
  shows "\<exists>u f. render_collective_plan p after prov exact t = (u, Inr f) \<and>
    ring_allreduce (lw_ranks w) (lw_payload_bytes w) base after (Some k) prov exact t = (u, Inr f)"
proof -
  let ?ranks = "lw_ranks w" and ?chunk = "ring_chunk w" define n where "n = 2 * (length ?ranks - 1)"
  have W: "2 \<le> length ?ranks" by (rule ring_plan_fields(9) [OF plan])
  have plan': "ring_plan digest k w [base..base + int n - 1] = Inr p" using plan W by (simp add: n_def of_nat_diff)
  have v: "validate_collective_plan digest p w = None" using base by (intro ring_plan_accepted [OF plan' w k _ _ hex]) auto
  have dist: "distinct ?ranks" and nonneg: "\<forall>r \<in> set ?ranks. 0 \<le> r" using w by (simp_all add: validate_collective_def Let_def)
  have r: "in_range t r" if "r \<in> set ?ranks" for r using t nonneg that by (auto simp: in_range_def trace_ok_def)
  let ?body = "render_round exact p (plan_tables_of p) (concat (map snd (cp_entry_action_ids p))) (internal_provenance k) after prov"
  let ?rs = "\<lparr>rs_labels = [], rs_joins = [], rs_last = []\<rparr>"
  have "ok2 (fold_emit (\<lambda>i. ?body (cp_rounds p ! i)) [0..<n] ?rs) (fold_emit (ring_round ?ranks ?chunk base (Some k) prov exact) [0..<n] after) t
      (gt_messages t) ((\<lambda>js. ring_sim exact k ?ranks ?chunk base after (gt_messages t) (length js)) [0..<n])"
  proof (rule ok2_fold [OF t(1)], goal_cases)
    case 1
    then show ?case using front by (simp add: ring_sim_def exposed_def frontier_ok_def)
  next
    case (2 ys i zs rs prev M u)
    have "[0..<n] ! length ys = i" "length ys < n" using 2(1) by (metis nth_append_length) (metis 2(1) length_append length_upt list.size(4) less_add_Suc1 diff_zero add_Suc_right)
    then have i: "i < n" "length ys = i" by auto
    show ?case using ring_round_sim [OF plan' n_def k dist base i(1), of u exact after "gt_messages t" rs prev M prov] 2(2,3) r grown_in_range [OF 2(2)]
      by (simp add: i(2) grown_def)
  qed
  then obtain u rs prev M where run: "fold_emit (\<lambda>i. ?body (cp_rounds p ! i)) [0..<n] ?rs t = (u, Inr rs)"
      "fold_emit (ring_round ?ranks ?chunk base (Some k) prov exact) [0..<n] after t = (u\<lparr>gt_messages := M\<rparr>, Inr prev)" "grown t u"
      and I: "ring_sim exact k ?ranks ?chunk base after (gt_messages t) n rs prev M u"
    by (auto simp: ok2_def)
  have "length (cp_rounds p) = n" by (simp add: ring_plan_fields(3) [OF plan'] ring_rounds_def)
  then have idx: "map ((!) (cp_rounds p)) [0..<n] = cp_rounds p" by (metis map_nth)
  have "fold_emit ?body (map ((!) (cp_rounds p)) [0..<n]) ?rs t = (u, Inr rs)" unfolding fold_emit_map by (rule run(1))
  then have rounds: "fold_emit ?body (cp_rounds p) ?rs t = (u, Inr rs)" unfolding idx .
  have int: "internal_of k = greturn (internal_provenance k)"
    using k by (simp add: internal_of_def check_goal_provenance_def internal_provenance_def goal_text_def guard_def)
  have known: "list_all (\<lambda>a. round_of_action (plan_tables_of p) a \<noteq> None) (cp_actions p)"
    using validated_action_known [OF v] by (auto simp: list_all_iff action_known_def)
  have "trace_ok u" using run(3) by (simp add: grown_def)
  note msgs = ring_messages [OF v plan' n_def k base dist I this]
  have "render_collective_plan p after prov exact t = (u\<lparr>gt_messages := M\<rparr>, Inr prev)"
    using known rounds msgs ring_frontier [OF plan' n_def dist I]
    by (simp add: render_collective_plan_def Let_def ring_plan_fields(1) [OF plan'] int gbind_def greturn_def)
  moreover have "ring_allreduce ?ranks (lw_payload_bytes w) base after (Some k) prov exact t = (u\<lparr>gt_messages := M\<rparr>, Inr prev)"
    using run(2) W by (simp add: ring_allreduce_def n_def)
  ultimately show ?thesis by blast
qed

definition ring_demo :: collective_work where
  "ring_demo =
     \<lparr>lw_collective = ''all-reduce'', lw_ranks = [2, 0], lw_payload_bytes = 7, lw_algorithm_hint = Some ''ring'',
      lw_channel_hint = None, lw_pair_payload_bytes = [], lw_request_pair_payload_bytes = []\<rparr>"

theorem ring_plan_renders_as_pattern_witness:
  "\<exists>p u f. ring_plan demo_digest ''k'' ring_demo [5..6] = Inr p \<and>
     render_collective_plan p [] [] True demo_trace = (u, Inr f) \<and>
     ring_allreduce [2, 0] 7 5 [] (Some ''k'') [] True demo_trace = (u, Inr f) \<and> length (gt_messages u) = 4"
proof -
  have "case ring_plan demo_digest ''k'' ring_demo [5..6] of Inl e \<Rightarrow> False | Inr p \<Rightarrow> True" by code_simp
  then obtain p where p: "ring_plan demo_digest ''k'' ring_demo [5..6] = Inr p" by (auto split: sum.splits)
  have w: "validate_collective ring_demo = None" "nonblank ''k''" "new_trace 3 = Inr demo_trace" by code_simp+
  have "hex_digest demo_digest" by (simp add: hex_digest_def demo_digest_def list_all_iff)
  moreover have "\<forall>r \<in> set (lw_ranks ring_demo). r < gt_num_ranks demo_trace" by (simp add: ring_demo_def demo_trace_def)
  ultimately have "\<exists>u f. render_collective_plan p [] [] True demo_trace = (u, Inr f) \<and>
      ring_allreduce [2, 0] 7 5 [] (Some ''k'') [] True demo_trace = (u, Inr f)"
    using ring_plan_renders_as_pattern [of demo_digest "''k''" ring_demo 5 p demo_trace "[]" "[]" True] p w new_trace_ok [OF w(3)]
    by (simp add: ring_demo_def frontier_ok_def)
  moreover have "length (gt_messages (fst (ring_allreduce [2, 0] 7 5 [] (Some ''k'') [] True demo_trace))) = 4" by code_simp
  ultimately show ?thesis using p by (auto simp del: upto_rec_numeral)
qed

end
