(* ===== verification/Runtime_Records.thy ===== *)
theory Runtime_Records
  imports Collective_Plan Bookkeeping Step "HOL-Library.Product_Lexorder"
begin

text \<open>
  The records of the coarse device runtime (\<open>simllm/core/runtime.py\<close>): the device profile, queue
  visits, critical-path accounting, and the work-queue elements (WQEs) of the network authority, each
  with its construction checks.  \<open>ReceiverIngressWqeProjection\<close> is a WQE projection whose field
  \<open>wp_ingress\<close> holds its two extra fields.  A copy engine and a kernel service are objects that the
  caller hands to the constructor; the runtime only asks them for a duration, so they are records
  whose last field is that estimate (\<open>None\<close> when the call raises).
\<close>

datatype record_error =
    RtBlank | RtNegative | RtNonPositive
  | ProfileGpus | ProfileRnics | DuplicateEngine
  | EarlyEligible | EarlyStart | EarlyFinish | EarlyCompletion
  | BreakdownSum | SegmentBackward | SegmentPredecessor | SegmentBreakdown | SegmentAttribution
  | WqeSelfSend | WqeSequence | WqeNativeStages | WqeNativeOrder | WqeNativeProjection
  | WqePacketFields | WqePacketOrder | WqePacketEnds | WqePacketTimeline
  | IngressReadiness | IngressNative

text \<open>\<open>rcheck\<close> runs a check in front of a fallible computation; \<open>each_err\<close> checks a list.\<close>

definition rcheck :: "'e option \<Rightarrow> 'e + 'a \<Rightarrow> 'e + 'a" where
  "rcheck c r = (case c of None \<Rightarrow> r | Some e \<Rightarrow> Inl e)"

lemma rcheck_simps [simp]: "rcheck None r = r" "rcheck (Some e) r = Inl e"
  by (simp_all add: rcheck_def)

lemma rcheck_Inr_iff: "rcheck c r = Inr a \<longleftrightarrow> c = None \<and> r = Inr a"
  by (cases c) auto

definition require_int :: "int \<Rightarrow> record_error option" where
  "require_int i = guard (0 \<le> i) RtNegative"

definition require_positive :: "int \<Rightarrow> record_error option" where
  "require_positive i = guard (0 < i) RtNonPositive"

definition require_text :: "string \<Rightarrow> record_error option" where
  "require_text s = guard (nonblank s) RtBlank"

definition opt_err :: "('a \<Rightarrow> 'e option) \<Rightarrow> 'a option \<Rightarrow> 'e option" where
  "opt_err f x = (case x of None \<Rightarrow> None | Some a \<Rightarrow> f a)"

lemmas require_defs = require_int_def require_positive_def require_text_def

definition ps_per_second :: int where
  "ps_per_second = 1000000000000"

text \<open>Exact serialization time, rounded up to a whole picosecond.\<close>

definition serialization_ps :: "int \<Rightarrow> int \<Rightarrow> record_error + int" where
  "serialization_ps byte_count rate_bps =
     rcheck (first_err [require_int byte_count, require_positive rate_bps])
       (Inr ((byte_count * 8 * ps_per_second + rate_bps - 1) div rate_bps))"

definition cycles_to_ps :: "int \<Rightarrow> int \<Rightarrow> int" where
  "cycles_to_ps cycles clock_hz = (cycles * ps_per_second + clock_hz - 1) div clock_hz"

definition escape_id :: "string \<Rightarrow> string" where
  "escape_id s = replace_char CHR '':'' ''%3A'' (replace_char CHR ''%'' ''%25'' s)"

subsection \<open>Profile\<close>

datatype copy_direction = HOST_TO_DEVICE | DEVICE_TO_HOST | DEVICE_TO_DEVICE | PEER_TO_PEER

record copy_transfer =
  ct_transfer_id :: string
  ct_direction :: copy_direction
  ct_bytes :: int
  ct_source :: string
  ct_destination :: string

record copy_engine =
  en_engine_id :: string
  en_directions :: "copy_direction list"
  en_estimate :: "copy_transfer \<Rightarrow> int option"

record device_profile =
  pf_gpus_per_node :: int
  pf_rnics_per_node :: int
  pf_rnic_rate_bps :: int
  pf_nvlink_rate_bps :: int
  pf_hbm_rate_bps :: int
  pf_launch_service_ps :: int
  pf_control_service_ps :: int
  pf_nccl_channel_service_ps :: int
  pf_completion_delivery_ps :: int
  pf_goal_base_tag :: int
  pf_copy_engines :: "copy_engine list"

definition check_profile :: "device_profile \<Rightarrow> record_error option" where
  "check_profile p =
     first_err
       [guard (pf_gpus_per_node p = 8) ProfileGpus, guard (pf_rnics_per_node p = 8) ProfileRnics,
        require_positive (pf_rnic_rate_bps p), require_positive (pf_nvlink_rate_bps p),
        require_int (pf_hbm_rate_bps p), require_int (pf_launch_service_ps p), require_int (pf_control_service_ps p),
        require_int (pf_nccl_channel_service_ps p), require_int (pf_completion_delivery_ps p),
        require_int (pf_goal_base_tag p), guard (distinct (map en_engine_id (pf_copy_engines p))) DuplicateEngine]"

definition default_profile :: device_profile where
  "default_profile =
     \<lparr>pf_gpus_per_node = 8, pf_rnics_per_node = 8, pf_rnic_rate_bps = 400000000000, pf_nvlink_rate_bps = 900000000000,
      pf_hbm_rate_bps = 0, pf_launch_service_ps = 0, pf_control_service_ps = 0, pf_nccl_channel_service_ps = 0,
      pf_completion_delivery_ps = 0, pf_goal_base_tag = default_goal_base_tag, pf_copy_engines = []\<rparr>"

definition node_gpu :: "device_profile \<Rightarrow> int \<Rightarrow> record_error + int \<times> int" where
  "node_gpu p rank = rcheck (require_int rank) (Inr (rank div pf_gpus_per_node p, rank mod pf_gpus_per_node p))"

definition rnic_id :: "device_profile \<Rightarrow> int \<Rightarrow> record_error + string" where
  "rnic_id p rank = rbind (node_gpu p rank) (\<lambda>(node, gpu).
     Inr (''node-'' @ int_text node @ '':rnic-'' @ int_text gpu))"

subsection \<open>Visits and critical-path accounting\<close>

record queue_visit =
  qv_execution_id :: string
  qv_operation_id :: string
  qv_resource :: resource_ref
  qv_submitted_at_ps :: int
  qv_eligible_at_ps :: int
  qv_started_at_ps :: int
  qv_finished_at_ps :: int
  qv_completed_at_ps :: int
  qv_service_bytes :: int
  qv_subject_object_id :: "string option"
  qv_stage :: "string option"

definition check_visit :: "queue_visit \<Rightarrow> record_error option" where
  "check_visit v =
     first_err
       [require_text (qv_execution_id v), require_text (qv_operation_id v),
        require_int (qv_submitted_at_ps v), require_int (qv_eligible_at_ps v), require_int (qv_started_at_ps v),
        require_int (qv_finished_at_ps v), require_int (qv_completed_at_ps v), require_int (qv_service_bytes v),
        opt_err require_text (qv_subject_object_id v), opt_err require_text (qv_stage v),
        guard (qv_submitted_at_ps v \<le> qv_eligible_at_ps v) EarlyEligible,
        guard (qv_eligible_at_ps v \<le> qv_started_at_ps v) EarlyStart,
        guard (qv_started_at_ps v \<le> qv_finished_at_ps v) EarlyFinish,
        guard (qv_finished_at_ps v \<le> qv_completed_at_ps v) EarlyCompletion]"

definition queue_wait_ps :: "queue_visit \<Rightarrow> int" where
  "queue_wait_ps v = qv_started_at_ps v - qv_eligible_at_ps v"

definition visit_service_ps :: "queue_visit \<Rightarrow> int" where
  "visit_service_ps v = qv_finished_at_ps v - qv_started_at_ps v"

definition visibility_ps :: "queue_visit \<Rightarrow> int" where
  "visibility_ps v = qv_completed_at_ps v - qv_finished_at_ps v"

record critical_path_breakdown =
  cb_launch_queue_ps :: int
  cb_device_queue_ps :: int
  cb_service_ps :: int
  cb_completion_delivery_ps :: int
  cb_external_dependency_ps :: int
  cb_operation_latency_ps :: int
  cb_critical_path_queue_ps :: int

definition check_breakdown :: "critical_path_breakdown \<Rightarrow> record_error option" where
  "check_breakdown b =
     first_err
       [require_int (cb_launch_queue_ps b), require_int (cb_device_queue_ps b), require_int (cb_service_ps b),
        require_int (cb_completion_delivery_ps b), require_int (cb_external_dependency_ps b),
        require_int (cb_operation_latency_ps b), require_int (cb_critical_path_queue_ps b),
        guard (cb_launch_queue_ps b + cb_device_queue_ps b + cb_service_ps b + cb_completion_delivery_ps b
          + cb_external_dependency_ps b = cb_operation_latency_ps b) BreakdownSum]"

record critical_segment =
  cs_operation_id :: string
  cs_participant_rank :: int
  cs_started_at_ps :: int
  cs_completed_at_ps :: int
  cs_predecessor_operation_id :: "string option"
  cs_predecessor_participant_rank :: "int option"
  cs_breakdown :: critical_path_breakdown
  cs_attribution :: latency_attribution

definition check_segment :: "critical_segment \<Rightarrow> record_error option" where
  "check_segment s =
     first_err
       [require_text (cs_operation_id s), require_int (cs_participant_rank s), require_int (cs_started_at_ps s),
        require_int (cs_completed_at_ps s), guard (cs_started_at_ps s \<le> cs_completed_at_ps s) SegmentBackward,
        guard ((cs_predecessor_operation_id s = None) = (cs_predecessor_participant_rank s = None)) SegmentPredecessor,
        opt_err require_text (cs_predecessor_operation_id s), opt_err require_int (cs_predecessor_participant_rank s),
        guard (cb_operation_latency_ps (cs_breakdown s) = cs_completed_at_ps s - cs_started_at_ps s) SegmentBreakdown,
        guard (attribution_total_ps (cs_attribution s) = cs_completed_at_ps s - cs_started_at_ps s) SegmentAttribution]"

record runtime_operation_record =
  ro_operation_id :: string
  ro_class_label :: int
  ro_submitted_at_ps :: int
  ro_eligible_at_ps :: int
  ro_completed_at_ps :: int
  ro_physical_completed_at_ps :: int
  ro_participant_completed_at_ps :: "(int \<times> int) list"
  ro_critical_segments :: "critical_segment list"
  ro_breakdown :: critical_path_breakdown
  ro_attribution :: latency_attribution
  ro_causal_predecessor_id :: "string option"
  ro_causal_predecessor_completed_at_ps :: "int option"
  ro_critical_predecessor_id :: "string option"
  ro_sum_visit_wait_ps :: int

subsection \<open>Work-queue elements\<close>

record wqe_submission =
  ws_execution_id :: string
  ws_operation_id :: string
  ws_source_rank :: int
  ws_destination_rank :: int
  ws_payload_bytes :: int
  ws_goal_tag :: int
  ws_extent_index :: int
  ws_channel_id :: string
  ws_submitted_at_ps :: int
  ws_eligible_at_ps :: int
  ws_class_label :: int
  ws_nccl_command_id :: "string option"

definition check_submission :: "wqe_submission \<Rightarrow> record_error option" where
  "check_submission s =
     first_err
       [require_text (ws_execution_id s), require_text (ws_operation_id s), require_text (ws_channel_id s),
        require_int (ws_source_rank s), require_int (ws_destination_rank s), require_int (ws_payload_bytes s),
        require_int (ws_goal_tag s), require_int (ws_extent_index s), require_int (ws_submitted_at_ps s),
        require_int (ws_eligible_at_ps s), guard (ws_source_rank s \<noteq> ws_destination_rank s) WqeSelfSend,
        guard (ws_submitted_at_ps s \<le> ws_eligible_at_ps s) EarlyEligible,
        opt_err require_text (ws_nccl_command_id s)]"

record wqe_projection =
  wp_authority :: string
  wp_execution_id :: string
  wp_operation_id :: string
  wp_wqe_id :: string
  wp_native_wqe_id :: string
  wp_sq_id :: string
  wp_rq_id :: string
  wp_cq_id :: string
  wp_qp_id :: string
  wp_rnic_id :: string
  wp_source_rank :: int
  wp_destination_rank :: int
  wp_payload_bytes :: int
  wp_goal_tag :: int
  wp_extent_index :: int
  wp_sq_post_sequence :: int
  wp_cq_post_sequence :: int
  wp_submitted_at_ps :: int
  wp_eligible_at_ps :: int
  wp_started_at_ps :: int
  wp_finished_at_ps :: int
  wp_completed_at_ps :: int
  wp_channel_id :: string
  wp_nccl_command_id :: "string option"
  wp_doorbell_started_at_ps :: "int option"
  wp_doorbell_completed_at_ps :: "int option"
  wp_network_eligible_at_ps :: "int option"
  wp_network_started_at_ps :: "int option"
  wp_network_finished_at_ps :: "int option"
  wp_network_accepted_at_ps :: "int option"
  wp_first_packet_at_ps :: "int option"
  wp_last_packet_at_ps :: "int option"
  wp_packet_tx_started_at_ps :: "int list"
  wp_ingress :: "(int \<times> string) option"

text \<open>The native stages are all present or all absent, and in order.\<close>

definition check_native_stages :: "wqe_projection \<Rightarrow> record_error option" where
  "check_native_stages w =
     (case (wp_doorbell_started_at_ps w, wp_doorbell_completed_at_ps w, wp_network_eligible_at_ps w,
            wp_network_started_at_ps w, wp_network_finished_at_ps w) of
        (None, None, None, None, None) \<Rightarrow> None
      | (Some d, Some d', Some e, Some s, Some f) \<Rightarrow>
          first_err
            [require_int d, require_int d', require_int e, require_int s, require_int f,
             guard (wp_submitted_at_ps w \<le> d \<and> d \<le> d' \<and> d' \<le> e \<and> e \<le> s \<and> s \<le> f \<and> f \<le> wp_completed_at_ps w)
               WqeNativeOrder,
             guard (wp_started_at_ps w = s \<and> wp_finished_at_ps w = f) WqeNativeProjection]
      | _ \<Rightarrow> Some WqeNativeStages)"

text \<open>So are the packet fields, which derive from the transmission starts.\<close>

definition check_packet_fields :: "wqe_projection \<Rightarrow> record_error option" where
  "check_packet_fields w =
     (let tx = wp_packet_tx_started_at_ps w in
      case (wp_network_accepted_at_ps w, wp_first_packet_at_ps w, wp_last_packet_at_ps w) of
        (Some a, Some f, Some l) \<Rightarrow>
          if tx = [] then Some WqePacketFields
          else first_err
            [guard (sort tx = tx) WqePacketOrder,
             guard (f = Min (set tx) \<and> l = Max (set tx)) WqePacketEnds,
             (case (wp_network_eligible_at_ps w, wp_network_started_at_ps w, wp_network_finished_at_ps w) of
                (Some e, Some s, Some fin) \<Rightarrow>
                  guard (e \<le> a \<and> a \<le> f \<and> f \<le> l \<and> l \<le> fin \<and> s = f) WqePacketTimeline
              | _ \<Rightarrow> Some WqePacketTimeline)]
      | (None, None, None) \<Rightarrow> guard (tx = []) WqePacketFields
      | _ \<Rightarrow> Some WqePacketFields)"

definition check_ingress :: "wqe_projection \<Rightarrow> record_error option" where
  "check_ingress w =
     (case wp_ingress w of
        None \<Rightarrow> None
      | Some (ready, rnic) \<Rightarrow>
          first_err
            [require_int ready, require_text rnic,
             guard (wp_eligible_at_ps w \<le> ready \<and> ready \<le> wp_started_at_ps w) IngressReadiness,
             guard (wp_doorbell_started_at_ps w = None) IngressNative])"

definition check_projection :: "wqe_projection \<Rightarrow> record_error option" where
  "check_projection w =
     first_err
       ([require_text (wp_authority w), require_text (wp_execution_id w), require_text (wp_operation_id w),
         require_text (wp_wqe_id w), require_text (wp_native_wqe_id w), require_text (wp_sq_id w),
         require_text (wp_rq_id w), require_text (wp_cq_id w), require_text (wp_qp_id w),
         require_text (wp_rnic_id w), require_text (wp_channel_id w),
         require_int (wp_source_rank w), require_int (wp_destination_rank w), require_int (wp_payload_bytes w),
         require_int (wp_goal_tag w), require_int (wp_extent_index w), require_int (wp_sq_post_sequence w),
         require_int (wp_cq_post_sequence w), require_int (wp_submitted_at_ps w), require_int (wp_eligible_at_ps w),
         require_int (wp_started_at_ps w), require_int (wp_finished_at_ps w), require_int (wp_completed_at_ps w),
         guard (0 < wp_sq_post_sequence w \<and> 0 < wp_cq_post_sequence w) WqeSequence,
         guard (wp_submitted_at_ps w \<le> wp_eligible_at_ps w) EarlyEligible,
         guard (wp_eligible_at_ps w \<le> wp_started_at_ps w) EarlyStart,
         guard (wp_started_at_ps w \<le> wp_finished_at_ps w) EarlyFinish,
         guard (wp_finished_at_ps w \<le> wp_completed_at_ps w) EarlyCompletion,
         opt_err require_text (wp_nccl_command_id w)]
        @ [check_native_stages w, check_packet_fields w, check_ingress w])"

record port_reservation =
  po_wqe_id :: string
  po_rnic_id :: string
  po_started_at_ps :: int
  po_finished_at_ps :: int
  po_service_bytes :: int

record runtime_report =
  rp_execution_id :: string
  rp_authority :: string
  rp_operations :: "runtime_operation_record list"
  rp_visits :: "queue_visit list"
  rp_wqes :: "wqe_projection list"
  rp_sum_visit_wait_ps :: int
  rp_critical_path_queue_ps :: int
  rp_realized_operation_ids :: "string list"
  rp_realized_segments :: "(string \<times> int) list"
  rp_class_service_bytes :: "(int \<times> int) list"
  rp_random_draw_count :: int

text \<open>Serialization rounds up, by less than one picosecond.\<close>

lemma ceil_div_bounds:
  assumes "0 < (d :: int)" shows "n \<le> (n + d - 1) div d * d" "(n + d - 1) div d * d < n + d"
proof -
  have "(n + d - 1) div d * d + (n + d - 1) mod d = n + d - 1" by simp
  moreover have "0 \<le> (n + d - 1) mod d" "(n + d - 1) mod d < d" using assms by simp_all
  ultimately show "n \<le> (n + d - 1) div d * d" "(n + d - 1) div d * d < n + d" by linarith+
qed

lemma serialization_bounds:
  assumes "serialization_ps b r = Inr t"
  shows "0 \<le> b" "0 < r" "0 \<le> t" "b * 8 * ps_per_second \<le> t * r" "t * r < b * 8 * ps_per_second + r"
proof -
  have t: "0 \<le> b" "0 < r" "t = (b * 8 * ps_per_second + r - 1) div r"
    using assms by (auto simp: serialization_ps_def rcheck_Inr_iff require_defs)
  then show "0 \<le> b" "0 < r" by simp_all
  show "b * 8 * ps_per_second \<le> t * r" "t * r < b * 8 * ps_per_second + r"
    using ceil_div_bounds [OF t(2), of "b * 8 * ps_per_second"] unfolding t(3) by simp_all
  then show "0 \<le> t" using t(1,2) unfolding t(3) by (simp add: ps_per_second_def pos_imp_zdiv_nonneg_iff)
qed

lemma serialization_total: "0 \<le> b \<Longrightarrow> 0 < r \<Longrightarrow> \<exists>t. serialization_ps b r = Inr t"
  by (simp add: serialization_ps_def rcheck_def require_defs guard_def)

end
