(* ===== verification/Wqe_Ledger.thy ===== *)
theory Wqe_Ledger
  imports Runtime_Records
begin

text \<open>
  The WQE authorities of the device runtime.  \<open>AtlahsWqeLedger\<close> of \<open>simllm/core/runtime.py\<close> is the
  bypass authority: it owns the send, receive and completion queues and serves every RNIC port one
  WQE at a time.  A native session is an object of another program behind the protocol
  \<open>NativeRnicTransaction\<close>; both are seen by the scheduler as a \<open>wqe_ops\<close> record over their state.
  \<open>Wqe_Properties\<close> shows that the ports of the ledger serve one WQE at a time and never exceed their
  line rate.
\<close>

subsection \<open>The bypass ledger\<close>

record atlahs_ledger =
  al_receiver_ingress :: bool
  al_available_at_ps :: "(string, int) dict"
  al_receiver_available_at_ps :: "(string, int) dict"
  al_sq_sequences :: "(string, int) dict"
  al_cq_sequences :: "(string, int) dict"
  al_records :: "wqe_projection list"

definition new_atlahs :: "bool \<Rightarrow> atlahs_ledger" where
  "new_atlahs ingress =
     \<lparr>al_receiver_ingress = ingress, al_available_at_ps = [], al_receiver_available_at_ps = [],
      al_sq_sequences = [], al_cq_sequences = [], al_records = []\<rparr>"

definition atlahs_authority_name :: string where
  "atlahs_authority_name = ''AtlahsWqeLedger''"

definition atlahs_queue_id :: "int \<Rightarrow> int \<Rightarrow> string \<Rightarrow> string" where
  "atlahs_queue_id node gpu kind =
     ''atlahs:node-'' @ int_text node @ '':gpu-'' @ int_text gpu @ '':'' @ kind"

definition atlahs_wqe_id :: "string \<Rightarrow> string \<Rightarrow> int \<Rightarrow> string" where
  "atlahs_wqe_id execution operation extent =
     ''atlahs-wqe:'' @ escape_id execution @ '':'' @ escape_id operation @ '':'' @ int_text extent"

definition source_ready :: "atlahs_ledger \<Rightarrow> string \<Rightarrow> wqe_submission \<Rightarrow> int" where
  "source_ready l rnic s = max (ws_eligible_at_ps s) (dict_get (al_available_at_ps l) rnic 0)"

definition grant_time :: "atlahs_ledger \<Rightarrow> bool \<Rightarrow> string \<Rightarrow> int \<Rightarrow> int" where
  "grant_time l ingress_active dest_rnic ready =
     (if ingress_active then max ready (dict_get (al_receiver_available_at_ps l) dest_rnic 0) else ready)"

definition atlahs_record :: "atlahs_ledger \<Rightarrow> wqe_submission \<Rightarrow> int \<times> int \<Rightarrow> int \<times> int \<Rightarrow> string \<Rightarrow> string \<Rightarrow> int \<Rightarrow> int
    \<Rightarrow> wqe_projection" where
  "atlahs_record l s src dst rnic dest_rnic finished completed =
     (let sq = atlahs_queue_id (fst src) (snd src) ''sq''; cq = atlahs_queue_id (fst src) (snd src) ''cq'';
          qp = atlahs_queue_id (fst src) (snd src) ''qp'';
          sq_sequence = dict_get (al_sq_sequences l) sq 0 + 1;
          ingress = (al_receiver_ingress l \<and> fst src \<noteq> fst dst); ready = source_ready l rnic s
      in \<lparr>wp_authority = atlahs_authority_name, wp_execution_id = ws_execution_id s, wp_operation_id = ws_operation_id s,
          wp_wqe_id = atlahs_wqe_id (ws_execution_id s) (ws_operation_id s) (ws_extent_index s),
          wp_native_wqe_id = qp @ '':post-'' @ int_text sq_sequence,
          wp_sq_id = sq, wp_rq_id = atlahs_queue_id (fst dst) (snd dst) ''rq'', wp_cq_id = cq, wp_qp_id = qp,
          wp_rnic_id = rnic, wp_source_rank = ws_source_rank s, wp_destination_rank = ws_destination_rank s,
          wp_payload_bytes = ws_payload_bytes s, wp_goal_tag = ws_goal_tag s, wp_extent_index = ws_extent_index s,
          wp_sq_post_sequence = sq_sequence, wp_cq_post_sequence = dict_get (al_cq_sequences l) cq 0 + 1,
          wp_submitted_at_ps = ws_submitted_at_ps s, wp_eligible_at_ps = ws_eligible_at_ps s,
          wp_started_at_ps = grant_time l ingress dest_rnic ready, wp_finished_at_ps = finished,
          wp_completed_at_ps = completed, wp_channel_id = ws_channel_id s, wp_nccl_command_id = ws_nccl_command_id s,
          wp_doorbell_started_at_ps = None, wp_doorbell_completed_at_ps = None, wp_network_eligible_at_ps = None,
          wp_network_started_at_ps = None, wp_network_finished_at_ps = None, wp_network_accepted_at_ps = None,
          wp_first_packet_at_ps = None, wp_last_packet_at_ps = None, wp_packet_tx_started_at_ps = [],
          wp_ingress = (if ingress then Some (ready, dest_rnic) else None)\<rparr>)"

definition install_record :: "atlahs_ledger \<Rightarrow> wqe_projection \<Rightarrow> atlahs_ledger" where
  "install_record l w =
     l\<lparr>al_available_at_ps := AList.update (wp_rnic_id w) (wp_finished_at_ps w) (al_available_at_ps l),
       al_receiver_available_at_ps :=
         (case wp_ingress w of None \<Rightarrow> al_receiver_available_at_ps l
          | Some (_, rnic) \<Rightarrow> AList.update rnic (wp_finished_at_ps w) (al_receiver_available_at_ps l)),
       al_sq_sequences := AList.update (wp_sq_id w) (wp_sq_post_sequence w) (al_sq_sequences l),
       al_cq_sequences := AList.update (wp_cq_id w) (wp_cq_post_sequence w) (al_cq_sequences l),
       al_records := al_records l @ [w]\<rparr>"

definition atlahs_submit :: "device_profile \<Rightarrow> atlahs_ledger \<Rightarrow> wqe_submission \<Rightarrow> record_error + wqe_projection \<times> atlahs_ledger" where
  "atlahs_submit p l s =
     rbind (node_gpu p (ws_source_rank s)) (\<lambda>src.
     rbind (node_gpu p (ws_destination_rank s)) (\<lambda>dst.
     rbind (rnic_id p (ws_source_rank s)) (\<lambda>rnic.
     rbind (rnic_id p (ws_destination_rank s)) (\<lambda>dest_rnic.
     rbind (serialization_ps (ws_payload_bytes s) (pf_rnic_rate_bps p)) (\<lambda>duration.
       let started = grant_time l (al_receiver_ingress l \<and> fst src \<noteq> fst dst) dest_rnic (source_ready l rnic s);
           finished = started + duration;
           w = atlahs_record l s src dst rnic dest_rnic finished (finished + pf_completion_delivery_ps p)
       in rcheck (check_projection w) (Inr (w, install_record l w)))))))"

subsection \<open>Projections of the ledger\<close>

definition source_reservation :: "wqe_projection \<Rightarrow> port_reservation" where
  "source_reservation w =
     \<lparr>po_wqe_id = wp_wqe_id w, po_rnic_id = wp_rnic_id w, po_started_at_ps = wp_started_at_ps w,
      po_finished_at_ps = wp_finished_at_ps w, po_service_bytes = wp_payload_bytes w\<rparr>"

definition source_port_reservations :: "atlahs_ledger \<Rightarrow> port_reservation list" where
  "source_port_reservations l = map source_reservation (al_records l)"

definition receiver_reservation :: "wqe_projection \<Rightarrow> port_reservation option" where
  "receiver_reservation w = map_option (\<lambda>(_, rnic). (source_reservation w)\<lparr>po_rnic_id := rnic\<rparr>) (wp_ingress w)"

definition receiver_port_reservations :: "atlahs_ledger \<Rightarrow> port_reservation list" where
  "receiver_port_reservations l = List.map_filter receiver_reservation (al_records l)"

definition byte_ledger :: "port_reservation list \<Rightarrow> (string, int) dict" where
  "byte_ledger rs =
     sort_key fst (fold (\<lambda>r d. AList.update (po_rnic_id r) (dict_get d (po_rnic_id r) 0 + po_service_bytes r) d) rs [])"

subsection \<open>The authority seam\<close>

text \<open>
  What the scheduler sees of an authority: its name, \<open>submit\<close> on the transaction state, the draws it
  has consumed, and \<open>prepare\<close>, which may refuse the commit.
\<close>

record 'w wqe_ops =
  wo_name :: string
  wo_submit :: "'w \<Rightarrow> wqe_submission \<Rightarrow> record_error + wqe_projection \<times> 'w"
  wo_random_draws :: "'w \<Rightarrow> int"
  wo_prepare :: "'w \<Rightarrow> record_error option"

definition atlahs_ops :: "device_profile \<Rightarrow> atlahs_ledger wqe_ops" where
  "atlahs_ops p =
     \<lparr>wo_name = atlahs_authority_name, wo_submit = atlahs_submit p, wo_random_draws = (\<lambda>_. 0), wo_prepare = (\<lambda>_. None)\<rparr>"

end
