(* ===== verification/Runtime.thy ===== *)
theory Runtime
  imports Wqe_Ledger Kv Arbitration
begin

text \<open>
  The scheduler of \<open>CoarseDeviceRuntime\<close> (\<open>simllm/core/runtime.py\<close>): launches, readiness, compute
  groups, copies, KV traffic, control messages and collectives, each as queue visits on resources that
  serve one visit at a time.  The scheduler works on copies of the runtime state and of the WQE
  authority, which are dropped when an exception is raised, so those functions return an error or a
  value with the new copies.  The arbitration policy is shared with the caller and keeps what it was
  asked before an exception; it is threaded through the error branches.
\<close>

datatype runtime_error =
    RecordError record_error | GraphError graph_error | PlanError plan_error | KvError kv_error
  | PolicyError arbitration_error | ComputeError compute_error | LedgerError bk_error
  | AlreadyExecuted | AsyncLocalReadiness | NoDuration | NoKernelLaunch | NoCopyEngine | BadEndpoint | HostToHost
  | RingTooFewBytes | RingRemainder | NoPairPayload | WideControl | NoKvPool | ServiceRaised | CrossGpuGroup
  | NoWitnessCandidate | WitnessRanks | NoCompletionSegment | EmptyPath | LocalEdgeRank | NoSuchKey
  | NoProgress | UnsupportedAlgorithm
  | ProjectionField | ProjectionAuthority | ProjectionSubmitted | ProjectionEligible | ProjectionIngress | ProjectionEndpoint
  | OverlappingVisits | PathRanks | WitnessKeyRanks | DuplicateSegment | MissingBoundary | BoundaryWithoutPredecessor
  | AttributionTotal | RootSegmentStart | UnknownPredecessor | PredecessorTime | ChainCycle | ChainTotal
  | NoAttributionOwner | ResultInvalid | EventProjection | LedgerProjection | ObjectConflict

definition rec_err :: "record_error + 'a \<Rightarrow> runtime_error + 'a" where
  "rec_err r = (case r of Inl e \<Rightarrow> Inl (RecordError e) | Inr a \<Rightarrow> Inr a)"

lemma rec_err_simps [simp]: "rec_err (Inr a) = Inr a" "rec_err (Inl e) = Inl (RecordError e)"
  by (simp_all add: rec_err_def)

lemma rec_err_Inr_iff [simp]: "rec_err r = Inr a \<longleftrightarrow> r = Inr a"
  by (cases r) auto

definition rec_check :: "record_error option \<Rightarrow> runtime_error + 'a \<Rightarrow> runtime_error + 'a" where
  "rec_check c r = rcheck (map_option RecordError c) r"

lemma rec_check_Inr_iff: "rec_check c r = Inr a \<longleftrightarrow> c = None \<and> r = Inr a"
  by (simp add: rec_check_def rcheck_Inr_iff)

text \<open>Reading a dictionary with \<open>d[k]\<close>, and \<open>max\<close> with a key, which returns the first greatest element.\<close>

definition entry_at :: "('k, 'v) dict \<Rightarrow> 'k \<Rightarrow> runtime_error + 'v" where
  "entry_at d k = (case map_of d k of None \<Rightarrow> Inl NoSuchKey | Some v \<Rightarrow> Inr v)"

lemma entry_at_Inr_iff [simp]: "entry_at d k = Inr v \<longleftrightarrow> map_of d k = Some v"
  by (simp add: entry_at_def split: option.splits)

definition first_max :: "('a \<Rightarrow> 'k::linorder) \<Rightarrow> 'a \<Rightarrow> 'a list \<Rightarrow> 'a" where
  "first_max key x xs = foldl (\<lambda>b y. if key b < key y then y else b) x xs"

text \<open>A loop whose body may raise and updates its variables.\<close>

fun rfold :: "('a \<Rightarrow> 's \<Rightarrow> 'e + 's) \<Rightarrow> 'a list \<Rightarrow> 's \<Rightarrow> 'e + 's" where
  "rfold f [] s = Inr s"
| "rfold f (x # xs) s = rbind (f x s) (rfold f xs)"

subsection \<open>State\<close>

record runtime_state =
  st_host_available :: "(int, int) dict"
  st_gpu_available :: "(int, int) dict"
  st_hbm_available :: "(int, int) dict"
  st_copy_available :: "(int \<times> string, int) dict"
  st_control_available :: "(int, int) dict"
  st_nccl_available :: "(int \<times> string, int) dict"
  st_nvlink_available :: "(int, int) dict"
  st_execution_ids :: "string list"

definition new_runtime_state :: runtime_state where
  "new_runtime_state =
     \<lparr>st_host_available = [], st_gpu_available = [], st_hbm_available = [], st_copy_available = [],
      st_control_available = [], st_nccl_available = [], st_nvlink_available = [], st_execution_ids = []\<rparr>"

record causal_witness =
  cx_predecessor_id :: string
  cx_participant_rank :: int
  cx_completed_at_ps :: int

record scheduled_operation =
  so_operation :: execution_operation
  so_logical_completed_at_ps :: int
  so_physical_completed_at_ps :: int
  so_participant_completed_at_ps :: "(int, int) dict"
  so_participant_paths :: "(int, queue_visit list) dict"
  so_participant_causal_witnesses :: "(int, causal_witness option) dict"
  so_visits :: "queue_visit list"
  so_logical_paths :: "queue_visit list list"
  so_eligible_at_ps :: int
  so_critical_predecessor_id :: "string option"
  so_critical_predecessor_completed_at_ps :: "int option"
  so_nccl_command_id :: "string option"
  so_wqes :: "wqe_projection list"

record ready_operation =
  rd_by_rank :: "(int, int) dict"
  rd_witnesses :: "(int, causal_witness option) dict"
  rd_eligible_at_ps :: int

datatype gpu_task_kind = MEMORY | COMPUTE

record 'k kernel_service =
  ks_clock_hz :: int
  ks_estimate :: "(string \<times> gpu_task_kind \<times> 'k) list \<Rightarrow> (string, int) dict option"

record 'k runtime_config =
  rc_profile :: device_profile
  rc_receiver_ingress :: bool
  rc_serial_compute :: bool
  rc_kernel_services :: "(int, 'k kernel_service) dict"
  rc_kernel_launches :: "(string, 'k) dict"

subsection \<open>Causal witnesses\<close>

definition witness_key :: "int \<times> causal_witness option \<Rightarrow> int \<times> bool \<times> int \<times> string \<times> int" where
  "witness_key c =
     (fst c, snd c \<noteq> None, (case snd c of None \<Rightarrow> -1 | Some w \<Rightarrow> cx_completed_at_ps w),
      (case snd c of None \<Rightarrow> [] | Some w \<Rightarrow> cx_predecessor_id w), (case snd c of None \<Rightarrow> -1 | Some w \<Rightarrow> cx_participant_rank w))"

definition select_causal_witness :: "(int \<times> causal_witness option) list \<Rightarrow> runtime_error + causal_witness option" where
  "select_causal_witness cs =
     (case cs of [] \<Rightarrow> Inl NoWitnessCandidate | c # cs \<Rightarrow> Inr (snd (first_max witness_key c cs)))"

definition select_two :: "int \<times> causal_witness option \<Rightarrow> int \<times> causal_witness option \<Rightarrow> causal_witness option" where
  "select_two a b = snd (first_max witness_key a [b])"

definition completion_causal_witness :: "(int, int) dict \<Rightarrow> (int, causal_witness option) dict \<Rightarrow> runtime_error + causal_witness option" where
  "completion_causal_witness completed witnesses =
     (if set (map fst completed) \<noteq> set (map fst witnesses) then Inl WitnessRanks
      else rbind (collect (\<lambda>(rank, t). rbind (entry_at witnesses rank) (\<lambda>w. Inr (t, w))) completed) select_causal_witness)"

definition logical_completion_participant_rank :: "scheduled_operation \<Rightarrow> runtime_error + int" where
  "logical_completion_participant_rank o' =
     (case map fst (filter (\<lambda>(rank, t). t = so_logical_completed_at_ps o') (so_participant_completed_at_ps o')) of
        [] \<Rightarrow> Inl NoCompletionSegment
      | r # rs \<Rightarrow> Inr (Max (set (r # rs))))"

definition path_key :: "queue_visit list \<Rightarrow> int \<times> string" where
  "path_key path = (qv_completed_at_ps (last path), rr_resource_id (qv_resource (last path)))"

definition logical_path_index :: "queue_visit list list \<Rightarrow> runtime_error + nat" where
  "logical_path_index paths =
     (if paths = [] \<or> list_ex (\<lambda>p. p = []) paths then Inl EmptyPath
      else Inr (first_max (\<lambda>i. path_key (paths ! i)) 0 [1..<length paths]))"

subsection \<open>DMA endpoints\<close>

text \<open>\<open>None\<close> is the host, \<open>Some r\<close> the device of rank \<open>r\<close>.\<close>

definition dma_endpoint :: "string \<Rightarrow> int \<Rightarrow> runtime_error + int option" where
  "dma_endpoint value local_rank =
     (let lowered = map to_lower (py_strip value)
      in if lowered = ''host'' \<or> take 5 lowered = ''host:'' then Inr None
         else case device_participant lowered of
           Some r \<Rightarrow> Inr (Some r)
         | None \<Rightarrow>
             if lowered \<in> {''device'', ''hbm'', ''local'', ''local:hbm''} then Inr (Some local_rank) else Inl BadEndpoint)"

definition dma_endpoints :: "dma_work \<Rightarrow> int \<Rightarrow> runtime_error + int option \<times> int option" where
  "dma_endpoints w local_rank =
     rbind (dma_endpoint (dw_source w) local_rank) (\<lambda>s. rbind (dma_endpoint (dw_destination w) local_rank) (\<lambda>d. Inr (s, d)))"

definition dma_direction :: "dma_work \<Rightarrow> int \<Rightarrow> runtime_error + copy_direction" where
  "dma_direction w local_rank =
     rbind (dma_endpoints w local_rank) (\<lambda>ends. case ends of
       (None, Some d) \<Rightarrow> Inr HOST_TO_DEVICE
     | (Some s, None) \<Rightarrow> Inr DEVICE_TO_HOST
     | (Some s, Some d) \<Rightarrow> Inr (if s = d then DEVICE_TO_DEVICE else PEER_TO_PEER)
     | (None, None) \<Rightarrow> Inl HostToHost)"

definition copy_candidates :: "device_profile \<Rightarrow> copy_direction \<Rightarrow> copy_engine list" where
  "copy_candidates p d = filter (\<lambda>e. d \<in> set (en_directions e)) (pf_copy_engines p)"

subsection \<open>Visits\<close>

definition new_visit :: "execution_graph \<Rightarrow> execution_operation \<Rightarrow> resource_kind \<Rightarrow> string \<Rightarrow> int \<Rightarrow> int \<Rightarrow> int \<Rightarrow> int \<Rightarrow> int \<Rightarrow> int
    \<Rightarrow> runtime_error + queue_visit" where
  "new_visit g op kind name submitted eligible started finished completed bytes =
     (let v = \<lparr>qv_execution_id = eg_execution_id g, qv_operation_id = op_operation_id op,
               qv_resource = \<lparr>rr_kind = kind, rr_resource_id = name\<rparr>, qv_submitted_at_ps = submitted,
               qv_eligible_at_ps = eligible, qv_started_at_ps = started, qv_finished_at_ps = finished,
               qv_completed_at_ps = completed, qv_service_bytes = bytes, qv_subject_object_id = None, qv_stage = None\<rparr>
      in rec_check (check_visit v) (Inr v))"

definition gpu_resource :: "int \<times> int \<Rightarrow> string \<Rightarrow> string" where
  "gpu_resource ng suffix = ''node-'' @ int_text (fst ng) @ '':gpu-'' @ int_text (snd ng) @ '':'' @ suffix"

definition schedule_launch :: "device_profile \<Rightarrow> execution_graph \<Rightarrow> execution_operation \<Rightarrow> (string, queue_visit) dict \<times> runtime_state
    \<Rightarrow> runtime_error + (string, queue_visit) dict \<times> runtime_state" where
  "schedule_launch p g op = (\<lambda>(result, st).
     rbind (rec_err (node_gpu p (op_rank op))) (\<lambda>(node, _).
       let eligible = max (eg_released_at_ps g) (op_not_before_ps op);
           started = max eligible (dict_get (st_host_available st) node 0);
           finished = started + pf_launch_service_ps p
       in rbind (new_visit g op HOST_LAUNCH_QUEUE (''node-'' @ int_text node @ '':framework-launch'')
                  (eg_released_at_ps g) eligible started finished finished 0) (\<lambda>v.
            Inr (AList.update (op_operation_id op) v result,
              st\<lparr>st_host_available := AList.update node finished (st_host_available st)\<rparr>))))"

definition schedule_launches :: "device_profile \<Rightarrow> execution_graph \<Rightarrow> runtime_state \<Rightarrow> runtime_error + (string, queue_visit) dict \<times> runtime_state" where
  "schedule_launches p g st = rfold (schedule_launch p g) (eg_operations g) ([], st)"

subsection \<open>Readiness\<close>

type_synonym readiness = "(int, int) dict \<times> (int, causal_witness option) dict"

definition constrain_rank :: "causal_witness \<Rightarrow> int \<Rightarrow> readiness \<Rightarrow> runtime_error + readiness" where
  "constrain_rank w rank = (\<lambda>(ready, witnesses).
     rbind (entry_at witnesses rank) (\<lambda>previous.
     rbind (entry_at ready rank) (\<lambda>t.
       Inr (AList.update rank (max t (cx_completed_at_ps w)) ready,
            AList.update rank (case previous of None \<Rightarrow> Some w
              | Some x \<Rightarrow> select_two (cx_completed_at_ps x, Some x) (cx_completed_at_ps w, Some w)) witnesses))))"

definition apply_edge :: "int list \<Rightarrow> (string, scheduled_operation) dict \<Rightarrow> effective_dependency_edge \<Rightarrow> readiness \<Rightarrow> runtime_error + readiness" where
  "apply_edge ranks scheduled e r =
     rbind (entry_at scheduled (ed_predecessor_id e)) (\<lambda>pre.
       case ed_scope e of
         WHOLE_OPERATION \<Rightarrow>
           rbind (logical_completion_participant_rank pre) (\<lambda>pr.
             rfold (constrain_rank \<lparr>cx_predecessor_id = ed_predecessor_id e, cx_participant_rank = pr,
               cx_completed_at_ps = so_logical_completed_at_ps pre\<rparr>) ranks r)
       | PARTICIPANT_LOCAL \<Rightarrow>
           (case ed_participant_rank e of
              None \<Rightarrow> Inl LocalEdgeRank
            | Some rank \<Rightarrow>
                rbind (entry_at (so_participant_completed_at_ps pre) rank) (\<lambda>t.
                  constrain_rank \<lparr>cx_predecessor_id = ed_predecessor_id e, cx_participant_rank = rank,
                    cx_completed_at_ps = t\<rparr> rank r)))"

definition operation_readiness :: "execution_operation \<Rightarrow> queue_visit \<Rightarrow> (string, scheduled_operation) dict \<Rightarrow> effective_dependency_edge list
    \<Rightarrow> runtime_error + ready_operation" where
  "operation_readiness op launch scheduled edges =
     (let ranks = operation_participant_ranks op in
      rbind (rfold (apply_edge ranks scheduled) edges
               (map (\<lambda>r. (r, qv_completed_at_ps launch)) ranks, map (\<lambda>r. (r, None)) ranks)) (\<lambda>(ready, witnesses).
        Inr \<lparr>rd_by_rank = ready, rd_witnesses = witnesses, rd_eligible_at_ps = Min (set (map snd ready))\<rparr>))"

text \<open>The operations whose predecessors are all scheduled, in graph order.\<close>

definition incoming_edges :: "effective_dependency_edge list \<Rightarrow> string \<Rightarrow> effective_dependency_edge list" where
  "incoming_edges edges k = filter (\<lambda>e. ed_operation_id e = k) edges"

fun ready_operations :: "effective_dependency_edge list \<Rightarrow> (string, queue_visit) dict \<Rightarrow> (string, scheduled_operation) dict \<Rightarrow> string list
    \<Rightarrow> execution_operation list \<Rightarrow> runtime_error + (string, ready_operation) dict" where
  "ready_operations edges launches scheduled unscheduled [] = Inr []"
| "ready_operations edges launches scheduled unscheduled (op # ops) =
     (let k = op_operation_id op; incoming = incoming_edges edges k in
      if k \<notin> set unscheduled \<or> list_ex (\<lambda>e. map_of scheduled (ed_predecessor_id e) = None) incoming
      then ready_operations edges launches scheduled unscheduled ops
      else rbind (entry_at launches k) (\<lambda>launch.
           rbind (operation_readiness op launch scheduled incoming) (\<lambda>r.
           rbind (ready_operations edges launches scheduled unscheduled ops) (\<lambda>rest. Inr ((k, r) # rest)))))"

definition tables_of :: "execution_graph \<Rightarrow> (string, ready_operation) dict \<Rightarrow> operation_tables" where
  "tables_of g ready =
     \<lparr>ot_operation_index = map (\<lambda>(i, op). (op_operation_id op, int i)) (enumerate 0 (eg_operations g)),
      ot_eligible_at_ps = map (\<lambda>(k, r). (k, rd_eligible_at_ps r)) ready,
      ot_priority = map (\<lambda>op. (op_operation_id op, op_priority op)) (eg_operations g)\<rparr>"

end
