(* ===== verification/Runtime_Work.thy ===== *)
theory Runtime_Work
  imports Runtime
begin

text \<open>
  How \<open>CoarseDeviceRuntime\<close> serves one ready operation (\<open>simllm/core/runtime.py\<close>): concurrent compute
  groups, copies, KV traffic, control fan-out and collectives.  Every function returns the outcome
  with its visits, the selected path and causal witness of each participant, and the resources as it
  leaves them.
\<close>

definition outcome_of :: "execution_operation \<Rightarrow> int \<Rightarrow> int \<Rightarrow> (int, int) dict \<Rightarrow> (int, queue_visit list) dict \<Rightarrow> (int, causal_witness option) dict
    \<Rightarrow> queue_visit list \<Rightarrow> queue_visit list list \<Rightarrow> int \<Rightarrow> causal_witness option \<Rightarrow> string option \<Rightarrow> wqe_projection list \<Rightarrow> scheduled_operation" where
  "outcome_of op logical physical completed paths witnesses visits logical_paths eligible causal command wqes =
     \<lparr>so_operation = op, so_logical_completed_at_ps = logical, so_physical_completed_at_ps = physical,
      so_participant_completed_at_ps = completed, so_participant_paths = paths,
      so_participant_causal_witnesses = witnesses, so_visits = visits, so_logical_paths = logical_paths,
      so_eligible_at_ps = eligible, so_critical_predecessor_id = map_option cx_predecessor_id causal,
      so_critical_predecessor_completed_at_ps = map_option cx_completed_at_ps causal,
      so_nccl_command_id = command, so_wqes = wqes\<rparr>"

fun rfilter :: "('a \<Rightarrow> 'e + bool) \<Rightarrow> 'a list \<Rightarrow> 'e + 'a list" where
  "rfilter f [] = Inr []"
| "rfilter f (x # xs) = rbind (f x) (\<lambda>b. rbind (rfilter f xs) (\<lambda>ys. Inr (if b then x # ys else ys)))"

subsection \<open>Compute\<close>

definition compute_of :: "execution_operation \<Rightarrow> compute_work option" where
  "compute_of op = (case op_work op of ComputeWork w \<Rightarrow> Some w | _ \<Rightarrow> None)"

definition uses_hbm :: "compute_work \<Rightarrow> bool" where
  "uses_hbm w = (case cw_hbm_bytes w of None \<Rightarrow> False | Some b \<Rightarrow> b \<noteq> 0)"

definition kernel_launch :: "'k runtime_config \<Rightarrow> execution_operation \<Rightarrow> compute_work \<Rightarrow> runtime_error + 'k" where
  "kernel_launch cfg op w =
     (case map_of (rc_kernel_launches cfg) (op_operation_id op) of
        Some l \<Rightarrow> Inr l
      | None \<Rightarrow> (case map_of (rc_kernel_launches cfg) (cw_kernel w) of Some l \<Rightarrow> Inr l | None \<Rightarrow> Inl NoKernelLaunch))"

definition compute_start :: "runtime_state \<Rightarrow> int \<Rightarrow> bool \<Rightarrow> int \<Rightarrow> int" where
  "compute_start st rank hbm eligible =
     (let start = max eligible (dict_get (st_gpu_available st) rank 0)
      in if hbm then max start (dict_get (st_hbm_available st) rank 0) else start)"

definition joins_group :: "execution_graph \<Rightarrow> runtime_state \<Rightarrow> int \<Rightarrow> int \<Rightarrow> string \<times> ready_operation \<Rightarrow> runtime_error + bool" where
  "joins_group g st rank start = (\<lambda>(k, r).
     rbind (entry_at (operation_by_id (eg_operations g)) k) (\<lambda>op.
       case compute_of op of
         None \<Rightarrow> Inr False
       | Some w \<Rightarrow>
           if op_rank op \<noteq> rank then Inr False
           else rbind (entry_at (rd_by_rank r) rank) (\<lambda>t.
             Inr (t \<le> start \<and> \<not> (uses_hbm w \<and> dict_get (st_hbm_available st) rank 0 > start)))))"

definition compute_group :: "'k runtime_config \<Rightarrow> 'p policy_select \<Rightarrow> 'p \<Rightarrow> execution_graph \<Rightarrow> execution_operation \<Rightarrow> compute_work
    \<Rightarrow> (string, ready_operation) dict \<Rightarrow> runtime_state \<Rightarrow> 'p \<times> (runtime_error + string list)" where
  "compute_group cfg select pol g selected w ready st =
     (if rc_serial_compute cfg then (pol, Inr [op_operation_id selected])
      else
        (let members = rbind (entry_at ready (op_operation_id selected)) (\<lambda>r.
               rbind (entry_at (rd_by_rank r) (op_rank selected)) (\<lambda>eligible.
                 rfilter (joins_group g st (op_rank selected) (compute_start st (op_rank selected) (uses_hbm w) eligible)) ready))
         in case members of
              Inl e \<Rightarrow> (pol, Inl e)
            | Inr candidates \<Rightarrow>
                (case arbitrated_order select pol (tables_of g ready) (map fst candidates) of
                   (pol', Inl e) \<Rightarrow> (pol', Inl (PolicyError e))
                 | (pol', Inr ids) \<Rightarrow> (pol', Inr ids))))"

definition task_kind :: "compute_work \<Rightarrow> gpu_task_kind" where
  "task_kind w = (if cw_flops w = Some 0 \<and> (case cw_hbm_bytes w of None \<Rightarrow> False | Some b \<Rightarrow> b > 0) then MEMORY else COMPUTE)"

definition group_completions :: "'k runtime_config \<Rightarrow> int \<Rightarrow> int \<Rightarrow> (execution_operation \<times> compute_work) list \<Rightarrow> runtime_error + (string, int) dict" where
  "group_completions cfg rank started ops =
     (case map_of (rc_kernel_services cfg) rank of
        None \<Rightarrow>
          collect (\<lambda>(op, w). case cw_nominal_duration_ps w of None \<Rightarrow> Inl NoDuration
            | Some d \<Rightarrow> Inr (op_operation_id op, started + d)) ops
      | Some service \<Rightarrow>
          rbind (collect (\<lambda>(op, w). rec_check (require_text (op_operation_id op))
                   (rbind (kernel_launch cfg op w) (\<lambda>l. Inr (op_operation_id op, task_kind w, l)))) ops) (\<lambda>tasks.
            case ks_estimate service tasks of
              None \<Rightarrow> Inl ServiceRaised
            | Some estimates \<Rightarrow>
                collect (\<lambda>(op, w). rbind (entry_at estimates (op_operation_id op)) (\<lambda>cycles.
                  Inr (op_operation_id op, started + cycles_to_ps cycles (ks_clock_hz service)))) ops))"

definition compute_outcome :: "'k runtime_config \<Rightarrow> execution_graph \<Rightarrow> int \<times> int \<Rightarrow> int \<Rightarrow> int \<Rightarrow> (string, int) dict \<Rightarrow> (string, int) dict
    \<Rightarrow> (string, ready_operation) dict \<Rightarrow> (string, queue_visit) dict \<Rightarrow> execution_operation \<times> compute_work
    \<Rightarrow> runtime_error + string \<times> scheduled_operation" where
  "compute_outcome cfg g ng rank started eligible completions ready launches = (\<lambda>(op, w).
     let k = op_operation_id op in
     rbind (entry_at completions k) (\<lambda>completed.
     rbind (entry_at eligible k) (\<lambda>t.
     rbind (entry_at launches k) (\<lambda>launch.
     rbind (entry_at ready k) (\<lambda>r.
     rbind (entry_at (rd_witnesses r) rank) (\<lambda>causal.
     case cw_hbm_bytes w of None \<Rightarrow> Inl (ComputeError ComputeDemandUnbound) | Some bytes \<Rightarrow>
       (let visible = completed + pf_completion_delivery_ps (rc_profile cfg) in
        rbind (new_visit g op GPU_WORK_QUEUE (gpu_resource ng ''work'') (qv_completed_at_ps launch) t started completed visible bytes) (\<lambda>gpu.
        rbind (if bytes \<noteq> 0
               then rbind (new_visit g op HBM_QUEUE (gpu_resource ng ''hbm'') (qv_completed_at_ps launch) t started completed completed bytes)
                      (\<lambda>v. Inr [v])
               else Inr []) (\<lambda>hbm.
          Inr (k, outcome_of op visible visible [(rank, visible)] [(rank, [launch, gpu])] [(rank, causal)]
                 ([launch, gpu] @ hbm) [[launch, gpu]] t causal None []))))))))))"

definition schedule_compute_group :: "'k runtime_config \<Rightarrow> execution_graph \<Rightarrow> (execution_operation \<times> compute_work) list \<Rightarrow> (string, ready_operation) dict
    \<Rightarrow> (string, queue_visit) dict \<Rightarrow> runtime_state \<Rightarrow> runtime_error + (string, scheduled_operation) dict \<times> runtime_state" where
  "schedule_compute_group cfg g ops ready launches st =
     (case ops of
        [] \<Rightarrow> Inl NoSuchKey
      | first # _ \<Rightarrow>
          (let rank = op_rank (fst first) in
           if list_ex (\<lambda>(op, w). op_rank op \<noteq> rank) ops then Inl CrossGpuGroup
           else rbind (collect (\<lambda>(op, w). rbind (entry_at ready (op_operation_id op)) (\<lambda>r.
                  rbind (entry_at (rd_by_rank r) rank) (\<lambda>t. Inr (op_operation_id op, t)))) ops) (\<lambda>eligible.
             let hbm = list_ex (\<lambda>(op, w). uses_hbm w) ops;
                 started = compute_start st rank hbm (Max (set (map snd eligible)))
             in rbind (group_completions cfg rank started ops) (\<lambda>completions.
                let batch_finished = Max (set (map snd completions));
                    st' = st\<lparr>st_gpu_available := AList.update rank batch_finished (st_gpu_available st),
                             st_hbm_available := (if hbm then AList.update rank batch_finished (st_hbm_available st)
                                                  else st_hbm_available st)\<rparr>
                in rbind (rec_err (node_gpu (rc_profile cfg) rank)) (\<lambda>ng.
                   rbind (collect (compute_outcome cfg g ng rank started eligible completions ready launches) ops) (\<lambda>outcomes.
                     Inr (outcomes, st')))))))"

subsection \<open>KV traffic\<close>

definition schedule_kv_marker :: "execution_operation \<Rightarrow> int \<Rightarrow> causal_witness option \<Rightarrow> int \<Rightarrow> queue_visit \<Rightarrow> scheduled_operation" where
  "schedule_kv_marker op ready_at causal eligible launch =
     (let completed = max (qv_completed_at_ps launch) ready_at; rank = op_rank op
      in outcome_of op completed completed [(rank, completed)] [(rank, [launch])] [(rank, causal)] [launch] [[launch]]
           eligible causal None [])"

definition schedule_kv_traffic :: "device_profile \<Rightarrow> execution_graph \<Rightarrow> execution_operation \<Rightarrow> int \<Rightarrow> causal_witness option \<Rightarrow> int
    \<Rightarrow> queue_visit \<Rightarrow> runtime_state \<Rightarrow> int \<Rightarrow> runtime_error + scheduled_operation \<times> runtime_state" where
  "schedule_kv_traffic p g op ready_at causal eligible launch st demand =
     (let rank = op_rank op in
      rbind (rec_err (node_gpu p rank)) (\<lambda>ng.
        let ready = max (qv_completed_at_ps launch) ready_at;
            started = max ready (dict_get (st_hbm_available st) rank 0)
        in rbind (rec_err (serialization_ps demand (pf_hbm_rate_bps p))) (\<lambda>duration.
           let finished = started + duration; completed = finished + pf_completion_delivery_ps p
           in rbind (new_visit g op HBM_QUEUE (gpu_resource ng ''hbm'') (qv_completed_at_ps launch) ready started finished completed demand)
                (\<lambda>hbm. Inr (outcome_of op completed completed [(rank, completed)] [(rank, [launch, hbm])] [(rank, causal)]
                          [launch, hbm] [[launch, hbm]] eligible causal None [],
                   st\<lparr>st_hbm_available := AList.update rank finished (st_hbm_available st)\<rparr>)))))"

subsection \<open>Copies\<close>

definition check_transfer :: "copy_transfer \<Rightarrow> record_error option" where
  "check_transfer t = first_err [require_text (ct_transfer_id t), require_positive (ct_bytes t),
     require_text (ct_source t), require_text (ct_destination t)]"

definition copy_choice :: "runtime_state \<Rightarrow> execution_operation \<Rightarrow> int \<Rightarrow> copy_transfer option \<Rightarrow> copy_engine \<Rightarrow> runtime_error + int \<times> copy_engine \<times> int" where
  "copy_choice st op eligible transfer e =
     (let started = max (max eligible (dict_get (st_copy_available st) (op_rank op, en_engine_id e) 0))
                      (dict_get (st_hbm_available st) (op_rank op) 0)
      in case transfer of
           None \<Rightarrow> Inr (started, e, 0)
         | Some t \<Rightarrow> (case en_estimate e t of None \<Rightarrow> Inl ServiceRaised | Some d \<Rightarrow> Inr (started, e, d)))"

definition schedule_dma :: "device_profile \<Rightarrow> execution_graph \<Rightarrow> execution_operation \<Rightarrow> dma_work \<Rightarrow> int \<Rightarrow> causal_witness option
    \<Rightarrow> queue_visit \<Rightarrow> runtime_state \<Rightarrow> runtime_error + scheduled_operation \<times> runtime_state" where
  "schedule_dma p g op w eligible causal launch st =
     rbind (dma_direction w (op_rank op)) (\<lambda>direction.
       let t = \<lparr>ct_transfer_id = dw_descriptor_id w, ct_direction = direction, ct_bytes = dw_byte_count w,
                ct_source = dw_source w, ct_destination = dw_destination w\<rparr>
       in rbind (if dw_byte_count w > 0 then rec_check (check_transfer t) (Inr (Some t)) else Inr None) (\<lambda>transfer.
          rbind (collect (copy_choice st op eligible transfer) (copy_candidates p direction)) (\<lambda>choices.
          if choices = [] then Inl NoCopyEngine
          else
            (let (started, engine, duration) = arg_min_list fst choices; rank = op_rank op;
                 finished = started + duration; completed = finished + pf_completion_delivery_ps p
             in rbind (rec_err (node_gpu p rank)) (\<lambda>ng.
                rbind (new_visit g op COPY_ENGINE (gpu_resource ng (''copy:'' @ en_engine_id engine))
                         (qv_completed_at_ps launch) eligible started finished completed (dw_byte_count w)) (\<lambda>copy.
                rbind (new_visit g op HBM_QUEUE (gpu_resource ng ''hbm'')
                         (qv_completed_at_ps launch) eligible started finished finished (dw_byte_count w)) (\<lambda>hbm.
                rbind (dma_endpoints w rank) (\<lambda>(s, d).
                  let ranks = remdups (rank # List.map_filter id [s, d])
                  in Inr (outcome_of op completed completed (map (\<lambda>r. (r, completed)) ranks)
                            (map (\<lambda>r. (r, [launch, copy])) ranks) (map (\<lambda>r. (r, causal)) ranks)
                            [launch, copy, hbm] [[launch, copy]] eligible causal None [],
                          st\<lparr>st_copy_available := AList.update (rank, en_engine_id engine) finished (st_copy_available st),
                             st_hbm_available := AList.update rank finished (st_hbm_available st)\<rparr>)))))))))"

subsection \<open>Sends\<close>

text \<open>What the transport of a send gives back: its visits and, across nodes, the WQE.\<close>

record send_schedule =
  ss_visits :: "queue_visit list"
  ss_projection :: "wqe_projection option"

definition send_completed_at_ps :: "send_schedule \<Rightarrow> runtime_error + int" where
  "send_completed_at_ps s = (if ss_visits s = [] then Inl EmptyPath else Inr (qv_completed_at_ps (last (ss_visits s))))"

definition wqe_visit :: "wqe_projection \<Rightarrow> resource_kind \<Rightarrow> string \<Rightarrow> int \<Rightarrow> int \<Rightarrow> int \<Rightarrow> int \<Rightarrow> int \<Rightarrow> string option \<Rightarrow> runtime_error + queue_visit" where
  "wqe_visit w kind name eligible started finished completed bytes stage =
     (let v = \<lparr>qv_execution_id = wp_execution_id w, qv_operation_id = wp_operation_id w,
               qv_resource = \<lparr>rr_kind = kind, rr_resource_id = name\<rparr>, qv_submitted_at_ps = wp_submitted_at_ps w,
               qv_eligible_at_ps = eligible, qv_started_at_ps = started, qv_finished_at_ps = finished,
               qv_completed_at_ps = completed, qv_service_bytes = bytes, qv_subject_object_id = Some (wp_wqe_id w),
               qv_stage = stage\<rparr>
      in rec_check (check_visit v) (Inr v))"

definition native_wqe_visits :: "wqe_projection \<Rightarrow> runtime_error + queue_visit list" where
  "native_wqe_visits w =
     (case wp_ingress w of
        Some (ready, _) \<Rightarrow>
          collect id
            [wqe_visit w NIC_SEND_QUEUE (wp_sq_id w) (wp_eligible_at_ps w) ready ready ready 0 (Some ''coarse_source_admission''),
             wqe_visit w NIC_RECEIVE_QUEUE (wp_rq_id w) ready (wp_started_at_ps w) (wp_finished_at_ps w) (wp_completed_at_ps w)
               (wp_payload_bytes w) (Some ''coarse_receiver_service'')]
      | None \<Rightarrow>
          (case (wp_doorbell_started_at_ps w, wp_doorbell_completed_at_ps w, wp_network_eligible_at_ps w,
                 wp_network_started_at_ps w, wp_network_finished_at_ps w) of
             (None, _) \<Rightarrow>
               collect id [wqe_visit w NIC (wp_rnic_id w) (wp_eligible_at_ps w) (wp_started_at_ps w) (wp_finished_at_ps w)
                 (wp_completed_at_ps w) (wp_payload_bytes w) None]
           | (Some d, Some d', Some e, Some s, Some f) \<Rightarrow>
               collect id
                 [wqe_visit w NIC (wp_rnic_id w) d d d' d' 0 (Some ''native_doorbell''),
                  wqe_visit w NIC (wp_rnic_id w) e s f (wp_completed_at_ps w) (wp_payload_bytes w) (Some ''native_network'')]
           | _ \<Rightarrow> Inl NoSuchKey))"

definition validate_wqe_projection :: "device_profile \<Rightarrow> bool \<Rightarrow> string \<Rightarrow> wqe_submission \<Rightarrow> wqe_projection \<Rightarrow> runtime_error option" where
  "validate_wqe_projection p receiver_ingress authority s w =
     first_err
       [guard (wp_execution_id w = ws_execution_id s \<and> wp_operation_id w = ws_operation_id s \<and> wp_source_rank w = ws_source_rank s \<and>
          wp_destination_rank w = ws_destination_rank s \<and> wp_payload_bytes w = ws_payload_bytes s \<and> wp_goal_tag w = ws_goal_tag s \<and>
          wp_extent_index w = ws_extent_index s \<and> wp_channel_id w = ws_channel_id s \<and> wp_nccl_command_id w = ws_nccl_command_id s)
          ProjectionField,
        guard (wp_authority w = authority) ProjectionAuthority,
        guard (wp_submitted_at_ps w = ws_submitted_at_ps s) ProjectionSubmitted,
        guard (wp_eligible_at_ps w = ws_eligible_at_ps s) ProjectionEligible,
        guard ((wp_ingress w \<noteq> None) = receiver_ingress) ProjectionIngress,
        (case wp_ingress w of
           None \<Rightarrow> None
         | Some (_, dest_rnic) \<Rightarrow>
             (case (node_gpu p (ws_source_rank s), node_gpu p (ws_destination_rank s), rnic_id p (ws_source_rank s),
                    rnic_id p (ws_destination_rank s)) of
                (Inr (sn, sg), Inr (dn, dg), Inr rnic, Inr rnic') \<Rightarrow>
                  guard (wp_rnic_id w = rnic \<and> dest_rnic = rnic' \<and> wp_sq_id w = atlahs_queue_id sn sg ''sq'' \<and>
                    wp_rq_id w = atlahs_queue_id dn dg ''rq'' \<and> wp_cq_id w = atlahs_queue_id sn sg ''cq'' \<and>
                    wp_qp_id w = atlahs_queue_id sn sg ''qp'') ProjectionEndpoint
              | _ \<Rightarrow> Some (RecordError RtNegative)))]"

record 'w machine =
  mc_state :: runtime_state
  mc_wqe :: 'w

record send_request =
  sr_source_rank :: int
  sr_destination_rank :: int
  sr_payload_bytes :: int
  sr_goal_tag :: int
  sr_extent_index :: int
  sr_channel_id :: string
  sr_submitted_at_ps :: int
  sr_eligible_at_ps :: int
  sr_nccl_command_id :: "string option"

definition nvlink_send :: "device_profile \<Rightarrow> execution_graph \<Rightarrow> execution_operation \<Rightarrow> send_request \<Rightarrow> int \<times> int \<Rightarrow> 'w machine
    \<Rightarrow> runtime_error + send_schedule \<times> 'w machine" where
  "nvlink_send p g op r ng m =
     (let st = mc_state m; started = max (sr_eligible_at_ps r) (dict_get (st_nvlink_available st) (sr_source_rank r) 0) in
      rbind (rec_err (serialization_ps (sr_payload_bytes r) (pf_nvlink_rate_bps p))) (\<lambda>duration.
        let finished = started + duration
        in rbind (new_visit g op NVLINK (gpu_resource ng ''nvlink'') (sr_submitted_at_ps r) (sr_eligible_at_ps r) started finished
                    (finished + pf_completion_delivery_ps p) (sr_payload_bytes r)) (\<lambda>v.
             Inr (\<lparr>ss_visits = [v], ss_projection = None\<rparr>,
               m\<lparr>mc_state := st\<lparr>st_nvlink_available := AList.update (sr_source_rank r) finished (st_nvlink_available st)\<rparr>\<rparr>))))"

definition submission_of :: "execution_graph \<Rightarrow> execution_operation \<Rightarrow> send_request \<Rightarrow> wqe_submission" where
  "submission_of g op r =
     \<lparr>ws_execution_id = eg_execution_id g, ws_operation_id = op_operation_id op, ws_source_rank = sr_source_rank r,
      ws_destination_rank = sr_destination_rank r, ws_payload_bytes = sr_payload_bytes r, ws_goal_tag = sr_goal_tag r,
      ws_extent_index = sr_extent_index r, ws_channel_id = sr_channel_id r, ws_submitted_at_ps = sr_submitted_at_ps r,
      ws_eligible_at_ps = sr_eligible_at_ps r, ws_class_label = op_priority op, ws_nccl_command_id = sr_nccl_command_id r\<rparr>"

definition schedule_semantic_send :: "'k runtime_config \<Rightarrow> 'w wqe_ops \<Rightarrow> execution_graph \<Rightarrow> execution_operation \<Rightarrow> send_request \<Rightarrow> 'w machine
    \<Rightarrow> runtime_error + send_schedule \<times> 'w machine" where
  "schedule_semantic_send cfg A g op r m =
     (let p = rc_profile cfg in
      rbind (rec_err (node_gpu p (sr_source_rank r))) (\<lambda>ng.
      rbind (rec_err (node_gpu p (sr_destination_rank r))) (\<lambda>(destination_node, _).
        if fst ng = destination_node then nvlink_send p g op r ng m
        else
          (let s = submission_of g op r
           in rec_check (check_submission s)
                (rbind (rec_err (wo_submit A (mc_wqe m) s)) (\<lambda>(w, wq).
                   rcheck (validate_wqe_projection p (rc_receiver_ingress cfg) (wo_name A) s w)
                     (rbind (native_wqe_visits w) (\<lambda>vs.
                        Inr (\<lparr>ss_visits = vs, ss_projection = Some w\<rparr>, m\<lparr>mc_wqe := wq\<rparr>)))))))))"

definition schedule_nccl_channel :: "device_profile \<Rightarrow> execution_graph \<Rightarrow> execution_operation \<Rightarrow> int \<Rightarrow> string \<Rightarrow> int \<Rightarrow> int \<Rightarrow> 'w machine
    \<Rightarrow> runtime_error + queue_visit \<times> 'w machine" where
  "schedule_nccl_channel p g op rank channel submitted eligible m =
     (let st = mc_state m; started = max eligible (dict_get (st_nccl_available st) (rank, channel) 0);
          finished = started + pf_nccl_channel_service_ps p
      in rbind (rec_err (node_gpu p rank)) (\<lambda>ng.
         rbind (new_visit g op NCCL_CHANNEL (gpu_resource ng (''nccl:'' @ channel)) submitted eligible started finished finished 0) (\<lambda>v.
           Inr (v, m\<lparr>mc_state := st\<lparr>st_nccl_available := AList.update (rank, channel) finished (st_nccl_available st)\<rparr>\<rparr>))))"

end
