(* ===== verification/Wqe_Properties.thy ===== *)
theory Wqe_Properties
  imports Runtime_Work
begin

text \<open>
  What the bypass WQE ledger guarantees.  A port is a server that takes one reservation at a time; the
  locale \<open>port_service\<close> states what a submission adds to such a port and is interpreted for the source
  and for the receiver side of the ledger.
\<close>

subsection \<open>Ports\<close>

definition serial :: "port_reservation list \<Rightarrow> bool" where
  "serial rs = sorted_wrt (\<lambda>r q. po_rnic_id r = po_rnic_id q \<longrightarrow> po_finished_at_ps r \<le> po_started_at_ps q) rs"

definition paced :: "int \<Rightarrow> port_reservation \<Rightarrow> bool" where
  "paced rate r = (serialization_ps (po_service_bytes r) rate = Inr (po_finished_at_ps r - po_started_at_ps r))"


lemma serial_snoc:
  "serial rs \<Longrightarrow> (\<And>r. r \<in> set rs \<Longrightarrow> po_rnic_id r = po_rnic_id q \<Longrightarrow> po_finished_at_ps r \<le> po_started_at_ps q) \<Longrightarrow> serial (rs @ [q])"
  by (simp add: serial_def sorted_wrt_append)


locale port_service =
  fixes available :: "'l \<Rightarrow> (string, int) dict" and reservations :: "'l \<Rightarrow> port_reservation list" and step :: "'l \<Rightarrow> 'l \<Rightarrow> bool"
  assumes served: "step l l' \<Longrightarrow>
      reservations l' = reservations l \<and> available l' = available l \<or>
      (\<exists>q. reservations l' = reservations l @ [q] \<and> dict_get (available l) (po_rnic_id q) 0 \<le> po_started_at_ps q \<and>
           po_started_at_ps q \<le> po_finished_at_ps q \<and> available l' = AList.update (po_rnic_id q) (po_finished_at_ps q) (available l))"
begin

definition port_inv :: "'l \<Rightarrow> bool" where
  "port_inv l = (serial (reservations l) \<and> (\<forall>r \<in> set (reservations l). po_finished_at_ps r \<le> dict_get (available l) (po_rnic_id r) 0))"

lemma port_inv_step:
  assumes "port_inv l" "step l l'" shows "port_inv l'"
proof -
  consider "reservations l' = reservations l" "available l' = available l"
    | q where "reservations l' = reservations l @ [q]" "dict_get (available l) (po_rnic_id q) 0 \<le> po_started_at_ps q"
        "po_started_at_ps q \<le> po_finished_at_ps q" "available l' = AList.update (po_rnic_id q) (po_finished_at_ps q) (available l)"
    using served [OF assms(2)] by blast
  then show ?thesis
  proof cases
    case 1
    then show ?thesis using assms(1) by (simp add: port_inv_def)
  next
    case (2 q)
    have old: "po_finished_at_ps r \<le> dict_get (available l) (po_rnic_id r) 0" if "r \<in> set (reservations l)" for r
      using assms(1) that by (simp add: port_inv_def)
    have "serial (reservations l @ [q])"
    proof (rule serial_snoc)
      fix r assume r: "r \<in> set (reservations l)" "po_rnic_id r = po_rnic_id q"
      show "po_finished_at_ps r \<le> po_started_at_ps q" using old [OF r(1)] r(2) 2(2) by simp
    qed (use assms(1) in \<open>simp add: port_inv_def\<close>)
    moreover have "po_finished_at_ps r \<le> dict_get (available l') (po_rnic_id r) 0" if "r \<in> set (reservations l @ [q])" for r
      using that old [of r] 2 by (auto split: option.splits if_splits)
    ultimately show ?thesis using 2(1) by (simp add: port_inv_def)
  qed
qed

end

subsection \<open>Submissions\<close>

text \<open>What an accepted submission records.\<close>

definition atlahs_step :: "device_profile \<Rightarrow> atlahs_ledger \<Rightarrow> atlahs_ledger \<Rightarrow> bool" where
  "atlahs_step p l l' = (\<exists>s w. atlahs_submit p l s = Inr (w, l'))"

lemma atlahs_submitE:
  assumes "atlahs_submit p l s = Inr (w, l')"
  obtains src dst rnic dest_rnic duration where
    "node_gpu p (ws_source_rank s) = Inr src" "node_gpu p (ws_destination_rank s) = Inr dst"
    "rnic_id p (ws_source_rank s) = Inr rnic" "rnic_id p (ws_destination_rank s) = Inr dest_rnic"
    "serialization_ps (ws_payload_bytes s) (pf_rnic_rate_bps p) = Inr duration"
    "w = atlahs_record l s src dst rnic dest_rnic (wp_started_at_ps w + duration) (wp_started_at_ps w + duration + pf_completion_delivery_ps p)"
    "check_projection w = None" "l' = install_record l w"
proof -
  obtain src dst rnic dest_rnic duration where e: "node_gpu p (ws_source_rank s) = Inr src" "node_gpu p (ws_destination_rank s) = Inr dst"
      "rnic_id p (ws_source_rank s) = Inr rnic" "rnic_id p (ws_destination_rank s) = Inr dest_rnic"
      "serialization_ps (ws_payload_bytes s) (pf_rnic_rate_bps p) = Inr duration"
    using assms unfolding atlahs_submit_def rbind_Inr_iff by metis
  let ?start = "grant_time l (al_receiver_ingress l \<and> fst src \<noteq> fst dst) dest_rnic (source_ready l rnic s)"
  have w: "w = atlahs_record l s src dst rnic dest_rnic (?start + duration) (?start + duration + pf_completion_delivery_ps p)"
      "check_projection w = None" "l' = install_record l w"
    using assms e by (auto simp: atlahs_submit_def Let_def rcheck_Inr_iff)
  have "wp_started_at_ps w = ?start" unfolding w(1) by (simp add: atlahs_record_def Let_def)
  then show ?thesis using that e w by metis
qed

lemma record_fields:
  assumes "atlahs_submit p l s = Inr (w, l')"
  shows "wp_started_at_ps w \<le> wp_finished_at_ps w" "dict_get (al_available_at_ps l) (wp_rnic_id w) 0 \<le> wp_started_at_ps w"
    "serialization_ps (wp_payload_bytes w) (pf_rnic_rate_bps p) = Inr (wp_finished_at_ps w - wp_started_at_ps w)"
    "wp_ingress w = Some (t, k) \<Longrightarrow> dict_get (al_receiver_available_at_ps l) k 0 \<le> wp_started_at_ps w"
    "l' = install_record l w"
proof -
  obtain src dst rnic dest_rnic duration where e:
      "serialization_ps (ws_payload_bytes s) (pf_rnic_rate_bps p) = Inr duration" "l' = install_record l w"
      "w = atlahs_record l s src dst rnic dest_rnic (wp_started_at_ps w + duration) (wp_started_at_ps w + duration + pf_completion_delivery_ps p)"
    by (rule atlahs_submitE [OF assms]) blast
  let ?c = "al_receiver_ingress l \<and> fst src \<noteq> fst dst"
  have f: "wp_finished_at_ps w = wp_started_at_ps w + duration" "wp_rnic_id w = rnic" "wp_payload_bytes w = ws_payload_bytes s"
      "wp_ingress w = (if ?c then Some (source_ready l rnic s, dest_rnic) else None)"
    by (subst e(3), simp add: atlahs_record_def Let_def)+
  have start: "wp_started_at_ps w = grant_time l ?c dest_rnic (source_ready l rnic s)"
    by (subst e(3)) (simp add: atlahs_record_def Let_def)
  have "0 \<le> duration" using serialization_bounds [OF e(1)] by simp
  then show "wp_started_at_ps w \<le> wp_finished_at_ps w" using f(1) by simp
  show "dict_get (al_available_at_ps l) (wp_rnic_id w) 0 \<le> wp_started_at_ps w"
    unfolding start f(2) by (simp add: grant_time_def source_ready_def le_max_iff_disj)
  show "serialization_ps (wp_payload_bytes w) (pf_rnic_rate_bps p) = Inr (wp_finished_at_ps w - wp_started_at_ps w)"
    using e(1) f(1,3) by simp
  show "dict_get (al_receiver_available_at_ps l) k 0 \<le> wp_started_at_ps w" if "wp_ingress w = Some (t, k)"
    using that unfolding start f(4) by (simp add: grant_time_def split: if_splits)
  show "l' = install_record l w" by (rule e(2))
qed

interpretation source_port: port_service al_available_at_ps source_port_reservations "atlahs_step p"
proof
  fix l l' assume "atlahs_step p l l'"
  then obtain s w where "atlahs_submit p l s = Inr (w, l')" by (auto simp: atlahs_step_def)
  note f = record_fields [OF this]
  then show "source_port_reservations l' = source_port_reservations l \<and> al_available_at_ps l' = al_available_at_ps l \<or>
      (\<exists>q. source_port_reservations l' = source_port_reservations l @ [q] \<and> dict_get (al_available_at_ps l) (po_rnic_id q) 0 \<le> po_started_at_ps q \<and>
           po_started_at_ps q \<le> po_finished_at_ps q \<and> al_available_at_ps l' = AList.update (po_rnic_id q) (po_finished_at_ps q) (al_available_at_ps l))"
    by (intro disjI2 exI [of _ "source_reservation w"]) (simp add: source_port_reservations_def install_record_def source_reservation_def)
qed

interpretation receiver_port: port_service al_receiver_available_at_ps receiver_port_reservations "atlahs_step p"
proof
  fix l l' assume "atlahs_step p l l'"
  then obtain s w where "atlahs_submit p l s = Inr (w, l')" by (auto simp: atlahs_step_def)
  note f = record_fields [OF this]
  show "receiver_port_reservations l' = receiver_port_reservations l \<and> al_receiver_available_at_ps l' = al_receiver_available_at_ps l \<or>
      (\<exists>q. receiver_port_reservations l' = receiver_port_reservations l @ [q] \<and> dict_get (al_receiver_available_at_ps l) (po_rnic_id q) 0 \<le> po_started_at_ps q \<and>
           po_started_at_ps q \<le> po_finished_at_ps q \<and>
           al_receiver_available_at_ps l' = AList.update (po_rnic_id q) (po_finished_at_ps q) (al_receiver_available_at_ps l))"
  proof (cases "wp_ingress w")
    case None
    then show ?thesis by (simp add: f(5) receiver_port_reservations_def install_record_def receiver_reservation_def map_filter_def)
  next
    case (Some tk)
    then obtain t k where tk: "wp_ingress w = Some (t, k)" by (cases tk) auto
    show ?thesis using f(1) f(4) [OF tk] tk
      by (intro disjI2 exI [of _ "(source_reservation w)\<lparr>po_rnic_id := k\<rparr>"])
        (simp add: f(5) receiver_port_reservations_def install_record_def receiver_reservation_def source_reservation_def map_filter_def)
  qed
qed

subsection \<open>Sequences of submissions\<close>

definition submit_all :: "device_profile \<Rightarrow> wqe_submission list \<Rightarrow> atlahs_ledger \<Rightarrow> record_error + atlahs_ledger" where
  "submit_all p = rfold (\<lambda>s l. rbind (atlahs_submit p l s) (\<lambda>(w, l'). Inr l'))"

lemma rfold_invariant:
  "rfold f xs s = Inr t \<Longrightarrow> P s \<Longrightarrow> (\<And>x s s'. x \<in> set xs \<Longrightarrow> P s \<Longrightarrow> f x s = Inr s' \<Longrightarrow> P s') \<Longrightarrow> P t"
proof (induction xs arbitrary: s)
  case (Cons x xs)
  then obtain s' where "f x s = Inr s'" "rfold f xs s' = Inr t" by (auto simp: rbind_Inr_iff)
  then show ?case using Cons.IH [of s'] Cons.prems(2,3) by (metis list.set_intros)
qed simp

lemma submit_all_inv:
  assumes "submit_all p subs (new_atlahs ingress) = Inr l"
  shows "source_port.port_inv l" "receiver_port.port_inv l" "list_all (paced (pf_rnic_rate_bps p)) (source_port_reservations l)"
proof -
  let ?P = "\<lambda>l. source_port.port_inv l \<and> receiver_port.port_inv l \<and> list_all (paced (pf_rnic_rate_bps p)) (source_port_reservations l)"
  have "?P l" using assms unfolding submit_all_def
  proof (rule rfold_invariant)
    show "?P (new_atlahs ingress)"
      by (simp add: source_port.port_inv_def receiver_port.port_inv_def new_atlahs_def source_port_reservations_def
        receiver_port_reservations_def serial_def map_filter_def)
  next
    fix s l l' assume P: "?P l" and "rbind (atlahs_submit p l s) (\<lambda>(w, l'). Inr l') = Inr l'"
    then obtain w where w: "atlahs_submit p l s = Inr (w, l')" by (auto simp: rbind_Inr_iff)
    then have step: "atlahs_step p l l'" by (auto simp: atlahs_step_def)
    have "paced (pf_rnic_rate_bps p) (source_reservation w)"
      using record_fields(3) [OF w] by (simp add: paced_def source_reservation_def)
    then have "list_all (paced (pf_rnic_rate_bps p)) (source_port_reservations l')"
      using P record_fields(5) [OF w] by (simp add: source_port_reservations_def install_record_def)
    then show "?P l'" using P source_port.port_inv_step [OF _ step] receiver_port.port_inv_step [OF _ step] by blast
  qed
  then show "source_port.port_inv l" "receiver_port.port_inv l" "list_all (paced (pf_rnic_rate_bps p)) (source_port_reservations l)" by blast+
qed





subsection \<open>Claims\<close>

text \<open>
  C36. A port serves one WQE at a time.  After any sequence of accepted submissions, an earlier
  reservation of an RNIC ends before a later one of the same RNIC starts, on the source side and, with
  receiver ingress, on the receiver side.
\<close>

theorem rnic_ports_exclusive:
  assumes "submit_all p subs (new_atlahs ingress) = Inr l"
    and "rs = source_port_reservations l \<or> rs = receiver_port_reservations l"
    and "i < j" "j < length rs" and "po_rnic_id (rs ! i) = po_rnic_id (rs ! j)"
  shows "po_finished_at_ps (rs ! i) \<le> po_started_at_ps (rs ! j)"
proof -
  have "serial rs" using submit_all_inv(1,2) [OF assms(1)] assms(2) by (auto simp: source_port.port_inv_def receiver_port.port_inv_def)
  then show ?thesis using sorted_wrt_nth_less [of _ rs i j] assms(3-5) unfolding serial_def by fastforce
qed

definition send_demo :: "int \<Rightarrow> int \<Rightarrow> wqe_submission" where
  "send_demo extent destination =
     \<lparr>ws_execution_id = ''e'', ws_operation_id = ''k'', ws_source_rank = 0, ws_destination_rank = destination, ws_payload_bytes = 5,
      ws_goal_tag = 7, ws_extent_index = extent, ws_channel_id = ''default'', ws_submitted_at_ps = 10, ws_eligible_at_ps = 10,
      ws_class_label = 0, ws_nccl_command_id = None\<rparr>"

definition ledger_demo :: atlahs_ledger where
  "ledger_demo = (case submit_all default_profile [send_demo 0 8, send_demo 1 9] (new_atlahs True) of Inl e \<Rightarrow> new_atlahs True | Inr l \<Rightarrow> l)"

lemma ledger_demo_run: "submit_all default_profile [send_demo 0 8, send_demo 1 9] (new_atlahs True) = Inr ledger_demo"
proof -
  have "case submit_all default_profile [send_demo 0 8, send_demo 1 9] (new_atlahs True) of Inl e \<Rightarrow> False | Inr l \<Rightarrow> True" by code_simp
  then show ?thesis by (auto simp: ledger_demo_def split: sum.splits)
qed

lemma ledger_demo_ports:
  "source_port_reservations ledger_demo =
     [\<lparr>po_wqe_id = ''atlahs-wqe:e:k:0'', po_rnic_id = ''node-0:rnic-0'', po_started_at_ps = 10, po_finished_at_ps = 110, po_service_bytes = 5\<rparr>,
      \<lparr>po_wqe_id = ''atlahs-wqe:e:k:1'', po_rnic_id = ''node-0:rnic-0'', po_started_at_ps = 110, po_finished_at_ps = 210, po_service_bytes = 5\<rparr>]"
  by code_simp

theorem rnic_ports_exclusive_witness:
  "po_finished_at_ps (source_port_reservations ledger_demo ! 0) \<le> po_started_at_ps (source_port_reservations ledger_demo ! 1)"
  using rnic_ports_exclusive [OF ledger_demo_run disjI1 [OF refl], of 0 1] by (simp add: ledger_demo_ports)



end
