(* ===== verification/Runtime_Collective.thy ===== *)
theory Runtime_Collective
  imports Runtime_Work
begin

text \<open>
  Control fan-out and collectives of \<open>CoarseDeviceRuntime\<close> (\<open>simllm/core/runtime.py\<close>): every extent
  first occupies the sender's NCCL channel and then its NVLink port or an RNIC.  The ring keeps a
  frontier per rank, round by round; the pairwise exchange starts every pair from readiness; an
  explicit plan schedules exactly its extents, each after the actions its two ends depend on.
\<close>

subsection \<open>Control\<close>

record control_progress =
  cg_visits :: "queue_visit list"
  cg_paths :: "queue_visit list list"
  cg_path_witnesses :: "causal_witness option list"
  cg_wqes :: "wqe_projection list"
  cg_physical :: int
  cg_completed :: "(int, int) dict"
  cg_participant_paths :: "(int, queue_visit list) dict"
  cg_witnesses :: "(int, causal_witness option) dict"

definition control_goal_tag_stride :: int where
  "control_goal_tag_stride = 1024"

definition control_destination :: "'k runtime_config \<Rightarrow> 'w wqe_ops \<Rightarrow> execution_graph \<Rightarrow> execution_operation \<Rightarrow> control_work \<Rightarrow> nat
    \<Rightarrow> ready_operation \<Rightarrow> queue_visit \<Rightarrow> queue_visit \<Rightarrow> nat \<times> int \<Rightarrow> control_progress \<times> 'w machine
    \<Rightarrow> runtime_error + control_progress \<times> 'w machine" where
  "control_destination cfg A g op w operation_index ready launch control = (\<lambda>(extent, destination) (c, m).
     if destination = op_rank op then Inr (c, m)
     else
       rbind (entry_at (rd_by_rank ready) destination) (\<lambda>dest_ready.
       rbind (entry_at (rd_witnesses ready) destination) (\<lambda>dest_witness.
       rbind (entry_at (rd_witnesses ready) (op_rank op)) (\<lambda>witness.
       rbind (schedule_semantic_send cfg A g op
                \<lparr>sr_source_rank = op_rank op, sr_destination_rank = destination, sr_payload_bytes = xw_payload_bytes w,
                 sr_goal_tag = pf_goal_base_tag (rc_profile cfg) + control_goal_tag_offset
                   + int operation_index * control_goal_tag_stride + int extent,
                 sr_extent_index = int extent, sr_channel_id = ''control:'' @ xw_message w,
                 sr_submitted_at_ps = qv_completed_at_ps control,
                 sr_eligible_at_ps = max (qv_completed_at_ps control) dest_ready, sr_nccl_command_id = None\<rparr> m) (\<lambda>(t, m').
       rbind (send_completed_at_ps t) (\<lambda>completed.
         let x = select_two (qv_completed_at_ps control, witness) (dest_ready, dest_witness);
             path = [launch, control] @ ss_visits t
         in Inr (c\<lparr>cg_visits := cg_visits c @ ss_visits t, cg_paths := cg_paths c @ [path],
                   cg_path_witnesses := cg_path_witnesses c @ [x],
                   cg_wqes := cg_wqes c @ (case ss_projection t of None \<Rightarrow> [] | Some w \<Rightarrow> [w]),
                   cg_physical := max (cg_physical c) completed,
                   cg_completed := AList.update destination (max (dict_get (cg_completed c) destination 0) completed) (cg_completed c),
                   cg_participant_paths := AList.update destination path (cg_participant_paths c),
                   cg_witnesses := AList.update destination x (cg_witnesses c)\<rparr>, m')))))))"

definition schedule_control :: "'k runtime_config \<Rightarrow> 'w wqe_ops \<Rightarrow> execution_graph \<Rightarrow> execution_operation \<Rightarrow> control_work \<Rightarrow> nat
    \<Rightarrow> ready_operation \<Rightarrow> queue_visit \<Rightarrow> 'w machine \<Rightarrow> runtime_error + scheduled_operation \<times> 'w machine" where
  "schedule_control cfg A g op w operation_index ready launch m =
     (let rank = op_rank op; p = rc_profile cfg; st = mc_state m in
      rbind (entry_at (rd_by_rank ready) rank) (\<lambda>eligible.
      rbind (rec_err (node_gpu p rank)) (\<lambda>ng.
        let started = max eligible (dict_get (st_control_available st) rank 0); finished = started + pf_control_service_ps p
        in rbind (new_visit g op CONTROL_QUEUE (gpu_resource ng ''control'') (qv_completed_at_ps launch) eligible started
                    finished finished (xw_payload_bytes w)) (\<lambda>control.
           rbind (entry_at (rd_witnesses ready) rank) (\<lambda>witness.
           rbind (rfold (control_destination cfg A g op w operation_index ready launch control) (enumerate 0 (xw_destination_ranks w))
                    (\<lparr>cg_visits = [launch, control], cg_paths = [[launch, control]], cg_path_witnesses = [witness], cg_wqes = [],
                      cg_physical = finished, cg_completed = [(rank, finished)],
                      cg_participant_paths = [(rank, [launch, control])], cg_witnesses = [(rank, witness)]\<rparr>,
                     m\<lparr>mc_state := st\<lparr>st_control_available := AList.update rank finished (st_control_available st)\<rparr>\<rparr>)) (\<lambda>(c, m').
             case xw_mode w of
               SYNCHRONOUS \<Rightarrow>
                 rbind (logical_path_index (cg_paths c)) (\<lambda>i.
                   Inr (outcome_of op (cg_physical c) (cg_physical c) (AList.update rank (cg_physical c) (cg_completed c))
                          (cg_participant_paths c) (cg_witnesses c) (cg_visits c) (cg_paths c) eligible
                          (cg_path_witnesses c ! i) None (cg_wqes c), m'))
             | ASYNCHRONOUS \<Rightarrow>
                 Inr (outcome_of op finished (cg_physical c) (AList.update rank finished (cg_completed c))
                        (cg_participant_paths c) (cg_witnesses c) (cg_visits c) [[launch, control]] eligible
                        witness None (cg_wqes c), m')))))))"

subsection \<open>Extents\<close>

text \<open>One extent: the sender's channel, then the transport.\<close>

definition send_extent :: "'k runtime_config \<Rightarrow> 'w wqe_ops \<Rightarrow> execution_graph \<Rightarrow> execution_operation \<Rightarrow> queue_visit \<Rightarrow> string \<Rightarrow> string
    \<Rightarrow> int \<times> int \<times> int \<Rightarrow> int \<Rightarrow> nat \<Rightarrow> int \<times> int \<Rightarrow> string \<Rightarrow> 'w machine
    \<Rightarrow> runtime_error + (queue_visit \<times> send_schedule \<times> int) \<times> 'w machine" where
  "send_extent cfg A g op launch channel send_channel = (\<lambda>(source, destination, bytes) tag extent (send_ready, receive_ready) command m.
     rbind (schedule_nccl_channel (rc_profile cfg) g op source channel (qv_completed_at_ps launch) send_ready m) (\<lambda>(v, m1).
     rbind (schedule_semantic_send cfg A g op
              \<lparr>sr_source_rank = source, sr_destination_rank = destination, sr_payload_bytes = bytes, sr_goal_tag = tag,
               sr_extent_index = int extent, sr_channel_id = send_channel, sr_submitted_at_ps = qv_completed_at_ps v,
               sr_eligible_at_ps = max (qv_completed_at_ps v) receive_ready, sr_nccl_command_id = Some command\<rparr> m1) (\<lambda>(t, m2).
     rbind (send_completed_at_ps t) (\<lambda>completed. Inr ((v, t, completed), m2)))))"

definition nccl_command :: "execution_graph \<Rightarrow> execution_operation \<Rightarrow> string" where
  "nccl_command g op = ''nccl-command:'' @ escape_id (eg_execution_id g) @ '':'' @ escape_id (op_operation_id op)"

record collective_progress =
  cl_extent_index :: nat
  cl_visits :: "queue_visit list"
  cl_wqes :: "wqe_projection list"
  cl_paths :: "queue_visit list list"
  cl_path_witnesses :: "causal_witness option list"

definition add_extent :: "queue_visit \<Rightarrow> send_schedule \<Rightarrow> collective_progress \<Rightarrow> collective_progress" where
  "add_extent v t c =
     c\<lparr>cl_extent_index := cl_extent_index c + 1, cl_visits := cl_visits c @ v # ss_visits t,
       cl_wqes := cl_wqes c @ (case ss_projection t of None \<Rightarrow> [] | Some w \<Rightarrow> [w])\<rparr>"

record frontier =
  fr_time :: "(int, int) dict"
  fr_witnesses :: "(int, causal_witness option) dict"
  fr_paths :: "(int, queue_visit list) dict"

text \<open>
  A finished extent moves an end: the later witness is kept, and the path and time when the extent
  completes no earlier than what the end had.  A rank without a path entry gets one, as a dictionary
  store does.
\<close>

definition reach_end :: "int \<Rightarrow> causal_witness option \<Rightarrow> queue_visit list \<Rightarrow> int \<Rightarrow> frontier \<Rightarrow> runtime_error + frontier" where
  "reach_end completed witness path rank f =
     rbind (entry_at (fr_time f) rank) (\<lambda>t.
     rbind (entry_at (fr_witnesses f) rank) (\<lambda>x.
       let f' = f\<lparr>fr_witnesses := AList.update rank (select_two (t, x) (completed, witness)) (fr_witnesses f)\<rparr>
       in Inr (if t \<le> completed
               then f'\<lparr>fr_time := AList.update rank completed (fr_time f), fr_paths := AList.update rank path (fr_paths f)\<rparr>
               else f')))"

definition reach_ends :: "int \<Rightarrow> causal_witness option \<Rightarrow> queue_visit list \<Rightarrow> int \<times> int \<Rightarrow> frontier \<Rightarrow> runtime_error + frontier" where
  "reach_ends completed witness path ends f =
     rbind (reach_end completed witness path (fst ends) f) (reach_end completed witness path (snd ends))"

subsection \<open>Ring all-reduce\<close>

type_synonym round_record = "(int \<times> int) \<times> int \<times> causal_witness option \<times> queue_visit list"

definition ring_extent_step :: "'k runtime_config \<Rightarrow> 'w wqe_ops \<Rightarrow> execution_graph \<Rightarrow> execution_operation \<Rightarrow> collective_work \<Rightarrow> queue_visit \<Rightarrow> frontier
    \<Rightarrow> nat \<times> int \<Rightarrow> nat \<times> int \<Rightarrow> round_record list \<times> collective_progress \<times> 'w machine
    \<Rightarrow> runtime_error + round_record list \<times> collective_progress \<times> 'w machine" where
  "ring_extent_step cfg A g op w launch f = (\<lambda>(round_index, tag) (index, source) (records, c, m).
     let destination = lw_ranks w ! ((index + 1) mod length (lw_ranks w)); channel = channel_of w in
     rbind (entry_at (fr_time f) source) (\<lambda>send_ready.
     rbind (entry_at (fr_time f) destination) (\<lambda>receive_ready.
     rbind (send_extent cfg A g op launch channel (channel @ '':round-'' @ nat_text round_index)
              (source, destination, lw_payload_bytes w div int (length (lw_ranks w))) tag (cl_extent_index c)
              (send_ready, receive_ready) (nccl_command g op) m) (\<lambda>((v, t, completed), m').
     rbind (entry_at (fr_witnesses f) source) (\<lambda>xs.
     rbind (entry_at (fr_witnesses f) destination) (\<lambda>xd.
     rbind (entry_at (fr_paths f) source) (\<lambda>path.
       Inr (records @ [((source, destination), completed, select_two (qv_completed_at_ps v, xs) (receive_ready, xd), path @ v # ss_visits t)],
            add_extent v t c, m'))))))))"

definition ring_round_step :: "'k runtime_config \<Rightarrow> 'w wqe_ops \<Rightarrow> execution_graph \<Rightarrow> execution_operation \<Rightarrow> collective_work \<Rightarrow> queue_visit
    \<Rightarrow> nat \<times> int \<Rightarrow> frontier \<times> collective_progress \<times> 'w machine \<Rightarrow> runtime_error + frontier \<times> collective_progress \<times> 'w machine" where
  "ring_round_step cfg A g op w launch rt = (\<lambda>(f, c, m).
     rbind (rfold (ring_extent_step cfg A g op w launch f rt) (enumerate 0 (lw_ranks w)) ([], c, m)) (\<lambda>(records, c', m').
     rbind (rfold (\<lambda>(ends, completed, witness, path). reach_ends completed witness path ends) records f) (\<lambda>f'.
       Inr (f', c', m'))))"

definition schedule_ring :: "'k runtime_config \<Rightarrow> 'w wqe_ops \<Rightarrow> execution_graph \<Rightarrow> execution_operation \<Rightarrow> collective_work \<Rightarrow> ready_operation \<Rightarrow> queue_visit
    \<Rightarrow> int list \<Rightarrow> 'w machine \<Rightarrow> runtime_error + frontier \<times> collective_progress \<times> 'w machine" where
  "schedule_ring cfg A g op w ready launch tags m =
     rbind (rfold (ring_round_step cfg A g op w launch) (enumerate 0 tags)
              (\<lparr>fr_time = rd_by_rank ready, fr_witnesses = rd_witnesses ready, fr_paths = map (\<lambda>r. (r, [launch])) (lw_ranks w)\<rparr>,
               \<lparr>cl_extent_index = 0, cl_visits = [launch], cl_wqes = [], cl_paths = [], cl_path_witnesses = []\<rparr>, m)) (\<lambda>(f, c, m').
       Inr (f, c\<lparr>cl_paths := map snd (fr_paths f), cl_path_witnesses := map snd (fr_witnesses f)\<rparr>, m'))"

subsection \<open>Pairwise exchange\<close>

text \<open>Both ends compare with the completions they had before the pair; their times move together afterwards.\<close>

definition reach_pair :: "int \<Rightarrow> causal_witness option \<Rightarrow> queue_visit list \<Rightarrow> int \<times> int \<Rightarrow> frontier \<Rightarrow> runtime_error + frontier" where
  "reach_pair completed witness path ends f =
     rbind (rfold (\<lambda>rank f'.
              rbind (entry_at (fr_time f) rank) (\<lambda>t.
              rbind (entry_at (fr_witnesses f') rank) (\<lambda>x.
                Inr (f'\<lparr>fr_witnesses := AList.update rank (select_two (t, x) (completed, witness)) (fr_witnesses f'),
                        fr_paths := (if t \<le> completed then AList.update rank path (fr_paths f') else fr_paths f')\<rparr>))))
            [fst ends, snd ends] f)
       (rfold (\<lambda>rank f'. rbind (entry_at (fr_time f') rank) (\<lambda>t. Inr (f'\<lparr>fr_time := AList.update rank (max t completed) (fr_time f')\<rparr>)))
          [fst ends, snd ends])"

definition pair_extent :: "'k runtime_config \<Rightarrow> 'w wqe_ops \<Rightarrow> execution_graph \<Rightarrow> execution_operation \<Rightarrow> collective_work \<Rightarrow> ready_operation \<Rightarrow> queue_visit \<Rightarrow> int
    \<Rightarrow> int \<times> int \<times> int \<Rightarrow> frontier \<times> collective_progress \<times> 'w machine \<Rightarrow> runtime_error + frontier \<times> collective_progress \<times> 'w machine" where
  "pair_extent cfg A g op w ready launch tag = (\<lambda>(source, destination, bytes) (f, c, m).
     rbind (entry_at (rd_by_rank ready) source) (\<lambda>send_ready.
     rbind (entry_at (rd_by_rank ready) destination) (\<lambda>receive_ready.
     rbind (send_extent cfg A g op launch (channel_of w) (channel_of w) (source, destination, bytes) tag (cl_extent_index c)
              (send_ready, receive_ready) (nccl_command g op) m) (\<lambda>((v, t, completed), m').
     rbind (entry_at (rd_witnesses ready) source) (\<lambda>xs.
     rbind (entry_at (rd_witnesses ready) destination) (\<lambda>xd.
       let x = select_two (qv_completed_at_ps v, xs) (receive_ready, xd); path = launch # v # ss_visits t; c' = add_extent v t c
       in rbind (reach_pair completed x path (source, destination) f) (\<lambda>f'.
            Inr (f', c'\<lparr>cl_paths := cl_paths c' @ [path], cl_path_witnesses := cl_path_witnesses c' @ [x]\<rparr>, m'))))))))"

definition pair_transfers :: "collective_work \<Rightarrow> (int \<times> int \<times> int) list" where
  "pair_transfers w =
     (if lw_pair_payload_bytes w \<noteq> [] then lw_pair_payload_bytes w
      else concat (map (\<lambda>s. map (\<lambda>d. (s, d, lw_payload_bytes w)) (filter (\<lambda>d. s \<noteq> d) (lw_ranks w))) (lw_ranks w)))"

definition schedule_pairwise :: "'k runtime_config \<Rightarrow> 'w wqe_ops \<Rightarrow> execution_graph \<Rightarrow> execution_operation \<Rightarrow> collective_work \<Rightarrow> ready_operation \<Rightarrow> queue_visit
    \<Rightarrow> int list \<Rightarrow> 'w machine \<Rightarrow> runtime_error + frontier \<times> collective_progress \<times> 'w machine" where
  "schedule_pairwise cfg A g op w ready launch tags m =
     (case tags of [] \<Rightarrow> Inl NoSuchKey | tag # _ \<Rightarrow>
        rfold (pair_extent cfg A g op w ready launch tag) (pair_transfers w)
          (\<lparr>fr_time = rd_by_rank ready, fr_witnesses = rd_witnesses ready, fr_paths = map (\<lambda>(r, _). (r, [launch])) (rd_by_rank ready)\<rparr>,
           \<lparr>cl_extent_index = 0, cl_visits = [launch], cl_wqes = [], cl_paths = [], cl_path_witnesses = []\<rparr>, m))"

subsection \<open>Explicit plans\<close>

record action_progress =
  ap_completed :: "(string, int) dict"
  ap_witnesses :: "(string, causal_witness option) dict"
  ap_paths :: "(string, queue_visit list) dict"

type_synonym ready_candidate = "int \<times> causal_witness option \<times> queue_visit list"

definition ready_key :: "ready_candidate \<Rightarrow> int \<times> bool \<times> int \<times> string" where
  "ready_key c =
     (fst c, fst (snd c) \<noteq> None, (case fst (snd c) of None \<Rightarrow> -1 | Some w \<Rightarrow> cx_completed_at_ps w),
      (case fst (snd c) of None \<Rightarrow> [] | Some w \<Rightarrow> cx_predecessor_id w))"

definition latest_candidate :: "ready_operation \<Rightarrow> queue_visit \<Rightarrow> action_progress \<Rightarrow> int \<Rightarrow> string list \<Rightarrow> runtime_error + ready_candidate" where
  "latest_candidate ready launch a rank ids =
     rbind (entry_at (rd_by_rank ready) rank) (\<lambda>t.
     rbind (entry_at (rd_witnesses ready) rank) (\<lambda>x.
     rbind (collect (\<lambda>k. rbind (entry_at (ap_completed a) k) (\<lambda>t. rbind (entry_at (ap_witnesses a) k) (\<lambda>x.
              rbind (entry_at (ap_paths a) k) (\<lambda>path. Inr (t, x, path))))) ids) (\<lambda>cs.
       Inr (first_max ready_key (t, x, [launch]) cs))))"

definition action_ready :: "collective_plan \<Rightarrow> ready_operation \<Rightarrow> queue_visit \<Rightarrow> action_progress \<Rightarrow> string \<Rightarrow> runtime_error + ready_candidate" where
  "action_ready plan ready launch a k =
     (case find (\<lambda>x. pa_action_id x = k) (rev (cp_actions plan)) of
        None \<Rightarrow> Inl NoSuchKey
      | Some action \<Rightarrow> latest_candidate ready launch a (pa_rank action) (pa_depends_on action))"

definition finish_action :: "int \<Rightarrow> causal_witness option \<Rightarrow> queue_visit list \<Rightarrow> string \<Rightarrow> action_progress \<Rightarrow> action_progress" where
  "finish_action completed witness path k a =
     a\<lparr>ap_completed := AList.update k completed (ap_completed a), ap_witnesses := AList.update k witness (ap_witnesses a),
       ap_paths := AList.update k path (ap_paths a)\<rparr>"

definition plan_extent_step :: "'k runtime_config \<Rightarrow> 'w wqe_ops \<Rightarrow> execution_graph \<Rightarrow> execution_operation \<Rightarrow> collective_plan \<Rightarrow> ready_operation \<Rightarrow> queue_visit
    \<Rightarrow> plan_extent \<Rightarrow> action_progress \<times> collective_progress \<times> 'w machine \<Rightarrow> runtime_error + action_progress \<times> collective_progress \<times> 'w machine" where
  "plan_extent_step cfg A g op plan ready launch e = (\<lambda>(a, c, m).
     case find (\<lambda>r. pr_round_index r = pe_round_index e) (rev (cp_rounds plan)) of
       None \<Rightarrow> Inl NoSuchKey
     | Some r \<Rightarrow>
         rbind (action_ready plan ready launch a (pe_send_action_id e)) (\<lambda>(send_ready, send_witness, send_path).
         rbind (action_ready plan ready launch a (pe_receive_action_id e)) (\<lambda>(receive_ready, receive_witness, _).
         rbind (send_extent cfg A g op launch (cp_channel_id plan) (pr_channel_id r)
                  (pe_source_rank e, pe_destination_rank e, pe_payload_bytes e) (pr_tag r) (cl_extent_index c)
                  (send_ready, receive_ready) (nccl_command g op) m) (\<lambda>((v, t, completed), m').
           let x = select_two (qv_completed_at_ps v, send_witness) (receive_ready, receive_witness);
               path = send_path @ v # ss_visits t
           in Inr (finish_action completed x path (pe_receive_action_id e) (finish_action completed x path (pe_send_action_id e) a),
                   add_extent v t c, m')))))"

definition terminal_rank :: "ready_operation \<Rightarrow> queue_visit \<Rightarrow> action_progress \<Rightarrow> int \<times> string list \<Rightarrow> frontier \<times> collective_progress
    \<Rightarrow> runtime_error + frontier \<times> collective_progress" where
  "terminal_rank ready launch a = (\<lambda>(rank, ids) (f, c).
     rbind (latest_candidate ready launch a rank ids) (\<lambda>(completed, witness, path).
       Inr (\<lparr>fr_time = AList.update rank completed (fr_time f), fr_witnesses = AList.update rank witness (fr_witnesses f),
             fr_paths = AList.update rank path (fr_paths f)\<rparr>,
            c\<lparr>cl_paths := cl_paths c @ [path], cl_path_witnesses := cl_path_witnesses c @ [witness]\<rparr>)))"

definition schedule_plan :: "'k runtime_config \<Rightarrow> 'w wqe_ops \<Rightarrow> execution_graph \<Rightarrow> execution_operation \<Rightarrow> collective_plan \<Rightarrow> ready_operation \<Rightarrow> queue_visit
    \<Rightarrow> 'w machine \<Rightarrow> runtime_error + frontier \<times> collective_progress \<times> 'w machine" where
  "schedule_plan cfg A g op plan ready launch m =
     rbind (rfold (plan_extent_step cfg A g op plan ready launch) (cp_extents plan)
              (\<lparr>ap_completed = [], ap_witnesses = [], ap_paths = []\<rparr>,
               \<lparr>cl_extent_index = 0, cl_visits = [launch], cl_wqes = [], cl_paths = [], cl_path_witnesses = []\<rparr>, m)) (\<lambda>(a, c, m').
     rbind (rfold (terminal_rank ready launch a) (cp_terminal_action_ids plan)
              (\<lparr>fr_time = [], fr_witnesses = [], fr_paths = []\<rparr>, c)) (\<lambda>(f, c'). Inr (f, c', m')))"

subsection \<open>The outcome of a collective\<close>

definition collective_outcome :: "execution_graph \<Rightarrow> execution_operation \<Rightarrow> ready_operation \<Rightarrow> queue_visit \<Rightarrow> bool \<Rightarrow> frontier \<times> collective_progress \<times> 'w machine
    \<Rightarrow> runtime_error + scheduled_operation \<times> 'w machine" where
  "collective_outcome g op ready launch fill_paths = (\<lambda>(f, c, m).
     if fr_time f = [] then Inl NoSuchKey
     else
       (let logical = Max (set (map snd (fr_time f))) in
        rbind (completion_causal_witness (fr_time f) (fr_witnesses f)) (\<lambda>completion.
          let (paths, path_witnesses) = (if fill_paths \<and> cl_paths c = [] then ([[launch]], [completion]) else (cl_paths c, cl_path_witnesses c))
          in rbind (logical_path_index paths) (\<lambda>i.
               let causal = (if qv_completed_at_ps (last (paths ! i)) = logical then path_witnesses ! i else completion)
               in Inr (outcome_of op logical logical (fr_time f) (fr_paths f) (fr_witnesses f) (cl_visits c) paths
                         (Min (set (map snd (rd_by_rank ready)))) causal (Some (nccl_command g op)) (cl_wqes c), m)))))"

definition schedule_collective :: "'k runtime_config \<Rightarrow> 'w wqe_ops \<Rightarrow> execution_graph \<Rightarrow> execution_operation \<Rightarrow> collective_work \<Rightarrow> ready_operation \<Rightarrow> queue_visit
    \<Rightarrow> int list \<Rightarrow> collective_plan option \<Rightarrow> 'w machine \<Rightarrow> runtime_error + scheduled_operation \<times> 'w machine" where
  "schedule_collective cfg A g op w ready launch tags plan m =
     (case plan of
        Some q \<Rightarrow> rbind (schedule_plan cfg A g op q ready launch m) (collective_outcome g op ready launch False)
      | None \<Rightarrow>
          rbind (if ring_work w then schedule_ring cfg A g op w ready launch tags m
                 else if lw_collective w = ''all-to-allv'' \<and> lw_algorithm_hint w = Some ''pairwise''
                 then schedule_pairwise cfg A g op w ready launch tags m
                 else Inl UnsupportedAlgorithm) (collective_outcome g op ready launch True))"

definition kv_demand_bytes :: "kv_pending option \<Rightarrow> string \<Rightarrow> int" where
  "kv_demand_bytes pending k = (case pending of None \<Rightarrow> 0 | Some q \<Rightarrow> dict_get (kp_bytes_by_operation q) k 0)"

definition schedule_noncompute :: "'k runtime_config \<Rightarrow> 'w wqe_ops \<Rightarrow> execution_graph \<Rightarrow> kv_pending option \<Rightarrow> (string, int list) dict
    \<Rightarrow> execution_operation \<Rightarrow> ready_operation \<Rightarrow> queue_visit \<Rightarrow> nat \<Rightarrow> 'w machine \<Rightarrow> runtime_error + scheduled_operation \<times> 'w machine" where
  "schedule_noncompute cfg A g pending tags op ready launch operation_index m =
     (let k = op_operation_id op; rank = op_rank op; p = rc_profile cfg in
      case op_work op of
        DmaWork w \<Rightarrow>
          rbind (completion_causal_witness (rd_by_rank ready) (rd_witnesses ready)) (\<lambda>causal.
          rbind (schedule_dma p g op w (Max (set (map snd (rd_by_rank ready)))) causal launch (mc_state m)) (\<lambda>(x, st).
            Inr (x, m\<lparr>mc_state := st\<rparr>)))
      | KvCacheWork w \<Rightarrow>
          rbind (entry_at (rd_by_rank ready) rank) (\<lambda>t.
          rbind (entry_at (rd_witnesses ready) rank) (\<lambda>causal.
            if kv_demand_bytes pending k \<noteq> 0
            then rbind (schedule_kv_traffic p g op t causal (rd_eligible_at_ps ready) launch (mc_state m) (kv_demand_bytes pending k)) (\<lambda>(x, st).
                   Inr (x, m\<lparr>mc_state := st\<rparr>))
            else Inr (schedule_kv_marker op t causal (rd_eligible_at_ps ready) launch, m)))
      | ControlWork w \<Rightarrow> schedule_control cfg A g op w operation_index ready launch m
      | CollectiveWork w \<Rightarrow>
          rbind (entry_at tags k) (\<lambda>ts.
            schedule_collective cfg A g op w ready launch ts (map_of (map (\<lambda>q. (cp_operation_id q, q)) (eg_collective_plans g)) k) m)
      | ComputeWork w \<Rightarrow> Inl UnsupportedAlgorithm)"

end
