(* ===== verification/Authority.thy ===== *)
theory Authority
  imports Runtime_Collective
begin

text \<open>
  The cross-layer projection checks of \<open>simllm/core/authority.py\<close>: the completion stream of an
  execution has to be, as a multiset, exactly what the queue visits, WQE lifecycles and operation
  completions of the runtime report imply, and the request bookkeeper has to carry exactly the WQEs,
  events and the completion stage of the execution.  A \<open>Counter\<close> is a multiset.
  Metadata values are compared as tagged scalars.
\<close>

datatype authority_error =
    WqeExecution | DuplicateIngress | IngressVisits | SubjectSets | ClassBytes
  | NoRuntimeRecord | CompletionCount | CompletionTime | CompletionBytes | CompletionResource
  | StreamDifference
  | LedgerDuplicateWqe | LedgerLostWqe | LedgerWqeTime | LedgerWqeNative | LedgerWqeMetadata | LedgerExtraWqe
  | LedgerEvents | LedgerStages | LedgerStageTime

fun work_completed_bytes :: "work_payload \<Rightarrow> int option" where
  "work_completed_bytes (ComputeWork w) = cw_hbm_bytes w"
| "work_completed_bytes (DmaWork w) = Some (dw_byte_count w)"
| "work_completed_bytes (KvCacheWork w) = Some (kw_byte_count w)"
| "work_completed_bytes (CollectiveWork w) =
     Some (if lw_pair_payload_bytes w \<noteq> [] then sum_list (map (\<lambda>(s, d, n). n) (lw_pair_payload_bytes w)) else lw_payload_bytes w)"
| "work_completed_bytes (ControlWork w) = Some (xw_payload_bytes w)"

definition class_service_bytes :: "execution_graph \<Rightarrow> (int \<times> int) list" where
  "class_service_bytes g =
     sort_key fst (fold (\<lambda>op d. case op_work op of
         ControlWork w \<Rightarrow> AList.update (op_priority op)
           (dict_get d (op_priority op) 0 + xw_payload_bytes w * max 1 (int (length (xw_destination_ranks w)))) d
       | _ \<Rightarrow> d) (eg_operations g) [])"

subsection \<open>Event keys\<close>

type_synonym event_identity = "string \<times> string option \<times> event_phase \<times> resource_ref option \<times> int \<times> int option"

definition event_key :: "completion_event \<Rightarrow> event_identity" where
  "event_key e = (ce_operation_id e, ce_subject_object_id e, ce_phase e, ce_resource e, ce_timestamp_ps e, ce_completed_bytes e)"

definition phase_rows :: "int \<Rightarrow> int \<Rightarrow> int \<Rightarrow> int \<Rightarrow> int \<Rightarrow> (event_phase \<times> int \<times> int option) list" where
  "phase_rows submitted eligible started finished bytes =
     [(SUBMITTED, submitted, None), (QUEUED, eligible, None), (STARTED, started, None), (PROGRESS, finished, Some bytes)]"

definition visit_keys :: "queue_visit \<Rightarrow> event_identity list" where
  "visit_keys v =
     (if qv_subject_object_id v \<noteq> None then []
      else map (\<lambda>(phase, t, b). (qv_operation_id v, None, phase, Some (qv_resource v), t, b))
        (phase_rows (qv_submitted_at_ps v) (qv_eligible_at_ps v) (qv_started_at_ps v) (qv_finished_at_ps v) (qv_service_bytes v)))"

definition visit_event_keys :: "runtime_report \<Rightarrow> event_identity multiset" where
  "visit_event_keys r = mset (concat (map visit_keys (rp_visits r)))"

definition network_eligible :: "wqe_projection \<Rightarrow> int" where
  "network_eligible w = (case wp_network_eligible_at_ps w of None \<Rightarrow> wp_eligible_at_ps w | Some t \<Rightarrow> t)"

definition network_started :: "wqe_projection \<Rightarrow> int" where
  "network_started w = (case wp_network_started_at_ps w of None \<Rightarrow> wp_started_at_ps w | Some t \<Rightarrow> t)"

definition network_finished :: "wqe_projection \<Rightarrow> int" where
  "network_finished w = (case wp_network_finished_at_ps w of None \<Rightarrow> wp_finished_at_ps w | Some t \<Rightarrow> t)"

definition wqe_keys :: "wqe_projection \<Rightarrow> event_identity list" where
  "wqe_keys w =
     (let key = (\<lambda>phase kind name t b. (wp_operation_id w, Some (wp_wqe_id w), phase, Some \<lparr>rr_kind = kind, rr_resource_id = name\<rparr>, t, b));
          finish = key COMPLETED COMPLETION_QUEUE (wp_cq_id w) (wp_completed_at_ps w) (Some (wp_payload_bytes w))
      in case wp_ingress w of
           Some (ready, _) \<Rightarrow>
             map (\<lambda>(phase, t, b). key phase NIC_SEND_QUEUE (wp_sq_id w) t b)
               (phase_rows (wp_submitted_at_ps w) (wp_eligible_at_ps w) ready ready 0)
             @ map (\<lambda>(phase, t, b). key phase NIC_RECEIVE_QUEUE (wp_rq_id w) t b)
               (phase_rows (wp_submitted_at_ps w) ready (wp_started_at_ps w) (wp_finished_at_ps w) (wp_payload_bytes w))
             @ [finish]
         | None \<Rightarrow>
             [key SUBMITTED NIC_SEND_QUEUE (wp_sq_id w) (wp_submitted_at_ps w) None,
              key QUEUED NIC (wp_rnic_id w) (network_eligible w) None,
              key STARTED NIC (wp_rnic_id w) (network_started w) None,
              key PROGRESS NIC (wp_rnic_id w) (network_finished w) (Some (wp_payload_bytes w)), finish])"

definition wqe_event_keys :: "runtime_report \<Rightarrow> event_identity multiset" where
  "wqe_event_keys r = mset (concat (map wqe_keys (rp_wqes r)))"

subsection \<open>Receiver ingress\<close>

definition ingress_visits :: "wqe_projection \<Rightarrow> queue_visit list" where
  "ingress_visits w =
     (let visit = (\<lambda>kind name eligible started finished completed bytes stage.
            \<lparr>qv_execution_id = wp_execution_id w, qv_operation_id = wp_operation_id w,
             qv_resource = \<lparr>rr_kind = kind, rr_resource_id = name\<rparr>, qv_submitted_at_ps = wp_submitted_at_ps w,
             qv_eligible_at_ps = eligible, qv_started_at_ps = started, qv_finished_at_ps = finished,
             qv_completed_at_ps = completed, qv_service_bytes = bytes, qv_subject_object_id = Some (wp_wqe_id w),
             qv_stage = Some stage\<rparr>)
      in case wp_ingress w of
           None \<Rightarrow> []
         | Some (ready, _) \<Rightarrow>
             [visit NIC_SEND_QUEUE (wp_sq_id w) (wp_eligible_at_ps w) ready ready ready 0 ''coarse_source_admission'',
              visit NIC_RECEIVE_QUEUE (wp_rq_id w) ready (wp_started_at_ps w) (wp_finished_at_ps w) (wp_completed_at_ps w)
                (wp_payload_bytes w) ''coarse_receiver_service''])"

definition check_receiver_visits :: "runtime_report \<Rightarrow> authority_error option" where
  "check_receiver_visits r =
     (let ingress = filter (\<lambda>w. wp_ingress w \<noteq> None) (rp_wqes r); ids = map wp_wqe_id ingress in
      first_err
        [guard (distinct ids) DuplicateIngress,
         guard (mset (filter (\<lambda>v. (\<exists>k \<in> set ids. qv_subject_object_id v = Some k) \<or>
                  qv_stage v \<in> {Some ''coarse_source_admission'', Some ''coarse_receiver_service''}) (rp_visits r))
                = mset (concat (map ingress_visits ingress))) IngressVisits])"

subsection \<open>Logical completions\<close>

definition logical_events :: "execution_result \<Rightarrow> string \<Rightarrow> completion_event list" where
  "logical_events x k = filter (\<lambda>e. ce_subject_object_id e = None \<and> ce_phase e = COMPLETED \<and> ce_operation_id e = k) (er_events x)"

definition completion_key :: "execution_result \<Rightarrow> runtime_report \<Rightarrow> execution_operation \<Rightarrow> authority_error + event_identity" where
  "completion_key x r op =
     (case find (\<lambda>q. ro_operation_id q = op_operation_id op) (rev (rp_operations r)) of
        None \<Rightarrow> Inl NoRuntimeRecord
      | Some q \<Rightarrow>
          (case logical_events x (op_operation_id op) of
             [e] \<Rightarrow>
               rcheck (first_err
                 [guard (ce_timestamp_ps e = ro_completed_at_ps q) CompletionTime,
                  guard (ce_completed_bytes e = work_completed_bytes (op_work op)) CompletionBytes,
                  guard (\<exists>v \<in> set (rp_visits r). qv_operation_id v = op_operation_id op \<and>
                    qv_completed_at_ps v = ro_completed_at_ps q \<and> ce_resource e = Some (qv_resource v)) CompletionResource])
                 (Inr (event_key e))
           | _ \<Rightarrow> Inl CompletionCount))"

definition check_completion_event_projection :: "execution_graph \<Rightarrow> execution_result \<Rightarrow> runtime_report \<Rightarrow> authority_error option" where
  "check_completion_event_projection g x r =
     first_err
       [guard (list_all (\<lambda>w. wp_execution_id w = eg_execution_id g) (rp_wqes r)) WqeExecution,
        check_receiver_visits r,
        guard (set (List.map_filter qv_subject_object_id (rp_visits r)) = set (map wp_wqe_id (rp_wqes r))) SubjectSets,
        guard (rp_class_service_bytes r = class_service_bytes g) ClassBytes,
        (case collect (completion_key x r) (eg_operations g) of
           Inl e \<Rightarrow> Some e
         | Inr keys \<Rightarrow>
             guard (visit_event_keys r + wqe_event_keys r + mset keys = mset (map event_key (er_events x))) StreamDifference)]"

subsection \<open>The bookkeeper\<close>

definition ledger_wqes :: "bookkeeping_ledger \<Rightarrow> string \<Rightarrow> created_object_record list" where
  "ledger_wqes l execution =
     filter (\<lambda>f. cr_kind (co_ref f) = NETWORK_WQE \<and> bs_execution_id (co_scope f) = Some execution) (created_facts l)"

definition wqe_metadata :: "wqe_projection \<Rightarrow> (string \<times> config_scalar) list" where
  "wqe_metadata w =
     [(''bytes'', CInt (wp_payload_bytes w)), (''goal_tag'', CInt (wp_goal_tag w)), (''source_rank'', CInt (wp_source_rank w)),
      (''destination_rank'', CInt (wp_destination_rank w)), (''extent_index'', CInt (wp_extent_index w)),
      (''sq_post_sequence'', CInt (wp_sq_post_sequence w)), (''cq_post_sequence'', CInt (wp_cq_post_sequence w)),
      (''channel'', CStr (wp_channel_id w)), (''graph_operation_id'', CStr (wp_operation_id w)),
      (''authority'', CStr (wp_authority w))]"

definition check_ledger_wqe :: "wqe_projection \<Rightarrow> (string, created_object_record) dict \<Rightarrow> authority_error + (string, created_object_record) dict" where
  "check_ledger_wqe w objects =
     (case map_of objects (wp_wqe_id w) of
        None \<Rightarrow> Inl LedgerLostWqe
      | Some f \<Rightarrow>
          rcheck (first_err
            [guard (co_created_at_ps f = wp_submitted_at_ps w) LedgerWqeTime,
             guard (co_native_id f = Some (wp_native_wqe_id w)) LedgerWqeNative,
             guard (list_all (\<lambda>(name, owned). map_of (rev (co_metadata f)) name = Some owned) (wqe_metadata w)) LedgerWqeMetadata])
            (Inr (AList.delete (wp_wqe_id w) objects)))"

definition ledger_events :: "bookkeeping_ledger \<Rightarrow> string \<Rightarrow> completion_event list" where
  "ledger_events l execution =
     filter (\<lambda>e. ce_execution_id e = execution) (List.map_filter (\<lambda>x. case en_fact x of EventFact e \<Rightarrow> Some e | _ \<Rightarrow> None) l)"

definition completion_stages :: "bookkeeping_ledger \<Rightarrow> string \<Rightarrow> stage_record list" where
  "completion_stages l execution =
     filter (\<lambda>s. sg_stage s = COMPLETION_STAGE \<and> sg_phase s = STAGE_COMPLETED \<and> bs_execution_id (sg_scope s) = Some execution)
       (List.map_filter (\<lambda>x. case en_fact x of StageFact s \<Rightarrow> Some s | _ \<Rightarrow> None) l)"

definition check_bookkeeping_projection :: "bookkeeping_ledger \<Rightarrow> execution_graph \<Rightarrow> execution_result \<Rightarrow> runtime_report \<Rightarrow> authority_error option" where
  "check_bookkeeping_projection l g x r =
     (let facts = ledger_wqes l (eg_execution_id g); objects = map (\<lambda>f. (cr_object_id (co_ref f), f)) facts in
      if \<not> distinct (map fst objects) then Some LedgerDuplicateWqe
      else case rfold check_ledger_wqe (rp_wqes r) objects of
        Inl e \<Rightarrow> Some e
      | Inr rest \<Rightarrow>
          first_err
            [guard (rest = []) LedgerExtraWqe,
             guard (mset (map event_key (ledger_events l (eg_execution_id g))) = mset (map event_key (er_events x))) LedgerEvents,
             (case completion_stages l (eg_execution_id g) of
                [s] \<Rightarrow> guard (sg_timestamp_ps s = er_completed_at_ps x) LedgerStageTime
              | _ \<Rightarrow> Some LedgerStages)])"

end
