(* ===== verification/Runtime_Report.thy ===== *)
theory Runtime_Report
  imports Authority
begin

text \<open>
  The evidence of an execution (\<open>simllm/core/runtime.py\<close>): completion events, critical-path breakdowns and
  attributions of every participant's segment, and the report.  The loop that walks the predecessors
  of a critical segment is shared with the completion reducer.
\<close>

subsection \<open>Completion events\<close>

definition event_of :: "execution_graph \<Rightarrow> string \<Rightarrow> resource_ref \<Rightarrow> string option \<Rightarrow> event_phase \<times> int \<times> int option \<Rightarrow> completion_event" where
  "event_of g k res subj = (\<lambda>(phase, t, b).
     \<lparr>ce_execution_id = eg_execution_id g, ce_operation_id = k, ce_phase = phase, ce_timestamp_ps = t, ce_resource = Some res,
      ce_completed_bytes = b, ce_subject_object_id = subj\<rparr>)"

definition phase_events :: "execution_graph \<Rightarrow> string \<Rightarrow> string option \<Rightarrow> queue_visit \<Rightarrow> completion_event list" where
  "phase_events g k subj v =
     map (event_of g k (qv_resource v) subj)
       (phase_rows (qv_submitted_at_ps v) (qv_eligible_at_ps v) (qv_started_at_ps v) (qv_finished_at_ps v) (qv_service_bytes v))"

definition visit_events :: "execution_graph \<Rightarrow> string \<Rightarrow> queue_visit list \<Rightarrow> completion_event list" where
  "visit_events g k vs = concat (map (phase_events g k None) (filter (\<lambda>v. qv_subject_object_id v = None) vs))"

definition wqe_events :: "execution_graph \<Rightarrow> wqe_projection \<Rightarrow> runtime_error + completion_event list" where
  "wqe_events g w =
     (let k = wp_operation_id w; subj = Some (wp_wqe_id w);
          nic = \<lparr>rr_kind = NIC, rr_resource_id = wp_rnic_id w\<rparr>;
          finish = event_of g k \<lparr>rr_kind = COMPLETION_QUEUE, rr_resource_id = wp_cq_id w\<rparr> subj
            (COMPLETED, wp_completed_at_ps w, Some (wp_payload_bytes w))
      in case wp_ingress w of
           Some _ \<Rightarrow> rbind (native_wqe_visits w) (\<lambda>vs. Inr (concat (map (phase_events g k subj) vs) @ [finish]))
         | None \<Rightarrow>
             Inr [event_of g k \<lparr>rr_kind = NIC_SEND_QUEUE, rr_resource_id = wp_sq_id w\<rparr> subj (SUBMITTED, wp_submitted_at_ps w, None),
                  event_of g k nic subj (QUEUED, network_eligible w, None),
                  event_of g k nic subj (STARTED, network_started w, None),
                  event_of g k nic subj (PROGRESS, network_finished w, Some (wp_payload_bytes w)), finish])"

definition logical_path :: "scheduled_operation \<Rightarrow> runtime_error + queue_visit list" where
  "logical_path x = rbind (logical_path_index (so_logical_paths x)) (\<lambda>i. Inr (so_logical_paths x ! i))"

definition logical_event :: "execution_graph \<Rightarrow> (string, scheduled_operation) dict \<Rightarrow> execution_operation \<Rightarrow> runtime_error + completion_event" where
  "logical_event g scheduled op =
     rbind (entry_at scheduled (op_operation_id op)) (\<lambda>x.
     rbind (logical_path x) (\<lambda>path.
       Inr (event_of g (op_operation_id op) (qv_resource (last path)) None
              (COMPLETED, so_logical_completed_at_ps x, work_completed_bytes (op_work op)))))"

definition completion_events :: "execution_graph \<Rightarrow> (string, scheduled_operation) dict \<Rightarrow> wqe_projection list \<Rightarrow> runtime_error + completion_event list" where
  "completion_events g scheduled wqes =
     rbind (collect (\<lambda>op. rbind (entry_at scheduled (op_operation_id op)) (\<lambda>x. Inr (visit_events g (op_operation_id op) (so_visits x))))
              (eg_operations g)) (\<lambda>visits.
     rbind (collect (wqe_events g) wqes) (\<lambda>lifecycles.
     rbind (collect (logical_event g scheduled) (eg_operations g)) (\<lambda>completions.
       Inr (sort_key ce_timestamp_ps (concat visits @ concat lifecycles @ completions)))))"

subsection \<open>Critical-path breakdown\<close>

definition clipped :: "int \<Rightarrow> int \<Rightarrow> int \<Rightarrow> int" where
  "clipped cursor from until = max 0 (until - max from cursor)"

definition breakdown_visit :: "queue_visit \<Rightarrow> int \<times> int \<times> int \<times> int \<Rightarrow> int \<times> int \<times> int \<times> int" where
  "breakdown_visit v = (\<lambda>(cursor, queue, service, delivery).
     (max cursor (qv_completed_at_ps v), queue + clipped cursor (qv_eligible_at_ps v) (qv_started_at_ps v),
      service + clipped cursor (qv_started_at_ps v) (qv_finished_at_ps v),
      delivery + clipped cursor (qv_finished_at_ps v) (qv_completed_at_ps v)))"

definition critical_path_breakdown_of :: "queue_visit list \<Rightarrow> int \<Rightarrow> int \<Rightarrow> runtime_error + critical_path_breakdown" where
  "critical_path_breakdown_of path start completed =
     (case path of
        [] \<Rightarrow> Inl EmptyPath
      | launch # rest \<Rightarrow>
          (let (cursor, wait, service, visibility) = breakdown_visit launch (start, 0, 0, 0);
               launch_queue = wait + service + visibility;
               (_, device_queue, device_service, delivery) = fold breakdown_visit rest (cursor, 0, 0, 0);
               latency = completed - start;
               external = latency - (launch_queue + device_queue + device_service + delivery);
               b = \<lparr>cb_launch_queue_ps = launch_queue, cb_device_queue_ps = device_queue, cb_service_ps = device_service,
                    cb_completion_delivery_ps = delivery, cb_external_dependency_ps = external, cb_operation_latency_ps = latency,
                    cb_critical_path_queue_ps = wait + device_queue\<rparr>
           in if external < 0 then Inl OverlappingVisits else rec_check (check_breakdown b) (Inr b)))"

subsection \<open>Attribution\<close>

datatype attribution_field = QUEUE_PS | KV_PS | KERNEL_PS | DMA_PS | COLLECTIVE_PS | NIC_PS | CONTROL_PS

fun attribution_field_of :: "work_payload \<Rightarrow> resource_kind \<Rightarrow> runtime_error + attribution_field" where
  "attribution_field_of w HOST_LAUNCH_QUEUE = Inr CONTROL_PS"
| "attribution_field_of w CONTROL_QUEUE = Inr CONTROL_PS"
| "attribution_field_of w CUDA_STREAM = Inr CONTROL_PS"
| "attribution_field_of w GPU_WORK_QUEUE = Inr KERNEL_PS"
| "attribution_field_of w GPU_SCHEDULER = Inr KERNEL_PS"
| "attribution_field_of w HBM_QUEUE =
     (case w of KvCacheWork _ \<Rightarrow> Inr KV_PS | DmaWork _ \<Rightarrow> Inr DMA_PS | ComputeWork _ \<Rightarrow> Inr KERNEL_PS | _ \<Rightarrow> Inl NoAttributionOwner)"
| "attribution_field_of w COPY_ENGINE = Inr DMA_PS"
| "attribution_field_of w NCCL_CHANNEL = Inr COLLECTIVE_PS"
| "attribution_field_of w NVLINK = Inr COLLECTIVE_PS"
| "attribution_field_of w NIC_SEND_QUEUE = Inr NIC_PS"
| "attribution_field_of w NIC_RECEIVE_QUEUE = Inr NIC_PS"
| "attribution_field_of w NIC = Inr NIC_PS"
| "attribution_field_of w COMPLETION_QUEUE = Inr NIC_PS"

fun charge :: "attribution_field \<Rightarrow> int \<Rightarrow> latency_attribution \<Rightarrow> latency_attribution" where
  "charge QUEUE_PS t a = a\<lparr>la_queue_ps := la_queue_ps a + t\<rparr>"
| "charge KV_PS t a = a\<lparr>la_kv_ps := la_kv_ps a + t\<rparr>"
| "charge KERNEL_PS t a = a\<lparr>la_kernel_ps := la_kernel_ps a + t\<rparr>"
| "charge DMA_PS t a = a\<lparr>la_dma_ps := la_dma_ps a + t\<rparr>"
| "charge COLLECTIVE_PS t a = a\<lparr>la_collective_ps := la_collective_ps a + t\<rparr>"
| "charge NIC_PS t a = a\<lparr>la_nic_ps := la_nic_ps a + t\<rparr>"
| "charge CONTROL_PS t a = a\<lparr>la_control_ps := la_control_ps a + t\<rparr>"

definition attribute_visit :: "work_payload \<Rightarrow> queue_visit \<Rightarrow> int \<times> latency_attribution \<Rightarrow> runtime_error + int \<times> latency_attribution" where
  "attribute_visit w v = (\<lambda>(cursor, a).
     let a' = charge QUEUE_PS (clipped cursor (qv_eligible_at_ps v) (qv_started_at_ps v))
                (charge QUEUE_PS (max 0 (qv_eligible_at_ps v - cursor)) a)
     in rbind (attribution_field_of w (rr_kind (qv_resource v))) (\<lambda>f.
          Inr (max cursor (qv_completed_at_ps v),
               charge f (clipped cursor (qv_finished_at_ps v) (qv_completed_at_ps v))
                 (charge f (clipped cursor (qv_started_at_ps v) (qv_finished_at_ps v)) a'))))"

definition critical_path_attribution :: "work_payload \<Rightarrow> queue_visit list \<Rightarrow> int \<Rightarrow> int \<Rightarrow> runtime_error + latency_attribution" where
  "critical_path_attribution w path start completed =
     rbind (rfold (attribute_visit w) path (start, zero_attribution)) (\<lambda>(cursor, a).
       let a' = charge QUEUE_PS (max 0 (completed - cursor)) a
       in rcheck (map_option (\<lambda>_. RecordError RtNegative) (check_attribution a')) (Inr a'))"

subsection \<open>Segments and records\<close>

type_synonym segments = "(string \<times> int, critical_segment) dict"

definition participant_segment :: "execution_graph \<Rightarrow> execution_operation \<Rightarrow> scheduled_operation \<Rightarrow> int \<Rightarrow> segments \<times> critical_segment list
    \<Rightarrow> runtime_error + segments \<times> critical_segment list" where
  "participant_segment g op x rank = (\<lambda>(segs, cs).
     rbind (entry_at (so_participant_paths x) rank) (\<lambda>path.
     rbind (entry_at (so_participant_causal_witnesses x) rank) (\<lambda>w.
     rbind (entry_at (so_participant_completed_at_ps x) rank) (\<lambda>completed.
       let started = (case w of None \<Rightarrow> eg_released_at_ps g | Some q \<Rightarrow> cx_completed_at_ps q) in
       rbind (critical_path_breakdown_of path started completed) (\<lambda>b.
       rbind (critical_path_attribution (op_work op) path started completed) (\<lambda>a.
         let s = \<lparr>cs_operation_id = op_operation_id op, cs_participant_rank = rank, cs_started_at_ps = started,
                  cs_completed_at_ps = completed, cs_predecessor_operation_id = map_option cx_predecessor_id w,
                  cs_predecessor_participant_rank = map_option cx_participant_rank w, cs_breakdown = b, cs_attribution = a\<rparr>
         in rec_check (check_segment s)
              (if map_of segs (op_operation_id op, rank) \<noteq> None then Inl DuplicateSegment
               else Inr (AList.update (op_operation_id op, rank) s segs, cs @ [s]))))))))"

definition additive_predecessor :: "(string, scheduled_operation) dict \<Rightarrow> scheduled_operation \<Rightarrow> runtime_error + string option" where
  "additive_predecessor scheduled x =
     (case (so_critical_predecessor_id x, so_critical_predecessor_completed_at_ps x) of
        (None, None) \<Rightarrow> Inr None
      | (None, Some _) \<Rightarrow> Inl BoundaryWithoutPredecessor
      | (Some _, None) \<Rightarrow> Inl MissingBoundary
      | (Some k, Some t) \<Rightarrow>
          rbind (entry_at scheduled k) (\<lambda>pre. Inr (if t = so_logical_completed_at_ps pre then Some k else None)))"

definition operation_record :: "execution_graph \<Rightarrow> (string, scheduled_operation) dict \<Rightarrow> execution_operation
    \<Rightarrow> segments \<times> runtime_operation_record list \<times> queue_visit list \<Rightarrow> runtime_error + segments \<times> runtime_operation_record list \<times> queue_visit list" where
  "operation_record g scheduled op = (\<lambda>(segs, records, visits).
     rbind (entry_at scheduled (op_operation_id op)) (\<lambda>x.
       let ranks = sort (map fst (so_participant_completed_at_ps x)) in
       if set (map fst (so_participant_paths x)) \<noteq> set ranks then Inl PathRanks
       else if set (map fst (so_participant_causal_witnesses x)) \<noteq> set ranks then Inl WitnessKeyRanks
       else rbind (rfold (participant_segment g op x) ranks (segs, [])) (\<lambda>(segs', cs).
         rbind (logical_path x) (\<lambda>path.
         rbind (additive_predecessor scheduled x) (\<lambda>additive.
           let start = (if additive \<noteq> None then the (so_critical_predecessor_completed_at_ps x) else eg_released_at_ps g) in
           rbind (critical_path_breakdown_of path start (so_logical_completed_at_ps x)) (\<lambda>b.
           rbind (critical_path_attribution (op_work op) path start (so_logical_completed_at_ps x)) (\<lambda>a.
             if attribution_total_ps a \<noteq> cb_operation_latency_ps b then Inl AttributionTotal
             else Inr (segs',
               records @ [\<lparr>ro_operation_id = op_operation_id op, ro_class_label = op_priority op, ro_submitted_at_ps = eg_released_at_ps g,
                 ro_eligible_at_ps = so_eligible_at_ps x, ro_completed_at_ps = so_logical_completed_at_ps x,
                 ro_physical_completed_at_ps = so_physical_completed_at_ps x,
                 ro_participant_completed_at_ps = sort_key fst (so_participant_completed_at_ps x), ro_critical_segments = cs,
                 ro_breakdown = b, ro_attribution = a, ro_causal_predecessor_id = so_critical_predecessor_id x,
                 ro_causal_predecessor_completed_at_ps = so_critical_predecessor_completed_at_ps x,
                 ro_critical_predecessor_id = additive, ro_sum_visit_wait_ps = sum_list (map queue_wait_ps (so_visits x))\<rparr>],
               visits @ so_visits x))))))))"

text \<open>Every segment starts at the release of the graph or where its predecessor segment ends.\<close>

definition segment_link :: "int \<Rightarrow> segments \<Rightarrow> critical_segment \<Rightarrow> runtime_error option" where
  "segment_link released segs s =
     (case (cs_predecessor_operation_id s, cs_predecessor_participant_rank s) of
        (Some k, Some r) \<Rightarrow>
          (case map_of segs (k, r) of
             None \<Rightarrow> Some UnknownPredecessor
           | Some pre \<Rightarrow> guard (cs_started_at_ps s = cs_completed_at_ps pre) PredecessorTime)
      | _ \<Rightarrow> guard (cs_started_at_ps s = released) RootSegmentStart)"

subsection \<open>Chains\<close>

definition predecessor_key :: "critical_segment \<Rightarrow> (string \<times> int) option" where
  "predecessor_key s =
     (case (cs_predecessor_operation_id s, cs_predecessor_participant_rank s) of (Some k, Some r) \<Rightarrow> Some (k, r) | _ \<Rightarrow> None)"

datatype chain_error = CycleInChain | MissingSegment

function follow_chain :: "segments \<Rightarrow> (string \<times> int) list \<Rightarrow> (string \<times> int) option \<Rightarrow> chain_error + (string \<times> int) list" where
  "follow_chain segs seen current =
     (case current of
        None \<Rightarrow> Inr []
      | Some key \<Rightarrow>
          if key \<in> set seen then Inl CycleInChain
          else case map_of segs key of
            None \<Rightarrow> Inl MissingSegment
          | Some s \<Rightarrow> rbind (follow_chain segs (key # seen) (predecessor_key s)) (\<lambda>rest. Inr (key # rest)))"
  by pat_completeness auto
termination
proof (relation "measure (\<lambda>(segs, seen, current). card (fst ` set segs - set seen))")
  fix segs :: segments and seen current key s
  assume "current = Some key" "key \<notin> set seen" "map_of segs key = Some s"
  then have "key \<in> fst ` set segs" by (metis domI dom_map_of_conv_image_fst)
  then have "fst ` set segs - set (key # seen) \<subset> fst ` set segs - set seen"
    using \<open>key \<notin> set seen\<close> by auto
  then have "card (fst ` set segs - set (key # seen)) < card (fst ` set segs - set seen)"
    by (intro psubset_card_mono) auto
  then show "((segs, key # seen, predecessor_key s), segs, seen, current) \<in> measure (\<lambda>(segs, seen, current). card (fst ` set segs - set seen))"
    by simp
qed simp

declare follow_chain.simps [simp del]

definition endpoint_segment :: "runtime_operation_record \<Rightarrow> critical_segment option" where
  "endpoint_segment r =
     (case filter (\<lambda>s. cs_completed_at_ps s = ro_completed_at_ps r) (ro_critical_segments r) of
        [] \<Rightarrow> None
      | s # ss \<Rightarrow> Some (first_max cs_participant_rank s ss))"

definition required_ids :: "execution_graph \<Rightarrow> string list" where
  "required_ids g = (if eg_completion_operation_ids g \<noteq> [] then eg_completion_operation_ids g else map op_operation_id (eg_operations g))"

definition operation_position :: "execution_graph \<Rightarrow> string \<Rightarrow> int" where
  "operation_position g k = dict_get (map (\<lambda>(i, op). (op_operation_id op, int i)) (enumerate 0 (eg_operations g))) k (-1)"

definition realized_chain :: "execution_graph \<Rightarrow> (string, scheduled_operation) dict \<Rightarrow> runtime_operation_record list \<Rightarrow> segments
    \<Rightarrow> runtime_error + (string \<times> int) list" where
  "realized_chain g scheduled records segs =
     (case required_ids g of
        [] \<Rightarrow> Inr []
      | k # ks \<Rightarrow>
          rbind (collect (\<lambda>k. rbind (entry_at scheduled k) (\<lambda>x. Inr (so_logical_completed_at_ps x, operation_position g k, k))) (k # ks)) (\<lambda>keys.
            let (_, _, endpoint) = first_max (\<lambda>(t, i, _). (t, i)) (hd keys) (tl keys) in
            rbind (entry_at (map (\<lambda>r. (ro_operation_id r, r)) records) endpoint) (\<lambda>r.
              case endpoint_segment r of
                None \<Rightarrow> Inl NoSuchKey
              | Some s \<Rightarrow>
                  (case follow_chain segs [] (Some (cs_operation_id s, cs_participant_rank s)) of
                     Inl CycleInChain \<Rightarrow> Inl ChainCycle
                   | Inl MissingSegment \<Rightarrow> Inl NoSuchKey
                   | Inr chain \<Rightarrow> Inr (rev chain)))))"

definition chain_sum :: "(critical_path_breakdown \<Rightarrow> int) \<Rightarrow> segments \<Rightarrow> (string \<times> int) list \<Rightarrow> int" where
  "chain_sum f segs chain = sum_list (map (\<lambda>key. case map_of segs key of None \<Rightarrow> 0 | Some s \<Rightarrow> f (cs_breakdown s)) chain)"

definition chain_conserves :: "int \<Rightarrow> segments \<Rightarrow> (string \<times> int) list \<Rightarrow> bool" where
  "chain_conserves released segs chain =
     (chain = [] \<or> (case map_of segs (last chain) of None \<Rightarrow> False
        | Some s \<Rightarrow> chain_sum cb_operation_latency_ps segs chain = cs_completed_at_ps s - released))"

definition build_report :: "execution_graph \<Rightarrow> (string, scheduled_operation) dict \<Rightarrow> wqe_projection list \<Rightarrow> string \<Rightarrow> int
    \<Rightarrow> runtime_error + runtime_report" where
  "build_report g scheduled wqes authority draws =
     rbind (rfold (operation_record g scheduled) (eg_operations g) ([], [], [])) (\<lambda>(segs, records, visits).
     rcheck (first_err (map (\<lambda>(_, s). segment_link (eg_released_at_ps g) segs s) segs))
      (rbind (realized_chain g scheduled records segs) (\<lambda>chain.
         if \<not> chain_conserves (eg_released_at_ps g) segs chain then Inl ChainTotal
         else Inr
           \<lparr>rp_execution_id = eg_execution_id g, rp_authority = authority, rp_operations = records, rp_visits = visits, rp_wqes = wqes,
            rp_sum_visit_wait_ps = sum_list (map queue_wait_ps visits),
            rp_critical_path_queue_ps = chain_sum cb_critical_path_queue_ps segs chain,
            rp_realized_operation_ids = map fst chain, rp_realized_segments = chain,
            rp_class_service_bytes = class_service_bytes g, rp_random_draw_count = draws\<rparr>)))"

end
