(* ===== verification/Wire.thy ===== *)
theory Wire
  imports Graph "HOL-Library.Log_Nat"
begin

text \<open>
  The strict JSON readers of \<open>simllm/core/_wire.py\<close>, shared by the versioned wire contracts: an object
  has exactly the fields its schema names, a string is not blank, an integer is not negative, an
  enumeration value is one of its members.  A JSON object keeps its keys in order and has no
  duplicates.
\<close>

datatype wire_error = WireType | WireBlank | WireNegative | WireMissing | WireUnknown | WireSchema | WireEnum
  | WireLength | WireScalar | WireNonFinite | WireKind

definition wire_object :: "json \<Rightarrow> wire_error + (string \<times> json) list" where
  "wire_object j = (case j of JObject kvs \<Rightarrow> Inr kvs | _ \<Rightarrow> Inl WireType)"

definition wire_fields :: "string list \<Rightarrow> string list \<Rightarrow> (string \<times> json) list \<Rightarrow> wire_error option" where
  "wire_fields required opt kvs =
     first_err [guard (set required \<subseteq> set (map fst kvs)) WireMissing,
       guard (set (map fst kvs) \<subseteq> set required \<union> set opt) WireUnknown]"

definition wire_array :: "json \<Rightarrow> wire_error + json list" where
  "wire_array j = (case j of JArray xs \<Rightarrow> Inr xs | _ \<Rightarrow> Inl WireType)"

definition wire_string :: "json \<Rightarrow> wire_error + string" where
  "wire_string j = (case j of JStr s \<Rightarrow> if nonblank s then Inr s else Inl WireBlank | _ \<Rightarrow> Inl WireType)"

definition wire_nonneg :: "json \<Rightarrow> wire_error + int" where
  "wire_nonneg j = (case j of JInt n \<Rightarrow> if 0 \<le> n then Inr n else Inl WireNegative | _ \<Rightarrow> Inl WireType)"

definition wire_opt :: "(json \<Rightarrow> wire_error + 'a) \<Rightarrow> json \<Rightarrow> wire_error + 'a option" where
  "wire_opt f j = (if j = JNull then Inr None else rbind (f j) (\<lambda>a. Inr (Some a)))"

definition wire_int :: "json \<Rightarrow> wire_error + int" where
  "wire_int j = (case j of JInt n \<Rightarrow> Inr n | _ \<Rightarrow> Inl WireType)"

definition wire_positive :: "json \<Rightarrow> wire_error + int" where
  "wire_positive j = (case j of JInt n \<Rightarrow> if 1 \<le> n then Inr n else Inl WireNegative | _ \<Rightarrow> Inl WireType)"

definition wire_list :: "(json \<Rightarrow> wire_error + 'a) \<Rightarrow> json \<Rightarrow> wire_error + 'a list" where
  "wire_list f j = rbind (wire_array j) (collect f)"

text \<open>
  \<open>float(n)\<close> of an integer: exact up to 53 significant bits, otherwise rounded to the nearest, ties to even;
  from \<open>2 ** 1024\<close> on it raises \<open>OverflowError\<close> (\<open>None\<close>).
\<close>

definition float_of_int :: "int \<Rightarrow> rat option" where
  "float_of_int n =
     (let m = \<bar>n\<bar>; e = nat (bitlen m - 53); q = m div 2 ^ e; r = 2 * (m mod 2 ^ e);
          q' = (if r > 2 ^ e \<or> (r = 2 ^ e \<and> odd q) then q + 1 else q); v = q' * 2 ^ e
      in if v < 2 ^ 1024 then Some (of_int (sgn n * v)) else None)"

definition wire_number :: "json \<Rightarrow> wire_error + rat" where
  "wire_number j =
     (case j of
        JInt n \<Rightarrow>
          (case float_of_int n of None \<Rightarrow> Inl WireNonFinite | Some f \<Rightarrow> if 0 \<le> f then Inr f else Inl WireNegative)
      | JFloat f \<Rightarrow> if 0 \<le> f then Inr f else Inl WireNegative
      | JNonFinite \<Rightarrow> Inl WireNonFinite
      | _ \<Rightarrow> Inl WireType)"

definition wire_scalar :: "json \<Rightarrow> wire_error + config_scalar" where
  "wire_scalar j =
     (case j of JBool b \<Rightarrow> Inr (CBool b) | JInt n \<Rightarrow> Inr (CInt n) | JStr s \<Rightarrow> Inr (CStr s) | JFloat f \<Rightarrow> Inr (CFloat f)
      | _ \<Rightarrow> Inl WireScalar)"

definition wire_pair :: "(json \<Rightarrow> wire_error + 'a) \<Rightarrow> (json \<Rightarrow> wire_error + 'b) \<Rightarrow> json \<Rightarrow> wire_error + 'a \<times> 'b" where
  "wire_pair f g j =
     rbind (wire_array j) (\<lambda>xs. case xs of [a, b] \<Rightarrow> rbind (f a) (\<lambda>x. rbind (g b) (\<lambda>y. Inr (x, y))) | _ \<Rightarrow> Inl WireLength)"

text \<open>An enumeration is the list of its values with their members.\<close>

definition wire_enum :: "(string \<times> 'a) list \<Rightarrow> json \<Rightarrow> wire_error + 'a" where
  "wire_enum members j = rbind (wire_string j) (\<lambda>s. case map_of members s of None \<Rightarrow> Inl WireEnum | Some a \<Rightarrow> Inr a)"

definition wire_schema :: "string \<Rightarrow> (string \<times> json) list \<Rightarrow> wire_error option" where
  "wire_schema expected kvs =
     (case map_of kvs ''schema'' of
        None \<Rightarrow> Some WireMissing
      | Some j \<Rightarrow> (case wire_string j of Inl e \<Rightarrow> Some e | Inr s \<Rightarrow> guard (s = expected) WireSchema))"

definition wire_item :: "(json \<Rightarrow> wire_error + 'a) \<Rightarrow> (string \<times> json) list \<Rightarrow> string \<Rightarrow> wire_error + 'a" where
  "wire_item f kvs k = (case map_of kvs k of None \<Rightarrow> Inl WireMissing | Some j \<Rightarrow> f j)"

definition wire_get :: "(json \<Rightarrow> wire_error + 'a) \<Rightarrow> (string \<times> json) list \<Rightarrow> string \<Rightarrow> json \<Rightarrow> wire_error + 'a" where
  "wire_get f kvs k d = f (get_item kvs k d)"

text \<open>An object with the given fields.\<close>

definition wire_record :: "string list \<Rightarrow> string list \<Rightarrow> json \<Rightarrow> wire_error + (string \<times> json) list" where
  "wire_record required opt j =
     rbind (wire_object j) (\<lambda>kvs. case wire_fields required opt kvs of Some e \<Rightarrow> Inl e | None \<Rightarrow> Inr kvs)"

lemmas wire_simps = wire_object_def wire_fields_def wire_array_def wire_item_def wire_schema_def get_item_def
  opt_int_def opt_str_def

lemma wire_string_JStr: "nonblank s \<Longrightarrow> wire_string (JStr s) = Inr s"
  by (simp add: wire_string_def)

lemma wire_nonneg_JInt: "0 \<le> n \<Longrightarrow> wire_nonneg (JInt n) = Inr n"
  by (simp add: wire_nonneg_def)

lemma wire_opt_int: "w_opt w_nonneg ob = None \<Longrightarrow> wire_opt wire_nonneg (opt_int ob) = Inr ob"
  by (cases ob) (auto simp: wire_opt_def opt_int_def w_opt_def w_nonneg_def wire_nonneg_JInt)

lemma wire_opt_str: "w_opt w_string ob = None \<Longrightarrow> wire_opt wire_string (opt_str ob) = Inr ob"
  by (cases ob) (auto simp: wire_opt_def opt_str_def w_opt_def w_string_def wire_string_JStr)

lemma wire_positive_JInt: "1 \<le> n \<Longrightarrow> wire_positive (JInt n) = Inr n"
  by (simp add: wire_positive_def)

lemma wire_int_JInt [simp]: "wire_int (JInt n) = Inr n"
  by (simp add: wire_int_def)

lemma wire_list_map: "(\<And>x. x \<in> set xs \<Longrightarrow> f (g x) = Inr x) \<Longrightarrow> wire_list f (JArray (map g xs)) = Inr xs"
  using collect_map [of xs f g id] by (simp add: wire_list_def wire_array_def)

lemma wire_strings: "(\<And>s. s \<in> set ss \<Longrightarrow> nonblank s) \<Longrightarrow> wire_list wire_string (JArray (map JStr ss)) = Inr ss"
  by (rule wire_list_map) (simp add: wire_string_JStr)

lemma wire_ints: "(\<And>n. n \<in> set ns \<Longrightarrow> 0 \<le> n) \<Longrightarrow> wire_list wire_nonneg (JArray (map JInt ns)) = Inr ns"
  by (rule wire_list_map) (simp add: wire_nonneg_JInt)

lemma wire_pair_array: "f a = Inr x \<Longrightarrow> g b = Inr y \<Longrightarrow> wire_pair f g (JArray [a, b]) = Inr (x, y)"
  by (simp add: wire_pair_def wire_array_def)

lemma wire_record_ok:
  "set required \<subseteq> fst ` set kvs \<Longrightarrow> fst ` set kvs \<subseteq> set required \<union> set opt \<Longrightarrow> wire_record required opt (JObject kvs) = Inr kvs"
  by (simp add: wire_record_def wire_object_def wire_fields_def guard_def)

end
