(* ===== verification/Result_Json.thy ===== *)
theory Result_Json
  imports Wire
begin

text \<open>
  Completion events and execution results on the wire (\<open>simllm/core/execution_io.py\<close>): their checks, the
  writer, the strict reader and the round trip.
\<close>

datatype result_error =
    RWire graph_error | RJson wire_error | REventExecution | REventOrder | RQuiescence | REventBound

definition wire_event :: "completion_event \<Rightarrow> graph_error option" where
  "wire_event e =
     first_err
       [w_string (ce_execution_id e), w_string (ce_operation_id e), w_nonneg (ce_timestamp_ps e),
        w_opt (\<lambda>r. w_string (rr_resource_id r)) (ce_resource e), w_opt w_nonneg (ce_completed_bytes e),
        w_opt w_string (ce_subject_object_id e)]"

fun result_events :: "string \<Rightarrow> int \<Rightarrow> completion_event list \<Rightarrow> result_error option" where
  "result_events execution previous [] = None"
| "result_events execution previous (e # es) =
     first_err
       [map_option RWire (wire_event e), guard (ce_execution_id e = execution) REventExecution,
        guard (previous \<le> ce_timestamp_ps e) REventOrder, result_events execution (ce_timestamp_ps e) es]"

definition event_bound :: "execution_result \<Rightarrow> int" where
  "event_bound x = (case er_quiesced_at_ps x of None \<Rightarrow> er_completed_at_ps x | Some q \<Rightarrow> q)"

definition validate_execution_result :: "execution_result \<Rightarrow> result_error option" where
  "validate_execution_result x =
     first_err
       [map_option RWire (w_string (er_execution_id x)), map_option RWire (w_nonneg (er_completed_at_ps x)),
        result_events (er_execution_id x) (-1) (er_events x),
        (case er_quiesced_at_ps x of None \<Rightarrow> None
         | Some q \<Rightarrow> first_err [map_option RWire (w_nonneg q), guard (er_completed_at_ps x \<le> q) RQuiescence]),
        guard (er_events x = [] \<or> ce_timestamp_ps (last (er_events x)) \<le> event_bound x) REventBound]"

subsection \<open>Writing\<close>

definition resource_kinds :: "(string \<times> resource_kind) list" where
  "resource_kinds =
     [(''host-launch-queue'', HOST_LAUNCH_QUEUE), (''cuda-stream'', CUDA_STREAM), (''gpu-work-queue'', GPU_WORK_QUEUE),
      (''gpu-scheduler'', GPU_SCHEDULER), (''hbm-queue'', HBM_QUEUE), (''copy-engine'', COPY_ENGINE), (''nvlink'', NVLINK),
      (''nccl-channel'', NCCL_CHANNEL), (''nic-send-queue'', NIC_SEND_QUEUE), (''nic-receive-queue'', NIC_RECEIVE_QUEUE),
      (''nic'', NIC), (''completion-queue'', COMPLETION_QUEUE), (''control-queue'', CONTROL_QUEUE)]"

definition event_phases :: "(string \<times> event_phase) list" where
  "event_phases =
     [(''submitted'', SUBMITTED), (''queued'', QUEUED), (''started'', STARTED), (''progress'', PROGRESS), (''completed'', COMPLETED)]"

text \<open>\<open>member.value\<close>: the text of a member of an enumeration.\<close>

definition enum_text :: "(string \<times> 'a) list \<Rightarrow> 'a \<Rightarrow> string" where
  "enum_text members a = (case find (\<lambda>(s, b). b = a) members of None \<Rightarrow> [] | Some (s, _) \<Rightarrow> s)"

definition completion_event_schema :: string where
  "completion_event_schema = ''simllm-completion-event-v1''"

definition execution_result_schema :: string where
  "execution_result_schema = ''simllm-execution-result-v1''"

definition completion_event_to_json :: "completion_event \<Rightarrow> result_error + json" where
  "completion_event_to_json e =
     (case wire_event e of
        Some x \<Rightarrow> Inl (RWire x)
      | None \<Rightarrow>
          Inr (JObject [(''schema'', JStr completion_event_schema), (''execution_id'', JStr (ce_execution_id e)),
            (''operation_id'', JStr (ce_operation_id e)), (''phase'', JStr (enum_text event_phases (ce_phase e))),
            (''timestamp_ps'', JInt (ce_timestamp_ps e)),
            (''resource'', (case ce_resource e of None \<Rightarrow> JNull
               | Some r \<Rightarrow> JObject [(''kind'', JStr (enum_text resource_kinds (rr_kind r))), (''resource_id'', JStr (rr_resource_id r))])),
            (''completed_bytes'', opt_int (ce_completed_bytes e)), (''subject_object_id'', opt_str (ce_subject_object_id e))]))"

definition execution_result_to_json :: "execution_result \<Rightarrow> result_error + json" where
  "execution_result_to_json x =
     (case validate_execution_result x of
        Some e \<Rightarrow> Inl e
      | None \<Rightarrow>
          rbind (collect completion_event_to_json (er_events x)) (\<lambda>events.
            Inr (JObject [(''schema'', JStr execution_result_schema), (''execution_id'', JStr (er_execution_id x)),
              (''completed_at_ps'', JInt (er_completed_at_ps x)), (''events'', JArray events),
              (''quiesced_at_ps'', opt_int (er_quiesced_at_ps x))])))"

subsection \<open>Reading\<close>

definition resource_from_json :: "json \<Rightarrow> wire_error + resource_ref" where
  "resource_from_json j =
     rbind (wire_object j) (\<lambda>kvs.
       case wire_fields [''kind'', ''resource_id''] [] kvs of Some e \<Rightarrow> Inl e | None \<Rightarrow>
       rbind (wire_item (wire_enum resource_kinds) kvs ''kind'') (\<lambda>kind.
       rbind (wire_item wire_string kvs ''resource_id'') (\<lambda>name. Inr \<lparr>rr_kind = kind, rr_resource_id = name\<rparr>)))"

definition event_fields_from_json :: "json \<Rightarrow> wire_error + completion_event" where
  "event_fields_from_json j =
     rbind (wire_object j) (\<lambda>kvs.
       case first_err [wire_schema completion_event_schema kvs,
         wire_fields [''schema'', ''execution_id'', ''operation_id'', ''phase'', ''timestamp_ps'']
           [''resource'', ''completed_bytes'', ''subject_object_id''] kvs] of Some e \<Rightarrow> Inl e | None \<Rightarrow>
       rbind (wire_opt resource_from_json (get_item kvs ''resource'' JNull)) (\<lambda>res.
       rbind (wire_item wire_string kvs ''execution_id'') (\<lambda>execution.
       rbind (wire_item wire_string kvs ''operation_id'') (\<lambda>operation.
       rbind (wire_item (wire_enum event_phases) kvs ''phase'') (\<lambda>phase.
       rbind (wire_item wire_nonneg kvs ''timestamp_ps'') (\<lambda>timestamp.
       rbind (wire_opt wire_nonneg (get_item kvs ''completed_bytes'' JNull)) (\<lambda>bytes.
       rbind (wire_opt wire_string (get_item kvs ''subject_object_id'' JNull)) (\<lambda>subj.
         Inr \<lparr>ce_execution_id = execution, ce_operation_id = operation, ce_phase = phase, ce_timestamp_ps = timestamp,
              ce_resource = res, ce_completed_bytes = bytes, ce_subject_object_id = subj\<rparr>))))))))"

definition json_err :: "wire_error + 'a \<Rightarrow> result_error + 'a" where
  "json_err r = (case r of Inl e \<Rightarrow> Inl (RJson e) | Inr a \<Rightarrow> Inr a)"

definition completion_event_from_json :: "json \<Rightarrow> result_error + completion_event" where
  "completion_event_from_json j =
     rbind (json_err (event_fields_from_json j)) (\<lambda>e. case wire_event e of Some x \<Rightarrow> Inl (RWire x) | None \<Rightarrow> Inr e)"

definition execution_result_from_json :: "json \<Rightarrow> result_error + execution_result" where
  "execution_result_from_json j =
     rbind (json_err (wire_object j)) (\<lambda>kvs.
       case first_err [wire_schema execution_result_schema kvs,
         wire_fields [''schema'', ''execution_id'', ''completed_at_ps''] [''events'', ''quiesced_at_ps''] kvs] of
         Some e \<Rightarrow> Inl (RJson e)
       | None \<Rightarrow>
       rbind (json_err (wire_array (get_item kvs ''events'' (JArray [])))) (\<lambda>entries.
       rbind (collect completion_event_from_json entries) (\<lambda>events.
       rbind (json_err (wire_item wire_string kvs ''execution_id'')) (\<lambda>execution.
       rbind (json_err (wire_item wire_nonneg kvs ''completed_at_ps'')) (\<lambda>completed.
       rbind (json_err (wire_opt wire_nonneg (get_item kvs ''quiesced_at_ps'' JNull))) (\<lambda>quiesced.
         let x = \<lparr>er_execution_id = execution, er_completed_at_ps = completed, er_events = events, er_quiesced_at_ps = quiesced\<rparr>
         in case validate_execution_result x of Some e \<Rightarrow> Inl e | None \<Rightarrow> Inr x))))))"

subsection \<open>Round trip\<close>

lemma map_option_None [simp]: "map_option f c = None \<longleftrightarrow> c = None"
  by (cases c) auto

lemma result_events_iff:
  "result_events k t es = None \<longleftrightarrow>
     (\<forall>e \<in> set es. wire_event e = None \<and> ce_execution_id e = k) \<and> sorted (t # map ce_timestamp_ps es)"
proof (induction es arbitrary: t)
  case (Cons e es)
  then show ?case by (simp del: sorted_wrt.simps add: sorted2) blast
qed simp

lemma json_err_Inr [simp]: "json_err (Inr a) = Inr a"
  by (simp add: json_err_def)

lemma phase_enum: "wire_enum event_phases (JStr (enum_text event_phases p)) = Inr p"
  by (cases p) (simp_all add: wire_enum_def enum_text_def event_phases_def wire_string_def nonblank_def py_isspace_def)

lemma kind_enum: "wire_enum resource_kinds (JStr (enum_text resource_kinds k)) = Inr k"
  by (cases k) (simp_all add: wire_enum_def enum_text_def resource_kinds_def wire_string_def nonblank_def py_isspace_def)

lemma resource_roundtrip:
  "nonblank (rr_resource_id r) \<Longrightarrow>
   resource_from_json (JObject [(''kind'', JStr (enum_text resource_kinds (rr_kind r))), (''resource_id'', JStr (rr_resource_id r))]) = Inr r"
  by (simp add: resource_from_json_def wire_simps kind_enum wire_string_JStr guard_def)

lemma event_roundtrip:
  assumes "completion_event_to_json e = Inr j" shows "completion_event_from_json j = Inr e"
proof -
  have w: "wire_event e = None" using assms by (simp add: completion_event_to_json_def split: option.splits)
  have f: "nonblank (ce_execution_id e)" "nonblank (ce_operation_id e)" "0 \<le> ce_timestamp_ps e"
    "w_opt (\<lambda>r. w_string (rr_resource_id r)) (ce_resource e) = None" "w_opt w_nonneg (ce_completed_bytes e) = None"
    "w_opt w_string (ce_subject_object_id e) = None"
    using w by (simp_all add: wire_event_def w_string_def w_nonneg_def)
  have r: "wire_opt resource_from_json (case ce_resource e of None \<Rightarrow> JNull
      | Some r \<Rightarrow> JObject [(''kind'', JStr (enum_text resource_kinds (rr_kind r))), (''resource_id'', JStr (rr_resource_id r))])
    = Inr (ce_resource e)"
    using f(4) by (cases "ce_resource e") (auto simp: wire_opt_def w_opt_def w_string_def resource_roundtrip)
  have s: "wire_string (JStr completion_event_schema) = Inr completion_event_schema"
    by (simp add: wire_string_def completion_event_schema_def nonblank_def py_isspace_def)
  have "event_fields_from_json j = Inr e"
    using assms w by (simp add: completion_event_to_json_def)
      (auto simp: event_fields_from_json_def wire_object_def wire_fields_def wire_schema_def wire_item_def get_item_def guard_def
        s r phase_enum wire_string_JStr wire_nonneg_JInt wire_opt_int wire_opt_str f)
  then show ?thesis using w by (simp add: completion_event_from_json_def)
qed

lemma collect_roundtrip:
  assumes "\<And>x j. f x = Inr j \<Longrightarrow> g j = Inr x" shows "collect f xs = Inr js \<Longrightarrow> collect g js = Inr xs"
  by (induction xs arbitrary: js) (auto simp: rbind_Inr_iff assms)

lemma events_written: "(\<And>e. e \<in> set es \<Longrightarrow> wire_event e = None) \<Longrightarrow> \<exists>js. collect completion_event_to_json es = Inr js"
  by (induction es) (auto simp: completion_event_to_json_def)

text \<open>
  C38. A result that satisfies the contract is written, and reading the JSON form back returns exactly
  the result: events, resources and optional fields included.
\<close>

theorem execution_result_roundtrip:
  assumes "validate_execution_result x = None"
  shows "rbind (execution_result_to_json x) execution_result_from_json = Inr x"
proof -
  have f: "nonblank (er_execution_id x)" "0 \<le> er_completed_at_ps x" "w_opt w_nonneg (er_quiesced_at_ps x) = None"
    "\<forall>e \<in> set (er_events x). wire_event e = None"
    using assms by (auto simp: validate_execution_result_def w_string_def w_nonneg_def w_opt_def result_events_iff split: option.splits)
  then obtain js where js: "collect completion_event_to_json (er_events x) = Inr js" using events_written by blast
  have es: "collect completion_event_from_json js = Inr (er_events x)"
    by (rule collect_roundtrip [OF _ js]) (rule event_roundtrip)
  have s: "wire_string (JStr execution_result_schema) = Inr execution_result_schema"
    by (simp add: wire_string_def execution_result_schema_def nonblank_def py_isspace_def)
  have eta: "\<lparr>er_execution_id = er_execution_id x, er_completed_at_ps = er_completed_at_ps x, er_events = er_events x,
    er_quiesced_at_ps = er_quiesced_at_ps x\<rparr> = x" by (cases x) simp
  show ?thesis
    by (simp add: execution_result_to_json_def assms js)
      (simp add: execution_result_from_json_def wire_object_def wire_fields_def wire_schema_def wire_item_def wire_array_def get_item_def
        guard_def s es wire_string_JStr wire_nonneg_JInt wire_opt_int f assms Let_def eta)
qed

definition result_demo :: execution_result where
  "result_demo =
     \<lparr>er_execution_id = ''e'', er_completed_at_ps = 9,
      er_events = [\<lparr>ce_execution_id = ''e'', ce_operation_id = ''a'', ce_phase = STARTED, ce_timestamp_ps = 4,
          ce_resource = Some \<lparr>rr_kind = NIC, rr_resource_id = ''n''\<rparr>, ce_completed_bytes = None, ce_subject_object_id = Some ''w''\<rparr>,
        \<lparr>ce_execution_id = ''e'', ce_operation_id = ''a'', ce_phase = COMPLETED, ce_timestamp_ps = 9, ce_resource = None,
          ce_completed_bytes = Some 0, ce_subject_object_id = None\<rparr>],
      er_quiesced_at_ps = Some 12\<rparr>"

theorem execution_result_roundtrip_witness:
  "validate_execution_result result_demo = None \<and> rbind (execution_result_to_json result_demo) execution_result_from_json = Inr result_demo"
proof -
  have "validate_execution_result result_demo = None" by code_simp
  then show ?thesis using execution_result_roundtrip by blast
qed

end
