(* ===== verification/Runtime_Execute.thy ===== *)
theory Runtime_Execute
  imports Runtime_Report Result_Json Registration
begin

text \<open>
  \<open>CoarseDeviceRuntime.execute\<close> (\<open>simllm/core/runtime.py\<close>): preflight, the scheduling loop, the result
  and report, the staged bookkeeping, and the commit.  Everything happens on copies; an exception
  leaves the runtime as it was, except for the arbitration policy, which keeps what it was asked.
\<close>

subsection \<open>Preflight\<close>

definition async_local_edge :: "execution_operation \<Rightarrow> effective_dependency_edge \<Rightarrow> bool" where
  "async_local_edge op e =
     (ed_scope e = PARTICIPANT_LOCAL \<and> ed_participant_rank e \<noteq> Some (op_rank op) \<and>
      (case op_work op of ControlWork w \<Rightarrow> xw_mode w = ASYNCHRONOUS | _ \<Rightarrow> False))"

definition preflight_ranks :: "device_profile \<Rightarrow> int list \<Rightarrow> runtime_error option" where
  "preflight_ranks p ranks = first_err (map (\<lambda>r. case node_gpu p r of Inl e \<Rightarrow> Some (RecordError e) | Inr _ \<Rightarrow> None) ranks)"

definition preflight_collective :: "device_profile \<Rightarrow> collective_plan option \<Rightarrow> collective_work \<Rightarrow> runtime_error option" where
  "preflight_collective p plan w =
     first_err
       [preflight_ranks p (lw_ranks w),
        (case plan of
           Some q \<Rightarrow> preflight_ranks p (concat (map (\<lambda>e. [pe_source_rank e, pe_destination_rank e]) (cp_extents q)))
         | None \<Rightarrow>
             if ring_work w then
               first_err [guard (int (length (lw_ranks w)) \<le> lw_payload_bytes w) RingTooFewBytes,
                 guard (lw_payload_bytes w mod int (length (lw_ranks w)) = 0) RingRemainder]
             else None),
        guard (\<not> (plan = None \<and> lw_collective w = ''all-to-allv'' \<and> lw_payload_bytes w = 0 \<and> lw_pair_payload_bytes w = [])) NoPairPayload]"

definition plan_of :: "execution_graph \<Rightarrow> string \<Rightarrow> collective_plan option" where
  "plan_of g k = map_of (map (\<lambda>q. (cp_operation_id q, q)) (eg_collective_plans g)) k"

definition preflight_operation :: "'k runtime_config \<Rightarrow> bool \<Rightarrow> execution_graph \<Rightarrow> execution_operation \<Rightarrow> runtime_error option" where
  "preflight_operation cfg pools g op =
     (let p = rc_profile cfg; rank = op_rank op in
      first_err
        [preflight_ranks p [rank],
         (case op_work op of
            ComputeWork w \<Rightarrow>
              first_err [map_option ComputeError (require_executable w),
                (if map_of (rc_kernel_services cfg) rank \<noteq> None
                 then (case kernel_launch cfg op w of Inl e \<Rightarrow> Some e | Inr _ \<Rightarrow> None)
                 else guard (cw_nominal_duration_ps w \<noteq> None) NoDuration)]
          | DmaWork w \<Rightarrow>
              (case dma_direction w rank of
                 Inl e \<Rightarrow> Some e
               | Inr direction \<Rightarrow>
                   (case dma_endpoints w rank of
                      Inl e \<Rightarrow> Some e
                    | Inr (s, d) \<Rightarrow>
                        first_err [preflight_ranks p (List.map_filter id [s, d]),
                          guard (copy_candidates p direction \<noteq> []) NoCopyEngine]))
          | CollectiveWork w \<Rightarrow> preflight_collective p (plan_of g (op_operation_id op)) w
          | ControlWork w \<Rightarrow>
              first_err [guard (int (length (xw_destination_ranks w)) \<le> control_goal_tag_stride) WideControl,
                preflight_ranks p (xw_destination_ranks w)]
          | KvCacheWork w \<Rightarrow>
              guard (pools \<or> kw_action w \<notin> {READ, WRITE} \<or> kw_byte_count w \<le> 0) NoKvPool)])"

definition preflight :: "(json \<Rightarrow> string) \<Rightarrow> 'k runtime_config \<Rightarrow> kv_ledger option \<Rightarrow> execution_graph \<Rightarrow> runtime_error + kv_pending option" where
  "preflight digest cfg kv g =
     rbind (case collective_goal_tags digest (pf_goal_base_tag (rc_profile cfg)) g of Inl e \<Rightarrow> Inl (PlanError e) | Inr t \<Rightarrow> Inr t) (\<lambda>_.
     rbind (case effective_dependency_edges digest g of Inl e \<Rightarrow> Inl (GraphError e) | Inr es \<Rightarrow> Inr es) (\<lambda>edges.
     rbind (collect (\<lambda>e. rbind (entry_at (operation_by_id (eg_operations g)) (ed_operation_id e)) (\<lambda>op.
              rcheck (guard (\<not> async_local_edge op e) AsyncLocalReadiness) (Inr ()))) edges) (\<lambda>_.
     rcheck (first_err (map (preflight_operation cfg (kv \<noteq> None) g) (eg_operations g)))
       (case kv of
          None \<Rightarrow> Inr None
        | Some l \<Rightarrow> (case account_kv l (pf_hbm_rate_bps (rc_profile cfg)) g of Inl e \<Rightarrow> Inl (KvError e) | Inr q \<Rightarrow> Inr (Some q))))))"

subsection \<open>The scheduling loop\<close>

record 'w loop_state =
  ls_scheduled :: "(string, scheduled_operation) dict"
  ls_unscheduled :: "string list"
  ls_wqes :: "wqe_projection list"
  ls_machine :: "'w machine"

definition store_outcome :: "string \<times> scheduled_operation \<Rightarrow> 'w loop_state \<Rightarrow> runtime_error + 'w loop_state" where
  "store_outcome = (\<lambda>(k, x) s.
     if k \<notin> set (ls_unscheduled s) then Inl NoSuchKey
     else Inr (s\<lparr>ls_scheduled := AList.update k x (ls_scheduled s), ls_unscheduled := removeAll k (ls_unscheduled s)\<rparr>))"

record 'k launch_context =
  lx_config :: "'k runtime_config"
  lx_graph :: execution_graph
  lx_edges :: "effective_dependency_edge list"
  lx_launches :: "(string, queue_visit) dict"
  lx_pending :: "kv_pending option"
  lx_tags :: "(string, int list) dict"

definition schedule_selected :: "'k launch_context \<Rightarrow> 'w wqe_ops \<Rightarrow> 'p policy_select \<Rightarrow> 'p \<Rightarrow> (string, ready_operation) dict \<Rightarrow> execution_operation
    \<Rightarrow> 'w loop_state \<Rightarrow> 'p \<times> (runtime_error + 'w loop_state)" where
  "schedule_selected cx A select pol ready op s =
     (let cfg = lx_config cx; g = lx_graph cx; m = ls_machine s; by_id = operation_by_id (eg_operations g) in
      case compute_of op of
        Some w \<Rightarrow>
          (case compute_group cfg select pol g op w ready (mc_state m) of
             (pol', Inl e) \<Rightarrow> (pol', Inl e)
           | (pol', Inr ids) \<Rightarrow>
               (pol',
                rbind (collect (\<lambda>k. rbind (entry_at by_id k) (\<lambda>x. case compute_of x of None \<Rightarrow> Inl NoSuchKey | Some w \<Rightarrow> Inr (x, w))) ids) (\<lambda>ops.
                rbind (schedule_compute_group cfg g ops ready (lx_launches cx) (mc_state m)) (\<lambda>(outcomes, st).
                  rfold store_outcome outcomes (s\<lparr>ls_machine := m\<lparr>mc_state := st\<rparr>\<rparr>)))))
      | None \<Rightarrow>
          (pol,
           rbind (entry_at ready (op_operation_id op)) (\<lambda>r.
           rbind (entry_at (lx_launches cx) (op_operation_id op)) (\<lambda>launch.
           rbind (schedule_noncompute cfg A g (lx_pending cx) (lx_tags cx) op r launch (nat (operation_position g (op_operation_id op))) m) (\<lambda>(x, m').
             store_outcome (op_operation_id op, x) (s\<lparr>ls_wqes := ls_wqes s @ so_wqes x, ls_machine := m'\<rparr>))))))"

definition schedule_step :: "'k launch_context \<Rightarrow> 'w wqe_ops \<Rightarrow> 'p policy_select \<Rightarrow> 'p \<Rightarrow> 'w loop_state \<Rightarrow> 'p \<times> (runtime_error + 'w loop_state)" where
  "schedule_step cx A select pol s =
     (let g = lx_graph cx in
      case ready_operations (lx_edges cx) (lx_launches cx) (ls_scheduled s) (ls_unscheduled s) (eg_operations g) of
        Inl e \<Rightarrow> (pol, Inl e)
      | Inr ready \<Rightarrow>
          if ready = [] then (pol, Inl NoProgress)
          else (case select_ready_operation select pol (tables_of g ready) (map fst ready) of
                  (pol', Inl e) \<Rightarrow> (pol', Inl (PolicyError e))
                | (pol', Inr k) \<Rightarrow>
                    (case map_of (operation_by_id (eg_operations g)) k of
                       None \<Rightarrow> (pol', Inl NoSuchKey)
                     | Some op \<Rightarrow> schedule_selected cx A select pol' ready op s)))"

lemma store_outcome_less:
  "store_outcome x s = Inr t \<Longrightarrow> length (ls_unscheduled t) < length (ls_unscheduled s)"
  by (auto simp: store_outcome_def split: prod.splits if_splits intro!: length_removeAll_less)

lemma store_outcomes_le: "rfold store_outcome xs s = Inr t \<Longrightarrow> length (ls_unscheduled t) \<le> length (ls_unscheduled s)"
proof (induction xs arbitrary: s)
  case (Cons x xs)
  then obtain u where "store_outcome x s = Inr u" "rfold store_outcome xs u = Inr t" by (auto simp: rbind_Inr_iff)
  then show ?case using Cons.IH [of u] store_outcome_less [of x s u] by simp
qed simp

lemma store_outcomes_less: "rfold store_outcome xs s = Inr t \<Longrightarrow> xs \<noteq> [] \<Longrightarrow> length (ls_unscheduled t) < length (ls_unscheduled s)"
  by (cases xs) (auto simp: rbind_Inr_iff dest!: store_outcome_less store_outcomes_le)

lemma collect_length: "collect f xs = Inr ys \<Longrightarrow> length ys = length xs"
  by (induction xs arbitrary: ys) (auto simp: rbind_Inr_iff)

lemma schedule_compute_group_nonempty:
  "schedule_compute_group cfg g ops ready launches st = Inr (outcomes, st') \<Longrightarrow> outcomes \<noteq> []"
  by (auto simp: schedule_compute_group_def Let_def rbind_Inr_iff split: list.splits if_splits dest!: collect_length)

lemma schedule_step_less:
  assumes "schedule_step cx A select pol s = (pol', Inr t)" shows "length (ls_unscheduled t) < length (ls_unscheduled s)"
proof -
  have sel: "length (ls_unscheduled t) < length (ls_unscheduled s)"
    if "schedule_selected cx A select q ready op s = (pol', Inr t)" for q ready op
  proof (cases "compute_of op")
    case None
    then show ?thesis using that
      by (auto simp: schedule_selected_def Let_def rbind_Inr_iff dest!: store_outcome_less)
  next
    case (Some w)
    then show ?thesis using that
      by (auto simp: schedule_selected_def Let_def rbind_Inr_iff split: prod.splits sum.splits
        dest!: schedule_compute_group_nonempty store_outcomes_less)
  qed
  then show ?thesis using assms
    by (auto simp: schedule_step_def Let_def split: sum.splits prod.splits if_splits option.splits)
qed

function schedule_loop :: "'k launch_context \<Rightarrow> 'w wqe_ops \<Rightarrow> 'p policy_select \<Rightarrow> 'p \<Rightarrow> 'w loop_state \<Rightarrow> 'p \<times> (runtime_error + 'w loop_state)" where
  "schedule_loop cx A select pol s =
     (if ls_unscheduled s = [] then (pol, Inr s)
      else case schedule_step cx A select pol s of
        (pol', Inl e) \<Rightarrow> (pol', Inl e)
      | (pol', Inr t) \<Rightarrow> schedule_loop cx A select pol' t)"
  by pat_completeness auto
termination
  by (relation "measure (\<lambda>(cx, A, select, pol, s). length (ls_unscheduled s))") (auto dest: sym intro: schedule_step_less)

declare schedule_loop.simps [simp del]

subsection \<open>Bookkeeping\<close>

definition empty_scope :: bookkeeping_scope where
  "empty_scope = \<lparr>bs_correlation = empty_correlation, bs_step_index = None, bs_execution_id = None, bs_operation_id = None\<rparr>"

definition operation_scope :: "execution_graph \<Rightarrow> execution_operation \<Rightarrow> bookkeeping_scope" where
  "operation_scope g op =
     \<lparr>bs_correlation = op_correlation op, bs_step_index = Some (eg_step_index g), bs_execution_id = Some (eg_execution_id g),
      bs_operation_id = Some (op_operation_id op)\<rparr>"

type_synonym object_additions = "(string, created_object_record) dict \<times> created_object_record list"

definition add_runtime_object :: "created_object_record \<Rightarrow> object_additions \<Rightarrow> runtime_error + object_additions" where
  "add_runtime_object f = (\<lambda>(existing, additions).
     case map_of existing (cr_object_id (co_ref f)) of
       Some prior \<Rightarrow>
         if co_ref prior \<noteq> co_ref f \<or> co_native_id prior \<noteq> co_native_id f then Inl ObjectConflict else Inr (existing, additions)
     | None \<Rightarrow> Inr (AList.update (cr_object_id (co_ref f)) f existing, additions @ [f]))"

definition command_object :: "execution_graph \<Rightarrow> execution_operation \<Rightarrow> collective_work \<Rightarrow> string \<Rightarrow> created_object_record" where
  "command_object g op w command =
     \<lparr>co_ref = \<lparr>cr_kind = NCCL_COMMAND, cr_object_id = command\<rparr>, co_owner = NCCL, co_created_at_ps = eg_released_at_ps g,
      co_scope = operation_scope g op, co_native_id = Some (op_operation_id op),
      co_parent_refs = [\<lparr>cr_kind = EXECUTION_OPERATION,
        cr_object_id = ''execution-operation:'' @ escape_id (eg_execution_id g) @ '':'' @ escape_id (op_operation_id op)\<rparr>],
      co_metadata = [(''channel'', CStr (channel_of w)), (''collective'', CStr (lw_collective w)),
        (''algorithm'', CStr (case lw_algorithm_hint w of None \<Rightarrow> ''unspecified'' | Some a \<Rightarrow> if a = [] then ''unspecified'' else a))]\<rparr>"

definition queue_object :: "execution_graph \<Rightarrow> wqe_projection \<Rightarrow> created_object_kind \<Rightarrow> string \<Rightarrow> string \<Rightarrow> created_object_record" where
  "queue_object g w kind k queue_kind =
     \<lparr>co_ref = \<lparr>cr_kind = kind, cr_object_id = k\<rparr>, co_owner = NETWORK_BACKEND, co_created_at_ps = eg_released_at_ps g,
      co_scope = empty_scope, co_native_id = Some k, co_parent_refs = [],
      co_metadata = [(''authority'', CStr (wp_authority w)), (''queue_kind'', CStr queue_kind)]\<rparr>"

definition wqe_queue_refs :: "wqe_projection \<Rightarrow> created_object_ref list" where
  "wqe_queue_refs w =
     [\<lparr>cr_kind = SEND_QUEUE, cr_object_id = wp_sq_id w\<rparr>, \<lparr>cr_kind = RECEIVE_QUEUE, cr_object_id = wp_rq_id w\<rparr>,
      \<lparr>cr_kind = OBJ_COMPLETION_QUEUE, cr_object_id = wp_cq_id w\<rparr>]"

definition qp_object :: "execution_graph \<Rightarrow> wqe_projection \<Rightarrow> created_object_record" where
  "qp_object g w =
     \<lparr>co_ref = \<lparr>cr_kind = DCQCN_QP, cr_object_id = wp_qp_id w\<rparr>, co_owner = NETWORK_BACKEND, co_created_at_ps = eg_released_at_ps g,
      co_scope = empty_scope, co_native_id = Some (wp_qp_id w), co_parent_refs = wqe_queue_refs w,
      co_metadata = [(''authority'', CStr (wp_authority w)), (''compatibility_qp'', CBool True)]\<rparr>"

definition wqe_object :: "execution_graph \<Rightarrow> execution_operation \<Rightarrow> wqe_projection \<Rightarrow> created_object_record" where
  "wqe_object g op w =
     \<lparr>co_ref = \<lparr>cr_kind = NETWORK_WQE, cr_object_id = wp_wqe_id w\<rparr>, co_owner = NETWORK_BACKEND, co_created_at_ps = wp_submitted_at_ps w,
      co_scope = operation_scope g op, co_native_id = Some (wp_native_wqe_id w),
      co_parent_refs = (case wp_nccl_command_id w of None \<Rightarrow> [] | Some c \<Rightarrow> [\<lparr>cr_kind = NCCL_COMMAND, cr_object_id = c\<rparr>])
        @ wqe_queue_refs w @ [\<lparr>cr_kind = DCQCN_QP, cr_object_id = wp_qp_id w\<rparr>],
      co_metadata = [(''authority'', CStr (wp_authority w)), (''bytes'', CInt (wp_payload_bytes w)), (''channel'', CStr (wp_channel_id w)),
        (''cq_post_sequence'', CInt (wp_cq_post_sequence w)), (''destination_rank'', CInt (wp_destination_rank w)),
        (''extent_index'', CInt (wp_extent_index w)), (''goal_tag'', CInt (wp_goal_tag w)),
        (''graph_operation_id'', CStr (wp_operation_id w)), (''source_rank'', CInt (wp_source_rank w)),
        (''sq_post_sequence'', CInt (wp_sq_post_sequence w)), (''transport_kind'', CStr ''compatibility-qp'')]\<rparr>"

definition operation_objects :: "execution_graph \<Rightarrow> (string, scheduled_operation) dict \<Rightarrow> execution_operation \<Rightarrow> object_additions
    \<Rightarrow> runtime_error + object_additions" where
  "operation_objects g scheduled op s =
     rbind (entry_at scheduled (op_operation_id op)) (\<lambda>x.
       case (so_nccl_command_id x, op_work op) of
         (None, _) \<Rightarrow> Inr s
       | (Some command, CollectiveWork w) \<Rightarrow> add_runtime_object (command_object g op w command) s
       | (Some _, _) \<Rightarrow> Inl NoSuchKey)"

definition wqe_objects :: "execution_graph \<Rightarrow> wqe_projection \<Rightarrow> object_additions \<Rightarrow> runtime_error + object_additions" where
  "wqe_objects g w s =
     rbind (entry_at (operation_by_id (eg_operations g)) (wp_operation_id w)) (\<lambda>op.
       rfold add_runtime_object
         [queue_object g w SEND_QUEUE (wp_sq_id w) ''sq'', queue_object g w RECEIVE_QUEUE (wp_rq_id w) ''rq'',
          queue_object g w OBJ_COMPLETION_QUEUE (wp_cq_id w) ''cq'', qp_object g w, wqe_object g op w] s)"

definition bookkeeping_objects :: "bookkeeping_ledger \<Rightarrow> execution_graph \<Rightarrow> (string, scheduled_operation) dict \<Rightarrow> wqe_projection list
    \<Rightarrow> runtime_error + created_object_record list" where
  "bookkeeping_objects l g scheduled wqes =
     (let existing = fold (\<lambda>f d. AList.update (cr_object_id (co_ref f)) f d) (created_facts l) [] in
      rbind (rfold (operation_objects g scheduled) (eg_operations g) (existing, [])) (\<lambda>s.
      rbind (rfold (wqe_objects g) wqes s) (\<lambda>(_, additions). Inr additions)))"

definition completion_boundary :: "execution_graph \<Rightarrow> (string, scheduled_operation) dict \<Rightarrow> string list \<Rightarrow> runtime_error + int" where
  "completion_boundary g scheduled ids =
     rbind (collect (\<lambda>k. rbind (entry_at scheduled k) (\<lambda>x. Inr (so_logical_completed_at_ps x))) ids) (\<lambda>ts.
       Inr (if ts = [] then eg_released_at_ps g else Max (set ts)))"

text \<open>The batches of \<open>_append_bookkeeping\<close>; each is atomic, an empty one is skipped.\<close>

definition append_batch :: "bookkeeping_fact list \<Rightarrow> request_bookkeeper \<Rightarrow> request_bookkeeper \<times> (runtime_error + unit)" where
  "append_batch facts b =
     (if facts = [] then (b, Inr ())
      else case Bookkeeping.extend b facts of (b', Inl e) \<Rightarrow> (b', Inl (LedgerError e)) | (b', Inr _) \<Rightarrow> (b', Inr ()))"

definition completion_stage :: "execution_graph \<Rightarrow> int \<Rightarrow> stage_record" where
  "completion_stage g t =
     \<lparr>sg_stage = COMPLETION_STAGE, sg_phase = STAGE_COMPLETED, sg_timestamp_ps = t,
      sg_scope = empty_scope\<lparr>bs_step_index := Some (eg_step_index g), bs_execution_id := Some (eg_execution_id g)\<rparr>, sg_object_refs = []\<rparr>"

definition append_bookkeeping :: "(json \<Rightarrow> string) \<Rightarrow> execution_graph \<Rightarrow> (string, scheduled_operation) dict \<Rightarrow> wqe_projection list \<Rightarrow> completion_event list
    \<Rightarrow> request_bookkeeper \<Rightarrow> request_bookkeeper \<times> (runtime_error + unit)" where
  "append_bookkeeping digest g scheduled wqes events b =
     (case register_graph digest b g of
        (b1, Inl (GraphRejected e)) \<Rightarrow> (b1, Inl (GraphError e))
      | (b1, Inl (LedgerRejected e)) \<Rightarrow> (b1, Inl (LedgerError e))
      | (b1, Inr _) \<Rightarrow>
          (case bookkeeping_objects (snapshot_ledger b1) g scheduled wqes of
             Inl e \<Rightarrow> (b1, Inl e)
           | Inr objects \<Rightarrow>
               (case append_batch (map CreatedFact objects) b1 of
                  (b2, Inl e) \<Rightarrow> (b2, Inl e)
                | (b2, Inr _) \<Rightarrow>
                    (case append_batch (map EventFact events) b2 of
                       (b3, Inl e) \<Rightarrow> (b3, Inl e)
                     | (b3, Inr _) \<Rightarrow>
                         (case completion_boundary g scheduled
                                 (if eg_completion_operation_ids g \<noteq> [] then eg_completion_operation_ids g else map fst scheduled) of
                            Inl e \<Rightarrow> (b3, Inl e)
                          | Inr t \<Rightarrow> append_batch [StageFact (completion_stage g t)] b3)))))"

definition validate_bookkeeping_append :: "(json \<Rightarrow> string) \<Rightarrow> execution_graph \<Rightarrow> (string, scheduled_operation) dict \<Rightarrow> wqe_projection list \<Rightarrow> completion_event list
    \<Rightarrow> execution_result \<Rightarrow> runtime_report \<Rightarrow> request_bookkeeper \<Rightarrow> runtime_error option" where
  "validate_bookkeeping_append digest g scheduled wqes events x r b =
     (case new_bookkeeper (snapshot_ledger b) of
        Inl e \<Rightarrow> Some (LedgerError e)
      | Inr staged \<Rightarrow>
          (case append_bookkeeping digest g scheduled wqes events staged of
             (_, Inl e) \<Rightarrow> Some e
           | (b', Inr _) \<Rightarrow> map_option (\<lambda>_. LedgerProjection) (check_bookkeeping_projection (snapshot_ledger b') g x r)))"

subsection \<open>Execution\<close>

record ('p, 'w) runtime =
  ru_policy :: 'p
  ru_state :: runtime_state
  ru_wqe :: 'w
  ru_kv_ledger :: "kv_ledger option"
  ru_last_report :: "runtime_report option"
  ru_last_kv_report :: "(kv_pool_accounting list \<times> kv_service_demand list) option"
  ru_selected_critical_visits :: "(string \<times> int, queue_visit list) dict"

definition new_runtime :: "'p \<Rightarrow> 'w \<Rightarrow> kv_ledger option \<Rightarrow> ('p, 'w) runtime" where
  "new_runtime policy wqe kv =
     \<lparr>ru_policy = policy, ru_state = new_runtime_state, ru_wqe = wqe, ru_kv_ledger = kv, ru_last_report = None,
      ru_last_kv_report = None, ru_selected_critical_visits = []\<rparr>"

text \<open>The part of \<open>execute\<close> that schedules: tags, edges, launches and the loop.\<close>

definition schedule_graph :: "(json \<Rightarrow> string) \<Rightarrow> 'k runtime_config \<Rightarrow> 'w wqe_ops \<Rightarrow> 'p policy_select \<Rightarrow> execution_graph \<Rightarrow> kv_pending option
    \<Rightarrow> ('p, 'w) runtime \<Rightarrow> 'p \<times> (runtime_error + 'w loop_state)" where
  "schedule_graph digest cfg A select g kvp r =
     (case collective_goal_tags digest (pf_goal_base_tag (rc_profile cfg)) g of
        Inl e \<Rightarrow> (ru_policy r, Inl (PlanError e))
      | Inr tags \<Rightarrow>
          (case effective_dependency_edges digest g of
             Inl e \<Rightarrow> (ru_policy r, Inl (GraphError e))
           | Inr edges \<Rightarrow>
               (case schedule_launches (rc_profile cfg) g (ru_state r) of
                  Inl e \<Rightarrow> (ru_policy r, Inl e)
                | Inr (launches, st) \<Rightarrow>
                    schedule_loop \<lparr>lx_config = cfg, lx_graph = g, lx_edges = edges, lx_launches = launches, lx_pending = kvp, lx_tags = tags\<rparr>
                      A select (ru_policy r)
                      \<lparr>ls_scheduled = [], ls_unscheduled = map op_operation_id (eg_operations g), ls_wqes = [],
                       ls_machine = \<lparr>mc_state = st, mc_wqe = ru_wqe r\<rparr>\<rparr>)))"

definition result_of :: "'k runtime_config \<Rightarrow> 'w wqe_ops \<Rightarrow> execution_graph \<Rightarrow> 'w loop_state \<Rightarrow> runtime_error + execution_result \<times> runtime_report" where
  "result_of cfg A g s =
     rbind (completion_boundary g (ls_scheduled s) (required_ids g)) (\<lambda>completed.
     rbind (completion_events g (ls_scheduled s) (ls_wqes s)) (\<lambda>events.
       let physical = map (\<lambda>(_, x). so_physical_completed_at_ps x) (ls_scheduled s);
           x = \<lparr>er_execution_id = eg_execution_id g, er_completed_at_ps = completed, er_events = events,
                er_quiesced_at_ps = Some (if physical = [] then eg_released_at_ps g else Max (set physical))\<rparr>
       in rcheck (map_option (\<lambda>_. ResultInvalid) (validate_execution_result x))
            (rbind (build_report g (ls_scheduled s) (ls_wqes s) (wo_name A) (wo_random_draws A (mc_wqe (ls_machine s)))) (\<lambda>r.
               rcheck (if rc_receiver_ingress cfg then map_option (\<lambda>_. EventProjection) (check_completion_event_projection g x r) else None)
                 (Inr (x, r))))))"

definition selected_visits :: "(string, scheduled_operation) dict \<Rightarrow> (string \<times> int, queue_visit list) dict" where
  "selected_visits scheduled = concat (map (\<lambda>(k, x). map (\<lambda>(rank, path). ((k, rank), path)) (so_participant_paths x)) scheduled)"

definition commit_runtime :: "execution_graph \<Rightarrow> kv_pending option \<Rightarrow> 'w loop_state \<Rightarrow> runtime_report \<Rightarrow> ('p, 'w) runtime \<Rightarrow> ('p, 'w) runtime" where
  "commit_runtime g kvp s report r =
     (let st = mc_state (ls_machine s) in
      r\<lparr>ru_state := st\<lparr>st_execution_ids := List.insert (eg_execution_id g) (st_execution_ids st)\<rparr>,
        ru_wqe := mc_wqe (ls_machine s),
        ru_kv_ledger := (case kvp of None \<Rightarrow> ru_kv_ledger r | Some q \<Rightarrow> Some (kp_ledger q)),
        ru_last_kv_report := (case kvp of None \<Rightarrow> ru_last_kv_report r | Some q \<Rightarrow> Some (kv_report (kp_ledger q), kp_demands q)),
        ru_last_report := Some report, ru_selected_critical_visits := selected_visits (ls_scheduled s)\<rparr>)"

definition execute :: "(json \<Rightarrow> string) \<Rightarrow> 'k runtime_config \<Rightarrow> 'w wqe_ops \<Rightarrow> 'p policy_select \<Rightarrow> execution_graph \<Rightarrow> request_bookkeeper option
    \<Rightarrow> ('p, 'w) runtime \<Rightarrow> (('p, 'w) runtime \<times> request_bookkeeper option) \<times> (runtime_error + execution_result)" where
  "execute digest cfg A select g bookkeeping r =
     (case validate_execution_graph digest g of Some e \<Rightarrow> ((r, bookkeeping), Inl (GraphError e)) | None \<Rightarrow>
     (case preflight digest cfg (ru_kv_ledger r) g of Inl e \<Rightarrow> ((r, bookkeeping), Inl e) | Inr kvp \<Rightarrow>
      if eg_execution_id g \<in> set (st_execution_ids (ru_state r)) then ((r, bookkeeping), Inl AlreadyExecuted)
      else
       (case schedule_graph digest cfg A select g kvp r of
          (pol, Inl e) \<Rightarrow> ((r\<lparr>ru_policy := pol\<rparr>, bookkeeping), Inl e)
        | (pol, Inr s) \<Rightarrow>
            (let r' = r\<lparr>ru_policy := pol\<rparr> in
             case result_of cfg A g s of
               Inl e \<Rightarrow> ((r', bookkeeping), Inl e)
             | Inr (x, report) \<Rightarrow>
                 (case (case bookkeeping of None \<Rightarrow> None
                        | Some b \<Rightarrow> validate_bookkeeping_append digest g (ls_scheduled s) (ls_wqes s) (er_events x) x report b) of
                    Some e \<Rightarrow> ((r', bookkeeping), Inl e)
                  | None \<Rightarrow>
                      (case wo_prepare A (mc_wqe (ls_machine s)) of
                         Some e \<Rightarrow> ((r', bookkeeping), Inl (RecordError e))
                       | None \<Rightarrow>
                           (case bookkeeping of
                              None \<Rightarrow> ((commit_runtime g kvp s report r', None), Inr x)
                            | Some b \<Rightarrow>
                                (case append_bookkeeping digest g (ls_scheduled s) (ls_wqes s) (er_events x) b of
                                   (b', Inl e) \<Rightarrow> ((r', Some b'), Inl e)
                                 | (b', Inr _) \<Rightarrow> ((commit_runtime g kvp s report r', Some b'), Inr x)))))))))"

end
