(* ===== verification/Runtime_Laws.thy ===== *)
theory Runtime_Laws
  imports Runtime_Execute Planner_Properties
begin

text \<open>
  What the parts of the device runtime promise each other.  \<open>oks r Q\<close> says that a fallible computation
  returns and that its value satisfies \<open>Q\<close>; its rewrite rules take a body apart the way weakest
  preconditions do.  The locale \<open>wqe_authority\<close> is the seam to the network authority; the bypass ledger
  implements it for every valid profile.
\<close>

subsection \<open>Computations that return\<close>

definition oks :: "'e + 'a \<Rightarrow> ('a \<Rightarrow> bool) \<Rightarrow> bool" where
  "oks r Q \<longleftrightarrow> (\<exists>a. r = Inr a \<and> Q a)"

lemma oks_simps [simp]: "oks (Inr a) Q = Q a" "\<not> oks (Inl e) Q"
  by (simp_all add: oks_def)

lemma oks_rbind [simp]: "oks (rbind r f) Q \<longleftrightarrow> oks r (\<lambda>a. oks (f a) Q)"
  by (auto simp: oks_def rbind_Inr_iff)

lemma oks_if [simp]: "oks (if b then r else s) Q \<longleftrightarrow> (if b then oks r Q else oks s Q)"
  by simp

lemma oks_case_prod [simp]: "oks (case x of (a, b) \<Rightarrow> f a b) Q \<longleftrightarrow> (case x of (a, b) \<Rightarrow> oks (f a b) Q)"
  by (cases x) simp

lemma oks_entry_at [simp]: "oks (entry_at d k) Q \<longleftrightarrow> (\<exists>v. map_of d k = Some v \<and> Q v)"
  by (auto simp: oks_def)

lemma oks_rcheck [simp]: "oks (rcheck c r) Q \<longleftrightarrow> c = None \<and> oks r Q"
  by (cases c) auto

lemma oks_rec_check [simp]: "oks (rec_check c r) Q \<longleftrightarrow> c = None \<and> oks r Q"
  by (cases c) (simp_all add: rec_check_def)

lemma oks_rec_err [simp]: "oks (rec_err r) Q \<longleftrightarrow> oks r Q"
  by (simp add: oks_def)

lemma oks_mono: "oks r P \<Longrightarrow> (\<And>a. P a \<Longrightarrow> Q a) \<Longrightarrow> oks r Q"
  by (auto simp: oks_def)

lemma oks_conj: "oks r P \<Longrightarrow> oks r Q \<Longrightarrow> oks r (\<lambda>a. P a \<and> Q a)"
  by (auto simp: oks_def)

lemma oks_rfold:
  assumes "I s" "\<And>x t. x \<in> set xs \<Longrightarrow> I t \<Longrightarrow> oks (f x t) I" shows "oks (rfold f xs s) I"
  using assms
proof (induction xs arbitrary: s)
  case (Cons x xs)
  have "oks (f x s) I" using Cons.prems by simp
  moreover have "oks (rfold f xs t) I" if "I t" for t using Cons that by simp
  ultimately show ?case by (simp add: oks_mono)
qed simp

lemma oks_collect:
  assumes "\<And>x. x \<in> set xs \<Longrightarrow> oks (f x) (P x)" shows "oks (collect f xs) (list_all2 P xs)"
  using assms
proof (induction xs)
  case (Cons x xs)
  have "oks (f x) (P x)" "oks (collect f xs) (list_all2 P xs)" using Cons by simp_all
  then show ?case by (auto simp: oks_def)
qed simp

lemma list_all2_set2: "list_all2 P xs ys \<Longrightarrow> y \<in> set ys \<Longrightarrow> \<exists>x \<in> set xs. P x y"
  by (induction rule: list_all2_induct) auto

subsection \<open>Visits, paths and witnesses\<close>

definition visit_ok :: "queue_visit \<Rightarrow> bool" where
  "visit_ok v \<longleftrightarrow> check_visit v = None \<and> nonblank (rr_resource_id (qv_resource v))"

definition attributable :: "work_payload \<Rightarrow> queue_visit \<Rightarrow> bool" where
  "attributable w v \<longleftrightarrow> oks (attribution_field_of w (rr_kind (qv_resource v))) (\<lambda>_. True)"

definition path_ok :: "work_payload \<Rightarrow> int \<Rightarrow> queue_visit list \<Rightarrow> bool" where
  "path_ok w t path \<longleftrightarrow> path \<noteq> [] \<and> (\<forall>v \<in> set path. visit_ok v \<and> attributable w v \<and> qv_completed_at_ps v \<le> t)"

definition wit_ok :: "(string, scheduled_operation) dict \<Rightarrow> int \<Rightarrow> causal_witness option \<Rightarrow> bool" where
  "wit_ok scheduled t x =
     (case x of
        None \<Rightarrow> True
      | Some q \<Rightarrow> cx_completed_at_ps q \<le> t \<and>
          (\<exists>pre. map_of scheduled (cx_predecessor_id q) = Some pre \<and>
             map_of (so_participant_completed_at_ps pre) (cx_participant_rank q) = Some (cx_completed_at_ps q)))"

definition wqe_ok :: "int \<Rightarrow> wqe_projection \<Rightarrow> bool" where
  "wqe_ok t q \<longleftrightarrow> check_projection q = None \<and> wp_completed_at_ps q \<le> t"

lemma visit_order:
  assumes "visit_ok v"
  shows "0 \<le> qv_submitted_at_ps v" "qv_submitted_at_ps v \<le> qv_eligible_at_ps v" "qv_eligible_at_ps v \<le> qv_started_at_ps v"
    "qv_started_at_ps v \<le> qv_finished_at_ps v" "qv_finished_at_ps v \<le> qv_completed_at_ps v" "0 \<le> qv_service_bytes v"
  using assms by (simp_all add: visit_ok_def check_visit_def require_defs)

lemma path_ok_mono: "path_ok w t path \<Longrightarrow> t \<le> t' \<Longrightarrow> path_ok w t' path"
  by (auto simp: path_ok_def)

lemma path_ok_append:
  "path_ok w t xs \<Longrightarrow> (\<forall>v \<in> set ys. visit_ok v \<and> attributable w v \<and> qv_completed_at_ps v \<le> t) \<Longrightarrow> path_ok w t (xs @ ys)"
  by (auto simp: path_ok_def)

lemma wit_ok_mono: "wit_ok sc t x \<Longrightarrow> t \<le> t' \<Longrightarrow> wit_ok sc t' x"
  by (auto simp: wit_ok_def split: option.splits)

lemma wit_ok_None [simp]: "wit_ok sc t None"
  by (simp add: wit_ok_def)

lemma select_two_cases: "select_two a b = snd a \<or> select_two a b = snd b"
  by (simp add: select_two_def first_max_def)

lemma wit_ok_select:
  "wit_ok sc s x \<Longrightarrow> wit_ok sc t y \<Longrightarrow> s \<le> u \<Longrightarrow> t \<le> u \<Longrightarrow> wit_ok sc u (select_two (s, x) (t, y))"
  using select_two_cases [of "(s, x)" "(t, y)"] by (auto intro: wit_ok_mono)

lemma node_gpu_Inr: "0 \<le> rank \<Longrightarrow> node_gpu p rank = Inr (rank div pf_gpus_per_node p, rank mod pf_gpus_per_node p)"
  by (simp add: node_gpu_def require_int_def guard_def)

lemma nonblank_gpu_resource [simp]: "nonblank (gpu_resource ng s)"
  by (simp add: gpu_resource_def nonblank_append) (simp add: nonblank_def py_isspace_def)

definition visited :: "queue_visit \<Rightarrow> resource_kind \<Rightarrow> int \<Rightarrow> int \<Rightarrow> int \<Rightarrow> int \<Rightarrow> bool" where
  "visited v kind submitted eligible finished completed \<longleftrightarrow>
     visit_ok v \<and> rr_kind (qv_resource v) = kind \<and> qv_submitted_at_ps v = submitted \<and> qv_eligible_at_ps v = eligible \<and>
     qv_finished_at_ps v = finished \<and> qv_completed_at_ps v = completed"

lemma new_visit_oks:
  assumes "nonblank (eg_execution_id g)" "nonblank (op_operation_id op)" "nonblank name"
    "0 \<le> submitted" "submitted \<le> eligible" "eligible \<le> started" "started \<le> finished" "finished \<le> completed" "0 \<le> bytes"
    "\<And>v. visited v kind submitted eligible finished completed \<Longrightarrow> Q v"
  shows "oks (new_visit g op kind name submitted eligible started finished completed bytes) Q"
  using assms(1-9) by (auto simp: new_visit_def Let_def check_visit_def require_defs opt_err_def visit_ok_def visited_def intro!: assms(10))

lemma profile_facts:
  assumes "check_profile p = None"
  shows "pf_gpus_per_node p = 8" "0 < pf_rnic_rate_bps p" "0 < pf_nvlink_rate_bps p" "0 \<le> pf_hbm_rate_bps p" "0 \<le> pf_launch_service_ps p"
    "0 \<le> pf_control_service_ps p" "0 \<le> pf_nccl_channel_service_ps p" "0 \<le> pf_completion_delivery_ps p" "0 \<le> pf_goal_base_tag p"
  using assms by (simp_all add: check_profile_def require_defs)

subsection \<open>Network visits\<close>

lemma projection_facts:
  assumes "check_projection q = None"
  shows "nonblank (wp_execution_id q)" "nonblank (wp_operation_id q)" "nonblank (wp_wqe_id q)" "nonblank (wp_sq_id q)" "nonblank (wp_rq_id q)"
    "nonblank (wp_cq_id q)" "nonblank (wp_rnic_id q)" "0 \<le> wp_submitted_at_ps q" "wp_submitted_at_ps q \<le> wp_eligible_at_ps q"
    "wp_eligible_at_ps q \<le> wp_started_at_ps q" "wp_started_at_ps q \<le> wp_finished_at_ps q" "wp_finished_at_ps q \<le> wp_completed_at_ps q"
    "0 \<le> wp_payload_bytes q" "check_native_stages q = None" "check_ingress q = None"
  using assms by (simp_all add: check_projection_def require_defs)

definition network_visit :: "wqe_projection \<Rightarrow> queue_visit \<Rightarrow> bool" where
  "network_visit q v \<longleftrightarrow>
     visit_ok v \<and> rr_kind (qv_resource v) \<in> {NIC, NIC_SEND_QUEUE, NIC_RECEIVE_QUEUE} \<and> wp_submitted_at_ps q \<le> qv_eligible_at_ps v \<and>
     qv_completed_at_ps v \<le> wp_completed_at_ps q"

lemma wqe_visit_oks:
  assumes "check_projection q = None" "nonblank name" "kind \<in> {NIC, NIC_SEND_QUEUE, NIC_RECEIVE_QUEUE}" "wp_submitted_at_ps q \<le> eligible"
    "eligible \<le> started" "started \<le> finished" "finished \<le> completed" "completed \<le> wp_completed_at_ps q" "0 \<le> bytes"
    "case stage of None \<Rightarrow> True | Some s \<Rightarrow> nonblank s"
  shows "oks (wqe_visit q kind name eligible started finished completed bytes stage) (\<lambda>v. network_visit q v \<and> qv_completed_at_ps v = completed)"
  using assms projection_facts [OF assms(1)]
  by (auto simp: wqe_visit_def Let_def check_visit_def require_defs opt_err_def visit_ok_def network_visit_def split: option.splits)

lemma stage_names [simp]:
  "nonblank ''coarse_source_admission''" "nonblank ''coarse_receiver_service''" "nonblank ''native_doorbell''" "nonblank ''native_network''"
  by (simp_all add: nonblank_def py_isspace_def)

lemma native_wqe_visits_oks:
  assumes "check_projection q = None"
  shows "oks (native_wqe_visits q) (\<lambda>vs. vs \<noteq> [] \<and> (\<forall>v \<in> set vs. network_visit q v) \<and> qv_completed_at_ps (last vs) = wp_completed_at_ps q)"
proof (cases "wp_ingress q")
  case (Some x)
  obtain ready rnic where x: "x = (ready, rnic)" by (cases x)
  have i: "wp_eligible_at_ps q \<le> ready" "ready \<le> wp_started_at_ps q"
    using projection_facts(15) [OF assms] Some x by (simp_all add: check_ingress_def)
  note f = projection_facts [OF assms]
  have "oks (wqe_visit q NIC_SEND_QUEUE (wp_sq_id q) (wp_eligible_at_ps q) ready ready ready 0 (Some ''coarse_source_admission''))
      (\<lambda>v. network_visit q v \<and> qv_completed_at_ps v = ready)"
    "oks (wqe_visit q NIC_RECEIVE_QUEUE (wp_rq_id q) ready (wp_started_at_ps q) (wp_finished_at_ps q) (wp_completed_at_ps q)
      (wp_payload_bytes q) (Some ''coarse_receiver_service'')) (\<lambda>v. network_visit q v \<and> qv_completed_at_ps v = wp_completed_at_ps q)"
    using f i by (auto intro!: wqe_visit_oks assms)
  then show ?thesis by (auto simp: native_wqe_visits_def Some x oks_def)
next
  case None
  note f = projection_facts [OF assms]
  show ?thesis
  proof (cases "wp_doorbell_started_at_ps q")
    case d: None
    have "oks (wqe_visit q NIC (wp_rnic_id q) (wp_eligible_at_ps q) (wp_started_at_ps q) (wp_finished_at_ps q) (wp_completed_at_ps q)
      (wp_payload_bytes q) None) (\<lambda>v. network_visit q v \<and> qv_completed_at_ps v = wp_completed_at_ps q)"
      using f by (auto intro!: wqe_visit_oks assms)
    then show ?thesis by (auto simp: native_wqe_visits_def None d oks_def)
  next
    case (Some d)
    then obtain d' e s t where n: "wp_doorbell_completed_at_ps q = Some d'" "wp_network_eligible_at_ps q = Some e"
      "wp_network_started_at_ps q = Some s" "wp_network_finished_at_ps q = Some t"
      using f(14) by (auto simp: check_native_stages_def split: option.splits)
    then have o': "wp_submitted_at_ps q \<le> d" "d \<le> d'" "d' \<le> e" "e \<le> s" "s \<le> t" "t \<le> wp_completed_at_ps q"
      using f(14) Some by (simp_all add: check_native_stages_def)
    have "oks (wqe_visit q NIC (wp_rnic_id q) d d d' d' 0 (Some ''native_doorbell'')) (\<lambda>v. network_visit q v \<and> qv_completed_at_ps v = d')"
      "oks (wqe_visit q NIC (wp_rnic_id q) e s t (wp_completed_at_ps q) (wp_payload_bytes q) (Some ''native_network''))
        (\<lambda>v. network_visit q v \<and> qv_completed_at_ps v = wp_completed_at_ps q)"
      using f o' by (auto intro!: wqe_visit_oks assms)
    then show ?thesis by (auto simp: native_wqe_visits_def None Some n oks_def)
  qed
qed

subsection \<open>The authority seam\<close>

text \<open>
  What the scheduler needs of an authority: under its invariant it accepts every checked submission
  between nodes with a projection of exactly that submission, and does not refuse the commit.
\<close>

locale wqe_authority =
  fixes A :: "'w wqe_ops" and p :: device_profile and ingress :: bool and inv :: "'w \<Rightarrow> bool"
  assumes submit_ok: "inv w \<Longrightarrow> check_submission s = None \<Longrightarrow>
      ws_source_rank s div pf_gpus_per_node p \<noteq> ws_destination_rank s div pf_gpus_per_node p \<Longrightarrow>
      \<exists>q w'. wo_submit A w s = Inr (q, w') \<and> inv w' \<and> check_projection q = None \<and>
        validate_wqe_projection p ingress (wo_name A) s q = None"
    and prepare_ok: "inv w \<Longrightarrow> wo_prepare A w = None"

definition request_ok :: "send_request \<Rightarrow> bool" where
  "request_ok r \<longleftrightarrow>
     0 \<le> sr_source_rank r \<and> 0 \<le> sr_destination_rank r \<and> sr_source_rank r \<noteq> sr_destination_rank r \<and> 0 \<le> sr_payload_bytes r \<and>
     0 \<le> sr_goal_tag r \<and> 0 \<le> sr_extent_index r \<and> nonblank (sr_channel_id r) \<and> 0 \<le> sr_submitted_at_ps r \<and>
     sr_submitted_at_ps r \<le> sr_eligible_at_ps r \<and> (case sr_nccl_command_id r of None \<Rightarrow> True | Some c \<Rightarrow> nonblank c)"

definition transfer_ok :: "work_payload \<Rightarrow> int \<Rightarrow> int \<Rightarrow> send_schedule \<Rightarrow> bool" where
  "transfer_ok w submitted eligible t \<longleftrightarrow>
     ss_visits t \<noteq> [] \<and> eligible \<le> qv_completed_at_ps (last (ss_visits t)) \<and>
     (\<forall>v \<in> set (ss_visits t). visit_ok v \<and> attributable w v \<and> submitted \<le> qv_eligible_at_ps v \<and>
        qv_completed_at_ps v \<le> qv_completed_at_ps (last (ss_visits t))) \<and>
     (case ss_projection t of None \<Rightarrow> True | Some q \<Rightarrow> wqe_ok (qv_completed_at_ps (last (ss_visits t))) q)"

lemma network_attributable: "rr_kind (qv_resource v) \<in> {NIC, NIC_SEND_QUEUE, NIC_RECEIVE_QUEUE, NVLINK, NCCL_CHANNEL} \<Longrightarrow> attributable w v"
  by (auto simp: attributable_def)

lemma nvlink_send_oks:
  assumes "check_profile p = None" "nonblank (eg_execution_id g)" "nonblank (op_operation_id op)" "request_ok r"
  shows "oks (nvlink_send p g op r ng m) (\<lambda>(t, m'). mc_wqe m' = mc_wqe m \<and> transfer_ok w (sr_submitted_at_ps r) (sr_eligible_at_ps r) t)"
proof -
  obtain d where d: "serialization_ps (sr_payload_bytes r) (pf_nvlink_rate_bps p) = Inr d"
    using serialization_total profile_facts(3) [OF assms(1)] assms(4) by (auto simp: request_ok_def)
  then have "0 \<le> d" by (rule serialization_bounds)
  then show ?thesis using assms(2-4) profile_facts [OF assms(1)]
    by (auto simp: nvlink_send_def Let_def d request_ok_def transfer_ok_def visited_def intro!: new_visit_oks network_attributable)
qed

lemma submission_ok:
  "request_ok r \<Longrightarrow> nonblank (eg_execution_id g) \<Longrightarrow> nonblank (op_operation_id op) \<Longrightarrow> check_submission (submission_of g op r) = None"
  by (auto simp: request_ok_def submission_of_def check_submission_def require_defs opt_err_def split: option.splits)

context wqe_authority
begin

lemma semantic_send_oks:
  assumes "rc_profile cfg = p" "rc_receiver_ingress cfg = ingress" "check_profile p = None" "nonblank (eg_execution_id g)"
    "nonblank (op_operation_id op)" "request_ok r" "inv (mc_wqe m)"
  shows "oks (schedule_semantic_send cfg A g op r m)
    (\<lambda>(t, m'). inv (mc_wqe m') \<and> transfer_ok w (sr_submitted_at_ps r) (sr_eligible_at_ps r) t)"
proof -
  let ?s = "submission_of g op r"
  have n: "node_gpu p (sr_source_rank r) = Inr (sr_source_rank r div pf_gpus_per_node p, sr_source_rank r mod pf_gpus_per_node p)"
    "node_gpu p (sr_destination_rank r) = Inr (sr_destination_rank r div pf_gpus_per_node p, sr_destination_rank r mod pf_gpus_per_node p)"
    using assms(6) by (simp_all add: request_ok_def node_gpu_Inr)
  show ?thesis
  proof (cases "sr_source_rank r div pf_gpus_per_node p = sr_destination_rank r div pf_gpus_per_node p")
    case True
    have "oks (nvlink_send p g op r ng m) (\<lambda>(t, m'). inv (mc_wqe m') \<and> transfer_ok w (sr_submitted_at_ps r) (sr_eligible_at_ps r) t)" for ng
      by (rule oks_mono [OF nvlink_send_oks [OF assms(3-6), of ng m w]]) (auto simp: assms(7))
    then show ?thesis using True by (simp add: schedule_semantic_send_def Let_def assms(1) n)
  next
    case False
    have c: "check_submission ?s = None" using submission_ok assms by blast
    then obtain q w' where q: "wo_submit A (mc_wqe m) ?s = Inr (q, w')" "inv w'" "check_projection q = None"
      "validate_wqe_projection p ingress (wo_name A) ?s q = None"
      using submit_ok [OF assms(7) c] False by (auto simp: submission_of_def)
    have e: "wp_submitted_at_ps q = sr_submitted_at_ps r" "wp_eligible_at_ps q = sr_eligible_at_ps r"
      using q(4) by (simp_all add: validate_wqe_projection_def submission_of_def)
    have "oks (native_wqe_visits q) (\<lambda>vs. transfer_ok w (sr_submitted_at_ps r) (sr_eligible_at_ps r) \<lparr>ss_visits = vs, ss_projection = Some q\<rparr>)"
      using native_wqe_visits_oks [OF q(3)] projection_facts [OF q(3)] q(3) e
      by (auto simp: transfer_ok_def network_visit_def wqe_ok_def intro: network_attributable elim!: oks_mono)
    then show ?thesis using False
      by (simp add: schedule_semantic_send_def Let_def assms(1,2) n c q)
  qed
qed

end

subsection \<open>The bypass ledger implements the seam\<close>

definition atlahs_inv :: "device_profile \<Rightarrow> bool \<Rightarrow> atlahs_ledger \<Rightarrow> bool" where
  "atlahs_inv p ingress l \<longleftrightarrow>
     check_profile p = None \<and> al_receiver_ingress l = ingress \<and> dall (\<lambda>n. 0 \<le> n) (al_sq_sequences l) \<and> dall (\<lambda>n. 0 \<le> n) (al_cq_sequences l)"

lemma new_atlahs_inv: "check_profile p = None \<Longrightarrow> atlahs_inv p ingress (new_atlahs ingress)"
  by (simp add: atlahs_inv_def new_atlahs_def dall_def)

lemma dict_get_nonneg: "dall (\<lambda>n. 0 \<le> n) d \<Longrightarrow> 0 \<le> (dict_get d k 0 :: int)"
  by (auto split: option.splits dest: dall_get)

lemma nonblank_atlahs [simp]:
  "nonblank atlahs_authority_name" "nonblank (atlahs_wqe_id e k i)" "nonblank (atlahs_queue_id n u kind)"
  by (simp_all add: atlahs_authority_name_def atlahs_wqe_id_def atlahs_queue_id_def nonblank_append)
    (simp_all add: nonblank_def py_isspace_def)

lemma rnic_id_Inr: "0 \<le> rank \<Longrightarrow> \<exists>s. rnic_id p rank = Inr s \<and> nonblank s"
  by (simp add: rnic_id_def node_gpu_Inr nonblank_append) (simp add: nonblank_def py_isspace_def)

lemma atlahs_record_ok:
  assumes "atlahs_inv p i l" "check_submission s = None" "nonblank rnic" "nonblank rnic'" "0 \<le> d" "0 \<le> c"
    "f = grant_time l (al_receiver_ingress l \<and> fst src \<noteq> fst dst) rnic' (source_ready l rnic s) + d"
  shows "check_projection (atlahs_record l s src dst rnic rnic' f (f + c)) = None"
proof -
  have "0 \<le> dict_get (al_sq_sequences l) k 0" "0 \<le> dict_get (al_cq_sequences l) k 0" for k
    using assms(1) dict_get_nonneg by (auto simp: atlahs_inv_def)
  then have q: "0 < dict_get (al_sq_sequences l) k 0 + 1" "0 < dict_get (al_cq_sequences l) k 0 + 1" for k
    by (simp_all add: add_nonneg_pos)
  have e0: "ws_eligible_at_ps s \<le> source_ready l rnic s" by (simp add: source_ready_def)
  have e: "source_ready l rnic s \<le> grant_time l b rnic' (source_ready l rnic s)" for b by (simp add: grant_time_def)
  have n: "nonblank (atlahs_queue_id (fst src) (snd src) ''qp'' @ t)" for t by (simp add: nonblank_append)
  show ?thesis using assms(2-6) q e0 e [of True] e [of False] unfolding assms(7)
    by (auto simp: check_projection_def atlahs_record_def Let_def require_defs check_submission_def opt_err_def check_native_stages_def
      check_packet_fields_def check_ingress_def n less_imp_le)
qed

lemma atlahs_submit_ok:
  assumes "atlahs_inv p i l" "check_submission s = None"
    "ws_source_rank s div pf_gpus_per_node p \<noteq> ws_destination_rank s div pf_gpus_per_node p"
  shows "\<exists>q l'. atlahs_submit p l s = Inr (q, l') \<and> atlahs_inv p i l' \<and> check_projection q = None \<and>
    validate_wqe_projection p i atlahs_authority_name s q = None"
proof -
  have r: "0 \<le> ws_source_rank s" "0 \<le> ws_destination_rank s" "0 \<le> ws_payload_bytes s"
    using assms(2) by (simp_all add: check_submission_def require_defs)
  obtain rnic rnic' where x: "rnic_id p (ws_source_rank s) = Inr rnic" "nonblank rnic"
    "rnic_id p (ws_destination_rank s) = Inr rnic'" "nonblank rnic'"
    using rnic_id_Inr r by blast
  have c: "check_profile p = None" "al_receiver_ingress l = i" using assms(1) by (simp_all add: atlahs_inv_def)
  obtain d where d: "serialization_ps (ws_payload_bytes s) (pf_rnic_rate_bps p) = Inr d"
    using serialization_total r(3) profile_facts(2) [OF c(1)] by blast
  then have "0 \<le> d" by (rule serialization_bounds)
  define src where "src = (ws_source_rank s div pf_gpus_per_node p, ws_source_rank s mod pf_gpus_per_node p)"
  define dst where "dst = (ws_destination_rank s div pf_gpus_per_node p, ws_destination_rank s mod pf_gpus_per_node p)"
  have n: "node_gpu p (ws_source_rank s) = Inr src" "node_gpu p (ws_destination_rank s) = Inr dst"
    using r by (simp_all add: node_gpu_Inr src_def dst_def)
  have ne: "fst src \<noteq> fst dst" using assms(3) by (simp add: src_def dst_def)
  define f where "f = grant_time l (al_receiver_ingress l \<and> fst src \<noteq> fst dst) rnic' (source_ready l rnic s) + d"
  define q where "q = atlahs_record l s src dst rnic rnic' f (f + pf_completion_delivery_ps p)"
  have q: "check_projection q = None"
    unfolding q_def using atlahs_record_ok [OF assms(1,2) x(2,4) \<open>0 \<le> d\<close> _ f_def] profile_facts(8) [OF c(1)] by blast
  have "atlahs_submit p l s = Inr (q, install_record l q)"
    using q by (simp add: atlahs_submit_def n x d Let_def q_def f_def)
  moreover have "atlahs_inv p i (install_record l q)"
    using assms(1) q by (auto simp: atlahs_inv_def install_record_def check_projection_def require_defs)
  moreover have "validate_wqe_projection p i atlahs_authority_name s q = None"
    using n x ne c(2) by (cases src; cases dst) (auto simp: validate_wqe_projection_def q_def atlahs_record_def Let_def)
  ultimately show ?thesis using q by blast
qed

interpretation bypass: wqe_authority "atlahs_ops p" p i "atlahs_inv p i" for p i
  by unfold_locales (auto simp: atlahs_ops_def dest: atlahs_submit_ok)

end
