(* ===== verification/Runtime_Outcomes.thy ===== *)
theory Runtime_Outcomes
  imports Runtime_Laws
begin

text \<open>
  Every way in which the device runtime serves a ready operation returns a well-formed outcome:
  participants with a completion, a path that ends by then and a witness that an earlier operation
  completed when it says, visits that respect the readiness of the operation, and an end that no
  visit exceeds.
\<close>

subsection \<open>Well-formed outcomes\<close>

definition participants_ok :: "execution_graph \<Rightarrow> work_payload \<Rightarrow> int set \<Rightarrow> (string, scheduled_operation) dict
    \<Rightarrow> (int, int) dict \<Rightarrow> (int, queue_visit list) dict \<Rightarrow> (int, causal_witness option) dict \<Rightarrow> bool" where
  "participants_ok g w ranks sc ends paths witnesses \<longleftrightarrow>
     dict_ok ends \<and> fst ` set ends = ranks \<and> fst ` set paths = ranks \<and> fst ` set witnesses = ranks \<and>
     (\<forall>r t. map_of ends r = Some t \<longrightarrow>
        eg_released_at_ps g \<le> t \<and> (\<forall>path. map_of paths r = Some path \<longrightarrow> path_ok w t path) \<and>
        (\<forall>y. map_of witnesses r = Some y \<longrightarrow> wit_ok sc t y))"

definition visits_ok :: "queue_visit \<Rightarrow> int \<Rightarrow> int \<Rightarrow> queue_visit list \<Rightarrow> bool" where
  "visits_ok launch lo bound vs \<longleftrightarrow>
     (\<forall>v \<in> set vs. visit_ok v \<and> qv_finished_at_ps v \<le> bound \<and> (v = launch \<or> lo \<le> qv_eligible_at_ps v))"

definition outcome_ok :: "execution_graph \<Rightarrow> execution_operation \<Rightarrow> (string, scheduled_operation) dict \<Rightarrow> queue_visit \<Rightarrow> int
    \<Rightarrow> scheduled_operation \<Rightarrow> bool" where
  "outcome_ok g op sc launch lo x \<longleftrightarrow>
     participants_ok g (op_work op) (set (operation_participant_ranks op)) sc (so_participant_completed_at_ps x) (so_participant_paths x)
       (so_participant_causal_witnesses x) \<and>
     (\<forall>t \<in> snd ` set (so_participant_completed_at_ps x). t \<le> so_physical_completed_at_ps x) \<and>
     so_logical_completed_at_ps x \<in> snd ` set (so_participant_completed_at_ps x) \<and>
     visits_ok launch lo (so_physical_completed_at_ps x) (so_visits x) \<and>
     so_logical_paths x \<noteq> [] \<and> (\<forall>path \<in> set (so_logical_paths x). path_ok (op_work op) (so_logical_completed_at_ps x) path) \<and>
     (\<exists>y. wit_ok sc (so_logical_completed_at_ps x) y \<and> so_critical_predecessor_id x = map_option cx_predecessor_id y \<and>
        so_critical_predecessor_completed_at_ps x = map_option cx_completed_at_ps y) \<and>
     (\<forall>q \<in> set (so_wqes x). wqe_ok (so_physical_completed_at_ps x) q)"

definition launch_ok :: "execution_graph \<Rightarrow> queue_visit \<Rightarrow> bool" where
  "launch_ok g v \<longleftrightarrow> visit_ok v \<and> rr_kind (qv_resource v) = HOST_LAUNCH_QUEUE \<and> eg_released_at_ps g \<le> qv_completed_at_ps v"

definition ready_ok :: "execution_operation \<Rightarrow> (string, scheduled_operation) dict \<Rightarrow> queue_visit \<Rightarrow> int \<Rightarrow> ready_operation \<Rightarrow> bool" where
  "ready_ok op sc launch lo r \<longleftrightarrow>
     map fst (rd_by_rank r) = operation_participant_ranks op \<and> map fst (rd_witnesses r) = operation_participant_ranks op \<and>
     (\<forall>k t. map_of (rd_by_rank r) k = Some t \<longrightarrow>
        qv_completed_at_ps launch \<le> t \<and> lo \<le> t \<and> (\<forall>y. map_of (rd_witnesses r) k = Some y \<longrightarrow> wit_ok sc t y))"

definition operation_ok :: "execution_graph \<Rightarrow> execution_operation \<Rightarrow> bool" where
  "operation_ok g op \<longleftrightarrow>
     nonblank (eg_execution_id g) \<and> 0 \<le> eg_released_at_ps g \<and> nonblank (op_operation_id op) \<and> 0 \<le> op_rank op \<and>
     validate_work (op_work op) = None"

lemma participant_ranks_facts [simp]:
  "distinct (operation_participant_ranks op)" "op_rank op \<in> set (operation_participant_ranks op)"
  "operation_participant_ranks op \<noteq> []"
  by (auto simp: operation_participant_ranks_def simp flip: set_empty)

lemma participants_entry:
  assumes "participants_ok g w ranks sc ends paths witnesses" "r \<in> ranks"
  shows "\<exists>t path y. map_of ends r = Some t \<and> map_of paths r = Some path \<and> map_of witnesses r = Some y \<and> eg_released_at_ps g \<le> t \<and>
    path_ok w t path \<and> wit_ok sc t y"
proof -
  have "r \<in> fst ` set ends" "r \<in> fst ` set paths" "r \<in> fst ` set witnesses" using assms by (auto simp: participants_ok_def)
  then obtain t path y where "map_of ends r = Some t" "map_of paths r = Some path" "map_of witnesses r = Some y"
    by (metis map_of_eq_None_iff not_Some_eq)
  then show ?thesis using assms(1) by (auto simp: participants_ok_def)
qed

lemma participants_update:
  assumes "participants_ok g w ranks sc ends paths witnesses" "eg_released_at_ps g \<le> t" "path_ok w t path" "wit_ok sc t y"
  shows "participants_ok g w (insert r ranks) sc (AList.update r t ends) (AList.update r path paths) (AList.update r y witnesses)"
  using assms by (auto simp: participants_ok_def update_conv distinct_update dom_update)

lemma participants_raise:
  assumes "participants_ok g w ranks sc ends paths witnesses" "map_of ends r = Some t" "t \<le> t'" "wit_ok sc t' y"
  shows "participants_ok g w ranks sc (AList.update r t' ends) paths (AList.update r y witnesses)"
proof -
  have r: "r \<in> ranks" using assms(1,2) by (metis map_of_eq_None_iff not_Some_eq participants_ok_def)
  then obtain path where path: "map_of paths r = Some path" "eg_released_at_ps g \<le> t" "path_ok w t path"
    using participants_entry [OF assms(1) r] assms(2) by auto
  have "participants_ok g w (insert r ranks) sc (AList.update r t' ends) (AList.update r path paths) (AList.update r y witnesses)"
    using path assms(3) by (intro participants_update assms(1,4) path_ok_mono [OF path(3)]) auto
  then show ?thesis by (simp add: insert_absorb r update_triv path(1))
qed

lemma launch_attributable: "launch_ok g v \<Longrightarrow> attributable w v"
  by (simp add: launch_ok_def attributable_def)

lemma launch_path: "launch_ok g v \<Longrightarrow> qv_completed_at_ps v \<le> t \<Longrightarrow> path_ok w t [v]"
  using launch_attributable [of g v w] by (simp add: path_ok_def launch_ok_def)

lemma launch_visits: "launch_ok g v \<Longrightarrow> qv_completed_at_ps v \<le> t \<Longrightarrow> visits_ok v lo t [v]"
  using visit_order [of v] by (auto simp: visits_ok_def launch_ok_def)

lemma visits_ok_append [simp]: "visits_ok l lo b (xs @ ys) \<longleftrightarrow> visits_ok l lo b xs \<and> visits_ok l lo b ys"
  by (auto simp: visits_ok_def)

lemma visits_ok_mono: "visits_ok l lo b vs \<Longrightarrow> b \<le> b' \<Longrightarrow> visits_ok l lo b' vs"
  by (auto simp: visits_ok_def)

lemma ready_time:
  assumes "ready_ok op sc launch lo r" "k \<in> set (operation_participant_ranks op)"
  shows "\<exists>t y. map_of (rd_by_rank r) k = Some t \<and> map_of (rd_witnesses r) k = Some y \<and> qv_completed_at_ps launch \<le> t \<and> lo \<le> t \<and>
    wit_ok sc t y"
proof -
  have "k \<in> set (map fst (rd_by_rank r))" "k \<in> set (map fst (rd_witnesses r))"
    using assms by (auto simp: ready_ok_def simp del: set_map)
  then obtain t y where "map_of (rd_by_rank r) k = Some t" "map_of (rd_witnesses r) k = Some y"
    by (metis map_of_eq_None_iff not_Some_eq set_map)
  then show ?thesis using assms(1) by (auto simp: ready_ok_def)
qed

text \<open>An operation of one rank: compute, KV traffic and KV markers.\<close>

lemma single_outcome:
  assumes "operation_participant_ranks op = [op_rank op]" "eg_released_at_ps g \<le> c" "path_ok (op_work op) c path" "wit_ok sc c y"
    "visits_ok launch lo c vs"
  shows "outcome_ok g op sc launch lo
    (outcome_of op c c [(op_rank op, c)] [(op_rank op, path)] [(op_rank op, y)] vs [path] e y None [])"
  using assms by (auto simp: outcome_ok_def outcome_of_def participants_ok_def split: if_splits)

lemma list_all2_set1: "list_all2 P xs ys \<Longrightarrow> x \<in> set xs \<Longrightarrow> \<exists>y \<in> set ys. P x y"
  by (induction rule: list_all2_induct) auto

subsection \<open>Compute\<close>

definition services_lawful :: "'k runtime_config \<Rightarrow> bool" where
  "services_lawful cfg \<longleftrightarrow>
     (\<forall>rank s. map_of (rc_kernel_services cfg) rank = Some s \<longrightarrow> 0 < ks_clock_hz s \<and>
        (\<forall>tasks. \<exists>est. ks_estimate s tasks = Some est \<and> (\<forall>(k, _, _) \<in> set tasks. \<exists>c. map_of est k = Some c \<and> 0 \<le> c))) \<and>
     (\<forall>e \<in> set (pf_copy_engines (rc_profile cfg)). \<forall>t. check_transfer t = None \<longrightarrow> (\<exists>d. en_estimate e t = Some d \<and> 0 \<le> d))"

definition compute_ready :: "'k runtime_config \<Rightarrow> execution_graph \<Rightarrow> (string, scheduled_operation) dict \<Rightarrow> (string, ready_operation) dict
    \<Rightarrow> (string, queue_visit) dict \<Rightarrow> (string \<Rightarrow> int) \<Rightarrow> int \<Rightarrow> execution_operation \<times> compute_work \<Rightarrow> bool" where
  "compute_ready cfg g sc ready launches lo rank = (\<lambda>(op, w).
     operation_ok g op \<and> op_work op = ComputeWork w \<and> op_rank op = rank \<and> require_executable w = None \<and>
     (if map_of (rc_kernel_services cfg) rank \<noteq> None then oks (kernel_launch cfg op w) (\<lambda>_. True) else cw_nominal_duration_ps w \<noteq> None) \<and>
     (\<exists>r l. map_of ready (op_operation_id op) = Some r \<and> map_of launches (op_operation_id op) = Some l \<and> launch_ok g l \<and>
        ready_ok op sc l (lo (op_operation_id op)) r))"

lemma compute_work_facts:
  assumes "validate_compute w = None" "require_executable w = None"
  obtains b where "cw_hbm_bytes w = Some b" "0 \<le> b" "\<And>d. cw_nominal_duration_ps w = Some d \<Longrightarrow> 0 \<le> d"
  using assms by (auto simp: validate_compute_def require_executable_def Let_def split: if_splits option.splits)

lemma cycles_nonneg: "0 \<le> c \<Longrightarrow> 0 < hz \<Longrightarrow> 0 \<le> cycles_to_ps c hz"
  by (simp add: cycles_to_ps_def ps_per_second_def pos_imp_zdiv_nonneg_iff)

lemma list_all2_keys: "list_all2 (\<lambda>x kv. fst kv = f x \<and> P x (snd kv)) xs d \<Longrightarrow> map fst d = map f xs"
  by (induction rule: list_all2_induct) auto

lemma list_all2_map_of:
  "list_all2 (\<lambda>x kv. fst kv = f x \<and> P x (snd kv)) xs d \<Longrightarrow> distinct (map f xs) \<Longrightarrow> x \<in> set xs \<Longrightarrow> \<exists>v. map_of d (f x) = Some v \<and> P x v"
  by (induction rule: list_all2_induct) (auto simp: image_iff)

lemma compute_readyD:
  assumes "compute_ready cfg g sc ready launches lo rank (op, w)"
  shows "operation_ok g op" "op_work op = ComputeWork w" "op_rank op = rank" "require_executable w = None" "validate_compute w = None"
    "map_of (rc_kernel_services cfg) rank \<noteq> None \<Longrightarrow> oks (kernel_launch cfg op w) (\<lambda>_. True)"
    "map_of (rc_kernel_services cfg) rank = None \<Longrightarrow> cw_nominal_duration_ps w \<noteq> None"
    "\<exists>r l. map_of ready (op_operation_id op) = Some r \<and> map_of launches (op_operation_id op) = Some l \<and> launch_ok g l \<and>
      ready_ok op sc l (lo (op_operation_id op)) r"
proof -
  have o': "operation_ok g op" and w: "op_work op = ComputeWork w" using assms by (simp_all add: compute_ready_def)
  from o' have "validate_work (op_work op) = None" by (simp add: operation_ok_def)
  then show "validate_compute w = None" by (simp add: w)
qed (use assms in \<open>simp_all add: compute_ready_def\<close>)

lemma service_estimate:
  assumes "services_lawful cfg" "map_of (rc_kernel_services cfg) rank = Some s"
  shows "0 < ks_clock_hz s" "\<exists>est. ks_estimate s tasks = Some est \<and> (\<forall>(k, _, _) \<in> set tasks. \<exists>c. map_of est k = Some c \<and> 0 \<le> c)"
  using assms unfolding services_lawful_def by blast+

lemma group_completions_oks:
  assumes "services_lawful cfg" "\<forall>x \<in> set ops. compute_ready cfg g sc ready launches lo rank x"
  shows "oks (group_completions cfg rank started ops) (list_all2 (\<lambda>x kv. fst kv = op_operation_id (fst x) \<and> started \<le> snd kv) ops)"
proof (cases "map_of (rc_kernel_services cfg) rank")
  case None
  have "oks (case x of (op, w) \<Rightarrow> case cw_nominal_duration_ps w of None \<Rightarrow> Inl NoDuration | Some d \<Rightarrow> Inr (op_operation_id op, started + d))
      (\<lambda>kv. fst kv = op_operation_id (fst x) \<and> started \<le> snd kv)" if "x \<in> set ops" for x
  proof -
    have r: "compute_ready cfg g sc ready launches lo rank x" using assms(2) that by blast
    obtain op w where x: "x = (op, w)" by (cases x)
    note f = compute_readyD [OF r [unfolded x]]
    from f(7) [OF None] obtain d where d: "cw_nominal_duration_ps w = Some d" by blast
    then have "0 \<le> d" using compute_work_facts [OF f(5,4)] by metis
    then show ?thesis by (simp add: x d)
  qed
  then show ?thesis by (simp add: group_completions_def None oks_collect)
next
  case (Some s)
  let ?task = "\<lambda>(op, w). rec_check (require_text (op_operation_id op)) (rbind (kernel_launch cfg op w) (\<lambda>l. Inr (op_operation_id op, task_kind w, l)))"
  have t: "oks (?task x) (\<lambda>task. fst task = op_operation_id (fst x))" if "x \<in> set ops" for x
  proof -
    obtain op w where x: "x = (op, w)" by (cases x)
    have r: "compute_ready cfg g sc ready launches lo rank (op, w)" using assms(2) that x by blast
    have "oks (kernel_launch cfg op w) (\<lambda>_. True)" using compute_readyD(6) [OF r] Some by simp
    then show ?thesis using compute_readyD(1) [OF r] by (auto simp: x operation_ok_def require_text_def guard_def elim!: oks_mono)
  qed
  have e: "oks (case ks_estimate s tasks of None \<Rightarrow> Inl ServiceRaised | Some est \<Rightarrow> collect (\<lambda>(op, w). rbind (entry_at est (op_operation_id op)) (\<lambda>c.
      Inr (op_operation_id op, started + cycles_to_ps c (ks_clock_hz s)))) ops)
      (list_all2 (\<lambda>x kv. fst kv = op_operation_id (fst x) \<and> started \<le> snd kv) ops)"
    if tasks: "list_all2 (\<lambda>x task. fst task = op_operation_id (fst x)) ops tasks" for tasks
  proof -
    obtain est where est: "ks_estimate s tasks = Some est" "\<forall>(k, _, _) \<in> set tasks. \<exists>c. map_of est k = Some c \<and> 0 \<le> c" and hz: "0 < ks_clock_hz s"
      using service_estimate [OF assms(1) Some] by blast
    have "oks (case x of (op, w) \<Rightarrow> rbind (entry_at est (op_operation_id op)) (\<lambda>c. Inr (op_operation_id op, started + cycles_to_ps c (ks_clock_hz s))))
      (\<lambda>kv. fst kv = op_operation_id (fst x) \<and> started \<le> snd kv)" if "x \<in> set ops" for x
    proof -
      obtain op w where x: "x = (op, w)" by (cases x)
      obtain task where "task \<in> set tasks" "fst task = op_operation_id op"
        using list_all2_set1 [OF tasks \<open>x \<in> set ops\<close>] by (auto simp: x)
      then obtain c where "map_of est (op_operation_id op) = Some c" "0 \<le> c" using est(2) by (cases task) auto
      then show ?thesis using cycles_nonneg [OF _ hz] by (simp add: x)
    qed
    then show ?thesis by (simp add: est(1) oks_collect)
  qed
  show ?thesis
    by (simp add: group_completions_def Some) (rule oks_mono [OF oks_collect [OF t] e])
qed

lemma single_participant:
  "op_work op = ComputeWork w \<Longrightarrow> operation_participant_ranks op = [op_rank op]"
  "op_work op = KvCacheWork k \<Longrightarrow> operation_participant_ranks op = [op_rank op]"
  by (simp_all add: operation_participant_ranks_def)

lemma compute_outcome_oks:
  assumes "check_profile (rc_profile cfg) = None" "compute_ready cfg g sc ready launches lo rank (op, w)"
    "map_of completions (op_operation_id op) = Some c" "started \<le> c" "map_of eligible (op_operation_id op) = Some t" "t \<le> started"
    "map_of ready (op_operation_id op) = Some r" "map_of (rd_by_rank r) rank = Some t"
  shows "oks (compute_outcome cfg g ng rank started eligible completions ready launches (op, w))
    (\<lambda>kx. fst kx = op_operation_id op \<and>
      outcome_ok g op sc (the (map_of launches (op_operation_id op))) (lo (op_operation_id op)) (snd kx))"
proof -
  note f = compute_readyD [OF assms(2)] and p = profile_facts [OF assms(1)]
  obtain l where l: "map_of launches (op_operation_id op) = Some l" "launch_ok g l" "ready_ok op sc l (lo (op_operation_id op)) r"
    using f(8) assms(7) by auto
  obtain b where b: "cw_hbm_bytes w = Some b" "0 \<le> b" using compute_work_facts [OF f(5,4)] by metis
  obtain y where y: "map_of (rd_witnesses r) rank = Some y" "qv_completed_at_ps l \<le> t" "lo (op_operation_id op) \<le> t" "wit_ok sc t y"
    using ready_time [OF l(3), of rank] f(3) assms(8) by auto
  have lv: "0 \<le> qv_completed_at_ps l" "eg_released_at_ps g \<le> qv_completed_at_ps l" "visit_ok l" "qv_finished_at_ps l \<le> qv_completed_at_ps l"
    using visit_order [of l] l(2) by (auto simp: launch_ok_def)
  have n: "nonblank (eg_execution_id g)" "nonblank (op_operation_id op)" using f(1) by (simp_all add: operation_ok_def)
  let ?d = "pf_completion_delivery_ps (rc_profile cfg)"
  have ok: "outcome_ok g op sc l (lo (op_operation_id op)) (outcome_of op (c + ?d) (c + ?d) [(rank, c + ?d)] [(rank, [l, v])] [(rank, y)]
      (l # v # vs) [[l, v]] t y None [])"
    if "visited v GPU_WORK_QUEUE (qv_completed_at_ps l) t c (c + ?d)" "visits_ok l (lo (op_operation_id op)) (c + ?d) vs" for v vs
  proof -
    have a: "attributable (op_work op) v" "attributable (op_work op) l" using that(1) launch_attributable [OF l(2)] by (simp_all add: attributable_def visited_def)
    have v: "visits_ok l (lo (op_operation_id op)) (c + ?d) (l # v # vs)"
      using that lv y assms(4,6) p by (auto simp: visits_ok_def visited_def)
    have q: "path_ok (op_work op) (c + ?d) [l, v]" using a that lv y assms(4,6) p by (auto simp: path_ok_def visited_def)
    have w: "wit_ok sc (c + ?d) y" using y(4) assms(4,6) p by (auto intro: wit_ok_mono)
    have r: "eg_released_at_ps g \<le> c + ?d" using lv y assms(4,6) p by linarith
    show ?thesis using single_outcome [OF single_participant(1) [OF f(2)] r q w v, of t] by (simp add: f(3))
  qed
  have h: "visits_ok l (lo (op_operation_id op)) (c + ?d) [v]"
    if "visited v HBM_QUEUE (qv_completed_at_ps l) t c c" for v
    using that y p by (auto simp: visits_ok_def visited_def)
  have o0: "visits_ok l (lo (op_operation_id op)) (c + ?d) []" by (simp add: visits_ok_def)
  show ?thesis
    using n lv y assms(4,6) p b
    by (auto simp: compute_outcome_def Let_def assms(3,5,7) l(1) b y(1) intro!: new_visit_oks ok h o0)
qed

lemma schedule_compute_group_oks:
  assumes "services_lawful cfg" "check_profile (rc_profile cfg) = None" "ops \<noteq> []" "distinct (map (op_operation_id \<circ> fst) ops)"
    "\<forall>x \<in> set ops. compute_ready cfg g sc ready launches lo rank x"
  shows "oks (schedule_compute_group cfg g ops ready launches st)
    (\<lambda>(outcomes, _). list_all2 (\<lambda>x kx. fst kx = op_operation_id (fst x) \<and>
      outcome_ok g (fst x) sc (the (map_of launches (op_operation_id (fst x)))) (lo (op_operation_id (fst x))) (snd kx)) ops outcomes)"
proof -
  have k: "op_rank (fst x) = rank" if "x \<in> set ops" for x
    using compute_readyD(3) [of cfg g sc ready launches lo rank "fst x" "snd x"] assms(5) that by simp
  obtain y ys where ops: "ops = y # ys" using assms(3) by (cases ops) auto
  have "\<forall>x \<in> set ops. op_rank (fst x) = rank" using k by blast
  then have same: "op_rank (fst y) = rank" "\<not> list_ex (\<lambda>(op, w). op_rank op \<noteq> rank) ops" by (auto simp: list_ex_iff ops)
  let ?elig = "\<lambda>(op, w). rbind (entry_at ready (op_operation_id op)) (\<lambda>r. rbind (entry_at (rd_by_rank r) rank) (\<lambda>t. Inr (op_operation_id op, t)))"
  let ?E = "\<lambda>x kv. fst kv = op_operation_id (fst x) \<and> (\<exists>r. map_of ready (op_operation_id (fst x)) = Some r \<and> map_of (rd_by_rank r) rank = Some (snd kv))"
  have e: "oks (?elig x) (?E x)" if "x \<in> set ops" for x
  proof -
    obtain op w where x: "x = (op, w)" by (cases x)
    then have c: "compute_ready cfg g sc ready launches lo rank (op, w)" using assms(5) that by blast
    then obtain r l where r: "map_of ready (op_operation_id op) = Some r" "ready_ok op sc l (lo (op_operation_id op)) r"
      using compute_readyD(8) by blast
    then show ?thesis using ready_time [OF r(2), of rank] compute_readyD(3) [OF c] by (auto simp: x)
  qed
  have main: "oks (rbind (group_completions cfg rank (started :: int) ops) (\<lambda>completions. rbind (rec_err (node_gpu (rc_profile cfg) rank)) (\<lambda>ng.
      rbind (collect (compute_outcome cfg g ng rank started eligible completions ready launches) ops) (\<lambda>outcomes. Inr (outcomes, h completions)))))
      (\<lambda>(outcomes, _). list_all2 (\<lambda>x kx. fst kx = op_operation_id (fst x) \<and>
        outcome_ok g (fst x) sc (the (map_of launches (op_operation_id (fst x)))) (lo (op_operation_id (fst x))) (snd kx)) ops outcomes)"
    if el: "list_all2 ?E ops eligible" and st: "\<And>kv. kv \<in> set eligible \<Longrightarrow> snd kv \<le> started" for eligible started and h :: "_ \<Rightarrow> runtime_state"
  proof -
    have cy: "compute_ready cfg g sc ready launches lo rank (fst y, snd y)" using assms(5) ops by simp
    have "0 \<le> rank" using compute_readyD(1) [OF cy] same(1) by (simp add: operation_ok_def)
    then have n: "node_gpu (rc_profile cfg) rank = Inr (rank div pf_gpus_per_node (rc_profile cfg), rank mod pf_gpus_per_node (rc_profile cfg))"
      by (rule node_gpu_Inr)
    have out: "oks (compute_outcome cfg g ng rank started eligible completions ready launches x) (\<lambda>kx. fst kx = op_operation_id (fst x) \<and>
        outcome_ok g (fst x) sc (the (map_of launches (op_operation_id (fst x)))) (lo (op_operation_id (fst x))) (snd kx))"
      if x: "x \<in> set ops" and c: "list_all2 (\<lambda>x kv. fst kv = op_operation_id (fst x) \<and> started \<le> snd kv) ops completions" for x ng completions
    proof -
      obtain op w where xw: "x = (op, w)" by (cases x)
      have d: "distinct (map (\<lambda>x. op_operation_id (fst x)) ops)" using assms(4) by (simp add: comp_def)
      obtain c where c: "map_of completions (op_operation_id op) = Some c" "started \<le> c"
        using list_all2_map_of [OF c d x] by (auto simp: xw)
      obtain t where t: "map_of eligible (op_operation_id op) = Some t"
        "\<exists>r. map_of ready (op_operation_id op) = Some r \<and> map_of (rd_by_rank r) rank = Some t"
        using list_all2_map_of [OF el d x] by (auto simp: xw)
      have le: "t \<le> started" using st map_of_SomeD [OF t(1)] by force
      have cr: "compute_ready cfg g sc ready launches lo rank (op, w)" using assms(5) x xw by blast
      obtain r where r: "map_of ready (op_operation_id op) = Some r" "map_of (rd_by_rank r) rank = Some t" using t(2) by blast
      show ?thesis unfolding xw fst_conv by (rule compute_outcome_oks [OF assms(2) cr c t(1) le r])
    qed
    show ?thesis by (simp add: n) (rule oks_mono [OF group_completions_oks [OF assms(1,5)] oks_collect [OF out]])
  qed
  define start where "start eligible = compute_start st rank (list_ex (\<lambda>(op, w). uses_hbm w) ops) (Max (set (map snd eligible)))"
    for eligible :: "(string, int) dict"
  have le: "snd kv \<le> start eligible" if "kv \<in> set eligible" for kv and eligible :: "(string, int) dict"
  proof -
    have "snd kv \<le> Max (set (map snd eligible))" using that by auto
    then show ?thesis by (auto simp: start_def compute_start_def Let_def)
  qed
  have "schedule_compute_group cfg g ops ready launches st =
    (if list_ex (\<lambda>(op, w). op_rank op \<noteq> rank) ops then Inl CrossGpuGroup
     else rbind (collect ?elig ops) (\<lambda>eligible.
       rbind (group_completions cfg rank (start eligible) ops) (\<lambda>completions. rbind (rec_err (node_gpu (rc_profile cfg) rank)) (\<lambda>ng.
         rbind (collect (compute_outcome cfg g ng rank (start eligible) eligible completions ready launches) ops) (\<lambda>outcomes.
           Inr (outcomes, st\<lparr>st_gpu_available := AList.update rank (Max (set (map snd completions))) (st_gpu_available st),
             st_hbm_available := (if list_ex (\<lambda>(op, w). uses_hbm w) ops then AList.update rank (Max (set (map snd completions))) (st_hbm_available st)
                                  else st_hbm_available st)\<rparr>))))))"
    unfolding schedule_compute_group_def start_def Let_def by (subst (1) ops) (simp only: list.case same(1))
  then show ?thesis using same(2) oks_mono [OF oks_collect [OF e] main [OF _ le]] by simp
qed

subsection \<open>KV work\<close>

lemma launch_facts:
  assumes "launch_ok g l"
  shows "visit_ok l" "0 \<le> qv_completed_at_ps l" "eg_released_at_ps g \<le> qv_completed_at_ps l" "qv_finished_at_ps l \<le> qv_completed_at_ps l"
  using assms visit_order [of l] by (auto simp: launch_ok_def)

lemma kv_marker_ok:
  assumes "op_work op = KvCacheWork k" "launch_ok g l" "qv_completed_at_ps l \<le> t" "wit_ok sc t y"
  shows "outcome_ok g op sc l lo (schedule_kv_marker op t y e l)"
proof -
  note f = launch_facts [OF assms(2)]
  have "max (qv_completed_at_ps l) t = t" using assms(3) by simp
  then show ?thesis
    using single_outcome [OF single_participant(2) [OF assms(1)] _ launch_path [OF assms(2,3)] assms(4) launch_visits [OF assms(2,3)], of g lo e] f assms(3)
    by (simp add: schedule_kv_marker_def Let_def)
qed

lemma kv_traffic_oks:
  assumes "check_profile p = None" "0 < pf_hbm_rate_bps p" "operation_ok g op" "op_work op = KvCacheWork k" "launch_ok g l" "qv_completed_at_ps l \<le> t"
    "lo \<le> t" "wit_ok sc t y" "0 \<le> demand"
  shows "oks (schedule_kv_traffic p g op t y e l st demand) (\<lambda>(x, _). outcome_ok g op sc l lo x)"
proof -
  note f = launch_facts [OF assms(5)] and p = profile_facts [OF assms(1)]
  obtain d where d: "serialization_ps demand (pf_hbm_rate_bps p) = Inr d" using serialization_total assms by blast
  then have d0: "0 \<le> d" by (rule serialization_bounds)
  have m: "max (qv_completed_at_ps l) t = t" using assms(6) by simp
  have ok: "outcome_ok g op sc l lo (outcome_of op c c [(op_rank op, c)] [(op_rank op, [l, v])] [(op_rank op, y)] [l, v] [[l, v]] e y None [])"
    if "visited v HBM_QUEUE (qv_completed_at_ps l) t fin c" "t \<le> fin" "fin \<le> c" for v c fin
  proof -
    have a: "attributable (op_work op) v" "attributable (op_work op) l"
      using that(1) launch_attributable [OF assms(5)] by (simp_all add: attributable_def visited_def assms(4))
    have "visits_ok l lo c [l, v]" "path_ok (op_work op) c [l, v]" "eg_released_at_ps g \<le> c"
      using a that f assms(6,7) by (auto simp: visits_ok_def path_ok_def visited_def)
    then show ?thesis using single_outcome [OF single_participant(2) [OF assms(4)]] wit_ok_mono [OF assms(8), of c] that by auto
  qed
  have n: "nonblank (eg_execution_id g)" "nonblank (op_operation_id op)" "0 \<le> op_rank op" using assms(3) by (simp_all add: operation_ok_def)
  show ?thesis
    using n f assms(6,7,9) p d0
    by (auto simp: schedule_kv_traffic_def Let_def node_gpu_Inr d m intro!: new_visit_oks ok)
qed

subsection \<open>Copies\<close>

lemma fst_set_map_pair: "fst ` set (map (\<lambda>r. (r, c)) xs) = set xs"
  by force

lemma map_of_const: "map_of (map (\<lambda>r. (r, c)) xs) k = Some v \<Longrightarrow> v = c"
  by (induction xs) (auto split: if_splits)

text \<open>All participants end together on the same path.\<close>

lemma uniform_outcome:
  assumes "set ranks = set (operation_participant_ranks op)" "distinct ranks" "eg_released_at_ps g \<le> c" "path_ok (op_work op) c path"
    "wit_ok sc c y" "visits_ok launch lo c vs"
  shows "outcome_ok g op sc launch lo
    (outcome_of op c c (map (\<lambda>r. (r, c)) ranks) (map (\<lambda>r. (r, path)) ranks) (map (\<lambda>r. (r, y)) ranks) vs [path] e y None [])"
proof -
  have "ranks \<noteq> []" using assms(1) participant_ranks_facts(3) [of op] by auto
  then show ?thesis using assms
    by (auto simp: outcome_ok_def outcome_of_def participants_ok_def fst_set_map_pair comp_def image_image image_constant_conv dest!: map_of_const)
qed

text \<open>The runtime reads a lowered endpoint, the graph the endpoint itself; both see the same device.\<close>

lemma of_char_to_lower: "(of_char (to_lower c) :: nat) = (if 65 \<le> (of_char c :: nat) \<and> (of_char c :: nat) \<le> 90 then of_char c + 32 else of_char c)"
  by (simp add: to_lower_def Let_def)

lemma to_lower_classes: "py_isspace (to_lower c) = py_isspace c" "is_digit (to_lower c) = is_digit c"
  by (auto simp: py_isspace_def is_digit_def of_char_to_lower)

lemma to_lower_idem: "to_lower (to_lower c) = to_lower c"
  by (rule iffD1 [OF of_char_eq_iff [where 'a = nat]]) (simp add: of_char_to_lower)

lemma to_lower_colon: "to_lower c = CHR '':'' \<longleftrightarrow> c = CHR '':''"
  by (auto simp: of_char_to_lower simp flip: of_char_eq_iff [where 'a = nat])

lemma to_lower_digit: "is_digit c \<Longrightarrow> to_lower c = c"
  by (simp add: is_digit_def to_lower_def Let_def)

lemma strip_map: "py_strip (map to_lower s) = map to_lower (py_strip s)"
  by (simp add: py_strip_def dropWhile_map rev_map comp_def to_lower_classes)

lemma strip_idem: "py_strip (py_strip s) = py_strip s"
proof -
  let ?u = "dropWhile py_isspace s" and ?v = "\<lambda>u. rev (dropWhile py_isspace (rev u))"
  have "dropWhile py_isspace (?v ?u) = ?v ?u"
  proof (cases "?v ?u")
    case (Cons c cs)
    have "?u = ?v ?u @ rev (takeWhile py_isspace (rev ?u))"
      by (metis rev_append rev_rev_ident takeWhile_dropWhile_id)
    then have "hd ?u = c" "?u \<noteq> []" using Cons by (metis append_Cons list.sel(1), metis append_Cons list.simps(3))
    then have "\<not> py_isspace c" using hd_dropWhile [of py_isspace s] by simp
    then show ?thesis by (simp add: Cons)
  qed (simp only: dropWhile.simps)
  then show ?thesis by (simp add: py_strip_def)
qed

lemma takeWhile_digits: "takeWhile is_digit (map to_lower s) = takeWhile is_digit s"
  by (induction s) (auto simp: to_lower_classes to_lower_digit)

lemma device_participant_lowered: "device_participant (map to_lower (py_strip v)) = device_participant v"
proof -
  define s where "s = py_strip v"
  have s: "py_strip (map to_lower s) = map to_lower s" by (simp add: s_def strip_map strip_idem)
  have f: "(map to_lower (take n (map to_lower s)) = p) = (map to_lower (take n s) = p)" for n p
    by (simp add: take_map comp_def to_lower_idem)
  have h: "(dropWhile is_digit (map to_lower r) = [] \<or> hd (dropWhile is_digit (map to_lower r)) = CHR '':'') \<longleftrightarrow>
      (dropWhile is_digit r = [] \<or> hd (dropWhile is_digit r) = CHR '':'')" for r
    by (cases "dropWhile is_digit r") (auto simp: dropWhile_map comp_def to_lower_classes to_lower_colon)
  show ?thesis
    unfolding device_participant_def Let_def s f drop_map takeWhile_digits h s_def [symmetric] by simp
qed

lemma dma_endpoint_rank:
  assumes "dma_endpoint v rank = Inr x" shows "insert rank (set_option x) = insert rank (set_option (device_participant v))"
proof -
  define s where "s = map to_lower (py_strip v)"
  have s: "py_strip s = s" by (simp add: s_def strip_map strip_idem)
  have d: "device_participant s = device_participant v" by (simp add: s_def device_participant_lowered)
  have "device_participant s = None" if "s = ''host'' \<or> take 5 s = ''host:''"
  proof -
    have "take 4 s = ''host''" using that
    proof
      assume "take 5 s = ''host:''"
      then have "take 4 (take 5 s) = take 4 ''host:''" by simp
      then show ?thesis by simp
    qed simp
    then obtain r where "s = ''host'' @ r" by (metis append_take_drop_id)
    then have "find (\<lambda>p. map to_lower (take (length p) s) = p) [''gpu:'', ''cuda:'', ''rank:''] = None" by (simp add: to_lower_def)
    then show ?thesis unfolding device_participant_def Let_def s by simp
  qed
  then show ?thesis using assms d
    by (auto simp: dma_endpoint_def Let_def simp flip: s_def split: if_splits option.splits)
qed

lemma dma_participants:
  assumes "dma_endpoints w (op_rank op) = Inr (s, d)" "op_work op = DmaWork w"
  shows "set (remdups (op_rank op # List.map_filter id [s, d])) = set (operation_participant_ranks op)"
proof -
  have e: "dma_endpoint (dw_source w) (op_rank op) = Inr s" "dma_endpoint (dw_destination w) (op_rank op) = Inr d"
    using assms(1) by (auto simp: dma_endpoints_def rbind_Inr_iff)
  have o': "set (List.map_filter f xs) = (\<Union>x \<in> set xs. set_option (f x))" for f and xs :: "'a list"
    by (induction xs) (auto simp: map_filter_simps split: option.splits)
  have a: "set (remdups (op_rank op # List.map_filter id [s, d])) = insert (op_rank op) (set_option s \<union> set_option d)"
    by (simp only: set_remdups list.set o') simp
  have b: "set (operation_participant_ranks op) =
      insert (op_rank op) (set_option (device_participant (dw_source w)) \<union> set_option (device_participant (dw_destination w)))"
    unfolding operation_participant_ranks_def assms(2) by (simp only: work_payload.case set_sort set_remdups list.set o') simp
  show ?thesis using dma_endpoint_rank [OF e(1)] dma_endpoint_rank [OF e(2)] unfolding a b by blast
qed

lemma dma_oks:
  assumes "check_profile p = None" "services_lawful cfg" "rc_profile cfg = p" "operation_ok g op" "op_work op = DmaWork w" "launch_ok g l"
    "qv_completed_at_ps l \<le> t" "lo \<le> t" "wit_ok sc t y" "oks (dma_direction w (op_rank op)) (\<lambda>d. copy_candidates p d \<noteq> [])"
  shows "oks (schedule_dma p g op w t y l st) (\<lambda>(x, _). outcome_ok g op sc l lo x)"
proof -
  note f = launch_facts [OF assms(6)] and p = profile_facts [OF assms(1)]
  have n: "nonblank (eg_execution_id g)" "nonblank (op_operation_id op)" "0 \<le> op_rank op" "validate_dma w = None"
    using assms(4) by (simp_all add: operation_ok_def assms(5))
  obtain direction where dir: "dma_direction w (op_rank op) = Inr direction" "copy_candidates p direction \<noteq> []"
    using assms(10) by (auto simp: oks_def)
  then obtain s d where ends: "dma_endpoints w (op_rank op) = Inr (s, d)"
    by (auto simp: dma_direction_def rbind_Inr_iff)
  define tr where "tr = \<lparr>ct_transfer_id = dw_descriptor_id w, ct_direction = direction, ct_bytes = dw_byte_count w, ct_source = dw_source w,
    ct_destination = dw_destination w\<rparr>"
  have tr: "dw_byte_count w > 0 \<Longrightarrow> check_transfer tr = None"
    using n(4) by (simp add: validate_dma_def check_transfer_def require_defs tr_def)
  define transfer where "transfer = (if dw_byte_count w > 0 then Some tr else None)"
  have choice: "oks (copy_choice st op t transfer e) (\<lambda>(started, e', duration). t \<le> started \<and> 0 \<le> duration)"
    if "e \<in> set (copy_candidates p direction)" for e
  proof -
    have "e \<in> set (pf_copy_engines (rc_profile cfg))" using that by (simp add: copy_candidates_def assms(3))
    then have "\<exists>d. en_estimate e tr = Some d \<and> 0 \<le> d" if "check_transfer tr = None" using assms(2) that by (simp add: services_lawful_def)
    then show ?thesis using tr by (auto simp: copy_choice_def Let_def transfer_def)
  qed
  have ok: "outcome_ok g op sc l lo (outcome_of op c c (map (\<lambda>r. (r, c)) ranks) (map (\<lambda>r. (r, [l, v])) ranks) (map (\<lambda>r. (r, y)) ranks)
      [l, v, h] [[l, v]] t y None [])"
    if "visited v COPY_ENGINE (qv_completed_at_ps l) t fin c" "visited h HBM_QUEUE (qv_completed_at_ps l) t fin fin" "t \<le> fin" "fin \<le> c"
      "set ranks = set (operation_participant_ranks op)" "distinct ranks" for v h c fin ranks
  proof -
    have a: "attributable (op_work op) v" "attributable (op_work op) l"
      using that(1) launch_attributable [OF assms(6)] by (simp_all add: attributable_def visited_def)
    have "visits_ok l lo c [l, v, h]" "path_ok (op_work op) c [l, v]" "eg_released_at_ps g \<le> c"
      using a that f assms(7,8) by (auto simp: visits_ok_def path_ok_def visited_def)
    then show ?thesis using uniform_outcome [OF that(5,6)] wit_ok_mono [OF assms(9), of c] that(3,4) by auto
  qed
  have ranks: "set (remdups (op_rank op # List.map_filter id [s, d])) = set (operation_participant_ranks op)"
    using dma_participants [OF ends assms(5)] .
  have tx: "(if dw_byte_count w > 0 then rec_check (check_transfer tr) (Inr (Some tr)) else Inr None) = Inr transfer"
    using tr by (simp add: transfer_def rec_check_def)
  have inner: "oks (rbind (rec_err (node_gpu p (op_rank op))) (\<lambda>ng.
      rbind (new_visit g op COPY_ENGINE (gpu_resource ng (''copy:'' @ en_engine_id e)) (qv_completed_at_ps l) t a (a + du)
        (a + du + pf_completion_delivery_ps p) (dw_byte_count w)) (\<lambda>copy.
      rbind (new_visit g op HBM_QUEUE (gpu_resource ng ''hbm'') (qv_completed_at_ps l) t a (a + du) (a + du) (dw_byte_count w)) (\<lambda>hbm.
      rbind (dma_endpoints w (op_rank op)) (\<lambda>(s, d). Inr (outcome_of op (a + du + pf_completion_delivery_ps p) (a + du + pf_completion_delivery_ps p)
        (map (\<lambda>r. (r, a + du + pf_completion_delivery_ps p)) (remdups (op_rank op # List.map_filter id [s, d])))
        (map (\<lambda>r. (r, [l, copy])) (remdups (op_rank op # List.map_filter id [s, d])))
        (map (\<lambda>r. (r, y)) (remdups (op_rank op # List.map_filter id [s, d]))) [l, copy, hbm] [[l, copy]] t y None [], st'))))))
      (\<lambda>(x, _). outcome_ok g op sc l lo x)" if "t \<le> a" "0 \<le> du" for a du e and st' :: runtime_state
    unfolding node_gpu_Inr [OF n(3)] ends oks_rec_err oks_rbind oks_simps prod.case
    by (intro new_visit_oks n nonblank_gpu_resource f ok [where fin = "a + du"] ranks) (use n(4) p that f assms(7) in \<open>auto simp: validate_dma_def\<close>)
  have "oks (collect (copy_choice st op t transfer) (copy_candidates p direction))
      (\<lambda>cs. cs \<noteq> [] \<and> (\<forall>c \<in> set cs. t \<le> fst c \<and> 0 \<le> snd (snd c)))"
    by (rule oks_mono [OF oks_collect [OF choice]]) (use dir(2) in \<open>auto dest: list_all2_set2 list_all2_lengthD\<close>)
  then obtain cs where cs: "collect (copy_choice st op t transfer) (copy_candidates p direction) = Inr cs" "cs \<noteq> []"
    "\<forall>c \<in> set cs. t \<le> fst c \<and> 0 \<le> snd (snd c)" by (auto simp: oks_def)
  obtain a e du where m: "arg_min_list fst cs = (a, e, du)" by (cases "arg_min_list fst cs")
  have "t \<le> a" "0 \<le> du" using cs(3) arg_min_list_in [OF cs(2), of fst] by (auto simp: m)
  then show ?thesis
    unfolding schedule_dma_def Let_def dir(1) rbind_simps tr_def [symmetric] tx cs(1) if_not_P [OF cs(2)] m prod.case
    by (rule inner)
qed

end
