(* ===== verification/Collective_Outcomes.thy ===== *)
theory Collective_Outcomes
  imports Runtime_Outcomes
begin

text \<open>
  Control messages, rings and pairwise exchanges return well-formed outcomes, for every authority
  that keeps the seam \<open>wqe_authority\<close>.
\<close>

subsection \<open>Paths\<close>

lemma first_max_in: "first_max key x xs \<in> insert x (set xs)"
proof -
  have "foldl (\<lambda>b y. if key b < key y then y else b) z ys \<in> insert z (set ys)" for z ys
    by (induction ys arbitrary: z) force+
  then show ?thesis by (simp add: first_max_def)
qed

lemma logical_path_index_oks:
  "paths \<noteq> [] \<Longrightarrow> (\<And>p. p \<in> set paths \<Longrightarrow> p \<noteq> []) \<Longrightarrow> oks (logical_path_index paths) (\<lambda>i. i < length paths)"
  using first_max_in [of "\<lambda>i. path_key (paths ! i)" 0 "[1..<length paths]"]
  by (auto simp: logical_path_index_def list_ex_iff)

lemma oks_rfold_prefix:
  assumes "I [] s" "\<And>pre x t. set (pre @ [x]) \<subseteq> set xs \<Longrightarrow> I pre t \<Longrightarrow> oks (f x t) (I (pre @ [x]))" shows "oks (rfold f xs s) (I xs)"
proof -
  have "oks (rfold f ys t) (I (pre @ ys))" if "I pre t" "set (pre @ ys) \<subseteq> set xs" for pre ys t
    using that
  proof (induction ys arbitrary: pre t)
    case (Cons y ys)
    have "oks (f y t) (I (pre @ [y]))" using Cons.prems by (intro assms(2)) auto
    moreover have "oks (rfold f ys u) (I (pre @ y # ys))" if "I (pre @ [y]) u" for u
      using Cons.IH [OF that] Cons.prems(2) by simp
    ultimately show ?case by (simp add: oks_mono)
  qed simp
  then show ?thesis using assms(1) by fastforce
qed

subsection \<open>Extents\<close>

text \<open>The witness of the latest participant.\<close>

lemma completion_witness_oks:
  assumes "dict_ok ends" "ends \<noteq> []" "fst ` set ends = fst ` set wits"
    "\<And>r t y. map_of ends r = Some t \<Longrightarrow> map_of wits r = Some y \<Longrightarrow> wit_ok sc t y"
  shows "oks (completion_causal_witness ends wits) (wit_ok sc (Max (snd ` set ends)))"
proof -
  let ?P = "\<lambda>x c. fst c = snd x \<and> wit_ok sc (snd x) (snd c)"
  have entries: "oks (collect (\<lambda>(rank, t). rbind (entry_at wits rank) (\<lambda>y. Inr (t, y))) ends) (list_all2 ?P ends)"
  proof (rule oks_collect)
    fix x assume x: "x \<in> set ends"
    obtain r t where rt: "x = (r, t)" by (cases x)
    have "map_of ends r = Some t" using map_of_is_SomeI [OF assms(1)] x by (simp add: rt)
    moreover have "r \<in> fst ` set wits" using x assms(3) rt by (metis fst_conv image_eqI)
    then obtain y where "map_of wits r = Some y" by (metis map_of_eq_None_iff not_Some_eq)
    ultimately show "oks (case x of (rank, t) \<Rightarrow> rbind (entry_at wits rank) (\<lambda>y. Inr (t, y))) (?P x)" using assms(4) by (simp add: rt)
  qed
  have select: "oks (select_causal_witness cs) (wit_ok sc (Max (snd ` set ends)))" if cs: "list_all2 ?P ends cs" for cs
  proof -
    obtain d ds where ds: "cs = d # ds" using cs assms(2) by (cases cs) auto
    have "first_max witness_key d ds \<in> set cs" using first_max_in [of witness_key d ds] ds by simp
    then obtain x where "x \<in> set ends" "?P x (first_max witness_key d ds)" using list_all2_set2 [OF cs] by blast
    then show ?thesis by (auto simp: select_causal_witness_def ds intro!: Max_ge wit_ok_mono [of sc "snd x"])
  qed
  show ?thesis using assms(3) oks_mono [OF entries select] by (simp add: completion_causal_witness_def)
qed

definition extent_ok :: "work_payload \<Rightarrow> int \<Rightarrow> int \<Rightarrow> int \<Rightarrow> queue_visit \<Rightarrow> send_schedule \<Rightarrow> int \<Rightarrow> bool" where
  "extent_ok w lo send_ready receive_ready v t completed \<longleftrightarrow>
     send_ready \<le> qv_completed_at_ps v \<and> receive_ready \<le> completed \<and> qv_completed_at_ps v \<le> completed \<and> 0 \<le> completed \<and>
     (\<forall>u \<in> set (v # ss_visits t). visit_ok u \<and> attributable w u \<and> qv_completed_at_ps u \<le> completed \<and> lo \<le> qv_eligible_at_ps u) \<and>
     (\<forall>q. ss_projection t = Some q \<longrightarrow> wqe_ok completed q)"

lemma extent_visits: "extent_ok w lo sr rr v t c \<Longrightarrow> visits_ok l lo c (v # ss_visits t)"
  using visit_order(5) by (fastforce simp: extent_ok_def visits_ok_def)

lemma extent_path: "extent_ok w lo sr rr v t c \<Longrightarrow> path_ok w s path \<Longrightarrow> s \<le> sr \<Longrightarrow> path_ok w c (path @ v # ss_visits t)"
  by (rule path_ok_append) (auto simp: extent_ok_def intro: path_ok_mono)

lemma nccl_channel_oks:
  assumes "check_profile p = None" "operation_ok g op" "launch_ok g l" "0 \<le> rank" "qv_completed_at_ps l \<le> eligible"
  shows "oks (schedule_nccl_channel p g op rank channel (qv_completed_at_ps l) eligible m)
    (\<lambda>(v, m'). mc_wqe m' = mc_wqe m \<and> visit_ok v \<and> rr_kind (qv_resource v) = NCCL_CHANNEL \<and> qv_eligible_at_ps v = eligible \<and>
      eligible \<le> qv_completed_at_ps v)"
  using launch_facts [OF assms(3)] profile_facts [OF assms(1)] assms
  by (auto simp: schedule_nccl_channel_def Let_def node_gpu_Inr operation_ok_def visited_def intro!: new_visit_oks)

context wqe_authority
begin

lemma send_extent_oks:
  assumes cfg: "rc_profile cfg = p" "rc_receiver_ingress cfg = ingress" "check_profile p = None"
    and op: "operation_ok g op" "launch_ok g l" and m: "inv (mc_wqe m)"
    and ranks: "0 \<le> source" "0 \<le> destination" "source \<noteq> destination" and b: "0 \<le> bytes" "0 \<le> tag"
    and n: "nonblank send_channel" "nonblank command" and r: "qv_completed_at_ps l \<le> send_ready" "lo \<le> send_ready"
  shows "oks (send_extent cfg A g op l channel send_channel (source, destination, bytes) tag extent (send_ready, receive_ready) command m)
    (\<lambda>((v, t, completed), m'). inv (mc_wqe m') \<and> extent_ok w lo send_ready receive_ready v t completed)"
proof -
  have step: "oks (schedule_semantic_send cfg A g op (send_request.make source destination bytes tag (int extent) send_channel (qv_completed_at_ps v)
      (max (qv_completed_at_ps v) receive_ready) (Some command)) m')
      (\<lambda>(t, m2). oks (send_completed_at_ps t) (\<lambda>c. inv (mc_wqe m2) \<and> extent_ok w lo send_ready receive_ready v t c))"
    if v: "visit_ok v" "rr_kind (qv_resource v) = NCCL_CHANNEL" "qv_eligible_at_ps v = send_ready" "send_ready \<le> qv_completed_at_ps v"
      and m': "mc_wqe m' = mc_wqe m" for v m'
  proof -
    let ?r = "send_request.make source destination bytes tag (int extent) send_channel (qv_completed_at_ps v)
      (max (qv_completed_at_ps v) receive_ready) (Some command)"
    have q: "request_ok ?r" using ranks b n v launch_facts [OF op(2)] r by (auto simp: request_ok_def send_request.defs)
    have x: "attributable w v" using v(2) by (auto intro: network_attributable)
    have "oks (schedule_semantic_send cfg A g op ?r m')
        (\<lambda>(t, m'). inv (mc_wqe m') \<and> transfer_ok w (sr_submitted_at_ps ?r) (sr_eligible_at_ps ?r) t)"
      using cfg op(1) m m' q by (intro semantic_send_oks) (auto simp: operation_ok_def)
    then show ?thesis
    proof (rule oks_mono, clarify)
      fix t m2 assume "inv (mc_wqe m2)" and t: "transfer_ok w (sr_submitted_at_ps ?r) (sr_eligible_at_ps ?r) t"
      have c: "ss_visits t \<noteq> []" "max (qv_completed_at_ps v) receive_ready \<le> qv_completed_at_ps (last (ss_visits t))"
        "\<forall>u \<in> set (ss_visits t). visit_ok u \<and> attributable w u \<and> qv_completed_at_ps v \<le> qv_eligible_at_ps u \<and>
          qv_completed_at_ps u \<le> qv_completed_at_ps (last (ss_visits t))"
        using t by (auto simp: transfer_ok_def send_request.defs)
      have "extent_ok w lo send_ready receive_ready v t (qv_completed_at_ps (last (ss_visits t)))"
        using c v x r t launch_facts [OF op(2)] unfolding extent_ok_def by (auto simp: transfer_ok_def)
      then show "oks (send_completed_at_ps t) (\<lambda>c. inv (mc_wqe m2) \<and> extent_ok w lo send_ready receive_ready v t c)"
        using \<open>inv (mc_wqe m2)\<close> c(1) by (simp add: send_completed_at_ps_def)
    qed
  qed
  show ?thesis
    unfolding send_extent_def prod.case oks_rbind cfg(1)
    by (rule oks_mono [OF nccl_channel_oks [OF cfg(3) op ranks(1) r(1)]])
      (use step in \<open>auto simp: send_request.defs elim!: oks_mono\<close>)
qed

end

subsection \<open>Control\<close>

definition control_ok :: "execution_graph \<Rightarrow> execution_operation \<Rightarrow> (string, scheduled_operation) dict \<Rightarrow> queue_visit \<Rightarrow> int \<Rightarrow> int
    \<Rightarrow> int set \<Rightarrow> control_progress \<Rightarrow> bool" where
  "control_ok g op sc l lo finished ranks c \<longleftrightarrow>
     participants_ok g (op_work op) ranks sc (cg_completed c) (cg_participant_paths c) (cg_witnesses c) \<and>
     (\<forall>t \<in> snd ` set (cg_completed c). t \<le> cg_physical c) \<and> map_of (cg_completed c) (op_rank op) = Some finished \<and> finished \<le> cg_physical c \<and>
     visits_ok l lo (cg_physical c) (cg_visits c) \<and> cg_paths c \<noteq> [] \<and> (\<forall>path \<in> set (cg_paths c). path_ok (op_work op) (cg_physical c) path) \<and>
     length (cg_path_witnesses c) = length (cg_paths c) \<and> (\<forall>y \<in> set (cg_path_witnesses c). wit_ok sc (cg_physical c) y) \<and>
     (\<forall>q \<in> set (cg_wqes c). wqe_ok (cg_physical c) q)"

lemma wqe_ok_mono: "wqe_ok t q \<Longrightarrow> t \<le> t' \<Longrightarrow> wqe_ok t' q"
  by (simp add: wqe_ok_def)

lemma update_values: "(k', u) \<in> set (AList.update k v d) \<Longrightarrow> u = v \<or> u \<in> snd ` set d"
  by (induction d) (force split: if_splits)+

lemma control_step_ok:
  assumes "control_ok g op sc l lo finished ranks c" "destination \<noteq> op_rank op" "eg_released_at_ps g \<le> completed" "0 \<le> completed" "path_ok (op_work op) completed path"
    "wit_ok sc completed x" "visits_ok l lo completed vs" "\<forall>q \<in> set qs. wqe_ok completed q"
  shows "control_ok g op sc l lo finished (insert destination ranks) (c\<lparr>cg_visits := cg_visits c @ vs, cg_paths := cg_paths c @ [path],
    cg_path_witnesses := cg_path_witnesses c @ [x], cg_wqes := cg_wqes c @ qs, cg_physical := max (cg_physical c) completed,
    cg_completed := AList.update destination (max (dict_get (cg_completed c) destination 0) completed) (cg_completed c),
    cg_participant_paths := AList.update destination path (cg_participant_paths c), cg_witnesses := AList.update destination x (cg_witnesses c)\<rparr>)"
proof -
  let ?t = "max (dict_get (cg_completed c) destination 0) completed" and ?b = "max (cg_physical c) completed"
  have p: "participants_ok g (op_work op) (insert destination ranks) sc (AList.update destination ?t (cg_completed c))
      (AList.update destination path (cg_participant_paths c)) (AList.update destination x (cg_witnesses c))"
    using assms(1,3) by (intro participants_update path_ok_mono [OF assms(5)] wit_ok_mono [OF assms(6)]) (auto simp: control_ok_def)
  have "dict_get (cg_completed c) destination 0 \<le> ?b"
    using assms(1,4) by (force simp: control_ok_def split: option.splits dest!: map_of_SomeD)
  then have "\<forall>t \<in> snd ` set (AList.update destination ?t (cg_completed c)). t \<le> ?b"
    using assms(1) by (auto simp: control_ok_def dest!: update_values)
  moreover have "visits_ok l lo ?b (cg_visits c @ vs)" "\<forall>path \<in> set (cg_paths c). path_ok (op_work op) ?b path"
    "\<forall>y \<in> set (cg_path_witnesses c). wit_ok sc ?b y" "\<forall>q \<in> set (cg_wqes c @ qs). wqe_ok ?b q" "path_ok (op_work op) ?b path" "wit_ok sc ?b x"
    using assms by (auto simp: control_ok_def intro: visits_ok_mono path_ok_mono wit_ok_mono wqe_ok_mono)
  ultimately show ?thesis using assms(1,2) p by (auto simp: control_ok_def update_conv)
qed

lemma control_outcome:
  assumes c: "control_ok g op sc l lo finished (set (operation_participant_ranks op)) c" and y: "wit_ok sc finished y"
    and path: "path_ok (op_work op) finished [l, control]"
  shows "i < length (cg_paths c) \<Longrightarrow> outcome_ok g op sc l lo (outcome_of op (cg_physical c) (cg_physical c)
      (AList.update (op_rank op) (cg_physical c) (cg_completed c)) (cg_participant_paths c) (cg_witnesses c) (cg_visits c) (cg_paths c) e
      (cg_path_witnesses c ! i) None (cg_wqes c))"
    "outcome_ok g op sc l lo (outcome_of op finished (cg_physical c) (AList.update (op_rank op) finished (cg_completed c))
      (cg_participant_paths c) (cg_witnesses c) (cg_visits c) [[l, control]] e y None (cg_wqes c))"
proof -
  have r: "map_of (cg_completed c) (op_rank op) = Some finished" "finished \<le> cg_physical c" using c by (simp_all add: control_ok_def)
  have pc: "participants_ok g (op_work op) (set (operation_participant_ranks op)) sc (cg_completed c) (cg_participant_paths c) (cg_witnesses c)"
    using c by (simp add: control_ok_def)
  obtain z where z: "map_of (cg_witnesses c) (op_rank op) = Some z" "wit_ok sc finished z"
    using participants_entry [OF pc, of "op_rank op"] r(1) by auto
  have up: "participants_ok g (op_work op) (set (operation_participant_ranks op)) sc (AList.update (op_rank op) t (cg_completed c))
      (cg_participant_paths c) (cg_witnesses c)" if "finished \<le> t" for t
    using participants_raise [OF pc r(1) that wit_ok_mono [OF z(2) that]] by (simp add: update_triv z(1))
  have b: "\<forall>t' \<in> snd ` set (AList.update (op_rank op) t (cg_completed c)). t' \<le> cg_physical c" if "t \<le> cg_physical c" for t
    using c that by (auto simp: control_ok_def dest!: update_values)
  have m: "t \<in> snd ` set (AList.update (op_rank op) t (cg_completed c))" for t
    using map_of_SomeD [of "AList.update (op_rank op) t (cg_completed c)" "op_rank op" t] by (force simp: update_conv)
  show "outcome_ok g op sc l lo (outcome_of op (cg_physical c) (cg_physical c)
      (AList.update (op_rank op) (cg_physical c) (cg_completed c)) (cg_participant_paths c) (cg_witnesses c) (cg_visits c) (cg_paths c) e
      (cg_path_witnesses c ! i) None (cg_wqes c))" if "i < length (cg_paths c)"
  proof -
    have "wit_ok sc (cg_physical c) (cg_path_witnesses c ! i)" using c that by (simp add: control_ok_def)
    then show ?thesis using c up [OF r(2)] b [of "cg_physical c"] m [of "cg_physical c"]
      unfolding outcome_ok_def outcome_of_def by (auto simp: control_ok_def)
  qed
  show "outcome_ok g op sc l lo (outcome_of op finished (cg_physical c) (AList.update (op_rank op) finished (cg_completed c))
      (cg_participant_paths c) (cg_witnesses c) (cg_visits c) [[l, control]] e y None (cg_wqes c))"
    using c up [of finished] b [OF r(2)] m [of finished] y path
    unfolding outcome_ok_def outcome_of_def by (auto simp: control_ok_def)
qed

context wqe_authority
begin

lemma control_destination_oks:
  assumes cfg: "rc_profile cfg = p" "rc_receiver_ingress cfg = ingress" "check_profile p = None"
    and op: "operation_ok g op" "op_work op = ControlWork w" "launch_ok g l" "ready_ok op sc l lo ready"
    and control: "visited control CONTROL_QUEUE (qv_completed_at_ps l) t0 finished finished" "map_of (rd_by_rank ready) (op_rank op) = Some t0" "t0 \<le> finished"
    and d: "destination \<in> set (xw_destination_ranks w)"
    and c: "control_ok g op sc l lo finished ranks c" "op_rank op \<in> ranks" "inv (mc_wqe m)"
  shows "oks (control_destination cfg A g op w i ready l control (extent, destination) (c, m))
    (\<lambda>(c', m'). control_ok g op sc l lo finished (insert destination ranks) c' \<and> inv (mc_wqe m'))"
proof (cases "destination = op_rank op")
  case True
  then show ?thesis using c by (simp add: control_destination_def insert_absorb)
next
  case False
  have w: "nonblank (xw_message w)" "0 \<le> destination" "0 \<le> xw_payload_bytes w" "0 \<le> op_rank op" "nonblank (eg_execution_id g)" "nonblank (op_operation_id op)"
    using op(1,2) d by (auto simp: operation_ok_def validate_control_def)
  note lf = launch_facts [OF op(3)] and p = profile_facts [OF cfg(3)]
  have "destination \<in> set (operation_participant_ranks op)" using d by (simp add: operation_participant_ranks_def op(2))
  then obtain t1 y1 where r1: "map_of (rd_by_rank ready) destination = Some t1" "map_of (rd_witnesses ready) destination = Some y1" "wit_ok sc t1 y1"
    "qv_completed_at_ps l \<le> t1" using ready_time [OF op(4)] by blast
  obtain y0 where r0: "map_of (rd_witnesses ready) (op_rank op) = Some y0" "wit_ok sc t0 y0" "lo \<le> t0" "qv_completed_at_ps l \<le> t0"
    using ready_time [OF op(4), of "op_rank op"] control(2) by auto
  have v: "visit_ok control" "qv_completed_at_ps control = finished" "attributable (op_work op) control" "attributable (op_work op) l"
    using control(1) launch_attributable [OF op(3)] by (auto simp: visited_def attributable_def)
  define r where "r = send_request.make (op_rank op) destination (xw_payload_bytes w)
     (pf_goal_base_tag p + control_goal_tag_offset + int i * control_goal_tag_stride + int extent) (int extent) (''control:'' @ xw_message w)
     finished (max finished t1) None"
  have nb: "nonblank (''control:'' @ xw_message w)" by (simp add: nonblank_def py_isspace_def)
  have rq: "request_ok r" using w nb False lf r0 control(3) p
    by (auto simp: request_ok_def r_def send_request.defs control_goal_tag_offset_def control_goal_tag_stride_def)
  have send: "oks (schedule_semantic_send cfg A g op r m)
      (\<lambda>(t, m'). inv (mc_wqe m') \<and> transfer_ok (op_work op) (sr_submitted_at_ps r) (sr_eligible_at_ps r) t)"
    using cfg w c(3) rq by (intro semantic_send_oks) auto
  have step: "control_ok g op sc l lo finished (insert destination ranks) (c\<lparr>cg_visits := cg_visits c @ ss_visits t, cg_paths := cg_paths c @ [[l, control] @ ss_visits t],
      cg_path_witnesses := cg_path_witnesses c @ [select_two (finished, y0) (t1, y1)],
      cg_wqes := cg_wqes c @ (case ss_projection t of None \<Rightarrow> [] | Some w \<Rightarrow> [w]),
      cg_physical := max (cg_physical c) (qv_completed_at_ps (last (ss_visits t))),
      cg_completed := AList.update destination (max (dict_get (cg_completed c) destination 0) (qv_completed_at_ps (last (ss_visits t)))) (cg_completed c),
      cg_participant_paths := AList.update destination ([l, control] @ ss_visits t) (cg_participant_paths c),
      cg_witnesses := AList.update destination (select_two (finished, y0) (t1, y1)) (cg_witnesses c)\<rparr>)" and ne: "ss_visits t \<noteq> []"
    if "transfer_ok (op_work op) (sr_submitted_at_ps r) (sr_eligible_at_ps r) t" for t
  proof -
    have t: "ss_visits t \<noteq> []" "max finished t1 \<le> qv_completed_at_ps (last (ss_visits t))"
      "\<forall>u \<in> set (ss_visits t). visit_ok u \<and> attributable (op_work op) u \<and> finished \<le> qv_eligible_at_ps u \<and>
        qv_completed_at_ps u \<le> qv_completed_at_ps (last (ss_visits t))"
      "\<forall>q \<in> set (case ss_projection t of None \<Rightarrow> [] | Some w \<Rightarrow> [w]). wqe_ok (qv_completed_at_ps (last (ss_visits t))) q"
      using that by (auto simp: transfer_ok_def r_def send_request.defs split: option.splits)
    show "ss_visits t \<noteq> []" by (rule t(1))
    have vs: "visits_ok l lo (qv_completed_at_ps (last (ss_visits t))) (ss_visits t)"
      using t(3) r0 control(3) visit_order(5) unfolding visits_ok_def by fastforce
    have pa: "path_ok (op_work op) (qv_completed_at_ps (last (ss_visits t))) ([l, control] @ ss_visits t)"
      using t v lf r0 control(3) by (auto simp: path_ok_def)
    have wi: "wit_ok sc (qv_completed_at_ps (last (ss_visits t))) (select_two (finished, y0) (t1, y1))"
      using t(2) control(3) by (intro wit_ok_select r1(3) wit_ok_mono [OF r0(2)]) auto
    have bo: "eg_released_at_ps g \<le> qv_completed_at_ps (last (ss_visits t))" "0 \<le> qv_completed_at_ps (last (ss_visits t))"
      using t(2) lf r0 control(3) by linarith+
    show "control_ok g op sc l lo finished (insert destination ranks) (c\<lparr>cg_visits := cg_visits c @ ss_visits t, cg_paths := cg_paths c @ [[l, control] @ ss_visits t],
      cg_path_witnesses := cg_path_witnesses c @ [select_two (finished, y0) (t1, y1)],
      cg_wqes := cg_wqes c @ (case ss_projection t of None \<Rightarrow> [] | Some w \<Rightarrow> [w]),
      cg_physical := max (cg_physical c) (qv_completed_at_ps (last (ss_visits t))),
      cg_completed := AList.update destination (max (dict_get (cg_completed c) destination 0) (qv_completed_at_ps (last (ss_visits t)))) (cg_completed c),
      cg_participant_paths := AList.update destination ([l, control] @ ss_visits t) (cg_participant_paths c),
      cg_witnesses := AList.update destination (select_two (finished, y0) (t1, y1)) (cg_witnesses c)\<rparr>)"
      by (rule control_step_ok [OF c(1) False bo pa wi vs t(4)])
  qed
  show ?thesis
    unfolding control_destination_def prod.case if_not_P [OF False] oks_rbind oks_entry_at Let_def oks_simps v(2) cfg(1)
    using r0 r1 send step ne
    by (auto simp: r_def send_request.defs send_completed_at_ps_def elim!: oks_mono)
qed

lemma schedule_control_oks:
  assumes cfg: "rc_profile cfg = p" "rc_receiver_ingress cfg = ingress" "check_profile p = None"
    and op: "operation_ok g op" "op_work op = ControlWork w" "launch_ok g l" "ready_ok op sc l lo ready" and m: "inv (mc_wqe m)"
  shows "oks (schedule_control cfg A g op w i ready l m) (\<lambda>(x, m'). outcome_ok g op sc l lo x \<and> inv (mc_wqe m'))"
proof -
  note lf = launch_facts [OF op(3)] and p = profile_facts [OF cfg(3)]
  have w: "0 \<le> xw_payload_bytes w" "0 \<le> op_rank op" "nonblank (eg_execution_id g)" "nonblank (op_operation_id op)"
    using op(1,2) by (auto simp: operation_ok_def validate_control_def)
  obtain t0 y0 where r: "map_of (rd_by_rank ready) (op_rank op) = Some t0" "map_of (rd_witnesses ready) (op_rank op) = Some y0" "wit_ok sc t0 y0"
    "qv_completed_at_ps l \<le> t0" "lo \<le> t0" using ready_time [OF op(4), of "op_rank op"] by auto
  define a where "a = max t0 (dict_get (st_control_available (mc_state m)) (op_rank op) 0)"
  define f where "f = a + pf_control_service_ps p"
  have f: "t0 \<le> f" "t0 \<le> a" "a \<le> f" using p by (auto simp: f_def a_def)
  let ?w = "\<lambda>control. \<lparr>cg_visits = [l, control], cg_paths = [[l, control]], cg_path_witnesses = [y0], cg_wqes = [], cg_physical = f,
    cg_completed = [(op_rank op, f)], cg_participant_paths = [(op_rank op, [l, control])], cg_witnesses = [(op_rank op, y0)]\<rparr>"
  have ranks: "insert (op_rank op) (set (map snd (enumerate 0 (xw_destination_ranks w)))) = set (operation_participant_ranks op)"
    by (simp add: operation_participant_ranks_def op(2) insert_absorb del: set_map)
  have main: "oks (rfold (control_destination cfg A g op w i ready l control) (enumerate 0 (xw_destination_ranks w)) (?w control, m1))
      (\<lambda>(c, m'). control_ok g op sc l lo f (set (operation_participant_ranks op)) c \<and> inv (mc_wqe m'))" and path: "path_ok (op_work op) f [l, control]"
    if control: "visited control CONTROL_QUEUE (qv_completed_at_ps l) t0 f f" and m1: "inv (mc_wqe m1)" for control m1
  proof -
    have v: "visit_ok control" "qv_completed_at_ps control = f" "qv_finished_at_ps control = f" "qv_eligible_at_ps control = t0"
      "attributable (op_work op) control" "attributable (op_work op) l"
      using control launch_attributable [OF op(3)] by (auto simp: visited_def attributable_def)
    show path: "path_ok (op_work op) f [l, control]" using v lf r f by (auto simp: path_ok_def)
    have c0: "control_ok g op sc l lo f {op_rank op} (?w control)"
      using v lf r f path wit_ok_mono [OF r(3) f(1)] by (auto simp: control_ok_def participants_ok_def visits_ok_def split: if_splits)
    have "oks (rfold (control_destination cfg A g op w i ready l control) (enumerate 0 (xw_destination_ranks w)) (?w control, m1))
      (\<lambda>(c, m'). control_ok g op sc l lo f (insert (op_rank op) (set (map snd (enumerate 0 (xw_destination_ranks w))))) c \<and> inv (mc_wqe m'))"
    proof (rule oks_rfold_prefix [where I = "\<lambda>pre (c, m'). control_ok g op sc l lo f (insert (op_rank op) (set (map snd pre))) c \<and> inv (mc_wqe (m' :: 'w machine))"])
      show "case (?w control, m1) of (c, m') \<Rightarrow> control_ok g op sc l lo f (insert (op_rank op) (set (map snd []))) c \<and> inv (mc_wqe m')"
        using c0 m1 by simp
      fix pre x and t :: "control_progress \<times> 'w machine"
      assume pre: "set (pre @ [x]) \<subseteq> set (enumerate 0 (xw_destination_ranks w))"
        and t: "case t of (c, m') \<Rightarrow> control_ok g op sc l lo f (insert (op_rank op) (set (map snd pre))) c \<and> inv (mc_wqe m')"
      obtain e d where x: "x = (e, d)" by (cases x)
      obtain c m' where tc: "t = (c, m')" by (cases t)
      have d: "d \<in> set (xw_destination_ranks w)" using pre by (auto simp: x in_set_enumerate_eq)
      have "oks (control_destination cfg A g op w i ready l control (e, d) (c, m'))
        (\<lambda>(c', m'). control_ok g op sc l lo f (insert d (insert (op_rank op) (set (map snd pre)))) c' \<and> inv (mc_wqe m'))"
        using t by (intro control_destination_oks [OF cfg op control r(1) f(1) d]) (auto simp: tc)
      then show "oks (control_destination cfg A g op w i ready l control x t)
        (\<lambda>(c, m'). control_ok g op sc l lo f (insert (op_rank op) (set (map snd (pre @ [x])))) c \<and> inv (mc_wqe m'))"
        by (simp add: x tc insert_commute)
    qed
    then show "oks (rfold (control_destination cfg A g op w i ready l control) (enumerate 0 (xw_destination_ranks w)) (?w control, m1))
      (\<lambda>(c, m'). control_ok g op sc l lo f (set (operation_participant_ranks op)) c \<and> inv (mc_wqe m'))"
      unfolding ranks .
  qed
  have fin: "oks (case xw_mode w of
      SYNCHRONOUS \<Rightarrow> rbind (logical_path_index (cg_paths c)) (\<lambda>i. Inr (outcome_of op (cg_physical c) (cg_physical c)
        (AList.update (op_rank op) (cg_physical c) (cg_completed c)) (cg_participant_paths c) (cg_witnesses c) (cg_visits c) (cg_paths c) t0
        (cg_path_witnesses c ! i) None (cg_wqes c), m'))
    | ASYNCHRONOUS \<Rightarrow> Inr (outcome_of op f (cg_physical c) (AList.update (op_rank op) f (cg_completed c))
        (cg_participant_paths c) (cg_witnesses c) (cg_visits c) [[l, control]] t0 y0 None (cg_wqes c), m'))
      (\<lambda>(x, m'). outcome_ok g op sc l lo x \<and> inv (mc_wqe m'))"
    if c: "control_ok g op sc l lo f (set (operation_participant_ranks op)) c" "inv (mc_wqe m')" and path: "path_ok (op_work op) f [l, control]" for c m' control
  proof (cases "xw_mode w")
    case SYNCHRONOUS
    have "oks (logical_path_index (cg_paths c)) (\<lambda>i. i < length (cg_paths c))"
      using c(1) by (intro logical_path_index_oks) (auto simp: control_ok_def path_ok_def)
    then show ?thesis using control_outcome(1) [OF c(1) wit_ok_mono [OF r(3) f(1)] path] c(2) by (auto simp: SYNCHRONOUS elim!: oks_mono)
  next
    case ASYNCHRONOUS
    then show ?thesis using control_outcome(2) [OF c(1) wit_ok_mono [OF r(3) f(1)] path] c(2) by simp
  qed
  show ?thesis
    unfolding schedule_control_def Let_def oks_rbind oks_entry_at cfg(1) oks_rec_err node_gpu_Inr [OF w(2)] oks_simps
  proof (rule exI [of _ t0], rule conjI [OF r(1)], rule new_visit_oks, goal_cases)
    case (10 v)
    then have v: "visited v CONTROL_QUEUE (qv_completed_at_ps l) t0 f f" by (simp only: a_def [symmetric] f_def [symmetric])
    show ?case unfolding a_def [symmetric] f_def [symmetric]
      using r(2) main [OF v, of "m\<lparr>mc_state := (mc_state m)\<lparr>st_control_available := AList.update (op_rank op) f (st_control_available (mc_state m))\<rparr>\<rparr>"]
        path [OF v] m fin by (auto elim!: oks_mono)
  qed (use lf r f w p in \<open>auto simp: a_def\<close>)
qed

end

end
