(* ===== verification/Ring_Outcomes.thy ===== *)
theory Ring_Outcomes
  imports Collective_Outcomes
begin

text \<open>
  Rings and pairwise exchanges: the frontier of a collective stays well formed and only moves forward,
  and no visit of an extent ends after it.
\<close>

subsection \<open>Frontiers\<close>

definition frontier_ok :: "execution_graph \<Rightarrow> execution_operation \<Rightarrow> (string, scheduled_operation) dict \<Rightarrow> queue_visit \<Rightarrow> int \<Rightarrow> frontier \<Rightarrow> bool" where
  "frontier_ok g op sc l lo f \<longleftrightarrow>
     participants_ok g (op_work op) (set (operation_participant_ranks op)) sc (fr_time f) (fr_paths f) (fr_witnesses f) \<and>
     (\<forall>r t. map_of (fr_time f) r = Some t \<longrightarrow> qv_completed_at_ps l \<le> t \<and> lo \<le> t)"

definition fr_le :: "frontier \<Rightarrow> frontier \<Rightarrow> bool" where
  "fr_le f f' \<longleftrightarrow>
     map fst (fr_paths f') = map fst (fr_paths f) \<and> map fst (fr_witnesses f') = map fst (fr_witnesses f) \<and>
     (\<forall>r t. map_of (fr_time f) r = Some t \<longrightarrow> (\<exists>t'. map_of (fr_time f') r = Some t' \<and> t \<le> t'))"

definition reached :: "frontier \<Rightarrow> int \<Rightarrow> bool" where
  "reached f b \<longleftrightarrow> (\<exists>r t. map_of (fr_time f) r = Some t \<and> b \<le> t)"

lemma fr_le_refl [simp]: "fr_le f f"
  by (simp add: fr_le_def)

lemma fr_le_trans: "fr_le f g \<Longrightarrow> fr_le g h \<Longrightarrow> fr_le f h"
  by (fastforce simp: fr_le_def)

lemma reached_mono: "reached f b \<Longrightarrow> fr_le f f' \<Longrightarrow> reached f' b"
  by (fastforce simp: reached_def fr_le_def)

lemma reached_le: "reached f b \<Longrightarrow> a \<le> b \<Longrightarrow> reached f a"
  by (fastforce simp: reached_def)

lemma frontier_entry:
  assumes "frontier_ok g op sc l lo f" "r \<in> set (operation_participant_ranks op)"
  shows "\<exists>t path y. map_of (fr_time f) r = Some t \<and> map_of (fr_paths f) r = Some path \<and> map_of (fr_witnesses f) r = Some y \<and>
    path_ok (op_work op) t path \<and> wit_ok sc t y \<and> qv_completed_at_ps l \<le> t \<and> lo \<le> t"
  using participants_entry [of g "op_work op" _ sc "fr_time f" "fr_paths f" "fr_witnesses f" r] assms by (fastforce simp: frontier_ok_def)

lemma update_existing: "map_of d k \<noteq> None \<Longrightarrow> map fst (AList.update k v d) = map fst d"
  by (simp add: update_keys map_of_eq_None_iff)

lemma reach_end_oks:
  assumes "frontier_ok g op sc l lo f" "rank \<in> set (operation_participant_ranks op)" "eg_released_at_ps g \<le> c" "wit_ok sc c y" "path_ok (op_work op) c path"
  shows "oks (reach_end c y path rank f) (\<lambda>f'. frontier_ok g op sc l lo f' \<and> fr_le f f' \<and> (\<exists>t. map_of (fr_time f') rank = Some t \<and> c \<le> t))"
proof -
  have p: "participants_ok g (op_work op) (set (operation_participant_ranks op)) sc (fr_time f) (fr_paths f) (fr_witnesses f)"
    using assms(1) by (simp add: frontier_ok_def)
  obtain t old x where e: "map_of (fr_time f) rank = Some t" "map_of (fr_paths f) rank = Some old" "map_of (fr_witnesses f) rank = Some x" "wit_ok sc t x"
    "qv_completed_at_ps l \<le> t" "lo \<le> t"
    using frontier_entry [OF assms(1,2)] by blast
  let ?y = "select_two (t, x) (c, y)"
  show ?thesis
  proof (cases "t \<le> c")
    case True
    have "participants_ok g (op_work op) (insert rank (set (operation_participant_ranks op))) sc (AList.update rank c (fr_time f)) (AList.update rank path (fr_paths f))
        (AList.update rank ?y (fr_witnesses f))"
      using True by (intro participants_update p assms wit_ok_select e) auto
    moreover have lc: "qv_completed_at_ps l \<le> c" "lo \<le> c" using e(5,6) True by linarith+
    then have "\<forall>r t. map_of (AList.update rank c (fr_time f)) r = Some t \<longrightarrow> qv_completed_at_ps l \<le> t \<and> lo \<le> t"
      using assms(1) by (simp add: frontier_ok_def update_conv)
    ultimately have "frontier_ok g op sc l lo (f\<lparr>fr_witnesses := AList.update rank ?y (fr_witnesses f), fr_time := AList.update rank c (fr_time f),
        fr_paths := AList.update rank path (fr_paths f)\<rparr>)"
      using assms(2) by (simp add: frontier_ok_def insert_absorb)
    then show ?thesis using True e by (simp add: reach_end_def Let_def fr_le_def update_existing update_conv)
  next
    case False
    have "participants_ok g (op_work op) (set (operation_participant_ranks op)) sc (AList.update rank t (fr_time f)) (fr_paths f) (AList.update rank ?y (fr_witnesses f))"
      using False by (intro participants_raise [OF p e(1)] wit_ok_select e assms) auto
    then show ?thesis using assms(1,2) False e
      by (auto simp: reach_end_def Let_def frontier_ok_def fr_le_def update_triv update_existing)
  qed
qed

lemma reach_ends_oks:
  assumes "frontier_ok g op sc l lo f" "fst ends \<in> set (operation_participant_ranks op)" "snd ends \<in> set (operation_participant_ranks op)"
    "eg_released_at_ps g \<le> c" "wit_ok sc c y" "path_ok (op_work op) c path"
  shows "oks (reach_ends c y path ends f) (\<lambda>f'. frontier_ok g op sc l lo f' \<and> fr_le f f' \<and> reached f' c)"
proof -
  have "oks (reach_end c y path (snd ends) f') (\<lambda>f''. frontier_ok g op sc l lo f'' \<and> fr_le f f'' \<and> reached f'' c)"
    if "frontier_ok g op sc l lo f'" "fr_le f f'" for f'
    by (rule oks_mono [OF reach_end_oks [OF that(1) assms(3-6)]]) (use that(2) in \<open>auto intro: fr_le_trans simp: reached_def\<close>)
  then show ?thesis
    unfolding reach_ends_def oks_rbind by (intro oks_mono [OF reach_end_oks [OF assms(1,2,4-6)]]) auto
qed

lemma reach_pair_eq:
  assumes "frontier_ok g op sc l lo f" "s \<in> set (operation_participant_ranks op)" "d \<in> set (operation_participant_ranks op)" "s \<noteq> d"
  shows "reach_pair c y path (s, d) f = reach_ends c y path (s, d) f"
proof -
  obtain ts xs where s: "map_of (fr_time f) s = Some ts" "map_of (fr_witnesses f) s = Some xs" using frontier_entry [OF assms(1,2)] by blast
  obtain td xd where d: "map_of (fr_time f) d = Some td" "map_of (fr_witnesses f) d = Some xd" using frontier_entry [OF assms(1,3)] by blast
  have e: "entry_at m k = Inr v" if "map_of m k = Some v" for m and k :: int and v using that by (simp add: entry_at_def)
  show ?thesis using assms(4)
    by (simp add: reach_pair_def reach_ends_def reach_end_def Let_def e s d update_conv update_triv max_def)
qed

subsection \<open>Progress\<close>

definition progress_ok :: "queue_visit \<Rightarrow> int \<Rightarrow> int \<Rightarrow> collective_progress \<Rightarrow> bool" where
  "progress_ok l lo b c \<longleftrightarrow> visits_ok l lo b (cl_visits c) \<and> (\<forall>q \<in> set (cl_wqes c). wqe_ok b q)"

lemma progress_extent:
  assumes "progress_ok l lo b c" "extent_ok w lo sr rr v t e" shows "progress_ok l lo (max b e) (add_extent v t c)"
proof -
  have "visits_ok l lo (max b e) (cl_visits c)" "visits_ok l lo (max b e) (v # ss_visits t)"
    using assms extent_visits [OF assms(2), of l] by (auto simp: progress_ok_def intro: visits_ok_mono)
  moreover have "\<forall>q \<in> set (cl_wqes c). wqe_ok (max b e) q" using assms(1) by (auto simp: progress_ok_def intro: wqe_ok_mono)
  moreover have "\<forall>q \<in> set (case ss_projection t of None \<Rightarrow> [] | Some w \<Rightarrow> [w]). wqe_ok (max b e) q"
    using assms(2) by (cases "ss_projection t") (auto simp: extent_ok_def intro: wqe_ok_mono)
  ultimately show ?thesis by (auto simp: progress_ok_def add_extent_def)
qed

definition collective_ok :: "execution_graph \<Rightarrow> execution_operation \<Rightarrow> (string, scheduled_operation) dict \<Rightarrow> queue_visit \<Rightarrow> int \<Rightarrow> frontier
    \<Rightarrow> collective_progress \<Rightarrow> bool" where
  "collective_ok g op sc l lo f c \<longleftrightarrow>
     frontier_ok g op sc l lo f \<and> (\<exists>b. progress_ok l lo b c \<and> reached f b) \<and> length (cl_path_witnesses c) = length (cl_paths c) \<and>
     (\<forall>path \<in> set (cl_paths c). \<exists>t. reached f t \<and> path_ok (op_work op) t path) \<and> (\<forall>y \<in> set (cl_path_witnesses c). \<exists>t. reached f t \<and> wit_ok sc t y)"

lemma collective_outcome_oks:
  assumes "collective_ok g op sc l lo f c" "launch_ok g l"
  shows "oks (collective_outcome g op ready l True (f, c, m)) (\<lambda>(x, m'). outcome_ok g op sc l lo x \<and> m' = m)"
proof -
  have f: "frontier_ok g op sc l lo f" using assms(1) by (simp add: collective_ok_def)
  have p: "participants_ok g (op_work op) (set (operation_participant_ranks op)) sc (fr_time f) (fr_paths f) (fr_witnesses f)"
    using f by (simp add: frontier_ok_def)
  then have ne: "fr_time f \<noteq> []" and ok: "dict_ok (fr_time f)" using participant_ranks_facts(3) [of op] by (auto simp: participants_ok_def simp del: participant_ranks_facts)
  define T where "T = Max (snd ` set (fr_time f))"
  have T: "T \<in> snd ` set (fr_time f)" unfolding T_def using ne by (intro Max_in) auto
  have le: "t \<le> T" if "t \<in> snd ` set (fr_time f)" for t unfolding T_def using that by (intro Max_ge) auto
  have reach: "b \<le> T" if "reached f b" for b
    using that le by (fastforce simp: reached_def dest: map_of_SomeD)
  have wit: "oks (completion_causal_witness (fr_time f) (fr_witnesses f)) (wit_ok sc T)"
    unfolding T_def using p ok ne by (intro completion_witness_oks) (auto simp: participants_ok_def)
  have lt: "qv_completed_at_ps l \<le> T" using T f ok by (auto simp: frontier_ok_def dest!: map_of_is_SomeI [OF ok])
  have cp: "length (cl_path_witnesses c) = length (cl_paths c)"
    "\<And>path. path \<in> set (cl_paths c) \<Longrightarrow> path_ok (op_work op) T path" "\<And>z. z \<in> set (cl_path_witnesses c) \<Longrightarrow> wit_ok sc T z"
    using assms(1) reach path_ok_mono wit_ok_mono unfolding collective_ok_def by blast+
  define chosen where "chosen y = (if cl_paths c = [] then ([[l]], [y]) else (cl_paths c, cl_path_witnesses c))" for y
  have fin: "oks (logical_path_index (fst (chosen y))) (\<lambda>i. outcome_ok g op sc l lo (outcome_of op T T (fr_time f) (fr_paths f) (fr_witnesses f) (cl_visits c)
      (fst (chosen y)) e (if qv_completed_at_ps (last (fst (chosen y) ! i)) = T then snd (chosen y) ! i else y) k (cl_wqes c)))"
    if y: "wit_ok sc T y" for y e k
  proof -
    have ps: "fst (chosen y) \<noteq> []" "\<forall>path \<in> set (fst (chosen y)). path_ok (op_work op) T path" "length (snd (chosen y)) = length (fst (chosen y))"
      "\<forall>z \<in> set (snd (chosen y)). wit_ok sc T z"
      using y launch_path [OF assms(2) lt] cp by (auto simp: chosen_def)
    obtain b where b: "progress_ok l lo b c" "b \<le> T" using assms(1) reach by (auto simp: collective_ok_def)
    have v: "visits_ok l lo T (cl_visits c)" "\<forall>q \<in> set (cl_wqes c). wqe_ok T q"
      using b by (auto simp: progress_ok_def intro: visits_ok_mono wqe_ok_mono)
    have "oks (logical_path_index (fst (chosen y))) (\<lambda>i. i < length (fst (chosen y)))"
      using ps by (intro logical_path_index_oks) (auto simp: path_ok_def)
    then show ?thesis
    proof (rule oks_mono)
      fix i assume i: "i < length (fst (chosen y))"
      have "wit_ok sc T (if qv_completed_at_ps (last (fst (chosen y) ! i)) = T then snd (chosen y) ! i else y)" using ps(3,4) y i by simp
      then show "outcome_ok g op sc l lo (outcome_of op T T (fr_time f) (fr_paths f) (fr_witnesses f) (cl_visits c)
        (fst (chosen y)) e (if qv_completed_at_ps (last (fst (chosen y) ! i)) = T then snd (chosen y) ! i else y) k (cl_wqes c))"
        using p T le ps v unfolding outcome_ok_def outcome_of_def by auto
    qed
  qed
  have "collective_outcome g op ready l True (f, c, m) = rbind (completion_causal_witness (fr_time f) (fr_witnesses f)) (\<lambda>y.
      rbind (logical_path_index (fst (chosen y))) (\<lambda>i. Inr (outcome_of op T T (fr_time f) (fr_paths f) (fr_witnesses f) (cl_visits c) (fst (chosen y))
        (Min (set (map snd (rd_by_rank ready)))) (if qv_completed_at_ps (last (fst (chosen y) ! i)) = T then snd (chosen y) ! i else y)
        (Some (nccl_command g op)) (cl_wqes c), m)))"
    using ne by (cases "cl_paths c = []") (simp_all add: collective_outcome_def Let_def T_def chosen_def cong: if_cong)
  then show ?thesis using oks_mono [OF wit fin] by simp
qed

subsection \<open>Ring all-reduce\<close>

definition record_ok :: "execution_graph \<Rightarrow> execution_operation \<Rightarrow> (string, scheduled_operation) dict \<Rightarrow> round_record \<Rightarrow> bool" where
  "record_ok g op sc = (\<lambda>(ends, c, y, path).
     fst ends \<in> set (operation_participant_ranks op) \<and> snd ends \<in> set (operation_participant_ranks op) \<and> eg_released_at_ps g \<le> c \<and> wit_ok sc c y \<and>
     path_ok (op_work op) c path)"

definition round_ok :: "execution_graph \<Rightarrow> execution_operation \<Rightarrow> (string, scheduled_operation) dict \<Rightarrow> queue_visit \<Rightarrow> int \<Rightarrow> frontier
    \<Rightarrow> round_record list \<Rightarrow> collective_progress \<Rightarrow> bool" where
  "round_ok g op sc l lo f records c \<longleftrightarrow>
     (\<forall>x \<in> set records. record_ok g op sc x) \<and>
     (\<exists>b. progress_ok l lo b c \<and> (reached f b \<or> (\<exists>x \<in> set records. b \<le> fst (snd x))))"

lemma round_extent:
  assumes "round_ok g op sc l lo f records c" "record_ok g op sc (ends, e, y, path)" "extent_ok w lo sr rr v t e"
  shows "round_ok g op sc l lo f (records @ [(ends, e, y, path)]) (add_extent v t c)"
proof -
  obtain b where b: "progress_ok l lo b c" "reached f b \<or> (\<exists>x \<in> set records. b \<le> fst (snd x))" using assms(1) by (auto simp: round_ok_def)
  then have "progress_ok l lo (max b e) (add_extent v t c)" using progress_extent assms(3) by blast
  moreover have "reached f (max b e) \<or> (\<exists>x \<in> set (records @ [(ends, e, y, path)]). max b e \<le> fst (snd x))"
    using b(2) by (cases "b \<le> e") (auto simp: max_def)
  ultimately show ?thesis using assms(1,2) unfolding round_ok_def by (intro conjI exI [of _ "max b e"]) auto
qed

lemma reach_records:
  assumes "frontier_ok g op sc l lo f" "\<forall>x \<in> set records. record_ok g op sc x"
  shows "oks (rfold (\<lambda>(ends, c, y, path). reach_ends c y path ends) records f)
    (\<lambda>f'. frontier_ok g op sc l lo f' \<and> fr_le f f' \<and> (\<forall>x \<in> set records. reached f' (fst (snd x))))"
proof (rule oks_rfold_prefix [where I = "\<lambda>pre f'. frontier_ok g op sc l lo f' \<and> fr_le f f' \<and> (\<forall>x \<in> set pre. reached f' (fst (snd x)))"])
  fix pre x f'
  assume x: "set (pre @ [x]) \<subseteq> set records"
    and f': "frontier_ok g op sc l lo f' \<and> fr_le f f' \<and> (\<forall>x \<in> set pre. reached f' (fst (snd x)))"
  obtain ends c y path where xx: "x = (ends, c, y, path)" by (cases x)
  have r: "record_ok g op sc (ends, c, y, path)" using x assms(2) by (auto simp: xx)
  have "oks (reach_ends c y path ends f') (\<lambda>f''. frontier_ok g op sc l lo f'' \<and> fr_le f' f'' \<and> reached f'' c)"
    using r f' by (intro reach_ends_oks) (auto simp: record_ok_def)
  then show "oks ((case x of (ends, c, y, path) \<Rightarrow> reach_ends c y path ends) f')
    (\<lambda>f'. frontier_ok g op sc l lo f' \<and> fr_le f f' \<and> (\<forall>x \<in> set (pre @ [x]). reached f' (fst (snd x))))"
    unfolding xx prod.case by (rule oks_mono)
      (use f' in \<open>auto simp: xx intro: fr_le_trans reached_mono\<close>)
qed (use assms in simp)

lemma collective_facts:
  assumes "operation_ok g op" "op_work op = CollectiveWork w"
  shows "validate_collective w = None" "distinct (lw_ranks w)" "\<And>r. r \<in> set (lw_ranks w) \<Longrightarrow> 0 \<le> r" "0 \<le> lw_payload_bytes w" "nonblank (channel_of w)"
    "nonblank (nccl_command g op)" "set (lw_ranks w) \<subseteq> set (operation_participant_ranks op)"
    "\<And>s d n. (s, d, n) \<in> set (lw_pair_payload_bytes w) \<Longrightarrow> s \<in> set (lw_ranks w) \<and> d \<in> set (lw_ranks w) \<and> s \<noteq> d \<and> 0 \<le> n"
proof -
  have v: "validate_work (op_work op) = None" using assms(1) by (simp add: operation_ok_def)
  then show c: "validate_collective w = None" by (simp add: assms(2))
  then show "distinct (lw_ranks w)" "\<And>r. r \<in> set (lw_ranks w) \<Longrightarrow> 0 \<le> r" "0 \<le> lw_payload_bytes w"
    by (auto simp: validate_collective_def Let_def)
  show "nonblank (channel_of w)" using c by (rule channel_nonblank)
  show "nonblank (nccl_command g op)" by (simp add: nccl_command_def) (simp add: nonblank_def py_isspace_def)
  show "set (lw_ranks w) \<subseteq> set (operation_participant_ranks op)" by (auto simp: operation_participant_ranks_def assms(2))
  show "s \<in> set (lw_ranks w) \<and> d \<in> set (lw_ranks w) \<and> s \<noteq> d \<and> 0 \<le> n" if "(s, d, n) \<in> set (lw_pair_payload_bytes w)" for s d n
    using c that by (auto simp: validate_collective_def Let_def pair_checks_def)
qed

text \<open>The frontier before the first extent, and after the last one of a ring.\<close>

lemma initial_frontier:
  assumes "launch_ok g l" "ready_ok op sc l lo ready" "set (map fst paths) = set (operation_participant_ranks op)" "\<forall>x \<in> set paths. snd x = [l]"
  shows "frontier_ok g op sc l lo \<lparr>fr_time = rd_by_rank ready, fr_witnesses = rd_witnesses ready, fr_paths = paths\<rparr>"
proof -
  have k: "map fst (rd_by_rank ready) = operation_participant_ranks op" "map fst (rd_witnesses ready) = operation_participant_ranks op"
    using assms(2) by (simp_all add: ready_ok_def)
  have t: "qv_completed_at_ps l \<le> t \<and> lo \<le> t \<and> (\<forall>y. map_of (rd_witnesses ready) r = Some y \<longrightarrow> wit_ok sc t y)"
    if "map_of (rd_by_rank ready) r = Some t" for r t using assms(2) that by (simp add: ready_ok_def)
  have path: "path = [l]" if "map_of paths r = Some path" for r path using map_of_SomeD [OF that] assms(4) by fastforce
  have "fst ` set (rd_by_rank ready) = set (operation_participant_ranks op)" "fst ` set (rd_witnesses ready) = set (operation_participant_ranks op)"
    using k by (metis set_map)+
  then show ?thesis using t path launch_path [OF assms(1)] launch_facts [OF assms(1)] assms(3) k
    by (fastforce simp: frontier_ok_def participants_ok_def)
qed

lemma initial_progress:
  assumes "launch_ok g l" "ready_ok op sc l lo ready"
  shows "\<exists>b. progress_ok l lo b \<lparr>cl_extent_index = 0, cl_visits = [l], cl_wqes = [], cl_paths = [], cl_path_witnesses = []\<rparr> \<and>
    reached \<lparr>fr_time = rd_by_rank ready, fr_witnesses = rd_witnesses ready, fr_paths = paths\<rparr> b"
proof (intro exI [of _ "qv_completed_at_ps l"] conjI)
  show "progress_ok l lo (qv_completed_at_ps l) \<lparr>cl_extent_index = 0, cl_visits = [l], cl_wqes = [], cl_paths = [], cl_path_witnesses = []\<rparr>"
    using launch_visits [OF assms(1) order_refl, of lo] by (simp add: progress_ok_def)
  show "reached \<lparr>fr_time = rd_by_rank ready, fr_witnesses = rd_witnesses ready, fr_paths = paths\<rparr> (qv_completed_at_ps l)"
    using ready_time [OF assms(2), of "op_rank op"] by (auto simp: reached_def)
qed

lemma ring_result:
  assumes "frontier_ok g op sc l lo f" "fr_le f0 f" "progress_ok l lo b c \<and> reached f b" "map fst (fr_paths f0) = ranks" "distinct ranks"
    "set ranks = set (operation_participant_ranks op)" "ready_ok op sc l lo ready" "fr_witnesses f0 = rd_witnesses ready"
  shows "collective_ok g op sc l lo f (c\<lparr>cl_paths := map snd (fr_paths f), cl_path_witnesses := map snd (fr_witnesses f)\<rparr>)"
proof -
  have kp: "map fst (fr_paths f) = ranks" and kw: "map fst (fr_witnesses f) = operation_participant_ranks op"
    using assms(2,4,7,8) by (simp_all add: fr_le_def ready_ok_def)
  have "length ranks = length (operation_participant_ranks op)"
    using assms(5,6) distinct_card [OF assms(5)] distinct_card [of "operation_participant_ranks op"] by simp
  then have len: "length (fr_paths f) = length (fr_witnesses f)" using kp kw by (metis length_map)
  have path: "\<exists>t. reached f t \<and> path_ok (op_work op) t q" if "(r, q) \<in> set (fr_paths f)" for r q
  proof -
    have "map_of (fr_paths f) r = Some q" using that kp assms(5) by (simp add: map_of_is_SomeI)
    moreover have "r \<in> set (operation_participant_ranks op)" using that kp assms(6) by (metis image_eqI list.set_map fst_conv)
    ultimately show ?thesis using frontier_entry [OF assms(1), of r] by (auto simp: reached_def)
  qed
  have wit: "\<exists>t. reached f t \<and> wit_ok sc t y" if "(r, y) \<in> set (fr_witnesses f)" for r y
  proof -
    have "map_of (fr_witnesses f) r = Some y" using that kw by (simp add: map_of_is_SomeI)
    moreover have "r \<in> set (operation_participant_ranks op)" using that kw by (metis image_eqI list.set_map fst_conv)
    ultimately show ?thesis using frontier_entry [OF assms(1), of r] by (auto simp: reached_def)
  qed
  show ?thesis using assms(1,3) len path wit by (auto simp: collective_ok_def progress_ok_def)
qed

lemma collective_extent:
  assumes "collective_ok g op sc l lo f c" "extent_ok (op_work op) lo sr rr v t e" "frontier_ok g op sc l lo f' \<and> fr_le f f' \<and> reached f' e"
    "wit_ok sc e y" "path_ok (op_work op) e path"
  shows "collective_ok g op sc l lo f' ((add_extent v t c)\<lparr>cl_paths := cl_paths (add_extent v t c) @ [path],
    cl_path_witnesses := cl_path_witnesses (add_extent v t c) @ [y]\<rparr>)"
proof -
  obtain b where b: "progress_ok l lo b c" "reached f b" using assms(1) by (auto simp: collective_ok_def)
  have m: "reached f' u" if "reached f u" for u using that assms(3) reached_mono by blast
  have "progress_ok l lo (max b e) (add_extent v t c)" using progress_extent [OF b(1) assms(2)] .
  moreover have "reached f' (max b e)" using m [OF b(2)] assms(3) by (simp add: max_def)
  ultimately show ?thesis using assms(1,3-5) m by (auto simp: collective_ok_def progress_ok_def add_extent_def) blast+
qed

context wqe_authority
begin

lemma ring_extent_oks:
  assumes cfg: "rc_profile cfg = p" "rc_receiver_ingress cfg = ingress" "check_profile p = None"
    and op: "operation_ok g op" "op_work op = CollectiveWork w" "launch_ok g l" and f: "frontier_ok g op sc l lo f"
    and ring: "2 \<le> length (lw_ranks w)" "0 \<le> tag" and i: "(i, s) \<in> set (enumerate 0 (lw_ranks w))"
    and st: "round_ok g op sc l lo f records c" "inv (mc_wqe m)"
  shows "oks (ring_extent_step cfg A g op w l f (k, tag) (i, s) (records, c, m)) (\<lambda>(records', c', m'). round_ok g op sc l lo f records' c' \<and> inv (mc_wqe m'))"
proof -
  note w = collective_facts [OF op(1,2)]
  define d where "d = lw_ranks w ! ((i + 1) mod length (lw_ranks w))"
  have pos: "0 < length (lw_ranks w)" using ring(1) by linarith
  have ix: "i < length (lw_ranks w)" "s = lw_ranks w ! i" "(i + 1) mod length (lw_ranks w) < length (lw_ranks w)" "(i + 1) mod length (lw_ranks w) \<noteq> i"
    using i ring(1) mod_succ_neq [of i "length (lw_ranks w)"] mod_less_divisor [OF pos, of "Suc i"] by (auto simp: in_set_enumerate_eq simp del: mod_less_divisor)
  then have sd: "s \<in> set (lw_ranks w)" "d \<in> set (lw_ranks w)" "s \<noteq> d"
    using w(2) by (auto simp: d_def nth_eq_iff_index_eq)
  obtain ts ps xs where es: "map_of (fr_time f) s = Some ts" "map_of (fr_paths f) s = Some ps" "map_of (fr_witnesses f) s = Some xs"
    "path_ok (op_work op) ts ps" "wit_ok sc ts xs" "qv_completed_at_ps l \<le> ts" "lo \<le> ts"
    using frontier_entry [OF f] sd w(7) by blast
  obtain td xd where ed: "map_of (fr_time f) d = Some td" "map_of (fr_witnesses f) d = Some xd" "wit_ok sc td xd"
    using frontier_entry [OF f] sd w(7) by blast
  have send: "oks (send_extent cfg A g op l (channel_of w) (channel_of w @ '':round-'' @ nat_text k)
      (s, d, lw_payload_bytes w div int (length (lw_ranks w))) tag (cl_extent_index c) (ts, td) (nccl_command g op) m)
      (\<lambda>((v, t, completed), m'). inv (mc_wqe m') \<and> extent_ok (op_work op) lo ts td v t completed)"
    using w sd ring es pos by (intro send_extent_oks cfg op st(2)) (auto simp: div_int_pos_iff)
  have step: "round_ok g op sc l lo f (records @ [((s, d), e, select_two (qv_completed_at_ps v, xs) (td, xd), ps @ v # ss_visits t)]) (add_extent v t c)"
    if x: "extent_ok (op_work op) lo ts td v t e" for v t e
  proof -
    have b: "ts \<le> qv_completed_at_ps v" "td \<le> e" "qv_completed_at_ps v \<le> e" using x by (auto simp: extent_ok_def)
    have "wit_ok sc e (select_two (qv_completed_at_ps v, xs) (td, xd))" using b by (intro wit_ok_select wit_ok_mono [OF es(5)] ed(3))
    moreover have "path_ok (op_work op) e (ps @ v # ss_visits t)" using extent_path [OF x es(4)] by simp
    moreover have "eg_released_at_ps g \<le> e" using launch_facts [OF op(3)] es(6) b by linarith
    ultimately have "record_ok g op sc ((s, d), e, select_two (qv_completed_at_ps v, xs) (td, xd), ps @ v # ss_visits t)"
      using sd w(7) by (auto simp: record_ok_def)
    then show ?thesis using round_extent [OF st(1) _ x] by blast
  qed
  show ?thesis
    unfolding ring_extent_step_def prod.case Let_def d_def [symmetric] oks_rbind oks_entry_at
    using es ed send step by (auto elim!: oks_mono)
qed

lemma ring_round_oks:
  assumes cfg: "rc_profile cfg = p" "rc_receiver_ingress cfg = ingress" "check_profile p = None"
    and op: "operation_ok g op" "op_work op = CollectiveWork w" "launch_ok g l" and f: "frontier_ok g op sc l lo f"
    and ring: "2 \<le> length (lw_ranks w)" "0 \<le> tag" and b: "progress_ok l lo b c" "reached f b" and m: "inv (mc_wqe m)"
  shows "oks (ring_round_step cfg A g op w l (k, tag) (f, c, m))
    (\<lambda>(f', c', m'). frontier_ok g op sc l lo f' \<and> fr_le f f' \<and> (\<exists>b. progress_ok l lo b c' \<and> reached f' b) \<and> inv (mc_wqe m'))"
proof -
  have "oks (rfold (ring_extent_step cfg A g op w l f (k, tag)) (enumerate 0 (lw_ranks w)) ([], c, m))
      (\<lambda>(records, c', m'). round_ok g op sc l lo f records c' \<and> inv (mc_wqe m'))"
  proof (rule oks_rfold)
    show "case ([], c, m) of (records, c', m') \<Rightarrow> round_ok g op sc l lo f records c' \<and> inv (mc_wqe m')"
      using b m by (auto simp: round_ok_def)
    fix x and t :: "round_record list \<times> collective_progress \<times> 'w machine"
    assume x: "x \<in> set (enumerate 0 (lw_ranks w))" and t: "case t of (records, c', m') \<Rightarrow> round_ok g op sc l lo f records c' \<and> inv (mc_wqe m')"
    obtain i s where xs: "x = (i, s)" by (cases x)
    obtain records c' m' where ts: "t = (records, c', m')" by (cases t)
    show "oks (ring_extent_step cfg A g op w l f (k, tag) x t) (\<lambda>(records, c', m'). round_ok g op sc l lo f records c' \<and> inv (mc_wqe m'))"
      using t x unfolding xs ts by (intro ring_extent_oks [OF cfg op f ring]) auto
  qed
  moreover have "oks (rfold (\<lambda>(ends, completed, witness, path). reach_ends completed witness path ends) records f)
      (\<lambda>f'. frontier_ok g op sc l lo f' \<and> fr_le f f' \<and> (\<exists>b. progress_ok l lo b c' \<and> reached f' b))"
    if r: "round_ok g op sc l lo f records c'" for records c'
  proof -
    obtain b where b: "progress_ok l lo b c'" "reached f b \<or> (\<exists>x \<in> set records. b \<le> fst (snd x))" using r by (auto simp: round_ok_def)
    have "\<forall>x \<in> set records. record_ok g op sc x" using r by (simp add: round_ok_def)
    from reach_records [OF f this] show ?thesis
      by (rule oks_mono) (use b reached_mono reached_le in blast)
  qed
  ultimately show ?thesis unfolding ring_round_step_def prod.case oks_rbind by (auto elim!: oks_mono)
qed

lemma schedule_ring_oks:
  assumes cfg: "rc_profile cfg = p" "rc_receiver_ingress cfg = ingress" "check_profile p = None"
    and op: "operation_ok g op" "op_work op = CollectiveWork w" "launch_ok g l" and r: "ready_ok op sc l lo ready"
    and ring: "2 \<le> length (lw_ranks w)" "op_rank op \<in> set (lw_ranks w)" "\<forall>t \<in> set tags. 0 \<le> t" and m: "inv (mc_wqe m)"
  shows "oks (schedule_ring cfg A g op w ready l tags m) (\<lambda>(f, c, m'). collective_ok g op sc l lo f c \<and> inv (mc_wqe m'))"
proof -
  let ?f = "\<lparr>fr_time = rd_by_rank ready, fr_witnesses = rd_witnesses ready, fr_paths = map (\<lambda>r. (r, [l])) (lw_ranks w)\<rparr>"
  let ?c = "\<lparr>cl_extent_index = 0, cl_visits = [l], cl_wqes = [], cl_paths = [], cl_path_witnesses = []\<rparr>"
  let ?I = "\<lambda>(f, c, m'). frontier_ok g op sc l lo f \<and> fr_le ?f f \<and> (\<exists>b. progress_ok l lo b c \<and> reached f b) \<and> inv (mc_wqe (m' :: 'w machine))"
  note w = collective_facts [OF op(1,2)]
  have ranks: "set (lw_ranks w) = set (operation_participant_ranks op)"
    using ring(2) by (auto simp: operation_participant_ranks_def op(2))
  have keys: "map fst (fr_paths ?f) = lw_ranks w" by (simp add: o_def)
  have f0: "frontier_ok g op sc l lo ?f" "\<exists>b. progress_ok l lo b ?c \<and> reached ?f b"
    using initial_frontier [OF op(3) r, of "fr_paths ?f"] keys ranks initial_progress [OF op(3) r] by auto
  have "oks (rfold (ring_round_step cfg A g op w l) (enumerate 0 tags) (?f, ?c, m)) ?I"
  proof (rule oks_rfold)
    show "?I (?f, ?c, m)" using f0 m by auto
    fix x and t :: "frontier \<times> collective_progress \<times> 'w machine" assume x: "x \<in> set (enumerate 0 tags)" and t: "?I t"
    obtain k tag where xs: "x = (k, tag)" by (cases x)
    obtain f c m' where ts: "t = (f, c, m')" by (cases t)
    have tag: "0 \<le> tag" using x ring(3) by (auto simp: xs in_set_enumerate_eq)
    obtain b where b: "progress_ok l lo b c" "reached f b" using t by (auto simp: ts)
    have "oks (ring_round_step cfg A g op w l (k, tag) (f, c, m'))
      (\<lambda>(f', c', m'). frontier_ok g op sc l lo f' \<and> fr_le f f' \<and> (\<exists>b. progress_ok l lo b c' \<and> reached f' b) \<and> inv (mc_wqe m'))"
      using t by (intro ring_round_oks [OF cfg op _ ring(1) tag b]) (auto simp: ts)
    then show "oks (ring_round_step cfg A g op w l x t) ?I"
      unfolding xs ts by (rule oks_mono) (use t in \<open>auto simp: ts intro: fr_le_trans\<close>)
  qed
  then show ?thesis
    unfolding schedule_ring_def oks_rbind
    by (rule oks_mono) (auto intro: ring_result [OF _ _ _ keys w(2) ranks r])
qed

lemma pair_extent_oks:
  assumes cfg: "rc_profile cfg = p" "rc_receiver_ingress cfg = ingress" "check_profile p = None"
    and op: "operation_ok g op" "op_work op = CollectiveWork w" "launch_ok g l" and r: "ready_ok op sc l lo ready"
    and ends: "s \<in> set (lw_ranks w)" "d \<in> set (lw_ranks w)" "s \<noteq> d" "0 \<le> n" "0 \<le> tag"
    and st: "collective_ok g op sc l lo f c" "inv (mc_wqe m)"
  shows "oks (pair_extent cfg A g op w ready l tag (s, d, n) (f, c, m)) (\<lambda>(f', c', m'). collective_ok g op sc l lo f' c' \<and> inv (mc_wqe m'))"
proof -
  note w = collective_facts [OF op(1,2)]
  have sd: "s \<in> set (operation_participant_ranks op)" "d \<in> set (operation_participant_ranks op)" using ends w(7) by auto
  obtain ts xs where es: "map_of (rd_by_rank ready) s = Some ts" "map_of (rd_witnesses ready) s = Some xs" "wit_ok sc ts xs"
    "qv_completed_at_ps l \<le> ts" "lo \<le> ts" using ready_time [OF r sd(1)] by blast
  obtain td xd where ed: "map_of (rd_by_rank ready) d = Some td" "map_of (rd_witnesses ready) d = Some xd" "wit_ok sc td xd"
    using ready_time [OF r sd(2)] by blast
  have f: "frontier_ok g op sc l lo f" using st(1) by (simp add: collective_ok_def)
  have send: "oks (send_extent cfg A g op l (channel_of w) (channel_of w) (s, d, n) tag (cl_extent_index c) (ts, td) (nccl_command g op) m)
      (\<lambda>((v, t, completed), m'). inv (mc_wqe m') \<and> extent_ok (op_work op) lo ts td v t completed)"
    using w ends es by (intro send_extent_oks cfg op st(2)) auto
  have step: "oks (reach_pair e y path (s, d) f) (\<lambda>f'. collective_ok g op sc l lo f' (c'\<lparr>cl_paths := cl_paths c' @ [path], cl_path_witnesses := cl_path_witnesses c' @ [y]\<rparr>))"
    if x: "extent_ok (op_work op) lo ts td v t e" and y: "y = select_two (qv_completed_at_ps v, xs) (td, xd)"
      and path: "path = l # v # ss_visits t" and c': "c' = add_extent v t c" for v t e y path c'
  proof -
    have b: "ts \<le> qv_completed_at_ps v" "td \<le> e" "qv_completed_at_ps v \<le> e" using x by (auto simp: extent_ok_def)
    have "wit_ok sc e y" unfolding y using b by (intro wit_ok_select wit_ok_mono [OF es(3)] ed(3))
    moreover have "path_ok (op_work op) e path" using extent_path [OF x launch_path [OF op(3) order_refl] es(4)] by (simp add: path)
    moreover have "eg_released_at_ps g \<le> e" using launch_facts [OF op(3)] es(4) b by linarith
    ultimately show ?thesis
      unfolding reach_pair_eq [OF f sd ends(3)] c'
      by (intro oks_mono [OF reach_ends_oks [OF f]] collective_extent [OF st(1) x]) (use sd in auto)
  qed
  show ?thesis
    unfolding pair_extent_def prod.case oks_rbind oks_entry_at
    using es ed send step by (auto simp: Let_def elim!: oks_mono)
qed

lemma schedule_pairwise_oks:
  assumes cfg: "rc_profile cfg = p" "rc_receiver_ingress cfg = ingress" "check_profile p = None"
    and op: "operation_ok g op" "op_work op = CollectiveWork w" "launch_ok g l" and r: "ready_ok op sc l lo ready"
    and tags: "tags \<noteq> []" "\<forall>t \<in> set tags. 0 \<le> t" and m: "inv (mc_wqe m)"
  shows "oks (schedule_pairwise cfg A g op w ready l tags m) (\<lambda>(f, c, m'). collective_ok g op sc l lo f c \<and> inv (mc_wqe m'))"
proof -
  obtain tag ts where t: "tags = tag # ts" "0 \<le> tag" using tags by (cases tags) auto
  let ?f = "\<lparr>fr_time = rd_by_rank ready, fr_witnesses = rd_witnesses ready, fr_paths = map (\<lambda>(r, _). (r, [l])) (rd_by_rank ready)\<rparr>"
  let ?c = "\<lparr>cl_extent_index = 0, cl_visits = [l], cl_wqes = [], cl_paths = [], cl_path_witnesses = []\<rparr>"
  note w = collective_facts [OF op(1,2)]
  have keys: "map fst (fr_paths ?f) = operation_participant_ranks op" using r by (simp add: ready_ok_def o_def case_prod_unfold)
  have "frontier_ok g op sc l lo ?f" using keys by (intro initial_frontier [OF op(3) r]) auto
  then have c0: "collective_ok g op sc l lo ?f ?c" using initial_progress [OF op(3) r] by (auto simp: collective_ok_def)
  show ?thesis unfolding schedule_pairwise_def t(1) list.case
  proof (rule oks_rfold)
    show "case (?f, ?c, m) of (f, c, m') \<Rightarrow> collective_ok g op sc l lo f c \<and> inv (mc_wqe m')" using c0 m by simp
    fix x and u :: "frontier \<times> collective_progress \<times> 'w machine"
    assume x: "x \<in> set (pair_transfers w)" and u: "case u of (f, c, m') \<Rightarrow> collective_ok g op sc l lo f c \<and> inv (mc_wqe m')"
    obtain s d n where xs: "x = (s, d, n)" by (cases x)
    obtain f c m' where us: "u = (f, c, m')" by (cases u)
    have "s \<in> set (lw_ranks w) \<and> d \<in> set (lw_ranks w) \<and> s \<noteq> d \<and> 0 \<le> n"
      using x w(4) w(8) [of s d n] by (auto simp: xs pair_transfers_def split: if_splits)
    then show "oks (pair_extent cfg A g op w ready l tag x u) (\<lambda>(f, c, m'). collective_ok g op sc l lo f c \<and> inv (mc_wqe m'))"
      unfolding xs us using u t(2) by (intro pair_extent_oks [OF cfg op r]) (auto simp: us)
  qed
qed

lemma schedule_collective_oks:
  assumes cfg: "rc_profile cfg = p" "rc_receiver_ingress cfg = ingress" "check_profile p = None"
    and op: "operation_ok g op" "op_work op = CollectiveWork w" "launch_ok g l" and r: "ready_ok op sc l lo ready"
    and kind: "ring_work w \<or> pairwise_table w" "ring_work w \<Longrightarrow> 2 \<le> length (lw_ranks w)" "op_rank op \<in> set (lw_ranks w)"
    and tags: "tags \<noteq> []" "\<forall>t \<in> set tags. 0 \<le> t" and m: "inv (mc_wqe m)"
  shows "oks (schedule_collective cfg A g op w ready l tags None m) (\<lambda>(x, m'). outcome_ok g op sc l lo x \<and> inv (mc_wqe m'))"
proof -
  have fin: "oks (collective_outcome g op ready l True u) (\<lambda>(x, m'). outcome_ok g op sc l lo x \<and> inv (mc_wqe m'))"
    if "case u of (f, c, m') \<Rightarrow> collective_ok g op sc l lo f c \<and> inv (mc_wqe m')" for u :: "frontier \<times> collective_progress \<times> 'w machine"
  proof -
    obtain f c m' where u: "u = (f, c, m')" by (cases u)
    have c: "collective_ok g op sc l lo f c" using that by (simp add: u)
    show ?thesis unfolding u by (rule oks_mono [OF collective_outcome_oks [OF c op(3)]]) (use that in \<open>auto simp: u\<close>)
  qed
  show ?thesis
  proof (cases "ring_work w")
    case True
    then show ?thesis unfolding schedule_collective_def option.case oks_rbind if_P [OF True]
      by (intro oks_mono [OF schedule_ring_oks [OF cfg op r kind(2) kind(3) tags(2) m]] fin)
  next
    case False
    then have "pairwise_table w" using kind(1) by blast
    then have pw: "lw_collective w = ''all-to-allv'' \<and> lw_algorithm_hint w = Some ''pairwise''" by (simp add: pairwise_table_def)
    show ?thesis unfolding schedule_collective_def option.case oks_rbind if_not_P [OF False] if_P [OF pw]
      by (intro oks_mono [OF schedule_pairwise_oks [OF cfg op r tags m]] fin)
  qed
qed

end

end
