(* ===== verification/Runtime_Schedule.thy ===== *)
theory Runtime_Schedule
  imports Ring_Outcomes Kv_Properties
begin

text \<open>
  What a schedule of the device runtime is: the \<open>inductive\<close> relation \<open>scheduled_ok\<close> grows it by one
  well-formed outcome at a time, whose predecessors are all there already.  Readiness of an operation
  whose predecessors are scheduled never fails and is never earlier than they completed, and some
  operation is ready as long as one is left, because the ordering has no cycle.
\<close>

subsection \<open>The context of a run\<close>

definition work_ready :: "'k launch_context \<Rightarrow> execution_operation \<Rightarrow> bool" where
  "work_ready cx op =
     (let cfg = lx_config cx; p = rc_profile cfg; k = op_operation_id op in
      case op_work op of
        ComputeWork w \<Rightarrow>
          require_executable w = None \<and>
          (if map_of (rc_kernel_services cfg) (op_rank op) \<noteq> None then oks (kernel_launch cfg op w) (\<lambda>_. True) else cw_nominal_duration_ps w \<noteq> None)
      | DmaWork w \<Rightarrow> oks (dma_direction w (op_rank op)) (\<lambda>d. copy_candidates p d \<noteq> [])
      | CollectiveWork w \<Rightarrow>
          (ring_work w \<or> pairwise_table w) \<and> (ring_work w \<longrightarrow> 2 \<le> length (lw_ranks w)) \<and> op_rank op \<in> set (lw_ranks w) \<and>
          (\<exists>ts. map_of (lx_tags cx) k = Some ts \<and> ts \<noteq> [] \<and> (\<forall>t \<in> set ts. 0 \<le> t))
      | KvCacheWork w \<Rightarrow> 0 \<le> kv_demand_bytes (lx_pending cx) k \<and> (kv_demand_bytes (lx_pending cx) k \<noteq> 0 \<longrightarrow> 0 < pf_hbm_rate_bps p)
      | ControlWork w \<Rightarrow> True)"

definition edge_ok :: "execution_graph \<Rightarrow> effective_dependency_edge \<Rightarrow> bool" where
  "edge_ok g e \<longleftrightarrow>
     (\<exists>op \<in> set (eg_operations g). \<exists>pre \<in> set (eg_operations g).
        op_operation_id op = ed_operation_id e \<and> op_operation_id pre = ed_predecessor_id e \<and>
        (ed_scope e = PARTICIPANT_LOCAL \<longrightarrow>
           (\<exists>r. ed_participant_rank e = Some r \<and> r \<in> set (operation_participant_ranks op) \<and> r \<in> set (operation_participant_ranks pre))))"

definition context_ok :: "'k launch_context \<Rightarrow> bool" where
  "context_ok cx \<longleftrightarrow>
     (let g = lx_graph cx; cfg = lx_config cx in
      distinct (map op_operation_id (eg_operations g)) \<and> acyclic (ordering g) \<and> lx_edges cx = effective_dependency_edges_unchecked g \<and>
      (\<forall>e \<in> set (lx_edges cx). edge_ok g e) \<and> check_profile (rc_profile cfg) = None \<and> services_lawful cfg \<and> eg_collective_plans g = [] \<and>
      (\<forall>op \<in> set (eg_operations g). operation_ok g op \<and> 0 \<le> op_priority op \<and> work_ready cx op \<and>
         (\<exists>l. map_of (lx_launches cx) (op_operation_id op) = Some l \<and> launch_ok g l)))"

lemma contextD:
  assumes "context_ok cx"
  shows "distinct (map op_operation_id (eg_operations (lx_graph cx)))" "acyclic (ordering (lx_graph cx))"
    "lx_edges cx = effective_dependency_edges_unchecked (lx_graph cx)" "check_profile (rc_profile (lx_config cx)) = None"
    "services_lawful (lx_config cx)" "eg_collective_plans (lx_graph cx) = []"
    "e \<in> set (lx_edges cx) \<Longrightarrow> edge_ok (lx_graph cx) e"
    "op \<in> set (eg_operations (lx_graph cx)) \<Longrightarrow> operation_ok (lx_graph cx) op"
    "op \<in> set (eg_operations (lx_graph cx)) \<Longrightarrow> 0 \<le> op_priority op"
    "op \<in> set (eg_operations (lx_graph cx)) \<Longrightarrow> work_ready cx op"
    "op \<in> set (eg_operations (lx_graph cx)) \<Longrightarrow> \<exists>l. map_of (lx_launches cx) (op_operation_id op) = Some l \<and> launch_ok (lx_graph cx) l"
  using assms by (simp_all add: context_ok_def Let_def)

abbreviation launch_of :: "'k launch_context \<Rightarrow> execution_operation \<Rightarrow> queue_visit" where
  "launch_of cx op \<equiv> the (map_of (lx_launches cx) (op_operation_id op))"

lemma launch_of:
  assumes "context_ok cx" "op \<in> set (eg_operations (lx_graph cx))"
  shows "map_of (lx_launches cx) (op_operation_id op) = Some (launch_of cx op)" "launch_ok (lx_graph cx) (launch_of cx op)"
  using contextD(11) [OF assms] by auto

lemma operation_lookup:
  assumes "context_ok cx" "op \<in> set (eg_operations (lx_graph cx))"
  shows "map_of (operation_by_id (eg_operations (lx_graph cx))) (op_operation_id op) = Some op"
proof -
  have d: "distinct (map op_operation_id (eg_operations (lx_graph cx)))" using contextD(1) [OF assms(1)] .
  then show ?thesis unfolding operation_by_id_distinct [OF d] using assms(2) by (intro map_of_is_SomeI) (auto simp: o_def)
qed

lemma operation_unique:
  assumes "context_ok cx" "op \<in> set (eg_operations (lx_graph cx))" "op' \<in> set (eg_operations (lx_graph cx))" "op_operation_id op = op_operation_id op'"
  shows "op = op'"
  using operation_lookup [OF assms(1,2)] operation_lookup [OF assms(1,3)] assms(4) by (metis option.inject)

subsection \<open>Schedules\<close>

text \<open>What an operation has to wait for: its whole-operation predecessors.\<close>

definition predecessor_floor :: "'k launch_context \<Rightarrow> (string, scheduled_operation) dict \<Rightarrow> string \<Rightarrow> int" where
  "predecessor_floor cx sc k =
     Max (insert 0 {so_logical_completed_at_ps x | e x. e \<in> set (incoming_edges (lx_edges cx) k) \<and> ed_scope e = WHOLE_OPERATION \<and>
       map_of sc (ed_predecessor_id e) = Some x})"

definition predecessors_in :: "'k launch_context \<Rightarrow> (string, scheduled_operation) dict \<Rightarrow> string \<Rightarrow> bool" where
  "predecessors_in cx sc k \<longleftrightarrow> (\<forall>e \<in> set (incoming_edges (lx_edges cx) k). map_of sc (ed_predecessor_id e) \<noteq> None)"

lemma floor_finite:
  "finite {so_logical_completed_at_ps x | e x. e \<in> set (incoming_edges edges k) \<and> ed_scope e = WHOLE_OPERATION \<and> map_of sc (ed_predecessor_id e) = Some x}"
proof -
  have "{so_logical_completed_at_ps x | e x. e \<in> set (incoming_edges edges k) \<and> ed_scope e = WHOLE_OPERATION \<and> map_of sc (ed_predecessor_id e) = Some x}
      \<subseteq> so_logical_completed_at_ps ` snd ` set sc" by (force dest: map_of_SomeD)
  then show ?thesis by (rule finite_subset) simp
qed

lemma floor_least:
  assumes "0 \<le> t" "\<And>e x. e \<in> set (incoming_edges (lx_edges cx) k) \<Longrightarrow> ed_scope e = WHOLE_OPERATION \<Longrightarrow> map_of sc (ed_predecessor_id e) = Some x \<Longrightarrow>
    so_logical_completed_at_ps x \<le> t"
  shows "predecessor_floor cx sc k \<le> t"
  unfolding predecessor_floor_def using floor_finite [of "lx_edges cx" k sc] assms by (intro Max.boundedI) auto

lemma floor_upper:
  assumes "e \<in> set (incoming_edges (lx_edges cx) k)" "ed_scope e = WHOLE_OPERATION" "map_of sc (ed_predecessor_id e) = Some x"
  shows "so_logical_completed_at_ps x \<le> predecessor_floor cx sc k"
  unfolding predecessor_floor_def using floor_finite [of "lx_edges cx" k sc] assms by (intro Max_ge) auto

inductive scheduled_ok :: "'k launch_context \<Rightarrow> (string, scheduled_operation) dict \<Rightarrow> bool" for cx where
  empty: "scheduled_ok cx []"
| grow: "scheduled_ok cx (sc @ [(op_operation_id op, x)])"
  if "scheduled_ok cx sc" "op \<in> set (eg_operations (lx_graph cx))" "op_operation_id op \<notin> fst ` set sc" "predecessors_in cx sc (op_operation_id op)"
    "outcome_ok (lx_graph cx) op sc (launch_of cx op) (predecessor_floor cx sc (op_operation_id op)) x"

lemma scheduled_keys: "scheduled_ok cx sc \<Longrightarrow> dict_ok sc \<and> fst ` set sc \<subseteq> op_operation_id ` set (eg_operations (lx_graph cx))"
  by (induction rule: scheduled_ok.induct) auto

lemma scheduled_entry:
  "scheduled_ok cx sc \<Longrightarrow> (k, x) \<in> set sc \<Longrightarrow>
   \<exists>ys zs op. sc = ys @ (k, x) # zs \<and> op \<in> set (eg_operations (lx_graph cx)) \<and> op_operation_id op = k \<and> scheduled_ok cx ys \<and> predecessors_in cx ys k \<and>
     outcome_ok (lx_graph cx) op ys (launch_of cx op) (predecessor_floor cx ys k) x"
proof (induction rule: scheduled_ok.induct)
  case (grow sc op y)
  show ?case
  proof (cases "(k, x) \<in> set sc")
    case True
    from grow.IH [OF this] obtain ys zs op' where "sc = ys @ (k, x) # zs" "op' \<in> set (eg_operations (lx_graph cx))" "op_operation_id op' = k"
      "scheduled_ok cx ys" "predecessors_in cx ys k" "outcome_ok (lx_graph cx) op' ys (launch_of cx op') (predecessor_floor cx ys k) x" by blast
    then show ?thesis by (intro exI [of _ ys] exI [of _ "zs @ [(op_operation_id op, y)]"] exI [of _ op']) auto
  next
    case False
    then have "(k, x) = (op_operation_id op, y)" using grow.prems by auto
    then show ?thesis using grow.hyps by (intro exI [of _ sc] exI [of _ "[]"] exI [of _ op]) auto
  qed
qed simp

lemma scheduled_outcome:
  assumes "scheduled_ok cx sc" "map_of sc k = Some x"
  shows "\<exists>op ys lo. op \<in> set (eg_operations (lx_graph cx)) \<and> op_operation_id op = k \<and> outcome_ok (lx_graph cx) op ys (launch_of cx op) lo x"
  using scheduled_entry [OF assms(1) map_of_SomeD [OF assms(2)]] by blast

text \<open>Adding entries behind a schedule keeps what was known about it.\<close>

lemma wit_ok_extend: "wit_ok sc t y \<Longrightarrow> wit_ok (sc @ zs) t y"
  by (auto simp: wit_ok_def map_add_def split: option.splits)

lemma participants_extend: "participants_ok g w ranks sc ends paths wits \<Longrightarrow> participants_ok g w ranks (sc @ zs) ends paths wits"
  unfolding participants_ok_def by (elim conjE, intro conjI allI impI) (auto intro: wit_ok_extend)

lemma outcome_ok_extend:
  assumes "outcome_ok g op sc l lo x" shows "outcome_ok g op (sc @ zs) l lo x"
proof -
  obtain y where "wit_ok (sc @ zs) (so_logical_completed_at_ps x) y" "so_critical_predecessor_id x = map_option cx_predecessor_id y"
    "so_critical_predecessor_completed_at_ps x = map_option cx_completed_at_ps y"
    using assms wit_ok_extend unfolding outcome_ok_def by blast
  moreover have "participants_ok g (op_work op) (set (operation_participant_ranks op)) (sc @ zs) (so_participant_completed_at_ps x) (so_participant_paths x)
       (so_participant_causal_witnesses x)" using assms by (intro participants_extend) (simp add: outcome_ok_def)
  ultimately show ?thesis using assms unfolding outcome_ok_def by blast
qed

lemma predecessors_in_extend: "predecessors_in cx sc k \<Longrightarrow> predecessors_in cx (sc @ zs) k"
  by (auto simp: predecessors_in_def map_add_def split: option.splits)

lemma floor_extend:
  assumes "predecessors_in cx sc k" shows "predecessor_floor cx (sc @ zs) k = predecessor_floor cx sc k"
proof -
  have "map_of (sc @ zs) (ed_predecessor_id e) = map_of sc (ed_predecessor_id e)" if "e \<in> set (incoming_edges (lx_edges cx) k)" for e
    using assms that by (auto simp: predecessors_in_def map_add_def split: option.splits)
  then have "{so_logical_completed_at_ps x | e x. e \<in> set (incoming_edges (lx_edges cx) k) \<and> ed_scope e = WHOLE_OPERATION \<and> map_of (sc @ zs) (ed_predecessor_id e) = Some x}
      = {so_logical_completed_at_ps x | e x. e \<in> set (incoming_edges (lx_edges cx) k) \<and> ed_scope e = WHOLE_OPERATION \<and> map_of sc (ed_predecessor_id e) = Some x}"
    by (intro Collect_cong) metis
  then show ?thesis by (simp only: predecessor_floor_def)
qed

text \<open>Outcomes that are ready together can be stored one after the other.\<close>

lemma scheduled_append:
  assumes "scheduled_ok cx sc" "distinct (map fst zs)" "fst ` set sc \<inter> fst ` set zs = {}"
    "\<And>k x. (k, x) \<in> set zs \<Longrightarrow> \<exists>op \<in> set (eg_operations (lx_graph cx)). op_operation_id op = k \<and> predecessors_in cx sc k \<and>
       outcome_ok (lx_graph cx) op sc (launch_of cx op) (predecessor_floor cx sc k) x"
  shows "scheduled_ok cx (sc @ zs)"
  using assms(2-4)
proof (induction zs rule: rev_induct)
  case Nil
  show ?case using assms(1) by simp
next
  case (snoc z zs)
  obtain k x where z: "z = (k, x)" by (cases z)
  have ih: "scheduled_ok cx (sc @ zs)" using snoc.prems by (intro snoc.IH) auto
  obtain op where op: "op \<in> set (eg_operations (lx_graph cx))" "op_operation_id op = k" "predecessors_in cx sc k"
    "outcome_ok (lx_graph cx) op sc (launch_of cx op) (predecessor_floor cx sc k) x"
    using snoc.prems(3) [of k x] by (auto simp: z)
  have fresh: "k \<notin> fst ` set (sc @ zs)" using snoc.prems(1,2) by (auto simp: z image_iff)
  have "outcome_ok (lx_graph cx) op (sc @ zs) (launch_of cx op) (predecessor_floor cx (sc @ zs) k) x"
    unfolding floor_extend [OF op(3)] using op(4) by (rule outcome_ok_extend)
  then have "scheduled_ok cx ((sc @ zs) @ [(op_operation_id op, x)])"
    using ih op fresh predecessors_in_extend [OF op(3)] by (intro scheduled_ok.grow) auto
  then show ?case by (simp add: z op(2))
qed

subsection \<open>Readiness\<close>

lemma completion_rank_oks:
  assumes "outcome_ok g op sc l lo x"
  shows "oks (logical_completion_participant_rank x) (\<lambda>r. map_of (so_participant_completed_at_ps x) r = Some (so_logical_completed_at_ps x))"
proof -
  let ?d = "so_participant_completed_at_ps x" and ?t = "so_logical_completed_at_ps x"
  have ok: "dict_ok ?d" "?t \<in> snd ` set ?d" using assms by (auto simp: outcome_ok_def participants_ok_def)
  let ?rs = "map fst (filter (\<lambda>(rank, t). t = ?t) ?d)"
  have ne: "?rs \<noteq> []" using ok(2) by (force simp: filter_empty_conv)
  then have "Max (set ?rs) \<in> set ?rs" using Max_in [OF finite_set, of ?rs] by (metis set_empty)
  then have "(Max (set ?rs), ?t) \<in> set ?d" by auto
  then have "map_of ?d (Max (set ?rs)) = Some ?t" using ok(1) by (simp add: map_of_is_SomeI)
  then show ?thesis using ne unfolding logical_completion_participant_rank_def by (cases ?rs) simp_all
qed

abbreviation ready_of :: "readiness \<Rightarrow> ready_operation" where
  "ready_of r \<equiv> \<lparr>rd_by_rank = fst r, rd_witnesses = snd r, rd_eligible_at_ps = 0\<rparr>"

definition later :: "readiness \<Rightarrow> readiness \<Rightarrow> bool" where
  "later r r' \<longleftrightarrow> (\<forall>k t'. map_of (fst r') k = Some t' \<longrightarrow> (\<exists>t. map_of (fst r) k = Some t \<and> t \<le> t'))"

definition at_least :: "int \<Rightarrow> readiness \<Rightarrow> bool" where
  "at_least b r \<longleftrightarrow> (\<forall>k t. map_of (fst r) k = Some t \<longrightarrow> b \<le> t)"

lemma later_refl [simp]: "later r r"
  by (simp add: later_def)

lemma later_trans: "later a b \<Longrightarrow> later b c \<Longrightarrow> later a c"
  unfolding later_def by (meson order_trans)

lemma at_least_later: "at_least b r \<Longrightarrow> later r r' \<Longrightarrow> at_least b r'"
  unfolding at_least_def later_def by (meson order_trans)

lemma constrain_rank_oks:
  assumes "ready_ok op sc l lo (ready_of r)" "rank \<in> set (operation_participant_ranks op)" "wit_ok sc (cx_completed_at_ps w) (Some w)"
  shows "oks (constrain_rank w rank r) (\<lambda>r'. ready_ok op sc l lo (ready_of r') \<and> later r r' \<and>
    (\<forall>t. map_of (fst r') rank = Some t \<longrightarrow> cx_completed_at_ps w \<le> t))"
proof -
  obtain t y where e: "map_of (fst r) rank = Some t" "map_of (snd r) rank = Some y" "qv_completed_at_ps l \<le> t" "lo \<le> t" "wit_ok sc t y"
    using ready_time [OF assms(1,2)] by auto
  define y' where "y' = (case y of None \<Rightarrow> Some w | Some x \<Rightarrow> select_two (cx_completed_at_ps x, Some x) (cx_completed_at_ps w, Some w))"
  have w': "wit_ok sc (max t (cx_completed_at_ps w)) y'"
  proof (cases y)
    case None
    then show ?thesis using assms(3) by (auto simp: y'_def intro: wit_ok_mono)
  next
    case (Some x)
    then have "wit_ok sc (cx_completed_at_ps x) (Some x)" "cx_completed_at_ps x \<le> t" using e(5) by (auto simp: wit_ok_def)
    then show ?thesis using assms(3) by (auto simp: y'_def Some intro!: wit_ok_select)
  qed
  have k: "map fst (AList.update rank u (fst r)) = map fst (fst r)" "map fst (AList.update rank v (snd r)) = map fst (snd r)" for u v
    using e by (simp_all add: update_existing)
  have "ready_ok op sc l lo (ready_of (AList.update rank (max t (cx_completed_at_ps w)) (fst r), AList.update rank y' (snd r)))"
    unfolding ready_ok_def
  proof (intro conjI allI impI)
    fix k' u assume u: "map_of (rd_by_rank (ready_of (AList.update rank (max t (cx_completed_at_ps w)) (fst r), AList.update rank y' (snd r)))) k' = Some u"
    have old: "qv_completed_at_ps l \<le> u \<and> lo \<le> u \<and> (\<forall>y. map_of (snd r) k' = Some y \<longrightarrow> wit_ok sc u y)" if "k' \<noteq> rank"
    proof -
      have "map_of (fst r) k' = Some u" using u that by (simp only: ready_operation.simps fst_conv update_conv fun_upd_apply if_False)
      then show ?thesis using assms(1) unfolding ready_ok_def ready_operation.simps by blast
    qed
    have new: "u = max t (cx_completed_at_ps w)" if "k' = rank"
      using u that by (simp only: ready_operation.simps fst_conv update_conv fun_upd_apply if_True option.inject simp_thms)
    show "qv_completed_at_ps l \<le> u" "lo \<le> u" using old new e(3,4) by (cases "k' = rank", auto)+
    show "wit_ok sc u v" if "map_of (rd_witnesses (ready_of (AList.update rank (max t (cx_completed_at_ps w)) (fst r), AList.update rank y' (snd r)))) k' = Some v" for v
      using that old new w' by (cases "k' = rank") (simp_all only: ready_operation.simps snd_conv update_conv fun_upd_apply if_True if_False option.inject simp_thms)
  qed (use assms(1) k in \<open>simp_all only: ready_ok_def ready_operation.simps fst_conv snd_conv\<close>)
  then show ?thesis using e by (cases r) (auto simp: constrain_rank_def y'_def later_def update_conv)
qed

lemma constrain_ranks_oks:
  assumes "ready_ok op sc l lo (ready_of r)" "wit_ok sc (cx_completed_at_ps w) (Some w)"
  shows "oks (rfold (constrain_rank w) (operation_participant_ranks op) r) (\<lambda>r'. ready_ok op sc l lo (ready_of r') \<and> later r r' \<and> at_least (cx_completed_at_ps w) r')"
proof -
  let ?I = "\<lambda>pre r'. ready_ok op sc l lo (ready_of r') \<and> later r r' \<and> (\<forall>k \<in> set pre. \<forall>t. map_of (fst r') k = Some t \<longrightarrow> cx_completed_at_ps w \<le> t)"
  have "oks (rfold (constrain_rank w) (operation_participant_ranks op) r) (?I (operation_participant_ranks op))"
  proof (rule oks_rfold_prefix)
    show "?I [] r" using assms(1) by simp
    fix pre k r' assume k: "set (pre @ [k]) \<subseteq> set (operation_participant_ranks op)" and i: "?I pre r'"
    have "oks (constrain_rank w k r') (\<lambda>r''. ready_ok op sc l lo (ready_of r'') \<and> later r' r'' \<and>
        (\<forall>t. map_of (fst r'') k = Some t \<longrightarrow> cx_completed_at_ps w \<le> t))"
      using k i assms(2) by (intro constrain_rank_oks) auto
    then show "oks (constrain_rank w k r') (?I (pre @ [k]))"
    proof (rule oks_mono, intro conjI ballI)
      fix r'' k' assume n: "ready_ok op sc l lo (ready_of r'') \<and> later r' r'' \<and> (\<forall>t. map_of (fst r'') k = Some t \<longrightarrow> cx_completed_at_ps w \<le> t)"
      show "ready_ok op sc l lo (ready_of r'')" "later r r''" using n i later_trans by blast+
      assume "k' \<in> set (pre @ [k])"
      then show "\<forall>t. map_of (fst r'') k' = Some t \<longrightarrow> cx_completed_at_ps w \<le> t"
        using n i unfolding later_def by (metis Un_iff empty_iff insert_iff list.set order_trans set_append)
    qed
  qed
  then show ?thesis
  proof (rule oks_mono)
    fix r' assume i: "?I (operation_participant_ranks op) r'"
    have "map fst (fst r') = operation_participant_ranks op" using i by (simp add: ready_ok_def)
    then have "k \<in> set (operation_participant_ranks op)" if "map_of (fst r') k = Some t" for k t
      using that by (metis image_eqI list.set_map map_of_SomeD fst_conv)
    then show "ready_ok op sc l lo (ready_of r') \<and> later r r' \<and> at_least (cx_completed_at_ps w) r'" using i by (auto simp: at_least_def)
  qed
qed

lemma apply_edge_oks:
  assumes cx: "context_ok cx" "scheduled_ok cx sc" and op: "op \<in> set (eg_operations (lx_graph cx))"
    and e: "e \<in> set (incoming_edges (lx_edges cx) (op_operation_id op))" "map_of sc (ed_predecessor_id e) = Some x"
    and r: "ready_ok op sc l lo (ready_of r)"
  shows "oks (apply_edge (operation_participant_ranks op) sc e r) (\<lambda>r'. ready_ok op sc l lo (ready_of r') \<and> later r r' \<and>
    (ed_scope e = WHOLE_OPERATION \<longrightarrow> at_least (so_logical_completed_at_ps x) r'))"
proof -
  have ed: "edge_ok (lx_graph cx) e" "ed_operation_id e = op_operation_id op" using contextD(7) [OF cx(1)] e(1) by (auto simp: incoming_edges_def)
  obtain pre ys lo' where pre: "pre \<in> set (eg_operations (lx_graph cx))" "op_operation_id pre = ed_predecessor_id e"
    "outcome_ok (lx_graph cx) pre ys (launch_of cx pre) lo' x" using scheduled_outcome [OF cx(2) e(2)] by blast
  show ?thesis
  proof (cases "ed_scope e")
    case WHOLE_OPERATION
    have "oks (rfold (constrain_rank \<lparr>cx_predecessor_id = ed_predecessor_id e, cx_participant_rank = pr, cx_completed_at_ps = so_logical_completed_at_ps x\<rparr>)
        (operation_participant_ranks op) r) (\<lambda>r'. ready_ok op sc l lo (ready_of r') \<and> later r r' \<and> at_least (so_logical_completed_at_ps x) r')"
      if "map_of (so_participant_completed_at_ps x) pr = Some (so_logical_completed_at_ps x)" for pr
      using constrain_ranks_oks [OF r, of "\<lparr>cx_predecessor_id = ed_predecessor_id e, cx_participant_rank = pr, cx_completed_at_ps = so_logical_completed_at_ps x\<rparr>"]
        that e(2) by (simp add: wit_ok_def)
    then show ?thesis using completion_rank_oks [OF pre(3)] by (auto simp: apply_edge_def e(2) WHOLE_OPERATION elim!: oks_mono)
  next
    case PARTICIPANT_LOCAL
    then obtain op' pre' rank where l: "op' \<in> set (eg_operations (lx_graph cx))" "pre' \<in> set (eg_operations (lx_graph cx))"
      "op_operation_id op' = ed_operation_id e" "op_operation_id pre' = ed_predecessor_id e" "ed_participant_rank e = Some rank"
      "rank \<in> set (operation_participant_ranks op')" "rank \<in> set (operation_participant_ranks pre')"
      using ed(1) by (auto simp: edge_ok_def)
    have same: "op' = op" "pre' = pre"
      using operation_unique [OF cx(1) l(1) op] operation_unique [OF cx(1) l(2) pre(1)] l(3,4) ed(2) pre(2) by auto
    obtain t where t: "map_of (so_participant_completed_at_ps x) rank = Some t"
      using participants_entry [of "lx_graph cx" "op_work pre" _ ys "so_participant_completed_at_ps x" _ _ rank] pre(3) l(7) same(2)
      unfolding outcome_ok_def by blast
    have "oks (constrain_rank \<lparr>cx_predecessor_id = ed_predecessor_id e, cx_participant_rank = rank, cx_completed_at_ps = t\<rparr> rank r)
        (\<lambda>r'. ready_ok op sc l lo (ready_of r') \<and> later r r')"
      by (rule oks_mono [OF constrain_rank_oks [OF r]]) (use l(6) same t e(2) in \<open>auto simp: wit_ok_def\<close>)
    then show ?thesis by (simp add: apply_edge_def e(2) PARTICIPANT_LOCAL l(5) t)
  qed
qed

lemma operation_readiness_oks:
  assumes cx: "context_ok cx" "scheduled_ok cx sc" and op: "op \<in> set (eg_operations (lx_graph cx))" "predecessors_in cx sc (op_operation_id op)"
  shows "oks (operation_readiness op (launch_of cx op) sc (incoming_edges (lx_edges cx) (op_operation_id op)))
    (ready_ok op sc (launch_of cx op) (predecessor_floor cx sc (op_operation_id op)))"
proof -
  let ?l = "launch_of cx op" and ?es = "incoming_edges (lx_edges cx) (op_operation_id op)"
  let ?r = "(map (\<lambda>r. (r, qv_completed_at_ps ?l)) (operation_participant_ranks op), map (\<lambda>r. (r, None)) (operation_participant_ranks op))"
  let ?I = "\<lambda>pre r. ready_ok op sc ?l 0 (ready_of r) \<and>
    (\<forall>e \<in> set pre. \<forall>x. ed_scope e = WHOLE_OPERATION \<longrightarrow> map_of sc (ed_predecessor_id e) = Some x \<longrightarrow> at_least (so_logical_completed_at_ps x) r)"
  note lf = launch_facts [OF launch_of(2) [OF cx(1) op(1)]]
  have "oks (rfold (apply_edge (operation_participant_ranks op) sc) ?es ?r) (?I ?es)"
  proof (rule oks_rfold_prefix)
    show "?I [] ?r" using lf by (auto simp: ready_ok_def o_def map_of_map_restrict restrict_map_def split: if_splits)
    fix pre e r assume pre: "set (pre @ [e]) \<subseteq> set ?es" and i: "?I pre r"
    obtain x where x: "map_of sc (ed_predecessor_id e) = Some x" using op(2) pre by (auto simp: predecessors_in_def)
    have "oks (apply_edge (operation_participant_ranks op) sc e r) (\<lambda>r'. ready_ok op sc ?l 0 (ready_of r') \<and> later r r' \<and>
        (ed_scope e = WHOLE_OPERATION \<longrightarrow> at_least (so_logical_completed_at_ps x) r'))"
      using pre i by (intro apply_edge_oks [OF cx op(1) _ x]) auto
    then show "oks (apply_edge (operation_participant_ranks op) sc e r) (?I (pre @ [e]))"
    proof (rule oks_mono, intro conjI ballI allI impI)
      fix r' e' y assume n: "ready_ok op sc ?l 0 (ready_of r') \<and> later r r' \<and> (ed_scope e = WHOLE_OPERATION \<longrightarrow> at_least (so_logical_completed_at_ps x) r')"
      show "ready_ok op sc ?l 0 (ready_of r')" using n by blast
      assume "e' \<in> set (pre @ [e])" "ed_scope e' = WHOLE_OPERATION" "map_of sc (ed_predecessor_id e') = Some y"
      then show "at_least (so_logical_completed_at_ps y) r'" using n i x at_least_later [of _ r r'] by (cases "e' = e") auto
    qed
  qed
  moreover have "ready_ok op sc ?l (predecessor_floor cx sc (op_operation_id op)) \<lparr>rd_by_rank = fst r, rd_witnesses = snd r, rd_eligible_at_ps = m\<rparr>"
    if i: "?I ?es r" for r m
  proof -
    have "predecessor_floor cx sc (op_operation_id op) \<le> t" if t: "map_of (fst r) k = Some t" for k t
    proof (rule floor_least)
      show "0 \<le> t" using i t by (auto simp: ready_ok_def)
    qed (use i t in \<open>auto simp: at_least_def\<close>)
    then show ?thesis using i by (auto simp: ready_ok_def)
  qed
  ultimately show ?thesis unfolding operation_readiness_def Let_def oks_rbind oks_case_prod by (auto elim!: oks_mono simp: case_prod_unfold)
qed

end
