(* ===== verification/Runtime_Progress.thy ===== *)
theory Runtime_Progress
  imports Runtime_Schedule
begin

text \<open>
  The scheduling loop of the device runtime makes progress and ends with every operation scheduled.
  The locale \<open>runtime_seams\<close> joins the two seams the scheduler calls through, the arbitration policy and
  the WQE authority; every policy of the repository together with the bypass ledger implements it.
\<close>

subsection \<open>Ready operations\<close>

lemma ready_operations_oks:
  assumes "context_ok cx" "scheduled_ok cx sc" "set ops \<subseteq> set (eg_operations (lx_graph cx))"
  shows "oks (ready_operations (lx_edges cx) (lx_launches cx) sc un ops) (\<lambda>ready.
    map fst ready = map op_operation_id (filter (\<lambda>op. op_operation_id op \<in> set un \<and> predecessors_in cx sc (op_operation_id op)) ops) \<and>
    (\<forall>(k, r) \<in> set ready. \<exists>op \<in> set ops. op_operation_id op = k \<and> ready_ok op sc (launch_of cx op) (predecessor_floor cx sc k) r))"
  using assms(3)
proof (induction ops)
  case (Cons op ops)
  have op: "op \<in> set (eg_operations (lx_graph cx))" using Cons.prems by simp
  have skip: "(op_operation_id op \<notin> set un \<or> list_ex (\<lambda>e. map_of sc (ed_predecessor_id e) = None) (incoming_edges (lx_edges cx) (op_operation_id op)))
      \<longleftrightarrow> \<not> (op_operation_id op \<in> set un \<and> predecessors_in cx sc (op_operation_id op))"
    by (auto simp: predecessors_in_def list_ex_iff)
  note step = ready_operations.simps(2) [of "lx_edges cx" "lx_launches cx" sc un op ops, unfolded Let_def skip]
  show ?case
  proof (cases "op_operation_id op \<in> set un \<and> predecessors_in cx sc (op_operation_id op)")
    case False
    then show ?thesis unfolding step using Cons by (auto elim!: oks_mono)
  next
    case True
    have "oks (operation_readiness op (launch_of cx op) sc (incoming_edges (lx_edges cx) (op_operation_id op)))
        (ready_ok op sc (launch_of cx op) (predecessor_floor cx sc (op_operation_id op)))"
      using True by (intro operation_readiness_oks assms(1,2) op) simp
    moreover have "oks (ready_operations (lx_edges cx) (lx_launches cx) sc un ops) (\<lambda>ready.
        map fst ready = map op_operation_id (filter (\<lambda>op. op_operation_id op \<in> set un \<and> predecessors_in cx sc (op_operation_id op)) ops) \<and>
        (\<forall>(k, r) \<in> set ready. \<exists>op \<in> set ops. op_operation_id op = k \<and> ready_ok op sc (launch_of cx op) (predecessor_floor cx sc k) r))"
      using Cons by simp
    ultimately show ?thesis unfolding step using True launch_of(1) [OF assms(1) op] by (auto elim!: oks_mono)
  qed
qed simp

lemma some_operation_ready:
  assumes cx: "context_ok cx" and un: "un \<noteq> []" "set un = op_operation_id ` set (eg_operations (lx_graph cx)) - fst ` set sc"
  shows "\<exists>op \<in> set (eg_operations (lx_graph cx)). op_operation_id op \<in> set un \<and> predecessors_in cx sc (op_operation_id op)"
proof -
  have "finite (ordering (lx_graph cx))" by (simp add: ordering_def)
  then have wf: "wf (ordering (lx_graph cx))" using contextD(2) [OF cx] by (rule finite_acyclic_wf)
  have "set un \<noteq> {}" using un(1) by simp
  then obtain k where k: "k \<in> set un" "\<And>u. (u, k) \<in> ordering (lx_graph cx) \<Longrightarrow> u \<notin> set un" using wf by (metis ex_in_conv wfE_min)
  then obtain op where op: "op \<in> set (eg_operations (lx_graph cx))" "op_operation_id op = k" using un(2) by auto
  have "map_of sc (ed_predecessor_id e) \<noteq> None" if e: "e \<in> set (incoming_edges (lx_edges cx) k)" for e
  proof -
    have e': "e \<in> set (lx_edges cx)" "ed_operation_id e = k" using e by (simp_all add: incoming_edges_def)
    then have "(ed_predecessor_id e, k) \<in> ordering (lx_graph cx)" using contextD(3) [OF cx] by (auto simp: ordering_def)
    then have "ed_predecessor_id e \<notin> set un" by (rule k(2))
    moreover have "ed_predecessor_id e \<in> op_operation_id ` set (eg_operations (lx_graph cx))" using contextD(7) [OF cx e'(1)] by (force simp: edge_ok_def)
    ultimately show ?thesis using un(2) by (auto simp: map_of_eq_None_iff)
  qed
  then show ?thesis using op k(1) by (auto simp: predecessors_in_def)
qed

subsection \<open>Selection\<close>

lemma known_key: "k \<in> set (map fst d) \<Longrightarrow> map_of d k \<noteq> None"
  by (simp add: map_of_eq_None_iff)

lemma enumerate_ids: "map fst (map (\<lambda>(i, op). (op_operation_id op, int i)) (enumerate n ops)) = map op_operation_id ops"
  by (induction ops arbitrary: n) auto

lemma tables_known:
  assumes cx: "context_ok cx" and keys: "distinct ks" "set ks \<subseteq> fst ` set ready" "fst ` set ready \<subseteq> op_operation_id ` set (eg_operations (lx_graph cx))"
  shows "known_operations (tables_of (lx_graph cx) ready) ks"
  unfolding known_operations_def list_all_iff
proof (intro conjI ballI keys(1))
  let ?g = "lx_graph cx"
  fix k assume k: "k \<in> set ks"
  then have "k \<in> op_operation_id ` set (eg_operations ?g)" using keys(2,3) by (meson subsetD)
  then obtain op where op: "op \<in> set (eg_operations ?g)" "op_operation_id op = k" by (elim imageE) simp
  have keys': "map fst (ot_operation_index (tables_of ?g ready)) = map op_operation_id (eg_operations ?g)"
    "map fst (ot_eligible_at_ps (tables_of ?g ready)) = map fst ready"
    using enumerate_ids [of 0 "eg_operations ?g"] by (simp_all add: tables_of_def o_def case_prod_unfold)
  show "map_of (ot_operation_index (tables_of ?g ready)) k \<noteq> None"
    by (rule known_key) (unfold keys' set_map, rule image_eqI [where f = op_operation_id, OF op(2) [symmetric] op(1)])
  show "map_of (ot_eligible_at_ps (tables_of ?g ready)) k \<noteq> None"
    by (rule known_key) (unfold keys' set_map, rule subsetD [OF keys(2) k])
  have "map_of (ot_priority (tables_of ?g ready)) k = Some (op_priority op)"
    using contextD(1) [OF cx] op by (auto simp: tables_of_def o_def intro!: map_of_is_SomeI)
  then show "map_of (ot_priority (tables_of ?g ready)) k \<noteq> None" "0 \<le> table_priority (tables_of ?g ready) k"
    using contextD(9) [OF cx op(1)] by (simp_all add: table_priority_def)
qed

lemma rfilter_oks:
  assumes "\<And>x. x \<in> set xs \<Longrightarrow> oks (f x) (\<lambda>b. b = P x)" shows "rfilter f xs = Inr (filter P xs)"
  using assms by (induction xs) (auto simp: oks_def)

context arbitration
begin

lemma select_ready_ok:
  assumes "known_operations ts ks" "ks \<noteq> []"
  shows "\<exists>p' k. select_ready_operation select p ts ks = (p', Inr k) \<and> k \<in> set ks"
proof -
  obtain cs where cs: "candidates_of ts ks = Inr cs" using candidates_of_known [OF assms(1)] by blast
  have ids: "map ac_operation_id cs = ks" and labels: "\<forall>c \<in> set cs. map_of (ot_priority ts) (ac_operation_id c) = Some (ac_class_label c)"
    using candidates_of_Inr [OF cs] by auto
  obtain d ds where ds: "cs = d # ds" using ids assms(2) by (cases cs) auto
  define first where "first = filter (\<lambda>x. ac_eligible_at_ps x = Min (set (map ac_eligible_at_ps cs))) cs"
  have "Min (set (map ac_eligible_at_ps cs)) \<in> set (map ac_eligible_at_ps cs)" by (intro Min_in) (auto simp: ds)
  then have "first \<noteq> []" by (auto simp: first_def filter_empty_conv)
  moreover have "\<forall>c \<in> set first. 0 \<le> ac_class_label c"
  proof
    fix c assume "c \<in> set first"
    then have c: "c \<in> set cs" by (simp add: first_def)
    then have "ac_operation_id c \<in> set ks" using ids by (metis image_eqI list.set_map)
    then show "0 \<le> ac_class_label c" using assms(1) labels c by (auto simp: known_operations_def list_all_iff table_priority_def)
  qed
  ultimately obtain p' c where c: "select p first = (p', Inr c)" using select_total by blast
  then have "c \<in> set first" by (rule select_member)
  then have "ac_operation_id c \<in> set ks" using ids unfolding first_def by (auto simp flip: ids)
  then show ?thesis using c by (simp add: select_ready_operation_def cs ds Let_def grant_eq_select first_def)
qed

end

subsection \<open>Compute groups\<close>

definition ready_table :: "'k launch_context \<Rightarrow> (string, scheduled_operation) dict \<Rightarrow> string list \<Rightarrow> (string, ready_operation) dict \<Rightarrow> bool" where
  "ready_table cx sc un ready \<longleftrightarrow>
     dict_ok ready \<and> (\<forall>(k, r) \<in> set ready. k \<in> set un \<and> predecessors_in cx sc k \<and>
       (\<exists>op \<in> set (eg_operations (lx_graph cx)). op_operation_id op = k \<and> ready_ok op sc (launch_of cx op) (predecessor_floor cx sc k) r))"

lemma ready_table_entry:
  assumes cx: "context_ok cx" and t: "ready_table cx sc un ready" and op: "op \<in> set (eg_operations (lx_graph cx))" "op_operation_id op \<in> fst ` set ready"
  shows "\<exists>r. map_of ready (op_operation_id op) = Some r \<and> op_operation_id op \<in> set un \<and> predecessors_in cx sc (op_operation_id op) \<and>
    ready_ok op sc (launch_of cx op) (predecessor_floor cx sc (op_operation_id op)) r"
proof -
  obtain r where r: "(op_operation_id op, r) \<in> set ready" using op(2) by auto
  then have "map_of ready (op_operation_id op) = Some r" using t by (auto simp: ready_table_def)
  moreover obtain op' where op': "op' \<in> set (eg_operations (lx_graph cx))" "op_operation_id op' = op_operation_id op"
    "ready_ok op' sc (launch_of cx op') (predecessor_floor cx sc (op_operation_id op)) r"
    using t r by (fastforce simp: ready_table_def)
  have "op' = op" using operation_unique [OF cx op'(1) op(1) op'(2)] .
  ultimately show ?thesis using t r op'(3) by (fastforce simp: ready_table_def)
qed

lemma ready_table_keys: "ready_table cx sc un ready \<Longrightarrow> fst ` set ready \<subseteq> op_operation_id ` set (eg_operations (lx_graph cx))"
  by (fastforce simp: ready_table_def)

definition group_ok :: "'k launch_context \<Rightarrow> (string, ready_operation) dict \<Rightarrow> int \<Rightarrow> string list \<Rightarrow> bool" where
  "group_ok cx ready rank ids \<longleftrightarrow>
     ids \<noteq> [] \<and> distinct ids \<and>
     (\<forall>k \<in> set ids. k \<in> fst ` set ready \<and> (\<exists>op w. op \<in> set (eg_operations (lx_graph cx)) \<and> op_operation_id op = k \<and> compute_of op = Some w \<and> op_rank op = rank))"

lemma compute_of_iff: "compute_of op = Some w \<longleftrightarrow> op_work op = ComputeWork w"
  by (auto simp: compute_of_def split: work_payload.splits)

context arbitration
begin

lemma compute_group_ok:
  assumes cx: "context_ok cx" and t: "ready_table cx sc un ready"
    and op: "op \<in> set (eg_operations (lx_graph cx))" "op_operation_id op \<in> fst ` set ready" "compute_of op = Some w"
  shows "\<exists>pol' ids. compute_group (lx_config cx) select pol (lx_graph cx) op w ready st = (pol', Inr ids) \<and> group_ok cx ready (op_rank op) ids"
proof (cases "rc_serial_compute (lx_config cx)")
  case True
  then show ?thesis using op by (auto simp: compute_group_def group_ok_def)
next
  case False
  obtain r where r: "map_of ready (op_operation_id op) = Some r" "ready_ok op sc (launch_of cx op) (predecessor_floor cx sc (op_operation_id op)) r"
    using ready_table_entry [OF cx t op(1,2)] by blast
  obtain eligible where eligible: "map_of (rd_by_rank r) (op_rank op) = Some eligible" using ready_time [OF r(2) participant_ranks_facts(2)] by blast
  define start where "start = compute_start st (op_rank op) (uses_hbm w) eligible"
  define P :: "string \<times> ready_operation \<Rightarrow> bool" where "P = (\<lambda>(k, r). \<exists>op' w'. op' \<in> set (eg_operations (lx_graph cx)) \<and> op_operation_id op' = k \<and> compute_of op' = Some w' \<and> op_rank op' = op_rank op \<and>
    (\<exists>t. map_of (rd_by_rank r) (op_rank op) = Some t \<and> t \<le> start \<and> \<not> (uses_hbm w' \<and> dict_get (st_hbm_available st) (op_rank op) 0 > start)))"
  have join: "oks (joins_group (lx_graph cx) st (op_rank op) start x) (\<lambda>b. b = P x)" if x: "x \<in> set ready" for x
  proof -
    obtain k r' where kr: "x = (k, r')" by (cases x)
    obtain op' where op': "op' \<in> set (eg_operations (lx_graph cx))" "op_operation_id op' = k" "ready_ok op' sc (launch_of cx op') (predecessor_floor cx sc k) r'"
      using t x by (fastforce simp: ready_table_def kr)
    have look: "map_of (operation_by_id (eg_operations (lx_graph cx))) k = Some op'" using operation_lookup [OF cx op'(1)] op'(2) by simp
    have same: "q = op'" if "q \<in> set (eg_operations (lx_graph cx))" "op_operation_id q = k" for q
      using operation_unique [OF cx that(1) op'(1)] that(2) op'(2) by simp
    obtain t' where t': "map_of (rd_by_rank r') (op_rank op') = Some t'" using ready_time [OF op'(3) participant_ranks_facts(2)] by blast
    show ?thesis
    proof (cases "compute_of op'")
      case None
      then have "\<not> P x" using same unfolding P_def kr prod.case by (metis option.distinct(1))
      then show ?thesis using None by (simp add: joins_group_def kr look)
    next
      case (Some w')
      then have "P x \<longleftrightarrow> op_rank op' = op_rank op \<and>
          (\<exists>t. map_of (rd_by_rank r') (op_rank op) = Some t \<and> t \<le> start \<and> \<not> (uses_hbm w' \<and> dict_get (st_hbm_available st) (op_rank op) 0 > start))"
        using same op'(1,2) unfolding P_def kr prod.case by (metis option.inject)
      then show ?thesis using Some t' by (auto simp: joins_group_def kr look)
    qed
  qed
  have filter: "rfilter (joins_group (lx_graph cx) st (op_rank op) start) ready = Inr (filter P ready)" using join by (rule rfilter_oks)
  have "(op_operation_id op, r) \<in> set (filter P ready)"
    using map_of_SomeD [OF r(1)] op eligible by (auto simp: P_def start_def compute_start_def Let_def intro!: exI [of _ op])
  then have mem: "op_operation_id op \<in> set (map fst (filter P ready))" by (metis fst_conv image_eqI list.set_map)
  have dist: "distinct (map fst (filter P ready))" using t by (simp add: ready_table_def distinct_map_filter)
  have "known_operations (tables_of (lx_graph cx) ready) (map fst (filter P ready))"
    using ready_table_keys [OF t] by (intro tables_known cx dist) auto
  then obtain pol' ids where ids: "arbitrated_order select pol (tables_of (lx_graph cx) ready) (map fst (filter P ready)) = (pol', Inr ids)"
    "mset ids = mset (map fst (filter P ready))" using order_perm by blast
  have set: "set ids = set (map fst (filter P ready))" "distinct ids" using ids(2) dist by (metis set_mset_mset, metis distinct_count_atmost_1 set_mset_mset)
  have "group_ok cx ready (op_rank op) ids"
    unfolding group_ok_def
  proof (intro conjI ballI)
    show "ids \<noteq> []" using set(1) mem by auto
    show "distinct ids" by (rule set(2))
    fix k assume "k \<in> set ids"
    then obtain q where q: "(k, q) \<in> set ready" "P (k, q)" using set(1) by auto
    then show "k \<in> fst ` set ready" by force
    show "\<exists>op' w. op' \<in> set (eg_operations (lx_graph cx)) \<and> op_operation_id op' = k \<and> compute_of op' = Some w \<and> op_rank op' = op_rank op"
      using q(2) by (auto simp: P_def)
  qed
  then show ?thesis using False r(1) eligible filter ids(1)
    by (auto simp: compute_group_def Let_def entry_at_def start_def)
qed

end

subsection \<open>Serving a selected operation\<close>

definition loop_ok :: "'k launch_context \<Rightarrow> ('w \<Rightarrow> bool) \<Rightarrow> 'w loop_state \<Rightarrow> bool" where
  "loop_ok cx keeps s \<longleftrightarrow>
     scheduled_ok cx (ls_scheduled s) \<and>
     set (ls_unscheduled s) = op_operation_id ` set (eg_operations (lx_graph cx)) - fst ` set (ls_scheduled s) \<and>
     keeps (mc_wqe (ls_machine s)) \<and> (\<forall>q \<in> set (ls_wqes s). \<exists>x \<in> snd ` set (ls_scheduled s). q \<in> set (so_wqes x))"

lemma store_outcomes_oks:
  assumes "distinct (map fst zs)" "fst ` set zs \<subseteq> set (ls_unscheduled s)" "fst ` set zs \<inter> fst ` set (ls_scheduled s) = {}"
  shows "oks (rfold store_outcome zs s) (\<lambda>s'. ls_scheduled s' = ls_scheduled s @ zs \<and> set (ls_unscheduled s') = set (ls_unscheduled s) - fst ` set zs \<and>
    ls_wqes s' = ls_wqes s \<and> ls_machine s' = ls_machine s)"
  using assms
proof (induction zs arbitrary: s)
  case (Cons z zs)
  obtain k x where z: "z = (k, x)" by (cases z)
  let ?s = "s\<lparr>ls_scheduled := ls_scheduled s @ [(k, x)], ls_unscheduled := removeAll k (ls_unscheduled s)\<rparr>"
  have "store_outcome z s = Inr ?s" using Cons.prems by (auto simp: store_outcome_def z update_append_fresh)
  moreover have "oks (rfold store_outcome zs ?s) (\<lambda>s'. ls_scheduled s' = ls_scheduled ?s @ zs \<and> set (ls_unscheduled s') = set (ls_unscheduled ?s) - fst ` set zs \<and>
      ls_wqes s' = ls_wqes ?s \<and> ls_machine s' = ls_machine ?s)"
    using Cons.prems by (intro Cons.IH) (auto simp: z image_iff)
  ultimately show ?case by (auto simp: z elim!: oks_mono)
qed simp

text \<open>Storing served outcomes keeps the loop invariant.\<close>

lemma loop_store:
  fixes s :: "'b loop_state"
  assumes l: "loop_ok cx keeps s" and m: "keeps (mc_wqe m)"
    and zs: "distinct (map fst zs)" "fst ` set zs \<subseteq> set (ls_unscheduled s)"
      "\<And>k x. (k, x) \<in> set zs \<Longrightarrow> \<exists>op \<in> set (eg_operations (lx_graph cx)). op_operation_id op = k \<and> predecessors_in cx (ls_scheduled s) k \<and>
         outcome_ok (lx_graph cx) op (ls_scheduled s) (launch_of cx op) (predecessor_floor cx (ls_scheduled s) k) x"
    and q: "\<forall>q \<in> set qs. \<exists>x \<in> snd ` set zs. q \<in> set (so_wqes x)"
  shows "oks (rfold store_outcome zs (s\<lparr>ls_wqes := ls_wqes s @ qs, ls_machine := m\<rparr>)) (loop_ok cx keeps)"
proof -
  have un: "set (ls_unscheduled s) = op_operation_id ` set (eg_operations (lx_graph cx)) - fst ` set (ls_scheduled s)" using l by (simp add: loop_ok_def)
  then have d: "fst ` set zs \<inter> fst ` set (ls_scheduled s) = {}" using zs(2) by auto
  have sc: "scheduled_ok cx (ls_scheduled s @ zs)" using l d zs by (intro scheduled_append) (auto simp: loop_ok_def)
  let ?s = "s\<lparr>ls_wqes := ls_wqes s @ qs, ls_machine := m\<rparr>"
  have "oks (rfold store_outcome zs ?s) (\<lambda>s'. ls_scheduled s' = ls_scheduled ?s @ zs \<and> set (ls_unscheduled s') = set (ls_unscheduled ?s) - fst ` set zs \<and>
      ls_wqes s' = ls_wqes ?s \<and> ls_machine s' = ls_machine ?s)"
    using zs d by (intro store_outcomes_oks) auto
  then show ?thesis
  proof (rule oks_mono)
    fix s' :: "'b loop_state" assume s': "ls_scheduled s' = ls_scheduled ?s @ zs \<and> set (ls_unscheduled s') = set (ls_unscheduled ?s) - fst ` set zs \<and>
      ls_wqes s' = ls_wqes ?s \<and> ls_machine s' = ls_machine ?s"
    have "\<forall>q \<in> set (ls_wqes s'). \<exists>x \<in> snd ` set (ls_scheduled s'). q \<in> set (so_wqes x)"
      using l q s' unfolding loop_ok_def by (auto simp: ball_Un image_Un bex_Un)
    then show "loop_ok cx keeps s'" using s' sc m un unfolding loop_ok_def by (auto simp: image_Un)
  qed
qed

locale runtime_seams = arbitration select + wqe_authority A p ingress inv
  for select :: "'p policy_select" and A :: "'w wqe_ops" and p ingress inv
begin

lemma schedule_noncompute_oks:
  assumes cfg: "rc_profile (lx_config cx) = p" "rc_receiver_ingress (lx_config cx) = ingress" and cx: "context_ok cx"
    and op: "op \<in> set (eg_operations (lx_graph cx))" "compute_of op = None"
    and r: "ready_ok op sc (launch_of cx op) lo ready" and m: "inv (mc_wqe m)"
  shows "oks (schedule_noncompute (lx_config cx) A (lx_graph cx) (lx_pending cx) (lx_tags cx) op ready (launch_of cx op) i m)
    (\<lambda>(x, m'). outcome_ok (lx_graph cx) op sc (launch_of cx op) lo x \<and> inv (mc_wqe m'))"
proof -
  note c = contextD [OF cx] and l = launch_of [OF cx op(1)]
  have p: "check_profile p = None" using c(4) cfg(1) by simp
  have ok: "operation_ok (lx_graph cx) op" using c(8) [OF op(1)] .
  have w: "work_ready cx op" using c(10) [OF op(1)] .
  obtain t y where t: "map_of (rd_by_rank ready) (op_rank op) = Some t" "map_of (rd_witnesses ready) (op_rank op) = Some y" "qv_completed_at_ps (launch_of cx op) \<le> t"
    "lo \<le> t" "wit_ok sc t y" using ready_time [OF r participant_ranks_facts(2)] by blast
  show ?thesis
  proof (cases "op_work op")
    case (ComputeWork w)
    then show ?thesis using op(2) by (simp add: compute_of_def)
  next
    case (KvCacheWork w')
    then have d: "0 \<le> kv_demand_bytes (lx_pending cx) (op_operation_id op)" "kv_demand_bytes (lx_pending cx) (op_operation_id op) \<noteq> 0 \<Longrightarrow> 0 < pf_hbm_rate_bps p"
      using w cfg(1) by (simp_all add: work_ready_def Let_def)
    show ?thesis
    proof (cases "kv_demand_bytes (lx_pending cx) (op_operation_id op) = 0")
      case True
      then show ?thesis using t m kv_marker_ok [OF KvCacheWork l(2) t(3,5)] by (simp add: schedule_noncompute_def Let_def KvCacheWork)
    next
      case False
      have "oks (schedule_kv_traffic p (lx_graph cx) op t y e (launch_of cx op) st (kv_demand_bytes (lx_pending cx) (op_operation_id op)))
          (\<lambda>(x, _). outcome_ok (lx_graph cx) op sc (launch_of cx op) lo x)" for e st
        by (rule kv_traffic_oks [OF p d(2) [OF False] ok KvCacheWork l(2) t(3,4,5) d(1)])
      then show ?thesis using t False m by (auto simp: schedule_noncompute_def Let_def KvCacheWork cfg(1) elim!: oks_mono)
    qed
  next
    case (DmaWork w')
    have dir: "oks (dma_direction w' (op_rank op)) (\<lambda>d. copy_candidates p d \<noteq> [])" using w cfg(1) by (simp add: work_ready_def DmaWork Let_def)
    define T where "T = Max (snd ` set (rd_by_rank ready))"
    have keys: "map fst (rd_by_rank ready) = operation_participant_ranks op" "map fst (rd_witnesses ready) = operation_participant_ranks op"
      using r by (simp_all add: ready_ok_def)
    have ne: "rd_by_rank ready \<noteq> []" using t(1) by auto
    have wit: "oks (completion_causal_witness (rd_by_rank ready) (rd_witnesses ready)) (wit_ok sc T)"
      unfolding T_def
    proof (rule completion_witness_oks)
      show "fst ` set (rd_by_rank ready) = fst ` set (rd_witnesses ready)" using keys by (metis list.set_map)
      show "wit_ok sc t y" if "map_of (rd_by_rank ready) k = Some t" "map_of (rd_witnesses ready) k = Some y" for k t y
        using r that unfolding ready_ok_def by blast
    qed (use keys ne in auto)
    have "T \<in> snd ` set (rd_by_rank ready)" unfolding T_def using ne by (intro Max_in) auto
    then obtain k where k: "(k, T) \<in> set (rd_by_rank ready)" by auto
    have "map_of (rd_by_rank ready) k = Some T" using k keys(1) by (simp add: map_of_is_SomeI)
    then have T: "qv_completed_at_ps (launch_of cx op) \<le> T" "lo \<le> T" using r unfolding ready_ok_def by blast+
    have "oks (schedule_dma p (lx_graph cx) op w' T z (launch_of cx op) st) (\<lambda>(x, _). outcome_ok (lx_graph cx) op sc (launch_of cx op) lo x)"
      if "wit_ok sc T z" for z st
      by (rule dma_oks [OF p c(5) cfg(1) ok DmaWork l(2) T that dir])
    then show ?thesis using wit m by (auto simp: schedule_noncompute_def Let_def DmaWork cfg(1) T_def elim!: oks_mono)
  next
    case (CollectiveWork w')
    then obtain ts where ts: "ring_work w' \<or> pairwise_table w'" "ring_work w' \<Longrightarrow> 2 \<le> length (lw_ranks w')" "op_rank op \<in> set (lw_ranks w')"
      "map_of (lx_tags cx) (op_operation_id op) = Some ts" "ts \<noteq> []" "\<forall>t \<in> set ts. 0 \<le> t"
      using w by (auto simp: work_ready_def Let_def)
    then show ?thesis using schedule_collective_oks [OF cfg p ok CollectiveWork l(2) r ts(1-3,5,6) m] c(6)
      by (simp add: schedule_noncompute_def Let_def CollectiveWork)
  next
    case (ControlWork w')
    then show ?thesis using schedule_control_oks [OF cfg p ok ControlWork l(2) r m] by (simp add: schedule_noncompute_def Let_def)
  qed
qed

lemma compute_ready_ok:
  assumes cx: "context_ok cx" and t: "ready_table cx sc un ready"
    and op: "op \<in> set (eg_operations (lx_graph cx))" "op_operation_id op \<in> fst ` set ready" "compute_of op = Some w"
  shows "compute_ready (lx_config cx) (lx_graph cx) sc ready (lx_launches cx) (predecessor_floor cx sc) (op_rank op) (op, w)"
proof -
  have w: "op_work op = ComputeWork w" using op(3) by (simp add: compute_of_iff)
  obtain r where "map_of ready (op_operation_id op) = Some r" "ready_ok op sc (launch_of cx op) (predecessor_floor cx sc (op_operation_id op)) r"
    using ready_table_entry [OF cx t op(1,2)] by blast
  then show ?thesis using w contextD(8,10) [OF cx op(1)] launch_of [OF cx op(1)]
    by (auto simp: compute_ready_def work_ready_def Let_def split: if_splits)
qed

lemma schedule_selected_ok:
  assumes cfg: "rc_profile (lx_config cx) = p" "rc_receiver_ingress (lx_config cx) = ingress" and cx: "context_ok cx" and s: "loop_ok cx inv s"
    and t: "ready_table cx (ls_scheduled s) (ls_unscheduled s) ready"
    and op: "op \<in> set (eg_operations (lx_graph cx))" "op_operation_id op \<in> fst ` set ready"
  shows "\<exists>pol' s'. schedule_selected cx A select pol ready op s = (pol', Inr s') \<and> loop_ok cx inv s'"
proof (cases "compute_of op")
  case None
  obtain r where r: "map_of ready (op_operation_id op) = Some r" "op_operation_id op \<in> set (ls_unscheduled s)"
    "predecessors_in cx (ls_scheduled s) (op_operation_id op)"
    "ready_ok op (ls_scheduled s) (launch_of cx op) (predecessor_floor cx (ls_scheduled s) (op_operation_id op)) r"
    using ready_table_entry [OF cx t op] by blast
  have inv: "inv (mc_wqe (ls_machine s))" using s by (simp add: loop_ok_def)
  have "oks (store_outcome (op_operation_id op, x) (s\<lparr>ls_wqes := ls_wqes s @ so_wqes x, ls_machine := m'\<rparr>)) (loop_ok cx inv)"
    if x: "outcome_ok (lx_graph cx) op (ls_scheduled s) (launch_of cx op) (predecessor_floor cx (ls_scheduled s) (op_operation_id op)) x" "inv (mc_wqe m')" for x m'
  proof -
    have "\<exists>op' \<in> set (eg_operations (lx_graph cx)). op_operation_id op' = op_operation_id op \<and> predecessors_in cx (ls_scheduled s) (op_operation_id op) \<and>
        outcome_ok (lx_graph cx) op' (ls_scheduled s) (launch_of cx op') (predecessor_floor cx (ls_scheduled s) (op_operation_id op)) x"
      using op(1) r(3) x(1) by blast
    then show ?thesis using loop_store [OF s x(2), of "[(op_operation_id op, x)]" "so_wqes x"] r(2) by (auto simp: oks_def rbind_Inr_iff)
  qed
  then have "oks (rbind (entry_at ready (op_operation_id op)) (\<lambda>r. rbind (entry_at (lx_launches cx) (op_operation_id op)) (\<lambda>launch.
      rbind (schedule_noncompute (lx_config cx) A (lx_graph cx) (lx_pending cx) (lx_tags cx) op r launch (nat (operation_position (lx_graph cx) (op_operation_id op))) (ls_machine s)) (\<lambda>(x, m').
        store_outcome (op_operation_id op, x) (s\<lparr>ls_wqes := ls_wqes s @ so_wqes x, ls_machine := m'\<rparr>))))) (loop_ok cx inv)"
    using r(1) launch_of(1) [OF cx op(1)] oks_mono [OF schedule_noncompute_oks [OF cfg cx op(1) None r(4) inv]] by (auto simp: split_beta)
  then show ?thesis by (auto simp: schedule_selected_def Let_def None oks_def)
next
  case (Some w)
  let ?g = "lx_graph cx" and ?sc = "ls_scheduled s"
  obtain pol' ids where ids: "compute_group (lx_config cx) select pol ?g op w ready (mc_state (ls_machine s)) = (pol', Inr ids)" "group_ok cx ready (op_rank op) ids"
    using compute_group_ok [OF cx t op Some] by blast
  let ?find = "\<lambda>k. rbind (entry_at (operation_by_id (eg_operations ?g)) k) (\<lambda>x. case compute_of x of None \<Rightarrow> Inl NoSuchKey | Some w \<Rightarrow> Inr (x, w))"
  let ?R = "\<lambda>k y. op_operation_id (fst y) = k \<and> fst y \<in> set (eg_operations ?g) \<and> compute_of (fst y) = Some (snd y) \<and> op_rank (fst y) = op_rank op \<and> k \<in> fst ` set ready"
  have find: "oks (collect ?find ids) (list_all2 ?R ids)"
  proof (rule oks_collect)
    fix k assume "k \<in> set ids"
    then obtain op' w' where op': "op' \<in> set (eg_operations ?g)" "op_operation_id op' = k" "compute_of op' = Some w'" "op_rank op' = op_rank op" "k \<in> fst ` set ready"
      using ids(2) unfolding group_ok_def by blast
    then show "oks (?find k) (?R k)" using operation_lookup [OF cx op'(1)] by auto
  qed
  have store: "oks (rbind (schedule_compute_group (lx_config cx) ?g ops ready (lx_launches cx) (mc_state (ls_machine s))) (\<lambda>(outcomes, st).
      rfold store_outcome outcomes (s\<lparr>ls_machine := (ls_machine s)\<lparr>mc_state := st\<rparr>\<rparr>))) (loop_ok cx inv)" if ops: "list_all2 ?R ids ops" for ops
  proof -
    have keys: "map (op_operation_id \<circ> fst) ops = ids" using ops by (induction rule: list_all2_induct) auto
    have mem: "?R (op_operation_id (fst y)) y" if "y \<in> set ops" for y using list_all2_set2 [OF ops that] by auto
    have ready: "compute_ready (lx_config cx) ?g ?sc ready (lx_launches cx) (predecessor_floor cx ?sc) (op_rank op) y" if "y \<in> set ops" for y
      using compute_ready_ok [OF cx t, of "fst y" "snd y"] mem [OF that] by simp
    have "oks (schedule_compute_group (lx_config cx) ?g ops ready (lx_launches cx) (mc_state (ls_machine s))) (\<lambda>(outcomes, _). list_all2 (\<lambda>x kx. fst kx = op_operation_id (fst x) \<and>
        outcome_ok ?g (fst x) ?sc (launch_of cx (fst x)) (predecessor_floor cx ?sc (op_operation_id (fst x))) (snd kx)) ops outcomes)"
      using ids(2) keys ready contextD(4,5) [OF cx] by (intro schedule_compute_group_oks) (auto simp: group_ok_def)
    then show ?thesis unfolding oks_rbind
    proof (rule oks_mono, clarify)
      fix zs st
      assume zs: "list_all2 (\<lambda>x kx. fst kx = op_operation_id (fst x) \<and> outcome_ok ?g (fst x) ?sc (launch_of cx (fst x))
        (predecessor_floor cx ?sc (op_operation_id (fst x))) (snd kx)) ops zs"
      have "map fst zs = map (op_operation_id \<circ> fst) ops" using zs by (induction rule: list_all2_induct) auto
      then have kz: "map fst zs = ids" using keys by simp
      have served: "\<exists>op' \<in> set (eg_operations ?g). op_operation_id op' = k \<and> predecessors_in cx ?sc k \<and> outcome_ok ?g op' ?sc (launch_of cx op') (predecessor_floor cx ?sc k) x"
        "k \<in> set (ls_unscheduled s)" if kx: "(k, x) \<in> set zs" for k x
      proof -
        obtain y where y: "y \<in> set ops" "k = op_operation_id (fst y)" "outcome_ok ?g (fst y) ?sc (launch_of cx (fst y)) (predecessor_floor cx ?sc (op_operation_id (fst y))) x"
          using list_all2_set2 [OF zs kx] by auto
        have e: "fst y \<in> set (eg_operations ?g)" "op_operation_id (fst y) \<in> set (ls_unscheduled s)" "predecessors_in cx ?sc (op_operation_id (fst y))"
          using mem [OF y(1)] ready_table_entry [OF cx t, of "fst y"] by blast+
        show "\<exists>op' \<in> set (eg_operations ?g). op_operation_id op' = k \<and> predecessors_in cx ?sc k \<and> outcome_ok ?g op' ?sc (launch_of cx op') (predecessor_floor cx ?sc k) x"
          using e y(2,3) by blast
        show "k \<in> set (ls_unscheduled s)" using e(2) y(2) by simp
      qed
      have sub: "fst ` set zs \<subseteq> set (ls_unscheduled s)" using served(2) by auto
      have d: "distinct (map fst zs)" using ids(2) kz by (simp add: group_ok_def)
      have keep: "inv (mc_wqe ((ls_machine s)\<lparr>mc_state := st\<rparr>))" using s by (simp add: loop_ok_def)
      show "oks (rfold store_outcome zs (s\<lparr>ls_machine := (ls_machine s)\<lparr>mc_state := st\<rparr>\<rparr>)) (loop_ok cx inv)"
        using loop_store [OF s keep d sub served(1), of "[]"] by simp
    qed
  qed
  have "oks (rbind (collect ?find ids) (\<lambda>ops. rbind (schedule_compute_group (lx_config cx) ?g ops ready (lx_launches cx) (mc_state (ls_machine s))) (\<lambda>(outcomes, st).
      rfold store_outcome outcomes (s\<lparr>ls_machine := (ls_machine s)\<lparr>mc_state := st\<rparr>\<rparr>)))) (loop_ok cx inv)"
    unfolding oks_rbind [of "collect ?find ids"] by (rule oks_mono [OF find store])
  then show ?thesis by (auto simp: schedule_selected_def Let_def Some ids(1) oks_def)
qed

lemma schedule_step_ok:
  assumes cfg: "rc_profile (lx_config cx) = p" "rc_receiver_ingress (lx_config cx) = ingress" and cx: "context_ok cx" and s: "loop_ok cx inv s"
    and left: "ls_unscheduled s \<noteq> []"
  shows "\<exists>pol' s'. schedule_step cx A select pol s = (pol', Inr s') \<and> loop_ok cx inv s'"
proof -
  let ?g = "lx_graph cx" and ?sc = "ls_scheduled s" and ?un = "ls_unscheduled s"
  have sc: "scheduled_ok cx ?sc" and un: "set ?un = op_operation_id ` set (eg_operations ?g) - fst ` set ?sc" using s by (simp_all add: loop_ok_def)
  obtain ready where ready: "ready_operations (lx_edges cx) (lx_launches cx) ?sc ?un (eg_operations ?g) = Inr ready"
    "map fst ready = map op_operation_id (filter (\<lambda>op. op_operation_id op \<in> set ?un \<and> predecessors_in cx ?sc (op_operation_id op)) (eg_operations ?g))"
    "\<forall>(k, r) \<in> set ready. \<exists>op \<in> set (eg_operations ?g). op_operation_id op = k \<and> ready_ok op ?sc (launch_of cx op) (predecessor_floor cx ?sc k) r"
    using ready_operations_oks [OF cx sc order.refl, of ?un] by (auto simp: oks_def)
  have keys: "fst ` set ready = op_operation_id ` {op \<in> set (eg_operations ?g). op_operation_id op \<in> set ?un \<and> predecessors_in cx ?sc (op_operation_id op)}"
    using arg_cong [OF ready(2), of set] by simp
  have dist: "distinct (map fst ready)" unfolding ready(2) using contextD(1) [OF cx] by (rule distinct_map_filter)
  have table: "ready_table cx ?sc ?un ready"
    unfolding ready_table_def
  proof (intro conjI dist, clarify)
    fix k r assume kr: "(k, r) \<in> set ready"
    then have "k \<in> fst ` set ready" by force
    then have "k \<in> set ?un \<and> predecessors_in cx ?sc k" unfolding keys by blast
    moreover have "\<exists>op \<in> set (eg_operations ?g). op_operation_id op = k \<and> ready_ok op ?sc (launch_of cx op) (predecessor_floor cx ?sc k) r"
      using bspec [OF ready(3) kr] by simp
    ultimately show "k \<in> set ?un \<and> predecessors_in cx ?sc k \<and>
        (\<exists>op \<in> set (eg_operations ?g). op_operation_id op = k \<and> ready_ok op ?sc (launch_of cx op) (predecessor_floor cx ?sc k) r)" by blast
  qed
  have "fst ` set ready \<noteq> {}" unfolding keys using some_operation_ready [OF cx left un] by blast
  then have ne: "ready \<noteq> []" by auto
  have "known_operations (tables_of ?g ready) (map fst ready)"
    using ready_table_keys [OF table] by (intro tables_known cx dist) auto
  then obtain q k where q: "select_ready_operation select pol (tables_of ?g ready) (map fst ready) = (q, Inr k)" "k \<in> set (map fst ready)"
    using select_ready_ok [of "tables_of ?g ready" "map fst ready" pol] ne by auto
  have "k \<in> op_operation_id ` set (eg_operations ?g)" using q(2) ready_table_keys [OF table] by auto
  then obtain op where op: "op \<in> set (eg_operations ?g)" "k = op_operation_id op" by (rule imageE)
  have mem: "op_operation_id op \<in> fst ` set ready" using q(2) op(2) by simp
  show ?thesis using schedule_selected_ok [OF cfg cx s table op(1) mem, of q] ready(1) ne q(1) operation_lookup [OF cx op(1)] op(2)
    by (simp add: schedule_step_def Let_def)
qed

lemma schedule_loop_ok:
  assumes cfg: "rc_profile (lx_config cx) = p" "rc_receiver_ingress (lx_config cx) = ingress" and cx: "context_ok cx" and s: "loop_ok cx inv s"
  shows "\<exists>pol' s'. schedule_loop cx A select pol s = (pol', Inr s') \<and> loop_ok cx inv s' \<and> ls_unscheduled s' = []"
  using s
proof (induction "length (ls_unscheduled s)" arbitrary: pol s rule: less_induct)
  case less
  show ?case
  proof (cases "ls_unscheduled s = []")
    case True
    then show ?thesis using less.prems by (subst schedule_loop.simps) simp
  next
    case False
    obtain q t where t: "schedule_step cx A select pol s = (q, Inr t)" "loop_ok cx inv t"
      using schedule_step_ok [OF cfg cx less.prems False] by blast
    show ?thesis using less.hyps [OF schedule_step_less [OF t(1)] t(2), of q] False t(1) by (subst schedule_loop.simps) simp
  qed
qed

end

end
