(* ===== verification/Runtime_Preflight.thy ===== *)
theory Runtime_Preflight
  imports Runtime_Progress
begin

text \<open>
  What the admission of a graph guarantees the scheduler: a graph that \<open>validate_execution_graph\<close>
  accepts and the runtime's preflight passes gives a context in which the scheduling loop cannot fail.
  The laws of the kernel services and copy engines, which the repository only calls, are hypotheses.
\<close>

subsection \<open>Operations and edges of a valid graph\<close>

lemma operation_checked:
  assumes "check_operations seen ops = None" "op \<in> set ops" shows "\<exists>seen'. operation_checks seen' op = None"
  using assms by (induction ops arbitrary: seen) auto

lemma valid_structure: "validate_execution_graph digest g = None \<Longrightarrow> graph_structure digest g = None"
  by (simp add: validate_execution_graph_def)

lemma valid_operation:
  assumes "validate_execution_graph digest g = None" "op \<in> set (eg_operations g)"
  shows "operation_ok g op" "op_work op = CollectiveWork w \<Longrightarrow> op_rank op \<in> set (lw_ranks w)"
proof -
  have "check_operations [] (eg_operations g) = None" "w_string (eg_execution_id g) = None" "w_nonneg (eg_released_at_ps g) = None"
    using valid_structure [OF assms(1)] by (simp_all add: graph_structure_def Let_def)
  then obtain seen where "operation_checks seen op = None" using operation_checked [OF _ assms(2)] by blast
  then show "operation_ok g op" "op_work op = CollectiveWork w \<Longrightarrow> op_rank op \<in> set (lw_ranks w)"
    using \<open>w_string (eg_execution_id g) = None\<close> \<open>w_nonneg (eg_released_at_ps g) = None\<close>
    by (auto simp: operation_checks_def operation_ok_def)
qed

lemma local_edge_ranks:
  "e \<in> set (edges_from by_id tails ops) \<Longrightarrow> ed_scope e = PARTICIPANT_LOCAL \<Longrightarrow>
   \<exists>op pre r. op \<in> set ops \<and> ed_operation_id e = op_operation_id op \<and> map_of by_id (ed_predecessor_id e) = Some pre \<and>
     ed_participant_rank e = Some r \<and> r \<in> set (operation_participant_ranks op) \<and> r \<in> set (operation_participant_ranks pre)"
proof (induction ops arbitrary: tails)
  case (Cons op ops)
  consider "e \<in> set (concat (map (local_edges by_id op) (op_participant_local_depends_on op)))"
    | "e \<in> set (edges_from by_id (AList.update (op_queue op) (op_operation_id op) tails) ops)"
    using Cons.prems by (cases "map_of tails (op_queue op)") (auto simp: explicit_edge_def fifo_edge_def)
  then show ?case
  proof cases
    case 1
    then obtain k where "e \<in> set (local_edges by_id op k)" by auto
    then obtain pre r where "map_of by_id k = Some pre" "ed_predecessor_id e = k" "ed_operation_id e = op_operation_id op" "ed_participant_rank e = Some r"
      "r \<in> set (operation_participant_ranks op)" "r \<in> set (operation_participant_ranks pre)"
      by (cases "map_of by_id k") (auto simp: local_edges_def)
    then show ?thesis by (intro exI [of _ op] exI [of _ pre] exI [of _ r]) simp
  next
    case 2
    from Cons.IH [OF 2 Cons.prems(2)] show ?thesis by auto
  qed
qed simp

lemma valid_edge:
  assumes v: "validate_execution_graph digest g = None" and e: "e \<in> set (effective_dependency_edges_unchecked g)"
  shows "edge_ok g e"
proof -
  let ?ops = "eg_operations g"
  note s = valid_structure [OF v]
  have by_id: "op \<in> set ?ops \<and> op_operation_id op = k" if "map_of (operation_by_id ?ops) k = Some op" for k op
    using that map_of_SomeD [of "operation_by_id ?ops" k op] by (auto simp: graph_structure_operations(2) [OF s])
  show ?thesis
  proof (cases "ed_scope e")
    case PARTICIPANT_LOCAL
    obtain op pre r where "op \<in> set ?ops" "ed_operation_id e = op_operation_id op" "map_of (operation_by_id ?ops) (ed_predecessor_id e) = Some pre"
      "ed_participant_rank e = Some r" "r \<in> set (operation_participant_ranks op)" "r \<in> set (operation_participant_ranks pre)"
      using local_edge_ranks [OF e [unfolded effective_dependency_edges_unchecked_def] PARTICIPANT_LOCAL] by blast
    then show ?thesis using by_id [of "ed_predecessor_id e" pre] unfolding edge_ok_def by metis
  next
    case WHOLE_OPERATION
    have "(ed_predecessor_id e, ed_operation_id e) \<in> ordering g" using e by (auto simp: ordering_def)
    then have k: "ed_predecessor_id e \<in> op_operation_id ` set ?ops" "ed_operation_id e \<in> op_operation_id ` set ?ops" using ordering_known [OF s] by auto
    obtain pre where "ed_predecessor_id e = op_operation_id pre" "pre \<in> set ?ops" using k(1) by (rule imageE)
    moreover obtain op where "ed_operation_id e = op_operation_id op" "op \<in> set ?ops" using k(2) by (rule imageE)
    ultimately show ?thesis using WHOLE_OPERATION unfolding edge_ok_def by (metis dependency_scope.distinct(1))
  qed
qed

subsection \<open>Launches\<close>

lemma nonblank_launch_queue [simp]: "nonblank (''node-'' @ int_text n @ '':framework-launch'')"
  unfolding nonblank_append by (simp add: nonblank_def py_isspace_def)

lemma schedule_launches_oks:
  assumes v: "validate_execution_graph digest g = None" and p: "check_profile p = None"
  shows "oks (schedule_launches p g st) (\<lambda>(ls, _). \<forall>op \<in> set (eg_operations g). \<exists>l. map_of ls (op_operation_id op) = Some l \<and> launch_ok g l)"
proof -
  let ?I = "\<lambda>ops (ls, st :: runtime_state). (\<forall>k l. map_of ls k = Some l \<longrightarrow> launch_ok g l) \<and> (\<forall>op \<in> set ops. map_of ls (op_operation_id op) \<noteq> None)"
  have "oks (rfold (schedule_launch p g) (eg_operations g) ([], st)) (?I (eg_operations g))"
  proof (rule oks_rfold_prefix)
    show "?I [] ([], st)" by simp
    fix pre op s assume op: "set (pre @ [op]) \<subseteq> set (eg_operations g)" and i: "?I pre s"
    have ok: "operation_ok g op" using valid_operation(1) [OF v] op by simp
    obtain ls st' where s: "s = (ls, st')" by (cases s)
    show "oks (schedule_launch p g op s) (?I (pre @ [op]))"
      using ok i profile_facts [OF p]
      by (auto simp: s schedule_launch_def Let_def nonblank_launch_queue [simplified] node_gpu_def require_defs operation_ok_def visited_def launch_ok_def update_conv intro!: new_visit_oks split: if_splits)
  qed
  then show ?thesis unfolding schedule_launches_def by (rule oks_mono) fastforce
qed

subsection \<open>Tags of the collectives\<close>

lemma ring_tags_cover:
  "ring_tags n ws = Inr (n', tags, pairs) \<Longrightarrow> 0 \<le> n \<Longrightarrow>
   n \<le> n' \<and> (\<forall>k ts. (k, ts) \<in> set tags \<longrightarrow> ts \<noteq> [] \<and> (\<forall>t \<in> set ts. 0 \<le> t)) \<and>
   (\<forall>(k, w) \<in> set ws. if ring_work w then k \<in> fst ` set tags \<and> 2 \<le> length (lw_ranks w) else pairwise_table w \<and> k \<in> set pairs)"
proof (induction n ws arbitrary: n' tags pairs rule: ring_tags.induct)
  case (2 n k w ws)
  show ?case
  proof (cases "ring_work w")
    case True
    let ?r = "2 * (int (length (lw_ranks w)) - 1)"
    have r: "0 < ?r" using "2.prems"(1) True by (simp add: Let_def split: if_splits)
    obtain tags' where t: "ring_tags (n + ?r) ws = Inr (n', tags', pairs)" "tags = (k, [n..n + ?r - 1]) # tags'"
      using "2.prems"(1) True r by (auto simp: Let_def rbind_Inr_iff)
    note ih = "2.IH"(1) [OF True refl _ t(1)]
    have "\<not> ?r \<le> 0" "0 \<le> n + ?r" using r "2.prems"(2) by simp_all
    from ih [OF this] show ?thesis using r "2.prems"(2) True t(2) by (auto split: if_splits)
  next
    case False
    then have p: "pairwise_table w" using "2.prems"(1) by (simp split: if_splits)
    obtain pairs' where t: "ring_tags n ws = Inr (n', tags, pairs')" "pairs = k # pairs'"
      using "2.prems"(1) False p by (auto simp: rbind_Inr_iff)
    from "2.IH"(2) [OF False p t(1) "2.prems"(2)] show ?thesis using False p t(2) by (auto split: if_splits)
  qed
qed simp

lemma enumerate_values: "set (map (\<lambda>(i, k). (k, [n + int i])) (enumerate m ks)) \<subseteq> {(k, [t]) | k t. n \<le> t}"
  "fst ` set (map (\<lambda>(i, k). (k, [n + int i])) (enumerate m ks)) = set ks"
  by (induction ks arbitrary: m) auto

lemma goal_tags_cover:
  assumes t: "collective_goal_tags digest base g = Inr tags" and g: "eg_collective_plans g = []"
    and op: "op \<in> set (eg_operations g)" "op_work op = CollectiveWork w"
  shows "(ring_work w \<or> pairwise_table w) \<and> (ring_work w \<longrightarrow> 2 \<le> length (lw_ranks w)) \<and>
    (\<exists>ts. map_of tags (op_operation_id op) = Some ts \<and> ts \<noteq> [] \<and> (\<forall>t \<in> set ts. 0 \<le> t))"
proof -
  obtain n rings pairs where r: "ring_tags base (collective_operations (eg_operations g)) = Inr (n, rings, pairs)" "0 \<le> base"
    "tags = rings @ map (\<lambda>(i, k). (k, [n + int i])) (enumerate 0 pairs)"
    using t g by (auto simp: collective_goal_tags_def Let_def rbind_Inr_iff split: option.splits if_splits)
  have mem: "(op_operation_id op, w) \<in> set (collective_operations (eg_operations g))"
    using op by (force simp: collective_operations_def map_filter_def)
  note c = ring_tags_cover [OF r(1,2)]
  have w: "if ring_work w then op_operation_id op \<in> fst ` set rings \<and> 2 \<le> length (lw_ranks w) else pairwise_table w \<and> op_operation_id op \<in> set pairs"
    using c mem by fastforce
  then have "op_operation_id op \<in> fst ` set tags" using enumerate_values(2) [of n 0 pairs] by (auto simp: r(3) image_Un split: if_splits)
  then obtain ts where ts: "map_of tags (op_operation_id op) = Some ts" by (metis map_of_eq_None_iff not_None_eq)
  then have "(op_operation_id op, ts) \<in> set rings \<or> (op_operation_id op, ts) \<in> {(k, [t]) | k t. n \<le> t}"
    using map_of_SomeD [OF ts] enumerate_values(1) [of n 0 pairs] by (auto simp: r(3))
  then have "ts \<noteq> [] \<and> (\<forall>t \<in> set ts. 0 \<le> t)" using c r(2) by auto
  then show ?thesis using w ts by (auto split: if_splits)
qed

subsection \<open>KV demands\<close>

lemma consumed_demands:
  "run_all kv_observe l ws = (l', Inr ds) \<Longrightarrow> \<forall>d \<in> set ds. 0 \<le> kd_byte_count d"
proof (induction ws arbitrary: l ds)
  case (Cons x ws)
  obtain k w where x: "x = (k, w)" by (cases x)
  obtain m d ds' where d: "kv_observe l x = (m, Inr d)" "run_all kv_observe m ws = (l', Inr ds')" "ds = d # ds'"
    using Cons.prems unfolding run_all_Cons_Inr by blast
  obtain q p where q: "observe_pool p k w = (q, Inr d)" using d(1) by (auto simp: x kv_observe_def split: if_splits option.splits prod.splits)
  have "0 \<le> kd_byte_count d" using observe_poolE [OF q] check_bytes_nonneg by metis
  then show ?case using Cons.IH [OF d(2)] d(3) by simp
qed simp

lemma fold_demand_values:
  assumes "map_of (fold (\<lambda>d m. if kd_byte_count d \<noteq> 0 then AList.update (kd_operation_id d) (kd_byte_count d) m else m) ds m) k = Some n"
    "\<And>k n. map_of m k = Some n \<Longrightarrow> P n" "\<And>d. d \<in> set ds \<Longrightarrow> P (kd_byte_count d)"
  shows "P n"
  using assms
proof (induction ds arbitrary: m)
  case (Cons d ds)
  show ?case by (rule Cons.IH [OF Cons.prems(1) [unfolded fold.simps comp_apply]]) (use Cons.prems(2,3) in \<open>auto simp: update_conv split: if_splits\<close>)
qed simp

lemma preflightE:
  assumes "preflight digest cfg kv g = Inr kvp"
  shows "\<exists>tags. collective_goal_tags digest (pf_goal_base_tag (rc_profile cfg)) g = Inr tags"
    "effective_dependency_edges digest g = Inr (effective_dependency_edges_unchecked g)"
    "op \<in> set (eg_operations g) \<Longrightarrow> preflight_operation cfg (kv \<noteq> None) g op = None"
    "kvp = Some q \<Longrightarrow> \<exists>l. account_kv l (pf_hbm_rate_bps (rc_profile cfg)) g = Inr q"
proof -
  let ?kv = "case kv of None \<Rightarrow> Inr None
        | Some l \<Rightarrow> (case account_kv l (pf_hbm_rate_bps (rc_profile cfg)) g of Inl e \<Rightarrow> Inl (KvError e) | Inr q \<Rightarrow> Inr (Some q))"
  obtain tags where t: "collective_goal_tags digest (pf_goal_base_tag (rc_profile cfg)) g = Inr tags"
    using assms by (auto simp: preflight_def rbind_Inr_iff split: sum.splits)
  obtain es where e: "effective_dependency_edges digest g = Inr es" using assms by (auto simp: preflight_def rbind_Inr_iff t split: sum.splits)
  have r: "rcheck (first_err (map (preflight_operation cfg (kv \<noteq> None) g) (eg_operations g))) ?kv = Inr kvp"
    using assms by (auto simp: preflight_def rbind_Inr_iff t e)
  then have f: "first_err (map (preflight_operation cfg (kv \<noteq> None) g) (eg_operations g)) = None" "?kv = Inr kvp"
    by (cases "first_err (map (preflight_operation cfg (kv \<noteq> None) g) (eg_operations g))", simp_all)+
  show "\<exists>tags. collective_goal_tags digest (pf_goal_base_tag (rc_profile cfg)) g = Inr tags" using t by blast
  show "effective_dependency_edges digest g = Inr (effective_dependency_edges_unchecked g)"
    using e by (simp add: effective_dependency_edges_def split: option.splits)
  show "preflight_operation cfg (kv \<noteq> None) g op = None" if "op \<in> set (eg_operations g)" using f(1) that by (simp add: first_err_None_iff)
  show "\<exists>l. account_kv l (pf_hbm_rate_bps (rc_profile cfg)) g = Inr q" if "kvp = Some q"
    using f(2) that by (auto split: option.splits sum.splits)
qed

lemma preflight_demand:
  assumes "preflight digest cfg kv g = Inr kvp"
  shows "0 \<le> kv_demand_bytes kvp k" "kv_demand_bytes kvp k \<noteq> 0 \<Longrightarrow> pf_hbm_rate_bps (rc_profile cfg) \<noteq> 0"
proof -
  have *: "0 \<le> kv_demand_bytes kvp k \<and> (kv_demand_bytes kvp k \<noteq> 0 \<longrightarrow> pf_hbm_rate_bps (rc_profile cfg) \<noteq> 0)"
  proof (cases kvp)
    case None
    then show ?thesis by (simp add: kv_demand_bytes_def)
  next
    case (Some q)
    then obtain l where a: "account_kv l (pf_hbm_rate_bps (rc_profile cfg)) g = Inr q"
      using preflightE(4) [OF assms Some] by blast
    then obtain l' where ds: "run_all kv_observe (clone_ledger l) (kv_operations g) = (l', Inr (kp_demands q))"
      "kp_bytes_by_operation q = bytes_by_operation (kp_demands q)"
      "pf_hbm_rate_bps (rc_profile cfg) = 0 \<longrightarrow> find (\<lambda>d. kd_byte_count d \<noteq> 0) (kp_demands q) = None"
      by (auto simp: account_kv_def kv_consume_def split: prod.splits sum.splits option.splits if_splits)
    have d: "0 \<le> kd_byte_count d" "pf_hbm_rate_bps (rc_profile cfg) = 0 \<Longrightarrow> kd_byte_count d = 0" if "d \<in> set (kp_demands q)" for d
      using consumed_demands [OF ds(1)] ds(3) that by (auto simp: find_None_iff)
    show ?thesis
    proof (cases "map_of (kp_bytes_by_operation q) k")
      case None
      then show ?thesis by (simp add: kv_demand_bytes_def Some)
    next
      case (Some n)
      have "0 \<le> n \<and> (n \<noteq> 0 \<longrightarrow> pf_hbm_rate_bps (rc_profile cfg) \<noteq> 0)"
        by (rule fold_demand_values [OF Some [unfolded ds(2) bytes_by_operation_def]]) (use d in auto)
      then show ?thesis using Some \<open>kvp = Some q\<close> by (simp add: kv_demand_bytes_def)
    qed
  qed
  then show "0 \<le> kv_demand_bytes kvp k" "kv_demand_bytes kvp k \<noteq> 0 \<Longrightarrow> pf_hbm_rate_bps (rc_profile cfg) \<noteq> 0" by auto
qed

subsection \<open>The context is lawful\<close>

definition run_context :: "'k runtime_config \<Rightarrow> execution_graph \<Rightarrow> (string, queue_visit) dict \<Rightarrow> kv_pending option \<Rightarrow> (string, int list) dict \<Rightarrow> 'k launch_context" where
  "run_context cfg g launches kvp tags =
     \<lparr>lx_config = cfg, lx_graph = g, lx_edges = effective_dependency_edges_unchecked g, lx_launches = launches, lx_pending = kvp, lx_tags = tags\<rparr>"

text \<open>The graphs the scheduling theorem is about: valid, without frozen plans, with non-negative priorities.\<close>

definition schedulable :: "(json \<Rightarrow> string) \<Rightarrow> execution_graph \<Rightarrow> bool" where
  "schedulable digest g \<longleftrightarrow>
     validate_execution_graph digest g = None \<and> eg_collective_plans g = [] \<and> list_all (\<lambda>op. 0 \<le> op_priority op) (eg_operations g)"

lemma preflight_work:
  assumes g: "validate_execution_graph digest g = None" "eg_collective_plans g = []" and p: "check_profile (rc_profile cfg) = None"
    and f: "preflight digest cfg kv g = Inr kvp" and t: "collective_goal_tags digest (pf_goal_base_tag (rc_profile cfg)) g = Inr tags"
    and op: "op \<in> set (eg_operations g)"
  shows "work_ready (run_context cfg g launches kvp tags) op"
proof -
  have c: "preflight_operation cfg (kv \<noteq> None) g op = None" using preflightE(3) [OF f op] .
  note d = preflight_demand [OF f, of "op_operation_id op"] profile_facts(4) [OF p]
  show ?thesis
  proof (cases "op_work op")
    case (CollectiveWork w)
    then show ?thesis using goal_tags_cover [OF t g(2) op CollectiveWork] valid_operation(2) [OF g(1) op CollectiveWork]
      by (simp add: work_ready_def run_context_def)
  qed (use c d in \<open>auto simp: work_ready_def run_context_def preflight_operation_def Let_def oks_def split: sum.splits if_splits\<close>)
qed

lemma run_context_ok:
  assumes g: "schedulable digest g" and p: "check_profile (rc_profile cfg) = None" "services_lawful cfg"
    and f: "preflight digest cfg kv g = Inr kvp" and t: "collective_goal_tags digest (pf_goal_base_tag (rc_profile cfg)) g = Inr tags"
    and l: "\<forall>op \<in> set (eg_operations g). \<exists>l. map_of launches (op_operation_id op) = Some l \<and> launch_ok g l"
  shows "context_ok (run_context cfg g launches kvp tags)"
proof -
  have v: "validate_execution_graph digest g = None" "eg_collective_plans g = []" "\<And>op. op \<in> set (eg_operations g) \<Longrightarrow> 0 \<le> op_priority op"
    using g by (simp_all add: schedulable_def list_all_iff)
  note s = valid_structure [OF v(1)]
  have "acyclic (ordering g)" using v(1) acyclic_check_correct [OF s] by (simp add: validate_execution_graph_def split: if_splits)
  moreover have "edge_ok g e" if "e \<in> set (effective_dependency_edges_unchecked g)" for e using valid_edge [OF v(1) that] .
  moreover have "operation_ok g op \<and> 0 \<le> op_priority op \<and> work_ready (run_context cfg g launches kvp tags) op \<and>
      (\<exists>l. map_of launches (op_operation_id op) = Some l \<and> launch_ok g l)" if "op \<in> set (eg_operations g)" for op
    using valid_operation(1) [OF v(1) that] v(3) [OF that] preflight_work [OF v(1,2) p(1) f t that] bspec [OF l that] by blast
  ultimately show ?thesis
    using graph_structure_operations(1) [OF s] p v(2) unfolding context_ok_def Let_def
    by (simp add: run_context_def [of cfg g launches kvp tags])
qed

text \<open>The states of the loop that the schedule of a graph ends in.\<close>

definition graph_scheduled :: "'k launch_context \<Rightarrow> 'w loop_state \<Rightarrow> bool" where
  "graph_scheduled cx s \<longleftrightarrow>
     scheduled_ok cx (ls_scheduled s) \<and> fst ` set (ls_scheduled s) = op_operation_id ` set (eg_operations (lx_graph cx)) \<and>
     (\<forall>q \<in> set (ls_wqes s). \<exists>x \<in> snd ` set (ls_scheduled s). q \<in> set (so_wqes x))"

context runtime_seams
begin

lemma schedule_graph_ok:
  assumes cfg: "rc_profile cfg = p" "rc_receiver_ingress cfg = ingress" and p: "check_profile p = None" "services_lawful cfg"
    and g: "schedulable digest g" and f: "preflight digest cfg kv g = Inr kvp" and w: "inv (ru_wqe r)"
  shows "\<exists>pol s launches tags. schedule_graph digest cfg A select g kvp r = (pol, Inr s) \<and> inv (mc_wqe (ls_machine s)) \<and>
    context_ok (run_context cfg g launches kvp tags) \<and> graph_scheduled (run_context cfg g launches kvp tags) s"
proof -
  obtain tags where t: "collective_goal_tags digest (pf_goal_base_tag (rc_profile cfg)) g = Inr tags" using preflightE(1) [OF f] by blast
  have v: "validate_execution_graph digest g = None" using g by (simp add: schedulable_def)
  obtain launches st where l: "schedule_launches (rc_profile cfg) g (ru_state r) = Inr (launches, st)"
    "\<forall>op \<in> set (eg_operations g). \<exists>l. map_of launches (op_operation_id op) = Some l \<and> launch_ok g l"
    using schedule_launches_oks [OF v p(1), of "ru_state r"] unfolding cfg(1) oks_def by auto
  let ?cx = "run_context cfg g launches kvp tags"
  let ?s = "\<lparr>ls_scheduled = [], ls_unscheduled = map op_operation_id (eg_operations g), ls_wqes = [], ls_machine = \<lparr>mc_state = st, mc_wqe = ru_wqe r\<rparr>\<rparr>"
  have cx: "context_ok ?cx" using g p f t l(2) by (intro run_context_ok) (simp_all add: cfg)
  have "loop_ok ?cx inv ?s" using w by (simp add: loop_ok_def run_context_def scheduled_ok.empty)
  then obtain pol s where s: "schedule_loop ?cx A select (ru_policy r) ?s = (pol, Inr s)" "loop_ok ?cx inv s" "ls_unscheduled s = []"
    using schedule_loop_ok [OF _ _ cx, of ?s "ru_policy r"] cfg by (auto simp: run_context_def)
  have "fst ` set (ls_scheduled s) \<subseteq> op_operation_id ` set (eg_operations (lx_graph ?cx))" using scheduled_keys s(2) unfolding loop_ok_def by blast
  moreover have "op_operation_id ` set (eg_operations (lx_graph ?cx)) \<subseteq> fst ` set (ls_scheduled s)" using s(2,3) unfolding loop_ok_def by auto
  ultimately have "graph_scheduled ?cx s" using s(2) by (simp add: graph_scheduled_def loop_ok_def)
  moreover have "schedule_graph digest cfg A select g kvp r = (pol, Inr s)"
    using s(1) by (simp add: schedule_graph_def t preflightE(2) [OF f] l(1) run_context_def)
  ultimately show ?thesis using cx s(2) unfolding loop_ok_def by blast
qed

end

end
