(* ===== verification/Path_Accounting.thy ===== *)
theory Path_Accounting
  imports Runtime_Outcomes
begin

text \<open>
  The critical-path accounting of the report is exact: along a path whose visits all end by the
  completion, the attribution covers every picosecond between start and completion once, and the
  breakdown never counts one twice.
\<close>

subsection \<open>One visit\<close>

lemma clipped_nonneg [simp]: "0 \<le> clipped c a b"
  by (simp add: clipped_def)

lemma visit_telescopes:
  assumes "visit_ok v"
  shows "max 0 (qv_eligible_at_ps v - c) + clipped c (qv_eligible_at_ps v) (qv_started_at_ps v) + clipped c (qv_started_at_ps v) (qv_finished_at_ps v)
    + clipped c (qv_finished_at_ps v) (qv_completed_at_ps v) = max c (qv_completed_at_ps v) - c"
  using visit_order [OF assms] unfolding clipped_def by (simp add: max_def)

lemma charge_total [simp]: "attribution_total_ps (charge f t a) = attribution_total_ps a + t"
  by (cases f) (simp_all add: attribution_total_ps_def)

lemma charge_nonneg: "check_attribution a = None \<Longrightarrow> 0 \<le> t \<Longrightarrow> check_attribution (charge f t a) = None"
  by (cases f) (auto simp: check_attribution_def require_nonnegative_int_def)

subsection \<open>Attribution\<close>

lemma attribute_visit_oks:
  assumes "visit_ok v" "attributable w v" "check_attribution a = None" "attribution_total_ps a = c - start"
  shows "oks (attribute_visit w v (c, a)) (\<lambda>(c', a'). c' = max c (qv_completed_at_ps v) \<and> check_attribution a' = None \<and> attribution_total_ps a' = c' - start)"
proof -
  have "oks (attribution_field_of w (rr_kind (qv_resource v))) (\<lambda>_. True)" using assms(2) by (simp add: attributable_def)
  moreover have "check_attribution (charge QUEUE_PS (clipped c (qv_eligible_at_ps v) (qv_started_at_ps v)) (charge QUEUE_PS (max 0 (qv_eligible_at_ps v - c)) a)) = None"
    using assms(3) by (intro charge_nonneg) auto
  ultimately show ?thesis using assms(4) visit_telescopes [OF assms(1), of c]
    by (auto simp: attribute_visit_def Let_def oks_def rbind_Inr_iff intro!: charge_nonneg simp del: charge.simps)
qed

lemma attribution_oks:
  assumes p: "path_ok w t path" and s: "start \<le> t"
  shows "oks (critical_path_attribution w path start t) (\<lambda>a. attribution_total_ps a = t - start)"
proof -
  let ?I = "\<lambda>(c, a). c \<le> t \<and> check_attribution a = None \<and> attribution_total_ps a = c - start"
  have "oks (rfold (attribute_visit w) path (start, zero_attribution)) ?I"
  proof (rule oks_rfold)
    show "?I (start, zero_attribution)" using s by (simp add: zero_attribution_def attribution_total_ps_def check_attribution_def require_nonnegative_int_def)
    fix v and ca :: "int \<times> latency_attribution" assume "v \<in> set path" and i: "?I ca"
    then have v: "visit_ok v" "attributable w v" "qv_completed_at_ps v \<le> t" using p by (auto simp: path_ok_def)
    obtain c a where ca: "ca = (c, a)" by (cases ca)
    show "oks (attribute_visit w v ca) ?I" using attribute_visit_oks [OF v(1,2), of a c start] i v(3) by (auto simp: ca elim!: oks_mono)
  qed
  then show ?thesis by (auto simp: critical_path_attribution_def Let_def simp del: charge.simps elim!: oks_mono intro!: charge_nonneg)
qed

subsection \<open>Breakdown\<close>

definition counted :: "int \<Rightarrow> int \<Rightarrow> int \<Rightarrow> int \<times> int \<times> int \<times> int \<Rightarrow> bool" where
  "counted from used t = (\<lambda>(c, q, s, d). from \<le> c \<and> c \<le> t \<and> 0 \<le> q \<and> 0 \<le> s \<and> 0 \<le> d \<and> used + q + s + d \<le> c - from)"

lemma breakdown_counted:
  assumes "visit_ok v" "qv_completed_at_ps v \<le> t" "counted from used t x" shows "counted from used t (breakdown_visit v x)"
proof -
  obtain c q s d where x: "x = (c, q, s, d)" by (cases x)
  define m where "m = max 0 (qv_eligible_at_ps v - c)"
  define u where "u = max c (qv_completed_at_ps v)"
  have "0 \<le> m" "c \<le> u" by (simp_all add: m_def u_def)
  then show ?thesis using assms(2,3) visit_telescopes [OF assms(1), of c, folded m_def u_def]
    by (auto simp: x counted_def breakdown_visit_def simp flip: u_def) (simp add: u_def)
qed

lemma breakdown_fold_counted:
  "\<forall>v \<in> set vs. visit_ok v \<and> qv_completed_at_ps v \<le> t \<Longrightarrow> counted from used t x \<Longrightarrow> counted from used t (fold breakdown_visit vs x)"
proof (induction vs arbitrary: x)
  case (Cons v vs)
  have "counted from used t (breakdown_visit v x)" using Cons.prems by (intro breakdown_counted) auto
  then show ?case using Cons.IH [of "breakdown_visit v x"] Cons.prems(1) by (simp only: fold_simps) simp
qed simp

lemma breakdown_oks:
  assumes p: "path_ok w t path" and s: "start \<le> t"
  shows "oks (critical_path_breakdown_of path start t) (\<lambda>b. cb_operation_latency_ps b = t - start \<and> check_breakdown b = None)"
proof -
  obtain l rest where path: "path = l # rest" using p by (cases path) (auto simp: path_ok_def)
  have v: "visit_ok l" "qv_completed_at_ps l \<le> t" "\<forall>v \<in> set rest. visit_ok v \<and> qv_completed_at_ps v \<le> t" using p by (auto simp: path_ok_def path)
  obtain c wait service visibility where one: "breakdown_visit l (start, 0, 0, 0) = (c, wait, service, visibility)" by (cases "breakdown_visit l (start, 0, 0, 0)")
  have a: "counted start 0 t (c, wait, service, visibility)"
    using breakdown_counted [OF v(1,2), of start 0 "(start, 0, 0, 0)"] s one by (simp add: counted_def)
  obtain c' q s' d where rest: "fold breakdown_visit rest (c, 0, 0, 0) = (c', q, s', d)" by (cases "fold breakdown_visit rest (c, 0, 0, 0)")
  have "counted start (wait + service + visibility) t (c', q, s', d)"
    using breakdown_fold_counted [OF v(3), of start "wait + service + visibility" "(c, 0, 0, 0)"] a rest by (simp add: counted_def)
  then show ?thesis using a s by (auto simp: critical_path_breakdown_of_def path one rest Let_def counted_def check_breakdown_def require_defs)
qed

subsection \<open>Properties\<close>

text \<open>
  C10. Critical-path accounting is exact: for a path of valid visits that all end by the completion, even
  when they overlap or leave gaps, breakdown and attribution are both computed without error; the
  attribution covers the time from start to completion exactly once, and the parts of the breakdown add
  up to it.\<close>

theorem critical_path_conserved:
  assumes "path_ok w completed path" "start \<le> completed"
  shows "\<exists>b a. critical_path_breakdown_of path start completed = Inr b \<and> critical_path_attribution w path start completed = Inr a \<and>
    attribution_total_ps a = completed - start \<and> cb_operation_latency_ps b = completed - start \<and> check_breakdown b = None"
  using breakdown_oks [OF assms] attribution_oks [OF assms] by (auto simp: oks_def)

definition demo_visit :: "resource_kind \<Rightarrow> int \<Rightarrow> int \<Rightarrow> int \<Rightarrow> int \<Rightarrow> queue_visit" where
  "demo_visit kind eligible started finished completed =
     \<lparr>qv_execution_id = ''e'', qv_operation_id = ''a'', qv_resource = \<lparr>rr_kind = kind, rr_resource_id = ''q''\<rparr>, qv_submitted_at_ps = 0,
      qv_eligible_at_ps = eligible, qv_started_at_ps = started, qv_finished_at_ps = finished, qv_completed_at_ps = completed,
      qv_service_bytes = 0, qv_subject_object_id = None, qv_stage = None\<rparr>"

definition demo_path :: "queue_visit list" where
  "demo_path = [demo_visit HOST_LAUNCH_QUEUE 0 0 2 2, demo_visit NIC 3 5 9 9, demo_visit NIC_RECEIVE_QUEUE 4 6 11 12]"

definition demo_control :: work_payload where
  "demo_control = ControlWork \<lparr>xw_message = ''m'', xw_destination_ranks = [], xw_payload_bytes = 0, xw_mode = SYNCHRONOUS\<rparr>"

lemma demo_path_ok: "path_ok demo_control 14 demo_path"
  by (simp add: path_ok_def demo_path_def demo_visit_def visit_ok_def attributable_def check_visit_def require_defs opt_err_def nonblank_def py_isspace_def)

theorem critical_path_conserved_witness:
  "\<exists>b a. critical_path_breakdown_of demo_path 1 14 = Inr b \<and> critical_path_attribution demo_control demo_path 1 14 = Inr a \<and>
    attribution_total_ps a = 13 \<and> cb_operation_latency_ps b = 13"
  using critical_path_conserved [OF demo_path_ok, of 1] by auto

end
