(* ===== verification/Runtime_Evidence.thy ===== *)
theory Runtime_Evidence
  imports Runtime_Preflight Path_Accounting
begin

text \<open>
  The evidence of a complete schedule: the segments of all participants are linked to the release of the
  graph or to the end of their predecessor segment, the realized chain has no cycle because a predecessor
  was scheduled earlier, and the latencies along it add up to the span of the execution.
\<close>

subsection \<open>Entries of a complete schedule\<close>

lemma decimal_nonneg: "0 \<le> decimal (takeWhile is_digit s)"
proof -
  have "0 \<le> decimal s" if "list_all is_digit s" for s
    using that
  proof (induction s rule: rev_induct)
    case (snoc c s)
    then have "is_digit c" "0 \<le> decimal s" by simp_all
    then show ?case by (simp add: decimal_snoc is_digit_def Let_def)
  qed (simp add: decimal_def)
  moreover have "list_all is_digit (takeWhile is_digit s)" by (auto simp: list_all_iff dest: set_takeWhileD)
  ultimately show ?thesis .
qed

lemma participant_rank_nonneg:
  assumes "operation_ok g op" "r \<in> set (operation_participant_ranks op)" shows "0 \<le> r"
proof -
  have "0 \<le> n" if "device_participant s = Some n" for s n
    using that decimal_nonneg by (auto simp: device_participant_def Let_def split: option.splits if_splits)
  then show ?thesis using assms
    by (cases "op_work op") (auto simp: operation_ok_def operation_participant_ranks_def validate_collective_def validate_control_def Let_def map_filter_def
      split: option.splits if_splits)
qed

lemma scheduled_facts:
  assumes "context_ok cx" "scheduled_ok cx sc" "op \<in> set (eg_operations (lx_graph cx))" "map_of sc (op_operation_id op) = Some x"
  shows "\<exists>ys zs. sc = ys @ (op_operation_id op, x) # zs \<and> scheduled_ok cx ys \<and> predecessors_in cx ys (op_operation_id op) \<and>
    outcome_ok (lx_graph cx) op ys (launch_of cx op) (predecessor_floor cx ys (op_operation_id op)) x"
proof -
  obtain ys zs op' where e: "sc = ys @ (op_operation_id op, x) # zs" "op' \<in> set (eg_operations (lx_graph cx))" "op_operation_id op' = op_operation_id op"
    "scheduled_ok cx ys" "predecessors_in cx ys (op_operation_id op)"
    "outcome_ok (lx_graph cx) op' ys (launch_of cx op') (predecessor_floor cx ys (op_operation_id op)) x"
    using scheduled_entry [OF assms(2) map_of_SomeD [OF assms(4)]] by blast
  have "op' = op" using operation_unique [OF assms(1) e(2) assms(3) e(3)] .
  then show ?thesis using e by blast
qed

lemma scheduled_outcome_ok:
  assumes "context_ok cx" "scheduled_ok cx sc" "op \<in> set (eg_operations (lx_graph cx))" "map_of sc (op_operation_id op) = Some x"
  shows "outcome_ok (lx_graph cx) op sc (launch_of cx op) (predecessor_floor cx sc (op_operation_id op)) x"
proof -
  obtain ys zs where e: "sc = ys @ (op_operation_id op, x) # zs" "predecessors_in cx ys (op_operation_id op)"
    "outcome_ok (lx_graph cx) op ys (launch_of cx op) (predecessor_floor cx ys (op_operation_id op)) x"
    using scheduled_facts [OF assms] by blast
  show ?thesis unfolding e(1) floor_extend [OF e(2)] by (rule outcome_ok_extend [OF e(3)])
qed

lemma logical_before_physical: "outcome_ok g op sc l lo x \<Longrightarrow> so_logical_completed_at_ps x \<le> so_physical_completed_at_ps x"
  unfolding outcome_ok_def by blast

lemma released_before_completion:
  assumes "outcome_ok g op sc l lo x" shows "eg_released_at_ps g \<le> so_logical_completed_at_ps x"
proof -
  obtain r where "(r, so_logical_completed_at_ps x) \<in> set (so_participant_completed_at_ps x)" using assms by (auto simp: outcome_ok_def)
  then have "map_of (so_participant_completed_at_ps x) r = Some (so_logical_completed_at_ps x)"
    using assms by (auto simp: outcome_ok_def participants_ok_def)
  then show ?thesis using assms unfolding outcome_ok_def participants_ok_def by blast
qed

subsection \<open>Segments\<close>

definition segment_ok :: "execution_graph \<Rightarrow> (string, scheduled_operation) dict \<Rightarrow> string \<Rightarrow> int \<Rightarrow> critical_segment \<Rightarrow> bool" where
  "segment_ok g sc k r s \<longleftrightarrow>
     cs_operation_id s = k \<and> cs_participant_rank s = r \<and> cb_operation_latency_ps (cs_breakdown s) = cs_completed_at_ps s - cs_started_at_ps s \<and>
     (\<exists>x y. map_of sc k = Some x \<and> map_of (so_participant_completed_at_ps x) r = Some (cs_completed_at_ps s) \<and>
        map_of (so_participant_causal_witnesses x) r = Some y \<and> cs_predecessor_operation_id s = map_option cx_predecessor_id y \<and>
        cs_predecessor_participant_rank s = map_option cx_participant_rank y \<and>
        cs_started_at_ps s = (case y of None \<Rightarrow> eg_released_at_ps g | Some q \<Rightarrow> cx_completed_at_ps q))"

definition segment_table :: "execution_graph \<Rightarrow> (string, scheduled_operation) dict \<Rightarrow> (string \<times> int) set \<Rightarrow> segments \<Rightarrow> bool" where
  "segment_table g sc keys segs \<longleftrightarrow> dict_ok segs \<and> fst ` set segs = keys \<and> (\<forall>k r s. map_of segs (k, r) = Some s \<longrightarrow> segment_ok g sc k r s)"

lemma segment_table_update:
  assumes "segment_table g sc keys segs" "segment_ok g sc k r s"
  shows "segment_table g sc (insert (k, r) keys) (AList.update (k, r) s segs)"
  using assms unfolding segment_table_def by (auto simp: update_conv distinct_update dom_update [unfolded dom_map_of_conv_image_fst] split: if_splits)

lemma participant_segment_oks:
  assumes cx: "context_ok cx" "scheduled_ok cx sc" and op: "op \<in> set (eg_operations (lx_graph cx))" "map_of sc (op_operation_id op) = Some x"
    and r: "r \<in> set (operation_participant_ranks op)" and segs: "segment_table (lx_graph cx) sc keys segs" "(op_operation_id op, r) \<notin> keys"
  shows "oks (participant_segment (lx_graph cx) op x r (segs, cs)) (\<lambda>(segs', cs'). segment_table (lx_graph cx) sc (insert (op_operation_id op, r) keys) segs' \<and>
    (\<exists>s. cs' = cs @ [s] \<and> segment_ok (lx_graph cx) sc (op_operation_id op) r s))"
proof -
  let ?g = "lx_graph cx"
  have o: "outcome_ok ?g op sc (launch_of cx op) (predecessor_floor cx sc (op_operation_id op)) x" by (rule scheduled_outcome_ok [OF cx op])
  then obtain t path y where e: "map_of (so_participant_completed_at_ps x) r = Some t" "map_of (so_participant_paths x) r = Some path"
    "map_of (so_participant_causal_witnesses x) r = Some y" "eg_released_at_ps ?g \<le> t" "path_ok (op_work op) t path" "wit_ok sc t y"
    using participants_entry [OF _ r] unfolding outcome_ok_def by blast
  define started where "started = (case y of None \<Rightarrow> eg_released_at_ps ?g | Some q \<Rightarrow> cx_completed_at_ps q)"
  have ok: "operation_ok ?g op" using contextD(8) [OF cx(1) op(1)] .
  have pre: "nonblank (cx_predecessor_id q) \<and> 0 \<le> cx_participant_rank q \<and> 0 \<le> cx_completed_at_ps q \<and> cx_completed_at_ps q \<le> t" if "y = Some q" for q
  proof -
    obtain z where z: "map_of sc (cx_predecessor_id q) = Some z" "map_of (so_participant_completed_at_ps z) (cx_participant_rank q) = Some (cx_completed_at_ps q)"
      "cx_completed_at_ps q \<le> t" using e(6) \<open>y = Some q\<close> by (auto simp: wit_ok_def)
    obtain op' ys lo where op': "op' \<in> set (eg_operations ?g)" "op_operation_id op' = cx_predecessor_id q" "outcome_ok ?g op' ys (launch_of cx op') lo z"
      using scheduled_outcome [OF cx(2) z(1)] by blast
    have ok': "operation_ok ?g op'" using contextD(8) [OF cx(1) op'(1)] .
    have "cx_participant_rank q \<in> set (operation_participant_ranks op')"
    proof -
      have "fst ` set (so_participant_completed_at_ps z) = set (operation_participant_ranks op')" using op'(3) by (simp add: outcome_ok_def participants_ok_def)
      then show ?thesis using image_eqI [where f = fst, OF _ map_of_SomeD [OF z(2)]] by simp
    qed
    moreover have "eg_released_at_ps ?g \<le> cx_completed_at_ps q" using op'(3) z(2) unfolding outcome_ok_def participants_ok_def by blast
    moreover have "nonblank (op_operation_id op')" "0 \<le> eg_released_at_ps ?g" using ok' by (simp_all add: operation_ok_def)
    ultimately show ?thesis using participant_rank_nonneg [OF ok'] z(3) op'(2) by (metis order_trans)
  qed
  have st: "started \<le> t" "0 \<le> started" using pre e(4) ok by (auto simp: started_def operation_ok_def split: option.splits)
  have fresh: "map_of segs (op_operation_id op, r) = None" using segs by (simp add: segment_table_def map_of_eq_None_iff)
  have "segment_table ?g sc (insert (op_operation_id op, r) keys) (AList.update (op_operation_id op, r) s segs) \<and> segment_ok ?g sc (op_operation_id op) r s \<and> check_segment s = None"
    if s: "s = \<lparr>cs_operation_id = op_operation_id op, cs_participant_rank = r, cs_started_at_ps = started,
                  cs_completed_at_ps = t, cs_predecessor_operation_id = map_option cx_predecessor_id y,
                  cs_predecessor_participant_rank = map_option cx_participant_rank y, cs_breakdown = b, cs_attribution = a\<rparr>"
      and b: "cb_operation_latency_ps b = t - started" and a: "attribution_total_ps a = t - started" for s b a
  proof -
    have so: "segment_ok ?g sc (op_operation_id op) r s" using op(2) e(1,3) b by (auto simp: segment_ok_def s started_def)
    moreover have "check_segment s = None"
      using ok st b a participant_rank_nonneg [OF ok r] pre
      by (cases y) (auto simp: check_segment_def s require_defs opt_err_def operation_ok_def)
    ultimately show ?thesis using segment_table_update [OF segs(1) so] by blast
  qed
  then show ?thesis using breakdown_oks [OF e(5) st(1)] attribution_oks [OF e(5) st(1)]
    by (simp add: participant_segment_def e Let_def fresh started_def [symmetric]) (fastforce elim!: oks_mono)
qed

subsection \<open>Records\<close>

lemma oks_rfold_split:
  assumes "I [] s" "\<And>pre x suf t. xs = pre @ x # suf \<Longrightarrow> I pre t \<Longrightarrow> oks (f x t) (I (pre @ [x]))" shows "oks (rfold f xs s) (I xs)"
proof -
  have "oks (rfold f ys t) (I (pre @ ys))" if "I pre t" "xs = pre @ ys" for pre ys t
    using that
  proof (induction ys arbitrary: pre t)
    case (Cons y ys)
    have "oks (f y t) (I (pre @ [y]))" using assms(2) [OF Cons.prems(2,1)] .
    then show ?case using Cons.IH [of "pre @ [y]"] Cons.prems(2) by (auto elim!: oks_mono)
  qed simp
  from this [of "[]" s xs] show ?thesis using assms(1) by simp
qed

definition evidence_ok :: "execution_graph \<Rightarrow> (string, scheduled_operation) dict \<Rightarrow> execution_operation \<Rightarrow> runtime_operation_record \<Rightarrow> bool" where
  "evidence_ok g sc op rec \<longleftrightarrow>
     ro_operation_id rec = op_operation_id op \<and> (\<exists>x. map_of sc (op_operation_id op) = Some x \<and> ro_completed_at_ps rec = so_logical_completed_at_ps x) \<and>
     list_all2 (segment_ok g sc (op_operation_id op)) (operation_participant_ranks op) (ro_critical_segments rec)"

abbreviation segment_keys :: "execution_operation list \<Rightarrow> (string \<times> int) set" where
  "segment_keys ops \<equiv> {(op_operation_id op, r) | op r. op \<in> set ops \<and> r \<in> set (operation_participant_ranks op)}"

lemma participant_segments_oks:
  assumes cx: "context_ok cx" "scheduled_ok cx sc" and op: "op \<in> set (eg_operations (lx_graph cx))" "map_of sc (op_operation_id op) = Some x"
    and segs: "segment_table (lx_graph cx) sc keys segs" "op_operation_id op \<notin> fst ` keys"
  shows "oks (rfold (participant_segment (lx_graph cx) op x) (operation_participant_ranks op) (segs, [])) (\<lambda>(segs', cs).
    segment_table (lx_graph cx) sc (keys \<union> Pair (op_operation_id op) ` set (operation_participant_ranks op)) segs' \<and>
    list_all2 (segment_ok (lx_graph cx) sc (op_operation_id op)) (operation_participant_ranks op) cs)"
proof (rule oks_rfold_split [where I = "\<lambda>pre (segs', cs). segment_table (lx_graph cx) sc (keys \<union> Pair (op_operation_id op) ` set pre) segs' \<and>
    list_all2 (segment_ok (lx_graph cx) sc (op_operation_id op)) pre cs"])
  fix pre r suf and t :: "segments \<times> critical_segment list"
  assume r: "operation_participant_ranks op = pre @ r # suf"
    and i: "case t of (segs', cs) \<Rightarrow> segment_table (lx_graph cx) sc (keys \<union> Pair (op_operation_id op) ` set pre) segs' \<and>
      list_all2 (segment_ok (lx_graph cx) sc (op_operation_id op)) pre cs"
  obtain segs' cs where t: "t = (segs', cs)" by (cases t)
  have "r \<notin> set pre" using participant_ranks_facts(1) [of op] r by simp
  then have new: "(op_operation_id op, r) \<notin> keys \<union> Pair (op_operation_id op) ` set pre" using segs(2) by (auto simp: image_iff)
  have "oks (participant_segment (lx_graph cx) op x r (segs', cs)) (\<lambda>(segs'', cs').
      segment_table (lx_graph cx) sc (insert (op_operation_id op, r) (keys \<union> Pair (op_operation_id op) ` set pre)) segs'' \<and>
      (\<exists>s. cs' = cs @ [s] \<and> segment_ok (lx_graph cx) sc (op_operation_id op) r s))"
    using i r by (intro participant_segment_oks [OF cx op _ _ new]) (simp_all add: t)
  then show "oks (participant_segment (lx_graph cx) op x r t) (\<lambda>(segs', cs). segment_table (lx_graph cx) sc (keys \<union> Pair (op_operation_id op) ` set (pre @ [r])) segs' \<and>
      list_all2 (segment_ok (lx_graph cx) sc (op_operation_id op)) (pre @ [r]) cs)"
    unfolding t by (rule oks_mono) (use i in \<open>auto simp: t intro!: list_all2_appendI\<close>)
qed (use segs(1) in simp)

lemma logical_path_oks:
  assumes "outcome_ok g op sc l lo x" shows "oks (logical_path x) (path_ok (op_work op) (so_logical_completed_at_ps x))"
proof -
  have "so_logical_paths x \<noteq> []" and p: "\<And>q. q \<in> set (so_logical_paths x) \<Longrightarrow> path_ok (op_work op) (so_logical_completed_at_ps x) q"
    using assms by (auto simp: outcome_ok_def)
  then have "oks (logical_path_index (so_logical_paths x)) (\<lambda>i. i < length (so_logical_paths x))"
    using p by (intro logical_path_index_oks) (auto simp: path_ok_def)
  then show ?thesis unfolding logical_path_def oks_rbind by (rule oks_mono) (simp add: p)
qed

lemma additive_predecessor_oks:
  assumes "outcome_ok g op sc l lo x"
  shows "oks (additive_predecessor sc x) (\<lambda>a. a \<noteq> None \<longrightarrow> (\<exists>t. so_critical_predecessor_completed_at_ps x = Some t \<and> t \<le> so_logical_completed_at_ps x))"
proof -
  obtain y where "wit_ok sc (so_logical_completed_at_ps x) y" "so_critical_predecessor_id x = map_option cx_predecessor_id y"
    "so_critical_predecessor_completed_at_ps x = map_option cx_completed_at_ps y" using assms unfolding outcome_ok_def by blast
  then show ?thesis by (cases y) (auto simp: additive_predecessor_def wit_ok_def)
qed

lemma operation_record_oks:
  assumes cx: "context_ok cx" "scheduled_ok cx sc" and op: "op \<in> set (eg_operations (lx_graph cx))" "map_of sc (op_operation_id op) = Some x"
    and segs: "segment_table (lx_graph cx) sc keys segs" "op_operation_id op \<notin> fst ` keys"
  shows "oks (operation_record (lx_graph cx) sc op (segs, records, visits)) (\<lambda>(segs', records', _).
    segment_table (lx_graph cx) sc (keys \<union> Pair (op_operation_id op) ` set (operation_participant_ranks op)) segs' \<and>
    (\<exists>rec. records' = records @ [rec] \<and> evidence_ok (lx_graph cx) sc op rec))"
proof -
  let ?g = "lx_graph cx"
  have o: "outcome_ok ?g op sc (launch_of cx op) (predecessor_floor cx sc (op_operation_id op)) x" by (rule scheduled_outcome_ok [OF cx op])
  have keys: "dict_ok (so_participant_completed_at_ps x)" "fst ` set (so_participant_completed_at_ps x) = set (operation_participant_ranks op)"
    "fst ` set (so_participant_paths x) = set (operation_participant_ranks op)" "fst ` set (so_participant_causal_witnesses x) = set (operation_participant_ranks op)"
    using o by (simp_all add: outcome_ok_def participants_ok_def)
  have ranks: "sort (map fst (so_participant_completed_at_ps x)) = operation_participant_ranks op"
    by (rule sorted_distinct_set_unique) (use keys in \<open>simp_all add: operation_participant_ranks_def\<close>)
  have path: "oks (critical_path_breakdown_of path start (so_logical_completed_at_ps x)) (\<lambda>b.
      oks (critical_path_attribution (op_work op) path start (so_logical_completed_at_ps x)) (\<lambda>a. attribution_total_ps a = cb_operation_latency_ps b))"
    if "path_ok (op_work op) (so_logical_completed_at_ps x) path" "start \<le> so_logical_completed_at_ps x" for path start
    using breakdown_oks [OF that] attribution_oks [OF that] by (auto elim!: oks_mono)
  have seg: "oks (rfold (participant_segment ?g op x) (operation_participant_ranks op) (segs, [])) (\<lambda>(segs', cs).
      segment_table ?g sc (keys \<union> Pair (op_operation_id op) ` set (operation_participant_ranks op)) segs' \<and>
      list_all2 (segment_ok ?g sc (op_operation_id op)) (operation_participant_ranks op) cs)"
    by (rule participant_segments_oks [OF cx op segs])
  have rel: "eg_released_at_ps ?g \<le> so_logical_completed_at_ps x" by (rule released_before_completion [OF o])
  have start: "(if a \<noteq> None then the (so_critical_predecessor_completed_at_ps x) else eg_released_at_ps ?g) \<le> so_logical_completed_at_ps x"
    if "a \<noteq> None \<longrightarrow> (\<exists>t. so_critical_predecessor_completed_at_ps x = Some t \<and> t \<le> so_logical_completed_at_ps x)" for a :: "string option"
    using that rel by auto
  have lp: "oks (logical_path x) (path_ok (op_work op) (so_logical_completed_at_ps x))" by (rule logical_path_oks [OF o])
  have ap: "oks (additive_predecessor sc x) (\<lambda>a. a \<noteq> None \<longrightarrow> (\<exists>t. so_critical_predecessor_completed_at_ps x = Some t \<and> t \<le> so_logical_completed_at_ps x))"
    by (rule additive_predecessor_oks [OF o])
  obtain segs' cs where s: "rfold (participant_segment ?g op x) (operation_participant_ranks op) (segs, []) = Inr (segs', cs)"
    "segment_table ?g sc (keys \<union> Pair (op_operation_id op) ` set (operation_participant_ranks op)) segs'"
    "list_all2 (segment_ok ?g sc (op_operation_id op)) (operation_participant_ranks op) cs" using seg by (auto simp: oks_def)
  obtain p where p: "logical_path x = Inr p" "path_ok (op_work op) (so_logical_completed_at_ps x) p" using lp by (auto simp: oks_def)
  obtain a where a: "additive_predecessor sc x = Inr a"
    "a \<noteq> None \<longrightarrow> (\<exists>t. so_critical_predecessor_completed_at_ps x = Some t \<and> t \<le> so_logical_completed_at_ps x)" using ap unfolding oks_def by blast
  show ?thesis using path [OF p(2) start [OF a(2)]]
    by (cases a) (simp_all add: operation_record_def op(2) Let_def ranks keys s p(1) a(1) evidence_ok_def)
qed

text \<open>All records.\<close>

lemma operation_records_oks:
  assumes cx: "context_ok cx" "scheduled_ok cx sc" and all: "op_operation_id ` set (eg_operations (lx_graph cx)) \<subseteq> fst ` set sc"
  shows "oks (rfold (operation_record (lx_graph cx) sc) (eg_operations (lx_graph cx)) ([], [], [])) (\<lambda>(segs, records, _).
    segment_table (lx_graph cx) sc (segment_keys (eg_operations (lx_graph cx))) segs \<and> list_all2 (evidence_ok (lx_graph cx) sc) (eg_operations (lx_graph cx)) records)"
proof (rule oks_rfold_split [where I = "\<lambda>pre (segs, records, _). segment_table (lx_graph cx) sc (segment_keys pre) segs \<and> list_all2 (evidence_ok (lx_graph cx) sc) pre records"])
  show "case ([], [], []) of (segs, records, _) \<Rightarrow> segment_table (lx_graph cx) sc (segment_keys []) segs \<and> list_all2 (evidence_ok (lx_graph cx) sc) [] records"
    by (simp add: segment_table_def)
  fix pre op suf and t :: "segments \<times> runtime_operation_record list \<times> queue_visit list"
  assume ops: "eg_operations (lx_graph cx) = pre @ op # suf"
    and i: "case t of (segs, records, _) \<Rightarrow> segment_table (lx_graph cx) sc (segment_keys pre) segs \<and> list_all2 (evidence_ok (lx_graph cx) sc) pre records"
  obtain segs records visits where t: "t = (segs, records, visits)" by (cases t)
  have op: "op \<in> set (eg_operations (lx_graph cx))" using ops by simp
  have "op_operation_id op \<in> fst ` set sc" using op all by (meson image_eqI subsetD)
  then obtain x where x: "map_of sc (op_operation_id op) = Some x" by (metis map_of_eq_None_iff not_None_eq)
  have "op_operation_id op \<notin> op_operation_id ` set pre" using contextD(1) [OF cx(1)] ops by simp
  then have new: "op_operation_id op \<notin> fst ` segment_keys pre" by auto
  have keys: "segment_keys pre \<union> Pair (op_operation_id op) ` set (operation_participant_ranks op) = segment_keys (pre @ [op])" by auto
  have "oks (operation_record (lx_graph cx) sc op (segs, records, visits)) (\<lambda>(segs', records', _).
      segment_table (lx_graph cx) sc (segment_keys (pre @ [op])) segs' \<and> (\<exists>rec. records' = records @ [rec] \<and> evidence_ok (lx_graph cx) sc op rec))"
    using operation_record_oks [OF cx op x _ new, of segs records visits] i unfolding keys by (simp add: t)
  then show "oks (operation_record (lx_graph cx) sc op t) (\<lambda>(segs, records, _). segment_table (lx_graph cx) sc (segment_keys (pre @ [op])) segs \<and>
      list_all2 (evidence_ok (lx_graph cx) sc) (pre @ [op]) records)"
    unfolding t by (rule oks_mono) (use i in \<open>auto simp: t intro!: list_all2_appendI\<close>)
qed

subsection \<open>The realized chain\<close>

definition step_of :: "(string, scheduled_operation) dict \<Rightarrow> string \<Rightarrow> nat" where
  "step_of sc k = length (takeWhile (\<lambda>kx. fst kx \<noteq> k) sc)"

lemma step_of_prefix: "k \<in> fst ` set ys \<Longrightarrow> j \<notin> fst ` set ys \<Longrightarrow> step_of (ys @ (j, x) # zs) k < step_of (ys @ (j, x) # zs) j"
  unfolding step_of_def
proof (induction ys)
  case (Cons y ys)
  then show ?case by (cases "fst y = k") auto
qed simp

text \<open>Every segment is linked, and its predecessor was scheduled earlier.\<close>

definition segment_linked :: "execution_graph \<Rightarrow> (string, scheduled_operation) dict \<Rightarrow> segments \<Rightarrow> bool" where
  "segment_linked g sc segs \<longleftrightarrow>
     (\<forall>k r s. map_of segs (k, r) = Some s \<longrightarrow> cb_operation_latency_ps (cs_breakdown s) = cs_completed_at_ps s - cs_started_at_ps s \<and>
        (case predecessor_key s of
           None \<Rightarrow> cs_predecessor_operation_id s = None \<and> cs_started_at_ps s = eg_released_at_ps g
         | Some (k', r') \<Rightarrow> cs_predecessor_operation_id s = Some k' \<and> cs_predecessor_participant_rank s = Some r' \<and>
             step_of sc k' < step_of sc k \<and> (\<exists>pre. map_of segs (k', r') = Some pre \<and> cs_completed_at_ps pre = cs_started_at_ps s)))"

lemma segments_linked:
  assumes cx: "context_ok cx" "scheduled_ok cx sc"
    and t: "segment_table (lx_graph cx) sc (segment_keys (eg_operations (lx_graph cx))) segs"
  shows "segment_linked (lx_graph cx) sc segs"
  unfolding segment_linked_def
proof (intro allI impI)
  let ?g = "lx_graph cx"
  fix k r s assume s: "map_of segs (k, r) = Some s"
  have so: "segment_ok ?g sc k r s" using t s by (simp add: segment_table_def)
  have lat: "cb_operation_latency_ps (cs_breakdown s) = cs_completed_at_ps s - cs_started_at_ps s" using so by (simp add: segment_ok_def)
  obtain x y where x: "map_of sc k = Some x" "map_of (so_participant_causal_witnesses x) r = Some y" "map_of (so_participant_completed_at_ps x) r = Some (cs_completed_at_ps s)"
    "cs_predecessor_operation_id s = map_option cx_predecessor_id y" "cs_predecessor_participant_rank s = map_option cx_participant_rank y"
    "cs_started_at_ps s = (case y of None \<Rightarrow> eg_released_at_ps ?g | Some q \<Rightarrow> cx_completed_at_ps q)" using so unfolding segment_ok_def by blast
  obtain ys zs op where e: "sc = ys @ (k, x) # zs" "op \<in> set (eg_operations ?g)" "op_operation_id op = k" "scheduled_ok cx ys"
    "outcome_ok ?g op ys (launch_of cx op) (predecessor_floor cx ys k) x" using scheduled_entry [OF cx(2) map_of_SomeD [OF x(1)]] by blast
  show "cb_operation_latency_ps (cs_breakdown s) = cs_completed_at_ps s - cs_started_at_ps s \<and>
        (case predecessor_key s of
           None \<Rightarrow> cs_predecessor_operation_id s = None \<and> cs_started_at_ps s = eg_released_at_ps ?g
         | Some (k', r') \<Rightarrow> cs_predecessor_operation_id s = Some k' \<and> cs_predecessor_participant_rank s = Some r' \<and>
             step_of sc k' < step_of sc k \<and> (\<exists>pre. map_of segs (k', r') = Some pre \<and> cs_completed_at_ps pre = cs_started_at_ps s))"
  proof (cases y)
    case None
    then show ?thesis using lat x by (simp add: predecessor_key_def)
  next
    case (Some q)
    have "wit_ok ys (cs_completed_at_ps s) y" using e(5) x(2,3) unfolding outcome_ok_def participants_ok_def by blast
    then obtain z where z: "map_of ys (cx_predecessor_id q) = Some z" "map_of (so_participant_completed_at_ps z) (cx_participant_rank q) = Some (cx_completed_at_ps q)"
      by (auto simp: wit_ok_def Some)
    have kin: "cx_predecessor_id q \<in> fst ` set ys" using image_eqI [where f = fst, OF _ map_of_SomeD [OF z(1)]] by simp
    have "dict_ok sc" using scheduled_keys [OF cx(2)] by blast
    then have "k \<notin> fst ` set ys" by (auto simp: e(1))
    then have step: "step_of sc (cx_predecessor_id q) < step_of sc k" unfolding e(1) using kin by (intro step_of_prefix)
    have zsc: "map_of sc (cx_predecessor_id q) = Some z"
    proof -
      have "(cx_predecessor_id q, z) \<in> set sc" using map_of_SomeD [OF z(1)] by (simp add: e(1))
      then show ?thesis using \<open>dict_ok sc\<close> by simp
    qed
    obtain op' ys' lo where op': "op' \<in> set (eg_operations ?g)" "op_operation_id op' = cx_predecessor_id q" "outcome_ok ?g op' ys' (launch_of cx op') lo z"
      using scheduled_outcome [OF e(4) z(1)] by blast
    have "fst ` set (so_participant_completed_at_ps z) = set (operation_participant_ranks op')" using op'(3) by (simp add: outcome_ok_def participants_ok_def)
    then have "cx_participant_rank q \<in> set (operation_participant_ranks op')" using image_eqI [where f = fst, OF _ map_of_SomeD [OF z(2)]] by simp
    then have "(cx_predecessor_id q, cx_participant_rank q) \<in> segment_keys (eg_operations ?g)" using op'(1) unfolding op'(2) [symmetric] by blast
    then have "map_of segs (cx_predecessor_id q, cx_participant_rank q) \<noteq> None" using t by (simp add: segment_table_def map_of_eq_None_iff)
    then obtain pre where pre: "map_of segs (cx_predecessor_id q, cx_participant_rank q) = Some pre" by blast
    then have "segment_ok ?g sc (cx_predecessor_id q) (cx_participant_rank q) pre" using t by (simp add: segment_table_def)
    then have "cs_completed_at_ps pre = cx_completed_at_ps q" using zsc z(2) by (auto simp: segment_ok_def)
    then show ?thesis using lat x Some step pre by (simp add: predecessor_key_def)
  qed
qed

lemma chain_sum_Cons: "map_of segs key = Some s \<Longrightarrow> chain_sum f segs (key # chain) = f (cs_breakdown s) + chain_sum f segs chain"
  by (simp add: chain_sum_def)

lemma chain_sum_rev: "chain_sum f segs (rev chain) = chain_sum f segs chain"
  by (simp add: chain_sum_def rev_map [symmetric])

lemma follow_chain_ok:
  "segment_linked g sc segs \<Longrightarrow> map_of segs (k, r) = Some s \<Longrightarrow> \<forall>j \<in> set seen. step_of sc k < step_of sc (fst j) \<Longrightarrow>
   \<exists>chain. follow_chain segs seen (Some (k, r)) = Inr ((k, r) # chain) \<and> chain_sum cb_operation_latency_ps segs ((k, r) # chain) = cs_completed_at_ps s - eg_released_at_ps g"
proof (induction "step_of sc k" arbitrary: k r s seen rule: less_induct)
  case less
  have fresh: "(k, r) \<notin> set seen" using less.prems(3) by force
  have s: "cb_operation_latency_ps (cs_breakdown s) = cs_completed_at_ps s - cs_started_at_ps s"
    using less.prems(1,2) unfolding segment_linked_def by blast
  show ?case
  proof (cases "predecessor_key s")
    case None
    then have "cs_started_at_ps s = eg_released_at_ps g" using less.prems(1,2) unfolding segment_linked_def by fastforce
    then show ?thesis using fresh less.prems(2) None s
      by (subst follow_chain.simps) (simp add: follow_chain.simps [of _ _ None] chain_sum_def)
  next
    case (Some key)
    obtain k' r' where key: "key = (k', r')" by (cases key)
    obtain pre where pre: "step_of sc k' < step_of sc k" "map_of segs (k', r') = Some pre" "cs_completed_at_ps pre = cs_started_at_ps s"
      using less.prems(1,2) Some unfolding segment_linked_def key by fastforce
    obtain chain where c: "follow_chain segs ((k, r) # seen) (Some (k', r')) = Inr ((k', r') # chain)"
      "chain_sum cb_operation_latency_ps segs ((k', r') # chain) = cs_completed_at_ps pre - eg_released_at_ps g"
      using less.hyps [OF pre(1) less.prems(1) pre(2), of "(k, r) # seen"] less.prems(3) pre(1) by (force intro: order.strict_trans)
    have f: "follow_chain segs seen (Some (k, r)) = Inr ((k, r) # (k', r') # chain)"
      using fresh less.prems(2) Some key c(1) by (subst follow_chain.simps) simp
    have "chain_sum cb_operation_latency_ps segs ((k, r) # (k', r') # chain) = cs_completed_at_ps s - eg_released_at_ps g"
      unfolding chain_sum_Cons [OF less.prems(2)] c(2) using s pre(3) by simp
    then show ?thesis using f by blast
  qed
qed

lemma segment_links:
  assumes "segment_linked g sc segs" "dict_ok segs" shows "first_err (map (\<lambda>(_, s). segment_link (eg_released_at_ps g) segs s) segs) = None"
  unfolding first_err_None_iff
proof
  fix c assume "c \<in> set (map (\<lambda>(_, s). segment_link (eg_released_at_ps g) segs s) segs)"
  then obtain k r s where s: "((k, r), s) \<in> set segs" "c = segment_link (eg_released_at_ps g) segs s" by auto
  then have m: "map_of segs (k, r) = Some s" using assms(2) by simp
  show "c = None"
  proof (cases "predecessor_key s")
    case None
    then have "cs_predecessor_operation_id s = None" "cs_started_at_ps s = eg_released_at_ps g" using assms(1) m unfolding segment_linked_def by fastforce+
    then show ?thesis by (simp add: s(2) segment_link_def)
  next
    case (Some key)
    then show ?thesis using assms(1) m unfolding segment_linked_def by (cases key) (fastforce simp: s(2) segment_link_def)
  qed
qed

lemma realized_chain_oks:
  assumes cx: "context_ok cx" "scheduled_ok cx sc" and req: "set (required_ids (lx_graph cx)) \<subseteq> op_operation_id ` set (eg_operations (lx_graph cx))"
    and all: "op_operation_id ` set (eg_operations (lx_graph cx)) \<subseteq> fst ` set sc"
    and recs: "list_all2 (evidence_ok (lx_graph cx) sc) (eg_operations (lx_graph cx)) records"
    and t: "segment_table (lx_graph cx) sc (segment_keys (eg_operations (lx_graph cx))) segs"
  shows "oks (realized_chain (lx_graph cx) sc records segs) (chain_conserves (eg_released_at_ps (lx_graph cx)) segs)"
proof (cases "required_ids (lx_graph cx)")
  case Nil
  then show ?thesis by (simp add: realized_chain_def chain_conserves_def)
next
  case (Cons k ks)
  let ?g = "lx_graph cx"
  let ?f = "\<lambda>k. rbind (entry_at sc k) (\<lambda>x. Inr (so_logical_completed_at_ps x, operation_position ?g k, k))"
  have "oks (collect ?f (k # ks)) (list_all2 (\<lambda>k y. snd (snd y) = k) (k # ks))"
  proof (rule oks_collect)
    fix j assume "j \<in> set (k # ks)"
    then have "j \<in> fst ` set sc" using req all Cons by (metis subsetD)
    then obtain x where "map_of sc j = Some x" by (metis map_of_eq_None_iff not_None_eq)
    then show "oks (?f j) (\<lambda>y. snd (snd y) = j)" by simp
  qed
  then obtain keys where keys: "collect ?f (k # ks) = Inr keys" "list_all2 (\<lambda>k y. snd (snd y) = k) (k # ks) keys" by (auto simp: oks_def)
  obtain top rest where kk: "keys = top # rest" using keys(2) by (cases keys) auto
  define e where "e = snd (snd (first_max (\<lambda>(t, i, _). (t, i)) (hd keys) (tl keys)))"
  have "first_max (\<lambda>(t, i, _). (t, i)) (hd keys) (tl keys) \<in> set keys" using first_max_in [of "\<lambda>(t, i, _). (t, i)" top rest] by (simp add: kk)
  then have "e \<in> set (required_ids ?g)" using list_all2_set2 [OF keys(2)] unfolding e_def Cons by blast
  then obtain op where op: "op \<in> set (eg_operations ?g)" "e = op_operation_id op" using req by blast
  obtain rec where rec: "rec \<in> set records" "evidence_ok ?g sc op rec"
    using list_all2_set1 [OF recs op(1)] by blast
  have ids: "map ro_operation_id records = map op_operation_id (eg_operations ?g)"
    using recs by (induction rule: list_all2_induct) (auto simp: evidence_ok_def)
  have look: "map_of (map (\<lambda>r. (ro_operation_id r, r)) records) e = Some rec"
  proof (rule map_of_is_SomeI)
    show "distinct (map fst (map (\<lambda>r. (ro_operation_id r, r)) records))" using contextD(1) [OF cx(1)] ids by (simp add: o_def)
    show "(e, rec) \<in> set (map (\<lambda>r. (ro_operation_id r, r)) records)"
      using image_eqI [of "(e, rec)" "\<lambda>r. (ro_operation_id r, r)", OF _ rec(1)] rec(2) op(2) by (simp add: evidence_ok_def)
  qed
  obtain x where x: "map_of sc (op_operation_id op) = Some x" "ro_completed_at_ps rec = so_logical_completed_at_ps x"
    and segs: "list_all2 (segment_ok ?g sc (op_operation_id op)) (operation_participant_ranks op) (ro_critical_segments rec)"
    using rec(2) by (auto simp: evidence_ok_def)
  note o = scheduled_outcome_ok [OF cx op(1) x(1)]
  have pc: "dict_ok (so_participant_completed_at_ps x)" "fst ` set (so_participant_completed_at_ps x) = set (operation_participant_ranks op)"
    using o by (simp_all add: outcome_ok_def participants_ok_def)
  obtain r where r: "(r, so_logical_completed_at_ps x) \<in> set (so_participant_completed_at_ps x)" using o by (auto simp: outcome_ok_def)
  then have r': "r \<in> set (operation_participant_ranks op)" "map_of (so_participant_completed_at_ps x) r = Some (so_logical_completed_at_ps x)"
    using pc by (force, simp)
  obtain s where s: "s \<in> set (ro_critical_segments rec)" "segment_ok ?g sc (op_operation_id op) r s"
    using list_all2_set1 [OF segs r'(1)] by blast
  have "cs_completed_at_ps s = ro_completed_at_ps rec" using s(2) x r'(2) by (auto simp: segment_ok_def)
  then obtain s0 ss where f: "filter (\<lambda>s. cs_completed_at_ps s = ro_completed_at_ps rec) (ro_critical_segments rec) = s0 # ss"
    using s(1) by (cases "filter (\<lambda>s. cs_completed_at_ps s = ro_completed_at_ps rec) (ro_critical_segments rec)") (auto simp: filter_empty_conv)
  define z where "z = first_max cs_participant_rank s0 ss"
  have "z \<in> set (s0 # ss)" using first_max_in [of cs_participant_rank s0 ss] by (simp add: z_def)
  then have "z \<in> set (ro_critical_segments rec)" unfolding f [symmetric] by simp
  then obtain r0 where r0: "r0 \<in> set (operation_participant_ranks op)" "segment_ok ?g sc (op_operation_id op) r0 z" using list_all2_set2 [OF segs] by blast
  have "(op_operation_id op, r0) \<in> segment_keys (eg_operations ?g)" using op(1) r0(1) by blast
  then have "(op_operation_id op, r0) \<in> fst ` set segs" using t by (simp add: segment_table_def)
  then obtain z' where z': "map_of segs (op_operation_id op, r0) = Some z'" by (metis map_of_eq_None_iff not_None_eq)
  have lk: "segment_linked ?g sc segs" by (rule segments_linked [OF cx t])
  obtain chain where chain: "follow_chain segs [] (Some (op_operation_id op, r0)) = Inr ((op_operation_id op, r0) # chain)"
    "chain_sum cb_operation_latency_ps segs ((op_operation_id op, r0) # chain) = cs_completed_at_ps z' - eg_released_at_ps ?g"
    using follow_chain_ok [OF lk z', of "[]"] by auto
  have zk: "cs_operation_id z = op_operation_id op" "cs_participant_rank z = r0" using r0(2) by (simp_all add: segment_ok_def)
  have endp: "endpoint_segment rec = Some z" by (simp add: endpoint_segment_def f z_def)
  have "realized_chain ?g sc records segs = Inr (rev ((op_operation_id op, r0) # chain))"
    using keys(1) look endp chain(1) zk by (simp add: realized_chain_def Cons Let_def case_prod_unfold e_def entry_at_def del: collect.simps)
  moreover have "chain_conserves (eg_released_at_ps ?g) segs (rev ((op_operation_id op, r0) # chain))"
    unfolding chain_conserves_def chain_sum_rev using chain(2) z' by simp
  ultimately show ?thesis by simp
qed

subsection \<open>The report\<close>

lemma build_report_oks:
  assumes cx: "context_ok cx" and s: "graph_scheduled cx s" and req: "set (required_ids (lx_graph cx)) \<subseteq> op_operation_id ` set (eg_operations (lx_graph cx))"
  shows "oks (build_report (lx_graph cx) (ls_scheduled s) wqes authority draws) (\<lambda>_. True)"
proof -
  let ?g = "lx_graph cx" and ?sc = "ls_scheduled s"
  have sc: "scheduled_ok cx ?sc" "op_operation_id ` set (eg_operations ?g) \<subseteq> fst ` set ?sc" using s by (simp_all add: graph_scheduled_def)
  obtain segs records visits where r: "rfold (operation_record ?g ?sc) (eg_operations ?g) ([], [], []) = Inr (segs, records, visits)"
    "segment_table ?g ?sc (segment_keys (eg_operations ?g)) segs" "list_all2 (evidence_ok ?g ?sc) (eg_operations ?g) records"
    using operation_records_oks [OF cx sc] by (auto simp: oks_def)
  have "first_err (map (\<lambda>(_, s). segment_link (eg_released_at_ps ?g) segs s) segs) = None"
    using r(2) by (intro segment_links [OF segments_linked [OF cx sc(1) r(2)]]) (simp add: segment_table_def)
  moreover have "oks (realized_chain ?g ?sc records segs) (chain_conserves (eg_released_at_ps ?g) segs)"
    by (rule realized_chain_oks [OF cx sc(1) req sc(2) r(3,2)])
  ultimately show ?thesis by (auto simp: build_report_def r(1) elim!: oks_mono)
qed

subsection \<open>Events\<close>

definition event_ok :: "execution_graph \<Rightarrow> int \<Rightarrow> completion_event \<Rightarrow> bool" where
  "event_ok g t e \<longleftrightarrow> wire_event e = None \<and> ce_execution_id e = eg_execution_id g \<and> ce_timestamp_ps e \<le> t"

lemma event_of_ok:
  assumes "nonblank (eg_execution_id g)" "nonblank k" "nonblank (rr_resource_id res)" "case subj of None \<Rightarrow> True | Some s \<Rightarrow> nonblank s"
    "0 \<le> u" "u \<le> t" "case b of None \<Rightarrow> True | Some n \<Rightarrow> 0 \<le> n"
  shows "event_ok g t (event_of g k res subj (phase, u, b))"
  using assms by (auto simp: event_ok_def event_of_def wire_event_def split: option.splits)

lemma phase_events_ok:
  assumes "visit_ok v" "nonblank (eg_execution_id g)" "nonblank k" "case subj of None \<Rightarrow> True | Some s \<Rightarrow> nonblank s" "qv_finished_at_ps v \<le> t"
  shows "list_all (event_ok g t) (phase_events g k subj v)"
  using assms visit_order [OF assms(1)] by (auto simp: phase_events_def phase_rows_def visit_ok_def intro!: event_of_ok)

lemma network_times:
  assumes "check_projection q = None"
  shows "0 \<le> network_eligible q" "network_eligible q \<le> wp_completed_at_ps q" "0 \<le> network_started q" "network_started q \<le> wp_completed_at_ps q"
    "0 \<le> network_finished q" "network_finished q \<le> wp_completed_at_ps q"
  using projection_facts [OF assms]
  by (auto simp: network_eligible_def network_started_def network_finished_def check_native_stages_def require_defs split: option.splits)

lemma wqe_events_oks:
  assumes "wqe_ok t q" "nonblank (eg_execution_id g)" shows "oks (wqe_events g q) (list_all (event_ok g t))"
proof -
  have c: "check_projection q = None" "wp_completed_at_ps q \<le> t" using assms(1) by (simp_all add: wqe_ok_def)
  note f = projection_facts [OF c(1)]
  have "list_all (event_ok g t) (phase_events g (wp_operation_id q) (Some (wp_wqe_id q)) v)" if "network_visit q v" for v
    using that f(2,3) assms(2) c(2) visit_order(5) [of v] by (intro phase_events_ok) (auto simp: network_visit_def)
  then have "list_all (event_ok g t) (concat (map (phase_events g (wp_operation_id q) (Some (wp_wqe_id q))) vs))"
    if "\<forall>v \<in> set vs. network_visit q v" for vs using that by (induction vs) auto
  then show ?thesis using native_wqe_visits_oks [OF c(1)] f c(2) assms(2) network_times [OF c(1)]
    by (cases "wp_ingress q") (auto simp: wqe_events_def Let_def elim!: oks_mono intro!: event_of_ok)
qed

lemma completed_bytes_nonneg:
  assumes "operation_ok g op" "work_completed_bytes (op_work op) = Some n" shows "0 \<le> n"
proof (cases "op_work op")
  case (CollectiveWork w)
  note c = collective_facts [OF assms(1) CollectiveWork]
  have "0 \<le> sum_list (map (\<lambda>(s, d, n). n) (lw_pair_payload_bytes w))" using c(8) by (intro sum_list_nonneg) auto
  then show ?thesis using assms(2) c(4) by (auto simp: CollectiveWork)
qed (use assms in \<open>auto simp: operation_ok_def validate_compute_def validate_dma_def validate_kv_work_def validate_control_def Let_def split: if_splits\<close>)

lemma logical_event_oks:
  assumes o: "outcome_ok g op sc l lo x" and op: "operation_ok g op" and x: "map_of sc (op_operation_id op) = Some x" and t: "so_logical_completed_at_ps x \<le> t"
  shows "oks (logical_event g sc op) (event_ok g t)"
proof -
  have "event_ok g t (event_of g (op_operation_id op) (qv_resource (last p)) None (COMPLETED, so_logical_completed_at_ps x, work_completed_bytes (op_work op)))"
    if p: "path_ok (op_work op) (so_logical_completed_at_ps x) p" for p
  proof (rule event_of_ok)
    have "last p \<in> set p" using p by (simp add: path_ok_def)
    then show "nonblank (rr_resource_id (qv_resource (last p)))" using p by (auto simp: path_ok_def visit_ok_def)
    show "0 \<le> so_logical_completed_at_ps x" using released_before_completion [OF o] op by (simp add: operation_ok_def)
    show "case work_completed_bytes (op_work op) of None \<Rightarrow> True | Some n \<Rightarrow> 0 \<le> n"
      using completed_bytes_nonneg [OF op] by (auto split: option.splits)
  qed (use op t in \<open>auto simp: operation_ok_def\<close>)
  then show ?thesis using logical_path_oks [OF o] by (auto simp: logical_event_def x elim!: oks_mono)
qed

lemma completion_events_oks:
  assumes cx: "context_ok cx" and s: "graph_scheduled cx s" and t: "\<forall>x \<in> snd ` set (ls_scheduled s). so_physical_completed_at_ps x \<le> t"
  shows "oks (completion_events (lx_graph cx) (ls_scheduled s) (ls_wqes s)) (\<lambda>es. list_all (event_ok (lx_graph cx) t) es \<and> sorted (map ce_timestamp_ps es))"
proof -
  let ?g = "lx_graph cx" and ?sc = "ls_scheduled s"
  have sc: "scheduled_ok cx ?sc" "op_operation_id ` set (eg_operations ?g) = fst ` set ?sc" using s by (simp_all add: graph_scheduled_def)
  have entry: "\<exists>x. map_of ?sc (op_operation_id op) = Some x \<and> outcome_ok ?g op ?sc (launch_of cx op) (predecessor_floor cx ?sc (op_operation_id op)) x \<and>
      so_physical_completed_at_ps x \<le> t" if op: "op \<in> set (eg_operations ?g)" for op
  proof -
    have "op_operation_id op \<in> fst ` set ?sc" using op sc(2) by blast
    then obtain x where x: "map_of ?sc (op_operation_id op) = Some x" by (metis map_of_eq_None_iff not_None_eq)
    moreover have "so_physical_completed_at_ps x \<le> t" using t map_of_SomeD [OF x] by force
    ultimately show ?thesis using scheduled_outcome_ok [OF cx sc(1) op] by blast
  qed
  have visits: "oks (collect (\<lambda>op. rbind (entry_at ?sc (op_operation_id op)) (\<lambda>x. Inr (visit_events ?g (op_operation_id op) (so_visits x)))) (eg_operations ?g))
      (list_all2 (\<lambda>_. list_all (event_ok ?g t)) (eg_operations ?g))"
  proof (rule oks_collect)
    fix op assume op: "op \<in> set (eg_operations ?g)"
    obtain x where x: "map_of ?sc (op_operation_id op) = Some x" "outcome_ok ?g op ?sc (launch_of cx op) (predecessor_floor cx ?sc (op_operation_id op)) x"
      "so_physical_completed_at_ps x \<le> t" using entry [OF op] by blast
    have ok: "operation_ok ?g op" using contextD(8) [OF cx op] .
    have "list_all (event_ok ?g t) (phase_events ?g (op_operation_id op) None v)" if "v \<in> set (so_visits x)" for v
      using x(2,3) that ok by (intro phase_events_ok) (auto simp: outcome_ok_def visits_ok_def operation_ok_def)
    then have "list_all (event_ok ?g t) (visit_events ?g (op_operation_id op) (so_visits x))" by (auto simp: visit_events_def list_all_iff)
    then show "oks (rbind (entry_at ?sc (op_operation_id op)) (\<lambda>x. Inr (visit_events ?g (op_operation_id op) (so_visits x)))) (list_all (event_ok ?g t))"
      using x(1) by simp
  qed
  have wqes: "oks (collect (wqe_events ?g) (ls_wqes s)) (list_all2 (\<lambda>_. list_all (event_ok ?g t)) (ls_wqes s))"
  proof (rule oks_collect)
    fix q assume "q \<in> set (ls_wqes s)"
    then obtain k x where x: "(k, x) \<in> set ?sc" "q \<in> set (so_wqes x)" using s by (auto simp: graph_scheduled_def)
    obtain ys op where "outcome_ok ?g op ys (launch_of cx op) (predecessor_floor cx ys k) x" and op: "op \<in> set (eg_operations ?g)"
      using scheduled_entry [OF sc(1) x(1)] by blast
    then have "wqe_ok (so_physical_completed_at_ps x) q" using x(2) by (simp add: outcome_ok_def)
    moreover have "so_physical_completed_at_ps x \<le> t" using t x(1) by force
    ultimately have "wqe_ok t q" by (simp add: wqe_ok_def)
    then show "oks (wqe_events ?g q) (list_all (event_ok ?g t))" using contextD(8) [OF cx op] by (intro wqe_events_oks) (simp_all add: operation_ok_def)
  qed
  have logical: "oks (collect (logical_event ?g ?sc) (eg_operations ?g)) (list_all2 (\<lambda>_. event_ok ?g t) (eg_operations ?g))"
  proof (rule oks_collect)
    fix op assume op: "op \<in> set (eg_operations ?g)"
    obtain x where x: "map_of ?sc (op_operation_id op) = Some x" "outcome_ok ?g op ?sc (launch_of cx op) (predecessor_floor cx ?sc (op_operation_id op)) x"
      "so_physical_completed_at_ps x \<le> t" using entry [OF op] by blast
    have "so_logical_completed_at_ps x \<le> so_physical_completed_at_ps x" by (rule logical_before_physical [OF x(2)])
    then show "oks (logical_event ?g ?sc op) (event_ok ?g t)" using x(3) by (intro logical_event_oks [OF x(2) contextD(8) [OF cx op] x(1)]) simp
  qed
  have concat: "list_all P (concat yss)" if "list_all2 (\<lambda>_. list_all P) xs yss" for P :: "completion_event \<Rightarrow> bool" and xs :: "'z list" and yss
    using that by (induction rule: list_all2_induct) auto
  show ?thesis using visits wqes logical
    by (auto simp: completion_events_def oks_def list_all_iff [of _ "sort_key _ _"] dest!: concat dest: list_all2_set2 simp: list_all_iff)
qed

subsection \<open>The result\<close>

lemma required_known:
  assumes "validate_execution_graph digest g = None" shows "set (required_ids g) \<subseteq> op_operation_id ` set (eg_operations g)"
proof (cases "eg_completion_operation_ids g = []")
  case False
  note s = valid_structure [OF assms]
  have "map_of (operation_by_id (eg_operations g)) k \<noteq> None" if "k \<in> set (eg_completion_operation_ids g)" for k
    using s that by (auto simp: graph_structure_def Let_def)
  then have "k \<in> op_operation_id ` set (eg_operations g)" if "k \<in> set (eg_completion_operation_ids g)" for k
    using that graph_structure_operations(2) [OF s] by (force simp: map_of_eq_None_iff)
  then show ?thesis using False by (auto simp: required_ids_def)
qed (simp add: required_ids_def)

text \<open>
  What a successful run returns: the completion of the required operations, the time by which every
  resource is quiet, and every operation's completion among its events.
\<close>

definition run_ok :: "execution_graph \<Rightarrow> 'w loop_state \<Rightarrow> execution_result \<Rightarrow> bool" where
  "run_ok g s x \<longleftrightarrow>
     validate_execution_result x = None \<and> er_execution_id x = eg_execution_id g \<and> eg_released_at_ps g \<le> er_completed_at_ps x \<and>
     (\<forall>k \<in> set (required_ids g). \<exists>y. map_of (ls_scheduled s) k = Some y \<and> so_logical_completed_at_ps y \<le> er_completed_at_ps x)"

lemma result_of_oks:
  assumes v: "validate_execution_graph digest (lx_graph cx) = None" and cx: "context_ok cx" and s: "graph_scheduled cx s" and i: "rc_receiver_ingress cfg = False"
  shows "oks (result_of cfg A (lx_graph cx) s) (\<lambda>(x, _). run_ok (lx_graph cx) s x)"
proof -
  let ?g = "lx_graph cx" and ?sc = "ls_scheduled s"
  have sc: "scheduled_ok cx ?sc" "fst ` set ?sc = op_operation_id ` set (eg_operations ?g)" using s by (simp_all add: graph_scheduled_def)
  have req: "set (required_ids ?g) \<subseteq> op_operation_id ` set (eg_operations ?g)" by (rule required_known [OF v])
  have g: "nonblank (eg_execution_id ?g)" "0 \<le> eg_released_at_ps ?g" using valid_structure [OF v] by (simp_all add: graph_structure_def Let_def)
  have out: "\<exists>op ys lo. op \<in> set (eg_operations ?g) \<and> outcome_ok ?g op ys (launch_of cx op) lo y" if "(k, y) \<in> set ?sc" for k y
    using scheduled_entry [OF sc(1) that] by blast
  define q where "q = (if map (\<lambda>(_, x). so_physical_completed_at_ps x) ?sc = [] then eg_released_at_ps ?g
    else Max (set (map (\<lambda>(_, x). so_physical_completed_at_ps x) ?sc)))"
  have quiet: "so_physical_completed_at_ps y \<le> q" if "(k, y) \<in> set ?sc" for k y
  proof -
    have "so_physical_completed_at_ps y \<in> set (map (\<lambda>(_, x). so_physical_completed_at_ps x) ?sc)" using that by force
    then show ?thesis unfolding q_def by (auto intro!: Max_ge)
  qed
  have "oks (collect (\<lambda>k. rbind (entry_at ?sc k) (\<lambda>x. Inr (so_logical_completed_at_ps x))) (required_ids ?g))
      (list_all2 (\<lambda>k t. \<exists>y. map_of ?sc k = Some y \<and> t = so_logical_completed_at_ps y) (required_ids ?g))"
  proof (rule oks_collect)
    fix k assume "k \<in> set (required_ids ?g)"
    then have "k \<in> fst ` set ?sc" using req sc(2) by blast
    then obtain y where "map_of ?sc k = Some y" by (metis map_of_eq_None_iff not_None_eq)
    then show "oks (rbind (entry_at ?sc k) (\<lambda>x. Inr (so_logical_completed_at_ps x))) (\<lambda>t. \<exists>y. map_of ?sc k = Some y \<and> t = so_logical_completed_at_ps y)" by simp
  qed
  then obtain ts where ts: "collect (\<lambda>k. rbind (entry_at ?sc k) (\<lambda>x. Inr (so_logical_completed_at_ps x))) (required_ids ?g) = Inr ts"
    "list_all2 (\<lambda>k t. \<exists>y. map_of ?sc k = Some y \<and> t = so_logical_completed_at_ps y) (required_ids ?g) ts" by (auto simp: oks_def)
  define c where "c = (if ts = [] then eg_released_at_ps ?g else Max (set ts))"
  have time: "eg_released_at_ps ?g \<le> t \<and> t \<le> q" if mem: "t \<in> set ts" for t
  proof -
    obtain k y where y: "map_of ?sc k = Some y" "t = so_logical_completed_at_ps y" using list_all2_set2 [OF ts(2) mem] by blast
    then obtain op ys lo where o: "outcome_ok ?g op ys (launch_of cx op) lo y" using out [OF map_of_SomeD [OF y(1)]] by blast
    show ?thesis using quiet [OF map_of_SomeD [OF y(1)]] released_before_completion [OF o] logical_before_physical [OF o] y(2) by simp
  qed
  have rel: "eg_released_at_ps ?g \<le> q"
  proof (cases ?sc)
    case (Cons kx rest)
    obtain k y where y: "(k, y) \<in> set ?sc" using Cons by (cases kx) auto
    then obtain op ys lo where o: "outcome_ok ?g op ys (launch_of cx op) lo y" using out by blast
    show ?thesis using quiet [OF y] released_before_completion [OF o] logical_before_physical [OF o] by simp
  qed (simp add: q_def)
  have c: "eg_released_at_ps ?g \<le> c" "c \<le> q" using time rel Max_in [of "set ts"] by (auto simp: c_def)
  have bound: "completion_boundary ?g ?sc (required_ids ?g) = Inr c" by (simp add: completion_boundary_def ts(1) c_def)
  obtain es where es: "completion_events ?g ?sc (ls_wqes s) = Inr es" "list_all (event_ok ?g q) es" "sorted (map ce_timestamp_ps es)"
    using completion_events_oks [OF cx s, of q] quiet unfolding oks_def by fastforce
  let ?x = "\<lparr>er_execution_id = eg_execution_id ?g, er_completed_at_ps = c, er_events = es, er_quiesced_at_ps = Some q\<rparr>"
  have ev: "wire_event e = None" "ce_execution_id e = eg_execution_id ?g" "ce_timestamp_ps e \<le> q" "0 \<le> ce_timestamp_ps e" if "e \<in> set es" for e
    using es(2) that by (auto simp: list_all_iff event_ok_def wire_event_def)
  have "result_events (eg_execution_id ?g) (-1) es = None"
    unfolding result_events_iff using ev es(3) by force
  moreover have "es = [] \<or> ce_timestamp_ps (last es) \<le> q" using ev(3) last_in_set by blast
  ultimately have x: "validate_execution_result ?x = None" using g c by (simp add: validate_execution_result_def event_bound_def)
  have "\<exists>y. map_of ?sc k = Some y \<and> so_logical_completed_at_ps y \<le> c" if mem: "k \<in> set (required_ids ?g)" for k
  proof -
    obtain t where t: "t \<in> set ts" "\<exists>y. map_of ?sc k = Some y \<and> t = so_logical_completed_at_ps y"
      using list_all2_set1 [OF ts(2) mem] by blast
    then have "t \<le> c" unfolding c_def by (auto intro!: Max_ge)
    then show ?thesis using t(2) by blast
  qed
  then have run: "run_ok ?g s ?x" using x c(1) by (simp add: run_ok_def)
  obtain rep where rep: "build_report ?g ?sc (ls_wqes s) (wo_name A) (wo_random_draws A (mc_wqe (ls_machine s))) = Inr rep"
    using build_report_oks [OF cx s req, of "ls_wqes s"] by (auto simp: oks_def)
  have "result_of cfg A ?g s = Inr (?x, rep)" unfolding result_of_def bound es(1) Let_def q_def [symmetric] using rep x i by simp
  then show ?thesis using run by simp
qed

end
