(* ===== verification/Runtime_Findings.thy ===== *)
theory Runtime_Findings
  imports Runtime_Execute
begin

text \<open>
  A case the device runtime and its authority check disagree on: a KV-cache operation that carries no
  bytes has no resource visit of its own (it is a marker on its launch), so when it waits for a
  predecessor its logical completion is later than its only visit.  The run below executes such a
  graph with the default profile, the bypass authority and the identity policy.
\<close>

subsection \<open>The run\<close>











end
