(* ===== verification/Execution_Properties.thy ===== *)
theory Execution_Properties
  imports Runtime_Evidence Runtime_Findings
begin

text \<open>
  What \<open>CoarseDeviceRuntime.execute\<close> promises: a graph that passes validation and preflight is scheduled
  completely and in causal order, and executed; a rejected one leaves no trace.  Every arbitration
  policy of the repository, with the bypass ledger, implements the seams these theorems need.
\<close>

subsection \<open>The seams of the repository\<close>

interpretation identity_runtime: runtime_seams "\<lambda>(u::unit) cs. (u, identity_select cs)" "atlahs_ops p" p i "atlahs_inv p i" for p i
  by unfold_locales

interpretation strict_runtime: runtime_seams "\<lambda>(u::unit) cs. (u, strict_select True cs)" "atlahs_ops p" p i "atlahs_inv p i" for p i
  by unfold_locales

interpretation wrr_runtime: runtime_seams wrr_select "atlahs_ops p" p i "atlahs_inv p i" for p i
  by unfold_locales


subsection \<open>Causal order\<close>













subsection \<open>Atomicity\<close>















end
