(* ===== verification/Completion.thy ===== *)
theory Completion
  imports Runtime_Report Lifetime Clock
begin

text \<open>
  The completion reducer of \<open>simllm/core/completion.py\<close>: it checks one execution's result and report
  against the step and the graph, turns them into per-request metrics and advances the virtual clock.
  The reducer is modelled without the optional bottleneck report (\<open>emit_bottleneck_report=False\<close>); its
  release callback is the parameter of the lifetime registry.  Checks of types are left out.
\<close>

datatype reducer_error =
    AlreadyReduced
  | DuplicateScheduledIds | DuplicateSampled | UnscheduledSampled | SampledCount | SampledBelowDecode | SampledAmbiguous
  | StepIndexMismatch | ReleaseMismatch | ClockMismatch | ResultExecution | ReportExecution | CompletesBeforeRelease | QuiescesBeforeCompletion
  | OperationOrder | DuplicateRecords | RecordAttribution | RecordPredecessor | SegmentRanks | CompletionRanks
  | SegmentIdentity | SegmentCompletion | DuplicateSegmentKey | RootStart | UnknownPredecessorSegment | PredecessorTimestamp
  | NoSegment | PhysicalCompletion | LogicalCompletion | CausalBoundary | AdditiveWithoutCausal | UnknownCausal | CausalNotCompletion
  | CausalNotAdmitted | AdditiveMismatch | BreakdownSpan
  | PathUnknownSegment | PathProjection | PathDiscontinuous | PathLatency | PathQueue
  | VisitExecution | VisitOperation | VisitWait
  | EventExecution | EventOperation | EventOrder | EventAfterQuiescence | StreamProjection authority_error
  | BoundaryMismatch | CompletionEventMismatch
  | NoArrival | ArrivesLater | NoEndpoint | ChainLoop | ChainUnconserved | BackwardInTime | IntervalUnconserved
  | MetricInvalid step_error | ReducerKey | LifetimeRefused lifetime_error | ClockRefused clock_error

record request_metric_state =
  ms_first_observed_at_ps :: int
  ms_accounted_through_ps :: int
  ms_first_token_at_ps :: "int option"
  ms_last_token_at_ps :: "int option"
  ms_token_count :: int
  ms_inter_token_sum_ps :: int
  ms_inter_token_count :: int
  ms_pending_attribution :: latency_attribution
  ms_pending_additive :: additive_visit_totals
  ms_latest_metric :: "request_metric option"

definition new_metric_state :: "int \<Rightarrow> request_metric_state" where
  "new_metric_state t =
     \<lparr>ms_first_observed_at_ps = t, ms_accounted_through_ps = t, ms_first_token_at_ps = None, ms_last_token_at_ps = None,
      ms_token_count = 0, ms_inter_token_sum_ps = 0, ms_inter_token_count = 0, ms_pending_attribution = zero_attribution,
      ms_pending_additive = zero_visit_totals, ms_latest_metric = None\<rparr>"

definition sampled_request_ids :: "step_record \<Rightarrow> reducer_error + string list" where
  "sampled_request_ids r =
     (let ids = map sr_request_id (st_scheduled r);
          decode = map sr_request_id (filter (\<lambda>q. sr_phase q = DECODE) (st_scheduled r))
      in if \<not> distinct ids then Inl DuplicateScheduledIds
         else case st_sampled_request_ids r of
           Some sampled \<Rightarrow>
             rcheck (first_err
               [guard (distinct sampled) DuplicateSampled, guard (set sampled \<subseteq> set ids) UnscheduledSampled,
                (case st_num_sampled r of None \<Rightarrow> None | Some n \<Rightarrow> guard (int (length sampled) = n) SampledCount)]) (Inr sampled)
         | None \<Rightarrow>
             (case st_num_sampled r of
                None \<Rightarrow> Inr ids
              | Some n \<Rightarrow>
                  if n = 0 then Inr []
                  else if n = int (length ids) then Inr ids
                  else if n < int (length decode) then Inl SampledBelowDecode
                  else if n = int (length decode) then Inr decode
                  else Inl SampledAmbiguous))"

definition visit_totals :: "queue_visit list \<Rightarrow> additive_visit_totals" where
  "visit_totals vs =
     \<lparr>av_queue_wait_ps = sum_list (map queue_wait_ps vs), av_service_ps = sum_list (map visit_service_ps vs),
      av_visibility_ps = sum_list (map visibility_ps vs), av_visit_count = int (length vs)\<rparr>"

subsection \<open>Input checks\<close>

definition by_operation :: "runtime_report \<Rightarrow> (string, runtime_operation_record) dict" where
  "by_operation r = map (\<lambda>q. (ro_operation_id q, q)) (rp_operations r)"

definition validate_scalar_projection :: "runtime_operation_record \<Rightarrow> (string, runtime_operation_record) dict \<Rightarrow> int \<Rightarrow> reducer_error option" where
  "validate_scalar_projection q by_id released =
     (let segments = ro_critical_segments q; completions = map cs_completed_at_ps segments;
          span = (\<lambda>start. guard (cb_operation_latency_ps (ro_breakdown q) = ro_completed_at_ps q - start) BreakdownSpan)
      in if segments = [] then Some NoSegment
         else if ro_physical_completed_at_ps q \<noteq> Max (set completions) then Some PhysicalCompletion
         else if ro_completed_at_ps q \<notin> set completions then Some LogicalCompletion
         else case (ro_causal_predecessor_id q, ro_causal_predecessor_completed_at_ps q) of
           (None, None) \<Rightarrow> if ro_critical_predecessor_id q \<noteq> None then Some AdditiveWithoutCausal else span released
         | (Some k, Some boundary) \<Rightarrow>
             (case map_of by_id k of
                None \<Rightarrow> Some UnknownCausal
              | Some pre \<Rightarrow>
                  (let additive_id = (if boundary = ro_completed_at_ps pre then Some k else None)
                   in if boundary \<notin> set (map cs_completed_at_ps (ro_critical_segments pre)) then Some CausalNotCompletion
                      else if \<not> list_ex (\<lambda>s. cs_predecessor_operation_id s = Some k \<and> cs_started_at_ps s = boundary) segments
                      then Some CausalNotAdmitted
                      else if ro_critical_predecessor_id q \<noteq> additive_id then Some AdditiveMismatch
                      else span (if additive_id \<noteq> None then boundary else released)))
         | _ \<Rightarrow> Some CausalBoundary)"

definition collect_segment :: "runtime_operation_record \<Rightarrow> critical_segment \<Rightarrow> segments \<Rightarrow> reducer_error + segments" where
  "collect_segment q s segs =
     (let key = (cs_operation_id s, cs_participant_rank s) in
      if cs_operation_id s \<noteq> ro_operation_id q then Inl SegmentIdentity
      else if map_of (ro_participant_completed_at_ps q) (cs_participant_rank s) \<noteq> Some (cs_completed_at_ps s) then Inl SegmentCompletion
      else if map_of segs key \<noteq> None then Inl DuplicateSegmentKey
      else Inr (AList.update key s segs))"

definition collect_record :: "execution_graph \<Rightarrow> runtime_report \<Rightarrow> runtime_operation_record \<Rightarrow> segments \<Rightarrow> reducer_error + segments" where
  "collect_record g r q segs =
     (if attribution_total_ps (ro_attribution q) \<noteq> cb_operation_latency_ps (ro_breakdown q) then Inl RecordAttribution
      else if (case ro_critical_predecessor_id q of None \<Rightarrow> False | Some k \<Rightarrow> map_of (by_operation r) k = None) then Inl RecordPredecessor
      else case map_of (operation_by_id (eg_operations g)) (ro_operation_id q) of
        None \<Rightarrow> Inl ReducerKey
      | Some op \<Rightarrow>
          (let ranks = operation_participant_ranks op in
           if map cs_participant_rank (ro_critical_segments q) \<noteq> ranks then Inl SegmentRanks
           else if sort (remdups (map fst (ro_participant_completed_at_ps q))) \<noteq> ranks then Inl CompletionRanks
           else rfold (collect_segment q) (ro_critical_segments q) segs))"

definition reducer_link :: "int \<Rightarrow> segments \<Rightarrow> critical_segment \<Rightarrow> reducer_error option" where
  "reducer_link released segs s =
     (case (cs_predecessor_operation_id s, cs_predecessor_participant_rank s) of
        (Some k, Some rank) \<Rightarrow>
          (case map_of segs (k, rank) of
             None \<Rightarrow> Some UnknownPredecessorSegment
           | Some pre \<Rightarrow> guard (cs_started_at_ps s = cs_completed_at_ps pre) PredecessorTimestamp)
      | (None, _) \<Rightarrow> guard (cs_started_at_ps s = released) RootStart
      | (Some _, None) \<Rightarrow> Some ReducerKey)"

definition continuous :: "segments \<Rightarrow> (string \<times> int) list \<Rightarrow> bool" where
  "continuous segs chain =
     list_all (\<lambda>(pre, key). case map_of segs key of None \<Rightarrow> False | Some s \<Rightarrow> predecessor_key s = Some pre) (zip chain (tl chain))"

fun ordered_events :: "execution_graph \<Rightarrow> (string, runtime_operation_record) dict \<Rightarrow> int option \<Rightarrow> int \<Rightarrow> completion_event list \<Rightarrow> reducer_error option" where
  "ordered_events g by_id quiesced previous [] = None"
| "ordered_events g by_id quiesced previous (e # es) =
     first_err
       [guard (ce_execution_id e = eg_execution_id g) EventExecution, guard (map_of by_id (ce_operation_id e) \<noteq> None) EventOperation,
        guard (previous \<le> ce_timestamp_ps e) EventOrder,
        guard (case quiesced of None \<Rightarrow> True | Some q \<Rightarrow> ce_timestamp_ps e \<le> q) EventAfterQuiescence,
        ordered_events g by_id quiesced (ce_timestamp_ps e) es]"

definition check_identity :: "step_record \<Rightarrow> execution_graph \<Rightarrow> execution_result \<Rightarrow> runtime_report \<Rightarrow> int \<Rightarrow> reducer_error option" where
  "check_identity rec g x r now =
     first_err
       [guard (eg_step_index g = st_step_index rec) StepIndexMismatch, guard (eg_released_at_ps g = st_virtual_time_ps rec) ReleaseMismatch,
        guard (now = st_virtual_time_ps rec) ClockMismatch, guard (er_execution_id x = eg_execution_id g) ResultExecution,
        guard (rp_execution_id r = eg_execution_id g) ReportExecution, guard (eg_released_at_ps g \<le> er_completed_at_ps x) CompletesBeforeRelease,
        guard (case er_quiesced_at_ps x of None \<Rightarrow> True | Some q \<Rightarrow> er_completed_at_ps x \<le> q) QuiescesBeforeCompletion,
        guard (map ro_operation_id (rp_operations r) = map op_operation_id (eg_operations g)) OperationOrder,
        guard (distinct (map ro_operation_id (rp_operations r))) DuplicateRecords]"

definition check_path :: "int \<Rightarrow> runtime_report \<Rightarrow> segments \<Rightarrow> reducer_error option" where
  "check_path released r segs =
     (let chain = rp_realized_segments r in
      first_err
        [guard (list_all (\<lambda>key. map_of segs key \<noteq> None) chain) PathUnknownSegment,
         guard (map fst chain = rp_realized_operation_ids r) PathProjection,
         guard (continuous segs chain) PathDiscontinuous,
         guard (chain_conserves released segs chain) PathLatency,
         guard (chain_sum cb_critical_path_queue_ps segs chain = rp_critical_path_queue_ps r) PathQueue])"

definition check_completions :: "execution_graph \<Rightarrow> execution_result \<Rightarrow> runtime_report \<Rightarrow> reducer_error option" where
  "check_completions g x r =
     (case collect (\<lambda>k. case map_of (by_operation r) k of None \<Rightarrow> Inl ReducerKey | Some q \<Rightarrow> Inr (ro_completed_at_ps q)) (required_ids g) of
        Inl e \<Rightarrow> Some e
      | Inr ts \<Rightarrow>
          first_err
            (guard ((if ts = [] then eg_released_at_ps g else Max (set ts)) = er_completed_at_ps x) BoundaryMismatch
             # map (\<lambda>q. guard (map ce_timestamp_ps (logical_events x (ro_operation_id q)) = [ro_completed_at_ps q]) CompletionEventMismatch)
                 (rp_operations r)))"

definition validate_inputs :: "step_record \<Rightarrow> execution_graph \<Rightarrow> execution_result \<Rightarrow> runtime_report \<Rightarrow> int \<Rightarrow> reducer_error + segments" where
  "validate_inputs rec g x r now =
     rcheck (check_identity rec g x r now)
       (rbind (rfold (collect_record g r) (rp_operations r) []) (\<lambda>segs.
          rcheck (first_err
            (map (\<lambda>(_, s). reducer_link (eg_released_at_ps g) segs s) segs
             @ map (\<lambda>q. validate_scalar_projection q (by_operation r) (eg_released_at_ps g)) (rp_operations r)
             @ [check_path (eg_released_at_ps g) r segs,
                guard (list_all (\<lambda>v. qv_execution_id v = eg_execution_id g) (rp_visits r)) VisitExecution,
                guard (list_all (\<lambda>v. map_of (by_operation r) (qv_operation_id v) \<noteq> None) (rp_visits r)) VisitOperation,
                guard (av_queue_wait_ps (visit_totals (rp_visits r)) = rp_sum_visit_wait_ps r) VisitWait,
                ordered_events g (by_operation r) (er_quiesced_at_ps x) (-1) (er_events x),
                map_option StreamProjection (check_completion_event_projection g x r),
                check_completions g x r])) (Inr segs)))"

subsection \<open>Chains\<close>

definition critical_chain :: "string \<Rightarrow> (string, runtime_operation_record) dict \<Rightarrow> segments \<Rightarrow> int \<Rightarrow> reducer_error + (string \<times> int) list \<times> latency_attribution" where
  "critical_chain endpoint by_id segs released =
     (case map_of by_id endpoint of
        None \<Rightarrow> Inl ReducerKey
      | Some q \<Rightarrow>
          (case endpoint_segment q of
             None \<Rightarrow> Inl ReducerKey
           | Some s \<Rightarrow>
               (case follow_chain segs [] (Some (cs_operation_id s, cs_participant_rank s)) of
                  Inl CycleInChain \<Rightarrow> Inl ChainLoop
                | Inl MissingSegment \<Rightarrow> Inl ReducerKey
                | Inr reverse_chain \<Rightarrow>
                    (let chain = rev reverse_chain;
                         a = foldl add_attribution zero_attribution (List.map_filter (\<lambda>key. map_option cs_attribution (map_of segs key)) chain)
                     in if attribution_total_ps a \<noteq> ro_completed_at_ps q - released then Inl ChainUnconserved else Inr (chain, a)))))"

definition request_additive_totals :: "string \<Rightarrow> execution_graph \<Rightarrow> runtime_report \<Rightarrow> additive_visit_totals" where
  "request_additive_totals request g r =
     (let ids = map op_operation_id (filter (\<lambda>op. request \<in> set (oc_request_ids (op_correlation op))) (eg_operations g))
      in visit_totals (filter (\<lambda>v. qv_operation_id v \<in> set ids) (rp_visits r)))"

subsection \<open>Reduction\<close>

record 'a completion_reducer =
  rx_clock :: "'a virtual_clock"
  rx_lifetimes :: "lifetime_registry option"
  rx_request_arrivals :: "(string, int) dict option"
  rx_requests :: "(string, request_metric_state) dict"
  rx_consumed_execution_ids :: "string list"

definition new_reducer :: "'a virtual_clock \<Rightarrow> bookkeeping_ledger option \<Rightarrow> lifetime_registry option \<Rightarrow> bk_error + 'a completion_reducer" where
  "new_reducer clock bookkeeping lifetimes =
     rbind (case bookkeeping of
              None \<Rightarrow> Inr None
            | Some l \<Rightarrow> rbind (framework_request_arrivals l) (\<lambda>as. Inr (Some (map (\<lambda>a. (fa_request_id a, fa_arrived_at_ps a)) as)))) (\<lambda>arrivals.
       Inr \<lparr>rx_clock = clock, rx_lifetimes = lifetimes, rx_request_arrivals = arrivals, rx_requests = [], rx_consumed_execution_ids = []\<rparr>)"

definition latest_request_metrics :: "'a completion_reducer \<Rightarrow> request_metric list" where
  "latest_request_metrics d = List.map_filter (\<lambda>(_, s). ms_latest_metric s) (rx_requests d)"

definition check_arrival :: "step_record \<Rightarrow> (string, request_metric_state) dict \<Rightarrow> (string, int) dict option \<Rightarrow> scheduled_request \<Rightarrow> reducer_error option" where
  "check_arrival rec states arrivals q =
     (case arrivals of
        None \<Rightarrow> None
      | Some d \<Rightarrow>
          if map_of states (sr_request_id q) \<noteq> None then None
          else case map_of d (sr_request_id q) of
            None \<Rightarrow> Some NoArrival
          | Some t \<Rightarrow> guard (t \<le> st_virtual_time_ps rec) ArrivesLater)"

definition endpoint_of :: "execution_graph \<Rightarrow> (string, runtime_operation_record) dict \<Rightarrow> string \<Rightarrow> reducer_error + string" where
  "endpoint_of g by_id request =
     (let serves = (\<lambda>k. case map_of (operation_by_id (eg_operations g)) k of None \<Rightarrow> False
            | Some op \<Rightarrow> request \<in> set (oc_request_ids (op_correlation op)));
          key = (\<lambda>k. (case map_of by_id k of None \<Rightarrow> 0 | Some q \<Rightarrow> ro_completed_at_ps q, operation_position g k))
      in case filter serves (required_ids g) of
           [] \<Rightarrow> Inl NoEndpoint
         | k # ks \<Rightarrow> Inr (first_max key k ks))"

text \<open>
  A request that is not sampled carries its interval on; a sampled one closes it with a token whose
  latency is the elapsed time since the previous token, or since the request was first observed.
\<close>

definition sample_token :: "scheduled_request \<Rightarrow> int \<Rightarrow> latency_attribution \<Rightarrow> additive_visit_totals \<Rightarrow> request_metric_state
    \<Rightarrow> reducer_error + request_metric_state \<times> request_metric" where
  "sample_token q endpoint_at interval totals s =
     (let (latency, ttft, s1) =
            (case ms_first_token_at_ps s of
               None \<Rightarrow> (endpoint_at - ms_first_observed_at_ps s, endpoint_at - ms_first_observed_at_ps s, s\<lparr>ms_first_token_at_ps := Some endpoint_at\<rparr>)
             | Some first \<Rightarrow>
                 (let latency = endpoint_at - the (ms_last_token_at_ps s)
                  in (latency, first - ms_first_observed_at_ps s,
                      s\<lparr>ms_inter_token_sum_ps := ms_inter_token_sum_ps s + latency, ms_inter_token_count := ms_inter_token_count s + 1\<rparr>)))
      in if attribution_total_ps interval \<noteq> latency then Inl IntervalUnconserved
         else
           (let s2 = s1\<lparr>ms_token_count := ms_token_count s1 + 1, ms_last_token_at_ps := Some endpoint_at\<rparr>;
                metric = \<lparr>rm_request_id = sr_request_id q, rm_phase = sr_phase q, rm_token_index = ms_token_count s2,
                  rm_completed_at_ps = endpoint_at, rm_latency_ps = latency, rm_ttft_ps = ttft,
                  rm_tpot_ps = (if ms_inter_token_count s2 \<noteq> 0
                    then Some (of_int (ms_inter_token_sum_ps s2) / of_int (ms_inter_token_count s2)) else None),
                  rm_attribution = interval, rm_additive_visit_totals = totals\<rparr>
            in rcheck (map_option MetricInvalid (check_request_metric metric))
                 (Inr (s2\<lparr>ms_latest_metric := Some metric, ms_pending_attribution := zero_attribution,
                         ms_pending_additive := zero_visit_totals\<rparr>, metric))))"

definition reduce_request :: "step_record \<Rightarrow> execution_graph \<Rightarrow> runtime_report \<Rightarrow> segments \<Rightarrow> string list \<Rightarrow> (string, int) dict option \<Rightarrow> scheduled_request
    \<Rightarrow> (string, request_metric_state) dict \<times> request_metric list \<Rightarrow> reducer_error + (string, request_metric_state) dict \<times> request_metric list" where
  "reduce_request rec g r segs sampled arrivals q = (\<lambda>(states, metrics).
     let k = sr_request_id q; by_id = by_operation r; released = eg_released_at_ps g in
     rbind (endpoint_of g by_id k) (\<lambda>endpoint.
     rbind (critical_chain endpoint by_id segs released) (\<lambda>(chain, graph_attribution).
     rbind (case map_of by_id endpoint of None \<Rightarrow> Inl ReducerKey | Some e \<Rightarrow> Inr (ro_completed_at_ps e)) (\<lambda>endpoint_at.
     rbind (case map_of states k of
              Some s \<Rightarrow> Inr s
            | None \<Rightarrow> (case arrivals of None \<Rightarrow> Inr (new_metric_state (st_virtual_time_ps rec))
                | Some d \<Rightarrow> (case map_of d k of None \<Rightarrow> Inl ReducerKey | Some t \<Rightarrow> Inr (new_metric_state t)))) (\<lambda>s.
       if released < ms_accounted_through_ps s then Inl BackwardInTime
       else
         (let gap = released - ms_accounted_through_ps s;
              interval = add_attribution (add_attribution (ms_pending_attribution s) (zero_attribution\<lparr>la_queue_ps := gap\<rparr>)) graph_attribution;
              totals = add_visit_totals (ms_pending_additive s) (request_additive_totals k g r);
              s1 = s\<lparr>ms_accounted_through_ps := endpoint_at\<rparr>
          in if k \<notin> set sampled
             then Inr (AList.update k (s1\<lparr>ms_pending_attribution := interval, ms_pending_additive := totals\<rparr>) states, metrics)
             else rbind (sample_token q endpoint_at interval totals s1) (\<lambda>(s2, metric).
                    Inr (AList.update k s2 states, metrics @ [metric]))))))))"

definition project_step :: "'a completion_reducer \<Rightarrow> step_record \<Rightarrow> execution_graph \<Rightarrow> execution_result \<Rightarrow> runtime_report
    \<Rightarrow> reducer_error + (string, request_metric_state) dict \<times> step_result" where
  "project_step d rec g x r =
     (if eg_execution_id g \<in> set (rx_consumed_execution_ids d) then Inl AlreadyReduced
      else
        rbind (validate_inputs rec g x r (now_ps (rx_clock d))) (\<lambda>segs.
        rbind (sampled_request_ids rec) (\<lambda>sampled.
          rcheck (first_err (map (check_arrival rec (rx_requests d) (rx_request_arrivals d)) (st_scheduled rec)))
            (rbind (rfold (reduce_request rec g r segs sampled (rx_request_arrivals d)) (st_scheduled rec) (rx_requests d, [])) (\<lambda>(states, metrics).
               let result = \<lparr>re_step_index = st_step_index rec, re_step_latency_ps = er_completed_at_ps x - eg_released_at_ps g,
                             re_completed_at_ps = er_completed_at_ps x, re_request_metrics = metrics,
                             re_additive_visit_totals = Some (visit_totals (rp_visits r))\<rparr>
               in rcheck (map_option MetricInvalid (check_step_result result)) (Inr (states, result)))))))"

definition reduce :: "(string \<Rightarrow> bool) \<Rightarrow> 'a completion_reducer \<Rightarrow> step_record \<times> execution_graph \<times> execution_result \<times> runtime_report
    \<Rightarrow> 'a completion_reducer \<times> (reducer_error + step_result)" where
  "reduce cb d = (\<lambda>(rec, g, x, r).
     case project_step d rec g x r of
       Inl e \<Rightarrow> (d, Inl e)
     | Inr (states, result) \<Rightarrow>
         (case (case rx_lifetimes d of None \<Rightarrow> (None, Inr ())
                | Some l \<Rightarrow> (case consume_step cb l rec g x of (l', y) \<Rightarrow> (Some l', y))) of
            (lifetimes, Inl e) \<Rightarrow> (d\<lparr>rx_lifetimes := lifetimes\<rparr>, Inl (LifetimeRefused e))
          | (lifetimes, Inr _) \<Rightarrow>
              (case advance_to (rx_clock d) (er_completed_at_ps x) of
                 (c, Inl e) \<Rightarrow> (d\<lparr>rx_lifetimes := lifetimes, rx_clock := c\<rparr>, Inl (ClockRefused e))
               | (c, Inr _) \<Rightarrow>
                   (d\<lparr>rx_clock := c, rx_lifetimes := lifetimes, rx_requests := states,
                      rx_consumed_execution_ids := List.insert (eg_execution_id g) (rx_consumed_execution_ids d)\<rparr>, Inr result))))"

end
