(* ===== verification/Engine_Steps.thy ===== *)
theory Engine_Steps
  imports Clock Runtime_Records
begin

text \<open>
  The completion authority of whole-engine service visits (\<open>simllm/core/engine_steps.py\<close>): one pending
  step per engine, retirement in due order on a shared clock, and publication only inside a retirement.

  Python objects are shared and mutable here, and the class checks that nobody touched them, so the
  state has an explicit store: records, results and receipts are references into it, and a value
  snapshot (\<open>value_snapshot\<close>) is the value a reference has at that moment.  The clock, its owner mark and
  the store can be changed from outside at any time.  The callbacks of a step act on the whole state,
  so that calls back into the authority are covered; they are named by references and interpreted by
  the argument \<open>callbacks\<close>.  The token of a step in the clock's queue is its sequence number.
\<close>

datatype engine_error =
    Poisoned | RuntimeClosed | ClockReplaced | ClockMoved | ReceiptChanged | QueueChanged | DuringRetirement
  | ClockTaken | ClockNotEmpty | DueFirst | BlankEngine | EnginePending | StepUsed | StepRelease
  | PriceInvalid step_error | PriceMismatch | NoService | DrainWithoutIds | PublisherTwice | ReadFailed
  | GuardChanged | ValuesChanged | PublicationChanged | ClockSkip | OutsideRetirement | AlreadyPublished
  | UnboundPublication | ForeignReceipt | OutOfDueOrder | ForeignEvent | OmittedPublication
  | EngineClock clock_error | VisitInvalid record_error | PendingAtClose | StepCallbackRaised nat

subsection \<open>Data\<close>

record engine_step_receipt =
  rt_engine_id :: string
  rt_step_index :: int
  rt_sequence :: int
  rt_submitted_at_ps :: int
  rt_completed_at_ps :: int

text \<open>A receipt the authority issued is named by its sequence number; any other object is foreign.\<close>

datatype receipt_ref = Issued int | Foreign nat

record publication_binding =
  pb_publisher :: nat
  pb_payload :: nat
  pb_read_values :: nat

record 'v publication =
  pu_publisher :: nat
  pu_payload :: nat
  pu_read_values :: nat
  pu_state :: 'v

record 'v pending_step =
  ps_receipt :: receipt_ref
  ps_receipt_state :: engine_step_receipt
  ps_record :: nat
  ps_result :: nat
  ps_record_state :: step_record
  ps_result_state :: step_result
  ps_guard :: nat
  ps_publish :: nat
  ps_token :: int
  ps_publications :: "'v publication list"
  ps_publishers :: "nat list"

text \<open>The store; reading the values of a payload may raise (\<open>None\<close>).\<close>

record 'v objects =
  ob_receipts :: "receipt_ref \<Rightarrow> engine_step_receipt"
  ob_records :: "nat \<Rightarrow> step_record"
  ob_results :: "nat \<Rightarrow> step_result"
  ob_values :: "nat \<Rightarrow> nat \<Rightarrow> 'v option"

record 'v engine_runtime =
  ng_clock :: "int virtual_clock"
  ng_owner :: bool
  ng_objects :: "'v objects"
  ng_now_ps :: int
  ng_pending :: "(string, 'v pending_step) dict"
  ng_used :: "(string \<times> int) list"
  ng_sequence :: int
  ng_events :: "completion_event list"
  ng_visits :: "queue_visit list"
  ng_results :: "(receipt_ref \<times> step_result) list"
  ng_retiring :: "string option"
  ng_failure :: "engine_error option"
  ng_closed :: bool

record 'v callbacks =
  cb_guard :: "nat \<Rightarrow> 'v engine_runtime \<Rightarrow> 'v engine_runtime \<times> (engine_error + unit)"
  cb_publish :: "nat \<Rightarrow> nat \<Rightarrow> 'v engine_runtime \<Rightarrow> 'v engine_runtime \<times> (engine_error + unit)"

type_synonym ('v, 'a) engine_action = "'v engine_runtime \<Rightarrow> 'v engine_runtime \<times> (engine_error + 'a)"

definition ebind :: "('v, 'a) engine_action \<Rightarrow> ('a \<Rightarrow> ('v, 'b) engine_action) \<Rightarrow> ('v, 'b) engine_action" where
  "ebind m f st = (case m st of (st', Inl e) \<Rightarrow> (st', Inl e) | (st', Inr a) \<Rightarrow> f a st')"

definition echeck :: "engine_error option \<Rightarrow> ('v, 'a) engine_action \<Rightarrow> ('v, 'a) engine_action" where
  "echeck c m st = (case c of None \<Rightarrow> m st | Some e \<Rightarrow> (st, Inl e))"

subsection \<open>Construction and poisoning\<close>

definition new_engine_runtime :: "int virtual_clock \<Rightarrow> bool \<Rightarrow> 'v objects \<Rightarrow> engine_error + 'v engine_runtime" where
  "new_engine_runtime clock owned objects =
     (if owned then Inl ClockTaken
      else if clock_len clock \<noteq> 0 then Inl ClockNotEmpty
      else Inr \<lparr>ng_clock = clock, ng_owner = True, ng_objects = objects, ng_now_ps = now_ps clock, ng_pending = [], ng_used = [],
        ng_sequence = 0, ng_events = [], ng_visits = [], ng_results = [], ng_retiring = None, ng_failure = None, ng_closed = False\<rparr>)"

definition invalidate :: "engine_error \<Rightarrow> 'v engine_runtime \<Rightarrow> 'v engine_runtime" where
  "invalidate e st = (case ng_failure st of None \<Rightarrow> st\<lparr>ng_failure := Some e\<rparr> | Some _ \<Rightarrow> st)"

definition reject :: "engine_error \<Rightarrow> ('v, 'a) engine_action" where
  "reject e st = (invalidate e st, Inl e)"

text \<open>The \<open>try\<close> around the body of an operation: any exception poisons the run.\<close>

definition protect :: "('v, 'a) engine_action \<Rightarrow> ('v, 'a) engine_action" where
  "protect m st = (case m st of (st', Inl e) \<Rightarrow> (invalidate e st', Inl e) | (st', Inr a) \<Rightarrow> (st', Inr a))"

definition receipt_value :: "'v engine_runtime \<Rightarrow> 'v pending_step \<Rightarrow> engine_step_receipt" where
  "receipt_value st p = ob_receipts (ng_objects st) (ps_receipt p)"

definition active_steps :: "'v engine_runtime \<Rightarrow> (string, 'v pending_step) dict" where
  "active_steps st = filter (\<lambda>(k, p). ng_retiring st \<noteq> Some k) (ng_pending st)"

definition earliest_due :: "'v engine_runtime \<Rightarrow> int option" where
  "earliest_due st =
     (let due = map (\<lambda>(k, p). rt_completed_at_ps (receipt_value st p)) (active_steps st)
      in if due = [] then None else Some (Min (set due)))"

definition check_live :: "('v, unit) engine_action" where
  "check_live st =
     (if ng_failure st \<noteq> None then (st, Inl Poisoned)
      else if ng_closed st then (st, Inl RuntimeClosed)
      else if \<not> ng_owner st then reject ClockReplaced st
      else if now_ps (ng_clock st) \<noteq> ng_now_ps st then reject ClockMoved st
      else if list_ex (\<lambda>(k, p). receipt_value st p \<noteq> ps_receipt_state p) (ng_pending st) then reject ReceiptChanged st
      else if clock_len (ng_clock st) \<noteq> length (active_steps st) \<or> peek_next_time (ng_clock st) \<noteq> earliest_due st then reject QueueChanged st
      else (st, Inr ()))"

definition check_action :: "('v, unit) engine_action" where
  "check_action = ebind check_live (\<lambda>_ st. if ng_retiring st \<noteq> None then reject DuringRetirement st else (st, Inr ()))"

definition pending_for :: "'v engine_runtime \<Rightarrow> string \<Rightarrow> receipt_ref option" where
  "pending_for st engine = map_option ps_receipt (map_of (ng_pending st) engine)"

definition next_completion_ps :: "('v, int option) engine_action" where
  "next_completion_ps = ebind check_live (\<lambda>_ st. (st, Inr (peek_next_time (ng_clock st))))"

subsection \<open>Submission\<close>

definition publication_check :: "'v objects \<Rightarrow> nat list \<Rightarrow> 'v publication \<Rightarrow> engine_error option" where
  "publication_check obs publishers u =
     (if pu_publisher u \<in> set publishers then None
      else case ob_values obs (pu_read_values u) (pu_payload u) of
        None \<Rightarrow> Some ReadFailed
      | Some v \<Rightarrow> guard (v = pu_state u) PublicationChanged)"

definition check_values :: "'v objects \<Rightarrow> 'v pending_step \<Rightarrow> engine_error option" where
  "check_values obs p =
     first_err
       (guard (ob_receipts obs (ps_receipt p) = ps_receipt_state p \<and> ob_records obs (ps_record p) = ps_record_state p \<and>
          ob_results obs (ps_result p) = ps_result_state p) ValuesChanged
        # map (publication_check obs (ps_publishers p)) (ps_publications p))"

definition submit_checks :: "string \<Rightarrow> step_record \<Rightarrow> step_result \<Rightarrow> 'v engine_runtime \<Rightarrow> engine_error option" where
  "submit_checks engine r x st =
     first_err
       [guard (peek_next_time (ng_clock st) \<noteq> Some (ng_now_ps st)) DueFirst,
        guard (nonblank engine) BlankEngine,
        guard (map_of (ng_pending st) engine = None) EnginePending,
        guard ((engine, st_step_index r) \<notin> set (ng_used st)) StepUsed,
        guard (0 \<le> st_step_index r \<and> st_virtual_time_ps r = ng_now_ps st) StepRelease,
        map_option PriceInvalid (check_step_result x),
        guard (re_step_index x = st_step_index r \<and> re_completed_at_ps x = ng_now_ps st + re_step_latency_ps x) PriceMismatch,
        (if st_scheduled r \<noteq> [] then guard (0 < total_new_tokens r \<and> 0 < re_step_latency_ps x) NoService
         else guard (re_step_latency_ps x = 0 \<and> (st_finished_request_ids r \<noteq> [] \<or> st_preempted_request_ids r \<noteq> [])) DrainWithoutIds)]"

fun bind_publications :: "'v objects \<Rightarrow> 'v publication list \<Rightarrow> publication_binding list \<Rightarrow> engine_error + 'v publication list" where
  "bind_publications obs owned [] = Inr owned"
| "bind_publications obs owned (b # bs) =
     (if list_ex (\<lambda>u. pu_publisher u = pb_publisher b) owned then Inl PublisherTwice
      else case ob_values obs (pb_read_values b) (pb_payload b) of
        None \<Rightarrow> Inl ReadFailed
      | Some v \<Rightarrow> bind_publications obs (owned @ [\<lparr>pu_publisher = pb_publisher b, pu_payload = pb_payload b,
          pu_read_values = pb_read_values b, pu_state = v\<rparr>]) bs)"

definition step_text :: "int \<Rightarrow> string" where
  "step_text i = ''step-'' @ int_text i"

definition engine_event :: "engine_step_receipt \<Rightarrow> int \<Rightarrow> event_phase \<Rightarrow> completion_event" where
  "engine_event r at_ps phase =
     \<lparr>ce_execution_id = ''engine-service:'' @ rt_engine_id r, ce_operation_id = step_text (rt_step_index r), ce_phase = phase,
      ce_timestamp_ps = at_ps, ce_resource = Some \<lparr>rr_kind = GPU_WORK_QUEUE, rr_resource_id = rt_engine_id r\<rparr>,
      ce_completed_bytes = None, ce_subject_object_id = None\<rparr>"

definition enroll_step :: "string \<Rightarrow> 'v pending_step \<Rightarrow> ('v, receipt_ref) engine_action" where
  "enroll_step engine p st =
     (let receipt = ps_receipt_state p;
          st1 = st\<lparr>ng_pending := AList.update engine p (ng_pending st), ng_used := List.insert (engine, rt_step_index receipt) (ng_used st),
                  ng_sequence := ng_sequence st + 1\<rparr>
      in case Clock.schedule (ng_clock st1) (rt_completed_at_ps receipt) (ps_token p) of
           (c, Inl e) \<Rightarrow> (st1\<lparr>ng_clock := c\<rparr>, Inl (EngineClock e))
         | (c, Inr _) \<Rightarrow>
             (st1\<lparr>ng_clock := c, ng_events := ng_events st1 @ map (engine_event receipt (ng_now_ps st1)) [SUBMITTED, QUEUED, STARTED]\<rparr>,
              Inr (ps_receipt p)))"

text \<open>The end of a submission, after the guard: the receipt is issued and the slot reserved.\<close>

definition reserve_step :: "string \<Rightarrow> nat \<Rightarrow> nat \<Rightarrow> step_record \<Rightarrow> step_result \<Rightarrow> nat \<Rightarrow> nat \<Rightarrow> 'v publication list \<Rightarrow> ('v, receipt_ref) engine_action" where
  "reserve_step engine rec res r x grd pub pubs st =
     (if ob_records (ng_objects st) rec \<noteq> r \<or> ob_results (ng_objects st) res \<noteq> x then (st, Inl GuardChanged)
      else
        let receipt = \<lparr>rt_engine_id = engine, rt_step_index = st_step_index r, rt_sequence = ng_sequence st,
              rt_submitted_at_ps = ng_now_ps st, rt_completed_at_ps = re_completed_at_ps x\<rparr>;
            ref = Issued (ng_sequence st);
            st' = st\<lparr>ng_objects := (ng_objects st)\<lparr>ob_receipts := (ob_receipts (ng_objects st))(ref := receipt)\<rparr>\<rparr>;
            p = \<lparr>ps_receipt = ref, ps_receipt_state = receipt, ps_record = rec, ps_result = res, ps_record_state = r,
                 ps_result_state = x, ps_guard = grd, ps_publish = pub, ps_token = ng_sequence st, ps_publications = pubs,
                 ps_publishers = []\<rparr>
        in echeck (check_values (ng_objects st') p) (ebind check_action (\<lambda>_. enroll_step engine p)) st')"

definition prepare_step :: "'v callbacks \<Rightarrow> string \<Rightarrow> nat \<Rightarrow> nat \<Rightarrow> nat \<Rightarrow> nat \<Rightarrow> publication_binding list \<Rightarrow> ('v, receipt_ref) engine_action" where
  "prepare_step cb engine rec res grd pub bindings st =
     (let r = ob_records (ng_objects st) rec; x = ob_results (ng_objects st) res in
      echeck (submit_checks engine r x st)
        (\<lambda>st. case bind_publications (ng_objects st) [] bindings of
           Inl e \<Rightarrow> (st, Inl e)
         | Inr pubs \<Rightarrow> ebind (cb_guard cb grd) (\<lambda>_. reserve_step engine rec res r x grd pub pubs) st) st)"

definition submit_step :: "'v callbacks \<Rightarrow> string \<Rightarrow> nat \<Rightarrow> nat \<Rightarrow> nat \<Rightarrow> nat \<Rightarrow> publication_binding list \<Rightarrow> ('v, receipt_ref) engine_action" where
  "submit_step cb engine rec res grd pub bindings = ebind check_action (\<lambda>_. protect (prepare_step cb engine rec res grd pub bindings))"

subsection \<open>Time\<close>

definition advance_engine :: "int \<Rightarrow> ('v, unit) engine_action" where
  "advance_engine at_ps =
     ebind check_action (\<lambda>_ st.
       if at_ps < ng_now_ps st \<or> (case peek_next_time (ng_clock st) of None \<Rightarrow> False | Some due \<Rightarrow> due < at_ps) then reject ClockSkip st
       else case Clock.advance_to (ng_clock st) at_ps of
         (c, Inl e) \<Rightarrow> (st\<lparr>ng_clock := c\<rparr>, Inl (EngineClock e))
       | (c, Inr _) \<Rightarrow> (st\<lparr>ng_clock := c, ng_now_ps := at_ps\<rparr>, Inr ()))"

subsection \<open>Publication and retirement\<close>

definition claim_publication :: "receipt_ref \<Rightarrow> nat \<Rightarrow> nat \<Rightarrow> nat \<Rightarrow> nat \<Rightarrow> ('v, unit) engine_action" where
  "claim_publication ref publisher payload rec res =
     ebind check_live (\<lambda>_ st.
       case ng_retiring st of
         None \<Rightarrow> reject OutsideRetirement st
       | Some k \<Rightarrow>
           (case map_of (ng_pending st) k of
              None \<Rightarrow> reject OutsideRetirement st
            | Some p \<Rightarrow>
                if ps_receipt p \<noteq> ref \<or> ps_record p \<noteq> rec \<or> ps_result p \<noteq> res then reject OutsideRetirement st
                else if publisher \<in> set (ps_publishers p) then reject AlreadyPublished st
                else if \<not> list_ex (\<lambda>u. pu_publisher u = publisher \<and> pu_payload u = payload) (ps_publications p) then reject UnboundPublication st
                else protect (echeck (check_values (ng_objects st) p) (\<lambda>st.
                  (st\<lparr>ng_pending := AList.update k (p\<lparr>ps_publishers := ps_publishers p @ [publisher]\<rparr>) (ng_pending st)\<rparr>, Inr ()))) st))"

definition due_key :: "'v engine_runtime \<Rightarrow> 'v pending_step \<Rightarrow> int \<times> int" where
  "due_key st p = (rt_completed_at_ps (receipt_value st p), rt_sequence (receipt_value st p))"

definition next_pending :: "'v engine_runtime \<Rightarrow> string option" where
  "next_pending st =
     (case ng_pending st of
        [] \<Rightarrow> None
      | x # xs \<Rightarrow> Some (fst (foldl (\<lambda>b y. if due_key st (snd y) < due_key st (snd b) then y else b) x xs)))"

definition engine_visit :: "engine_step_receipt \<Rightarrow> int \<Rightarrow> queue_visit" where
  "engine_visit r at_ps =
     \<lparr>qv_execution_id = ''engine-service:'' @ rt_engine_id r, qv_operation_id = step_text (rt_step_index r),
      qv_resource = \<lparr>rr_kind = GPU_WORK_QUEUE, rr_resource_id = rt_engine_id r\<rparr>, qv_submitted_at_ps = rt_submitted_at_ps r,
      qv_eligible_at_ps = rt_submitted_at_ps r, qv_started_at_ps = rt_submitted_at_ps r, qv_finished_at_ps = at_ps,
      qv_completed_at_ps = at_ps, qv_service_bytes = 0, qv_subject_object_id = None, qv_stage = Some ''declared-whole-engine-service''\<rparr>"

definition finish_step :: "string \<Rightarrow> 'v pending_step \<Rightarrow> int \<Rightarrow> ('v, unit) engine_action" where
  "finish_step engine p at_ps st =
     (let r = receipt_value st p; v = engine_visit r at_ps in
      echeck (map_option VisitInvalid (check_visit v))
        (\<lambda>st. (st\<lparr>ng_visits := ng_visits st @ [v], ng_events := ng_events st @ map (engine_event r at_ps) [PROGRESS, COMPLETED],
           ng_results := ng_results st @ [(ps_receipt p, ob_results (ng_objects st) (ps_result p))],
           ng_pending := AList.delete engine (ng_pending st), ng_retiring := None\<rparr>, Inr ())) st)"

text \<open>Retirement from the publication on; the pending step is looked up again because claims have updated it.\<close>

definition settle_step :: "string \<Rightarrow> 'v pending_step \<Rightarrow> int \<Rightarrow> ('v, unit) engine_action" where
  "settle_step engine p at_ps st =
     (let q = (case map_of (ng_pending st) engine of None \<Rightarrow> p | Some q \<Rightarrow> q) in
      echeck (check_values (ng_objects st) q)
        (\<lambda>st. if length (ps_publishers q) \<noteq> length (ps_publications q) then (st, Inl OmittedPublication)
              else finish_step engine q at_ps st) st)"

definition publish_step :: "'v callbacks \<Rightarrow> string \<Rightarrow> 'v pending_step \<Rightarrow> int \<Rightarrow> ('v, unit) engine_action" where
  "publish_step cb engine p at_ps st =
     ebind (cb_publish cb (ps_publish p) (ps_result p)) (\<lambda>_. ebind check_live (\<lambda>_. settle_step engine p at_ps)) (st\<lparr>ng_retiring := Some engine\<rparr>)"

definition pop_step :: "'v callbacks \<Rightarrow> string \<Rightarrow> 'v pending_step \<Rightarrow> ('v, unit) engine_action" where
  "pop_step cb engine p st =
     (case pop_next (ng_clock st) of
        (c, Inl e) \<Rightarrow> (st\<lparr>ng_clock := c\<rparr>, Inl (EngineClock e))
      | (c, Inr (at_ps, token)) \<Rightarrow>
          if token \<noteq> ps_token p \<or> at_ps \<noteq> ng_now_ps st then (st\<lparr>ng_clock := c\<rparr>, Inl ForeignEvent)
          else publish_step cb engine p at_ps (st\<lparr>ng_clock := c\<rparr>))"

definition retire_step :: "'v callbacks \<Rightarrow> string \<Rightarrow> 'v pending_step \<Rightarrow> ('v, unit) engine_action" where
  "retire_step cb engine p st =
     echeck (check_values (ng_objects st) p)
       (ebind (cb_guard cb (ps_guard p)) (\<lambda>_ st.
          echeck (check_values (ng_objects st) p) (ebind check_action (\<lambda>_. pop_step cb engine p)) st)) st"

definition complete_step :: "'v callbacks \<Rightarrow> receipt_ref \<Rightarrow> ('v, unit) engine_action" where
  "complete_step cb ref =
     ebind check_action (\<lambda>_ st.
       let r = ob_receipts (ng_objects st) ref; engine = rt_engine_id r in
       case map_of (ng_pending st) engine of
         None \<Rightarrow> reject ForeignReceipt st
       | Some p \<Rightarrow>
           if ps_receipt p \<noteq> ref then reject ForeignReceipt st
           else if next_pending st \<noteq> Some engine \<or> rt_completed_at_ps r \<noteq> ng_now_ps st then reject OutOfDueOrder st
           else protect (retire_step cb engine p) st)"

definition complete_due :: "'v callbacks \<Rightarrow> ('v, receipt_ref list) engine_action" where
  "complete_due cb =
     ebind check_action (\<lambda>_ st.
       let due = map (\<lambda>(k, p). ps_receipt p)
             (sort_key (\<lambda>(k, p). rt_sequence (receipt_value st p))
               (filter (\<lambda>(k, p). rt_completed_at_ps (receipt_value st p) = ng_now_ps st) (ng_pending st)))
       in case run_all (\<lambda>s ref. complete_step cb ref s) st due of (st', Inl e) \<Rightarrow> (st', Inl e) | (st', Inr _) \<Rightarrow> (st', Inr due))"

definition close_engine :: "('v, unit) engine_action" where
  "close_engine st =
     (if ng_failure st \<noteq> None \<and> ng_pending st = [] \<and> clock_len (ng_clock st) = 0 \<and> ng_owner st
      then (st\<lparr>ng_closed := True, ng_owner := False\<rparr>, Inr ())
      else ebind check_action (\<lambda>_ st. if ng_pending st \<noteq> [] then reject PendingAtClose st
             else (st\<lparr>ng_closed := True, ng_owner := False\<rparr>, Inr ())) st)"

end
