(* ===== verification/Engine_Properties.thy ===== *)
theory Engine_Properties
  imports Engine_Steps Collective_Plan_Properties
begin

text \<open>
  The evidence of the engine authority is sound, whatever happens around it: the clock, its owner mark and
  the shared objects may be changed by anybody between and during the operations.  The callbacks are
  assumed to touch the authority's own state only through its methods: a guard not at all, a publication by
  claims.
\<close>

subsection \<open>Interference and histories\<close>

text \<open>What others can change.\<close>

definition outside :: "int virtual_clock \<Rightarrow> bool \<Rightarrow> 'v objects \<Rightarrow> 'v engine_runtime \<Rightarrow> 'v engine_runtime" where
  "outside c w obs st = st\<lparr>ng_clock := c, ng_owner := w, ng_objects := obs\<rparr>"

inductive publishing :: "'v engine_runtime \<Rightarrow> 'v engine_runtime \<Rightarrow> bool" for st where
  start: "publishing st st"
| interfere: "publishing st t \<Longrightarrow> publishing st (outside c w obs t)"
| claim: "publishing st t \<Longrightarrow> publishing st (fst (claim_publication ref u pl rec res t))"
| poison: "publishing st t \<Longrightarrow> publishing st (invalidate e t)"

definition lawful_callbacks :: "'v callbacks \<Rightarrow> bool" where
  "lawful_callbacks cb \<longleftrightarrow>
     (\<forall>g st. \<exists>c w obs. fst (cb_guard cb g st) = outside c w obs st) \<and> (\<forall>p x st. publishing st (fst (cb_publish cb p x st)))"

datatype 'v engine_op =
    Submit string nat nat nat nat "publication_binding list" | Advance int | Claim receipt_ref nat nat nat nat
  | Complete receipt_ref | CompleteDue | Invalidate engine_error | Close | Outside "int virtual_clock" bool "'v objects"

fun engine_step :: "'v callbacks \<Rightarrow> 'v engine_runtime \<Rightarrow> 'v engine_op \<Rightarrow> 'v engine_runtime \<times> (engine_error + receipt_ref list)" where
  "engine_step cb st (Submit k rec res g p bs) = map_prod id (map_sum id (\<lambda>r. [r])) (submit_step cb k rec res g p bs st)"
| "engine_step cb st (Advance t) = map_prod id (map_sum id (\<lambda>_. [])) (advance_engine t st)"
| "engine_step cb st (Claim ref u pl rec res) = map_prod id (map_sum id (\<lambda>_. [])) (claim_publication ref u pl rec res st)"
| "engine_step cb st (Complete ref) = map_prod id (map_sum id (\<lambda>_. [ref])) (complete_step cb ref st)"
| "engine_step cb st CompleteDue = complete_due cb st"
| "engine_step cb st (Invalidate e) = (invalidate e st, Inr [])"
| "engine_step cb st Close = map_prod id (map_sum id (\<lambda>_. [])) (close_engine st)"
| "engine_step cb st (Outside c w obs) = (outside c w obs st, Inr [])"

subsection \<open>The invariant\<close>

abbreviation visit_engine :: "queue_visit \<Rightarrow> string" where
  "visit_engine v \<equiv> rr_resource_id (qv_resource v)"

definition exclusive :: "queue_visit \<Rightarrow> queue_visit \<Rightarrow> bool" where
  "exclusive v w \<longleftrightarrow> (visit_engine v = visit_engine w \<longrightarrow> qv_completed_at_ps v \<le> qv_started_at_ps w)"

definition waiting_ok :: "int \<Rightarrow> (string \<times> int) list \<Rightarrow> queue_visit list \<Rightarrow> string \<Rightarrow> 'v pending_step \<Rightarrow> bool" where
  "waiting_ok now used visits k p \<longleftrightarrow>
     (let r = ps_receipt_state p in
      rt_engine_id r = k \<and> (k, rt_step_index r) \<in> set used \<and> (k, step_text (rt_step_index r)) \<notin> (\<lambda>v. (visit_engine v, qv_operation_id v)) ` set visits \<and>
      rt_submitted_at_ps r \<le> now \<and> now \<le> rt_completed_at_ps r \<and>
      (\<forall>v \<in> set visits. visit_engine v = k \<longrightarrow> qv_completed_at_ps v \<le> rt_submitted_at_ps r))"

definition evidence_inv :: "'v engine_runtime \<Rightarrow> bool" where
  "evidence_inv st \<longleftrightarrow>
     dict_ok (ng_pending st) \<and> (\<forall>(k, p) \<in> set (ng_pending st). waiting_ok (ng_now_ps st) (ng_used st) (ng_visits st) k p) \<and>
     distinct (map (\<lambda>v. (visit_engine v, qv_operation_id v)) (ng_visits st)) \<and>
     (\<forall>v \<in> set (ng_visits st). (\<exists>i. (visit_engine v, i) \<in> set (ng_used st) \<and> qv_operation_id v = step_text i) \<and> qv_completed_at_ps v \<le> ng_now_ps st) \<and>
     sorted (map qv_completed_at_ps (ng_visits st)) \<and> sorted_wrt exclusive (ng_visits st) \<and>
     sorted (map ce_timestamp_ps (ng_events st)) \<and> (\<forall>e \<in> set (ng_events st). ce_timestamp_ps e \<le> ng_now_ps st) \<and>
     length (ng_results st) = length (ng_visits st)"

lemma inv_outside [simp]: "evidence_inv (outside c w obs st) = evidence_inv st"
  by (simp add: evidence_inv_def outside_def)

lemma inv_fields [simp]:
  "evidence_inv (st\<lparr>ng_clock := c\<rparr>) = evidence_inv st" "evidence_inv (st\<lparr>ng_objects := obs\<rparr>) = evidence_inv st"
  "evidence_inv (st\<lparr>ng_retiring := k\<rparr>) = evidence_inv st" "evidence_inv (st\<lparr>ng_failure := f\<rparr>) = evidence_inv st"
  "evidence_inv (st\<lparr>ng_closed := b, ng_owner := w\<rparr>) = evidence_inv st"
  by (simp_all add: evidence_inv_def)

lemma inv_invalidate [simp]: "evidence_inv (invalidate e st) = evidence_inv st"
  by (simp add: invalidate_def split: option.splits)

subsection \<open>A calculus for actions\<close>

text \<open>\<open>ensures m P Q st\<close>: run from \<open>st\<close>, the action leaves a state with \<open>P\<close> when it raises and \<open>Q\<close> when it returns.\<close>

definition ensures :: "('v, 'a) engine_action \<Rightarrow> ('v engine_runtime \<Rightarrow> bool) \<Rightarrow> ('a \<Rightarrow> 'v engine_runtime \<Rightarrow> bool) \<Rightarrow> 'v engine_runtime \<Rightarrow> bool" where
  "ensures m P Q st = (case m st of (st', Inl _) \<Rightarrow> P st' | (st', Inr a) \<Rightarrow> Q a st')"

lemma ensures_ebind: "ensures m P (\<lambda>a. ensures (f a) P Q) st \<Longrightarrow> ensures (ebind m f) P Q st"
  by (auto simp: ensures_def ebind_def split: prod.splits sum.splits)

lemma ensures_echeck: "P st \<Longrightarrow> (c = None \<Longrightarrow> ensures m P Q st) \<Longrightarrow> ensures (echeck c m) P Q st"
  by (auto simp: ensures_def echeck_def split: option.splits)

lemma ensures_protect: "ensures m evidence_inv Q st \<Longrightarrow> ensures (protect m) evidence_inv Q st"
  by (auto simp: ensures_def protect_def split: prod.splits sum.splits)

lemma ensures_reject [simp]: "ensures (reject e) evidence_inv Q st = evidence_inv st"
  by (simp add: ensures_def reject_def)

lemma ensures_mono: "ensures m P Q st \<Longrightarrow> (\<And>a t. Q a t \<Longrightarrow> R a t) \<Longrightarrow> ensures m P R st"
  by (auto simp: ensures_def split: prod.splits sum.splits)

lemma ensures_inv: "ensures m evidence_inv (\<lambda>_. evidence_inv) st \<Longrightarrow> evidence_inv (fst (m st))"
  by (auto simp: ensures_def split: prod.splits sum.splits)

text \<open>What a passed check says.\<close>

definition live :: "'v engine_runtime \<Rightarrow> bool" where
  "live st \<longleftrightarrow> (\<forall>(k, p) \<in> set (ng_pending st). receipt_value st p = ps_receipt_state p) \<and> peek_next_time (ng_clock st) = earliest_due st"

lemma check_live_ensures: "evidence_inv st \<Longrightarrow> ensures check_live evidence_inv (\<lambda>_ t. t = st \<and> live st) st"
  by (auto simp: ensures_def check_live_def reject_def live_def list_ex_iff)

lemma check_action_ensures: "evidence_inv st \<Longrightarrow> ensures check_action evidence_inv (\<lambda>_ t. t = st \<and> live st \<and> ng_retiring st = None) st"
  unfolding check_action_def by (rule ensures_ebind, rule ensures_mono [OF check_live_ensures]) (auto simp: ensures_def reject_def)

subsection \<open>What a publication may change\<close>

definition same_evidence :: "'v engine_runtime \<Rightarrow> 'v engine_runtime \<Rightarrow> bool" where
  "same_evidence st t \<longleftrightarrow>
     ng_now_ps t = ng_now_ps st \<and> ng_used t = ng_used st \<and> ng_visits t = ng_visits st \<and> ng_events t = ng_events st \<and> ng_results t = ng_results st \<and>
     map (\<lambda>(k, p). (k, ps_receipt_state p)) (ng_pending t) = map (\<lambda>(k, p). (k, ps_receipt_state p)) (ng_pending st)"

lemma same_evidence_trans: "same_evidence st t \<Longrightarrow> same_evidence t u \<Longrightarrow> same_evidence st u"
  by (simp add: same_evidence_def)

lemma same_evidence_fields [simp]:
  "same_evidence st st" "same_evidence st (outside c w obs t) = same_evidence st t" "same_evidence st (t\<lparr>ng_failure := f\<rparr>) = same_evidence st t"
  by (simp_all add: same_evidence_def outside_def)

lemma same_evidence_invalidate [simp]: "same_evidence st (invalidate e t) = same_evidence st t"
  by (simp add: invalidate_def split: option.splits)

lemma update_same_state:
  "map_of d k = Some p \<Longrightarrow> ps_receipt_state q = ps_receipt_state p \<Longrightarrow>
   map (\<lambda>(k, p). (k, ps_receipt_state p)) (AList.update k q d) = map (\<lambda>(k, p). (k, ps_receipt_state p)) d"
  by (induction d) (auto split: if_splits)

lemma same_evidence_claim:
  "same_evidence st t \<Longrightarrow> map_of (ng_pending t) k = Some p \<Longrightarrow> ps_receipt_state q = ps_receipt_state p \<Longrightarrow>
   same_evidence st (t\<lparr>ng_pending := AList.update k q (ng_pending t)\<rparr>)"
  by (simp add: same_evidence_def update_same_state)

lemma claim_same_evidence: "same_evidence st (fst (claim_publication ref u pl rec res st))"
proof -
  have "same_evidence st (fst (check_live st))" by (simp add: check_live_def reject_def)
  then have body: "same_evidence st t" if "check_live st = (t, r)" for t r using that by simp
  show ?thesis
    by (auto simp: claim_publication_def ebind_def reject_def protect_def echeck_def intro: same_evidence_claim
        dest!: body split: prod.splits sum.splits option.splits if_splits)
qed

lemma publishing_same: "publishing st t \<Longrightarrow> same_evidence st t"
  by (induction rule: publishing.induct) (auto intro: same_evidence_trans claim_same_evidence)

lemma pending_same:
  assumes "same_evidence st t"
  shows "dict_ok (ng_pending t) = dict_ok (ng_pending st)"
    "(\<forall>(k, p) \<in> set (ng_pending t). waiting_ok now used vs k p) = (\<forall>(k, p) \<in> set (ng_pending st). waiting_ok now used vs k p)"
proof -
  let ?f = "\<lambda>(k, p). (k, ps_receipt_state p)"
  have m: "map ?f (ng_pending t) = map ?f (ng_pending st)" using assms by (simp add: same_evidence_def)
  have "map fst (map ?f d) = map fst d" for d :: "(string, 'a pending_step) dict" by (induction d) auto
  then show "dict_ok (ng_pending t) = dict_ok (ng_pending st)" using m by metis
  have all: "(\<forall>(k, p) \<in> set d. waiting_ok now used vs k p) = (\<forall>(k, r) \<in> set (map ?f d). waiting_ok now used vs k (undefined\<lparr>ps_receipt_state := r\<rparr> :: 'a pending_step))"
    for d :: "(string, 'a pending_step) dict" by (auto simp: waiting_ok_def Let_def)
  show "(\<forall>(k, p) \<in> set (ng_pending t). waiting_ok now used vs k p) = (\<forall>(k, p) \<in> set (ng_pending st). waiting_ok now used vs k p)"
    unfolding all m ..
qed

lemma inv_same: "same_evidence st t \<Longrightarrow> evidence_inv t = evidence_inv st"
  using pending_same [of st t] by (simp add: evidence_inv_def same_evidence_def)

lemma lookup_same:
  assumes "same_evidence st t" "map_of (ng_pending st) k = Some p"
  shows "\<exists>q. map_of (ng_pending t) k = Some q \<and> ps_receipt_state q = ps_receipt_state p"
proof -
  have l: "map_of (map (\<lambda>(k, p). (k, ps_receipt_state p)) d) k = map_option ps_receipt_state (map_of d k)" for d :: "(string, 'a pending_step) dict"
    by (induction d) auto
  have "map_option ps_receipt_state (map_of (ng_pending t) k) = Some (ps_receipt_state p)"
    using assms l [of "ng_pending t"] l [of "ng_pending st"] by (simp add: same_evidence_def)
  then show ?thesis by auto
qed

subsection \<open>The operations keep the invariant\<close>

lemma enroll_inv:
  assumes i: "evidence_inv st" and w: "map_of (ng_pending st) k = None" "(k, rt_step_index (ps_receipt_state p)) \<notin> set (ng_used st)"
    "rt_engine_id (ps_receipt_state p) = k" "rt_submitted_at_ps (ps_receipt_state p) = ng_now_ps st" "ng_now_ps st \<le> rt_completed_at_ps (ps_receipt_state p)"
  shows "ensures (enroll_step k p) evidence_inv (\<lambda>_. evidence_inv) st"
proof -
  let ?r = "ps_receipt_state p"
  let ?st = "st\<lparr>ng_pending := AList.update k p (ng_pending st), ng_used := List.insert (k, rt_step_index ?r) (ng_used st), ng_sequence := ng_sequence st + 1\<rparr>"
  have pend: "AList.update k p (ng_pending st) = ng_pending st @ [(k, p)]" using w(1) by (simp add: map_of_eq_None_iff update_append_fresh)
  have key: "(k, step_text (rt_step_index ?r)) \<notin> (\<lambda>v. (visit_engine v, qv_operation_id v)) ` set (ng_visits st)"
  proof
    assume "(k, step_text (rt_step_index ?r)) \<in> (\<lambda>v. (visit_engine v, qv_operation_id v)) ` set (ng_visits st)"
    then obtain v where v: "v \<in> set (ng_visits st)" "visit_engine v = k" "qv_operation_id v = step_text (rt_step_index ?r)" by auto
    then obtain j where "(k, j) \<in> set (ng_used st)" "step_text j = step_text (rt_step_index ?r)" using i by (force simp: evidence_inv_def)
    then show False using w(2) by (simp add: step_text_def)
  qed
  have old: "waiting_ok (ng_now_ps st) (List.insert (k, rt_step_index ?r) (ng_used st)) (ng_visits st) j q" if "(j, q) \<in> set (ng_pending st)" for j q
    using i that by (fastforce simp: evidence_inv_def waiting_ok_def Let_def)
  have new: "waiting_ok (ng_now_ps st) (List.insert (k, rt_step_index ?r) (ng_used st)) (ng_visits st) k p"
    using i w(3-5) key by (auto simp: evidence_inv_def waiting_ok_def Let_def)
  have inv: "evidence_inv (?st\<lparr>ng_clock := c, ng_events := ng_events ?st @ es\<rparr>)"
    if "sorted (map ce_timestamp_ps es)" "\<forall>e \<in> set es. ce_timestamp_ps e = ng_now_ps st" for c es
    using i that old new w(1) pend unfolding evidence_inv_def
    by (auto simp: map_of_eq_None_iff sorted_append)
  show ?thesis using inv [of "[]"] inv [of "map (engine_event ?r (ng_now_ps st)) [SUBMITTED, QUEUED, STARTED]"]
    by (auto simp: ensures_def enroll_step_def Let_def engine_event_def split: prod.splits sum.splits)
qed

lemma engine_reserve_inv:
  assumes i: "evidence_inv st" and w: "map_of (ng_pending st) k = None" "(k, st_step_index r) \<notin> set (ng_used st)" "ng_now_ps st \<le> re_completed_at_ps x"
  shows "ensures (reserve_step k rec res r x g p pubs) evidence_inv (\<lambda>_. evidence_inv) st"
proof -
  have enroll: "ensures (ebind check_action (\<lambda>_. enroll_step k q)) evidence_inv (\<lambda>_. evidence_inv) (st\<lparr>ng_objects := obs\<rparr>)"
    if q: "ps_receipt_state q = \<lparr>rt_engine_id = k, rt_step_index = st_step_index r, rt_sequence = n, rt_submitted_at_ps = ng_now_ps st,
      rt_completed_at_ps = re_completed_at_ps x\<rparr>" for q obs n
  proof (rule ensures_ebind, rule ensures_mono [OF check_action_ensures])
    show it: "evidence_inv (st\<lparr>ng_objects := obs\<rparr>)" using i by simp
    show "ensures (enroll_step k q) evidence_inv (\<lambda>_. evidence_inv) u"
      if "u = st\<lparr>ng_objects := obs\<rparr> \<and> live (st\<lparr>ng_objects := obs\<rparr>) \<and> ng_retiring (st\<lparr>ng_objects := obs\<rparr>) = None" for u
      using that it w by (intro enroll_inv) (simp_all add: q)
  qed
  let ?receipt = "\<lparr>rt_engine_id = k, rt_step_index = st_step_index r, rt_sequence = ng_sequence st, rt_submitted_at_ps = ng_now_ps st,
    rt_completed_at_ps = re_completed_at_ps x\<rparr>"
  have "ensures (echeck c (ebind check_action (\<lambda>_. enroll_step k q))) evidence_inv (\<lambda>_. evidence_inv) (st\<lparr>ng_objects := obs\<rparr>)"
    if "ps_receipt_state q = ?receipt" for c q obs using i by (intro ensures_echeck enroll [OF that]) simp
  then show ?thesis using i by (auto simp: reserve_step_def Let_def ensures_def [of "reserve_step _ _ _ _ _ _ _ _"] ensures_def [of "echeck _ _"])
qed

lemma submit_inv:
  assumes cb: "lawful_callbacks cb" and i: "evidence_inv st"
  shows "ensures (submit_step cb k rec res g p bs) evidence_inv (\<lambda>_. evidence_inv) st"
  unfolding submit_step_def
proof (rule ensures_ebind, rule ensures_mono [OF check_action_ensures [OF i]], rule ensures_protect, clarify)
  let ?r = "ob_records (ng_objects st) rec" and ?x = "ob_results (ng_objects st) res"
  have guarded: "ensures (ebind (cb_guard cb g) (\<lambda>_. reserve_step k rec res ?r ?x g p pubs)) evidence_inv (\<lambda>_. evidence_inv) st"
    if c: "submit_checks k ?r ?x st = None" for pubs
  proof (rule ensures_ebind)
    have checks: "map_of (ng_pending st) k = None" "(k, st_step_index ?r) \<notin> set (ng_used st)" "ng_now_ps st \<le> re_completed_at_ps ?x"
      using c by (auto simp: submit_checks_def check_step_result_def require_nonnegative_int_def)
    obtain c w obs where out: "fst (cb_guard cb g st) = outside c w obs st" using cb unfolding lawful_callbacks_def by blast
    have "ensures (reserve_step k rec res ?r ?x g p pubs) evidence_inv (\<lambda>_. evidence_inv) (outside c w obs st)"
      using i checks by (intro engine_reserve_inv) (simp_all, simp_all add: outside_def)
    then show "ensures (cb_guard cb g) evidence_inv (\<lambda>_. ensures (reserve_step k rec res ?r ?x g p pubs) evidence_inv (\<lambda>_. evidence_inv)) st"
      using out i by (auto simp: ensures_def [of "cb_guard cb g"] split: prod.splits sum.splits)
  qed
  have "ensures (\<lambda>st. case bind_publications (ng_objects st) [] bs of Inl e \<Rightarrow> (st, Inl e)
      | Inr pubs \<Rightarrow> ebind (cb_guard cb g) (\<lambda>_. reserve_step k rec res ?r ?x g p pubs) st) evidence_inv (\<lambda>_. evidence_inv) st"
    if "submit_checks k ?r ?x st = None"
    using guarded [OF that] i by (cases "bind_publications (ng_objects st) [] bs") (simp_all add: ensures_def)
  then have "ensures (echeck (submit_checks k ?r ?x st) (\<lambda>st. case bind_publications (ng_objects st) [] bs of Inl e \<Rightarrow> (st, Inl e)
      | Inr pubs \<Rightarrow> ebind (cb_guard cb g) (\<lambda>_. reserve_step k rec res ?r ?x g p pubs) st)) evidence_inv (\<lambda>_. evidence_inv) st"
    using i by (intro ensures_echeck)
  then show "ensures (prepare_step cb k rec res g p bs) evidence_inv (\<lambda>_. evidence_inv) st"
    by (simp add: ensures_def prepare_step_def Let_def)
qed

lemma advance_inv:
  assumes i: "evidence_inv st" shows "ensures (advance_engine t) evidence_inv (\<lambda>_. evidence_inv) st"
  unfolding advance_engine_def
proof (rule ensures_ebind, rule ensures_mono [OF check_action_ensures [OF i]], clarify)
  assume l: "live st" "ng_retiring st = None"
  have "evidence_inv (st\<lparr>ng_clock := c, ng_now_ps := t\<rparr>)"
    if t: "ng_now_ps st \<le> t" "\<not> (case peek_next_time (ng_clock st) of None \<Rightarrow> False | Some due \<Rightarrow> due < t)" for c
  proof -
    have due: "t \<le> rt_completed_at_ps (ps_receipt_state p)" if p: "(k, p) \<in> set (ng_pending st)" for k p
    proof -
      let ?D = "map (\<lambda>(k, p). rt_completed_at_ps (receipt_value st p)) (ng_pending st)"
      have "receipt_value st p = ps_receipt_state p" using l(1) p by (auto simp: live_def)
      then have mem: "rt_completed_at_ps (ps_receipt_state p) \<in> set ?D" using p by force
      then have "earliest_due st = Some (Min (set ?D))" using l(2) by (auto simp: earliest_due_def active_steps_def Let_def)
      then have "t \<le> Min (set ?D)" using t(2) l(1) by (auto simp: live_def)
      then show ?thesis using Min_le [OF _ mem] by simp
    qed
    have "waiting_ok t (ng_used st) (ng_visits st) k p" if p: "(k, p) \<in> set (ng_pending st)" for k p
      using i p due [OF p] t(1) by (fastforce simp: evidence_inv_def waiting_ok_def Let_def)
    then show ?thesis using i t(1) by (fastforce simp: evidence_inv_def)
  qed
  then show "ensures (\<lambda>st. if t < ng_now_ps st \<or> (case peek_next_time (ng_clock st) of None \<Rightarrow> False | Some due \<Rightarrow> due < t) then reject ClockSkip st
       else case Clock.advance_to (ng_clock st) t of
         (c, Inl e) \<Rightarrow> (st\<lparr>ng_clock := c\<rparr>, Inl (EngineClock e))
       | (c, Inr _) \<Rightarrow> (st\<lparr>ng_clock := c, ng_now_ps := t\<rparr>, Inr ())) evidence_inv (\<lambda>_. evidence_inv) st"
    using i by (auto simp: ensures_def reject_def split: prod.splits sum.splits)
qed

lemma finish_inv:
  assumes i: "evidence_inv st" and p: "map_of (ng_pending st) k = Some p" "receipt_value st p = ps_receipt_state p"
  shows "ensures (finish_step k p (ng_now_ps st)) evidence_inv (\<lambda>_. evidence_inv) st"
proof -
  let ?r = "ps_receipt_state p" let ?v = "engine_visit ?r (ng_now_ps st)"
  have mem: "(k, p) \<in> set (ng_pending st)" using p(1) by (rule map_of_SomeD)
  have d: "dict_ok (ng_pending st)" using i by (simp add: evidence_inv_def)
  have w: "rt_engine_id ?r = k" "(k, rt_step_index ?r) \<in> set (ng_used st)" "rt_submitted_at_ps ?r \<le> ng_now_ps st"
    "(k, step_text (rt_step_index ?r)) \<notin> (\<lambda>v. (visit_engine v, qv_operation_id v)) ` set (ng_visits st)"
    "\<And>v. v \<in> set (ng_visits st) \<Longrightarrow> visit_engine v = k \<Longrightarrow> qv_completed_at_ps v \<le> rt_submitted_at_ps ?r"
    using i mem by (auto simp: evidence_inv_def waiting_ok_def Let_def)
  have v: "visit_engine ?v = k" "qv_operation_id ?v = step_text (rt_step_index ?r)" "qv_completed_at_ps ?v = ng_now_ps st" "qv_started_at_ps ?v = rt_submitted_at_ps ?r"
    using w(1) by (simp_all add: engine_visit_def)
  have rest: "waiting_ok (ng_now_ps st) (ng_used st) (ng_visits st @ [?v]) j q" if "(j, q) \<in> set (AList.delete k (ng_pending st))" for j q
  proof -
    have jq: "(j, q) \<in> set (ng_pending st)" "j \<noteq> k" using that by (auto simp: AList.delete_eq)
    then have "waiting_ok (ng_now_ps st) (ng_used st) (ng_visits st) j q" using i by (auto simp: evidence_inv_def)
    then show ?thesis using jq(2) v(1) by (auto simp: waiting_ok_def Let_def)
  qed
  have "evidence_inv (st\<lparr>ng_visits := ng_visits st @ [?v], ng_events := ng_events st @ map (engine_event ?r (ng_now_ps st)) [PROGRESS, COMPLETED],
      ng_results := ng_results st @ [y], ng_pending := AList.delete k (ng_pending st), ng_retiring := None\<rparr>)" for y
    unfolding evidence_inv_def
  proof (simp, intro conjI)
    show "dict_ok (AList.delete k (ng_pending st))" using d by (simp add: distinct_delete)
    show "\<forall>x \<in> set (AList.delete k (ng_pending st)). case x of (j, q) \<Rightarrow> waiting_ok (ng_now_ps st) (ng_used st) (ng_visits st @ [?v]) j q" using rest by auto
    show "sorted (map qv_completed_at_ps (ng_visits st) @ [qv_completed_at_ps ?v])" using i v(3) by (auto simp: evidence_inv_def sorted_append)
    show "sorted_wrt exclusive (ng_visits st @ [?v])" using i w(5) v by (auto simp: evidence_inv_def sorted_wrt_append exclusive_def)
    show "(\<exists>j. (visit_engine ?v, j) \<in> set (ng_used st) \<and> qv_operation_id ?v = step_text j)" using w(2) v by auto
  qed (use i w(4) v in \<open>auto simp: evidence_inv_def engine_event_def sorted_append\<close>)
  then show ?thesis using i by (auto simp: ensures_def finish_step_def Let_def echeck_def p(2) split: option.splits)
qed

lemma settle_inv:
  assumes i: "evidence_inv st" and l: "live st" and p: "map_of (ng_pending st) k = Some q"
  shows "ensures (settle_step k p (ng_now_ps st)) evidence_inv (\<lambda>_. evidence_inv) st"
proof -
  have "receipt_value st q = ps_receipt_state q" using l map_of_SomeD [OF p] by (auto simp: live_def)
  then have f: "ensures (finish_step k q (ng_now_ps st)) evidence_inv (\<lambda>_. evidence_inv) st" by (rule finish_inv [OF i p])
  show ?thesis using i f p by (auto simp: ensures_def settle_step_def Let_def echeck_def split: option.splits)
qed

lemma publish_inv:
  assumes cb: "lawful_callbacks cb" and i: "evidence_inv st" and p: "map_of (ng_pending st) k = Some p" and t: "t = ng_now_ps st"
  shows "ensures (publish_step cb k p t) evidence_inv (\<lambda>_. evidence_inv) st"
proof -
  let ?st = "st\<lparr>ng_retiring := Some k\<rparr>"
  have pub: "publishing ?st (fst (cb_publish cb (ps_publish p) (ps_result p) ?st))" using cb by (simp add: lawful_callbacks_def)
  have after: "evidence_inv u \<and> ng_now_ps u = t \<and> (\<exists>q. map_of (ng_pending u) k = Some q)" if "publishing ?st u" for u
  proof -
    have s: "same_evidence ?st u" using that by (rule publishing_same)
    have "evidence_inv u" using inv_same [OF s] i by simp
    moreover have "\<exists>q. map_of (ng_pending u) k = Some q" using lookup_same [OF s, of k p] p by auto
    ultimately show ?thesis using s t by (simp add: same_evidence_def)
  qed
  have "ensures (ebind check_live (\<lambda>_. settle_step k p t)) evidence_inv (\<lambda>_. evidence_inv) u" if u: "publishing ?st u" for u
  proof (rule ensures_ebind, rule ensures_mono [OF check_live_ensures], use after [OF u] in blast, clarify)
    assume "live u"
    obtain q where q: "map_of (ng_pending u) k = Some q" using after [OF u] by blast
    show "ensures (settle_step k p t) evidence_inv (\<lambda>_. evidence_inv) u" using settle_inv [OF _ \<open>live u\<close> q, of p] after [OF u] by simp
  qed
  then have "ensures (ebind (cb_publish cb (ps_publish p) (ps_result p)) (\<lambda>_. ebind check_live (\<lambda>_. settle_step k p t))) evidence_inv (\<lambda>_. evidence_inv) ?st"
    using pub after by (intro ensures_ebind) (auto simp: ensures_def [of "cb_publish _ _ _"] split: prod.splits sum.splits)
  then show ?thesis by (simp add: ensures_def publish_step_def)
qed

lemma engine_retire_inv:
  assumes cb: "lawful_callbacks cb" and i: "evidence_inv st" and p: "map_of (ng_pending st) k = Some p"
  shows "ensures (retire_step cb k p) evidence_inv (\<lambda>_. evidence_inv) st"
proof -
  obtain c w obs where out: "fst (cb_guard cb (ps_guard p) st) = outside c w obs st" using cb unfolding lawful_callbacks_def by blast
  let ?t = "outside c w obs st"
  have pop: "ensures (pop_step cb k p) evidence_inv (\<lambda>_. evidence_inv) ?t"
  proof (cases "pop_next (ng_clock ?t)")
    case (Pair d r)
    have pub: "ensures (publish_step cb k p (ng_now_ps ?t)) evidence_inv (\<lambda>_. evidence_inv) (?t\<lparr>ng_clock := d\<rparr>)"
      using i p by (intro publish_inv cb) (simp_all, simp_all add: outside_def)
    show ?thesis using i pub by (cases r) (auto simp: ensures_def pop_step_def Pair split: prod.splits)
  qed
  have it: "evidence_inv ?t" using i by simp
  have act: "ensures (ebind check_action (\<lambda>_. pop_step cb k p)) evidence_inv (\<lambda>_. evidence_inv) ?t"
    by (rule ensures_ebind, rule ensures_mono [OF check_action_ensures [OF it]]) (use pop in auto)
  have chk: "ensures (\<lambda>st. echeck (check_values (ng_objects st) p) (ebind check_action (\<lambda>_. pop_step cb k p)) st) evidence_inv (\<lambda>_. evidence_inv) ?t"
    using ensures_echeck [where P = evidence_inv and m = "ebind check_action (\<lambda>_. pop_step cb k p)", OF it act] by (simp add: ensures_def)
  have "ensures (ebind (cb_guard cb (ps_guard p)) (\<lambda>_ st. echeck (check_values (ng_objects st) p) (ebind check_action (\<lambda>_. pop_step cb k p)) st)) evidence_inv (\<lambda>_. evidence_inv) st"
    using out it chk by (intro ensures_ebind) (auto simp: ensures_def [of "cb_guard _ _"] split: prod.splits sum.splits)
  then show ?thesis using i ensures_echeck [where P = evidence_inv and c = "check_values (ng_objects st) p"]
    by (simp add: ensures_def retire_step_def echeck_def split: option.splits)
qed

lemma complete_inv:
  assumes cb: "lawful_callbacks cb" and i: "evidence_inv st"
  shows "ensures (complete_step cb ref) evidence_inv (\<lambda>_. evidence_inv) st"
proof -
  have pr: "ensures (protect (retire_step cb k p)) evidence_inv (\<lambda>_. evidence_inv) st" if "map_of (ng_pending st) k = Some p" for k p
    by (rule ensures_protect [OF engine_retire_inv [OF cb i that]])
  let ?body = "\<lambda>st. let r = ob_receipts (ng_objects st) ref; engine = rt_engine_id r in
       case map_of (ng_pending st) engine of
         None \<Rightarrow> reject ForeignReceipt st
       | Some p \<Rightarrow>
           if ps_receipt p \<noteq> ref then reject ForeignReceipt st
           else if next_pending st \<noteq> Some engine \<or> rt_completed_at_ps r \<noteq> ng_now_ps st then reject OutOfDueOrder st
           else protect (retire_step cb engine p) st"
  have "ensures ?body evidence_inv (\<lambda>_. evidence_inv) st"
    using i pr by (cases "map_of (ng_pending st) (rt_engine_id (ob_receipts (ng_objects st) ref))") (auto simp: ensures_def reject_def Let_def)
  then show ?thesis unfolding complete_step_def by (intro ensures_ebind ensures_mono [OF check_action_ensures [OF i]]) auto
qed

lemma complete_all_inv: "lawful_callbacks cb \<Longrightarrow> evidence_inv st \<Longrightarrow> evidence_inv (fst (run_all (\<lambda>s ref. complete_step cb ref s) st refs))"
proof (induction refs arbitrary: st)
  case (Cons ref refs)
  have "evidence_inv (fst (complete_step cb ref st))" using complete_inv [OF Cons.prems] by (rule ensures_inv)
  moreover have "evidence_inv (fst (run_all (\<lambda>s ref. complete_step cb ref s) u refs))" if "evidence_inv u" for u
    using Cons.IH [OF Cons.prems(1) that] .
  ultimately show ?case by (cases "complete_step cb ref st"; cases "snd (complete_step cb ref st)") (force split: prod.splits sum.splits)+
qed simp

lemma engine_step_inv:
  assumes cb: "lawful_callbacks cb" and i: "evidence_inv st" and s: "engine_step cb st x = (t, r)" shows "evidence_inv t"
proof -
  have "evidence_inv (fst (engine_step cb st x))"
  proof (cases x)
    case (Submit k rec res g p bs)
    then show ?thesis using ensures_inv [OF submit_inv [OF cb i]] by (simp add: fst_map_prod)
  next
    case (Advance at_ps)
    then show ?thesis using ensures_inv [OF advance_inv [OF i]] by simp
  next
    case (Claim ref u pl rec res)
    then show ?thesis using inv_same [OF claim_same_evidence, of ref u pl rec res st] i by simp
  next
    case (Complete ref)
    then show ?thesis using ensures_inv [OF complete_inv [OF cb i]] by simp
  next
    case CompleteDue
    have all: "evidence_inv t" if "run_all (\<lambda>s ref. complete_step cb ref s) st refs = (t, r)" for refs t r
      using complete_all_inv [OF cb i, of refs] that by simp
    have "ensures (complete_due cb) evidence_inv (\<lambda>_. evidence_inv) st" unfolding complete_due_def
      by (rule ensures_ebind, rule ensures_mono [OF check_action_ensures [OF i]])
        (auto simp: ensures_def Let_def split: prod.splits sum.splits dest: all)
    then show ?thesis using CompleteDue by (simp add: ensures_inv)
  next
    case Close
    have "ensures close_engine evidence_inv (\<lambda>_. evidence_inv) st"
      using i check_action_ensures [OF i] by (auto simp: ensures_def close_engine_def ebind_def reject_def split: prod.splits sum.splits)
    then show ?thesis using Close by (simp add: ensures_inv)
  qed (use i in simp_all)
  then show ?thesis using s by simp
qed

interpretation engine: invariant_machine "engine_step cb" "\<lambda>st. lawful_callbacks cb \<longrightarrow> evidence_inv st" for cb
  by unfold_locales (blast intro: engine_step_inv)


subsection \<open>Properties\<close>









end
