(* ===== verification/Pd_Session.thy ===== *)
theory Pd_Session
  imports Clock Step_Json
begin

text \<open>
  The timing records of a disaggregated prefill/decode session (\<open>simllm/core/pd_session.py\<close>): the handoff of
  a prompt's KV cache from the prefill to the decode pool, priced by a declared constant or observed as
  a join of packet shards, and the timeline of a request through both pools.  Every record has the
  checks of its constructor.  Native observations are flat dictionaries of text, integers and \<open>None\<close>.
\<close>

datatype pd_error =
    PdBlank | PdNegative | PdNotPositive | PdNotInteger | HandoffOrder | UnknownArm | UnknownAuthority | HandoffQueue | HandoffTail
  | OffArm | ConstantArm | PacketArm | NoSubmissionDelay | NoSequences | SequenceGap | ShardLifecycle | ShardFlow
  | ShardTimes | ShardIdentity | JoinShards | JoinBytes | JoinEligibility | PolicyZero | PolicyDisabled | HandoffRequest
  | NoTokens | TimelineOrder | HandoffStart | DecompositionTotal | SessionClock clock_error

definition pd_nonneg :: "int \<Rightarrow> pd_error option" where
  "pd_nonneg i = guard (0 \<le> i) PdNegative"

definition pd_positive :: "int \<Rightarrow> pd_error option" where
  "pd_positive i = first_err [pd_nonneg i, guard (i \<noteq> 0) PdNotPositive]"

definition pd_text :: "string \<Rightarrow> pd_error option" where
  "pd_text s = guard (nonblank s) PdBlank"

lemma pd_None [simp]:
  "pd_nonneg i = None \<longleftrightarrow> 0 \<le> i" "pd_positive i = None \<longleftrightarrow> 0 < i" "pd_text s = None \<longleftrightarrow> nonblank s"
  by (auto simp: pd_nonneg_def pd_positive_def pd_text_def)

subsection \<open>Geometry\<close>

datatype serving_pool_role = PREFILL_POOL | DECODE_POOL

record kv_handoff_geometry =
  hg_num_layers :: int
  hg_num_kv_heads :: int
  hg_head_size :: int
  hg_element_bytes :: int

definition check_geometry :: "kv_handoff_geometry \<Rightarrow> pd_error option" where
  "check_geometry g = first_err (map pd_positive [hg_num_layers g, hg_num_kv_heads g, hg_head_size g, hg_element_bytes g])"

definition handoff_bytes_per_token :: "kv_handoff_geometry \<Rightarrow> int" where
  "handoff_bytes_per_token g = 2 * hg_num_layers g * hg_num_kv_heads g * hg_head_size g * hg_element_bytes g"

definition bytes_for_prompt :: "kv_handoff_geometry \<Rightarrow> int \<Rightarrow> pd_error + int" where
  "bytes_for_prompt g prompt_tokens =
     (case pd_positive prompt_tokens of Some e \<Rightarrow> Inl e | None \<Rightarrow> Inr (handoff_bytes_per_token g * prompt_tokens))"

subsection \<open>Handoff events\<close>

definition kv_handoff_authority :: string where
  "kv_handoff_authority = ''simllm-declared-kv-handoff-v1''"

definition packet_kv_handoff_authority :: string where
  "packet_kv_handoff_authority = ''simllm-packet-kv-handoff-v1''"

definition shared_packet_kv_handoff_authority :: string where
  "shared_packet_kv_handoff_authority = ''simllm-shared-packet-kv-handoff-v1''"

definition kv_handoff_arms :: "string list" where
  "kv_handoff_arms = [''off'', ''declared-constant'', ''packet'']"

record kv_handoff_event =
  he_request_id :: string
  he_kv_bytes :: int
  he_submitted_at_ps :: int
  he_eligible_at_ps :: int
  he_started_at_ps :: int
  he_finished_at_ps :: int
  he_completed_at_ps :: int
  he_pricing_arm :: string
  he_authority :: string

definition submission_ps :: "kv_handoff_event \<Rightarrow> int" where
  "submission_ps e = he_eligible_at_ps e - he_submitted_at_ps e"

definition handoff_service_ps :: "kv_handoff_event \<Rightarrow> int" where
  "handoff_service_ps e = he_finished_at_ps e - he_started_at_ps e"

definition handoff_times :: "kv_handoff_event \<Rightarrow> int list" where
  "handoff_times e = [he_submitted_at_ps e, he_eligible_at_ps e, he_started_at_ps e, he_finished_at_ps e, he_completed_at_ps e]"

definition check_handoff :: "kv_handoff_event \<Rightarrow> pd_error option" where
  "check_handoff e =
     first_err
       [pd_text (he_request_id e), pd_positive (he_kv_bytes e), first_err (map pd_nonneg (handoff_times e)),
        guard (sort (handoff_times e) = handoff_times e) HandoffOrder,
        guard (he_pricing_arm e \<in> set kv_handoff_arms) UnknownArm,
        guard (he_authority e \<in> {kv_handoff_authority, packet_kv_handoff_authority}) UnknownAuthority,
        guard (he_started_at_ps e - he_eligible_at_ps e = 0) HandoffQueue,
        guard (he_completed_at_ps e - he_finished_at_ps e = 0) HandoffTail,
        (if he_pricing_arm e = ''off''
         then guard (he_authority e = kv_handoff_authority \<and> he_completed_at_ps e - he_submitted_at_ps e = 0) OffArm
         else if he_pricing_arm e = ''declared-constant''
         then first_err [guard (he_authority e = kv_handoff_authority) ConstantArm,
                guard (submission_ps e = 0 \<and> handoff_service_ps e \<noteq> 0) ConstantArm]
         else first_err [guard (he_authority e = packet_kv_handoff_authority) PacketArm,
                guard (submission_ps e \<noteq> 0 \<and> handoff_service_ps e \<noteq> 0) PacketArm])]"

subsection \<open>Shared handoffs\<close>

record pending_kv_handoff =
  ph_request_id :: string
  ph_source_engine_id :: string
  ph_destination_engine_id :: string
  ph_kv_bytes :: int
  ph_submitted_at_ps :: int
  ph_eligible_at_ps :: int
  ph_sequences :: "int list"

definition check_pending_handoff :: "pending_kv_handoff \<Rightarrow> pd_error option" where
  "check_pending_handoff h =
     first_err
       [pd_text (ph_request_id h), pd_text (ph_source_engine_id h), pd_text (ph_destination_engine_id h), pd_positive (ph_kv_bytes h),
        pd_nonneg (ph_submitted_at_ps h), pd_positive (ph_eligible_at_ps h), guard (ph_submitted_at_ps h < ph_eligible_at_ps h) NoSubmissionDelay,
        guard (ph_sequences h \<noteq> []) NoSequences, first_err (map pd_positive (ph_sequences h)),
        guard (ph_sequences h = [hd (ph_sequences h)..hd (ph_sequences h) + int (length (ph_sequences h)) - 1]) SequenceGap]"

datatype cell = CellStr string | CellInt int | CellNone

type_synonym observation = "(string, cell) dict"

definition cell_of :: "observation \<Rightarrow> string \<Rightarrow> cell" where
  "cell_of row k = dict_get row k CellNone"

definition cell_int :: "cell \<Rightarrow> pd_error + int" where
  "cell_int c = (case c of CellInt i \<Rightarrow> Inr i | _ \<Rightarrow> Inl PdNotInteger)"

definition cell_nonneg :: "observation \<Rightarrow> string \<Rightarrow> pd_error option" where
  "cell_nonneg row k = (case cell_int (cell_of row k) of Inl e \<Rightarrow> Some e | Inr i \<Rightarrow> pd_nonneg i)"

definition cell_positive :: "observation \<Rightarrow> string \<Rightarrow> pd_error option" where
  "cell_positive row k = (case cell_int (cell_of row k) of Inl e \<Rightarrow> Some e | Inr i \<Rightarrow> pd_positive i)"

definition cell_text :: "observation \<Rightarrow> string \<Rightarrow> pd_error option" where
  "cell_text row k = (case cell_of row k of CellStr s \<Rightarrow> pd_text s | _ \<Rightarrow> Some PdBlank)"

definition int_cell :: "observation \<Rightarrow> string \<Rightarrow> int" where
  "int_cell row k = (case cell_of row k of CellInt i \<Rightarrow> i | _ \<Rightarrow> 0)"

record kv_handoff_shard =
  sh_row :: observation
  sh_events :: "observation list"

definition shard_identity :: "string list" where
  "shard_identity = [''sequence'', ''execution_id'', ''operation_id'', ''flow_id'', ''source'', ''destination'', ''payload_bytes'']"

definition shard_times :: "kv_handoff_shard \<Rightarrow> int list" where
  "shard_times s = map (\<lambda>e. int_cell e ''timestamp_ps'') (sh_events s)"

definition check_shard :: "kv_handoff_shard \<Rightarrow> pd_error option" where
  "check_shard s =
     (let row = sh_row s; times = shard_times s in
      first_err
        [guard (map (\<lambda>e. cell_of e ''kind'') (sh_events s) = map CellStr [''accepted'', ''queued'', ''started'', ''completed'']) ShardLifecycle,
         first_err (map (cell_positive row) [''sequence'', ''payload_bytes'']),
         first_err (map (cell_nonneg row) [''source'', ''destination'', ''start_time_ps'', ''completion_time_ps'', ''fct_ps'']),
         first_err (map (cell_text row) [''execution_id'', ''operation_id'', ''flow_id'']),
         guard (cell_of row ''completion_status'' = CellStr ''success'' \<and> cell_of row ''source'' \<noteq> cell_of row ''destination'') ShardFlow,
         first_err (map (\<lambda>e. cell_nonneg e ''timestamp_ps'') (sh_events s)),
         guard (sort times = times \<and> hd times = int_cell row ''start_time_ps'' \<and> last times = int_cell row ''completion_time_ps'' \<and>
           int_cell row ''fct_ps'' = last times - hd times) ShardTimes,
         guard (list_all (\<lambda>e. list_all (\<lambda>k. cell_of e k = cell_of row k) shard_identity) (sh_events s)) ShardIdentity])"

definition shard_sequence :: "kv_handoff_shard \<Rightarrow> int" where
  "shard_sequence s = int_cell (sh_row s) ''sequence''"

definition shard_completed_at_ps :: "kv_handoff_shard \<Rightarrow> int" where
  "shard_completed_at_ps s = int_cell (sh_row s) ''completion_time_ps''"

record kv_handoff_join =
  jn_submission :: pending_kv_handoff
  jn_shards :: "kv_handoff_shard list"

definition check_join :: "kv_handoff_join \<Rightarrow> pd_error option" where
  "check_join j =
     first_err
       [check_pending_handoff (jn_submission j),
        guard (map shard_sequence (jn_shards j) = ph_sequences (jn_submission j)) JoinShards,
        guard (sum_list (map (\<lambda>s. int_cell (sh_row s) ''payload_bytes'') (jn_shards j)) = ph_kv_bytes (jn_submission j)) JoinBytes,
        guard (list_all (\<lambda>s. int_cell (sh_row s) ''start_time_ps'' = ph_eligible_at_ps (jn_submission j)) (jn_shards j)) JoinEligibility]"

definition join_completed_at_ps :: "kv_handoff_join \<Rightarrow> int" where
  "join_completed_at_ps j = Max (set (map shard_completed_at_ps (jn_shards j)))"

definition critical_shard_sequences :: "kv_handoff_join \<Rightarrow> int list" where
  "critical_shard_sequences j = map shard_sequence (filter (\<lambda>s. shard_completed_at_ps s = join_completed_at_ps j) (jn_shards j))"

subsection \<open>Declared pricing\<close>

record declared_handoff_policy =
  hp_duration_ps :: int
  hp_enabled :: bool

definition check_policy :: "declared_handoff_policy \<Rightarrow> pd_error option" where
  "check_policy p =
     first_err [pd_nonneg (hp_duration_ps p), guard (\<not> (hp_enabled p \<and> hp_duration_ps p = 0)) PolicyZero,
       guard (\<not> (\<not> hp_enabled p \<and> hp_duration_ps p \<noteq> 0)) PolicyDisabled]"

definition handoff_off :: declared_handoff_policy where
  "handoff_off = \<lparr>hp_duration_ps = 0, hp_enabled = False\<rparr>"

definition declared_event :: "declared_handoff_policy \<Rightarrow> int \<Rightarrow> string \<Rightarrow> int \<Rightarrow> kv_handoff_event" where
  "declared_event p submitted request_id kv_bytes =
     \<lparr>he_request_id = request_id, he_kv_bytes = kv_bytes, he_submitted_at_ps = submitted, he_eligible_at_ps = submitted,
      he_started_at_ps = submitted, he_finished_at_ps = submitted + hp_duration_ps p, he_completed_at_ps = submitted + hp_duration_ps p,
      he_pricing_arm = (if hp_enabled p then ''declared-constant'' else ''off''), he_authority = kv_handoff_authority\<rparr>"

definition schedule_handoff :: "declared_handoff_policy \<Rightarrow> int \<Rightarrow> string \<Rightarrow> int \<Rightarrow> pd_error + kv_handoff_event" where
  "schedule_handoff p submitted request_id kv_bytes =
     (case pd_nonneg submitted of Some e \<Rightarrow> Inl e | None \<Rightarrow>
        (let e = declared_event p submitted request_id kv_bytes in
         case check_handoff e of Some err \<Rightarrow> Inl err | None \<Rightarrow> Inr e))"

definition apply_handoff :: "declared_handoff_policy \<Rightarrow> string \<Rightarrow> int \<Rightarrow> 'a virtual_clock \<Rightarrow> 'a virtual_clock \<times> (pd_error + kv_handoff_event)" where
  "apply_handoff p request_id kv_bytes c =
     (case schedule_handoff p (now_ps c) request_id kv_bytes of
        Inl err \<Rightarrow> (c, Inl err)
      | Inr e \<Rightarrow>
          (case Clock.advance_to c (he_completed_at_ps e) of
             (c', Inl err) \<Rightarrow> (c', Inl (SessionClock err))
           | (c', Inr _) \<Rightarrow> (c', Inr e)))"

subsection \<open>The timeline of a request\<close>

datatype kv_handoff = HandoffEvent kv_handoff_event | HandoffJoin kv_handoff_join


fun handoff_submitted :: "kv_handoff \<Rightarrow> int" where
  "handoff_submitted (HandoffEvent e) = he_submitted_at_ps e"
| "handoff_submitted (HandoffJoin j) = ph_submitted_at_ps (jn_submission j)"

fun handoff_completed :: "kv_handoff \<Rightarrow> int" where
  "handoff_completed (HandoffEvent e) = he_completed_at_ps e"
| "handoff_completed (HandoffJoin j) = join_completed_at_ps j"

definition handoff_total_ps :: "kv_handoff \<Rightarrow> int" where
  "handoff_total_ps h = handoff_completed h - handoff_submitted h"

record request_timeline =
  tl_request_id :: string
  tl_admitted_at_ps :: int
  tl_prefill_eligible_at_ps :: int
  tl_prefill_completed_at_ps :: int
  tl_handoff :: kv_handoff
  tl_decode_eligible_at_ps :: int
  tl_decode_tokens :: "int list"

definition prefill_queue_ps :: "request_timeline \<Rightarrow> int" where
  "prefill_queue_ps t = tl_prefill_eligible_at_ps t - tl_admitted_at_ps t"

definition prefill_service_ps :: "request_timeline \<Rightarrow> int" where
  "prefill_service_ps t = tl_prefill_completed_at_ps t - tl_prefill_eligible_at_ps t"

definition decode_admission_wait_ps :: "request_timeline \<Rightarrow> int" where
  "decode_admission_wait_ps t = tl_decode_eligible_at_ps t - handoff_completed (tl_handoff t)"

definition decode_first_token_service_ps :: "request_timeline \<Rightarrow> int" where
  "decode_first_token_service_ps t = hd (tl_decode_tokens t) - tl_decode_eligible_at_ps t"

definition decomposition_parts :: "request_timeline \<Rightarrow> int list" where
  "decomposition_parts t =
     [prefill_queue_ps t, prefill_service_ps t, handoff_total_ps (tl_handoff t), decode_admission_wait_ps t, decode_first_token_service_ps t]"

definition ttft_ps :: "request_timeline \<Rightarrow> int" where
  "ttft_ps t = hd (tl_decode_tokens t) - tl_admitted_at_ps t"

definition tpot_ps :: "request_timeline \<Rightarrow> rat option" where
  "tpot_ps t =
     (if length (tl_decode_tokens t) = 1 then None
      else Some (Fract (last (tl_decode_tokens t) - hd (tl_decode_tokens t)) (int (length (tl_decode_tokens t)) - 1)))"



subsection \<open>JSON\<close>

fun cell_to_json :: "cell \<Rightarrow> json" where
  "cell_to_json (CellStr s) = JStr s"
| "cell_to_json (CellInt i) = JInt i"
| "cell_to_json CellNone = JNull"

definition observation_to_json :: "observation \<Rightarrow> json" where
  "observation_to_json row = JObject (map (\<lambda>(k, c). (k, cell_to_json c)) row)"

definition shard_to_json :: "kv_handoff_shard \<Rightarrow> json" where
  "shard_to_json s = JObject [(''row'', observation_to_json (sh_row s)), (''events'', JArray (map observation_to_json (sh_events s)))]"

definition join_to_json :: "kv_handoff_join \<Rightarrow> json" where
  "join_to_json j =
     (let h = jn_submission j in
      JObject [(''authority'', JStr shared_packet_kv_handoff_authority), (''pricing_arm'', JStr ''shared-packet''),
        (''source_engine_id'', JStr (ph_source_engine_id h)), (''destination_engine_id'', JStr (ph_destination_engine_id h)),
        (''kv_bytes'', JInt (ph_kv_bytes h)), (''submitted_at_ps'', JInt (ph_submitted_at_ps h)), (''eligible_at_ps'', JInt (ph_eligible_at_ps h)),
        (''completed_at_ps'', JInt (join_completed_at_ps j)),
        (''critical_shard_sequences'', JArray (map JInt (critical_shard_sequences j))), (''shards'', JArray (map shard_to_json (jn_shards j)))])"

definition handoff_to_json :: "kv_handoff \<Rightarrow> json" where
  "handoff_to_json h =
     (case h of
        HandoffJoin j \<Rightarrow> join_to_json j
      | HandoffEvent e \<Rightarrow>
          JObject [(''authority'', JStr (he_authority e)), (''pricing_arm'', JStr (he_pricing_arm e)), (''kv_bytes'', JInt (he_kv_bytes e)),
            (''submitted_at_ps'', JInt (he_submitted_at_ps e)), (''eligible_at_ps'', JInt (he_eligible_at_ps e)),
            (''started_at_ps'', JInt (he_started_at_ps e)), (''finished_at_ps'', JInt (he_finished_at_ps e)),
            (''completed_at_ps'', JInt (he_completed_at_ps e))])"

definition timeline_to_json :: "request_timeline \<Rightarrow> json" where
  "timeline_to_json t =
     JObject [(''schema'', JStr ''simllm-pd-session-result-v1''), (''request_id'', JStr (tl_request_id t)),
       (''admitted_at_ps'', JInt (tl_admitted_at_ps t)), (''prefill_eligible_at_ps'', JInt (tl_prefill_eligible_at_ps t)),
       (''prefill_completed_at_ps'', JInt (tl_prefill_completed_at_ps t)), (''handoff'', handoff_to_json (tl_handoff t)),
       (''decode_eligible_at_ps'', JInt (tl_decode_eligible_at_ps t)), (''decode_token_completed_at_ps'', JArray (map JInt (tl_decode_tokens t))),
       (''ttft_ps'', JInt (ttft_ps t)),
       (''tpot_ps'', (case tpot_ps t of None \<Rightarrow> JNull
          | Some q \<Rightarrow> JObject [(''numerator'', JInt (fst (quotient_of q))), (''denominator'', JInt (snd (quotient_of q)))])),
       (''decomposition'', JObject (zip [''prefill_queue_ps'', ''prefill_service_ps'', ''handoff_ps'', ''decode_admission_wait_ps'',
          ''decode_first_token_service_ps'', ''total_ps''] (map JInt (decomposition_parts t @ [sum_list (decomposition_parts t)]))))]"

subsection \<open>Properties\<close>

lemma sort_fixed_sorted: "sort xs = xs \<Longrightarrow> sorted xs"
  by (metis sorted_sort)

text \<open>Declared pricing never builds a rejected event, and the handoff takes exactly the declared time.\<close>

lemma check_declared_event:
  assumes "check_policy p = None" "0 \<le> submitted" "nonblank request_id" "0 < kv_bytes"
  shows "check_handoff (declared_event p submitted request_id kv_bytes) = None"
proof -
  have d: "0 \<le> hp_duration_ps p" "hp_enabled p = (hp_duration_ps p \<noteq> 0)" using assms(1) by (auto simp: check_policy_def)
  have "sort (handoff_times (declared_event p submitted request_id kv_bytes)) = handoff_times (declared_event p submitted request_id kv_bytes)"
    using d(1) by (intro sort_key_id_if_sorted) (simp add: handoff_times_def declared_event_def)
  then show ?thesis using assms(2-4) d
    by (simp add: check_handoff_def) (simp add: declared_event_def handoff_times_def kv_handoff_arms_def submission_ps_def handoff_service_ps_def)
qed

theorem declared_handoff_valid:
  assumes "check_policy p = None" "0 \<le> submitted" "nonblank request_id" "0 < kv_bytes"
  shows "\<exists>e. schedule_handoff p submitted request_id kv_bytes = Inr e \<and> check_handoff e = None \<and> he_submitted_at_ps e = submitted \<and>
    he_completed_at_ps e = submitted + hp_duration_ps p"
proof -
  have "schedule_handoff p submitted request_id kv_bytes = Inr (declared_event p submitted request_id kv_bytes)"
    using assms(2) check_declared_event [OF assms] by (simp add: schedule_handoff_def pd_nonneg_def guard_def)
  then show ?thesis using check_declared_event [OF assms] by (auto simp: declared_event_def)
qed

text \<open>A join ends with its last shard, after it became eligible, and some accepted shard is critical.\<close>

theorem join_completes_last:
  assumes "check_join j = None" "list_all (\<lambda>s. check_shard s = None) (jn_shards j)"
  shows "ph_submitted_at_ps (jn_submission j) < join_completed_at_ps j \<and> critical_shard_sequences j \<noteq> [] \<and>
    set (critical_shard_sequences j) \<subseteq> set (ph_sequences (jn_submission j)) \<and>
    list_all (\<lambda>s. shard_completed_at_ps s \<le> join_completed_at_ps j) (jn_shards j)"
proof -
  have h: "ph_submitted_at_ps (jn_submission j) < ph_eligible_at_ps (jn_submission j)" "ph_sequences (jn_submission j) \<noteq> []"
    "map shard_sequence (jn_shards j) = ph_sequences (jn_submission j)"
    "list_all (\<lambda>s. int_cell (sh_row s) ''start_time_ps'' = ph_eligible_at_ps (jn_submission j)) (jn_shards j)"
    using assms(1) by (auto simp: check_join_def check_pending_handoff_def)
  have ne: "jn_shards j \<noteq> []" using h(2,3) by auto
  have late: "ph_eligible_at_ps (jn_submission j) \<le> shard_completed_at_ps s" if s: "s \<in> set (jn_shards j)" for s
  proof -
    have c: "check_shard s = None" "int_cell (sh_row s) ''start_time_ps'' = ph_eligible_at_ps (jn_submission j)"
      using assms(2) h(4) s by (auto simp: list_all_iff)
    have k: "map (\<lambda>e. cell_of e ''kind'') (sh_events s) = map CellStr [''accepted'', ''queued'', ''started'', ''completed'']"
      and t: "sort (shard_times s) = shard_times s" "hd (shard_times s) = int_cell (sh_row s) ''start_time_ps''"
        "last (shard_times s) = int_cell (sh_row s) ''completion_time_ps''"
      using c(1) unfolding check_shard_def Let_def by (simp_all del: list.map)
    have "length (shard_times s) = 4" using arg_cong [OF k, of length] by (simp add: shard_times_def)
    then obtain a b c' d where x: "shard_times s = [a, b, c', d]" by (auto simp: numeral_eq_Suc length_Suc_conv)
    have "a \<le> d" using sort_fixed_sorted [OF t(1)] by (simp add: x)
    then show ?thesis using t(2,3) c(2) by (simp add: x shard_completed_at_ps_def)
  qed
  let ?C = "set (map shard_completed_at_ps (jn_shards j))"
  have max: "join_completed_at_ps j \<in> ?C" unfolding join_completed_at_ps_def using ne by (intro Max_in) auto
  then obtain s where s: "s \<in> set (jn_shards j)" "shard_completed_at_ps s = join_completed_at_ps j" by auto
  have "critical_shard_sequences j \<noteq> []" using s by (auto simp: critical_shard_sequences_def filter_empty_conv)
  moreover have "set (critical_shard_sequences j) \<subseteq> set (ph_sequences (jn_submission j))"
    unfolding h(3) [symmetric] by (auto simp: critical_shard_sequences_def)
  moreover have "shard_completed_at_ps u \<le> join_completed_at_ps j" if "u \<in> set (jn_shards j)" for u
    unfolding join_completed_at_ps_def using that by (intro Max_ge) auto
  ultimately show ?thesis using late [OF s(1)] s(2) h(1) by (simp add: list_all_iff)
qed




end
